(* ===== verification/Skill_Prelude.thy ===== *)
theory Skill_Prelude
  imports Complex_Main "HOL-Library.List_Lexorder" "HOL-Library.Char_ord" "HOL-Library.AList"
    "HOL-Library.Multiset"
begin

text \<open>
  Shared vocabulary of the development: Python's exceptions as values, the result
  type of fallible code and its sequencing, the parts of Python's built-ins that the
  modelled code calls (\<open>max\<close> with a default, \<open>str.join\<close>, \<open>str.split\<close>,
  \<open>str.startswith\<close>, \<open>dict\<close> stores that keep insertion order, sorting of a set), and
  the generic facts about lists, association lists and reals that the component theories use.

  Python strings are HOL strings (lists of characters); both order strings
  lexicographically by code point. Python floats that survived a range check are reals;
  a float that may still be infinite or not a number is a \<open>pfloat\<close>.
\<close>

section \<open>Collections of facts\<close>

named_theorems res_simps \<open>sequencing of fallible operations\<close>
named_theorems kernel_defs \<open>definitions of the detection kernel that proofs unfold together\<close>

section \<open>Exceptions and results\<close>

datatype py_error =
    ValueError
  | TypeError
  | KeyError
  | StructError
  | RuntimeError
  | OverflowError
  | GatePolicyLoadError
  | AllowlistError
  | PolicyProposalError
  | InvalidDecisionError
  | ReviewNotFoundError
  | SodViolationError
  | NotPendingReviewError
  | SupersededReviewError
  | InvalidTransitionError
  | UntrustedFindingsError
  | PushEventVerificationError
  | SkillOwnershipError
  | ContentRegisteredToAnotherSkillError
  | InvalidOwnerError
  | OwnerAssignmentConflictError
  | InvalidCronError
  | UnknownReportTemplateError
  | StaleTailDetected
  | OperationalError
  | AssertionError
  | IntegrityError
  | BlobNotFoundError
  | UnpackRejected
  | TarError
  | EOFError
  | OSError
  | BadZipFile
  | LargeZipFile
  | ZlibError
  | NotImplementedError
  | EngineFailure
  | ReportingError
  | UnknownEngineNameError
  | EngineDisableError
  | YAMLError
  | RedisError
  | SQLAlchemyError
  | AttributeError
  | SessionError
  | IntrospectionUnavailableError
  | M2MError
  | CsrfError
  | GroupRoleMapLoadError
  | SessionTtlTooLongError
  | JSONDecodeError
  | UnicodeDecodeError
  | AuthenticationError
  | AuthorizationError
  | CsrfValidationError
  | LocalAuthError
  | AdminAccountError
  | BreakGlassError
  | BreakGlassVaultReadError

type_synonym 'a res = "py_error + 'a"

definition res_bind :: "'a res \<Rightarrow> ('a \<Rightarrow> 'b res) \<Rightarrow> 'b res" where
  "res_bind m f = (case m of Inl e \<Rightarrow> Inl e | Inr x \<Rightarrow> f x)"

lemma res_bind_Inl [simp, res_simps]: "res_bind (Inl e) f = Inl e"
  by (simp add: res_bind_def)

lemma res_bind_Inr [simp, res_simps]: "res_bind (Inr x) f = f x"
  by (simp add: res_bind_def)

lemma res_bind_eq_Inr:
  "res_bind m f = Inr y \<longleftrightarrow> (\<exists>x. m = Inr x \<and> f x = Inr y)"
  by (cases m) auto

lemma res_bind_eq_Inl:
  "res_bind m f = Inl e \<longleftrightarrow> m = Inl e \<or> (\<exists>x. m = Inr x \<and> f x = Inl e)"
  by (cases m) auto

text \<open>A guard of the source: \<open>if c: raise e\<close>.\<close>

definition raise_if :: "bool \<Rightarrow> py_error \<Rightarrow> unit res" where
  "raise_if c e = (if c then Inl e else Inr ())"

lemma raise_if_simps [simp, res_simps]:
  "raise_if True e = Inl e" "raise_if False e = Inr ()"
  by (simp_all add: raise_if_def)

lemma raise_if_eq_Inr [simp]: "raise_if c e = Inr u \<longleftrightarrow> \<not> c"
  by (simp add: raise_if_def)

lemma raise_if_eq_Inl [simp]: "raise_if c e = Inl e' \<longleftrightarrow> c \<and> e' = e"
  by (auto simp: raise_if_def)

text \<open>A comprehension whose body may raise stops at the first error.\<close>

fun res_map :: "('a \<Rightarrow> 'b res) \<Rightarrow> 'a list \<Rightarrow> 'b list res" where
  "res_map f [] = Inr []"
| "res_map f (x # xs) =
     res_bind (f x) (\<lambda>y. res_bind (res_map f xs) (\<lambda>ys. Inr (y # ys)))"

lemma res_map_eq_Inr:
  "res_map f xs = Inr ys \<longleftrightarrow> list_all2 (\<lambda>x y. f x = Inr y) xs ys"
proof (induction xs arbitrary: ys)
  case Nil
  then show ?case by auto
next
  case (Cons x xs)
  then show ?case
    by (cases ys) (auto simp: res_bind_eq_Inr)
qed

lemma res_map_Inr_all: "\<forall>x \<in> set xs. f x = Inr (g x) \<Longrightarrow> res_map f xs = Inr (map g xs)"
  by (induction xs) auto

lemma res_map_cong [fundef_cong]:
  "xs = ys \<Longrightarrow> (\<And>x. x \<in> set ys \<Longrightarrow> f x = g x) \<Longrightarrow> res_map f xs = res_map g ys"
proof -
  have "(\<And>x. x \<in> set ys \<Longrightarrow> f x = g x) \<Longrightarrow> res_map f ys = res_map g ys" by (induction ys) auto
  then show "xs = ys \<Longrightarrow> (\<And>x. x \<in> set ys \<Longrightarrow> f x = g x) \<Longrightarrow> res_map f xs = res_map g ys" by simp
qed

section \<open>Python built-ins\<close>

definition py_max :: "'a::linorder \<Rightarrow> 'a list \<Rightarrow> 'a" where
  "py_max d xs = (case xs of [] \<Rightarrow> d | y # ys \<Rightarrow> fold max ys y)"

lemma py_max_Nil [simp]: "py_max d [] = d"
  by (simp add: py_max_def)

lemma py_max_Cons: "py_max d (x # xs) = Max (insert x (set xs))"
  by (simp add: py_max_def Max.set_eq_fold [symmetric])

lemma py_max_eq_Max: "xs \<noteq> [] \<Longrightarrow> py_max d xs = Max (set xs)"
  by (cases xs) (simp_all add: py_max_Cons)

lemma py_max_in: "xs \<noteq> [] \<Longrightarrow> py_max d xs \<in> set xs"
  using Max_in [of "set xs"] by (simp add: py_max_eq_Max)

lemma py_max_ge: "x \<in> set xs \<Longrightarrow> x \<le> py_max d xs"
  by (cases "xs = []") (simp_all add: py_max_eq_Max)

lemma py_max_cong_set: "set xs = set ys \<Longrightarrow> py_max d xs = py_max d ys"
  by (cases "xs = []"; cases "ys = []") (auto simp: py_max_eq_Max)

lemma py_max_mono:
  assumes "set xs \<subseteq> set ys" and "\<And>y. y \<in> set ys \<Longrightarrow> d \<le> y"
  shows "py_max d xs \<le> py_max d ys"
proof (cases "xs = []")
  case True
  then show ?thesis
    using assms(2) py_max_in [of ys d] by (cases "ys = []") auto
next
  case False
  then have "py_max d xs \<in> set ys" using assms(1) py_max_in [of xs d] by blast
  then show ?thesis by (rule py_max_ge)
qed

text \<open>\<open>sep.join(xs)\<close>\<close>

fun py_join :: "'a list \<Rightarrow> 'a list list \<Rightarrow> 'a list" where
  "py_join sep [] = []"
| "py_join sep [x] = x"
| "py_join sep (x # y # xs) = x @ sep @ py_join sep (y # xs)"

text \<open>\<open>str.strip()\<close>: the white space of the first 256 code points.\<close>

definition is_py_space :: "char \<Rightarrow> bool" where
  "is_py_space c \<longleftrightarrow> c \<in> {CHR 0x09, CHR 0x0A, CHR 0x0B, CHR 0x0C, CHR 0x0D, CHR 0x1C, CHR 0x1D, CHR 0x1E,
     CHR 0x1F, CHR 0x20, CHR 0x85, CHR 0xA0}"

definition py_strip :: "string \<Rightarrow> string" where
  "py_strip s = rev (dropWhile is_py_space (rev (dropWhile is_py_space s)))"

text \<open>\<open>str.split()\<close>: the maximal runs of characters that are not white space.\<close>

fun py_words :: "string \<Rightarrow> string \<Rightarrow> string list" where
  "py_words acc [] = (if acc = [] then [] else [rev acc])"
| "py_words acc (c # cs) =
     (if is_py_space c then (if acc = [] then py_words [] cs else rev acc # py_words [] cs) else py_words (c # acc) cs)"

abbreviation split_words :: "string \<Rightarrow> string list" where "split_words s \<equiv> py_words [] s"

definition py_partition :: "char \<Rightarrow> string \<Rightarrow> string \<times> string" where
  "py_partition c s = (takeWhile (\<lambda>x. x \<noteq> c) s, drop 1 (dropWhile (\<lambda>x. x \<noteq> c) s))"

lemma py_words_word:
  "\<forall>c \<in> set w. \<not> is_py_space c \<Longrightarrow> py_words acc (w @ s) = py_words (rev w @ acc) s"
  by (induction w arbitrary: acc) auto

lemma split_words_join:
  "\<forall>w \<in> set ws. w \<noteq> [] \<and> (\<forall>c \<in> set w. \<not> is_py_space c) \<Longrightarrow> split_words (py_join '' '' ws) = ws"
proof (induction ws)
  case (Cons w ws)
  then show ?case
    using py_words_word [of w "[]" "[]"] py_words_word [of w "[]" "'' '' @ py_join '' '' ws"]
    by (cases ws) (auto simp: is_py_space_def)
qed simp

text \<open>\<open>s.split(c)\<close> for a one-character separator: always at least one piece.\<close>

fun py_split :: "'a \<Rightarrow> 'a list \<Rightarrow> 'a list list" where
  "py_split c [] = [[]]"
| "py_split c (x # xs) =
     (if x = c then [] # py_split c xs
      else (case py_split c xs of [] \<Rightarrow> [[x]] | p # ps \<Rightarrow> (x # p) # ps))"

lemma py_split_nonempty [simp]: "py_split c xs \<noteq> []"
  by (induction xs) (auto split: list.splits)

lemma py_split_no_sep: "p \<in> set (py_split c xs) \<Longrightarrow> c \<notin> set p"
proof (induction xs arbitrary: p)
  case Nil
  then show ?case by simp
next
  case (Cons x xs)
  then show ?case by (cases "py_split c xs") (auto split: if_splits)
qed

lemma py_split_append: "c \<notin> set p \<Longrightarrow> py_split c (p @ c # s) = p # py_split c s"
  by (induction p) auto

lemma py_split_no_occurrence: "c \<notin> set s \<Longrightarrow> py_split c s = [s]"
  by (induction s) auto

text \<open>Splitting undoes joining when no piece contains the separator.\<close>

lemma py_split_join:
  "xs \<noteq> [] \<Longrightarrow> \<forall>x \<in> set xs. c \<notin> set x \<Longrightarrow> py_split c (py_join [c] xs) = xs"
proof (induction "[c]" xs rule: py_join.induct)
  case 1
  then show ?case by simp
next
  case (2 x)
  then show ?case by (simp add: py_split_no_occurrence)
next
  case (3 x y xs)
  then show ?case by (simp add: py_split_append)
qed

text \<open>Joining undoes splitting.\<close>

lemma py_join_split: "py_join [c] (py_split c s) = s"
proof (induction s)
  case (Cons x s)
  obtain p ps where "py_split c s = p # ps" by (cases "py_split c s") auto
  then show ?case using Cons by (cases ps) auto
qed simp

lemma sep_append_inject:
  "c \<notin> set x \<Longrightarrow> c \<notin> set y \<Longrightarrow> x @ c # r = y @ c # s \<longleftrightarrow> x = y \<and> r = s"
proof (induction x arbitrary: y)
  case Nil
  then show ?case by (cases y) auto
next
  case (Cons a x)
  then show ?case by (cases y) auto
qed

lemma py_join_eq_Nil: "[] \<notin> set xs \<Longrightarrow> py_join sep xs = [] \<longleftrightarrow> xs = []"
  by (induction sep xs rule: py_join.induct) auto

lemma py_join_inject:
  assumes "\<forall>x \<in> set xs \<union> set ys. c \<notin> set x \<and> x \<noteq> []" and eq: "py_join [c] xs = py_join [c] ys"
  shows "xs = ys"
proof -
  have "xs = [] \<longleftrightarrow> ys = []"
    using assms py_join_eq_Nil [of xs "[c]"] py_join_eq_Nil [of ys "[c]"] by auto
  then show ?thesis
    using assms py_split_join [of xs c] py_split_join [of ys c] by (metis UnCI)
qed

lemma set_py_join: "set (py_join sep xs) \<subseteq> set sep \<union> (\<Union>x \<in> set xs. set x)"
  by (induction sep xs rule: py_join.induct) auto

text \<open>\<open>secrets.compare_digest\<close> on two texts: only ASCII texts are compared.\<close>

definition compare_digest :: "string \<Rightarrow> string \<Rightarrow> bool res" where
  "compare_digest a b =
     (if list_all (\<lambda>c. of_char c < (128 :: nat)) (a @ b) then Inr (a = b) else Inl TypeError)"

lemma compare_digest_True: "compare_digest a b = Inr True \<Longrightarrow> a = b"
  by (simp add: compare_digest_def split: if_splits)

definition py_startswith :: "'a list \<Rightarrow> 'a list \<Rightarrow> bool" where
  "py_startswith s p \<longleftrightarrow> take (length p) s = p"

text \<open>\<open>p in s\<close> for strings: some suffix of \<open>s\<close> starts with \<open>p\<close>.\<close>

fun py_contains :: "'a list \<Rightarrow> 'a list \<Rightarrow> bool" where
  "py_contains p [] = (p = [])"
| "py_contains p (x # xs) = (py_startswith (x # xs) p \<or> py_contains p xs)"

lemma py_contains_iff: "py_contains p s \<longleftrightarrow> (\<exists>u v. s = u @ p @ v)"
proof (induction s)
  case Nil
  then show ?case by simp
next
  case (Cons x xs)
  have "py_startswith (x # xs) p \<longleftrightarrow> (\<exists>v. x # xs = p @ v)"
    by (metis append_eq_conv_conj append_take_drop_id py_startswith_def)
  moreover have "(\<exists>u v. x # xs = u @ p @ v) \<longleftrightarrow>
      (\<exists>v. x # xs = p @ v) \<or> (\<exists>u v. xs = u @ p @ v)"
    by (metis append_Cons append_Nil list.inject neq_Nil_conv)
  ultimately show ?case using Cons.IH by simp
qed

text \<open>A dictionary store: an existing key keeps its place, a new key goes last.\<close>

abbreviation dict_put :: "'k \<Rightarrow> 'v \<Rightarrow> ('k \<times> 'v) list \<Rightarrow> ('k \<times> 'v) list" where
  "dict_put \<equiv> AList.update"

text \<open>\<open>d.setdefault(k, v)\<close>: the first value offered for a key stays.\<close>

definition dict_setdefault :: "'k \<Rightarrow> 'v \<Rightarrow> ('k \<times> 'v) list \<Rightarrow> ('k \<times> 'v) list" where
  "dict_setdefault k v m = (if k \<in> fst ` set m then m else m @ [(k, v)])"

lemma map_of_setdefault:
  "map_of (dict_setdefault k v m) i = (if map_of m i = None \<and> i = k then Some v else map_of m i)"
proof (cases "k \<in> fst ` set m")
  case True
  then have "map_of m k \<noteq> None" by (simp add: map_of_eq_None_iff)
  then show ?thesis using True by (auto simp: dict_setdefault_def)
next
  case False
  then show ?thesis by (auto simp: dict_setdefault_def map_add_def split: option.splits)
qed

lemma map_of_fold_setdefault:
  "map_of (fold (\<lambda>x. dict_setdefault (f x) (g x)) xs m) i =
     (case map_of m i of Some v \<Rightarrow> Some v | None \<Rightarrow> map_option g (List.find (\<lambda>x. f x = i) xs))"
  by (induction xs arbitrary: m) (auto simp: map_of_setdefault split: option.splits)

lemma distinct_map_sort_key: "distinct (map f (sort_key g xs)) \<longleftrightarrow> distinct (map f xs)"
  by (rule mset_eq_imp_distinct_iff) (simp add: mset_map)

lemma map_of_sort_key:
  assumes "distinct (map fst xs)"
  shows "map_of (sort_key f xs) = map_of xs"
proof (rule map_of_eqI)
  show "\<forall>k \<in> set (map fst (sort_key f xs)). map_of (sort_key f xs) k = map_of xs k"
  proof
    fix k assume "k \<in> set (map fst (sort_key f xs))"
    then obtain v where v: "(k, v) \<in> set xs" by auto
    then have "map_of xs k = Some v" using assms by simp
    moreover have "map_of (sort_key f xs) k = Some v"
      by (rule map_of_is_SomeI) (use assms v in \<open>simp_all add: distinct_map_sort_key del: distinct_map\<close>)
    ultimately show "map_of (sort_key f xs) k = map_of xs k" by simp
  qed
qed simp

lemma find_filter: "(\<And>x. P x \<Longrightarrow> Q x) \<Longrightarrow> List.find P (filter Q xs) = List.find P xs"
  by (induction xs) auto

lemma map_of_filter_key: "P k \<Longrightarrow> map_of (filter (\<lambda>(k, v). P k) xs) k = map_of xs k"
  by (induction xs) auto

lemma map_of_map_value: "map_of (map (\<lambda>(k, j). (k, f k j)) xs) s = map_option (f s) (map_of xs s)"
  by (induction xs) auto

section \<open>Floats before their range check\<close>

datatype pfloat = Fin real | PosInf | NegInf | NaN

text \<open>\<open>lo <= x <= hi\<close> for finite bounds: false for every non-finite value.\<close>

definition pfloat_between :: "real \<Rightarrow> pfloat \<Rightarrow> real \<Rightarrow> bool" where
  "pfloat_between lo x hi = (case x of Fin r \<Rightarrow> lo \<le> r \<and> r \<le> hi | _ \<Rightarrow> False)"

definition pfloat_real :: "pfloat \<Rightarrow> real" where
  "pfloat_real x = (case x of Fin r \<Rightarrow> r | _ \<Rightarrow> 0)"

lemma pfloat_between_Fin: "pfloat_between lo x hi \<longleftrightarrow> (\<exists>r. x = Fin r \<and> lo \<le> r \<and> r \<le> hi)"
  by (cases x) (auto simp: pfloat_between_def)

section \<open>Positions of a list that satisfy a condition on what precedes them\<close>

lemma positions_snoc:
  "{h ((xs @ [x]) ! i) | i. i < length (xs @ [x]) \<and> Q ((xs @ [x]) ! i) (take i (xs @ [x]))} =
   {h (xs ! i) | i. i < length xs \<and> Q (xs ! i) (take i xs)} \<union> (if Q x xs then {h x} else {})"
  (is "?L = ?R \<union> ?X")
proof
  show "?L \<subseteq> ?R \<union> ?X"
    by (auto simp: nth_append less_Suc_eq)
  have "?R \<subseteq> ?L"
  proof
    fix y assume "y \<in> ?R"
    then obtain i where "i < length xs" "Q (xs ! i) (take i xs)" "y = h (xs ! i)" by auto
    then show "y \<in> ?L" by (auto simp: nth_append intro!: exI [of _ i])
  qed
  moreover have "?X \<subseteq> ?L" by (auto simp: nth_append intro!: exI [of _ "length xs"])
  ultimately show "?R \<union> ?X \<subseteq> ?L" by blast
qed

section \<open>Best element per key\<close>

text \<open>
  Two parts of the program run the same loop: walk a sequence, keep one element per
  key, and replace the incumbent only by a strictly better one (\<open>scoring._dedup\<close>,
  \<open>reconciliation.reconcile\<close>). The interface names the step, the key and the rank; the
  clients get the two facts that matter: which keys survive, and that the survivor
  of a key is an element of the input with the greatest rank of its key.
\<close>

locale best_per_key =
  fixes key :: "'a \<Rightarrow> 'k"
    and rank :: "'a \<Rightarrow> 'r::linorder"
    and step :: "'a \<Rightarrow> ('k \<times> 'a) list \<Rightarrow> ('k \<times> 'a) list"
  assumes step_new: "map_of m (key x) = None \<Longrightarrow> step x m = dict_put (key x) x m"
    and step_better: "map_of m (key x) = Some y \<Longrightarrow> rank y < rank x \<Longrightarrow>
      step x m = dict_put (key x) x m"
    and step_keep: "map_of m (key x) = Some y \<Longrightarrow> \<not> rank y < rank x \<Longrightarrow> step x m = m"
begin

text \<open>What the store holds after the elements of \<open>seen\<close> were offered to it.\<close>

definition holds_best :: "('k \<times> 'a) list \<Rightarrow> 'a list \<Rightarrow> bool" where
  "holds_best m seen \<longleftrightarrow> distinct (map fst m) \<and> fst ` set m = key ` set seen \<and>
     (\<forall>(k, v) \<in> set m. v \<in> set seen \<and> key v = k \<and>
       (\<forall>x \<in> set seen. key x = k \<longrightarrow> rank x \<le> rank v))"

lemma holds_best_Nil: "holds_best [] []"
  by (simp add: holds_best_def)

lemma holds_best_put:
  assumes best: "holds_best m seen"
    and top: "\<And>y. y \<in> set seen \<Longrightarrow> key y = key x \<Longrightarrow> rank y \<le> rank x"
  shows "holds_best (dict_put (key x) x m) (seen @ [x])"
proof -
  have d: "distinct (map fst m)" using best by (simp add: holds_best_def)
  have mem: "(k, v) \<in> set (dict_put (key x) x m) \<longleftrightarrow>
      (k = key x \<and> v = x) \<or> (k \<noteq> key x \<and> (k, v) \<in> set m)" for k v
  proof -
    have "(k, v) \<in> set (dict_put (key x) x m) \<longleftrightarrow> map_of (dict_put (key x) x m) k = Some v"
      using d by (simp add: distinct_update)
    also have "\<dots> \<longleftrightarrow> (k = key x \<and> v = x) \<or> (k \<noteq> key x \<and> map_of m k = Some v)"
      by (auto simp: update_conv')
    also have "\<dots> \<longleftrightarrow> (k = key x \<and> v = x) \<or> (k \<noteq> key x \<and> (k, v) \<in> set m)"
      using d by simp
    finally show ?thesis .
  qed
  have keys: "fst ` set (dict_put (key x) x m) = key ` set (seen @ [x])"
  proof -
    have "set (map fst (dict_put (key x) x m)) = insert (key x) (set (map fst m))"
      by (auto simp: update_keys)
    then show ?thesis using best by (simp add: holds_best_def)
  qed
  have old: "v \<in> set seen \<and> key v = k \<and> (\<forall>z \<in> set seen. key z = k \<longrightarrow> rank z \<le> rank v)"
    if "(k, v) \<in> set m" for k v
    using best that by (auto simp: holds_best_def)
  show ?thesis
    unfolding holds_best_def
    using d keys top by (auto simp: distinct_update mem dest!: old)
qed

lemma holds_best_step:
  assumes best: "holds_best m seen"
  shows "holds_best (step x m) (seen @ [x])"
proof (cases "map_of m (key x)")
  case None
  then have "key x \<notin> key ` set seen"
    using best by (simp add: holds_best_def map_of_eq_None_iff)
  then show ?thesis
    using best None by (auto simp: step_new image_iff intro!: holds_best_put)
next
  case (Some y)
  then have y: "(key x, y) \<in> set m" by (rule map_of_SomeD)
  then have top: "\<And>z. z \<in> set seen \<Longrightarrow> key z = key x \<Longrightarrow> rank z \<le> rank y"
    using best by (auto simp: holds_best_def)
  show ?thesis
  proof (cases "rank y < rank x")
    case True
    then have "\<And>z. z \<in> set seen \<Longrightarrow> key z = key x \<Longrightarrow> rank z \<le> rank x"
      using top by fastforce
    then show ?thesis using best Some True by (simp add: step_better holds_best_put)
  next
    case False
    have "y \<in> set seen" "key y = key x" using best y by (auto simp: holds_best_def)
    then have "key x \<in> key ` set seen" by (metis imageI)
    then have keys: "key ` set (seen @ [x]) = key ` set seen" by (simp add: insert_absorb)
    have only: "v = y" if "(key x, v) \<in> set m" for v
      using that y best by (auto simp: holds_best_def dest: eq_key_imp_eq_value)
    have "rank z \<le> rank v" if "(k, v) \<in> set m" "z \<in> set (seen @ [x])" "key z = k" for k v z
    proof (cases "z \<in> set seen")
      case True
      then show ?thesis using best that by (auto simp: holds_best_def)
    next
      case False
      then have "z = x" using that(2) by simp
      then show ?thesis using only that \<open>\<not> rank y < rank x\<close> by auto
    qed
    then have "holds_best m (seen @ [x])"
      using best keys unfolding holds_best_def by auto
    then show ?thesis using Some False by (simp add: step_keep)
  qed
qed

lemma holds_best_fold:
  "holds_best m seen \<Longrightarrow> holds_best (fold step xs m) (seen @ xs)"
proof (induction xs arbitrary: m seen)
  case Nil
  then show ?case by simp
next
  case (Cons x xs)
  have "holds_best (fold step xs (step x m)) ((seen @ [x]) @ xs)"
    by (rule Cons.IH, rule holds_best_step, rule Cons.prems)
  then show ?case by simp
qed

lemma holds_best_run: "holds_best (fold step xs []) xs"
  using holds_best_fold [OF holds_best_Nil, of xs] by simp

lemma step_keys: "fst ` set (step x m) = insert (key x) (fst ` set m)"
proof (cases "map_of m (key x)")
  case None
  then have "set (map fst (step x m)) = insert (key x) (set (map fst m))"
    by (auto simp: step_new update_keys)
  then show ?thesis by simp
next
  case (Some y)
  then have old: "key x \<in> fst ` set m" by (force dest: map_of_SomeD)
  then have "set (map fst (step x m)) = set (map fst m)"
    using Some by (cases "rank y < rank x") (auto simp: step_better step_keep update_keys)
  then show ?thesis using old by (simp add: insert_absorb)
qed

lemma fold_keys: "fst ` set (fold step xs m) = fst ` set m \<union> key ` set xs"
  by (induction xs arbitrary: m) (auto simp: step_keys)

lemma run_keys: "fst ` set (fold step xs []) = key ` set xs"
  using holds_best_run [of xs] by (simp add: holds_best_def)

lemma run_distinct: "distinct (map fst (fold step xs []))"
  using holds_best_run [of xs] by (simp add: holds_best_def)

lemma run_member:
  "(k, v) \<in> set (fold step xs []) \<Longrightarrow>
     v \<in> set xs \<and> key v = k \<and> (\<forall>x \<in> set xs. key x = k \<longrightarrow> rank x \<le> rank v)"
  using holds_best_run [of xs] by (auto simp: holds_best_def)

lemma run_covers:
  assumes "x \<in> set xs"
  shows "\<exists>v. (key x, v) \<in> set (fold step xs []) \<and> rank x \<le> rank v"
proof -
  have "key x \<in> fst ` set (fold step xs [])" using assms by (simp add: run_keys)
  then obtain v where "(key x, v) \<in> set (fold step xs [])" by auto
  then show ?thesis using run_member [of "key x" v xs] assms by blast
qed

lemma run_lookup:
  "map_of (fold step xs []) k = Some v \<Longrightarrow>
     v \<in> set xs \<and> key v = k \<and> (\<forall>x \<in> set xs. key x = k \<longrightarrow> rank x \<le> rank v)"
  by (auto dest: map_of_SomeD run_member)

lemma run_lookup_None: "map_of (fold step xs []) k = None \<longleftrightarrow> k \<notin> key ` set xs"
  by (simp add: map_of_eq_None_iff run_keys)

end

section \<open>Prefix codes\<close>

text \<open>
  An encoding whose code words can be read off the front of any string: the length-prefixed
  chunks and the file records that are hashed, and the UTF-8 characters inside them. A
  concatenation of code words then has one reading.
\<close>

locale prefix_code =
  fixes enc :: "'a \<Rightarrow> 'b list"
    and ok :: "'a \<Rightarrow> bool"
  assumes enc_nonempty: "ok x \<Longrightarrow> enc x \<noteq> []"
    and enc_inject: "ok x \<Longrightarrow> ok y \<Longrightarrow> enc x @ r = enc y @ s \<Longrightarrow> x = y \<and> r = s"
begin

lemma concat_inject:
  assumes "\<forall>x \<in> set xs. ok x" "\<forall>y \<in> set ys. ok y"
    and "concat (map enc xs) = concat (map enc ys)"
  shows "xs = ys"
  using assms
proof (induction xs arbitrary: ys)
  case Nil
  then show ?case by (cases ys) (auto simp: enc_nonempty)
next
  case (Cons x xs)
  obtain y ys' where ys: "ys = y # ys'"
    using Cons.prems enc_nonempty [of x] by (cases ys) auto
  then have "x = y \<and> concat (map enc xs) = concat (map enc ys')"
    using Cons.prems enc_inject [of x y] by simp
  then show ?case using Cons.IH [of ys'] Cons.prems ys by simp
qed

end

end
