(* ===== verification/Core_Models.thy ===== *)
theory Core_Models
  imports Skill_Prelude
begin

text \<open>
  The domain model of the detection kernel (\<open>libs/skillscan_core/models.py\<close>): the
  enumerations with the orders the gate relies on, findings, engine results, scan
  results, the gate policy with its per-tier thresholds and its canonical form, and
  allowlist entries. A dataclass is a record; its \<open>__post_init__\<close> is a function from
  the arguments to either the exception or the object.
\<close>

section \<open>Enumerations\<close>

datatype severity = NONE | LOW | MEDIUM | HIGH | CRITICAL

fun severity_int :: "severity \<Rightarrow> int" where
  "severity_int NONE = 0"
| "severity_int LOW = 1"
| "severity_int MEDIUM = 2"
| "severity_int HIGH = 3"
| "severity_int CRITICAL = 4"

fun severity_name :: "severity \<Rightarrow> string" where
  "severity_name NONE = ''NONE''"
| "severity_name LOW = ''LOW''"
| "severity_name MEDIUM = ''MEDIUM''"
| "severity_name HIGH = ''HIGH''"
| "severity_name CRITICAL = ''CRITICAL''"

instantiation severity :: linorder
begin

definition less_eq_severity :: "severity \<Rightarrow> severity \<Rightarrow> bool" where
  "less_eq_severity s t \<longleftrightarrow> severity_int s \<le> severity_int t"

definition less_severity :: "severity \<Rightarrow> severity \<Rightarrow> bool" where
  "less_severity s t \<longleftrightarrow> severity_int s < severity_int t"

instance
proof
  fix s t :: severity
  show "s \<le> t \<Longrightarrow> t \<le> s \<Longrightarrow> s = t"
    by (cases s; cases t) (simp_all add: less_eq_severity_def)
qed (auto simp: less_eq_severity_def less_severity_def)

end

datatype verdict = PASS | REVIEW | BLOCK

fun verdict_int :: "verdict \<Rightarrow> int" where
  "verdict_int PASS = 0"
| "verdict_int REVIEW = 1"
| "verdict_int BLOCK = 2"

fun verdict_name :: "verdict \<Rightarrow> string" where
  "verdict_name PASS = ''PASS''"
| "verdict_name REVIEW = ''REVIEW''"
| "verdict_name BLOCK = ''BLOCK''"

instantiation verdict :: linorder
begin

definition less_eq_verdict :: "verdict \<Rightarrow> verdict \<Rightarrow> bool" where
  "less_eq_verdict s t \<longleftrightarrow> verdict_int s \<le> verdict_int t"

definition less_verdict :: "verdict \<Rightarrow> verdict \<Rightarrow> bool" where
  "less_verdict s t \<longleftrightarrow> verdict_int s < verdict_int t"

instance
proof
  fix s t :: verdict
  show "s \<le> t \<Longrightarrow> t \<le> s \<Longrightarrow> s = t"
    by (cases s; cases t) (simp_all add: less_eq_verdict_def)
qed (auto simp: less_eq_verdict_def less_verdict_def)

end

lemmas severity_order = less_eq_severity_def less_severity_def
lemmas verdict_order = less_eq_verdict_def less_verdict_def

lemma severity_name_inj: "severity_name s = severity_name t \<Longrightarrow> s = t"
  by (cases s; cases t) simp_all

lemma verdict_name_inj: "verdict_name s = verdict_name t \<Longrightarrow> s = t"
  by (cases s; cases t) simp_all

lemma NONE_least [simp]: "NONE \<le> s"
  by (cases s) (simp_all add: severity_order)

lemma CRITICAL_greatest [simp]: "s \<le> CRITICAL"
  by (cases s) (simp_all add: severity_order)

lemma le_NONE_iff [simp]: "s \<le> NONE \<longleftrightarrow> s = NONE"
  by (cases s) (simp_all add: severity_order)

lemma CRITICAL_le_iff [simp]: "CRITICAL \<le> s \<longleftrightarrow> s = CRITICAL"
  by (cases s) (simp_all add: severity_order)

lemma less_CRITICAL_iff [simp]: "s < CRITICAL \<longleftrightarrow> s \<noteq> CRITICAL"
  by (cases s) (simp_all add: severity_order)

lemma less_LOW_iff [simp]: "s < LOW \<longleftrightarrow> s = NONE"
  by (cases s) (simp_all add: severity_order)

lemma LOW_le_iff [simp]: "LOW \<le> s \<longleftrightarrow> s \<noteq> NONE"
  by (cases s) (simp_all add: severity_order)

lemma PASS_least [simp]: "PASS \<le> v"
  by (cases v) (simp_all add: verdict_order)

lemma BLOCK_greatest [simp]: "v \<le> BLOCK"
  by (cases v) (simp_all add: verdict_order)

lemma BLOCK_le_iff [simp]: "BLOCK \<le> v \<longleftrightarrow> v = BLOCK"
  by (cases v) (simp_all add: verdict_order)

lemma le_PASS_iff [simp]: "v \<le> PASS \<longleftrightarrow> v = PASS"
  by (cases v) (simp_all add: verdict_order)

lemma REVIEW_le_iff [simp]: "REVIEW \<le> v \<longleftrightarrow> v \<noteq> PASS"
  by (cases v) (simp_all add: verdict_order)

datatype trust_tier = INTERNAL | PARTNER | PUBLIC

fun trust_tier_value :: "trust_tier \<Rightarrow> string" where
  "trust_tier_value INTERNAL = ''internal''"
| "trust_tier_value PARTNER = ''partner''"
| "trust_tier_value PUBLIC = ''public''"

fun trust_tier_name :: "trust_tier \<Rightarrow> string" where
  "trust_tier_name INTERNAL = ''INTERNAL''"
| "trust_tier_name PARTNER = ''PARTNER''"
| "trust_tier_name PUBLIC = ''PUBLIC''"

datatype detection_category =
    INSTRUCTION | CODE | DATA_CREDENTIAL | NETWORK_INTEL
  | PERMISSION | FILE_PACKAGE | SUPPLY_CHAIN | BUNDLED_COMPONENT

fun category_value :: "detection_category \<Rightarrow> string" where
  "category_value INSTRUCTION = ''instruction''"
| "category_value CODE = ''code''"
| "category_value DATA_CREDENTIAL = ''data_credential''"
| "category_value NETWORK_INTEL = ''network_intel''"
| "category_value PERMISSION = ''permission''"
| "category_value FILE_PACKAGE = ''file_package''"
| "category_value SUPPLY_CHAIN = ''supply_chain''"
| "category_value BUNDLED_COMPONENT = ''bundled_component''"

lemma category_value_inj [simp]: "category_value a = category_value b \<longleftrightarrow> a = b"
  by (cases a; cases b) simp_all

datatype engine_capability =
  CAP_STATIC | SEMANTIC_LLM | THREAT_INTEL | DYNAMIC_SANDBOX | SCA | FILE_COMPLIANCE

datatype engine_status = OK | PARTIAL | ERROR | TIMEOUT

datatype scan_mode = MODE_STATIC | MODE_DYNAMIC

datatype trifecta_signal = PRIVATE_DATA_ACCESS | UNTRUSTED_INPUT | EXTERNAL_EGRESS

definition ALL_TRIFECTA_SIGNALS :: "trifecta_signal set" where
  "ALL_TRIFECTA_SIGNALS = {PRIVATE_DATA_ACCESS, UNTRUSTED_INPUT, EXTERNAL_EGRESS}"

lemma ALL_TRIFECTA_SIGNALS_UNIV: "ALL_TRIFECTA_SIGNALS = UNIV"
proof -
  have "x \<in> ALL_TRIFECTA_SIGNALS" for x
    by (cases x) (simp_all add: ALL_TRIFECTA_SIGNALS_def)
  then show ?thesis by blast
qed

section \<open>Findings\<close>

record finding =
  fd_rule_id :: string
  fd_test_item_id :: string
  fd_category :: detection_category
  fd_title :: string
  fd_severity :: severity
  fd_confidence :: real
  fd_source_engine :: string
  fd_source_capability :: engine_capability
  fd_trifecta_signals :: "trifecta_signal set"
  fd_file_path :: "string option"
  fd_start_line :: "int option"
  fd_snippet_hash :: "string option"
  fd_evidence_redacted :: string

definition is_lower_hex :: "string \<Rightarrow> bool" where
  "is_lower_hex s \<longleftrightarrow> s \<noteq> [] \<and> list_all (\<lambda>c. c \<in> set ''0123456789abcdef'') s"

definition finding_post_init :: "finding \<Rightarrow> finding res" where
  "finding_post_init f =
     res_bind (raise_if (fd_rule_id f = []) ValueError) (\<lambda>_.
     res_bind (raise_if (\<not> (0 \<le> fd_confidence f \<and> fd_confidence f \<le> 1)) ValueError) (\<lambda>_.
     res_bind (raise_if (fd_severity f < LOW) ValueError) (\<lambda>_.
     res_bind (raise_if (case fd_snippet_hash f of None \<Rightarrow> False
                         | Some h \<Rightarrow> \<not> is_lower_hex h) ValueError) (\<lambda>_.
     Inr f))))"

text \<open>What construction guarantees of a finding.\<close>

definition valid_finding :: "finding \<Rightarrow> bool" where
  "valid_finding f \<longleftrightarrow> fd_rule_id f \<noteq> [] \<and> 0 \<le> fd_confidence f \<and> fd_confidence f \<le> 1 \<and>
     fd_severity f \<noteq> NONE \<and> (\<forall>h. fd_snippet_hash f = Some h \<longrightarrow> is_lower_hex h)"

lemma finding_post_init_iff: "finding_post_init f = Inr g \<longleftrightarrow> valid_finding f \<and> g = f"
  by (auto simp: finding_post_init_def valid_finding_def res_bind_eq_Inr split: option.splits)

definition is_llm_sourced :: "finding \<Rightarrow> bool" where
  "is_llm_sourced f \<longleftrightarrow> fd_source_capability f = SEMANTIC_LLM"

type_synonym dedup_key_t = "string \<times> string option \<times> int option \<times> detection_category"

definition dedup_key :: "finding \<Rightarrow> dedup_key_t" where
  "dedup_key f = (fd_rule_id f, fd_file_path f, fd_start_line f, fd_category f)"

section \<open>Engines and scan results\<close>

record engine_metadata =
  em_name :: string
  em_version :: string
  em_ruleset_digest :: string
  em_capabilities :: "engine_capability set"
  em_requires_network :: bool
  em_requires_llm :: bool
  em_deterministic :: bool

definition engine_metadata_post_init :: "engine_metadata \<Rightarrow> engine_metadata res" where
  "engine_metadata_post_init m =
     res_bind (raise_if (em_name m = []) ValueError) (\<lambda>_.
     res_bind (raise_if (em_version m = []) ValueError) (\<lambda>_.
     res_bind (raise_if (em_requires_network m) ValueError) (\<lambda>_.
     Inr m)))"

lemma engine_metadata_post_init_iff:
  "engine_metadata_post_init m = Inr n \<longleftrightarrow>
     em_name m \<noteq> [] \<and> em_version m \<noteq> [] \<and> \<not> em_requires_network m \<and> n = m"
  by (auto simp: engine_metadata_post_init_def res_bind_eq_Inr)

record engine_result =
  er_engine :: engine_metadata
  er_findings :: "finding list"
  er_status :: engine_status
  er_scan_mode :: scan_mode
  er_llm_used :: bool
  er_error :: "string option"

definition usable :: "engine_result \<Rightarrow> bool" where
  "usable r \<longleftrightarrow> er_status r \<in> {OK, PARTIAL}"

record scan_result =
  sr_content_hash :: string
  sr_severity :: severity
  sr_confidence_at_max :: real
  sr_trifecta_present :: bool
  sr_hard_gate_hits :: "string list"
  sr_findings :: "finding list"
  sr_engine_provenance :: "(string \<times> string \<times> string) list"
  sr_findings_capped :: bool
  sr_required_ok :: bool
  sr_missing_or_failed_required :: "string list"
  sr_findings_total :: nat
  sr_dedup_collision_rule_ids :: "string set"

section \<open>Category weights\<close>

text \<open>Values a YAML document or a keyword argument can carry.\<close>

datatype pyval =
    PNone
  | PBool bool
  | PInt int
  | PFloat pfloat
  | PStr string
  | PList "pyval list"
  | PDict "(pyval \<times> pyval) list"

text \<open>
  \<open>float(x)\<close> for a number: an integer whose magnitude rounds past the largest double
  raises \<open>OverflowError\<close>, an \<open>ArithmeticError\<close> (not a \<open>ValueError\<close>). Integers
  are taken exactly; rounding starts above \<open>2 ^ 53\<close>, outside every range checked here.
\<close>

definition py_float :: "pyval \<Rightarrow> pfloat res" where
  "py_float v = (case v of
      PFloat x \<Rightarrow> Inr x
    | PInt n \<Rightarrow> (if \<bar>n\<bar> \<ge> 2 ^ 1024 - 2 ^ 970 then Inl OverflowError else Inr (Fin (of_int n)))
    | PBool b \<Rightarrow> Inr (Fin (if b then 1 else 0))
    | _ \<Rightarrow> Inl TypeError)"

fun is_bool :: "pyval \<Rightarrow> bool" where
  "is_bool (PBool b) = True"
| "is_bool _ = False"

text \<open>\<open>isinstance(x, (int, float))\<close>, which a bool satisfies too.\<close>

fun is_number :: "pyval \<Rightarrow> bool" where
  "is_number (PBool b) = True"
| "is_number (PInt n) = True"
| "is_number (PFloat x) = True"
| "is_number _ = False"

record category_weights =
  cw_instruction :: real
  cw_code :: real
  cw_data_credential :: real
  cw_network_intel :: real
  cw_permission :: real
  cw_file_package :: real
  cw_supply_chain :: real
  cw_bundled_component :: real

definition MAX_CATEGORY_WEIGHT :: real where
  "MAX_CATEGORY_WEIGHT = 10"

definition default_weights :: category_weights where
  "default_weights = \<lparr>cw_instruction = 1, cw_code = 1, cw_data_credential = 1,
     cw_network_intel = 1, cw_permission = 1, cw_file_package = 1, cw_supply_chain = 1,
     cw_bundled_component = 1\<rparr>"

text \<open>One round of the loop of \<open>CategoryWeights.__post_init__\<close>: check and normalise one field.\<close>

definition check_weight :: "pyval \<Rightarrow> real res" where
  "check_weight raw =
     res_bind (raise_if (is_bool raw \<or> \<not> is_number raw) ValueError) (\<lambda>_.
     res_bind (py_float raw) (\<lambda>x.
     res_bind (raise_if (\<not> pfloat_between 0 x MAX_CATEGORY_WEIGHT) ValueError) (\<lambda>_.
     Inr (pfloat_real x))))"

definition category_weights_post_init ::
  "pyval \<Rightarrow> pyval \<Rightarrow> pyval \<Rightarrow> pyval \<Rightarrow> pyval \<Rightarrow> pyval \<Rightarrow> pyval \<Rightarrow> pyval \<Rightarrow> category_weights res" where
  "category_weights_post_init ins cod dat net per fil spl bun =
     res_bind (check_weight ins) (\<lambda>a.
     res_bind (check_weight cod) (\<lambda>b.
     res_bind (check_weight dat) (\<lambda>c.
     res_bind (check_weight net) (\<lambda>d.
     res_bind (check_weight per) (\<lambda>e.
     res_bind (check_weight fil) (\<lambda>f.
     res_bind (check_weight spl) (\<lambda>g.
     res_bind (check_weight bun) (\<lambda>h.
     Inr \<lparr>cw_instruction = a, cw_code = b, cw_data_credential = c, cw_network_intel = d,
          cw_permission = e, cw_file_package = f, cw_supply_chain = g,
          cw_bundled_component = h\<rparr>))))))))"

fun for_category :: "category_weights \<Rightarrow> detection_category \<Rightarrow> real" where
  "for_category w INSTRUCTION = cw_instruction w"
| "for_category w CODE = cw_code w"
| "for_category w DATA_CREDENTIAL = cw_data_credential w"
| "for_category w NETWORK_INTEL = cw_network_intel w"
| "for_category w PERMISSION = cw_permission w"
| "for_category w FILE_PACKAGE = cw_file_package w"
| "for_category w SUPPLY_CHAIN = cw_supply_chain w"
| "for_category w BUNDLED_COMPONENT = cw_bundled_component w"

definition weight_items :: "category_weights \<Rightarrow> (string \<times> real) list" where
  "weight_items w = [
     (''instruction'', cw_instruction w), (''code'', cw_code w),
     (''data_credential'', cw_data_credential w), (''network_intel'', cw_network_intel w),
     (''permission'', cw_permission w), (''file_package'', cw_file_package w),
     (''supply_chain'', cw_supply_chain w), (''bundled_component'', cw_bundled_component w)]"

definition non_default_items :: "category_weights \<Rightarrow> (string \<times> real) list" where
  "non_default_items w = filter (\<lambda>(n, v). v \<noteq> 1) (weight_items w)"

definition valid_weights :: "category_weights \<Rightarrow> bool" where
  "valid_weights w \<longleftrightarrow> (\<forall>c. 0 \<le> for_category w c \<and> for_category w c \<le> MAX_CATEGORY_WEIGHT)"

lemma check_weight_range: "check_weight v = Inr x \<Longrightarrow> 0 \<le> x \<and> x \<le> MAX_CATEGORY_WEIGHT"
  by (auto simp: check_weight_def pfloat_between_Fin pfloat_real_def res_bind_eq_Inr)

lemma category_weights_post_init_valid:
  assumes "category_weights_post_init ins cod dat net per fil spl bun = Inr w"
  shows "valid_weights w"
  unfolding valid_weights_def
proof
  fix c
  show "0 \<le> for_category w c \<and> for_category w c \<le> MAX_CATEGORY_WEIGHT"
    using assms check_weight_range
    by (cases c) (auto simp: category_weights_post_init_def res_bind_eq_Inr)
qed

lemma default_weights_valid [simp]: "valid_weights default_weights"
proof -
  have "for_category default_weights c = 1" for c
    by (cases c) (simp_all add: default_weights_def)
  then show ?thesis by (simp add: valid_weights_def MAX_CATEGORY_WEIGHT_def)
qed

section \<open>Gate policy\<close>

record gate_policy =
  gp_version :: string
  gp_required_engines :: "string set"
  gp_hard_gate_rules :: "string set"
  gp_review_confidence :: real
  gp_block_on_severity :: severity
  gp_review_on_severity :: severity
  gp_tier_block_overrides :: "(trust_tier \<times> severity) list"
  gp_allowlistable_max_severity :: severity
  gp_fail_closed_verdict :: verdict
  gp_category_weights :: category_weights

definition gate_policy_post_init ::
  "string \<Rightarrow> string set \<Rightarrow> string set \<Rightarrow> pfloat \<Rightarrow> severity \<Rightarrow> severity \<Rightarrow>
   (trust_tier \<times> severity) list \<Rightarrow> severity \<Rightarrow> verdict \<Rightarrow> category_weights \<Rightarrow> gate_policy res" where
  "gate_policy_post_init ver req hard rconf blk rvw tiers almax fcv w =
     res_bind (raise_if (ver = []) ValueError) (\<lambda>_.
     res_bind (raise_if (\<not> pfloat_between 0 rconf 1) ValueError) (\<lambda>_.
     res_bind (raise_if (blk < LOW \<or> rvw < LOW) ValueError) (\<lambda>_.
     res_bind (raise_if (fcv = PASS) ValueError) (\<lambda>_.
     res_bind (raise_if (list_ex (\<lambda>(tier, sev). sev > blk) tiers) ValueError) (\<lambda>_.
     Inr \<lparr>gp_version = ver, gp_required_engines = req, gp_hard_gate_rules = hard,
          gp_review_confidence = pfloat_real rconf, gp_block_on_severity = blk,
          gp_review_on_severity = rvw, gp_tier_block_overrides = tiers,
          gp_allowlistable_max_severity = almax, gp_fail_closed_verdict = fcv,
          gp_category_weights = w\<rparr>)))))"

definition block_threshold :: "gate_policy \<Rightarrow> trust_tier \<Rightarrow> severity" where
  "block_threshold p tier =
     (let matches = map snd (filter (\<lambda>(t, sev). t = tier) (gp_tier_block_overrides p))
      in case matches of [] \<Rightarrow> gp_block_on_severity p | m # ms \<Rightarrow> fold min ms m)"

text \<open>What construction guarantees of a policy.\<close>

definition valid_policy :: "gate_policy \<Rightarrow> bool" where
  "valid_policy p \<longleftrightarrow> gp_version p \<noteq> [] \<and>
     0 \<le> gp_review_confidence p \<and> gp_review_confidence p \<le> 1 \<and>
     gp_block_on_severity p \<noteq> NONE \<and> gp_review_on_severity p \<noteq> NONE \<and>
     gp_fail_closed_verdict p \<noteq> PASS \<and>
     list_all (\<lambda>(tier, sev). sev \<le> gp_block_on_severity p) (gp_tier_block_overrides p)"

lemma gate_policy_post_init_valid:
  "gate_policy_post_init ver req hard rconf blk rvw tiers almax fcv w = Inr p \<Longrightarrow> valid_policy p"
  by (fastforce simp: gate_policy_post_init_def valid_policy_def res_bind_eq_Inr pfloat_between_Fin
        pfloat_real_def list_ex_iff list_all_iff not_less split_beta)

lemma fold_min_eq_Min: "fold min ms m = Min (insert m (set ms))"
  by (simp add: Min.set_eq_fold [symmetric])

lemma block_threshold_in:
  "block_threshold p tier \<in> insert (gp_block_on_severity p)
     {sev. (tier, sev) \<in> set (gp_tier_block_overrides p)}"
proof (cases "map snd (filter (\<lambda>(t, sev). t = tier) (gp_tier_block_overrides p))")
  case Nil
  then show ?thesis by (simp add: block_threshold_def)
next
  case (Cons m ms)
  then have "block_threshold p tier = Min (set (m # ms))"
    by (simp add: block_threshold_def fold_min_eq_Min)
  then have "block_threshold p tier \<in> set (m # ms)"
    using Min_in [of "set (m # ms)"] by simp
  then have "block_threshold p tier \<in>
      set (map snd (filter (\<lambda>(t, sev). t = tier) (gp_tier_block_overrides p)))"
    unfolding Cons .
  then show ?thesis by auto
qed

lemma block_threshold_override_le:
  assumes "(tier, sev) \<in> set (gp_tier_block_overrides p)"
  shows "block_threshold p tier \<le> sev"
proof -
  let ?ms = "map snd (filter (\<lambda>(t, sev). t = tier) (gp_tier_block_overrides p))"
  have s: "sev \<in> set ?ms" using assms by force
  then obtain m ms where ms: "?ms = m # ms" by (cases ?ms) auto
  have "block_threshold p tier = Min (set (m # ms))"
    using ms by (simp add: block_threshold_def fold_min_eq_Min)
  then show ?thesis using s unfolding ms by (metis List.finite_set Min_le)
qed

lemma block_threshold_le_base:
  "valid_policy p \<Longrightarrow> block_threshold p tier \<le> gp_block_on_severity p"
  using block_threshold_in [of p tier] by (auto simp: valid_policy_def list_all_iff)

section \<open>Allowlist entries and verdicts\<close>

record allowlist_entry =
  al_scope_type :: string
  al_scope_value :: string
  al_rule_id :: string
  al_expires_at :: real
  al_approved_by :: string
  al_requested_by :: string
  al_reason :: string

definition allowlist_entry_post_init :: "allowlist_entry \<Rightarrow> allowlist_entry res" where
  "allowlist_entry_post_init e =
     res_bind (raise_if (al_approved_by e = [] \<or> al_requested_by e = []) ValueError) (\<lambda>_.
     res_bind (raise_if (al_approved_by e = al_requested_by e) ValueError) (\<lambda>_.
     res_bind (raise_if (al_expires_at e \<le> 0) ValueError) (\<lambda>_.
     res_bind (raise_if (al_scope_type e \<notin> {''content_hash'', ''skill_id'', ''rule_global''})
                 ValueError) (\<lambda>_.
     res_bind (raise_if (al_scope_type e \<noteq> ''rule_global'' \<and> al_scope_value e = []) ValueError) (\<lambda>_.
     res_bind (raise_if (al_rule_id e = []) ValueError) (\<lambda>_.
     Inr e))))))"

definition is_active ::
  "allowlist_entry \<Rightarrow> real \<Rightarrow> string \<Rightarrow> string option \<Rightarrow> bool" where
  "is_active e now content_hash skill_id =
     (if now \<ge> al_expires_at e then False
      else if al_scope_type e = ''content_hash'' then al_scope_value e = content_hash
      else if al_scope_type e = ''skill_id'' then
        skill_id \<noteq> None \<and> Some (al_scope_value e) = skill_id
      else if al_scope_type e = ''rule_global'' then True
      else False)"

definition waives :: "allowlist_entry \<Rightarrow> finding \<Rightarrow> bool" where
  "waives e f \<longleftrightarrow> al_rule_id e = fd_rule_id f"

record verdict_result =
  vr_verdict :: verdict
  vr_reasons :: "string list"
  vr_policy_version :: string
  vr_effective_severity :: severity
  vr_trifecta_present :: bool
  vr_hard_gate_hits :: "string list"
  vr_fail_closed :: bool
  vr_score :: int

lemma is_active_not_expired: "is_active e now ch sid \<Longrightarrow> now < al_expires_at e"
  by (simp add: is_active_def split: if_splits)

lemma allowlist_entry_post_init_four_eyes:
  "allowlist_entry_post_init e = Inr e' \<Longrightarrow>
     e' = e \<and> al_approved_by e \<noteq> al_requested_by e \<and> al_approved_by e \<noteq> [] \<and>
     al_requested_by e \<noteq> [] \<and> 0 < al_expires_at e \<and> al_rule_id e \<noteq> []"
  by (auto simp: allowlist_entry_post_init_def res_bind_eq_Inr)

end
