(* ===== verification/Core_Samples.thy ===== *)
theory Core_Samples
  imports Core_Models
begin

text \<open>Concrete policies, findings and results on which the witnesses of the kernel theories
  evaluate the model.\<close>

definition sample_policy :: gate_policy where
  "sample_policy = \<lparr>gp_version = ''v1'', gp_required_engines = {''static-keyword''},
     gp_hard_gate_rules = {''hard.rule''}, gp_review_confidence = 6 / 10,
     gp_block_on_severity = CRITICAL, gp_review_on_severity = HIGH,
     gp_tier_block_overrides = [(PUBLIC, HIGH)], gp_allowlistable_max_severity = MEDIUM,
     gp_fail_closed_verdict = BLOCK, gp_category_weights = default_weights\<rparr>"

definition sample_finding :: "string \<Rightarrow> severity \<Rightarrow> real \<Rightarrow> engine_capability \<Rightarrow> finding" where
  "sample_finding rule sev conf cap = \<lparr>fd_rule_id = rule, fd_test_item_id = ''CODE-02'',
     fd_category = CODE, fd_title = ''t'', fd_severity = sev, fd_confidence = conf,
     fd_source_engine = ''e'', fd_source_capability = cap, fd_trifecta_signals = {},
     fd_file_path = Some ''a.py'', fd_start_line = Some 3, fd_snippet_hash = None,
     fd_evidence_redacted = []\<rparr>"

definition sample_scan :: "finding list \<Rightarrow> scan_result" where
  "sample_scan fs = \<lparr>sr_content_hash = ''h'', sr_severity = py_max NONE (map fd_severity fs),
     sr_confidence_at_max = 1, sr_trifecta_present = False, sr_hard_gate_hits = [],
     sr_findings = fs, sr_engine_provenance = [], sr_findings_capped = False,
     sr_required_ok = True, sr_missing_or_failed_required = [],
     sr_findings_total = length fs, sr_dedup_collision_rule_ids = {}\<rparr>"

definition sample_result :: "finding list \<Rightarrow> engine_result" where
  "sample_result fs = \<lparr>er_engine = \<lparr>em_name = ''static-keyword'', em_version = ''1'',
     em_ruleset_digest = ''d'', em_capabilities = {CAP_STATIC}, em_requires_network = False,
     em_requires_llm = False, em_deterministic = True\<rparr>, er_findings = fs, er_status = OK,
     er_scan_mode = MODE_STATIC, er_llm_used = False, er_error = None\<rparr>"

lemmas sample_defs = sample_policy_def sample_finding_def sample_scan_def sample_result_def

lemma sample_policy_valid: "valid_policy sample_policy"
  by (simp add: valid_policy_def sample_policy_def severity_order)

abbreviation low_finding :: finding where
  "low_finding \<equiv> sample_finding ''r1'' LOW (4 / 10) CAP_STATIC"

abbreviation medium_finding :: finding where
  "medium_finding \<equiv> sample_finding ''r2'' MEDIUM 1 CAP_STATIC"

abbreviation llm_finding :: finding where
  "llm_finding \<equiv> sample_finding ''r2'' MEDIUM 1 SEMANTIC_LLM"

abbreviation critical_finding :: finding where
  "critical_finding \<equiv> sample_finding ''r3'' CRITICAL 1 CAP_STATIC"

end
