(* ===== verification/Core_Canonical.thy ===== *)
theory Core_Canonical
  imports Core_Samples "HOL-Library.Word"
begin

text \<open>
  Content-addressed hashing (\<open>libs/skillscan_core/canonical.py\<close>). Here a Python string is its
  list of code points (\<open>ustr\<close>), since the hashed bytes are its UTF-8 encoding; bytes are 8-bit
  words. SHA-256 with hexadecimal output is the parameter \<open>sha256\<close>, and Unicode NFC
  normalisation is the parameter \<open>nfc\<close>: both are table- or bit-driven library code of which the
  source uses only that they are functions.
\<close>

unbundle bit_operations_syntax

section \<open>Bytes\<close>

type_synonym byte = "8 word"
type_synonym bytes = "byte list"
type_synonym ustr = "nat list"

text \<open>\<open>struct.pack\<close> with a big-endian unsigned format of \<open>k\<close> bytes: out of range raises.\<close>

definition be_bytes :: "nat \<Rightarrow> nat \<Rightarrow> bytes" where
  "be_bytes k n = map (\<lambda>i. word_of_nat (n div 256 ^ i)) (rev [0..<k])"

definition struct_pack :: "nat \<Rightarrow> nat \<Rightarrow> bytes res" where
  "struct_pack k n = (if n < 256 ^ k then Inr (be_bytes k n) else Inl StructError)"

text \<open>\<open>str.encode("utf-8")\<close>: surrogates raise \<open>UnicodeEncodeError\<close>, a \<open>ValueError\<close>.\<close>

definition is_scalar :: "nat \<Rightarrow> bool" where
  "is_scalar c \<longleftrightarrow> c < 0xD800 \<or> 0xE000 \<le> c \<and> c < 0x110000"

definition utf8_nats :: "nat \<Rightarrow> nat list" where
  "utf8_nats c =
     (if c < 0x80 then [c]
      else if c < 0x800 then [0xC0 + c div 0x40, 0x80 + c mod 0x40]
      else if c < 0x10000 then [0xE0 + c div 0x1000, 0x80 + c div 0x40 mod 0x40, 0x80 + c mod 0x40]
      else [0xF0 + c div 0x40000, 0x80 + c div 0x1000 mod 0x40, 0x80 + c div 0x40 mod 0x40,
            0x80 + c mod 0x40])"

definition utf8_char :: "nat \<Rightarrow> bytes" where
  "utf8_char c = map word_of_nat (utf8_nats c)"

definition utf8_encode :: "ustr \<Rightarrow> bytes res" where
  "utf8_encode s =
     (if list_all is_scalar s then Inr (concat (map utf8_char s)) else Inl ValueError)"

definition ustr_of :: "string \<Rightarrow> ustr" where
  "ustr_of s = map of_char s"

section \<open>The hashed encodings\<close>

definition chunk_bytes :: "bytes \<Rightarrow> bytes" where
  "chunk_bytes d = be_bytes 8 (length d) @ d"

definition encode_chunk :: "bytes \<Rightarrow> bytes res" where
  "encode_chunk d = res_bind (struct_pack 8 (length d)) (\<lambda>n. Inr (n @ d))"

text \<open>The segments that a traversal or confusion attack is made of.\<close>

definition bad_segment :: "ustr \<Rightarrow> bool" where
  "bad_segment s \<longleftrightarrow> s \<in> {[], ustr_of ''.'', ustr_of ''..''}"

abbreviation slash :: nat where "slash \<equiv> 0x2F"
abbreviation backslash :: nat where "backslash \<equiv> 0x5C"
abbreviation colon :: nat where "colon \<equiv> 0x3A"

definition validate_and_normalize_path :: "(ustr \<Rightarrow> ustr) \<Rightarrow> ustr \<Rightarrow> ustr res" where
  "validate_and_normalize_path nfc path =
     res_bind (raise_if (0 \<in> set path) ValueError) (\<lambda>_.
     let normalized = nfc path in
     res_bind (raise_if (take 1 normalized = [slash]) ValueError) (\<lambda>_.
     res_bind (raise_if (length normalized \<ge> 2 \<and> normalized ! 1 = colon) ValueError) (\<lambda>_.
     res_bind (raise_if (list_ex (\<lambda>segment. bad_segment segment \<or>
                  list_ex bad_segment (py_split backslash segment)) (py_split slash normalized))
                ValueError) (\<lambda>_.
     Inr normalized))))"

type_synonym file_entry = "ustr \<times> int \<times> bytes"

text \<open>The loop that validates, masks the mode and rejects paths equal after normalisation.\<close>

fun normalize_entries :: "(ustr \<Rightarrow> ustr) \<Rightarrow> ustr set \<Rightarrow> file_entry list \<Rightarrow> file_entry list res" where
  "normalize_entries nfc seen_paths [] = Inr []"
| "normalize_entries nfc seen_paths ((path, mode, data) # entries) =
     res_bind (validate_and_normalize_path nfc path) (\<lambda>normalized_path.
     res_bind (raise_if (normalized_path \<in> seen_paths) ValueError) (\<lambda>_.
     res_bind (normalize_entries nfc (insert normalized_path seen_paths) entries) (\<lambda>rest.
     Inr ((normalized_path, mode AND 0xFFF, data) # rest))))"

definition CONTENT_HASH_DOMAIN :: bytes where
  "CONTENT_HASH_DOMAIN = map of_char (''skillscan.content_hash.v1'' @ [CHR 0x0A])"

definition TOOLCHAIN_DIGEST_DOMAIN :: bytes where
  "TOOLCHAIN_DIGEST_DOMAIN = map of_char (''skillscan.toolchain_digest.v1'' @ [CHR 0x0A])"

definition CACHE_KEY_DOMAIN :: bytes where
  "CACHE_KEY_DOMAIN = map of_char (''skillscan.cache_key.v1'' @ [CHR 0x0A])"

text \<open>What one file contributes to the hasher.\<close>

definition encode_entry :: "file_entry \<Rightarrow> bytes res" where
  "encode_entry = (\<lambda>(path, mode, data).
     res_bind (utf8_encode path) (\<lambda>p.
     res_bind (encode_chunk p) (\<lambda>cp.
     res_bind (struct_pack 4 (nat mode)) (\<lambda>m.
     res_bind (encode_chunk data) (\<lambda>cd.
     Inr (cp @ m @ cd))))))"

definition content_preimage :: "(ustr \<Rightarrow> ustr) \<Rightarrow> file_entry list \<Rightarrow> bytes res" where
  "content_preimage nfc files =
     res_bind (raise_if (files = []) ValueError) (\<lambda>_.
     res_bind (normalize_entries nfc {} files) (\<lambda>normalized_entries.
     res_bind (res_map encode_entry (sort_key fst normalized_entries)) (\<lambda>encs.
     Inr (CONTENT_HASH_DOMAIN @ concat encs))))"

definition content_hash ::
  "(ustr \<Rightarrow> ustr) \<Rightarrow> (bytes \<Rightarrow> string) \<Rightarrow> file_entry list \<Rightarrow> string res" where
  "content_hash nfc sha256 files = res_bind (content_preimage nfc files) (\<lambda>b. Inr (sha256 b))"

definition encode_string :: "ustr \<Rightarrow> bytes res" where
  "encode_string s = res_bind (utf8_encode s) encode_chunk"

definition identity :: "engine_metadata \<Rightarrow> ustr" where
  "identity m = ustr_of (em_name m @ ''@'' @ em_version m @ ''#'' @ em_ruleset_digest m)"

definition toolchain_preimage :: "engine_metadata list \<Rightarrow> string \<Rightarrow> string \<Rightarrow> bytes res" where
  "toolchain_preimage ms policy_version prompt_version =
     res_bind (res_map encode_string (sort (map identity ms))) (\<lambda>ids.
     res_bind (encode_string (ustr_of policy_version)) (\<lambda>pol.
     res_bind (encode_string (ustr_of prompt_version)) (\<lambda>pro.
     Inr (TOOLCHAIN_DIGEST_DOMAIN @ concat ids @ pol @ pro))))"

definition toolchain_digest ::
  "(bytes \<Rightarrow> string) \<Rightarrow> engine_metadata list \<Rightarrow> string \<Rightarrow> string \<Rightarrow> string res" where
  "toolchain_digest sha256 ms policy_version prompt_version =
     res_bind (toolchain_preimage ms policy_version prompt_version) (\<lambda>b. Inr (sha256 b))"

definition cache_key :: "(bytes \<Rightarrow> string) \<Rightarrow> string \<Rightarrow> string \<Rightarrow> string res" where
  "cache_key sha256 content_hash_value toolchain_digest_value =
     res_bind (encode_string (ustr_of (content_hash_value @ ''::'' @ toolchain_digest_value))) (\<lambda>b.
     Inr (sha256 (CACHE_KEY_DOMAIN @ b)))"

section \<open>Prefix codes\<close>

lemma map_word_of_nat_inject:
  assumes "\<forall>x \<in> set xs. x < 256" "\<forall>y \<in> set ys. y < 256"
    and "map (word_of_nat :: nat \<Rightarrow> byte) xs = map word_of_nat ys"
  shows "xs = ys"
proof -
  have "map (unat \<circ> (word_of_nat :: nat \<Rightarrow> byte)) xs = map (unat \<circ> (word_of_nat :: nat \<Rightarrow> byte)) ys"
    using assms(3) by (metis list.map_comp)
  moreover have "map (unat \<circ> (word_of_nat :: nat \<Rightarrow> byte)) zs = zs" if "\<forall>z \<in> set zs. z < 256" for zs
    using that by (induction zs) (simp_all add: unat_of_nat)
  ultimately show ?thesis using assms(1,2) by simp
qed

lemma length_be_bytes [simp]: "length (be_bytes k n) = k"
  by (simp add: be_bytes_def)

lemma digits_inject:
  "n < (256 :: nat) ^ k \<Longrightarrow> m < 256 ^ k \<Longrightarrow> \<forall>i < k. n div 256 ^ i mod 256 = m div 256 ^ i mod 256 \<Longrightarrow> n = m"
proof (induction k arbitrary: n m)
  case 0
  then show ?case by simp
next
  case (Suc k)
  have "n div 256 = m div 256"
  proof (rule Suc.IH)
    show "n div 256 < 256 ^ k" "m div 256 < 256 ^ k"
      using Suc.prems(1,2) by (simp_all add: less_mult_imp_div_less mult.commute)
    show "\<forall>i < k. n div 256 div 256 ^ i mod 256 = m div 256 div 256 ^ i mod 256"
    proof (intro allI impI)
      fix i assume "i < k"
      then have "n div 256 ^ Suc i mod 256 = m div 256 ^ Suc i mod 256" using Suc.prems(3) by blast
      then show "n div 256 div 256 ^ i mod 256 = m div 256 div 256 ^ i mod 256"
        by (simp add: div_mult2_eq)
    qed
  qed
  moreover have "n mod 256 = m mod 256" using Suc.prems(3) [rule_format, of 0] by simp
  ultimately show ?case by (metis div_mult_mod_eq)
qed

lemma be_bytes_inject:
  assumes "n < 256 ^ k" "m < 256 ^ k" "be_bytes k n = be_bytes k m"
  shows "n = m"
proof (rule digits_inject [OF assms(1,2)], intro allI impI)
  fix i assume "i < k"
  then have "(word_of_nat (n div 256 ^ i) :: byte) = word_of_nat (m div 256 ^ i)"
    using assms(3) by (simp add: be_bytes_def)
  then have "unat (word_of_nat (n div 256 ^ i) :: byte) = unat (word_of_nat (m div 256 ^ i) :: byte)"
    by simp
  then show "n div 256 ^ i mod 256 = m div 256 ^ i mod 256" by (simp add: unat_of_nat)
qed

interpretation chunk: prefix_code chunk_bytes "\<lambda>d. length d < 256 ^ 8"
proof
  fix x y r s :: bytes
  show "chunk_bytes x \<noteq> []" by (simp add: chunk_bytes_def be_bytes_def)
  assume l: "length x < 256 ^ 8" "length y < 256 ^ 8" and eq: "chunk_bytes x @ r = chunk_bytes y @ s"
  then have "be_bytes 8 (length x) = be_bytes 8 (length y) \<and> x @ r = y @ s"
    by (simp add: chunk_bytes_def)
  then show "x = y \<and> r = s" using be_bytes_inject [OF l] by simp
qed

text \<open>The first byte of a UTF-8 character tells its length.\<close>

definition utf8_length :: "nat \<Rightarrow> nat" where
  "utf8_length b = (if b < 0x80 then 1 else if b < 0xE0 then 2 else if b < 0xF0 then 3 else 4)"

lemma utf8_nats_shape:
  assumes "is_scalar c"
  shows "(\<forall>b \<in> set (utf8_nats c). b < 256) \<and> utf8_nats c \<noteq> [] \<and>
    length (utf8_nats c) = utf8_length (hd (utf8_nats c))"
proof -
  have "c < 0x110000" using assms by (auto simp: is_scalar_def)
  then have "c div 0x40000 < 5" "c < 0x10000 \<longrightarrow> c div 0x1000 < 0x10" "c < 0x800 \<longrightarrow> c div 0x40 < 0x20"
    by (auto simp: less_mult_imp_div_less)
  moreover have "c mod 0x40 < 0x40" "c div 0x40 mod 0x40 < 0x40" "c div 0x1000 mod 0x40 < 0x40" by simp_all
  ultimately show ?thesis by (auto simp: utf8_nats_def utf8_length_def)
qed

lemma utf8_nats_inject:
  assumes eq: "utf8_nats c = utf8_nats d"
  shows "c = d"
proof -
  have split2: "x = 0x40 * (x div 0x40) + x mod 0x40" for x :: nat by simp
  have split3: "x = 0x1000 * (x div 0x1000) + 0x40 * (x div 0x40 mod 0x40) + x mod 0x40" for x :: nat
  proof -
    have "x div 0x1000 = x div 0x40 div 0x40" by (simp add: div_mult2_eq [symmetric])
    then show ?thesis using split2 [of x] split2 [of "x div 0x40"] by linarith
  qed
  have split4: "x = 0x40000 * (x div 0x40000) + 0x1000 * (x div 0x1000 mod 0x40)
      + 0x40 * (x div 0x40 mod 0x40) + x mod 0x40" for x :: nat
  proof -
    have "x div 0x40000 = x div 0x1000 div 0x40" by (simp add: div_mult2_eq [symmetric])
    then show ?thesis using split3 [of x] split2 [of "x div 0x1000"] by linarith
  qed
  have len: "length (utf8_nats c) = length (utf8_nats d)" using eq by simp
  consider "c < 0x80" | "0x80 \<le> c" "c < 0x800" | "0x800 \<le> c" "c < 0x10000" | "0x10000 \<le> c" by linarith
  then show ?thesis
  proof cases
    case 1
    then show ?thesis using eq by (auto simp: utf8_nats_def split: if_splits)
  next
    case 2
    then have "c div 0x40 = d div 0x40 \<and> c mod 0x40 = d mod 0x40"
      using eq by (auto simp: utf8_nats_def split: if_splits)
    then show ?thesis using split2 [of c] split2 [of d] by simp
  next
    case 3
    then have "c div 0x1000 = d div 0x1000 \<and> c div 0x40 mod 0x40 = d div 0x40 mod 0x40 \<and>
        c mod 0x40 = d mod 0x40"
      using eq by (auto simp: utf8_nats_def split: if_splits)
    then show ?thesis using split3 [of c] split3 [of d] by simp
  next
    case 4
    then have "c div 0x40000 = d div 0x40000 \<and> c div 0x1000 mod 0x40 = d div 0x1000 mod 0x40 \<and>
        c div 0x40 mod 0x40 = d div 0x40 mod 0x40 \<and> c mod 0x40 = d mod 0x40"
      using eq by (auto simp: utf8_nats_def split: if_splits)
    then show ?thesis using split4 [of c] split4 [of d] by simp
  qed
qed

interpretation utf8: prefix_code utf8_char is_scalar
proof
  fix x y r s
  assume x: "is_scalar x"
  then show "utf8_char x \<noteq> []" using utf8_nats_shape [of x] by (simp add: utf8_char_def)
  assume y: "is_scalar y" and eq: "utf8_char x @ r = utf8_char y @ s"
  note sx = utf8_nats_shape [OF x] and sy = utf8_nats_shape [OF y]
  have "(word_of_nat (hd (utf8_nats x)) :: byte) = word_of_nat (hd (utf8_nats y))"
    using eq sx sy by (metis hd_append2 list.map_sel(1) map_is_Nil_conv utf8_char_def)
  then have "[hd (utf8_nats x)] = [hd (utf8_nats y)]"
    using sx sy by (intro map_word_of_nat_inject) auto
  then have "length (utf8_char x) = length (utf8_char y)" using sx sy by (simp add: utf8_char_def)
  then have "utf8_char x = utf8_char y \<and> r = s" using eq by simp
  then show "x = y \<and> r = s"
    using sx sy by (auto simp: utf8_char_def dest!: map_word_of_nat_inject [rotated 2] utf8_nats_inject)
qed

lemma utf8_encode_inject: "utf8_encode s = Inr b \<Longrightarrow> utf8_encode t = Inr b \<Longrightarrow> s = t"
  by (rule utf8.concat_inject) (auto simp: utf8_encode_def list_all_iff split: if_splits)

lemma encode_chunk_eq: "encode_chunk d = Inr b \<longleftrightarrow> length d < 256 ^ 8 \<and> b = chunk_bytes d"
  by (auto simp: encode_chunk_def struct_pack_def chunk_bytes_def)

section \<open>File records\<close>

definition entry_ok :: "file_entry \<Rightarrow> bool" where
  "entry_ok = (\<lambda>(path, mode, data). list_all is_scalar path \<and>
     length (concat (map utf8_char path)) < 256 ^ 8 \<and> nat mode < 256 ^ 4 \<and> 0 \<le> mode \<and>
     length data < 256 ^ 8)"

definition entry_bytes :: "file_entry \<Rightarrow> bytes" where
  "entry_bytes = (\<lambda>(path, mode, data).
     chunk_bytes (concat (map utf8_char path)) @ be_bytes 4 (nat mode) @ chunk_bytes data)"

lemma encode_entry_eq:
  "0 \<le> fst (snd e) \<Longrightarrow> encode_entry e = Inr b \<longleftrightarrow> entry_ok e \<and> b = entry_bytes e"
  by (cases e) (auto simp: encode_entry_def entry_ok_def entry_bytes_def res_bind_eq_Inr encode_chunk_eq
      utf8_encode_def struct_pack_def split: if_splits)

interpretation entry: prefix_code entry_bytes entry_ok
proof
  fix x :: file_entry and y :: file_entry and r s
  show "entry_bytes x \<noteq> []" by (cases x) (simp add: entry_bytes_def chunk_bytes_def be_bytes_def)
  assume ok: "entry_ok x" "entry_ok y" and eq: "entry_bytes x @ r = entry_bytes y @ s"
  obtain p m d q n e where xy: "x = (p, m, d)" "y = (q, n, e)" by (cases x; cases y) auto
  let ?u = "\<lambda>s. concat (map utf8_char s)"
  have "?u p = ?u q \<and> be_bytes 4 (nat m) @ chunk_bytes d @ r = be_bytes 4 (nat n) @ chunk_bytes e @ s"
    by (rule chunk.enc_inject) (use ok eq in \<open>auto simp: xy entry_ok_def entry_bytes_def\<close>)
  then have u: "?u p = ?u q" and m: "be_bytes 4 (nat m) = be_bytes 4 (nat n)"
    and d: "chunk_bytes d @ r = chunk_bytes e @ s" by simp_all
  have "p = q" using utf8.concat_inject [OF _ _ u] ok by (auto simp: xy entry_ok_def list_all_iff)
  moreover have "nat m = nat n" using be_bytes_inject [OF _ _ m] ok by (simp add: xy entry_ok_def)
  moreover have "d = e \<and> r = s" using chunk.enc_inject [OF _ _ d] ok by (simp add: xy entry_ok_def)
  ultimately show "x = y \<and> r = s" using ok by (auto simp: xy entry_ok_def)
qed

section \<open>Normalisation\<close>

definition path_ok :: "(ustr \<Rightarrow> ustr) \<Rightarrow> ustr \<Rightarrow> bool" where
  "path_ok nfc path \<longleftrightarrow> validate_and_normalize_path nfc path = Inr (nfc path)"

definition norm_entry :: "(ustr \<Rightarrow> ustr) \<Rightarrow> file_entry \<Rightarrow> file_entry" where
  "norm_entry nfc = (\<lambda>(path, mode, data). (nfc path, mode AND 0xFFF, data))"

lemma validate_cases: "validate_and_normalize_path nfc path =
    (if path_ok nfc path then Inr (nfc path) else Inl ValueError)"
  by (auto simp: path_ok_def validate_and_normalize_path_def raise_if_def Let_def)

lemma fst_norm_entry [simp]: "fst (norm_entry nfc e) = nfc (fst e)"
  by (simp add: norm_entry_def split_beta)

lemma normalize_entries_eq:
  "normalize_entries nfc seen es =
     (if (\<forall>e \<in> set es. path_ok nfc (fst e)) \<and> distinct (map (nfc \<circ> fst) es) \<and>
         seen \<inter> (nfc \<circ> fst) ` set es = {}
      then Inr (map (norm_entry nfc) es) else Inl ValueError)"
proof (induction nfc seen es rule: normalize_entries.induct)
  case (1 nfc seen)
  then show ?case by simp
next
  case (2 nfc seen path mode data es)
  show ?case
    using "2.IH" [of "nfc path"]
    by (cases "path_ok nfc path"; cases "nfc path \<in> seen")
       (auto simp: validate_cases norm_entry_def image_iff)
qed

definition files_ok :: "(ustr \<Rightarrow> ustr) \<Rightarrow> file_entry list \<Rightarrow> bool" where
  "files_ok nfc es \<longleftrightarrow> es \<noteq> [] \<and> (\<forall>e \<in> set es. path_ok nfc (fst e)) \<and> distinct (map (nfc \<circ> fst) es)"

lemma content_preimage_eq:
  "content_preimage nfc es =
     (if files_ok nfc es
      then res_bind (res_map encode_entry (sort_key fst (map (norm_entry nfc) es)))
             (\<lambda>encs. Inr (CONTENT_HASH_DOMAIN @ concat encs))
      else Inl ValueError)"
  by (auto simp: content_preimage_def normalize_entries_eq files_ok_def raise_if_def)

lemma mode_mask_nonneg: "0 \<le> m AND (0xFFF :: int)"
  by simp

lemma sorted_entries_unique:
  assumes "distinct (map fst xs)" "mset xs = mset (ys :: file_entry list)"
  shows "sort_key fst xs = sort_key fst ys"
proof (rule map_sorted_distinct_set_unique [of fst])
  have d: "distinct (map fst ys)"
    using assms by (metis mset_eq_imp_distinct_iff mset_map)
  show "inj_on fst (set (sort_key fst xs) \<union> set (sort_key fst ys))"
    using assms by (metis Un_absorb distinct_map set_mset_mset set_sort)
  show "distinct (map fst (sort_key fst xs))" "distinct (map fst (sort_key fst ys))"
    using assms(1) d by (metis mset_eq_imp_distinct_iff mset_map mset_sort)+
  show "set (sort_key fst xs) = set (sort_key fst ys)"
    using assms(2) by (metis set_mset_mset set_sort)
qed simp_all

lemma files_ok_cong: "mset xs = mset ys \<Longrightarrow> files_ok nfc xs = files_ok nfc ys"
  unfolding files_ok_def
  by (metis mset_eq_imp_distinct_iff mset_map mset_zero_iff set_mset_mset)

lemma content_preimage_Inr:
  assumes "content_preimage nfc es = Inr b"
  shows "files_ok nfc es \<and> (\<forall>e \<in> set es. entry_ok (norm_entry nfc e)) \<and>
    b = CONTENT_HASH_DOMAIN @ concat (map entry_bytes (sort_key fst (map (norm_entry nfc) es)))"
proof -
  let ?es = "sort_key fst (map (norm_entry nfc) es)"
  have ok: "files_ok nfc es" using assms by (auto simp: content_preimage_eq split: if_splits)
  then obtain encs where encs: "res_map encode_entry ?es = Inr encs" "b = CONTENT_HASH_DOMAIN @ concat encs"
    using assms by (auto simp: content_preimage_eq res_bind_eq_Inr)
  have "0 \<le> fst (snd e)" if "e \<in> set ?es" for e
    using that by (auto simp: norm_entry_def)
  then have "list_all2 (\<lambda>e b. entry_ok e \<and> b = entry_bytes e) ?es encs"
    using encs(1) unfolding res_map_eq_Inr
    by (metis (mono_tags, lifting) encode_entry_eq list.rel_mono_strong)
  then have "encs = map entry_bytes ?es \<and> (\<forall>e \<in> set ?es. entry_ok e)"
    by (induction rule: list_all2_induct) auto
  then show ?thesis using ok encs(2) by auto
qed

lemma content_preimage_inject:
  assumes "content_preimage nfc xs = Inr b" "content_preimage nfc ys = Inr b"
  shows "mset (map (norm_entry nfc) xs) = mset (map (norm_entry nfc) ys)"
proof -
  note x = content_preimage_Inr [OF assms(1)] and y = content_preimage_Inr [OF assms(2)]
  have "sort_key fst (map (norm_entry nfc) xs) = sort_key fst (map (norm_entry nfc) ys)"
    by (rule entry.concat_inject) (use x y in auto)
  then show ?thesis by (metis mset_sort)
qed

section \<open>Paths\<close>

text \<open>Resolution of a relative path below a directory, segment by segment; an absolute path
  starts over at the root directory.\<close>

fun walk :: "ustr list \<Rightarrow> ustr list \<Rightarrow> ustr list" where
  "walk dir [] = dir"
| "walk dir (s # ss) =
     (if s \<in> {[], ustr_of ''.''} then walk dir ss
      else if s = ustr_of ''..'' then walk (butlast dir) ss
      else walk (dir @ [s]) ss)"

definition resolve :: "(ustr \<Rightarrow> ustr list) \<Rightarrow> ustr list \<Rightarrow> ustr \<Rightarrow> ustr list" where
  "resolve split dir path = (if take 1 path = [slash] then walk [] (split path) else walk dir (split path))"

text \<open>Segments for a reader that takes the backslash as a separator too.\<close>

definition split_both :: "ustr \<Rightarrow> ustr list" where
  "split_both path = concat (map (py_split backslash) (py_split slash path))"

lemma walk_good: "\<forall>s \<in> set ss. \<not> bad_segment s \<Longrightarrow> walk dir ss = dir @ ss"
  by (induction ss arbitrary: dir) (auto simp: bad_segment_def)

lemma path_ok_segments:
  assumes "path_ok nfc path"
  shows "(\<forall>s \<in> set (py_split slash (nfc path)) \<union> set (split_both (nfc path)). \<not> bad_segment s) \<and>
    take 1 (nfc path) \<noteq> [slash] \<and> 0 \<notin> set path"
  using assms by (auto simp: path_ok_def validate_and_normalize_path_def split_both_def Let_def
      res_bind_eq_Inr list_ex_iff)

lemma split_both_nonempty: "split_both path \<noteq> []"
proof -
  obtain x xs where "py_split slash path = x # xs" by (cases "py_split slash path") auto
  then show ?thesis by (simp add: split_both_def)
qed

section \<open>Toolchain and cache keys\<close>

definition string_ok :: "ustr \<Rightarrow> bool" where
  "string_ok s \<longleftrightarrow> list_all is_scalar s \<and> length (concat (map utf8_char s)) < 256 ^ 8"

definition string_bytes :: "ustr \<Rightarrow> bytes" where
  "string_bytes s = chunk_bytes (concat (map utf8_char s))"

lemma encode_string_eq: "encode_string s = Inr b \<longleftrightarrow> string_ok s \<and> b = string_bytes s"
  by (auto simp: encode_string_def string_ok_def string_bytes_def res_bind_eq_Inr encode_chunk_eq
      utf8_encode_def split: if_splits)

interpretation strings: prefix_code string_bytes string_ok
proof
  fix x y :: ustr and r s
  show "string_bytes x \<noteq> []" by (simp add: string_bytes_def chunk_bytes_def be_bytes_def)
  assume ok: "string_ok x" "string_ok y" and "string_bytes x @ r = string_bytes y @ s"
  then have u: "concat (map utf8_char x) = concat (map utf8_char y) \<and> r = s"
    by (intro chunk.enc_inject) (auto simp: string_ok_def string_bytes_def)
  then show "x = y \<and> r = s"
    using utf8.concat_inject [of x y] ok by (auto simp: string_ok_def list_all_iff)
qed

lemma ustr_of_inject: "ustr_of s = ustr_of t \<longleftrightarrow> s = t"
  by (auto simp: ustr_of_def inj_eq inj_on_def dest!: map_injective)

lemma toolchain_preimage_Inr:
  assumes "toolchain_preimage ms pol pro = Inr b"
  shows "\<exists>ss. ss = sort (map identity ms) @ [ustr_of pol, ustr_of pro] \<and>
    (\<forall>s \<in> set ss. string_ok s) \<and> b = TOOLCHAIN_DIGEST_DOMAIN @ concat (map string_bytes ss)"
proof -
  obtain ids where ids: "res_map encode_string (sort (map identity ms)) = Inr ids"
    and rest: "string_ok (ustr_of pol)" "string_ok (ustr_of pro)"
      "b = TOOLCHAIN_DIGEST_DOMAIN @ concat ids @ string_bytes (ustr_of pol) @ string_bytes (ustr_of pro)"
    using assms by (auto simp: toolchain_preimage_def res_bind_eq_Inr encode_string_eq)
  have "list_all2 (\<lambda>s b. string_ok s \<and> b = string_bytes s) (sort (map identity ms)) ids"
    using ids unfolding res_map_eq_Inr encode_string_eq .
  then have "ids = map string_bytes (sort (map identity ms)) \<and>
      (\<forall>s \<in> set (sort (map identity ms)). string_ok s)"
    by (induction rule: list_all2_induct) auto
  then show ?thesis using rest by auto
qed

text \<open>The identity string is unambiguous when names have no \<open>@\<close> and versions no \<open>#\<close>.\<close>

definition separable :: "engine_metadata \<Rightarrow> bool" where
  "separable m \<longleftrightarrow> CHR ''@'' \<notin> set (em_name m) \<and> CHR ''#'' \<notin> set (em_version m)"

definition engine_triple :: "engine_metadata \<Rightarrow> string \<times> string \<times> string" where
  "engine_triple m = (em_name m, em_version m, em_ruleset_digest m)"

lemma identity_inject:
  "separable m \<Longrightarrow> separable n \<Longrightarrow> identity m = identity n \<longleftrightarrow> engine_triple m = engine_triple n"
  by (auto simp: identity_def separable_def engine_triple_def ustr_of_inject sep_append_inject)

lemma mset_identity_inject:
  assumes "\<forall>m \<in> set ms \<union> set ns. separable m"
    and eq: "mset (map identity ms) = mset (map identity ns)"
  shows "mset (map engine_triple ms) = mset (map engine_triple ns)"
proof -
  define g where "g s = engine_triple (SOME m. separable m \<and> identity m = s)" for s
  have g: "g (identity m) = engine_triple m" if "separable m" for m
  proof -
    have "separable (SOME k. separable k \<and> identity k = identity m) \<and>
        identity (SOME k. separable k \<and> identity k = identity m) = identity m"
      by (rule someI [of "\<lambda>k. separable k \<and> identity k = identity m"]) (use that in simp)
    then show ?thesis using that identity_inject unfolding g_def by blast
  qed
  have "mset (map g (map identity ms)) = mset (map g (map identity ns))"
    using eq by (metis mset_map)
  moreover have "map g (map identity xs) = map engine_triple xs" if "\<forall>m \<in> set xs. separable m" for xs
    using that g by simp
  ultimately show ?thesis using assms(1) by (metis UnCI)
qed

lemma toolchain_preimage_inject:
  assumes "toolchain_preimage ms pol pro = Inr b" "toolchain_preimage ns pol' pro' = Inr b"
  shows "pol = pol' \<and> pro = pro' \<and> mset (map identity ms) = mset (map identity ns)"
proof -
  from toolchain_preimage_Inr [OF assms(1)] toolchain_preimage_Inr [OF assms(2)]
  have "sort (map identity ms) @ [ustr_of pol, ustr_of pro] =
      sort (map identity ns) @ [ustr_of pol', ustr_of pro']"
    by (intro strings.concat_inject) auto
  then have "sort (map identity ms) = sort (map identity ns) \<and> ustr_of pol = ustr_of pol' \<and>
      ustr_of pro = ustr_of pro'" by auto
  then show ?thesis by (metis mset_sort ustr_of_inject)
qed

section \<open>Properties\<close>

text \<open>Note: The content hash does not depend on the order in which the files are listed: a
  permutation of the entries gives the same digest, or the same exception.\<close>

theorem content_hash_order_independent:
  assumes "mset fs = mset gs"
  shows "content_hash nfc sha256 fs = content_hash nfc sha256 gs"
proof (cases "files_ok nfc fs")
  case True
  then have "distinct (map fst (map (norm_entry nfc) fs))" by (simp add: files_ok_def comp_def)
  moreover have "mset (map (norm_entry nfc) fs) = mset (map (norm_entry nfc) gs)" using assms by simp
  ultimately have "sort_key fst (map (norm_entry nfc) fs) = sort_key fst (map (norm_entry nfc) gs)"
    by (rule sorted_entries_unique)
  then show ?thesis
    using files_ok_cong [OF assms] by (simp add: content_hash_def content_preimage_eq)
next
  case False
  then show ?thesis
    using files_ok_cong [OF assms] by (simp add: content_hash_def content_preimage_eq)
qed

text \<open>Note: A package that gets a content hash has only paths that stay below the directory they are
  unpacked in: resolving the normalised path, with the slash or with both the slash and the
  backslash as separators, appends at least one segment to the directory and never leaves it; no
  two entries share a normalised path, and no raw path carries a NUL.\<close>

theorem content_hash_paths_contained:
  assumes "content_hash nfc sha256 fs = Inr h" and "e \<in> set fs"
  shows "(\<exists>tail. tail \<noteq> [] \<and> resolve (py_split slash) dir (nfc (fst e)) = dir @ tail) \<and>
    (\<exists>tail. tail \<noteq> [] \<and> resolve split_both dir (nfc (fst e)) = dir @ tail) \<and>
    0 \<notin> set (fst e) \<and> distinct (map (nfc \<circ> fst) fs)"
proof -
  have ok: "files_ok nfc fs"
    using assms(1) by (auto simp: content_hash_def content_preimage_eq res_bind_eq_Inr split: if_splits)
  then have "path_ok nfc (fst e)" using assms(2) by (simp add: files_ok_def)
  note seg = path_ok_segments [OF this]
  have "resolve (py_split slash) dir (nfc (fst e)) = dir @ py_split slash (nfc (fst e))"
    "resolve split_both dir (nfc (fst e)) = dir @ split_both (nfc (fst e))"
    using seg walk_good by (auto simp: resolve_def)
  then show ?thesis using seg ok split_both_nonempty by (auto simp: files_ok_def)
qed

text \<open>C26: A verdict cached under a cache key is reused only for the same package and the same
  toolchain: if two scans get the same key, and SHA-256 does not collide on the inputs hashed for
  them, then their packages have the same files (normalised path, permission bits, bytes), their
  engines the same names, versions and ruleset digests, and their policy and prompt versions agree.
  Digests contain no colon, and engine names and versions not the separators of the identity
  string.\<close>

theorem cache_key_sound:
  assumes content: "content_hash nfc sha256 fs = Inr ch" "content_hash nfc sha256 gs = Inr ch'"
    and tools: "toolchain_digest sha256 ms pol pro = Inr td" "toolchain_digest sha256 ns pol' pro' = Inr td'"
    and key: "cache_key sha256 ch td = Inr k" "cache_key sha256 ch' td' = Inr k"
    and hex: "\<forall>b. CHR '':'' \<notin> set (sha256 b)"
    and inj: "inj_on sha256 {b. content_preimage nfc fs = Inr b \<or> content_preimage nfc gs = Inr b \<or>
      toolchain_preimage ms pol pro = Inr b \<or> toolchain_preimage ns pol' pro' = Inr b \<or>
      b = CACHE_KEY_DOMAIN @ string_bytes (ustr_of (ch @ ''::'' @ td)) \<or>
      b = CACHE_KEY_DOMAIN @ string_bytes (ustr_of (ch' @ ''::'' @ td'))}"
    and sep: "\<forall>m \<in> set ms \<union> set ns. separable m"
  shows "mset (map (norm_entry nfc) fs) = mset (map (norm_entry nfc) gs) \<and>
    mset (map engine_triple ms) = mset (map engine_triple ns) \<and> pol = pol' \<and> pro = pro'"
proof -
  obtain b b' where b: "content_preimage nfc fs = Inr b" "ch = sha256 b"
      "content_preimage nfc gs = Inr b'" "ch' = sha256 b'"
    using content by (auto simp: content_hash_def res_bind_eq_Inr)
  obtain t t' where t: "toolchain_preimage ms pol pro = Inr t" "td = sha256 t"
      "toolchain_preimage ns pol' pro' = Inr t'" "td' = sha256 t'"
    using tools by (auto simp: toolchain_digest_def res_bind_eq_Inr)
  have ok: "string_ok (ustr_of (ch @ ''::'' @ td))" "string_ok (ustr_of (ch' @ ''::'' @ td'))"
    and "sha256 (CACHE_KEY_DOMAIN @ string_bytes (ustr_of (ch @ ''::'' @ td))) =
      sha256 (CACHE_KEY_DOMAIN @ string_bytes (ustr_of (ch' @ ''::'' @ td')))"
    using key by (auto simp: cache_key_def res_bind_eq_Inr encode_string_eq)
  then have "string_bytes (ustr_of (ch @ ''::'' @ td)) @ [] = string_bytes (ustr_of (ch' @ ''::'' @ td')) @ []"
    using inj_onD [OF inj] by auto
  then have "ch @ ''::'' @ td = ch' @ ''::'' @ td'"
    using strings.enc_inject [OF ok] ustr_of_inject by blast
  then have "ch = ch' \<and> td = td'"
    using hex b t by (simp add: sep_append_inject)
  then have eq: "sha256 b = sha256 b'" "sha256 t = sha256 t'" using b t by auto
  have "b = b'" by (rule inj_onD [OF inj eq(1)]) (use b in auto)
  moreover have "t = t'" by (rule inj_onD [OF inj eq(2)]) (use t in auto)
  ultimately show ?thesis
    using content_preimage_inject b toolchain_preimage_inject t mset_identity_inject [OF sep] by metis
qed

section \<open>Witnesses\<close>

definition sample_files :: "file_entry list" where
  "sample_files = [(ustr_of ''a/b'', 0x1A4, [1, 2]), (ustr_of ''c'', 0x1ED, [])]"

definition length_digest :: "bytes \<Rightarrow> string" where
  "length_digest b = replicate (length b) (CHR ''0'')"

definition sample_engine :: engine_metadata where
  "sample_engine = er_engine (sample_result [])"

lemmas canonical_eval = content_hash_def content_preimage_def toolchain_digest_def
  toolchain_preimage_def cache_key_def encode_string_def encode_entry_def encode_chunk_def
  struct_pack_def utf8_encode_def is_scalar_def utf8_char_def utf8_nats_def
  validate_and_normalize_path_def bad_segment_def ustr_of_def Let_def raise_if_def

lemma sample_content: "content_preimage id sample_files = Inr (CONTENT_HASH_DOMAIN @
    concat (map entry_bytes (sort_key fst (map (norm_entry id) sample_files))))"
  by (simp add: canonical_eval sample_files_def entry_bytes_def norm_entry_def chunk_bytes_def)

lemma ustr_of_scalar: "list_all is_scalar (ustr_of s)"
  unfolding list_all_iff ustr_of_def is_scalar_def
proof
  fix c :: nat assume "c \<in> set (map of_char s)"
  then obtain x :: char where "c = of_char x" by auto
  then have "c < 256" using nat_of_char_less_256 [of x] by simp
  then show "c < 0xD800 \<or> 0xE000 \<le> c \<and> c < 0x110000" by simp
qed

lemma length_utf8_bounds:
  "length s \<le> length (concat (map utf8_char s)) \<and> length (concat (map utf8_char s)) \<le> 4 * length s"
  by (induction s) (auto simp: utf8_char_def utf8_nats_def)

lemma string_ok_of: "4 * length s < 256 ^ 8 \<Longrightarrow> string_ok (ustr_of s)"
  using ustr_of_scalar [of s] length_utf8_bounds [of "ustr_of s"]
  by (simp add: string_ok_def ustr_of_def)

lemma sample_toolchain: "toolchain_preimage [sample_engine] ''v1'' ''none'' = Inr (TOOLCHAIN_DIGEST_DOMAIN @
    string_bytes (identity sample_engine) @ string_bytes (ustr_of ''v1'') @ string_bytes (ustr_of ''none''))"
proof -
  have "encode_string (ustr_of s) = Inr (string_bytes (ustr_of s))" if "length s < 100" for s
    using that string_ok_of [of s] by (simp add: encode_string_eq)
  then show ?thesis
    by (simp add: toolchain_preimage_def identity_def sample_engine_def sample_result_def)
qed

theorem content_hash_order_independent_witness:
  "content_hash id length_digest sample_files = content_hash id length_digest (rev sample_files) \<and>
   content_hash id length_digest sample_files \<noteq> Inl ValueError"
  using content_hash_order_independent [of sample_files "rev sample_files" id length_digest]
  by (auto simp: content_hash_def sample_content)

theorem content_hash_paths_contained_witness:
  "\<exists>tail. tail \<noteq> [] \<and> resolve split_both [ustr_of ''root''] (id (ustr_of ''c'')) = [ustr_of ''root''] @ tail"
  using content_hash_paths_contained [of id length_digest sample_files
      "length_digest (CONTENT_HASH_DOMAIN @
        concat (map entry_bytes (sort_key fst (map (norm_entry id) sample_files))))"
      "(ustr_of ''c'', 0x1ED, [])" "[ustr_of ''root'']"]
  by (simp add: content_hash_def sample_content) (simp add: sample_files_def)

lemma length_digest_no_colon: "CHR '':'' \<notin> set (length_digest b)"
  by (simp add: length_digest_def)

lemma sample_separable: "separable sample_engine"
  by (simp add: separable_def sample_engine_def sample_result_def)

lemma length_digest_inj:
  assumes "length b = 72" "length t = 78" "78 < length k"
  shows "inj_on length_digest {b, t, k}"
proof (rule inj_onI)
  fix x y
  assume mem: "x \<in> {b, t, k}" "y \<in> {b, t, k}" and "length_digest x = length_digest y"
  then have "length x = length y" by (metis length_digest_def length_replicate)
  then show "x = y" using mem assms by auto
qed

theorem cache_key_sound_witness:
  "mset (map (norm_entry id) sample_files) = mset (map (norm_entry id) (rev sample_files)) \<and>
   mset (map engine_triple [sample_engine]) = mset (map engine_triple [sample_engine]) \<and>
   ''v1'' = ''v1'' \<and> ''none'' = ''none''"
proof -
  let ?b = "CONTENT_HASH_DOMAIN @ concat (map entry_bytes (sort_key fst (map (norm_entry id) sample_files)))"
  let ?t = "TOOLCHAIN_DIGEST_DOMAIN @
    string_bytes (identity sample_engine) @ string_bytes (ustr_of ''v1'') @ string_bytes (ustr_of ''none'')"
  let ?ch = "length_digest ?b" and ?td = "length_digest ?t"
  let ?k = "CACHE_KEY_DOMAIN @ string_bytes (ustr_of (?ch @ ''::'' @ ?td))"
  have r: "content_preimage id (rev sample_files) = Inr ?b"
    by (simp add: canonical_eval sample_files_def entry_bytes_def norm_entry_def chunk_bytes_def)
  have lb: "length ?b = 72"
    by (simp add: sample_files_def entry_bytes_def norm_entry_def chunk_bytes_def CONTENT_HASH_DOMAIN_def
        utf8_char_def utf8_nats_def ustr_of_def)
  have lt: "length ?t = 78"
    by (simp add: string_bytes_def identity_def sample_engine_def sample_result_def chunk_bytes_def
        TOOLCHAIN_DIGEST_DOMAIN_def utf8_char_def utf8_nats_def ustr_of_def)
  have lk: "length ?k > 78"
    using length_utf8_bounds [of "ustr_of (?ch @ ''::'' @ ?td)"] lb lt
    by (simp add: string_bytes_def chunk_bytes_def CACHE_KEY_DOMAIN_def length_digest_def ustr_of_def)
  have ok: "string_ok (ustr_of (?ch @ ''::'' @ ?td))"
    by (rule string_ok_of) (use lb lt in \<open>simp add: length_digest_def\<close>)
  show ?thesis
  proof (rule cache_key_sound [of id length_digest sample_files ?ch "rev sample_files" ?ch _ _ _ ?td _ _ _ ?td
        "length_digest ?k"])
    show "inj_on length_digest {b. content_preimage id sample_files = Inr b \<or>
        content_preimage id (rev sample_files) = Inr b \<or>
        toolchain_preimage [sample_engine] ''v1'' ''none'' = Inr b \<or>
        toolchain_preimage [sample_engine] ''v1'' ''none'' = Inr b \<or>
        b = ?k \<or> b = ?k}"
      by (rule inj_on_subset [OF length_digest_inj [OF lb lt lk]])
         (use r sample_content sample_toolchain in auto)
  qed (use r ok in \<open>simp_all add: content_hash_def sample_content toolchain_digest_def sample_toolchain
        cache_key_def encode_string_eq [THEN iffD2] length_digest_no_colon sample_separable\<close>)
qed

end
