(* ===== verification/Core_Scoring.thy ===== *)
theory Core_Scoring
  imports Core_Samples "HOL-Library.Product_Lexorder" "HOL-Library.Option_ord"
begin

text \<open>
  Deterministic aggregation and scoring (\<open>libs/skillscan_core/scoring.py\<close>):
  evaluation of a finding set, deduplication, aggregation of engine results into a
  scan result, and the advisory score. Floats are reals, so the score is the exact value
  of the formula the code approximates in double precision.
\<close>

section \<open>Evaluating a finding set\<close>

definition counted_findings :: "real \<Rightarrow> finding list \<Rightarrow> finding list" where
  "counted_findings min_confidence fs = filter (\<lambda>f. fd_confidence f \<ge> min_confidence) fs"

definition collect_signals :: "finding list \<Rightarrow> trifecta_signal set" where
  "collect_signals fs = fold (\<lambda>f s. s \<union> fd_trifecta_signals f) fs {}"

definition evaluate_findings ::
  "finding list \<Rightarrow> real \<Rightarrow> string set \<Rightarrow> severity \<times> real \<times> bool \<times> string list" where
  "evaluate_findings findings min_confidence hard_gate_rules =
     (let hard_gate_hits = sorted_list_of_set
            (set (filter (\<lambda>r. r \<in> hard_gate_rules) (map fd_rule_id findings)));
          counted = counted_findings min_confidence findings;
          severity = py_max NONE (map fd_severity counted);
          confidence_at_max =
            py_max 0 (map fd_confidence (filter (\<lambda>f. fd_severity f = severity) counted));
          trifecta_present = ALL_TRIFECTA_SIGNALS \<subseteq> collect_signals counted;
          severity' = (if trifecta_present \<and> severity < CRITICAL then CRITICAL else severity)
      in (severity', confidence_at_max, trifecta_present, hard_gate_hits))"

section \<open>Deduplication\<close>

type_synonym best_key = "dedup_key_t \<times> bool"

definition best_key :: "finding \<Rightarrow> best_key" where
  "best_key f = (dedup_key f, is_llm_sourced f)"

definition finding_rank :: "finding \<Rightarrow> severity \<times> real" where
  "finding_rank f = (fd_severity f, fd_confidence f)"

definition best_step :: "finding \<Rightarrow> (best_key \<times> finding) list \<Rightarrow> (best_key \<times> finding) list" where
  "best_step f best =
     (case map_of best (best_key f) of
        None \<Rightarrow> dict_put (best_key f) f best
      | Some current \<Rightarrow>
          (if finding_rank f > finding_rank current then dict_put (best_key f) f best else best))"

definition dedup_step ::
  "finding \<Rightarrow> (best_key \<times> finding) list \<times> string set \<Rightarrow> (best_key \<times> finding) list \<times> string set" where
  "dedup_step f = (\<lambda>(best, collided).
     (best_step f best,
      if map_of best (best_key f) \<noteq> None then insert (fd_rule_id f) collided else collided))"

text \<open>
  The sort key of the survivors is the key itself, a tuple with optional components. Python
  compares tuples at their first difference; comparing \<open>None\<close> with a string or an
  integer there raises \<open>TypeError\<close>. A comparison sort compares every two elements that
  end up adjacent, so it raises exactly when two survivors are incomparable.
\<close>

definition keys_incomparable :: "best_key \<Rightarrow> best_key \<Rightarrow> bool" where
  "keys_incomparable a b =
     (case (a, b) of (((r1, p1, l1, c1), m1), ((r2, p2, l2, c2), m2)) \<Rightarrow>
        if r1 \<noteq> r2 then False
        else if p1 \<noteq> p2 then p1 = None \<or> p2 = None
        else if l1 \<noteq> l2 then l1 = None \<or> l2 = None
        else False)"

definition survivor_sort_key ::
  "finding \<Rightarrow> string \<times> string option \<times> int option \<times> string \<times> bool" where
  "survivor_sort_key f =
     (fd_rule_id f, fd_file_path f, fd_start_line f, category_value (fd_category f),
      is_llm_sourced f)"

definition dedup :: "finding list \<Rightarrow> (finding list \<times> string set) res" where
  "dedup findings =
     (let (best, collided) = fold dedup_step findings ([], {});
          survivors = map snd best
      in if list_ex (\<lambda>f. list_ex (\<lambda>g. keys_incomparable (best_key f) (best_key g)) survivors)
              survivors
         then Inl TypeError
         else Inr (sort_key survivor_sort_key survivors, collided))"

section \<open>Aggregation\<close>

definition worst_first_key :: "finding \<Rightarrow> int \<times> real" where
  "worst_first_key f = (- severity_int (fd_severity f), - fd_confidence f)"

definition safe_results :: "engine_result list \<Rightarrow> engine_result list" where
  "safe_results rs = filter (\<lambda>r. \<not> em_requires_network (er_engine r)) rs"

definition all_findings :: "engine_result list \<Rightarrow> finding list" where
  "all_findings rs =
     sort_key worst_first_key (concat (map er_findings (filter usable (safe_results rs))))"

definition aggregate ::
  "string \<Rightarrow> engine_result list \<Rightarrow> gate_policy \<Rightarrow> real \<Rightarrow> nat \<Rightarrow> scan_result res" where
  "aggregate content_hash engine_results policy min_confidence max_findings =
     (let safe = safe_results engine_results;
          present_and_usable = set (map (em_name \<circ> er_engine) (filter usable safe));
          missing_or_failed =
            sorted_list_of_set (gp_required_engines policy - present_and_usable);
          required_ok = (missing_or_failed = []);
          findings = all_findings engine_results;
          pre_cap_hard_gate_hits =
            set (filter (\<lambda>r. r \<in> gp_hard_gate_rules policy) (map fd_rule_id findings));
          pre_cap_counted = counted_findings min_confidence findings;
          pre_cap_trifecta_present = ALL_TRIFECTA_SIGNALS \<subseteq> collect_signals pre_cap_counted;
          findings_total = length findings;
          findings_capped = findings_total > max_findings;
          capped_findings = (if findings_capped then take max_findings findings else findings)
      in res_bind (dedup capped_findings) (\<lambda>(deduped, collided_rule_ids).
         let (severity, confidence_at_max, trifecta_postcap, hard_gate_hits_postcap) =
               evaluate_findings deduped min_confidence (gp_hard_gate_rules policy);
             final_hard_gate_hits =
               sorted_list_of_set (pre_cap_hard_gate_hits \<union> set hard_gate_hits_postcap);
             final_trifecta_present = (pre_cap_trifecta_present \<or> trifecta_postcap);
             severity' =
               (if final_trifecta_present \<and> severity < CRITICAL then CRITICAL else severity);
             engine_provenance =
               sort (map (\<lambda>r. (em_name (er_engine r), em_version (er_engine r),
                                em_ruleset_digest (er_engine r))) safe)
         in Inr \<lparr>sr_content_hash = content_hash, sr_severity = severity',
                 sr_confidence_at_max = confidence_at_max,
                 sr_trifecta_present = final_trifecta_present,
                 sr_hard_gate_hits = final_hard_gate_hits, sr_findings = deduped,
                 sr_engine_provenance = engine_provenance,
                 sr_findings_capped = findings_capped, sr_required_ok = required_ok,
                 sr_missing_or_failed_required = missing_or_failed,
                 sr_findings_total = findings_total,
                 sr_dedup_collision_rule_ids = collided_rule_ids\<rparr>))"

section \<open>Facts: evaluation\<close>

lemma collect_signals_eq: "collect_signals fs = (\<Union>f \<in> set fs. fd_trifecta_signals f)"
proof -
  have "fold (\<lambda>f s. s \<union> fd_trifecta_signals f) fs A = A \<union> (\<Union>f \<in> set fs. fd_trifecta_signals f)"
    for A by (induction fs arbitrary: A) auto
  then show ?thesis by (simp add: collect_signals_def)
qed

lemma collect_signals_mono: "set fs \<subseteq> set gs \<Longrightarrow> collect_signals fs \<subseteq> collect_signals gs"
  by (auto simp: collect_signals_eq)

lemma set_counted [simp]:
  "set (counted_findings c fs) = {f \<in> set fs. c \<le> fd_confidence f}"
  by (auto simp: counted_findings_def)

text \<open>The four components of an evaluation, one by one.\<close>

abbreviation eval_severity :: "finding list \<Rightarrow> real \<Rightarrow> string set \<Rightarrow> severity" where
  "eval_severity fs c h \<equiv> fst (evaluate_findings fs c h)"

abbreviation eval_confidence :: "finding list \<Rightarrow> real \<Rightarrow> string set \<Rightarrow> real" where
  "eval_confidence fs c h \<equiv> fst (snd (evaluate_findings fs c h))"

abbreviation eval_trifecta :: "finding list \<Rightarrow> real \<Rightarrow> string set \<Rightarrow> bool" where
  "eval_trifecta fs c h \<equiv> fst (snd (snd (evaluate_findings fs c h)))"

abbreviation eval_hard_gate :: "finding list \<Rightarrow> real \<Rightarrow> string set \<Rightarrow> string list" where
  "eval_hard_gate fs c h \<equiv> snd (snd (snd (evaluate_findings fs c h)))"

lemma eval_trifecta_iff:
  "eval_trifecta fs c h \<longleftrightarrow> ALL_TRIFECTA_SIGNALS \<subseteq> collect_signals (counted_findings c fs)"
  by (simp add: evaluate_findings_def Let_def)

lemma eval_severity_eq:
  "eval_severity fs c h =
     (if eval_trifecta fs c h then CRITICAL
      else py_max NONE (map fd_severity (counted_findings c fs)))"
  by (simp add: evaluate_findings_def Let_def)

lemma eval_hard_gate_set: "set (eval_hard_gate fs c h) = fd_rule_id ` set fs \<inter> h"
  by (auto simp: evaluate_findings_def Let_def)

lemma eval_severity_ge:
  assumes "f \<in> set fs" "c \<le> fd_confidence f"
  shows "fd_severity f \<le> eval_severity fs c h"
  using assms py_max_ge [of "fd_severity f" "map fd_severity (counted_findings c fs)" NONE]
  by (auto simp: eval_severity_eq)

lemma eval_trifecta_mono:
  "set fs \<subseteq> set gs \<Longrightarrow> eval_trifecta fs c h \<Longrightarrow> eval_trifecta gs c h"
  using collect_signals_mono [of "counted_findings c fs" "counted_findings c gs"]
  by (auto simp: eval_trifecta_iff)

lemma eval_severity_mono:
  assumes "set fs \<subseteq> set gs"
  shows "eval_severity fs c h \<le> eval_severity gs c h"
proof (cases "eval_trifecta gs c h")
  case True
  then show ?thesis by (simp add: eval_severity_eq)
next
  case False
  then have "\<not> eval_trifecta fs c h" using eval_trifecta_mono [OF assms] by blast
  moreover have "set (map fd_severity (counted_findings c fs)) \<subseteq>
      set (map fd_severity (counted_findings c gs))"
    using assms by auto
  ultimately show ?thesis using False by (simp add: eval_severity_eq py_max_mono)
qed

lemma eval_severity_set_cong: "set fs = set gs \<Longrightarrow> eval_severity fs c h = eval_severity gs c h"
  by (simp add: eval_severity_mono order_antisym)

lemma eval_severity_NONE_iff:
  assumes "\<And>f. f \<in> set fs \<Longrightarrow> fd_severity f \<noteq> NONE"
  shows "eval_severity fs c h = NONE \<longleftrightarrow> counted_findings c fs = []"
proof
  assume none: "eval_severity fs c h = NONE"
  show "counted_findings c fs = []"
  proof (rule ccontr)
    assume "counted_findings c fs \<noteq> []"
    then obtain f where "f \<in> set (counted_findings c fs)" by (meson list.set_sel(1))
    then have "f \<in> set fs" "c \<le> fd_confidence f" by auto
    then show False using eval_severity_ge [of f fs c h] none assms by auto
  qed
next
  assume empty: "counted_findings c fs = []"
  then have "\<not> eval_trifecta fs c h"
    by (simp add: eval_trifecta_iff collect_signals_eq ALL_TRIFECTA_SIGNALS_def)
  then show "eval_severity fs c h = NONE" using empty by (simp add: eval_severity_eq)
qed

section \<open>Facts: deduplication\<close>

interpretation db: best_per_key best_key finding_rank best_step
  by unfold_locales (simp_all add: best_step_def)

lemma fold_dedup_step:
  "fold dedup_step fs (m, C) =
     (fold best_step fs m, snd (fold dedup_step fs (m, C)))"
proof (induction fs arbitrary: m C)
  case Nil
  then show ?case by simp
next
  case (Cons f fs)
  have "dedup_step f (m, C) = (best_step f m, snd (dedup_step f (m, C)))"
    by (simp add: dedup_step_def)
  then show ?case using Cons.IH [of "best_step f m" "snd (dedup_step f (m, C))"]
    by (metis fold_simps(2))
qed

definition survivors :: "finding list \<Rightarrow> finding list" where
  "survivors fs = map snd (fold best_step fs [])"

definition collided :: "finding list \<Rightarrow> string set" where
  "collided fs = snd (fold dedup_step fs ([], {}))"

lemma dedup_eq:
  "dedup fs =
     (if \<exists>f \<in> set (survivors fs). \<exists>g \<in> set (survivors fs). keys_incomparable (best_key f) (best_key g)
      then Inl TypeError
      else Inr (sort_key survivor_sort_key (survivors fs), collided fs))"
  by (subst dedup_def, subst fold_dedup_step)
    (simp add: survivors_def collided_def list_ex_iff Let_def)

lemma survivors_subset: "set (survivors fs) \<subseteq> set fs"
  by (auto simp: survivors_def dest: db.run_member)

lemma survivors_best:
  assumes "g \<in> set (survivors fs)" "f \<in> set fs" "best_key f = best_key g"
  shows "finding_rank f \<le> finding_rank g"
  using assms db.run_member [of _ g fs] by (auto simp: survivors_def)

lemma survivors_cover:
  assumes "f \<in> set fs"
  shows "\<exists>g \<in> set (survivors fs). best_key g = best_key f \<and> finding_rank f \<le> finding_rank g"
proof -
  obtain g where g: "(best_key f, g) \<in> set (fold best_step fs [])"
      and "finding_rank f \<le> finding_rank g"
    using db.run_covers [OF assms] by blast
  moreover have "g \<in> set (survivors fs)" using g by (force simp: survivors_def)
  ultimately show ?thesis using db.run_member [OF g] by auto
qed

lemma survivors_keys: "best_key ` set (survivors fs) = best_key ` set fs"
proof
  show "best_key ` set (survivors fs) \<subseteq> best_key ` set fs"
    by (rule image_mono, rule survivors_subset)
  show "best_key ` set fs \<subseteq> best_key ` set (survivors fs)"
    using survivors_cover [of _ fs] by (intro image_subsetI) (metis imageI)
qed

lemma fst_eq_best_key: "map fst (fold best_step fs []) = map best_key (survivors fs)"
  unfolding survivors_def map_map
  by (rule map_cong) (auto dest: db.run_member)

lemma survivors_distinct_keys: "distinct (map best_key (survivors fs))"
  using db.run_distinct [of fs] by (simp add: fst_eq_best_key)

lemma dedup_raises_iff:
  "dedup fs = Inl e \<longleftrightarrow> e = TypeError \<and>
     (\<exists>f \<in> set fs. \<exists>g \<in> set fs. keys_incomparable (best_key f) (best_key g))"
proof -
  have "(\<exists>f \<in> set (survivors fs). \<exists>g \<in> set (survivors fs). keys_incomparable (best_key f) (best_key g)) \<longleftrightarrow>
      (\<exists>j \<in> best_key ` set (survivors fs). \<exists>k \<in> best_key ` set (survivors fs). keys_incomparable j k)"
    by blast
  also have "\<dots> \<longleftrightarrow> (\<exists>f \<in> set fs. \<exists>g \<in> set fs. keys_incomparable (best_key f) (best_key g))"
    unfolding survivors_keys by blast
  finally show ?thesis by (auto simp: dedup_eq)
qed

lemma dedup_Inr: "dedup fs = Inr (ds, C) \<Longrightarrow> set ds = set (survivors fs) \<and> C = collided fs"
  by (auto simp: dedup_eq split: if_splits)

lemma dedup_Inr_distinct:
  assumes "dedup fs = Inr (ds, C)"
  shows "distinct (map best_key ds)"
proof -
  have "ds = sort_key survivor_sort_key (survivors fs)"
    using assms by (simp add: dedup_eq split: if_splits)
  then have "mset (map best_key ds) = mset (map best_key (survivors fs))" by simp
  then show ?thesis using survivors_distinct_keys [of fs] mset_eq_imp_distinct_iff by metis
qed

text \<open>The collision record: a rule identifier is in it exactly when some key was offered twice.\<close>

lemma collided_from:
  "snd (fold dedup_step fs (m, C)) =
     C \<union> {fd_rule_id (fs ! i) | i. i < length fs \<and>
            best_key (fs ! i) \<in> fst ` set m \<union> best_key ` set (take i fs)}"
proof (induction fs rule: rev_induct)
  case Nil
  then show ?case by simp
next
  case (snoc f fs)
  let ?m = "fold best_step fs m"
  have "map_of ?m (best_key f) \<noteq> None \<longleftrightarrow> best_key f \<in> fst ` set m \<union> best_key ` set fs"
    by (simp add: map_of_eq_None_iff db.fold_keys)
  moreover have "fold dedup_step (fs @ [f]) (m, C) =
      dedup_step f (?m, snd (fold dedup_step fs (m, C)))"
    by (simp add: fold_dedup_step [symmetric])
  ultimately have "snd (fold dedup_step (fs @ [f]) (m, C)) = snd (fold dedup_step fs (m, C)) \<union>
      (if best_key f \<in> fst ` set m \<union> best_key ` set fs then {fd_rule_id f} else {})"
    by (auto simp: dedup_step_def)
  also have "\<dots> = C \<union> {fd_rule_id ((fs @ [f]) ! i) | i. i < length (fs @ [f]) \<and>
      best_key ((fs @ [f]) ! i) \<in> fst ` set m \<union> best_key ` set (take i (fs @ [f]))}"
    unfolding snoc.IH positions_snoc [of fd_rule_id fs f
        "\<lambda>x ys. best_key x \<in> fst ` set m \<union> best_key ` set ys"] by (rule Un_assoc)
  finally show ?case .
qed

lemma collided_iff:
  "r \<in> collided fs \<longleftrightarrow>
     (\<exists>j < length fs. fd_rule_id (fs ! j) = r \<and> best_key (fs ! j) \<in> best_key ` set (take j fs))"
  by (auto simp: collided_def collided_from simp del: set_take_subset)

section \<open>Facts: aggregation\<close>

definition usable_findings :: "engine_result list \<Rightarrow> finding list" where
  "usable_findings rs = concat (map er_findings (filter usable (safe_results rs)))"

lemma set_all_findings: "set (all_findings rs) = set (usable_findings rs)"
  by (simp add: all_findings_def usable_findings_def)

lemma length_all_findings: "length (all_findings rs) = length (usable_findings rs)"
  by (simp add: all_findings_def usable_findings_def)

lemma all_findings_head_worst:
  assumes "all_findings rs = f # fs" "g \<in> set (all_findings rs)"
  shows "fd_severity g \<le> fd_severity f"
proof -
  have "sorted (map worst_first_key (f # fs))"
    using assms(1) unfolding all_findings_def by (metis sorted_sort_key)
  then have "worst_first_key f \<le> worst_first_key g" using assms by auto
  then show ?thesis
    by (auto simp: worst_first_key_def less_eq_prod_def severity_order)
qed

lemma aggregate_InrE:
  assumes "aggregate ch rs p c n = Inr sr"
  obtains ds where
    "dedup (take n (all_findings rs)) = Inr (ds, collided (take n (all_findings rs)))"
    "sr_content_hash sr = ch"
    "sr_findings sr = ds"
    "set ds = set (survivors (take n (all_findings rs)))"
    "sr_trifecta_present sr \<longleftrightarrow>
       eval_trifecta (all_findings rs) c (gp_hard_gate_rules p) \<or> eval_trifecta ds c (gp_hard_gate_rules p)"
    "sr_severity sr =
       (if sr_trifecta_present sr then CRITICAL else eval_severity ds c (gp_hard_gate_rules p))"
    "set (sr_hard_gate_hits sr) = fd_rule_id ` set (all_findings rs) \<inter> gp_hard_gate_rules p \<union>
       fd_rule_id ` set ds \<inter> gp_hard_gate_rules p"
    "sr_findings_total sr = length (all_findings rs)"
    "sr_findings_capped sr \<longleftrightarrow> n < length (all_findings rs)"
    "sr_required_ok sr \<longleftrightarrow> sorted_list_of_set (gp_required_engines p -
       em_name ` er_engine ` set (filter usable (safe_results rs))) = []"
    "sr_dedup_collision_rule_ids sr = collided (take n (all_findings rs))"
proof -
  let ?h = "gp_hard_gate_rules p"
  have cap: "(if n < length (all_findings rs) then take n (all_findings rs) else all_findings rs) =
      take n (all_findings rs)" by simp
  have fin: "finite (fd_rule_id ` set (all_findings rs) \<inter> ?h)" by simp
  obtain ds C where ds: "dedup (take n (all_findings rs)) = Inr (ds, C)"
    using assms unfolding aggregate_def Let_def cap by (auto simp: res_bind_eq_Inr)
  obtain sev conf trif hits where ev: "evaluate_findings ds c ?h = (sev, conf, trif, hits)"
    by (metis prod_cases4)
  have trif: "trif \<longleftrightarrow> eval_trifecta ds c ?h" and sev: "sev = eval_severity ds c ?h"
    and hits: "set hits = fd_rule_id ` set ds \<inter> ?h"
    using ev eval_hard_gate_set [of ds c ?h] by simp_all
  note pre = eval_trifecta_iff [of "all_findings rs" c ?h, symmetric]
  have sr: "aggregate ch rs p c n = Inr sr" by (rule assms)
  note sr' = sr [unfolded aggregate_def Let_def cap ds res_bind_Inr prod.case ev pre sum.inject]
  have C: "set ds = set (survivors (take n (all_findings rs)))"
    "C = collided (take n (all_findings rs))" using dedup_Inr [OF ds] by simp_all
  show thesis
    by (rule that [of ds]) (use sr' ds C trif sev hits in \<open>auto simp: comp_def image_image\<close>)
qed

lemma aggregate_Inl: "aggregate ch rs p c n = Inl e \<longleftrightarrow> dedup (take n (all_findings rs)) = Inl e"
proof -
  have cap: "(if n < length (all_findings rs) then take n (all_findings rs) else all_findings rs) =
      take n (all_findings rs)" by simp
  show ?thesis
  proof (cases "dedup (take n (all_findings rs))")
    case (Inl e')
    then show ?thesis by (simp add: aggregate_def Let_def cap)
  next
    case (Inr d)
    obtain ds C where d: "d = (ds, C)" by (cases d)
    obtain sev conf trif hits where
      "evaluate_findings ds c (gp_hard_gate_rules p) = (sev, conf, trif, hits)"
      by (metis prod_cases4)
    then show ?thesis using Inr d by (simp add: aggregate_def Let_def cap)
  qed
qed

lemma aggregate_findings_subset:
  "aggregate ch rs p c n = Inr sr \<Longrightarrow> set (sr_findings sr) \<subseteq> set (usable_findings rs)"
proof (erule aggregate_InrE)
  fix ds assume "sr_findings sr = ds" "set ds = set (survivors (take n (all_findings rs)))"
  then show "set (sr_findings sr) \<subseteq> set (usable_findings rs)"
    using survivors_subset [of "take n (all_findings rs)"] set_take_subset [of n "all_findings rs"]
    by (auto simp: set_all_findings)
qed

lemma aggregate_trifecta:
  assumes "aggregate ch rs p c n = Inr sr"
  shows "sr_trifecta_present sr \<longleftrightarrow> eval_trifecta (usable_findings rs) c h"
proof -
  have "eval_trifecta (sr_findings sr) c (gp_hard_gate_rules p) \<Longrightarrow>
      eval_trifecta (usable_findings rs) c (gp_hard_gate_rules p)"
    by (rule eval_trifecta_mono [OF aggregate_findings_subset [OF assms]])
  moreover have "eval_trifecta (all_findings rs) c h' = eval_trifecta (usable_findings rs) c h''"
    for h' h'' by (simp add: eval_trifecta_iff collect_signals_eq set_all_findings)
  moreover have "sr_trifecta_present sr \<longleftrightarrow>
      eval_trifecta (all_findings rs) c (gp_hard_gate_rules p) \<or>
      eval_trifecta (sr_findings sr) c (gp_hard_gate_rules p)"
    using assms by (elim aggregate_InrE) simp
  ultimately show ?thesis by metis
qed

lemma aggregate_keeps_worst:
  assumes "aggregate ch rs p c n = Inr sr" "n \<noteq> 0" "g \<in> set (usable_findings rs)"
  shows "\<exists>d \<in> set (sr_findings sr). fd_severity g \<le> fd_severity d"
proof -
  obtain f fs where ff: "all_findings rs = f # fs"
    using assms(3) by (cases "all_findings rs") (auto simp flip: set_all_findings)
  have "f \<in> set (take n (all_findings rs))" using ff assms(2) by (cases n) auto
  from survivors_cover [OF this] obtain d where
    d: "d \<in> set (survivors (take n (all_findings rs)))" "finding_rank f \<le> finding_rank d" by auto
  moreover have "d \<in> set (sr_findings sr)" using assms(1) d(1) by (elim aggregate_InrE) simp
  moreover have "fd_severity f \<le> fd_severity d"
    using d(2) by (auto simp: finding_rank_def less_eq_prod_def)
  moreover have "fd_severity g \<le> fd_severity f"
    using all_findings_head_worst [OF ff] assms(3) by (simp add: set_all_findings)
  ultimately show ?thesis by (meson order_trans)
qed

lemma aggregate_severity_split:
  assumes "aggregate ch rs p c n = Inr sr"
  shows "sr_severity sr = (if sr_trifecta_present sr then CRITICAL
    else eval_severity (sr_findings sr) c (gp_hard_gate_rules p))"
  using assms by (elim aggregate_InrE) simp

lemma aggregate_severity:
  assumes agg: "aggregate ch rs p c n = Inr sr"
    and n: "n \<noteq> 0"
    and counted: "\<And>f. f \<in> set (usable_findings rs) \<Longrightarrow> c \<le> fd_confidence f"
  shows "sr_severity sr = eval_severity (usable_findings rs) c (gp_hard_gate_rules p)"
proof (cases "eval_trifecta (usable_findings rs) c (gp_hard_gate_rules p)")
  case True
  then show ?thesis
    using aggregate_severity_split [OF agg] aggregate_trifecta [OF agg] by (simp add: eval_severity_eq)
next
  case False
  let ?h = "gp_hard_gate_rules p" and ?U = "usable_findings rs" and ?ds = "sr_findings sr"
  have "eval_severity ?ds c ?h \<le> eval_severity ?U c ?h"
    by (rule eval_severity_mono [OF aggregate_findings_subset [OF agg]])
  moreover have "eval_severity ?U c ?h \<le> eval_severity ?ds c ?h"
  proof (cases "counted_findings c ?U = []")
    case True
    then show ?thesis using False by (simp add: eval_severity_eq)
  next
    case nonempty: False
    then have "eval_severity ?U c ?h \<in> set (map fd_severity (counted_findings c ?U))"
      using False py_max_in [of "map fd_severity (counted_findings c ?U)" NONE]
      by (simp add: eval_severity_eq)
    then obtain g where g: "g \<in> set ?U" "eval_severity ?U c ?h = fd_severity g" by auto
    obtain d where d: "d \<in> set ?ds" "fd_severity g \<le> fd_severity d"
      using aggregate_keeps_worst [OF agg n g(1)] by blast
    then have "c \<le> fd_confidence d" using counted aggregate_findings_subset [OF agg] by blast
    then show ?thesis using eval_severity_ge [OF d(1)] d(2) g(2) by (metis order_trans)
  qed
  ultimately show ?thesis
    using False aggregate_severity_split [OF agg] aggregate_trifecta [OF agg] by simp
qed

section \<open>Properties: aggregation\<close>

text \<open>Note: Aggregation loses no signal. Whenever \<open>aggregate\<close> returns, its hard-gate hits are
  exactly the hard-gate rules that some usable finding carries, the trifecta flag is exactly
  the evaluation of the whole pre-cap, pre-dedup finding set, and the recorded total is the
  pre-cap count; a flood of findings or a key collision can hide none of them.\<close>

theorem aggregate_signals_exact:
  assumes "aggregate ch rs p c n = Inr sr"
  shows "set (sr_hard_gate_hits sr) = fd_rule_id ` set (usable_findings rs) \<inter> gp_hard_gate_rules p
    \<and> sr_trifecta_present sr = eval_trifecta (usable_findings rs) c (gp_hard_gate_rules p)
    \<and> sr_findings_total sr = length (usable_findings rs)
    \<and> sr_findings_capped sr = (n < length (usable_findings rs))"
proof -
  have "set (sr_findings sr) \<subseteq> set (all_findings rs)"
    using aggregate_findings_subset [OF assms] by (simp add: set_all_findings)
  then show ?thesis
    using assms aggregate_trifecta [OF assms, of "gp_hard_gate_rules p"]
    by (elim aggregate_InrE) (auto simp: length_all_findings set_all_findings)
qed

text \<open>Note: With every usable finding counted (the production default \<open>min_confidence = 0\<close>) and
  a positive cap, the aggregated severity is exactly the severity of the full usable finding
  set: neither the worst-first cap nor deduplication can lower it.\<close>

theorem aggregate_severity_exact:
  assumes "aggregate ch rs p c n = Inr sr"
    and "n \<noteq> 0"
    and "\<And>f. f \<in> set (usable_findings rs) \<Longrightarrow> c \<le> fd_confidence f"
  shows "sr_severity sr = eval_severity (usable_findings rs) c (gp_hard_gate_rules p)"
  using assms by (rule aggregate_severity)

text \<open>Note: Deduplication keeps one finding per (rule, path, line, category, LLM-sourced) key,
  drops no key, and what it keeps has the greatest (severity, confidence) of its key; a
  deterministic finding is therefore never displaced by an LLM-sourced one.\<close>

theorem dedup_keeps_worst:
  assumes "dedup fs = Inr (ds, C)"
  shows "distinct (map best_key ds) \<and> set ds \<subseteq> set fs \<and>
    (\<forall>f \<in> set fs. \<exists>d \<in> set ds. dedup_key d = dedup_key f \<and> is_llm_sourced d = is_llm_sourced f \<and>
       (fd_severity f < fd_severity d \<or>
        fd_severity f = fd_severity d \<and> fd_confidence f \<le> fd_confidence d))"
proof -
  have "\<exists>d \<in> set ds. dedup_key d = dedup_key f \<and> is_llm_sourced d = is_llm_sourced f \<and>
      (fd_severity f < fd_severity d \<or>
       fd_severity f = fd_severity d \<and> fd_confidence f \<le> fd_confidence d)" if f: "f \<in> set fs" for f
  proof -
    obtain d where d: "d \<in> set ds" "best_key d = best_key f" "finding_rank f \<le> finding_rank d"
      using survivors_cover [OF f] dedup_Inr [OF assms] by auto
    then show ?thesis
      by (intro bexI [of _ d]) (auto simp: best_key_def finding_rank_def less_eq_prod_def)
  qed
  then show ?thesis
    using dedup_Inr [OF assms] dedup_Inr_distinct [OF assms] survivors_subset [of fs] by blast
qed

text \<open>Two findings of one rule whose locations first differ where the first has none.\<close>

definition location_clash :: "finding \<Rightarrow> finding \<Rightarrow> bool" where
  "location_clash f g \<longleftrightarrow> fd_rule_id f = fd_rule_id g \<and>
     (fd_file_path f = None \<and> fd_file_path g \<noteq> None \<or>
      fd_file_path f = fd_file_path g \<and> fd_start_line f = None \<and> fd_start_line g \<noteq> None)"

lemma keys_incomparable_iff:
  "keys_incomparable (best_key f) (best_key g) \<longleftrightarrow> location_clash f g \<or> location_clash g f"
  by (cases "fd_file_path f"; cases "fd_file_path g"; cases "fd_start_line f"; cases "fd_start_line g")
    (auto simp: keys_incomparable_def best_key_def dedup_key_def location_clash_def)

text \<open>Note: \<open>aggregate\<close> raises exactly when two of the retained findings share their rule
  and differ first in an optional location component that one of them lacks (path or line
  number): the sort of the survivors then compares \<open>None\<close> with a value and \<open>TypeError\<close>
  escapes; otherwise it returns.\<close>

theorem aggregate_raises_iff:
  "aggregate ch rs p c n = Inl e \<longleftrightarrow> e = TypeError \<and>
     (\<exists>f \<in> set (take n (all_findings rs)). \<exists>g \<in> set (take n (all_findings rs)). location_clash f g)"
  unfolding aggregate_Inl dedup_raises_iff keys_incomparable_iff by blast

section \<open>Witnesses\<close>

lemma sample_usable [simp]: "usable_findings [sample_result fs] = fs"
  by (simp add: usable_findings_def safe_results_def usable_def sample_result_def)

lemma sample_aggregate:
  assumes "n \<noteq> 0"
  obtains sr where "aggregate ''h'' [sample_result [f]] sample_policy 0 n = Inr sr" "sr_required_ok sr"
proof -
  have one: "all_findings [sample_result [f]] = [f]"
    by (simp add: all_findings_def safe_results_def usable_def sample_result_def)
  have "\<not> location_clash f f" by (auto simp: location_clash_def)
  then have "\<nexists>e. aggregate ''h'' [sample_result [f]] sample_policy 0 n = Inl e"
    using assms by (cases n) (simp_all add: aggregate_Inl dedup_raises_iff keys_incomparable_iff one)
  then obtain sr where sr: "aggregate ''h'' [sample_result [f]] sample_policy 0 n = Inr sr"
    by (meson old.sum.exhaust)
  moreover have "sr_required_ok sr"
    using sr by (elim aggregate_InrE) (simp add: sample_defs safe_results_def usable_def)
  ultimately show thesis by (rule that)
qed

theorem aggregate_signals_exact_witness:
  "\<exists>sr. aggregate ''h'' [sample_result [critical_finding]] sample_policy 0 5000 = Inr sr \<and>
     sr_hard_gate_hits sr = [] \<and> sr_findings_total sr = 1 \<and> \<not> sr_findings_capped sr"
proof -
  obtain sr where sr: "aggregate ''h'' [sample_result [critical_finding]] sample_policy 0 5000 = Inr sr"
    by (rule sample_aggregate [of 5000 critical_finding]) simp_all
  have "set (sr_hard_gate_hits sr) = {} \<and> sr_findings_total sr = 1 \<and> \<not> sr_findings_capped sr"
    using aggregate_signals_exact [OF sr] by (simp add: sample_finding_def sample_policy_def)
  then show ?thesis using sr by auto
qed

theorem aggregate_severity_exact_witness:
  "\<exists>sr. aggregate ''h'' [sample_result [critical_finding]] sample_policy 0 5000 = Inr sr \<and>
     sr_severity sr = CRITICAL"
proof -
  obtain sr where sr: "aggregate ''h'' [sample_result [critical_finding]] sample_policy 0 5000 = Inr sr"
    by (rule sample_aggregate [of 5000 critical_finding]) simp_all
  have "sr_severity sr = eval_severity [critical_finding] 0 (gp_hard_gate_rules sample_policy)"
    using aggregate_severity_exact [OF sr] by (simp add: sample_finding_def)
  also have "\<dots> = CRITICAL"
    using eval_severity_ge [of critical_finding "[critical_finding]" 0] by (simp add: sample_finding_def)
  finally show ?thesis using sr by blast
qed

theorem dedup_keeps_worst_witness:
  "\<exists>ds C. dedup [low_finding, medium_finding] = Inr (ds, C) \<and> distinct (map best_key ds) \<and>
     set ds \<subseteq> {low_finding, medium_finding}"
proof -
  have "\<nexists>e. dedup [low_finding, medium_finding] = Inl e"
    by (simp add: dedup_raises_iff keys_incomparable_iff location_clash_def sample_finding_def)
  then obtain ds C where ds: "dedup [low_finding, medium_finding] = Inr (ds, C)"
    by (metis old.sum.exhaust surj_pair)
  then show ?thesis using dedup_keeps_worst [OF ds] by auto
qed

end
