(* ===== verification/Core_Score.thy ===== *)
theory Core_Score
  imports Core_Samples
begin

text \<open>
  The advisory score (\<open>security_score\<close> of \<open>libs/skillscan_core/scoring.py\<close>). Floats are
  reals, so the score is the exact value of the formula that the code approximates in double
  precision; the band facts do not depend on the rounding of the floats.
\<close>

section \<open>The score function\<close>

fun score_band :: "verdict \<Rightarrow> int \<times> int" where
  "score_band BLOCK = (0, 39)"
| "score_band REVIEW = (40, 74)"
| "score_band PASS = (75, 100)"

fun severity_penalty_weight :: "severity \<Rightarrow> real" where
  "severity_penalty_weight NONE = 0"
| "severity_penalty_weight LOW = 3"
| "severity_penalty_weight MEDIUM = 8"
| "severity_penalty_weight HIGH = 18"
| "severity_penalty_weight CRITICAL = 35"

text \<open>\<open>round(x)\<close> of Python: to the nearest integer, ties to the even one.\<close>

definition py_round :: "real \<Rightarrow> int" where
  "py_round x =
     (let n = \<lfloor>x\<rfloor>; d = x - of_int n
      in if d < 1 / 2 then n else if d > 1 / 2 then n + 1 else if even n then n else n + 1)"

definition raw_penalty :: "category_weights \<Rightarrow> finding list \<Rightarrow> real" where
  "raw_penalty w fs =
     sum_list (map (\<lambda>f. severity_penalty_weight (fd_severity f) * fd_confidence f *
                        for_category w (fd_category f)) fs)"

definition security_score :: "verdict \<Rightarrow> finding list \<Rightarrow> bool \<Rightarrow> category_weights \<Rightarrow> int" where
  "security_score verdict findings pin_to_floor weights =
     (let (band_min, band_max) = score_band verdict
      in if pin_to_floor then band_min
         else let raw = raw_penalty weights findings;
                  band_width = band_max - band_min
              in if band_width \<le> 0 then band_min
                 else let penalty =
                            of_int band_width * (1 - exp (- raw / of_int band_width))
                      in max band_min (min band_max (py_round (of_int band_max - penalty))))"

section \<open>Rounding\<close>

lemma py_round_bounds: "\<lfloor>x\<rfloor> \<le> py_round x \<and> py_round x \<le> \<lfloor>x\<rfloor> + 1"
  by (simp add: py_round_def Let_def)

lemma py_round_mono:
  assumes "x \<le> y"
  shows "py_round x \<le> py_round y"
proof (cases "\<lfloor>x\<rfloor> = \<lfloor>y\<rfloor>")
  case True
  then show ?thesis using assms by (auto simp: py_round_def Let_def)
next
  case False
  then have "\<lfloor>x\<rfloor> + 1 \<le> \<lfloor>y\<rfloor>" using floor_mono [OF assms] by simp
  then show ?thesis using py_round_bounds [of x] py_round_bounds [of y] by linarith
qed

lemma py_round_of_int [simp]: "py_round (of_int n) = n"
  by (simp add: py_round_def)

section \<open>The penalty\<close>

lemma severity_penalty_weight_nonneg [simp]: "0 \<le> severity_penalty_weight s"
  by (cases s) simp_all

lemma penalty_term_nonneg:
  "0 \<le> fd_confidence f \<Longrightarrow> valid_weights w \<Longrightarrow>
     0 \<le> severity_penalty_weight (fd_severity f) * fd_confidence f * for_category w (fd_category f)"
  by (simp add: valid_weights_def)

lemma raw_penalty_append: "raw_penalty w (fs @ gs) = raw_penalty w fs + raw_penalty w gs"
  by (simp add: raw_penalty_def)

lemma raw_penalty_nonneg:
  assumes "\<And>f. f \<in> set fs \<Longrightarrow> 0 \<le> fd_confidence f" "valid_weights w"
  shows "0 \<le> raw_penalty w fs"
  unfolding raw_penalty_def using assms penalty_term_nonneg by (intro sum_list_nonneg) auto

lemma raw_penalty_weights_mono:
  assumes "\<And>f. f \<in> set fs \<Longrightarrow> 0 \<le> fd_confidence f"
    and "\<And>c. for_category w c \<le> for_category w' c"
  shows "raw_penalty w fs \<le> raw_penalty w' fs"
  unfolding raw_penalty_def using assms by (intro sum_list_mono mult_left_mono) simp_all

text \<open>The score as a function of the raw penalty, with the degenerate-band branch discharged.\<close>

definition band_position :: "verdict \<Rightarrow> real \<Rightarrow> int" where
  "band_position v raw =
     (let lo = fst (score_band v); hi = snd (score_band v); width = of_int (hi - lo)
      in max lo (min hi (py_round (of_int hi - width * (1 - exp (- raw / width))))))"

lemma band_width_pos: "fst (score_band v) < snd (score_band v)"
  by (cases v) simp_all

lemma security_score_eq:
  "security_score v fs pin w =
     (if pin then fst (score_band v) else band_position v (raw_penalty w fs))"
  using band_width_pos [of v]
  by (cases "score_band v") (simp add: security_score_def band_position_def Let_def)

lemma band_position_antimono:
  assumes "r \<le> r'"
  shows "band_position v r' \<le> band_position v r"
proof -
  define width :: real where "width = of_int (snd (score_band v) - fst (score_band v))"
  have w: "0 < width" using band_width_pos [of v] by (simp add: width_def)
  then have "exp (- r' / width) \<le> exp (- r / width)"
    using assms by (simp add: divide_right_mono)
  then have "of_int (snd (score_band v)) - width * (1 - exp (- r' / width))
      \<le> of_int (snd (score_band v)) - width * (1 - exp (- r / width))"
    using w by (simp add: mult_left_mono)
  then show ?thesis
    using py_round_mono unfolding band_position_def Let_def width_def [symmetric]
    by (intro max.mono min.mono) simp_all
qed

lemma security_score_band:
  "fst (score_band v) \<le> security_score v fs pin w \<and> security_score v fs pin w \<le> snd (score_band v)"
  using band_width_pos [of v] by (simp add: security_score_eq band_position_def Let_def)

section \<open>Properties\<close>

text \<open>Note: A score never contradicts its verdict. For any two scored verdicts, whatever their
  findings, pinning and weights, the stricter verdict has the strictly lower score, and every
  score lies in the band of its verdict, hence in \<open>[0, 100]\<close>.\<close>

theorem security_score_ordered_by_verdict:
  "fst (score_band v) \<le> security_score v fs pin w \<and>
   security_score v fs pin w \<le> snd (score_band v) \<and>
   (v < v' \<longrightarrow> security_score v' fs' pin' w' < security_score v fs pin w)"
proof -
  have band: "fst (score_band u) \<le> security_score u gs q x \<and> security_score u gs q x \<le> snd (score_band u)"
    for u gs q x using band_width_pos [of u] by (simp add: security_score_eq band_position_def Let_def)
  have "snd (score_band v') < fst (score_band v)" if "v < v'"
    using that by (cases v; cases v') (simp_all add: verdict_order)
  then show ?thesis using band [of v fs pin w] band [of v' fs' pin' w'] by fastforce
qed

text \<open>Note: More evidence never raises a score: within one verdict, adding findings (with
  confidences that construction admits) or raising category weights never increases the
  unpinned score, and the pinned score is below every unpinned one.\<close>

theorem security_score_antimono:
  assumes "\<And>f. f \<in> set (fs @ gs) \<Longrightarrow> 0 \<le> fd_confidence f"
    and "valid_weights w" and "\<And>c. for_category w c \<le> for_category w' c"
  shows "security_score v (fs @ gs) False w' \<le> security_score v fs False w \<and>
    security_score v (fs @ gs) True w' \<le> security_score v (fs @ gs) False w'"
proof -
  have "raw_penalty w fs \<le> raw_penalty w (fs @ gs)"
    using assms(1,2) raw_penalty_nonneg [of gs w] by (simp add: raw_penalty_append)
  also have "\<dots> \<le> raw_penalty w' (fs @ gs)"
    using assms(1,3) by (rule raw_penalty_weights_mono)
  finally have "raw_penalty w fs \<le> raw_penalty w' (fs @ gs)" .
  then have "band_position v (raw_penalty w' (fs @ gs)) \<le> band_position v (raw_penalty w fs)"
    by (rule band_position_antimono)
  moreover have "fst (score_band v) \<le> band_position v r" for r
    by (simp add: band_position_def Let_def)
  ultimately show ?thesis by (simp add: security_score_eq)
qed

section \<open>Witnesses\<close>

theorem security_score_ordered_by_verdict_witness:
  "PASS < BLOCK \<and>
   security_score BLOCK [] False default_weights < security_score PASS [critical_finding] False default_weights"
  using security_score_ordered_by_verdict [of PASS "[critical_finding]" False default_weights BLOCK "[]"
      False default_weights]
  by (simp add: verdict_order)

theorem security_score_antimono_witness:
  "security_score REVIEW [low_finding, critical_finding] False default_weights \<le>
     security_score REVIEW [low_finding] False default_weights"
proof -
  have "security_score REVIEW ([low_finding] @ [critical_finding]) False default_weights \<le>
      security_score REVIEW [low_finding] False default_weights \<and>
    security_score REVIEW ([low_finding] @ [critical_finding]) True default_weights \<le>
      security_score REVIEW ([low_finding] @ [critical_finding]) False default_weights"
    by (rule security_score_antimono) (auto simp: sample_finding_def)
  then show ?thesis by simp
qed

end
