(* ===== verification/Core_Gate.thy ===== *)
theory Core_Gate
  imports Core_Scoring Core_Score
begin

text \<open>
  The fail-closed gate decision (\<open>libs/skillscan_core/gate.py\<close>). The closures of
  \<open>decide\<close> are top-level functions that take the variables they capture as arguments; the
  stages of the main branch (effective findings, restoration of signals lost to
  deduplication, classification) are definitions that \<open>decide\<close> composes in the code's order.
\<close>

section \<open>The decision\<close>

definition classify :: "severity \<Rightarrow> real \<Rightarrow> gate_policy \<Rightarrow> trust_tier \<Rightarrow> verdict" where
  "classify severity confidence policy tier =
     (if severity \<ge> block_threshold policy tier then BLOCK
      else if severity \<ge> gp_review_on_severity policy then REVIEW
      else if severity \<ge> LOW \<and> confidence < gp_review_confidence policy then REVIEW
      else PASS)"

definition rule_id_actively_waived ::
  "gate_policy \<Rightarrow> allowlist_entry list \<Rightarrow> real \<Rightarrow> string \<Rightarrow> string option \<Rightarrow> string \<Rightarrow> bool" where
  "rule_id_actively_waived policy allowlist now content_hash skill_id rule_id =
     (if rule_id \<in> gp_hard_gate_rules policy then False
      else list_ex (\<lambda>e. al_rule_id e = rule_id \<and> is_active e now content_hash skill_id) allowlist)"

definition dedup_collisions_fully_waived ::
  "scan_result \<Rightarrow> gate_policy \<Rightarrow> allowlist_entry list \<Rightarrow> real \<Rightarrow> string option \<Rightarrow> bool" where
  "dedup_collisions_fully_waived sr policy allowlist now skill_id =
     (if sr_dedup_collision_rule_ids sr = {} then False
      else (\<forall>r \<in> sr_dedup_collision_rule_ids sr.
              rule_id_actively_waived policy allowlist now (sr_content_hash sr) skill_id r))"

definition is_waived ::
  "gate_policy \<Rightarrow> allowlist_entry list \<Rightarrow> real \<Rightarrow> string \<Rightarrow> string option \<Rightarrow> finding \<Rightarrow> bool" where
  "is_waived policy allowlist now content_hash skill_id f =
     (if fd_rule_id f \<in> gp_hard_gate_rules policy then False
      else if fd_severity f > gp_allowlistable_max_severity policy then False
      else list_ex (\<lambda>e. waives e f \<and> is_active e now content_hash skill_id) allowlist)"

definition combined_hard_gate :: "scan_result \<Rightarrow> gate_policy \<Rightarrow> string set" where
  "combined_hard_gate sr policy =
     set (sr_hard_gate_hits sr) \<union>
     set (filter (\<lambda>r. r \<in> gp_hard_gate_rules policy) (map fd_rule_id (sr_findings sr)))"

definition effective_findings ::
  "scan_result \<Rightarrow> gate_policy \<Rightarrow> allowlist_entry list \<Rightarrow> real \<Rightarrow> string option \<Rightarrow> finding list" where
  "effective_findings sr policy allowlist now skill_id =
     filter (\<lambda>f. \<not> is_waived policy allowlist now (sr_content_hash sr) skill_id f) (sr_findings sr)"

text \<open>The recorded signals disagree with the unwaived recomputation: deduplication lost one.\<close>

definition signal_lost :: "scan_result \<Rightarrow> gate_policy \<Rightarrow> real \<Rightarrow> bool" where
  "signal_lost sr policy min_confidence =
     (let (sev_unwaived, _, trif_unwaived, _) =
            evaluate_findings (sr_findings sr) min_confidence (gp_hard_gate_rules policy)
      in (sr_trifecta_present sr \<and> \<not> trif_unwaived) \<or> sr_severity sr > sev_unwaived)"

text \<open>Severity and trifecta of the effective set, with lost signals restored.\<close>

definition restore_signals ::
  "bool \<Rightarrow> scan_result \<Rightarrow> gate_policy \<Rightarrow> real \<Rightarrow> severity \<Rightarrow> bool \<Rightarrow> severity \<times> bool" where
  "restore_signals restored sr policy min_confidence sev_all trif_all =
     (if restored then
        let (sev_unwaived, _, trif_unwaived, _) =
              evaluate_findings (sr_findings sr) min_confidence (gp_hard_gate_rules policy);
            trif1 = (if sr_trifecta_present sr \<and> \<not> trif_unwaived then True else trif_all);
            sev1 = (if sr_severity sr > sev_unwaived then max sev_all (sr_severity sr) else sev_all);
            sev2 = (if trif1 \<and> sev1 < CRITICAL then CRITICAL else sev1)
        in (sev2, trif1)
      else (sev_all, trif_all))"

definition decide ::
  "scan_result \<Rightarrow> gate_policy \<Rightarrow> trust_tier \<Rightarrow> allowlist_entry list \<Rightarrow> real \<Rightarrow> real \<Rightarrow>
   string option \<Rightarrow> verdict_result" where
  "decide sr policy trust_tier allowlist now min_confidence skill_id =
     (let weights = gp_category_weights policy
      in if \<not> sr_required_ok sr then
           \<lparr>vr_verdict = gp_fail_closed_verdict policy,
            vr_reasons = [''fail_closed:required_engine_missing_or_failed:'' @
                          py_join '','' (sr_missing_or_failed_required sr)],
            vr_policy_version = gp_version policy, vr_effective_severity = sr_severity sr,
            vr_trifecta_present = sr_trifecta_present sr,
            vr_hard_gate_hits = sr_hard_gate_hits sr, vr_fail_closed = True,
            vr_score = security_score (gp_fail_closed_verdict policy) (sr_findings sr) True weights\<rparr>
         else if combined_hard_gate sr policy \<noteq> {} then
           \<lparr>vr_verdict = BLOCK,
            vr_reasons = [''hard_gate_hit:'' @
                          py_join '','' (sorted_list_of_set (combined_hard_gate sr policy))],
            vr_policy_version = gp_version policy, vr_effective_severity = sr_severity sr,
            vr_trifecta_present = sr_trifecta_present sr,
            vr_hard_gate_hits = sorted_list_of_set (combined_hard_gate sr policy),
            vr_fail_closed = False,
            vr_score = security_score BLOCK (sr_findings sr) True weights\<rparr>
         else
           let effective = effective_findings sr policy allowlist now skill_id;
               non_llm_effective = filter (\<lambda>f. \<not> is_llm_sourced f) effective;
               (sev_all, conf_all, trif_all, _) =
                 evaluate_findings effective min_confidence (gp_hard_gate_rules policy);
               (sev_non_llm, conf_non_llm, _, _) =
                 evaluate_findings non_llm_effective min_confidence (gp_hard_gate_rules policy);
               dedup_signal_restored = (signal_lost sr policy min_confidence \<and>
                 \<not> dedup_collisions_fully_waived sr policy allowlist now skill_id);
               (sev_all, trif_all) =
                 restore_signals dedup_signal_restored sr policy min_confidence sev_all trif_all;
               verdict_all = classify sev_all conf_all policy trust_tier;
               verdict_non_llm = classify sev_non_llm conf_non_llm policy trust_tier;
               verdict = max verdict_all verdict_non_llm;
               reasons = [''severity_all='' @ severity_name sev_all,
                          ''severity_non_llm='' @ severity_name sev_non_llm] @
                 (if dedup_signal_restored
                  then [''dedup_collision_signal_restored_from_scan_result''] else []);
               capped_pass = (sr_findings_capped sr \<and> verdict = PASS);
               verdict = (if capped_pass then REVIEW else verdict);
               reasons = reasons @ (if capped_pass then [''findings_capped_forces_review''] else []);
               pin_to_floor = (verdict \<noteq> PASS \<and> effective = [])
           in \<lparr>vr_verdict = verdict, vr_reasons = reasons, vr_policy_version = gp_version policy,
               vr_effective_severity = sev_all, vr_trifecta_present = trif_all,
               vr_hard_gate_hits = [], vr_fail_closed = False,
               vr_score = security_score verdict effective pin_to_floor weights\<rparr>)"

section \<open>Facts\<close>

lemma classify_BLOCK_iff: "classify s c p t = BLOCK \<longleftrightarrow> block_threshold p t \<le> s"
  by (simp add: classify_def)

lemma classify_BLOCK_mono: "s \<le> s' \<Longrightarrow> classify s c p t = BLOCK \<Longrightarrow> classify s' c' p t = BLOCK"
  by (auto simp: classify_BLOCK_iff)

text \<open>The severity the gate classifies in the main branch.\<close>

definition gate_severity ::
  "scan_result \<Rightarrow> gate_policy \<Rightarrow> allowlist_entry list \<Rightarrow> real \<Rightarrow> real \<Rightarrow> string option \<Rightarrow> severity" where
  "gate_severity sr p al now c sid =
     (let eff = effective_findings sr p al now sid; h = gp_hard_gate_rules p
      in fst (restore_signals
           (signal_lost sr p c \<and> \<not> dedup_collisions_fully_waived sr p al now sid) sr p c
           (eval_severity eff c h) (eval_trifecta eff c h)))"

lemma decide_not_required:
  "\<not> sr_required_ok sr \<Longrightarrow>
     vr_verdict (decide sr p t al now c sid) = gp_fail_closed_verdict p \<and>
     vr_fail_closed (decide sr p t al now c sid) \<and>
     vr_score (decide sr p t al now c sid) = fst (score_band (gp_fail_closed_verdict p))"
  by (simp add: decide_def security_score_eq)

lemma decide_hard_gate:
  "sr_required_ok sr \<Longrightarrow> combined_hard_gate sr p \<noteq> {} \<Longrightarrow>
     vr_verdict (decide sr p t al now c sid) = BLOCK \<and>
     \<not> vr_fail_closed (decide sr p t al now c sid) \<and>
     vr_score (decide sr p t al now c sid) = 0 \<and>
     set (vr_hard_gate_hits (decide sr p t al now c sid)) = combined_hard_gate sr p"
  by (simp add: decide_def security_score_eq combined_hard_gate_def)

text \<open>The stricter of the full and the deterministic-only classification.\<close>

definition base_verdict ::
  "scan_result \<Rightarrow> gate_policy \<Rightarrow> trust_tier \<Rightarrow> allowlist_entry list \<Rightarrow> real \<Rightarrow> real \<Rightarrow> string option \<Rightarrow> verdict" where
  "base_verdict sr p t al now c sid =
     (let eff = effective_findings sr p al now sid; h = gp_hard_gate_rules p;
          det = filter (\<lambda>f. \<not> is_llm_sourced f) eff
      in max (classify (gate_severity sr p al now c sid) (eval_confidence eff c h) p t)
             (classify (eval_severity det c h) (eval_confidence det c h) p t))"

lemma decide_main:
  fixes sr p al now c sid t
  defines "eff \<equiv> effective_findings sr p al now sid"
  assumes "sr_required_ok sr" "combined_hard_gate sr p = {}"
  shows "vr_verdict (decide sr p t al now c sid) =
      (if sr_findings_capped sr \<and> base_verdict sr p t al now c sid = PASS then REVIEW
       else base_verdict sr p t al now c sid) \<and>
    \<not> vr_fail_closed (decide sr p t al now c sid) \<and>
    vr_score (decide sr p t al now c sid) =
      security_score (vr_verdict (decide sr p t al now c sid)) eff
        (vr_verdict (decide sr p t al now c sid) \<noteq> PASS \<and> eff = []) (gp_category_weights p) \<and>
    vr_effective_severity (decide sr p t al now c sid) = gate_severity sr p al now c sid"
proof -
  let ?h = "gp_hard_gate_rules p"
  obtain s1 c1 t1 h1 where e1: "evaluate_findings eff c ?h = (s1, c1, t1, h1)" by (metis prod_cases4)
  obtain s2 c2 t2 h2 where
    e2: "evaluate_findings (filter (\<lambda>f. \<not> is_llm_sourced f) eff) c ?h = (s2, c2, t2, h2)"
    by (metis prod_cases4)
  let ?res = "signal_lost sr p c \<and> \<not> dedup_collisions_fully_waived sr p al now sid"
  obtain s3 t3 where r: "restore_signals ?res sr p c s1 t1 = (s3, t3)"
    by (cases "restore_signals ?res sr p c s1 t1")
  have g: "gate_severity sr p al now c sid = s3"
    using r e1 by (simp add: gate_severity_def Let_def flip: eff_def)
  have base: "base_verdict sr p t al now c sid = max (classify s3 c1 p t) (classify s2 c2 p t)"
    by (simp add: base_verdict_def Let_def g e1 e2 flip: eff_def)
  show ?thesis
    unfolding decide_def Let_def
    using assms(2,3) r by (simp add: e1 e2 base g flip: eff_def)
qed

lemma signal_lost_iff:
  "signal_lost sr p c \<longleftrightarrow>
     (sr_trifecta_present sr \<and> \<not> eval_trifecta (sr_findings sr) c (gp_hard_gate_rules p)) \<or>
     eval_severity (sr_findings sr) c (gp_hard_gate_rules p) < sr_severity sr"
  by (cases "evaluate_findings (sr_findings sr) c (gp_hard_gate_rules p)")
    (auto simp: signal_lost_def)

lemma restore_signals_severity:
  "fst (restore_signals restored sr p c s t) =
     (if restored then
        (if t \<or> sr_trifecta_present sr \<and> \<not> eval_trifecta (sr_findings sr) c (gp_hard_gate_rules p)
         then CRITICAL
         else if eval_severity (sr_findings sr) c (gp_hard_gate_rules p) < sr_severity sr
         then max s (sr_severity sr) else s)
      else s)"
  by (cases "evaluate_findings (sr_findings sr) c (gp_hard_gate_rules p)")
    (auto simp: restore_signals_def Let_def)

lemma restore_signals_mono:
  assumes "s \<le> s'" "t \<longrightarrow> t'" "r \<longrightarrow> r'"
  shows "fst (restore_signals r sr p c s t) \<le> fst (restore_signals r' sr p c s' t')"
  using assms by (auto simp: restore_signals_severity le_max_iff_disj)

lemma effective_subset: "set (effective_findings sr p al now sid) \<subseteq> set (sr_findings sr)"
  by (auto simp: effective_findings_def)

lemma effective_no_allowlist [simp]: "effective_findings sr p [] now sid = sr_findings sr"
  by (simp add: effective_findings_def is_waived_def)

lemma fully_waived_no_allowlist [simp]: "\<not> dedup_collisions_fully_waived sr p [] now sid"
  by (auto simp: dedup_collisions_fully_waived_def rule_id_actively_waived_def)

lemma is_waived_mono:
  "set al \<subseteq> set al' \<Longrightarrow> is_waived p al now ch sid f \<Longrightarrow> is_waived p al' now ch sid f"
  by (auto simp: is_waived_def list_ex_iff split: if_splits)

lemma fully_waived_mono:
  "set al \<subseteq> set al' \<Longrightarrow> dedup_collisions_fully_waived sr p al now sid \<Longrightarrow>
     dedup_collisions_fully_waived sr p al' now sid"
  by (fastforce simp: dedup_collisions_fully_waived_def rule_id_actively_waived_def list_ex_iff
        split: if_splits)

lemma effective_antimono:
  "set al \<subseteq> set al' \<Longrightarrow>
     set (effective_findings sr p al' now sid) \<subseteq> set (effective_findings sr p al now sid)"
  by (auto simp: effective_findings_def dest: is_waived_mono)

lemma gate_severity_ge_effective:
  "eval_severity (effective_findings sr p al now sid) c (gp_hard_gate_rules p) \<le>
     gate_severity sr p al now c sid"
  by (simp add: gate_severity_def Let_def restore_signals_severity)

lemma gate_severity_antimono:
  assumes "set al \<subseteq> set al'"
  shows "gate_severity sr p al' now c sid \<le> gate_severity sr p al now c sid"
proof -
  note sub = effective_antimono [OF assms, of sr p now sid]
  show ?thesis unfolding gate_severity_def Let_def
    by (rule restore_signals_mono)
      (use eval_severity_mono [OF sub] eval_trifecta_mono [OF sub] fully_waived_mono [OF assms] in blast)+
qed

lemma gate_severity_no_allowlist: "sr_severity sr \<le> gate_severity sr p [] now c sid"
  by (auto simp: gate_severity_def Let_def restore_signals_severity signal_lost_iff not_less)

lemma decide_BLOCK_if:
  assumes "sr_required_ok sr"
    and "block_threshold p t \<le> gate_severity sr p al now c sid"
  shows "vr_verdict (decide sr p t al now c sid) = BLOCK"
proof (cases "combined_hard_gate sr p = {}")
  case True
  have "classify (gate_severity sr p al now c sid) x p t = BLOCK" for x
    using assms(2) by (simp add: classify_BLOCK_iff)
  then have "base_verdict sr p t al now c sid = BLOCK" by (simp add: base_verdict_def Let_def max_def)
  then show ?thesis using decide_main [OF assms(1) True, of t al now c sid] by simp
next
  case False
  then show ?thesis using decide_hard_gate [OF assms(1)] by blast
qed

lemma decide_BLOCK_iff:
  assumes "sr_required_ok sr" "combined_hard_gate sr p = {}"
  shows "vr_verdict (decide sr p t al now c sid) = BLOCK \<longleftrightarrow>
    block_threshold p t \<le> gate_severity sr p al now c sid"
proof -
  let ?eff = "effective_findings sr p al now sid" and ?h = "gp_hard_gate_rules p"
  have "eval_severity (filter (\<lambda>f. \<not> is_llm_sourced f) ?eff) c ?h \<le> eval_severity ?eff c ?h"
    by (rule eval_severity_mono) auto
  also have "\<dots> \<le> gate_severity sr p al now c sid" by (rule gate_severity_ge_effective)
  finally have le: "eval_severity (filter (\<lambda>f. \<not> is_llm_sourced f) ?eff) c ?h \<le>
      gate_severity sr p al now c sid" .
  have "max a b = BLOCK \<longleftrightarrow> a = BLOCK \<or> b = BLOCK" for a b :: verdict
    by (cases a; cases b) (simp_all add: max_def verdict_order)
  then have "base_verdict sr p t al now c sid = BLOCK \<Longrightarrow>
      block_threshold p t \<le> gate_severity sr p al now c sid"
    using le by (auto simp: base_verdict_def Let_def classify_BLOCK_iff)
  moreover have "vr_verdict (decide sr p t al now c sid) = BLOCK \<Longrightarrow>
      base_verdict sr p t al now c sid = BLOCK"
    using decide_main [OF assms, of t al now c sid] by (simp split: if_splits)
  ultimately show ?thesis using decide_BLOCK_if [OF assms(1)] by blast
qed

text \<open>Only the entries that are active for the scanned content matter.\<close>

lemma decide_active_cong:
  assumes "\<And>e. is_active e now (sr_content_hash sr) sid \<Longrightarrow> e \<in> set al' \<longleftrightarrow> e \<in> set al"
  shows "decide sr p t al' now c sid = decide sr p t al now c sid"
proof -
  have "is_waived p al' now (sr_content_hash sr) sid = is_waived p al now (sr_content_hash sr) sid"
    using assms by (auto simp: is_waived_def list_ex_iff fun_eq_iff)
  then have "effective_findings sr p al' now sid = effective_findings sr p al now sid"
    by (simp add: effective_findings_def)
  moreover have "rule_id_actively_waived p al' now (sr_content_hash sr) sid r =
      rule_id_actively_waived p al now (sr_content_hash sr) sid r" for r
    using assms by (auto simp: rule_id_actively_waived_def list_ex_iff)
  ultimately show ?thesis by (simp only: decide_def dedup_collisions_fully_waived_def)
qed

lemma decide_score_band:
  fixes sr p t al now c sid
  defines "d \<equiv> decide sr p t al now c sid"
  shows "fst (score_band (vr_verdict d)) \<le> vr_score d \<and> vr_score d \<le> snd (score_band (vr_verdict d)) \<and>
    (vr_verdict d \<noteq> PASS \<and> effective_findings sr p al now sid = [] \<longrightarrow>
       vr_score d = fst (score_band (vr_verdict d)))"
proof -
  consider "\<not> sr_required_ok sr" | "sr_required_ok sr" "combined_hard_gate sr p \<noteq> {}"
    | "sr_required_ok sr" "combined_hard_gate sr p = {}" by blast
  then show ?thesis
  proof cases
    case 1
    then show ?thesis
      using decide_not_required [of sr p t al now c sid] band_width_pos [of "gp_fail_closed_verdict p"]
      by (simp add: d_def)
  next
    case 2
    then show ?thesis using decide_hard_gate [of sr p t al now c sid] by (simp add: d_def)
  next
    case 3
    have score: "vr_score d = security_score (vr_verdict d) (effective_findings sr p al now sid)
        (vr_verdict d \<noteq> PASS \<and> effective_findings sr p al now sid = []) (gp_category_weights p)"
      using decide_main [OF 3, of t al now c sid] by (simp add: d_def)
    then show ?thesis
      using security_score_band [of "vr_verdict d"] by (auto simp: security_score_eq)
  qed
qed

section \<open>Properties\<close>

text \<open>C5: Fail-closed (INV-1). The fail-closed flag is set exactly when a required engine is
  missing or failed; then, whatever the findings, the tier and the allowlist, the verdict is
  the policy's fail-closed verdict, which no constructible policy sets to PASS, and the score
  is the floor of that verdict's band.\<close>

theorem decide_fail_closed:
  assumes "valid_policy p"
  shows "vr_fail_closed (decide sr p t al now c sid) = (\<not> sr_required_ok sr) \<and>
    (\<not> sr_required_ok sr \<longrightarrow>
       vr_verdict (decide sr p t al now c sid) = gp_fail_closed_verdict p \<and>
       vr_verdict (decide sr p t al now c sid) \<noteq> PASS \<and>
       vr_score (decide sr p t al now c sid) = fst (score_band (gp_fail_closed_verdict p)))"
proof (cases "sr_required_ok sr")
  case True
  then show ?thesis
    using decide_main [of sr p t al now c sid] decide_hard_gate [of sr p t al now c sid] by blast
next
  case False
  then show ?thesis
    using decide_not_required [of sr p t al now c sid] assms by (simp add: valid_policy_def)
qed

text \<open>Note: Hard gates are unwaivable (INV-3). Once the required engines reported, a hard-gate
  hit that is recorded in the scan result or recomputed from its findings under the current
  policy forces BLOCK with score 0 for every tier, allowlist, clock and confidence threshold,
  and the verdict names every hit.\<close>

theorem decide_hard_gate_unwaivable:
  assumes "sr_required_ok sr"
    and "r \<in> set (sr_hard_gate_hits sr) \<or> (\<exists>f \<in> set (sr_findings sr). fd_rule_id f = r \<and> r \<in> gp_hard_gate_rules p)"
  shows "vr_verdict (decide sr p t al now c sid) = BLOCK \<and> vr_score (decide sr p t al now c sid) = 0 \<and>
    r \<in> set (vr_hard_gate_hits (decide sr p t al now c sid))"
proof -
  have "r \<in> combined_hard_gate sr p" using assms(2) by (auto simp: combined_hard_gate_def)
  then show ?thesis using decide_hard_gate [OF assms(1), of p t al now c sid] by auto
qed

text \<open>Note: A capped scan never passes (INV-5).\<close>

theorem decide_capped_not_pass:
  assumes "valid_policy p" and "sr_findings_capped sr"
  shows "vr_verdict (decide sr p t al now c sid) \<noteq> PASS"
proof -
  consider "\<not> sr_required_ok sr" | "sr_required_ok sr" "combined_hard_gate sr p \<noteq> {}"
    | "sr_required_ok sr" "combined_hard_gate sr p = {}" by blast
  then show ?thesis
  proof cases
    case 1
    then show ?thesis
      using decide_not_required [of sr p t al now c sid] assms(1) by (simp add: valid_policy_def)
  next
    case 2
    then show ?thesis using decide_hard_gate [of sr p t al now c sid] by simp
  next
    case 3
    then show ?thesis using decide_main [of sr p t al now c sid] assms(2) by auto
  qed
qed


text \<open>Note: Revoking waivers never releases a block (INV-8): if a decision is BLOCK under some
  allowlist, it is BLOCK under every smaller one.\<close>

theorem decide_revoking_keeps_block:
  assumes "set al' \<subseteq> set al" and "vr_verdict (decide sr p t al now c sid) = BLOCK"
  shows "vr_verdict (decide sr p t al' now c sid) = BLOCK"
proof -
  consider "\<not> sr_required_ok sr" | "sr_required_ok sr" "combined_hard_gate sr p \<noteq> {}"
    | "sr_required_ok sr" "combined_hard_gate sr p = {}" by blast
  then show ?thesis
  proof cases
    case 1
    then show ?thesis
      using assms(2) decide_not_required [of sr p t al now c sid] decide_not_required [of sr p t al' now c sid]
      by simp
  next
    case 2
    then show ?thesis using decide_hard_gate [of sr p t al' now c sid] by simp
  next
    case 3
    have "gate_severity sr p al now c sid \<le> gate_severity sr p al' now c sid"
      by (rule gate_severity_antimono [OF assms(1)])
    then show ?thesis using 3 assms(2) by (auto simp: decide_BLOCK_iff)
  qed
qed

text \<open>Note: Only active entries count (INV-8): entries that have expired or whose scope does not
  cover the scanned content can be dropped from the allowlist without changing any field of
  the decision.\<close>

theorem decide_inactive_entries_irrelevant:
  "decide sr p t (filter (\<lambda>e. is_active e now (sr_content_hash sr) sid) al) now c sid =
   decide sr p t al now c sid"
  by (rule decide_active_cong) simp

text \<open>Note: Tier overrides only tighten: under a constructible policy the verdict for any tier is
  at least the verdict the same scan would get if the policy had no tier overrides.\<close>

theorem decide_tier_overrides_tighten:
  assumes "valid_policy p"
  shows "vr_verdict (decide sr (p\<lparr>gp_tier_block_overrides := []\<rparr>) t al now c sid) \<le>
    vr_verdict (decide sr p t al now c sid)"
proof -
  let ?q = "p\<lparr>gp_tier_block_overrides := []\<rparr>"
  have thr: "block_threshold p t \<le> block_threshold ?q t"
    using block_threshold_le_base [OF assms, of t] by (simp add: block_threshold_def)
  have cl: "classify s x ?q t \<le> classify s x p t" for s x
    using thr by (auto simp: classify_def)
  have hg: "combined_hard_gate sr ?q = combined_hard_gate sr p"
    by (simp add: combined_hard_gate_def)
  have w: "is_waived ?q = is_waived p" by (simp add: is_waived_def fun_eq_iff)
  have eff: "effective_findings sr ?q al now sid = effective_findings sr p al now sid"
    by (simp add: effective_findings_def w)
  have fw: "dedup_collisions_fully_waived sr ?q al now sid = dedup_collisions_fully_waived sr p al now sid"
    by (simp add: dedup_collisions_fully_waived_def rule_id_actively_waived_def)
  have "signal_lost sr ?q c = signal_lost sr p c" by (simp add: signal_lost_iff)
  then have "gate_severity sr ?q al now c sid = gate_severity sr p al now c sid"
    by (simp add: gate_severity_def Let_def eff fw restore_signals_severity)
  then have base: "base_verdict sr ?q t al now c sid \<le> base_verdict sr p t al now c sid"
    using cl by (simp add: base_verdict_def Let_def eff max.coboundedI1 max.coboundedI2)
  have cap: "(if b \<and> x = PASS then REVIEW else x) \<le> (if b \<and> y = PASS then REVIEW else y)"
    if "x \<le> y" for b and x y :: verdict using that by (cases x; cases y) (auto simp: verdict_order)
  consider "\<not> sr_required_ok sr" | "sr_required_ok sr" "combined_hard_gate sr p \<noteq> {}"
    | "sr_required_ok sr" "combined_hard_gate sr p = {}" by blast
  then show ?thesis
  proof cases
    case 1
    then show ?thesis
      using decide_not_required [of sr p t al now c sid] decide_not_required [of sr ?q t al now c sid] by simp
  next
    case 2
    then show ?thesis using decide_hard_gate [of sr p t al now c sid] by simp
  next
    case 3
    then show ?thesis
      using decide_main [of sr p t al now c sid] decide_main [of sr ?q t al now c sid] cap [OF base]
      by (simp add: hg)
  qed
qed

text \<open>Note: The score of a decision always lies in the band of its verdict, and a non-PASS
  decision with no effective finding left to price sits at the floor of its band.\<close>

theorem decide_score_matches_verdict:
  fixes sr p t al now c sid
  defines "d \<equiv> decide sr p t al now c sid"
  shows "fst (score_band (vr_verdict d)) \<le> vr_score d \<and> vr_score d \<le> snd (score_band (vr_verdict d)) \<and>
    (vr_verdict d \<noteq> PASS \<and> effective_findings sr p al now sid = [] \<longrightarrow>
       vr_score d = fst (score_band (vr_verdict d)))"
  using decide_score_band [of sr p t al now c sid] by (simp add: d_def)

section \<open>Properties of the pipeline: aggregate, then decide\<close>

text \<open>C2: Nothing at the block threshold slips through. When every required engine reported,
  every usable finding is counted and no waiver applies, a package whose usable findings reach
  the tier's block threshold (alone or by completing the trifecta) is blocked, for any positive
  findings cap and whatever deduplication dropped.\<close>

theorem pipeline_blocks_at_threshold:
  assumes agg: "aggregate ch rs p c n = Inr sr" and "n \<noteq> 0" and ok: "sr_required_ok sr"
    and "\<And>f. f \<in> set (usable_findings rs) \<Longrightarrow> c \<le> fd_confidence f"
    and thr: "block_threshold p t \<le> eval_severity (usable_findings rs) c (gp_hard_gate_rules p)"
  shows "vr_verdict (decide sr p t [] now c sid) = BLOCK"
proof (rule decide_BLOCK_if [OF ok])
  have "block_threshold p t \<le> sr_severity sr"
    using thr aggregate_severity [OF agg assms(2,4)] by simp
  also have "\<dots> \<le> gate_severity sr p [] now c sid" by (rule gate_severity_no_allowlist)
  finally show "block_threshold p t \<le> gate_severity sr p [] now c sid" .
qed

text \<open>C3: No allowlist can release an unwaivable finding. If a usable finding has the greatest
  severity of the scan, reaches the tier's block threshold and lies above the policy's
  allowlistable maximum, the package is blocked under every allowlist.\<close>

theorem pipeline_unwaivable_blocks:
  assumes agg: "aggregate ch rs p c n = Inr sr" and n: "n \<noteq> 0" and ok: "sr_required_ok sr"
    and counted: "\<And>f. f \<in> set (usable_findings rs) \<Longrightarrow> c \<le> fd_confidence f"
    and f: "f \<in> set (usable_findings rs)" "gp_allowlistable_max_severity p < fd_severity f"
      "block_threshold p t \<le> fd_severity f"
  shows "vr_verdict (decide sr p t al now c sid) = BLOCK"
proof (rule decide_BLOCK_if [OF ok])
  obtain d where d: "d \<in> set (sr_findings sr)" "fd_severity f \<le> fd_severity d" "c \<le> fd_confidence d"
    using aggregate_keeps_worst [OF agg n f(1)] aggregate_findings_subset [OF agg] counted by blast
  then have "gp_allowlistable_max_severity p < fd_severity d" using f(2) by simp
  then have "\<not> is_waived p al now (sr_content_hash sr) sid d" by (simp add: is_waived_def)
  then have "d \<in> set (effective_findings sr p al now sid)" using d(1) by (simp add: effective_findings_def)
  from eval_severity_ge [OF this d(3)]
  have "fd_severity d \<le> gate_severity sr p al now c sid"
    using gate_severity_ge_effective order_trans by blast
  then show "block_threshold p t \<le> gate_severity sr p al now c sid" using f(3) d(2) by simp
qed

section \<open>Concrete decisions\<close>

lemmas sample_eval = sample_defs decide_def evaluate_findings_def counted_findings_def
  collect_signals_def ALL_TRIFECTA_SIGNALS_def combined_hard_gate_def effective_findings_def
  is_waived_def signal_lost_def restore_signals_def dedup_collisions_fully_waived_def
  classify_def block_threshold_def is_llm_sourced_def py_max_def Let_def severity_order verdict_order
  max_def

text \<open>Note: The gate is not monotone in the findings: a deterministic finding of higher severity
  and full confidence moves the confidence test to itself, so adding it to a package under
  review can release the package.\<close>

theorem decide_extra_finding_can_release:
  "vr_verdict (decide (sample_scan [low_finding]) sample_policy PUBLIC [] 0 0 None) = REVIEW \<and>
   vr_verdict (decide (sample_scan [low_finding, medium_finding]) sample_policy PUBLIC [] 0 0 None) = PASS"
  by (simp add: sample_eval)

text \<open>Note: The deterministic-only recomputation is what INV-2 rests on: with the same extra
  finding sourced from an LLM, the classification of the full set alone would be PASS, and the
  decision stays REVIEW only because the deterministic-only classification is consulted.\<close>

theorem decide_non_llm_recomputation_needed:
  "classify (eval_severity [low_finding, llm_finding] 0 {}) (eval_confidence [low_finding, llm_finding] 0 {})
     sample_policy PUBLIC = PASS \<and>
   vr_verdict (decide (sample_scan [low_finding, llm_finding]) sample_policy PUBLIC [] 0 0 None) = REVIEW"
  by (simp add: sample_eval)

section \<open>Witnesses\<close>

theorem decide_fail_closed_witness:
  "vr_verdict (decide ((sample_scan [])\<lparr>sr_required_ok := False\<rparr>) sample_policy INTERNAL [] 0 0 None) \<noteq> PASS"
  using decide_fail_closed [OF sample_policy_valid, of "(sample_scan [])\<lparr>sr_required_ok := False\<rparr>"
      INTERNAL "[]" 0 0 None] by (simp add: sample_policy_def)

theorem decide_hard_gate_unwaivable_witness:
  "vr_verdict (decide (sample_scan [sample_finding ''hard.rule'' LOW 1 CAP_STATIC]) sample_policy INTERNAL [] 0 0 None)
     = BLOCK"
  using decide_hard_gate_unwaivable [of "sample_scan [sample_finding ''hard.rule'' LOW 1 CAP_STATIC]"
      "''hard.rule''" sample_policy INTERNAL "[]" 0 0 None]
  by (simp add: sample_defs)

theorem decide_capped_not_pass_witness:
  "vr_verdict (decide ((sample_scan [])\<lparr>sr_findings_capped := True\<rparr>) sample_policy INTERNAL [] 0 0 None) \<noteq> PASS"
  using decide_capped_not_pass [OF sample_policy_valid, of "(sample_scan [])\<lparr>sr_findings_capped := True\<rparr>"
      INTERNAL "[]" 0 0 None] by simp


definition sample_waiver :: allowlist_entry where
  "sample_waiver = \<lparr>al_scope_type = ''rule_global'', al_scope_value = [], al_rule_id = ''r3'',
     al_expires_at = 10, al_approved_by = ''bob'', al_requested_by = ''alice'', al_reason = []\<rparr>"

theorem decide_revoking_keeps_block_witness:
  "vr_verdict (decide (sample_scan [critical_finding]) sample_policy INTERNAL [sample_waiver] 0 0 None) = BLOCK \<and>
   vr_verdict (decide (sample_scan [critical_finding]) sample_policy INTERNAL [] 0 0 None) = BLOCK"
proof -
  have "vr_verdict (decide (sample_scan [critical_finding]) sample_policy INTERNAL [sample_waiver] 0 0 None) = BLOCK"
    by (simp add: sample_eval)
  moreover from this
  have "vr_verdict (decide (sample_scan [critical_finding]) sample_policy INTERNAL [] 0 0 None) = BLOCK"
    by (rule decide_revoking_keeps_block [rotated]) simp
  ultimately show ?thesis ..
qed

theorem decide_tier_overrides_tighten_witness:
  "vr_verdict (decide (sample_scan []) (sample_policy\<lparr>gp_tier_block_overrides := []\<rparr>) PUBLIC [] 0 0 None) \<le>
   vr_verdict (decide (sample_scan []) sample_policy PUBLIC [] 0 0 None)"
  by (rule decide_tier_overrides_tighten [OF sample_policy_valid])

theorem decide_score_matches_verdict_witness:
  "vr_score (decide ((sample_scan [])\<lparr>sr_findings_capped := True\<rparr>) sample_policy INTERNAL [] 0 0 None) = 40"
proof -
  let ?sr = "(sample_scan [])\<lparr>sr_findings_capped := True\<rparr>"
  have "vr_verdict (decide ?sr sample_policy INTERNAL [] 0 0 None) = REVIEW" by (simp add: sample_eval)
  moreover have "effective_findings ?sr sample_policy [] 0 None = []" by (simp add: sample_defs)
  ultimately show ?thesis
    using decide_score_matches_verdict [of ?sr sample_policy INTERNAL "[]" 0 0 None] by simp
qed

theorem pipeline_blocks_at_threshold_witness:
  "\<exists>sr. aggregate ''h'' [sample_result [critical_finding]] sample_policy 0 5000 = Inr sr \<and>
     vr_verdict (decide sr sample_policy INTERNAL [] 0 0 None) = BLOCK"
proof -
  obtain sr where sr: "aggregate ''h'' [sample_result [critical_finding]] sample_policy 0 5000 = Inr sr"
      "sr_required_ok sr"
    by (rule sample_aggregate [of 5000 critical_finding]) simp_all
  have "eval_severity [critical_finding] 0 (gp_hard_gate_rules sample_policy) = CRITICAL"
    by (simp add: sample_eval)
  then have "vr_verdict (decide sr sample_policy INTERNAL [] 0 0 None) = BLOCK"
    by (intro pipeline_blocks_at_threshold [OF sr(1) _ sr(2)]) (auto simp: sample_finding_def)
  then show ?thesis using sr by blast
qed

theorem pipeline_unwaivable_blocks_witness:
  "\<exists>sr. aggregate ''h'' [sample_result [critical_finding]] sample_policy 0 5000 = Inr sr \<and>
     vr_verdict (decide sr sample_policy INTERNAL [sample_waiver] 0 0 None) = BLOCK"
proof -
  obtain sr where sr: "aggregate ''h'' [sample_result [critical_finding]] sample_policy 0 5000 = Inr sr"
      "sr_required_ok sr"
    by (rule sample_aggregate [of 5000 critical_finding]) simp_all
  have "vr_verdict (decide sr sample_policy INTERNAL [sample_waiver] 0 0 None) = BLOCK"
    by (rule pipeline_unwaivable_blocks [OF sr(1) _ sr(2), where f = critical_finding])
      (auto simp: sample_finding_def sample_policy_def block_threshold_def severity_order)
  then show ?thesis using sr by blast
qed

end
