(* ===== verification/Core_Engines.thy ===== *)
theory Core_Engines
  imports Core_Canonical Core_Gate
begin

text \<open>
  The reference engines of the kernel (\<open>libs/skillscan_core/engines.py\<close>): the deterministic
  substring engine, which is required in every scan, and the two doubles. Text is a list of code
  points. Parameters: \<open>decode\<close> is \<open>bytes.decode("utf-8", errors="replace")\<close>, \<open>clock i\<close> the value of
  \<open>time.time()\<close> at the i-th file, \<open>sha256\<close> the hexadecimal digest, and \<open>title_of\<close>, \<open>risk_of\<close> the
  display texts attached to a rule (constant Chinese prose in the source).
\<close>

section \<open>Rules\<close>

record keyword_rule =
  kr_pattern :: string
  kr_rule_id :: string
  kr_category :: detection_category
  kr_severity :: severity
  kr_trifecta :: "trifecta_signal option"
  kr_confidence :: real

definition STATIC_KEYWORD_PATTERNS :: "keyword_rule list" where
  "STATIC_KEYWORD_PATTERNS = [
     \<lparr>kr_pattern = ''eval('', kr_rule_id = ''static.eval_call'', kr_category = CODE,
      kr_severity = HIGH, kr_trifecta = None, kr_confidence = 5 / 10\<rparr>,
     \<lparr>kr_pattern = ''curl http'', kr_rule_id = ''static.curl_http'', kr_category = NETWORK_INTEL,
      kr_severity = MEDIUM, kr_trifecta = Some EXTERNAL_EGRESS, kr_confidence = 5 / 10\<rparr>,
     \<lparr>kr_pattern = ''os.environ'', kr_rule_id = ''static.os_environ'', kr_category = DATA_CREDENTIAL,
      kr_severity = MEDIUM, kr_trifecta = Some PRIVATE_DATA_ACCESS, kr_confidence = 7 / 10\<rparr>,
     \<lparr>kr_pattern = ''input('', kr_rule_id = ''static.input_call'', kr_category = INSTRUCTION,
      kr_severity = LOW, kr_trifecta = Some UNTRUSTED_INPUT, kr_confidence = 5 / 10\<rparr>]"

definition TEST_ITEM_IDS :: "(string \<times> string) list" where
  "TEST_ITEM_IDS = [(''static.eval_call'', ''CODE-02''), (''static.curl_http'', ''NET-05''),
     (''static.os_environ'', ''CRED-03''), (''static.input_call'', ''GEN-01'')]"

definition test_item_id :: "string \<Rightarrow> string res" where
  "test_item_id rule = (case map_of TEST_ITEM_IDS rule of None \<Rightarrow> Inl KeyError | Some i \<Rightarrow> Inr i)"

section \<open>Text\<close>

text \<open>\<open>str.splitlines()\<close>: every Unicode line boundary ends a line, a carriage return followed by
  a line feed counts once, and no empty line follows the last boundary.\<close>

definition is_line_break :: "nat \<Rightarrow> bool" where
  "is_line_break c \<longleftrightarrow> c \<in> {0x0A, 0x0B, 0x0C, 0x0D, 0x1C, 0x1D, 0x1E, 0x85, 0x2028, 0x2029}"

fun splitlines_from :: "ustr \<Rightarrow> ustr \<Rightarrow> ustr list" where
  "splitlines_from cur [] = (if cur = [] then [] else [cur])"
| "splitlines_from cur (c # cs) =
     (if is_line_break c
      then cur # splitlines_from [] (if c = 0x0D \<and> take 1 cs = [0x0A] then drop 1 cs else cs)
      else splitlines_from (cur @ [c]) cs)"

definition splitlines :: "ustr \<Rightarrow> ustr list" where
  "splitlines text = splitlines_from [] text"

section \<open>The engine\<close>

definition static_keyword_metadata :: "string \<Rightarrow> engine_metadata" where
  "static_keyword_metadata digest = \<lparr>em_name = ''static-keyword'', em_version = ''1.0.0'',
     em_ruleset_digest = digest, em_capabilities = {CAP_STATIC}, em_requires_network = False,
     em_requires_llm = False, em_deterministic = True\<rparr>"

record display_texts =
  title_of :: "string \<Rightarrow> string"
  risk_of :: "string \<Rightarrow> string"

text \<open>The finding of one rule on one line; a rule without a catalog id raises \<open>KeyError\<close>, and the
  constructor validates.\<close>

definition keyword_finding ::
  "display_texts \<Rightarrow> (bytes \<Rightarrow> string) \<Rightarrow> engine_metadata \<Rightarrow> string \<Rightarrow> nat \<Rightarrow> ustr \<Rightarrow> keyword_rule \<Rightarrow>
   finding res" where
  "keyword_finding d sha256 meta path line_no line r =
     res_bind (test_item_id (kr_rule_id r)) (\<lambda>item.
     finding_post_init \<lparr>fd_rule_id = kr_rule_id r, fd_test_item_id = item,
       fd_category = kr_category r, fd_title = title_of d (kr_rule_id r),
       fd_severity = kr_severity r, fd_confidence = kr_confidence r,
       fd_source_engine = em_name meta, fd_source_capability = CAP_STATIC,
       fd_trifecta_signals = (case kr_trifecta r of None \<Rightarrow> {} | Some s \<Rightarrow> {s}),
       fd_file_path = Some path, fd_start_line = Some (int line_no),
       fd_snippet_hash = Some (sha256 (concat (map utf8_char line))),
       fd_evidence_redacted = risk_of d (kr_rule_id r)\<rparr>)"

definition line_findings ::
  "display_texts \<Rightarrow> (bytes \<Rightarrow> string) \<Rightarrow> engine_metadata \<Rightarrow> string \<Rightarrow> nat \<times> ustr \<Rightarrow> finding list res" where
  "line_findings d sha256 meta path = (\<lambda>(line_no, line).
     res_map (keyword_finding d sha256 meta path line_no line)
       (filter (\<lambda>r. py_contains (ustr_of (kr_pattern r)) line) STATIC_KEYWORD_PATTERNS))"

definition file_findings ::
  "display_texts \<Rightarrow> (bytes \<Rightarrow> string) \<Rightarrow> (bytes \<Rightarrow> ustr) \<Rightarrow> engine_metadata \<Rightarrow> string \<Rightarrow> bytes \<Rightarrow>
   finding list res" where
  "file_findings d sha256 decode meta path data =
     (let lines = splitlines (decode data)
      in res_bind (res_map (line_findings d sha256 meta path) (zip [1..<Suc (length lines)] lines))
           (\<lambda>fss. Inr (concat fss)))"

text \<open>The loop over the files, with the deadline tested before each.\<close>

fun scan_files ::
  "display_texts \<Rightarrow> (bytes \<Rightarrow> string) \<Rightarrow> (bytes \<Rightarrow> ustr) \<Rightarrow> engine_metadata \<Rightarrow> (nat \<Rightarrow> real) \<Rightarrow>
   real option \<Rightarrow> nat \<Rightarrow> (string \<times> bytes) list \<Rightarrow> (finding list \<times> bool) res" where
  "scan_files d sha256 decode meta clock deadline i [] = Inr ([], False)"
| "scan_files d sha256 decode meta clock deadline i ((path, data) # files) =
     (if (case deadline of None \<Rightarrow> False | Some dl \<Rightarrow> clock i > dl) then Inr ([], True)
      else res_bind (file_findings d sha256 decode meta path data) (\<lambda>fs.
           res_bind (scan_files d sha256 decode meta clock deadline (Suc i) files) (\<lambda>(rest, timed_out).
           Inr (fs @ rest, timed_out))))"

definition static_keyword_analyze ::
  "display_texts \<Rightarrow> (bytes \<Rightarrow> string) \<Rightarrow> (bytes \<Rightarrow> ustr) \<Rightarrow> engine_metadata \<Rightarrow> (nat \<Rightarrow> real) \<Rightarrow>
   real option \<Rightarrow> (string \<times> bytes) list \<Rightarrow> engine_result res" where
  "static_keyword_analyze d sha256 decode meta clock deadline files =
     res_bind (scan_files d sha256 decode meta clock deadline 0 files) (\<lambda>(findings, timed_out).
     Inr \<lparr>er_engine = meta, er_findings = findings,
          er_status = (if timed_out then TIMEOUT else OK), er_scan_mode = MODE_STATIC,
          er_llm_used = False, er_error = (if timed_out then Some ''deadline exceeded'' else None)\<rparr>)"

section \<open>The doubles\<close>

definition mock_llm_metadata :: engine_metadata where
  "mock_llm_metadata = \<lparr>em_name = ''mock-llm'', em_version = ''0.0.0'', em_ruleset_digest = ''n/a'',
     em_capabilities = {SEMANTIC_LLM}, em_requires_network = False, em_requires_llm = True,
     em_deterministic = False\<rparr>"

definition mock_llm_analyze :: "finding list \<Rightarrow> engine_metadata \<Rightarrow> engine_result" where
  "mock_llm_analyze canned meta = \<lparr>er_engine = meta, er_findings = canned, er_status = OK,
     er_scan_mode = MODE_STATIC, er_llm_used = True, er_error = None\<rparr>"

definition failing_analyze :: "engine_metadata \<Rightarrow> engine_status \<Rightarrow> string \<Rightarrow> engine_result" where
  "failing_analyze meta failure_status error_message = \<lparr>er_engine = meta, er_findings = [],
     er_status = failure_status, er_scan_mode = MODE_STATIC, er_llm_used = False,
     er_error = Some error_message\<rparr>"

section \<open>Facts\<close>

lemma rule_cases:
  "r \<in> set STATIC_KEYWORD_PATTERNS \<Longrightarrow>
     (\<exists>item. test_item_id (kr_rule_id r) = Inr item) \<and> kr_rule_id r \<noteq> [] \<and> 5 / 10 \<le> kr_confidence r \<and>
     kr_confidence r \<le> 1 \<and> kr_severity r \<noteq> NONE"
  by (auto simp: STATIC_KEYWORD_PATTERNS_def test_item_id_def TEST_ITEM_IDS_def)

definition hex_digest :: "(bytes \<Rightarrow> string) \<Rightarrow> bool" where
  "hex_digest sha256 \<longleftrightarrow> (\<forall>b. is_lower_hex (sha256 b))"

text \<open>The finding that a rule of the table contributes.\<close>

definition rule_finding ::
  "display_texts \<Rightarrow> (bytes \<Rightarrow> string) \<Rightarrow> engine_metadata \<Rightarrow> string \<Rightarrow> nat \<Rightarrow> ustr \<Rightarrow> keyword_rule \<Rightarrow> finding" where
  "rule_finding d sha256 meta path line_no line r =
     \<lparr>fd_rule_id = kr_rule_id r, fd_test_item_id = the (map_of TEST_ITEM_IDS (kr_rule_id r)),
      fd_category = kr_category r, fd_title = title_of d (kr_rule_id r),
      fd_severity = kr_severity r, fd_confidence = kr_confidence r,
      fd_source_engine = em_name meta, fd_source_capability = CAP_STATIC,
      fd_trifecta_signals = (case kr_trifecta r of None \<Rightarrow> {} | Some s \<Rightarrow> {s}),
      fd_file_path = Some path, fd_start_line = Some (int line_no),
      fd_snippet_hash = Some (sha256 (concat (map utf8_char line))),
      fd_evidence_redacted = risk_of d (kr_rule_id r)\<rparr>"

lemma keyword_finding_eq:
  assumes "hex_digest sha256" "r \<in> set STATIC_KEYWORD_PATTERNS"
  shows "keyword_finding d sha256 meta path n line r = Inr (rule_finding d sha256 meta path n line r)"
    and "valid_finding (rule_finding d sha256 meta path n line r)"
proof -
  show v: "valid_finding (rule_finding d sha256 meta path n line r)"
    using rule_cases [OF assms(2)] assms(1) by (simp add: valid_finding_def rule_finding_def hex_digest_def)
  obtain item where "test_item_id (kr_rule_id r) = Inr item" using rule_cases [OF assms(2)] by blast
  then show "keyword_finding d sha256 meta path n line r = Inr (rule_finding d sha256 meta path n line r)"
    using v by (simp add: keyword_finding_def finding_post_init_iff rule_finding_def test_item_id_def
        split: option.splits)
qed

definition file_list ::
  "display_texts \<Rightarrow> (bytes \<Rightarrow> string) \<Rightarrow> (bytes \<Rightarrow> ustr) \<Rightarrow> engine_metadata \<Rightarrow> string \<times> bytes \<Rightarrow> finding list" where
  "file_list d sha256 decode meta = (\<lambda>(path, data).
     concat (map (\<lambda>(n, line). map (rule_finding d sha256 meta path n line)
         (filter (\<lambda>r. py_contains (ustr_of (kr_pattern r)) line) STATIC_KEYWORD_PATTERNS))
       (zip [1..<Suc (length (splitlines (decode data)))] (splitlines (decode data)))))"

lemma file_findings_eq:
  assumes "hex_digest sha256"
  shows "file_findings d sha256 decode meta path data = Inr (file_list d sha256 decode meta (path, data))"
proof -
  let ?g = "\<lambda>(n, line). map (rule_finding d sha256 meta path n line)
    (filter (\<lambda>r. py_contains (ustr_of (kr_pattern r)) line) STATIC_KEYWORD_PATTERNS)"
  have "line_findings d sha256 meta path x = Inr (?g x)" for x
    by (cases x) (auto simp: line_findings_def intro!: res_map_Inr_all keyword_finding_eq(1) [OF assms])
  then have "res_map (line_findings d sha256 meta path) xs = Inr (map ?g xs)" for xs
    by (simp add: res_map_Inr_all)
  then show ?thesis by (simp add: file_findings_def file_list_def Let_def del: upt_Suc)
qed

lemma scan_files_eq:
  assumes "hex_digest sha256"
  shows "\<exists>k \<le> length files. scan_files d sha256 decode meta clock deadline i files =
    Inr (concat (map (file_list d sha256 decode meta) (take k files)), k < length files)"
proof (induction files arbitrary: i)
  case Nil
  then show ?case by simp
next
  case (Cons x files)
  obtain path data where x: "x = (path, data)" by (cases x)
  obtain k where k: "k \<le> length files" "scan_files d sha256 decode meta clock deadline (Suc i) files =
      Inr (concat (map (file_list d sha256 decode meta) (take k files)), k < length files)"
    using Cons.IH by blast
  show ?case
  proof (cases "case deadline of None \<Rightarrow> False | Some dl \<Rightarrow> clock i > dl")
    case True
    then show ?thesis by (intro exI [of _ 0]) (simp add: x)
  next
    case False
    then show ?thesis
      using k by (intro exI [of _ "Suc k"]) (simp add: x file_findings_eq [OF assms] split: option.splits)
  qed
qed

lemma zip_upt: "zip [1..<Suc (length xs)] xs = map (\<lambda>i. (Suc i, xs ! i)) [0..<length xs]"
  by (rule nth_equalityI) (simp_all del: upt_Suc)

lemma file_list_member:
  "f \<in> set (file_list d sha256 decode meta (path, data)) \<longleftrightarrow>
     (\<exists>r \<in> set STATIC_KEYWORD_PATTERNS. \<exists>i < length (splitlines (decode data)).
        py_contains (ustr_of (kr_pattern r)) (splitlines (decode data) ! i) \<and>
        f = rule_finding d sha256 meta path (Suc i) (splitlines (decode data) ! i) r)"
  unfolding file_list_def prod.case zip_upt by (simp add: image_iff Bex_def) blast

lemma scan_files_no_deadline:
  assumes "hex_digest sha256"
  shows "scan_files d sha256 decode meta clock None i files =
    Inr (concat (map (file_list d sha256 decode meta) files), False)"
proof (induction files arbitrary: i)
  case Nil
  then show ?case by simp
next
  case (Cons x files)
  then show ?case by (cases x) (simp add: file_findings_eq [OF assms])
qed

text \<open>What the engine returns when it stopped after \<open>n\<close> files.\<close>

definition keyword_result ::
  "display_texts \<Rightarrow> (bytes \<Rightarrow> string) \<Rightarrow> (bytes \<Rightarrow> ustr) \<Rightarrow> engine_metadata \<Rightarrow> (string \<times> bytes) list \<Rightarrow> nat \<Rightarrow>
   engine_result" where
  "keyword_result d sha256 decode meta files n =
     \<lparr>er_engine = meta, er_findings = concat (map (file_list d sha256 decode meta) (take n files)),
      er_status = (if n < length files then TIMEOUT else OK), er_scan_mode = MODE_STATIC,
      er_llm_used = False,
      er_error = (if n < length files then Some ''deadline exceeded'' else None)\<rparr>"

lemma static_keyword_eq:
  assumes "hex_digest sha256"
  shows "\<exists>n \<le> length files. (deadline = None \<longrightarrow> n = length files) \<and>
    static_keyword_analyze d sha256 decode meta clock deadline files =
      Inr (keyword_result d sha256 decode meta files n)"
proof (cases deadline)
  case None
  then show ?thesis
    by (intro exI [of _ "length files"])
       (simp add: static_keyword_analyze_def keyword_result_def scan_files_no_deadline [OF assms])
next
  case (Some dl)
  obtain n where "n \<le> length files" "scan_files d sha256 decode meta clock deadline 0 files =
      Inr (concat (map (file_list d sha256 decode meta) (take n files)), n < length files)"
    using scan_files_eq [OF assms] by blast
  then show ?thesis
    using Some by (intro exI [of _ n]) (simp add: static_keyword_analyze_def keyword_result_def)
qed

lemma file_list_valid:
  "hex_digest sha256 \<Longrightarrow> f \<in> set (file_list d sha256 decode meta x) \<Longrightarrow> valid_finding f"
  using keyword_finding_eq(2) by (cases x) (auto simp: file_list_member)

section \<open>Properties\<close>

text \<open>Note: The substring engine is total and exact. It returns for every package, clock and
  deadline; it reports \<open>OK\<close> or \<open>TIMEOUT\<close>, the latter only under a deadline; every finding it
  constructs passes validation; and when it reports \<open>OK\<close> its findings are exactly the
  (rule, file, line) triples where the rule's pattern occurs in the line.\<close>

theorem static_keyword_exact:
  assumes "hex_digest sha256"
  shows "\<exists>r. static_keyword_analyze d sha256 decode meta clock deadline files = Inr r \<and>
    er_engine r = meta \<and> er_status r \<in> {OK, TIMEOUT} \<and> (deadline = None \<longrightarrow> er_status r = OK) \<and>
    (\<forall>f \<in> set (er_findings r). valid_finding f) \<and>
    (er_status r = OK \<longrightarrow> set (er_findings r) =
       {rule_finding d sha256 meta path (Suc i) (splitlines (decode data) ! i) k | path data i k.
          (path, data) \<in> set files \<and> k \<in> set STATIC_KEYWORD_PATTERNS \<and>
          i < length (splitlines (decode data)) \<and>
          py_contains (ustr_of (kr_pattern k)) (splitlines (decode data) ! i)})"
proof -
  obtain n where n: "n \<le> length files" "deadline = None \<longrightarrow> n = length files"
    and r: "static_keyword_analyze d sha256 decode meta clock deadline files =
      Inr (keyword_result d sha256 decode meta files n)"
    using static_keyword_eq [OF assms, of files deadline d decode meta clock] by auto
  have "set (concat (map (file_list d sha256 decode meta) files)) =
      {rule_finding d sha256 meta path (Suc i) (splitlines (decode data) ! i) k | path data i k.
          (path, data) \<in> set files \<and> k \<in> set STATIC_KEYWORD_PATTERNS \<and>
          i < length (splitlines (decode data)) \<and>
          py_contains (ustr_of (kr_pattern k)) (splitlines (decode data) ! i)}"
    (is "?L = ?R")
  proof
    show "?L \<subseteq> ?R"
    proof
      fix f assume "f \<in> ?L"
      then obtain path data where "(path, data) \<in> set files" "f \<in> set (file_list d sha256 decode meta (path, data))"
        by auto
      then show "f \<in> ?R" unfolding file_list_member by blast
    qed
    show "?R \<subseteq> ?L"
    proof
      fix f assume "f \<in> ?R"
      then obtain path data where "(path, data) \<in> set files" "f \<in> set (file_list d sha256 decode meta (path, data))"
        by (auto simp: file_list_member)
      then show "f \<in> ?L" by force
    qed
  qed
  moreover have "\<forall>f \<in> set (concat (map (file_list d sha256 decode meta) (take n files))). valid_finding f"
    using file_list_valid [OF assms] by auto
  ultimately show ?thesis
    using n by (intro exI [of _ "keyword_result d sha256 decode meta files n"])
      (simp add: r keyword_result_def)
qed

text \<open>Some line of the package contains the pattern of the rule.\<close>

definition package_contains :: "(bytes \<Rightarrow> ustr) \<Rightarrow> (string \<times> bytes) list \<Rightarrow> string \<Rightarrow> bool" where
  "package_contains decode files pattern \<longleftrightarrow>
     (\<exists>(path, data) \<in> set files. \<exists>line \<in> set (splitlines (decode data)). py_contains (ustr_of pattern) line)"

lemma package_contains_signal:
  assumes "package_contains decode files (kr_pattern k)" "k \<in> set STATIC_KEYWORD_PATTERNS"
    and "kr_trifecta k = Some s"
  shows "\<exists>f \<in> set (concat (map (file_list d sha256 decode meta) files)).
    s \<in> fd_trifecta_signals f \<and> 5 / 10 \<le> fd_confidence f"
proof -
  obtain path data i where m: "(path, data) \<in> set files" "i < length (splitlines (decode data))"
      "py_contains (ustr_of (kr_pattern k)) (splitlines (decode data) ! i)"
  proof -
    obtain path data line where "(path, data) \<in> set files" "line \<in> set (splitlines (decode data))"
        "py_contains (ustr_of (kr_pattern k)) line"
      using assms(1) by (auto simp: package_contains_def)
    then show thesis using that by (auto simp: in_set_conv_nth [of line])
  qed
  let ?f = "rule_finding d sha256 meta path (Suc i) (splitlines (decode data) ! i) k"
  have "?f \<in> set (file_list d sha256 decode meta (path, data))" using m assms(2) by (auto simp: file_list_member)
  then have "?f \<in> set (concat (map (file_list d sha256 decode meta) files))" using m(1) by force
  moreover have "s \<in> fd_trifecta_signals ?f \<and> 5 / 10 \<le> fd_confidence ?f"
    using rule_cases [OF assms(2)] assms(3) by (simp add: rule_finding_def)
  ultimately show ?thesis by blast
qed

lemma trifecta_patterns:
  assumes "package_contains decode files ''curl http''" "package_contains decode files ''os.environ''"
    "package_contains decode files ''input(''"
  shows "\<exists>f \<in> set (concat (map (file_list d sha256 decode meta) files)).
    s \<in> fd_trifecta_signals f \<and> 5 / 10 \<le> fd_confidence f"
proof -
  have "\<exists>k \<in> set STATIC_KEYWORD_PATTERNS. kr_trifecta k = Some s \<and> package_contains decode files (kr_pattern k)"
    using assms by (cases s) (simp_all add: STATIC_KEYWORD_PATTERNS_def)
  then show ?thesis using package_contains_signal by blast
qed

text \<open>Note: The floor holds end to end: a package in which the egress, the environment and the
  interactive-input patterns all occur never passes the gate when the substring engine is
  required. Whatever the other engines report and whether or not this engine times out, the
  decision is \<open>BLOCK\<close>, or the policy's fail-closed verdict (never \<open>PASS\<close>) when a required engine
  did not deliver.\<close>

theorem static_floor_never_passes:
  assumes p: "valid_policy p" "finite (gp_required_engines p)" "''static-keyword'' \<in> gp_required_engines p"
    and r: "hex_digest sha256" "static_keyword_analyze d sha256 decode (static_keyword_metadata dig)
      clock deadline files = Inr r" "r \<in> set rs"
    and only: "\<And>q. q \<in> set rs \<Longrightarrow> em_name (er_engine q) = ''static-keyword'' \<Longrightarrow> q = r"
    and hits: "package_contains decode files ''curl http''" "package_contains decode files ''os.environ''"
      "package_contains decode files ''input(''"
    and agg: "aggregate ch rs p c n = Inr sr" "c \<le> 5 / 10"
  shows "vr_verdict (decide sr p t [] now c sid) =
      (if sr_required_ok sr then BLOCK else gp_fail_closed_verdict p) \<and>
    vr_verdict (decide sr p t [] now c sid) \<noteq> PASS"
proof (cases "sr_required_ok sr")
  case False
  then show ?thesis using decide_not_required p(1) by (simp add: valid_policy_def)
next
  case True
  let ?m = "static_keyword_metadata dig"
  have "sorted_list_of_set (gp_required_engines p -
      em_name ` er_engine ` set (filter usable (safe_results rs))) = []"
    using agg(1) True by (elim aggregate_InrE) simp
  then have "gp_required_engines p \<subseteq> em_name ` er_engine ` set (filter usable (safe_results rs))"
    using p(2) by (simp add: sorted_list_of_set_eq_Nil_iff)
  from subsetD [OF this p(3)]
  obtain q where q: "q \<in> set (filter usable (safe_results rs))" "em_name (er_engine q) = ''static-keyword''"
    by (elim imageE) simp
  then have "q = r" using only by (auto simp: safe_results_def)
  then have use: "r \<in> set (filter usable (safe_results rs))" using q(1) by simp
  obtain k where k: "k \<le> length files" "r = keyword_result d sha256 decode ?m files k"
    using static_keyword_eq [OF r(1), of files deadline d decode ?m clock] r(2) by auto
  then have "er_findings r = concat (map (file_list d sha256 decode ?m) files)"
    using use by (auto simp: usable_def keyword_result_def split: if_splits)
  then have sig: "\<exists>f \<in> set (usable_findings rs). s \<in> fd_trifecta_signals f \<and> c \<le> fd_confidence f" for s
    using trifecta_patterns [OF hits] use agg(2) by (fastforce simp: usable_findings_def)
  then have "eval_trifecta (usable_findings rs) c (gp_hard_gate_rules p)"
    by (fastforce simp: eval_trifecta_iff collect_signals_eq)
  then have "sr_severity sr = CRITICAL"
    using aggregate_trifecta [OF agg(1)] aggregate_severity_split [OF agg(1)] by simp
  then have "block_threshold p t \<le> gate_severity sr p [] now c sid"
    using gate_severity_no_allowlist [of sr p now c sid] by simp
  then show ?thesis using decide_BLOCK_if [OF True] True by simp
qed

section \<open>Witnesses\<close>

definition sample_texts :: display_texts where
  "sample_texts = \<lparr>title_of = id, risk_of = id\<rparr>"

definition sample_digest :: "bytes \<Rightarrow> string" where
  "sample_digest b = ''0''"

definition ascii_bytes :: "string \<Rightarrow> bytes" where
  "ascii_bytes s = map of_char s"

definition sample_decode :: "bytes \<Rightarrow> ustr" where
  "sample_decode b = map unat b"

definition sample_package :: "(string \<times> bytes) list" where
  "sample_package = [(''run.sh'', ascii_bytes (''curl http'' @ [CHR 0x0A] @ ''input('')),
     (''x.py'', ascii_bytes ''os.environ'')]"

lemma sample_hex_digest: "hex_digest sample_digest"
  by (simp add: hex_digest_def is_lower_hex_def sample_digest_def)

lemma sample_lines:
  "splitlines (sample_decode (ascii_bytes (''curl http'' @ [CHR 0x0A] @ ''input(''))) =
     [ustr_of ''curl http'', ustr_of ''input('']"
  "splitlines (sample_decode (ascii_bytes ''os.environ'')) = [ustr_of ''os.environ'']"
  by (simp_all add: splitlines_def sample_decode_def ascii_bytes_def ustr_of_def is_line_break_def)

theorem static_keyword_exact_witness:
  "\<exists>r. static_keyword_analyze sample_texts sample_digest sample_decode (static_keyword_metadata ''d'')
     (\<lambda>_. 0) (Some 1) sample_package = Inr r \<and> er_engine r = static_keyword_metadata ''d'' \<and>
     er_status r \<in> {OK, TIMEOUT}"
  using static_keyword_exact [OF sample_hex_digest, of sample_texts sample_decode
      "static_keyword_metadata ''d''" "\<lambda>_. 0" "Some 1" sample_package] by blast

lemma sample_contains:
  "package_contains sample_decode sample_package ''curl http''"
  "package_contains sample_decode sample_package ''os.environ''"
  "package_contains sample_decode sample_package ''input(''"
  unfolding package_contains_def sample_package_def
  by (simp_all add: sample_lines py_startswith_def del: append.simps) (simp_all add: ustr_of_def py_startswith_def)

lemma keyword_result_aggregates:
  "\<exists>sr. aggregate ch [keyword_result d sha256 decode meta files k] p c n = Inr sr"
proof (cases "aggregate ch [keyword_result d sha256 decode meta files k] p c n")
  case (Inl e)
  let ?rs = "[keyword_result d sha256 decode meta files k]"
  have "fd_file_path f \<noteq> None \<and> fd_start_line f \<noteq> None" if "f \<in> set (usable_findings ?rs)" for f
    using that by (auto simp: usable_findings_def keyword_result_def safe_results_def file_list_member
        rule_finding_def split: if_splits)
  then have "\<not> location_clash f g" if "f \<in> set (take n (all_findings ?rs))" for f g
    using that set_take_subset [of n "all_findings ?rs"] set_all_findings [of ?rs]
    by (metis location_clash_def subsetD)
  then show ?thesis using Inl unfolding aggregate_Inl dedup_raises_iff keys_incomparable_iff by blast
qed simp

theorem static_floor_never_passes_witness:
  "\<exists>r sr. static_keyword_analyze sample_texts sample_digest sample_decode (static_keyword_metadata ''d'')
       (\<lambda>_. 0) (Some 1) sample_package = Inr r \<and> aggregate ''h'' [r] sample_policy 0 1000 = Inr sr \<and>
     vr_verdict (decide sr sample_policy INTERNAL [] 0 0 None) \<noteq> PASS"
proof -
  let ?m = "static_keyword_metadata ''d''"
  obtain k where k: "static_keyword_analyze sample_texts sample_digest sample_decode ?m (\<lambda>_. 0) (Some 1)
      sample_package = Inr (keyword_result sample_texts sample_digest sample_decode ?m sample_package k)"
    using static_keyword_eq [OF sample_hex_digest, of sample_package "Some 1" sample_texts sample_decode ?m "\<lambda>_. 0"]
    by auto
  obtain sr where sr: "aggregate ''h'' [keyword_result sample_texts sample_digest sample_decode ?m
      sample_package k] sample_policy 0 1000 = Inr sr"
    using keyword_result_aggregates by blast
  have "finite (gp_required_engines sample_policy)" "''static-keyword'' \<in> gp_required_engines sample_policy"
    by (simp_all add: sample_policy_def)
  from static_floor_never_passes [OF sample_policy_valid this sample_hex_digest k _ _ sample_contains sr,
      of INTERNAL 0 None]
  show ?thesis using k sr by auto
qed

end
