(* ===== verification/Core_Policy.thy ===== *)
theory Core_Policy
  imports Core_Gate
begin

text \<open>
  The content identity of a gate policy (\<open>_canonical_policy_term\<close>,
  \<open>GatePolicy.adjudication_semantics\<close> and \<open>GatePolicy.cache_policy_version\<close> of
  \<open>libs/skillscan_core/models.py\<close>). A frozenset reaches the canonicaliser as a list in
  some iteration order \<open>it\<close>, which Python does not fix across processes. The interpreter's
  \<open>repr\<close> of numbers and strings is the parameter \<open>rp\<close>, and SHA-256 with hexadecimal output is
  the parameter \<open>sha256_hex\<close>.
\<close>

section \<open>Canonical terms\<close>

fun category_name :: "detection_category \<Rightarrow> string" where
  "category_name INSTRUCTION = ''INSTRUCTION''"
| "category_name CODE = ''CODE''"
| "category_name DATA_CREDENTIAL = ''DATA_CREDENTIAL''"
| "category_name NETWORK_INTEL = ''NETWORK_INTEL''"
| "category_name PERMISSION = ''PERMISSION''"
| "category_name FILE_PACKAGE = ''FILE_PACKAGE''"
| "category_name SUPPLY_CHAIN = ''SUPPLY_CHAIN''"
| "category_name BUNDLED_COMPONENT = ''BUNDLED_COMPONENT''"

fun capability_name :: "engine_capability \<Rightarrow> string" where
  "capability_name CAP_STATIC = ''STATIC''"
| "capability_name SEMANTIC_LLM = ''SEMANTIC_LLM''"
| "capability_name THREAT_INTEL = ''THREAT_INTEL''"
| "capability_name DYNAMIC_SANDBOX = ''DYNAMIC_SANDBOX''"
| "capability_name SCA = ''SCA''"
| "capability_name FILE_COMPLIANCE = ''FILE_COMPLIANCE''"

text \<open>The values a policy field can hold; \<open>PT_Other\<close> is any type the dispatch does not know.\<close>

datatype policy_value =
    PT_Severity severity
  | PT_Verdict verdict
  | PT_Tier trust_tier
  | PT_Category detection_category
  | PT_Capability engine_capability
  | PT_Weights category_weights
  | PT_Bool bool
  | PT_Int int
  | PT_Float real
  | PT_Str string
  | PT_Set "policy_value list"
  | PT_Seq "policy_value list"
  | PT_Other string

type_synonym py_repr = "policy_value \<Rightarrow> string"

fun canonical_policy_term :: "py_repr \<Rightarrow> policy_value \<Rightarrow> string res" where
  "canonical_policy_term rp (PT_Severity s) = Inr (''Severity.'' @ severity_name s)"
| "canonical_policy_term rp (PT_Verdict v) = Inr (''Verdict.'' @ verdict_name v)"
| "canonical_policy_term rp (PT_Tier t) = Inr (''TrustTier.'' @ trust_tier_name t)"
| "canonical_policy_term rp (PT_Category c) = Inr (''DetectionCategory.'' @ category_name c)"
| "canonical_policy_term rp (PT_Capability c) = Inr (''EngineCapability.'' @ capability_name c)"
| "canonical_policy_term rp (PT_Weights w) =
     Inr (''cw('' @ py_join '','' (map (\<lambda>(n, v). n @ ''='' @ rp (PT_Float v)) (non_default_items w)) @ '')'')"
| "canonical_policy_term rp (PT_Bool b) = Inr (''bool('' @ (if b then ''True'' else ''False'') @ '')'')"
| "canonical_policy_term rp (PT_Int n) = Inr (rp (PT_Int n))"
| "canonical_policy_term rp (PT_Float x) = Inr (rp (PT_Float x))"
| "canonical_policy_term rp (PT_Str s) = Inr (rp (PT_Str s))"
| "canonical_policy_term rp (PT_Set xs) =
     res_bind (res_map (canonical_policy_term rp) xs) (\<lambda>ts. Inr (''{'' @ py_join '','' (sort ts) @ ''}''))"
| "canonical_policy_term rp (PT_Seq xs) =
     res_bind (res_map (canonical_policy_term rp) xs) (\<lambda>ts. Inr (''['' @ py_join '','' ts @ '']''))"
| "canonical_policy_term rp (PT_Other ty) = Inl TypeError"

section \<open>The semantics string and the cache identity\<close>

type_synonym iteration = "string set \<Rightarrow> string list"

definition resolved_tiers :: "gate_policy \<Rightarrow> (string \<times> string) list" where
  "resolved_tiers p =
     sort_key fst (map (\<lambda>t. (trust_tier_value t, severity_name (block_threshold p t)))
       [INTERNAL, PARTNER, PUBLIC])"

definition policy_fields :: "iteration \<Rightarrow> gate_policy \<Rightarrow> (string \<times> policy_value) list" where
  "policy_fields it p = [
     (''required_engines'', PT_Set (map PT_Str (it (gp_required_engines p)))),
     (''hard_gate_rules'', PT_Set (map PT_Str (it (gp_hard_gate_rules p)))),
     (''review_confidence'', PT_Float (gp_review_confidence p)),
     (''block_on_severity'', PT_Severity (gp_block_on_severity p)),
     (''review_on_severity'', PT_Severity (gp_review_on_severity p)),
     (''tier_block_overrides'',
        PT_Seq (map (\<lambda>(t, s). PT_Seq [PT_Str t, PT_Str s]) (resolved_tiers p))),
     (''allowlistable_max_severity'', PT_Severity (gp_allowlistable_max_severity p)),
     (''fail_closed_verdict'', PT_Verdict (gp_fail_closed_verdict p)),
     (''category_weights'', PT_Weights (gp_category_weights p))]"

definition POLICY_SEMANTICS_DOMAIN :: string where
  "POLICY_SEMANTICS_DOMAIN = ''skillscan.gate_policy.adjudication_semantics.v1''"

abbreviation newline :: string where
  "newline \<equiv> [CHR 0x0A]"

definition adjudication_semantics :: "iteration \<Rightarrow> py_repr \<Rightarrow> gate_policy \<Rightarrow> string res" where
  "adjudication_semantics it rp p =
     res_bind (res_map (\<lambda>(name, value).
         res_bind (canonical_policy_term rp value) (\<lambda>t. Inr (name @ ''='' @ t))) (policy_fields it p))
       (\<lambda>parts. Inr (POLICY_SEMANTICS_DOMAIN @ newline @ py_join newline parts))"

definition cache_policy_version ::
  "iteration \<Rightarrow> py_repr \<Rightarrow> (string \<Rightarrow> string) \<Rightarrow> gate_policy \<Rightarrow> string res" where
  "cache_policy_version it rp sha256_hex p =
     res_bind (adjudication_semantics it rp p) (\<lambda>s. Inr (gp_version p @ ''+p1:'' @ sha256_hex s))"

section \<open>Facts\<close>

text \<open>An iteration order: every element of a finite set exactly once.\<close>

definition enumerates :: "iteration \<Rightarrow> bool" where
  "enumerates it \<longleftrightarrow> (\<forall>A. finite A \<longrightarrow> set (it A) = A \<and> distinct (it A))"

lemma enumerates_sorted: "enumerates sorted_list_of_set"
  by (simp add: enumerates_def)

lemma res_map_terms [simp]: "res_map (\<lambda>x. Inr (g x)) xs = Inr (map g xs)"
  by (induction xs) simp_all

lemma res_map_map: "res_map f (map h xs) = res_map (\<lambda>x. f (h x)) xs"
  by (induction xs) simp_all

definition str_set_term :: "py_repr \<Rightarrow> string list \<Rightarrow> string" where
  "str_set_term rp xs = ''{'' @ py_join '','' (sort (map (\<lambda>s. rp (PT_Str s)) xs)) @ ''}''"

definition pairs_term :: "py_repr \<Rightarrow> (string \<times> string) list \<Rightarrow> string" where
  "pairs_term rp xs = ''['' @ py_join '',''
     (map (\<lambda>(t, s). ''['' @ rp (PT_Str t) @ '','' @ rp (PT_Str s) @ '']'') xs) @ '']''"

lemma canonical_str_set:
  "canonical_policy_term rp (PT_Set (map PT_Str xs)) = Inr (str_set_term rp xs)"
  by (simp add: str_set_term_def res_map_map)

lemma canonical_pairs:
  "canonical_policy_term rp (PT_Seq (map (\<lambda>(t, s). PT_Seq [PT_Str t, PT_Str s]) xs)) =
     Inr (pairs_term rp xs)"
proof -
  have "canonical_policy_term rp (case x of (t, s) \<Rightarrow> PT_Seq [PT_Str t, PT_Str s]) =
      Inr (case x of (t, s) \<Rightarrow> ''['' @ rp (PT_Str t) @ '','' @ rp (PT_Str s) @ '']'')" for x
    by (cases x) simp
  then show ?thesis by (simp add: pairs_term_def res_map_map)
qed

definition weight_term :: "py_repr \<Rightarrow> string \<times> real \<Rightarrow> string" where
  "weight_term rp = (\<lambda>(n, v). n @ ''='' @ rp (PT_Float v))"

definition weights_term :: "py_repr \<Rightarrow> category_weights \<Rightarrow> string" where
  "weights_term rp w = ''cw('' @ py_join '','' (map (weight_term rp) (non_default_items w)) @ '')''"

definition semantics_parts :: "iteration \<Rightarrow> py_repr \<Rightarrow> gate_policy \<Rightarrow> string list" where
  "semantics_parts it rp p = [
     ''required_engines='' @ str_set_term rp (it (gp_required_engines p)),
     ''hard_gate_rules='' @ str_set_term rp (it (gp_hard_gate_rules p)),
     ''review_confidence='' @ rp (PT_Float (gp_review_confidence p)),
     ''block_on_severity='' @ ''Severity.'' @ severity_name (gp_block_on_severity p),
     ''review_on_severity='' @ ''Severity.'' @ severity_name (gp_review_on_severity p),
     ''tier_block_overrides='' @ pairs_term rp (resolved_tiers p),
     ''allowlistable_max_severity='' @ ''Severity.'' @ severity_name (gp_allowlistable_max_severity p),
     ''fail_closed_verdict='' @ ''Verdict.'' @ verdict_name (gp_fail_closed_verdict p),
     ''category_weights='' @ weights_term rp (gp_category_weights p)]"

lemmas scalar_terms = canonical_policy_term.simps(1-10)

lemma adjudication_semantics_eq:
  "adjudication_semantics it rp p =
     Inr (POLICY_SEMANTICS_DOMAIN @ newline @ py_join newline (semantics_parts it rp p))"
proof -
  have "res_map (\<lambda>(name, value).
      res_bind (canonical_policy_term rp value) (\<lambda>t. Inr (name @ ''='' @ t))) (policy_fields it p) =
    Inr (semantics_parts it rp p)"
    unfolding policy_fields_def semantics_parts_def weights_term_def weight_term_def
    by (simp only: res_map.simps prod.case canonical_str_set canonical_pairs scalar_terms
        res_bind_Inr) simp
  then show ?thesis by (simp add: adjudication_semantics_def)
qed

lemma str_set_term_cong:
  assumes "enumerates it" "enumerates it'" "finite A"
  shows "str_set_term rp (it A) = str_set_term rp (it' A)"
proof -
  have "mset (it A) = mset (it' A)"
    using assms by (metis enumerates_def set_eq_iff_mset_eq_distinct)
  then have "mset (map (\<lambda>s. rp (PT_Str s)) (it A)) = mset (map (\<lambda>s. rp (PT_Str s)) (it' A))" by simp
  then have "sort (map (\<lambda>s. rp (PT_Str s)) (it A)) = sort (map (\<lambda>s. rp (PT_Str s)) (it' A))"
    by (metis mset_sort properties_for_sort sorted_sort)
  then show ?thesis by (simp add: str_set_term_def)
qed

text \<open>
  What the code relies on of \<open>repr\<close>: an identifier-like string prints as itself between single
  quotes, and a float prints with the characters of a Python float literal.
\<close>

definition plain :: "string \<Rightarrow> bool" where
  "plain s \<longleftrightarrow> set s \<subseteq>
     set ''abcdefghijklmnopqrstuvwxyzABCDEFGHIJKLMNOPQRSTUVWXYZ0123456789._-''"

definition repr_documented :: "py_repr \<Rightarrow> bool" where
  "repr_documented rp \<longleftrightarrow>
     (\<forall>s. plain s \<longrightarrow> rp (PT_Str s) = [CHR 0x27] @ s @ [CHR 0x27]) \<and>
     (\<forall>x. set (rp (PT_Float x)) \<subseteq> set ''0123456789.e+-infa'')"

definition plain_names :: "gate_policy \<Rightarrow> bool" where
  "plain_names p \<longleftrightarrow> finite (gp_required_engines p) \<and> finite (gp_hard_gate_rules p) \<and>
     (\<forall>s \<in> gp_required_engines p \<union> gp_hard_gate_rules p. plain s)"

text \<open>The floats a policy carries; \<open>repr\<close> is injective on floats.\<close>

definition policy_floats :: "gate_policy \<Rightarrow> real set" where
  "policy_floats p = insert (gp_review_confidence p) (range (for_category (gp_category_weights p)))"

lemma repr_str: "repr_documented rp \<Longrightarrow> plain s \<Longrightarrow> rp (PT_Str s) = [CHR 0x27] @ s @ [CHR 0x27]"
  by (simp add: repr_documented_def)

lemma repr_float_chars:
  assumes "repr_documented rp"
  shows "CHR 0x0A \<notin> set (rp (PT_Float x)) \<and> CHR '','' \<notin> set (rp (PT_Float x))"
proof -
  have "set (rp (PT_Float x)) \<subseteq> set ''0123456789.e+-infa''"
    using assms by (simp add: repr_documented_def)
  moreover have "CHR 0x0A \<notin> set ''0123456789.e+-infa''" "CHR '','' \<notin> set ''0123456789.e+-infa''"
    by simp_all
  ultimately show ?thesis by blast
qed

lemma plain_chars: "plain s \<Longrightarrow> CHR 0x0A \<notin> set s \<and> CHR '','' \<notin> set s \<and> CHR 0x27 \<notin> set s"
  unfolding plain_def by auto

lemma plain_tier_value: "plain (trust_tier_value t)"
  by (cases t) (simp_all add: plain_def)

lemma plain_severity_name: "plain (severity_name s)"
  by (cases s) (simp_all add: plain_def)

section \<open>Reading a semantics string back\<close>

lemma str_set_term_chars:
  assumes "repr_documented rp" "\<forall>x \<in> set xs. plain x"
  shows "CHR 0x0A \<notin> set (str_set_term rp xs)"
proof -
  have "CHR 0x0A \<notin> (\<Union>t \<in> set (sort (map (\<lambda>s. rp (PT_Str s)) xs)). set t)"
    using assms by (auto simp: repr_str plain_chars)
  then show ?thesis
    using set_py_join [of "'',''" "sort (map (\<lambda>s. rp (PT_Str s)) xs)"]
    by (auto simp: str_set_term_def)
qed

lemma str_set_term_inject:
  assumes "repr_documented rp" "\<forall>x \<in> set xs \<union> set ys. plain x"
    and "str_set_term rp xs = str_set_term rp ys"
  shows "set xs = set ys"
proof -
  let ?q = "\<lambda>s. rp (PT_Str s)"
  have "py_join '','' (sort (map ?q xs)) = py_join '','' (sort (map ?q ys))"
    using assms(3) by (simp add: str_set_term_def)
  moreover have "\<forall>t \<in> set (sort (map ?q xs)) \<union> set (sort (map ?q ys)). CHR '','' \<notin> set t \<and> t \<noteq> []"
    using assms(1,2) by (auto simp: repr_str plain_chars)
  ultimately have "sort (map ?q xs) = sort (map ?q ys)" by (intro py_join_inject) auto
  then have "?q ` set xs = ?q ` set ys" by (metis list.set_map set_sort)
  moreover have "inj_on ?q (set xs \<union> set ys)"
    using assms(1,2) by (auto simp: inj_on_def repr_str)
  ultimately show ?thesis by (meson inj_on_Un_image_eq_iff)
qed

lemma resolved_tiers_eq:
  "resolved_tiers p = [(''internal'', severity_name (block_threshold p INTERNAL)),
     (''partner'', severity_name (block_threshold p PARTNER)),
     (''public'', severity_name (block_threshold p PUBLIC))]"
  by (simp add: resolved_tiers_def)

lemma plain_tiers: "plain ''internal''" "plain ''partner''" "plain ''public''"
  by (simp_all add: plain_def)

lemma resolved_tiers_plain: "(t, s) \<in> set (resolved_tiers p) \<Longrightarrow> plain t \<and> plain s"
  unfolding resolved_tiers_eq by (auto simp: plain_tiers plain_severity_name)

lemma pairs_term_chars:
  assumes "repr_documented rp"
  shows "CHR 0x0A \<notin> set (pairs_term rp (resolved_tiers p))"
proof -
  let ?f = "\<lambda>(t, s). ''['' @ rp (PT_Str t) @ '','' @ rp (PT_Str s) @ '']''"
  have "CHR 0x0A \<notin> set (?f x)" if "x \<in> set (resolved_tiers p)" for x
    using resolved_tiers_plain [of "fst x" "snd x" p] that assms
    by (cases x) (auto simp: repr_str plain_chars)
  then have "CHR 0x0A \<notin> (\<Union>t \<in> set (map ?f (resolved_tiers p)). set t)" by auto
  then show ?thesis
    using set_py_join [of "'',''" "map ?f (resolved_tiers p)"] by (auto simp: pairs_term_def)
qed

lemma pairs_term_inject:
  assumes "repr_documented rp"
    and "pairs_term rp (resolved_tiers p) = pairs_term rp (resolved_tiers q)"
  shows "block_threshold p t = block_threshold q t"
proof -
  let ?n = "\<lambda>r t. severity_name (block_threshold r t)"
  have q: "CHR 0x27 \<notin> set (?n r t)" for r t using plain_severity_name plain_chars by blast
  note eq = assms(2) [unfolded resolved_tiers_eq pairs_term_def]
  have "?n p INTERNAL = ?n q INTERNAL \<and> ?n p PARTNER = ?n q PARTNER \<and> ?n p PUBLIC = ?n q PUBLIC"
    using eq q by (simp add: repr_str [OF assms(1)] plain_tiers plain_severity_name sep_append_inject)
  then show ?thesis by (cases t) (auto dest: severity_name_inj)
qed

lemma weight_items_fst: "map fst (weight_items w) = map category_value
    [INSTRUCTION, CODE, DATA_CREDENTIAL, NETWORK_INTEL, PERMISSION, FILE_PACKAGE, SUPPLY_CHAIN,
     BUNDLED_COMPONENT]"
  by (simp add: weight_items_def)

lemma weight_items_lookup: "map_of (weight_items w) (category_value c) = Some (for_category w c)"
  by (cases c) (simp_all add: weight_items_def)

lemma weight_items_range: "(n, v) \<in> set (weight_items w) \<Longrightarrow>
    v \<in> range (for_category w) \<and> (\<exists>c. n = category_value c)"
proof -
  assume nv: "(n, v) \<in> set (weight_items w)"
  have d: "distinct (map fst (weight_items w))" unfolding weight_items_fst by simp
  have "n \<in> set (map fst (weight_items w))" using nv by force
  then obtain c where c: "n = category_value c" unfolding weight_items_fst set_map by blast
  then have "for_category w c = v"
    using nv d weight_items_lookup [of w c] by (metis map_of_is_SomeI option.inject)
  then show ?thesis using c by blast
qed

lemma map_of_filter_snd:
  "distinct (map fst xs) \<Longrightarrow> map_of (filter (\<lambda>(n, v). P v) xs) k =
     (case map_of xs k of None \<Rightarrow> None | Some v \<Rightarrow> if P v then Some v else None)"
proof (induction xs)
  case Nil
  then show ?case by simp
next
  case (Cons x xs)
  then show ?case by (cases x) (auto simp: map_of_eq_None_iff split: option.splits)
qed

lemma non_default_lookup:
  "for_category w c = (case map_of (non_default_items w) (category_value c) of None \<Rightarrow> 1 | Some v \<Rightarrow> v)"
proof -
  have "distinct (map fst (weight_items w))" unfolding weight_items_fst by simp
  then have "map_of (non_default_items w) (category_value c) =
      (if for_category w c = 1 then None else Some (for_category w c))"
    unfolding non_default_items_def by (subst map_of_filter_snd) (simp_all add: weight_items_lookup)
  then show ?thesis by simp
qed

lemma category_value_chars: "CHR 0x0A \<notin> set (category_value c) \<and> CHR '','' \<notin> set (category_value c) \<and>
    CHR ''='' \<notin> set (category_value c)"
  by (cases c) simp_all

lemma weight_term_chars:
  assumes "repr_documented rp" "x \<in> set (non_default_items w)"
  shows "CHR 0x0A \<notin> set (weight_term rp x) \<and> CHR '','' \<notin> set (weight_term rp x) \<and> weight_term rp x \<noteq> []"
  using assms weight_items_range [of "fst x" "snd x" w] category_value_chars
    repr_float_chars [OF assms(1)]
  by (cases x) (auto simp: weight_term_def non_default_items_def)

lemma weights_term_chars:
  assumes "repr_documented rp"
  shows "CHR 0x0A \<notin> set (weights_term rp w)"
proof -
  have "CHR 0x0A \<notin> (\<Union>t \<in> set (map (weight_term rp) (non_default_items w)). set t)"
    using weight_term_chars [OF assms] by auto
  then show ?thesis
    using set_py_join [of "'',''" "map (weight_term rp) (non_default_items w)"]
    by (auto simp: weights_term_def)
qed

lemma weight_term_inject:
  assumes rp: "repr_documented rp"
    and inj: "inj_on (\<lambda>x. rp (PT_Float x)) (range (for_category w) \<union> range (for_category v))"
  shows "inj_on (weight_term rp) (set (non_default_items w) \<union> set (non_default_items v))"
proof (rule inj_onI)
  fix x y
  assume mem: "x \<in> set (non_default_items w) \<union> set (non_default_items v)"
    "y \<in> set (non_default_items w) \<union> set (non_default_items v)"
    and eq: "weight_term rp x = weight_term rp y"
  have item: "(snd z \<in> range (for_category w) \<union> range (for_category v)) \<and> CHR ''='' \<notin> set (fst z)"
    if "z \<in> set (non_default_items w) \<union> set (non_default_items v)" for z
    using that weight_items_range [of "fst z" "snd z"] category_value_chars
    by (cases z) (fastforce simp: non_default_items_def)
  have "fst x = fst y \<and> rp (PT_Float (snd x)) = rp (PT_Float (snd y))"
    using eq item [OF mem(1)] item [OF mem(2)]
    by (simp add: weight_term_def split_beta sep_append_inject)
  then show "x = y"
    using inj item [OF mem(1)] item [OF mem(2)] by (auto dest: inj_onD intro: prod_eqI)
qed

lemma weights_term_inject:
  assumes rp: "repr_documented rp"
    and inj: "inj_on (\<lambda>x. rp (PT_Float x)) (range (for_category w) \<union> range (for_category v))"
    and eq: "weights_term rp w = weights_term rp v"
  shows "w = v"
proof -
  have "py_join '','' (map (weight_term rp) (non_default_items w)) =
      py_join '','' (map (weight_term rp) (non_default_items v))"
    using eq by (simp add: weights_term_def)
  moreover have "\<forall>t \<in> set (map (weight_term rp) (non_default_items w)) \<union>
      set (map (weight_term rp) (non_default_items v)). CHR '','' \<notin> set t \<and> t \<noteq> []"
    using weight_term_chars [OF rp] by auto
  ultimately have "map (weight_term rp) (non_default_items w) = map (weight_term rp) (non_default_items v)"
    by (intro py_join_inject) auto
  then have "non_default_items w = non_default_items v"
    using weight_term_inject [OF rp inj] by (simp add: inj_on_map_eq_map)
  then have eq: "for_category w c = for_category v c" for c by (simp add: non_default_lookup)
  show ?thesis
    using eq [of INSTRUCTION] eq [of CODE] eq [of DATA_CREDENTIAL] eq [of NETWORK_INTEL]
      eq [of PERMISSION] eq [of FILE_PACKAGE] eq [of SUPPLY_CHAIN] eq [of BUNDLED_COMPONENT]
    by (cases w; cases v) simp
qed

lemma semantics_parts_chars:
  assumes "repr_documented rp" "enumerates it" "plain_names p" "x \<in> set (semantics_parts it rp p)"
  shows "CHR 0x0A \<notin> set x"
proof -
  have names: "\<forall>s \<in> set (it (gp_required_engines p)). plain s" "\<forall>s \<in> set (it (gp_hard_gate_rules p)). plain s"
    using assms(2,3) by (auto simp: plain_names_def enumerates_def)
  note chars = str_set_term_chars [OF assms(1) names(1)] str_set_term_chars [OF assms(1) names(2)]
    pairs_term_chars [OF assms(1)] weights_term_chars [OF assms(1)] repr_float_chars [OF assms(1)]
    plain_severity_name [THEN plain_chars]
  have "CHR 0x0A \<notin> set (verdict_name v)" for v by (cases v) simp_all
  then show ?thesis using assms(4) chars by (auto simp: semantics_parts_def)
qed

lemma semantics_parts_inject:
  assumes rp: "repr_documented rp" and it: "enumerates it" "plain_names p" "plain_names q"
    and inj: "inj_on (\<lambda>x. rp (PT_Float x)) (policy_floats p \<union> policy_floats q)"
    and eq: "adjudication_semantics it rp p = adjudication_semantics it rp q"
  shows "gp_required_engines p = gp_required_engines q \<and> gp_hard_gate_rules p = gp_hard_gate_rules q \<and>
    gp_review_confidence p = gp_review_confidence q \<and>
    gp_block_on_severity p = gp_block_on_severity q \<and> gp_review_on_severity p = gp_review_on_severity q \<and>
    (\<forall>t. block_threshold p t = block_threshold q t) \<and>
    gp_allowlistable_max_severity p = gp_allowlistable_max_severity q \<and>
    gp_fail_closed_verdict p = gp_fail_closed_verdict q \<and>
    gp_category_weights p = gp_category_weights q"
proof -
  have "py_join newline (semantics_parts it rp p) = py_join newline (semantics_parts it rp q)"
    using eq by (simp add: adjudication_semantics_eq)
  moreover have "\<forall>x \<in> set (semantics_parts it rp r). CHR 0x0A \<notin> set x" if "plain_names r" for r
    using semantics_parts_chars [OF rp it(1) that] by blast
  ultimately have parts: "semantics_parts it rp p = semantics_parts it rp q"
    using it by (metis py_split_join semantics_parts_def list.distinct(1))
  then have eqs: "str_set_term rp (it (gp_required_engines p)) = str_set_term rp (it (gp_required_engines q))"
    "str_set_term rp (it (gp_hard_gate_rules p)) = str_set_term rp (it (gp_hard_gate_rules q))"
    "rp (PT_Float (gp_review_confidence p)) = rp (PT_Float (gp_review_confidence q))"
    "severity_name (gp_block_on_severity p) = severity_name (gp_block_on_severity q)"
    "severity_name (gp_review_on_severity p) = severity_name (gp_review_on_severity q)"
    "pairs_term rp (resolved_tiers p) = pairs_term rp (resolved_tiers q)"
    "severity_name (gp_allowlistable_max_severity p) = severity_name (gp_allowlistable_max_severity q)"
    "verdict_name (gp_fail_closed_verdict p) = verdict_name (gp_fail_closed_verdict q)"
    "weights_term rp (gp_category_weights p) = weights_term rp (gp_category_weights q)"
    by (simp_all add: semantics_parts_def)
  have sets: "set (it (gp_required_engines r)) = gp_required_engines r"
    "set (it (gp_hard_gate_rules r)) = gp_hard_gate_rules r" if "plain_names r" for r
    using it(1) that by (simp_all add: enumerates_def plain_names_def)
  have pl: "\<forall>s \<in> gp_required_engines p \<union> gp_required_engines q. plain s"
    "\<forall>s \<in> gp_hard_gate_rules p \<union> gp_hard_gate_rules q. plain s"
    using it by (auto simp: plain_names_def)
  have "gp_required_engines p = gp_required_engines q" "gp_hard_gate_rules p = gp_hard_gate_rules q"
    using eqs(1,2) str_set_term_inject [OF rp, of "it (gp_required_engines p)" "it (gp_required_engines q)"]
      str_set_term_inject [OF rp, of "it (gp_hard_gate_rules p)" "it (gp_hard_gate_rules q)"]
      sets it pl by simp_all
  moreover have "gp_review_confidence p = gp_review_confidence q"
    by (rule inj_onD [OF inj]) (use eqs in \<open>simp_all add: policy_floats_def\<close>)
  moreover have "inj_on (\<lambda>x. rp (PT_Float x)) (range (for_category (gp_category_weights p)) \<union>
      range (for_category (gp_category_weights q)))"
    by (rule inj_on_subset [OF inj]) (auto simp: policy_floats_def)
  then have "gp_category_weights p = gp_category_weights q"
    using weights_term_inject [OF rp] eqs by blast
  moreover have "\<forall>t. block_threshold p t = block_threshold q t"
    using pairs_term_inject [OF rp] eqs by blast
  ultimately show ?thesis using eqs by (auto dest: severity_name_inj verdict_name_inj)
qed

text \<open>\<open>decide\<close> reads the tier overrides only through the resolved thresholds.\<close>

lemma decide_thresholds_only:
  assumes "\<forall>t. block_threshold p t = block_threshold (p\<lparr>gp_tier_block_overrides := ov\<rparr>) t"
  shows "decide sr (p\<lparr>gp_tier_block_overrides := ov\<rparr>) t al now c sid = decide sr p t al now c sid"
proof -
  let ?q = "p\<lparr>gp_tier_block_overrides := ov\<rparr>"
  have "classify s k ?q t = classify s k p t" for s k using assms by (simp add: classify_def)
  moreover have "combined_hard_gate sr ?q = combined_hard_gate sr p"
    by (simp add: combined_hard_gate_def)
  moreover have "effective_findings sr ?q al now sid = effective_findings sr p al now sid"
    by (simp add: effective_findings_def is_waived_def)
  moreover have "signal_lost sr ?q c = signal_lost sr p c" by (simp add: signal_lost_def)
  moreover have "restore_signals b sr ?q c = restore_signals b sr p c" for b
    by (intro ext) (simp add: restore_signals_def)
  moreover have "dedup_collisions_fully_waived sr ?q al now sid =
      dedup_collisions_fully_waived sr p al now sid"
    by (simp add: dedup_collisions_fully_waived_def rule_id_actively_waived_def)
  ultimately show ?thesis by (simp add: decide_def Let_def)
qed

section \<open>Properties\<close>

text \<open>Note: The policy digest is process-independent: with any two iteration orders of the
  policy's (finite) sets, the semantics string is the same, and canonicalisation never raises
  on a policy.\<close>

theorem adjudication_semantics_deterministic:
  assumes "enumerates it" "enumerates it'"
    and "finite (gp_required_engines p)" "finite (gp_hard_gate_rules p)"
  shows "\<exists>s. adjudication_semantics it rp p = Inr s \<and> adjudication_semantics it' rp p = Inr s"
proof -
  have "str_set_term rp (it (gp_required_engines p)) = str_set_term rp (it' (gp_required_engines p))"
    "str_set_term rp (it (gp_hard_gate_rules p)) = str_set_term rp (it' (gp_hard_gate_rules p))"
    using assms by (auto intro: str_set_term_cong)
  then have "semantics_parts it rp p = semantics_parts it' rp p"
    by (simp add: semantics_parts_def)
  then show ?thesis by (simp add: adjudication_semantics_eq)
qed

text \<open>Note: The cache identity of a policy is sound: if two policies with identifier-like rule and
  engine names get the same \<open>cache_policy_version\<close>, and the hash does not collide on their two
  semantics strings, then they have the same version and the gate decides every scan identically
  under both, for every tier, allowlist, time and confidence floor.\<close>

theorem cache_policy_version_sound:
  assumes "repr_documented rp" "enumerates it" "plain_names p" "plain_names q"
    and "inj_on (\<lambda>x. rp (PT_Float x)) (policy_floats p \<union> policy_floats q)"
    and hex_length: "\<forall>s. length (sha256_hex s) = 64"
    and no_collision: "\<forall>s s'. adjudication_semantics it rp p = Inr s \<and>
      adjudication_semantics it rp q = Inr s' \<and> sha256_hex s = sha256_hex s' \<longrightarrow> s = s'"
    and same: "cache_policy_version it rp sha256_hex p = cache_policy_version it rp sha256_hex q"
  shows "gp_version p = gp_version q \<and> decide sr p t al now c sid = decide sr q t al now c sid"
proof -
  obtain s s' where s: "adjudication_semantics it rp p = Inr s" "adjudication_semantics it rp q = Inr s'"
    using adjudication_semantics_eq by blast
  have "gp_version p @ ''+p1:'' @ sha256_hex s = gp_version q @ ''+p1:'' @ sha256_hex s'"
    using same s by (simp add: cache_policy_version_def)
  then have h: "gp_version p @ ''+p1:'' = gp_version q @ ''+p1:'' \<and> sha256_hex s = sha256_hex s'"
    using hex_length append_eq_append_conv [of "gp_version p @ ''+p1:''" "gp_version q @ ''+p1:''"
        "sha256_hex s" "sha256_hex s'"] by (metis append_assoc)
  then have ver: "gp_version p = gp_version q" by simp
  have "s = s'" using h no_collision s by blast
  then have "adjudication_semantics it rp p = adjudication_semantics it rp q" using s by simp
  note fields = semantics_parts_inject [OF assms(1-5) this]
  then have q: "q = p\<lparr>gp_tier_block_overrides := gp_tier_block_overrides q\<rparr>"
    using ver by (intro gate_policy.equality) simp_all
  then have "\<forall>t. block_threshold p t =
      block_threshold (p\<lparr>gp_tier_block_overrides := gp_tier_block_overrides q\<rparr>) t" using fields by metis
  from decide_thresholds_only [OF this] show ?thesis using ver q by metis
qed

section \<open>Witnesses\<close>

definition sample_repr :: py_repr where
  "sample_repr v = (case v of PT_Str s \<Rightarrow> [CHR 0x27] @ s @ [CHR 0x27]
     | PT_Float x \<Rightarrow> (if x = 1 then ''1.0'' else ''0.6'') | _ \<Rightarrow> [])"

definition sample_hex :: "string \<Rightarrow> string" where
  "sample_hex s = replicate 64 (CHR ''0'')"

text \<open>The sample policy with a redundant override that leaves every threshold as it is.\<close>

definition redundant_policy :: gate_policy where
  "redundant_policy = sample_policy\<lparr>gp_tier_block_overrides := [(PUBLIC, CRITICAL), (PUBLIC, HIGH)]\<rparr>"

lemma sample_repr_documented: "repr_documented sample_repr"
  by (simp add: repr_documented_def sample_repr_def)

lemma sample_plain_names: "plain_names sample_policy" "plain_names redundant_policy"
  by (simp_all add: plain_names_def plain_def redundant_policy_def sample_policy_def)

lemma sample_floats: "policy_floats sample_policy = {6 / 10, 1}" "policy_floats redundant_policy = {6 / 10, 1}"
proof -
  have "for_category default_weights c = 1" for c by (cases c) (simp_all add: default_weights_def)
  then have "range (for_category default_weights) = {1}" by (simp add: image_constant_conv)
  then show "policy_floats sample_policy = {6 / 10, 1}" "policy_floats redundant_policy = {6 / 10, 1}"
    by (simp_all add: policy_floats_def redundant_policy_def sample_policy_def)
qed

lemma redundant_semantics:
  "adjudication_semantics sorted_list_of_set sample_repr redundant_policy =
   adjudication_semantics sorted_list_of_set sample_repr sample_policy"
proof -
  have "resolved_tiers redundant_policy = resolved_tiers sample_policy"
    by (simp add: resolved_tiers_eq redundant_policy_def sample_policy_def block_threshold_def
        severity_order min_def)
  then have "semantics_parts sorted_list_of_set sample_repr redundant_policy =
      semantics_parts sorted_list_of_set sample_repr sample_policy"
    by (simp add: semantics_parts_def redundant_policy_def)
  then show ?thesis by (simp add: adjudication_semantics_eq)
qed

theorem adjudication_semantics_deterministic_witness:
  "\<exists>s. adjudication_semantics sorted_list_of_set sample_repr sample_policy = Inr s \<and>
     adjudication_semantics (rev \<circ> sorted_list_of_set) sample_repr sample_policy = Inr s"
  by (rule adjudication_semantics_deterministic)
     (simp_all add: enumerates_def sample_policy_def)

theorem cache_policy_version_sound_witness:
  "gp_version sample_policy = gp_version redundant_policy \<and>
   decide (sample_scan [critical_finding]) sample_policy PUBLIC [] 0 (3 / 10) None =
   decide (sample_scan [critical_finding]) redundant_policy PUBLIC [] 0 (3 / 10) None"
proof (rule cache_policy_version_sound
    [of sample_repr sorted_list_of_set sample_policy redundant_policy sample_hex])
  show "inj_on (\<lambda>x. sample_repr (PT_Float x)) (policy_floats sample_policy \<union> policy_floats redundant_policy)"
    by (simp add: sample_floats sample_repr_def)
  show "cache_policy_version sorted_list_of_set sample_repr sample_hex sample_policy =
      cache_policy_version sorted_list_of_set sample_repr sample_hex redundant_policy"
    by (simp add: cache_policy_version_def redundant_semantics) (simp add: redundant_policy_def)
qed (auto simp: sample_repr_documented enumerates_sorted sample_plain_names redundant_semantics
    sample_hex_def)

end
