(* ===== verification/Gate_Policy_Load.thy ===== *)
theory Gate_Policy_Load
  imports Core_Policy
begin

text \<open>
  Loading a gate policy from its YAML document and comparing trust tiers
  (\<open>apps/monolith/modules/gate/policy.py\<close>). The document arrives as the value that
  \<open>yaml.safe_load\<close> built (\<open>pyval\<close>); a mapping is an association list with distinct keys.
  Reading the file and parsing YAML are not modelled: \<open>load_gate_policy\<close> takes their outcome.
\<close>

section \<open>Scalars\<close>

text \<open>\<open>Severity[raw]\<close>, \<open>Verdict[raw]\<close> look a member up by name, \<open>TrustTier(raw)\<close> by value.\<close>

definition severity_members :: "(string \<times> severity) list" where
  "severity_members = map (\<lambda>s. (severity_name s, s)) [NONE, LOW, MEDIUM, HIGH, CRITICAL]"

definition verdict_members :: "(string \<times> verdict) list" where
  "verdict_members = map (\<lambda>v. (verdict_name v, v)) [PASS, REVIEW, BLOCK]"

definition trust_tier_members :: "(string \<times> trust_tier) list" where
  "trust_tier_members = map (\<lambda>t. (trust_tier_value t, t)) [INTERNAL, PARTNER, PUBLIC]"

definition member_of :: "(string \<times> 'a) list \<Rightarrow> pyval \<Rightarrow> 'a res" where
  "member_of members raw = (case raw of
      PStr s \<Rightarrow> (case map_of members s of None \<Rightarrow> Inl GatePolicyLoadError | Some m \<Rightarrow> Inr m)
    | _ \<Rightarrow> Inl GatePolicyLoadError)"

definition parse_severity :: "pyval \<Rightarrow> severity res" where
  "parse_severity = member_of severity_members"

definition parse_verdict :: "pyval \<Rightarrow> verdict res" where
  "parse_verdict = member_of verdict_members"

definition parse_trust_tier :: "pyval \<Rightarrow> trust_tier res" where
  "parse_trust_tier = member_of trust_tier_members"

section \<open>Sequences and mappings\<close>

fun str_item :: "pyval \<Rightarrow> string res" where
  "str_item (PStr s) = Inr s"
| "str_item _ = Inl GatePolicyLoadError"

fun parse_str_sequence :: "pyval \<Rightarrow> string list res" where
  "parse_str_sequence PNone = Inr []"
| "parse_str_sequence (PList items) = res_map str_item items"
| "parse_str_sequence _ = Inl GatePolicyLoadError"

text \<open>\<open>raw.get(key)\<close>: an absent key reads as \<open>None\<close>.\<close>

definition dict_get :: "(pyval \<times> pyval) list \<Rightarrow> string \<Rightarrow> pyval" where
  "dict_get raw key = (case map_of raw (PStr key) of None \<Rightarrow> PNone | Some v \<Rightarrow> v)"

fun tier_override :: "pyval \<Rightarrow> (trust_tier \<times> severity) res" where
  "tier_override (PDict entry) =
     (case (map_of entry (PStr ''tier''), map_of entry (PStr ''severity'')) of
        (Some t, Some s) \<Rightarrow>
          res_bind (parse_trust_tier t) (\<lambda>tier.
          res_bind (parse_severity s) (\<lambda>sev. Inr (tier, sev)))
      | _ \<Rightarrow> Inl GatePolicyLoadError)"
| "tier_override _ = Inl GatePolicyLoadError"

fun parse_tier_overrides :: "pyval \<Rightarrow> (trust_tier \<times> severity) list res" where
  "parse_tier_overrides PNone = Inr []"
| "parse_tier_overrides (PList entries) = res_map tier_override entries"
| "parse_tier_overrides _ = Inl GatePolicyLoadError"

definition weight_fields :: "string list" where
  "weight_fields = map fst (weight_items default_weights)"

text \<open>One item of the \<open>category_weights\<close> mapping: a known name, a number that is not a bool.\<close>

definition weight_kwarg :: "pyval \<times> pyval \<Rightarrow> (string \<times> pyval) res" where
  "weight_kwarg = (\<lambda>(key, value). case key of
      PStr k \<Rightarrow>
        if k \<notin> set weight_fields then Inl GatePolicyLoadError
        else if is_bool value \<or> \<not> is_number value then Inl GatePolicyLoadError
        else res_bind (py_float value) (\<lambda>x. Inr (k, PFloat x))
    | _ \<Rightarrow> Inl GatePolicyLoadError)"

text \<open>\<open>except ValueError as exc: raise GatePolicyLoadError\<close>\<close>

definition as_load_error :: "'a res \<Rightarrow> 'a res" where
  "as_load_error r = (case r of Inl ValueError \<Rightarrow> Inl GatePolicyLoadError | _ \<Rightarrow> r)"

definition weight_arg :: "(string \<times> pyval) list \<Rightarrow> string \<Rightarrow> pyval" where
  "weight_arg kwargs name = (case map_of kwargs name of None \<Rightarrow> PFloat (Fin 1) | Some v \<Rightarrow> v)"

fun parse_category_weights :: "pyval \<Rightarrow> category_weights res" where
  "parse_category_weights PNone = Inr default_weights"
| "parse_category_weights (PDict items) =
     res_bind (res_map weight_kwarg items) (\<lambda>kwargs.
       as_load_error (category_weights_post_init (weight_arg kwargs ''instruction'')
         (weight_arg kwargs ''code'') (weight_arg kwargs ''data_credential'')
         (weight_arg kwargs ''network_intel'') (weight_arg kwargs ''permission'')
         (weight_arg kwargs ''file_package'') (weight_arg kwargs ''supply_chain'')
         (weight_arg kwargs ''bundled_component'')))"
| "parse_category_weights _ = Inl GatePolicyLoadError"

section \<open>The policy\<close>

text \<open>A field that is parsed only if the document has it.\<close>

definition optional_field ::
  "(pyval \<times> pyval) list \<Rightarrow> string \<Rightarrow> 'a \<Rightarrow> (pyval \<Rightarrow> 'a res) \<Rightarrow> 'a res" where
  "optional_field raw key dflt parse =
     (case map_of raw (PStr key) of None \<Rightarrow> Inr dflt | Some v \<Rightarrow> parse v)"

definition parse_confidence :: "pyval \<Rightarrow> pfloat res" where
  "parse_confidence v = (if \<not> is_number v then Inl GatePolicyLoadError else py_float v)"

fun nonempty_str :: "pyval option \<Rightarrow> bool" where
  "nonempty_str (Some (PStr s)) = (s \<noteq> [])"
| "nonempty_str _ = False"

definition the_str :: "pyval option \<Rightarrow> string" where
  "the_str v = (case v of Some (PStr s) \<Rightarrow> s | _ \<Rightarrow> [])"

definition parse_gate_policy :: "(pyval \<times> pyval) list \<Rightarrow> gate_policy res" where
  "parse_gate_policy raw =
     res_bind (raise_if (\<not> nonempty_str (map_of raw (PStr ''version''))) GatePolicyLoadError) (\<lambda>_.
     res_bind (raise_if (map_of raw (PStr ''required_engines'') = None) GatePolicyLoadError) (\<lambda>_.
     res_bind (parse_str_sequence (dict_get raw ''required_engines'')) (\<lambda>req.
     res_bind (parse_str_sequence (dict_get raw ''hard_gate_rules'')) (\<lambda>hard.
     res_bind (parse_tier_overrides (dict_get raw ''tier_block_overrides'')) (\<lambda>tiers.
     res_bind (parse_category_weights (dict_get raw ''category_weights'')) (\<lambda>weights.
     res_bind (optional_field raw ''review_confidence'' (Fin (6 / 10)) parse_confidence) (\<lambda>rconf.
     res_bind (optional_field raw ''block_on_severity'' CRITICAL parse_severity) (\<lambda>blk.
     res_bind (optional_field raw ''review_on_severity'' HIGH parse_severity) (\<lambda>rvw.
     res_bind (optional_field raw ''allowlistable_max_severity'' HIGH parse_severity) (\<lambda>almax.
     res_bind (optional_field raw ''fail_closed_verdict'' BLOCK parse_verdict) (\<lambda>fcv.
     as_load_error (gate_policy_post_init (the_str (map_of raw (PStr ''version''))) (set req)
       (set hard) rconf blk rvw tiers almax fcv weights))))))))))))"

text \<open>What reading the file and parsing YAML came to.\<close>

datatype yaml_read = UnreadableFile | InvalidYaml | Parsed pyval

definition load_gate_policy :: "yaml_read \<Rightarrow> gate_policy res" where
  "load_gate_policy y = (case y of
      Parsed (PDict raw) \<Rightarrow> parse_gate_policy raw
    | _ \<Rightarrow> Inl GatePolicyLoadError)"

section \<open>Tier divergence\<close>

definition TrustTier_of :: "string \<Rightarrow> trust_tier res" where
  "TrustTier_of s = (case map_of trust_tier_members s of None \<Rightarrow> Inl ValueError | Some t \<Rightarrow> Inr t)"

datatype direction = Looser | Stricter | Equivalent

definition tier_direction :: "gate_policy \<Rightarrow> string option \<Rightarrow> string option \<Rightarrow> direction option" where
  "tier_direction policy requested judged =
     (case (requested, judged) of
        (Some rq, Some jd) \<Rightarrow>
          if rq = jd then None
          else (case (TrustTier_of rq, TrustTier_of jd) of
                  (Inr rt, Inr jt) \<Rightarrow>
                    let requested_threshold = block_threshold policy rt;
                        judged_threshold = block_threshold policy jt
                    in if judged_threshold > requested_threshold then Some Looser
                       else if judged_threshold < requested_threshold then Some Stricter
                       else Some Equivalent
                | _ \<Rightarrow> None)
      | _ \<Rightarrow> None)"

datatype basis = Signing_policy | Current_policy

definition tier_divergence ::
  "gate_policy \<Rightarrow> string option \<Rightarrow> string option \<Rightarrow> string option \<Rightarrow> direction option \<times> basis option" where
  "tier_divergence policy requested judged signed_policy_version =
     (case tier_direction policy requested judged of
        None \<Rightarrow> (None, None)
      | Some d \<Rightarrow>
          (Some d, Some (if signed_policy_version = Some (gp_version policy) then Signing_policy
                         else Current_policy)))"

section \<open>Facts\<close>

lemma member_of_cases: "member_of ms raw = Inl e \<Longrightarrow> e = GatePolicyLoadError"
  by (auto simp: member_of_def split: pyval.splits option.splits)

lemma parse_severity_name [simp]: "parse_severity (PStr (severity_name s)) = Inr s"
  by (cases s) (simp_all add: parse_severity_def member_of_def severity_members_def)

lemma parse_verdict_name [simp]: "parse_verdict (PStr (verdict_name v)) = Inr v"
  by (cases v) (simp_all add: parse_verdict_def member_of_def verdict_members_def)

lemma parse_trust_tier_value [simp]: "parse_trust_tier (PStr (trust_tier_value t)) = Inr t"
  by (cases t) (simp_all add: parse_trust_tier_def member_of_def trust_tier_members_def)

lemma TrustTier_of_value: "TrustTier_of s = Inr t \<longleftrightarrow> s = trust_tier_value t"
  by (cases t) (auto simp: TrustTier_of_def trust_tier_members_def split: option.splits)

lemma res_map_Inl: "res_map f xs = Inl e \<Longrightarrow> \<exists>x \<in> set xs. f x = Inl e"
  by (induction xs) (auto simp: res_bind_eq_Inl)

lemma res_map_preimage: "res_map f xs = Inr ys \<Longrightarrow> y \<in> set ys \<Longrightarrow> \<exists>x \<in> set xs. f x = Inr y"
  by (induction xs arbitrary: ys) (auto simp: res_bind_eq_Inr)

lemma load_errors:
  "parse_str_sequence v = Inl e \<Longrightarrow> e = GatePolicyLoadError"
  "parse_tier_overrides v = Inl e \<Longrightarrow> e = GatePolicyLoadError"
proof -
  have s: "str_item x = Inl e \<Longrightarrow> e = GatePolicyLoadError" for x by (cases x) auto
  then show "parse_str_sequence v = Inl e \<Longrightarrow> e = GatePolicyLoadError"
    by (cases v) (auto dest: res_map_Inl)
  have "tier_override x = Inl e \<Longrightarrow> e = GatePolicyLoadError" for x
    by (cases x) (auto simp: parse_trust_tier_def parse_severity_def res_bind_eq_Inl
        dest: member_of_cases split: option.splits)
  then show "parse_tier_overrides v = Inl e \<Longrightarrow> e = GatePolicyLoadError"
    by (cases v) (auto dest: res_map_Inl)
qed

lemma py_float_errors: "is_number v \<Longrightarrow> py_float v = Inl e \<Longrightarrow> e = OverflowError"
  by (cases v) (auto simp: py_float_def split: if_splits)

lemma as_load_error_Inr [simp]: "as_load_error r = Inr x \<longleftrightarrow> r = Inr x"
  by (auto simp: as_load_error_def split: sum.splits py_error.splits)

lemma as_load_error_Inl: "as_load_error r = Inl e \<Longrightarrow> e = GatePolicyLoadError \<or> r = Inl e \<and> e \<noteq> ValueError"
  by (auto simp: as_load_error_def split: sum.splits py_error.splits)

lemma category_weights_post_init_float_errors:
  assumes "category_weights_post_init (PFloat a) (PFloat b) (PFloat c) (PFloat d) (PFloat e) (PFloat f)
      (PFloat g) (PFloat h) = Inl err"
  shows "err = ValueError"
proof -
  have "check_weight (PFloat x) = Inl err \<Longrightarrow> err = ValueError" for x
    by (auto simp: check_weight_def py_float_def res_bind_eq_Inl)
  then show ?thesis using assms unfolding category_weights_post_init_def res_bind_eq_Inl by blast
qed

lemma weight_kwarg_Inr:
  "weight_kwarg kv = Inr (k, x) \<Longrightarrow> \<exists>y. x = PFloat y \<and> k \<in> set weight_fields \<and>
     fst kv = PStr k \<and> py_float (snd kv) = Inr y \<and> \<not> is_bool (snd kv)"
  by (auto simp: weight_kwarg_def res_bind_eq_Inr split: prod.splits pyval.splits if_splits)

lemma weight_arg_float:
  assumes "res_map weight_kwarg items = Inr kwargs"
  shows "\<exists>x. weight_arg kwargs name = PFloat x"
proof (cases "map_of kwargs name")
  case None
  then show ?thesis by (simp add: weight_arg_def)
next
  case (Some v)
  then have "(name, v) \<in> set kwargs" by (rule map_of_SomeD)
  then obtain kv where "weight_kwarg kv = Inr (name, v)" using res_map_preimage [OF assms] by blast
  then obtain x where "v = PFloat x" using weight_kwarg_Inr [of kv name v] by auto
  then show ?thesis using Some by (simp add: weight_arg_def)
qed

lemma parse_category_weights_errors:
  "parse_category_weights v = Inl e \<Longrightarrow> e \<in> {GatePolicyLoadError, OverflowError}"
proof (cases v)
  case (PDict items)
  assume err: "parse_category_weights v = Inl e"
  show ?thesis
  proof (cases "res_map weight_kwarg items")
    case (Inl e')
    then have "e' \<in> {GatePolicyLoadError, OverflowError}"
      using py_float_errors by (auto dest!: res_map_Inl simp: weight_kwarg_def res_bind_eq_Inl
          split: prod.splits pyval.splits if_splits)
    then show ?thesis using err Inl PDict by simp
  next
    case (Inr kwargs)
    obtain f where f: "\<And>n. weight_arg kwargs n = PFloat (f n)" using weight_arg_float [OF Inr] by metis
    have "as_load_error (category_weights_post_init (PFloat (f ''instruction'')) (PFloat (f ''code''))
        (PFloat (f ''data_credential'')) (PFloat (f ''network_intel'')) (PFloat (f ''permission''))
        (PFloat (f ''file_package'')) (PFloat (f ''supply_chain'')) (PFloat (f ''bundled_component''))) = Inl e"
      using err Inr PDict by (simp add: f)
    then show ?thesis
      using as_load_error_Inl category_weights_post_init_float_errors by blast
  qed
qed auto

lemma gate_policy_post_init_errors:
  "gate_policy_post_init ver req hard rconf blk rvw tiers almax fcv w = Inl e \<Longrightarrow> e = ValueError"
  by (auto simp: gate_policy_post_init_def res_bind_eq_Inl)

lemma parse_category_weights_valid: "parse_category_weights v = Inr w \<Longrightarrow> valid_weights w"
  by (cases v) (auto simp: res_bind_eq_Inr dest: category_weights_post_init_valid)

text \<open>The document a policy is written as, with its sets in some order.\<close>

definition render_policy :: "iteration \<Rightarrow> gate_policy \<Rightarrow> (pyval \<times> pyval) list" where
  "render_policy it p = [
     (PStr ''version'', PStr (gp_version p)),
     (PStr ''required_engines'', PList (map PStr (it (gp_required_engines p)))),
     (PStr ''hard_gate_rules'', PList (map PStr (it (gp_hard_gate_rules p)))),
     (PStr ''review_confidence'', PFloat (Fin (gp_review_confidence p))),
     (PStr ''block_on_severity'', PStr (severity_name (gp_block_on_severity p))),
     (PStr ''review_on_severity'', PStr (severity_name (gp_review_on_severity p))),
     (PStr ''tier_block_overrides'', PList (map (\<lambda>(t, s).
        PDict [(PStr ''tier'', PStr (trust_tier_value t)), (PStr ''severity'', PStr (severity_name s))])
        (gp_tier_block_overrides p))),
     (PStr ''allowlistable_max_severity'', PStr (severity_name (gp_allowlistable_max_severity p))),
     (PStr ''fail_closed_verdict'', PStr (verdict_name (gp_fail_closed_verdict p))),
     (PStr ''category_weights'', PDict (map (\<lambda>(n, v). (PStr n, PFloat (Fin v)))
        (weight_items (gp_category_weights p))))]"

lemma check_weight_float:
  "0 \<le> x \<Longrightarrow> x \<le> MAX_CATEGORY_WEIGHT \<Longrightarrow> check_weight (PFloat (Fin x)) = Inr x"
  by (simp add: check_weight_def py_float_def pfloat_between_def pfloat_real_def)

lemma parse_rendered_weights:
  assumes "valid_weights w"
  shows "parse_category_weights (PDict (map (\<lambda>(n, v). (PStr n, PFloat (Fin v))) (weight_items w))) = Inr w"
proof -
  have r: "0 \<le> for_category w c \<and> for_category w c \<le> MAX_CATEGORY_WEIGHT" for c
    using assms by (simp add: valid_weights_def)
  have "res_map weight_kwarg (map (\<lambda>(n, v). (PStr n, PFloat (Fin v))) (weight_items w)) =
      Inr (map (\<lambda>(n, v). (n, PFloat (Fin v))) (weight_items w))"
    by (simp add: weight_items_def weight_kwarg_def weight_fields_def py_float_def)
  then show ?thesis
    using r [of INSTRUCTION] r [of CODE] r [of DATA_CREDENTIAL] r [of NETWORK_INTEL] r [of PERMISSION]
      r [of FILE_PACKAGE] r [of SUPPLY_CHAIN] r [of BUNDLED_COMPONENT]
    by (simp add: weight_arg_def weight_items_def category_weights_post_init_def check_weight_float)
qed

lemma parse_rendered_tiers:
  "parse_tier_overrides (PList (map (\<lambda>(t, s). PDict [(PStr ''tier'', PStr (trust_tier_value t)),
     (PStr ''severity'', PStr (severity_name s))]) ts)) = Inr ts"
  by (induction ts) auto

lemma parse_rendered_strings: "parse_str_sequence (PList (map PStr xs)) = Inr xs"
  by (simp add: res_map_map)

lemma loaded_policy:
  assumes "load_gate_policy y = Inr p"
  shows "valid_policy p \<and> valid_weights (gp_category_weights p) \<and> finite (gp_required_engines p) \<and> finite (gp_hard_gate_rules p)"
proof -
  from assms obtain raw where raw: "parse_gate_policy raw = Inr p"
    by (auto simp: load_gate_policy_def split: yaml_read.splits pyval.splits)
  then obtain w r h x b v t a f where w: "parse_category_weights (dict_get raw ''category_weights'') = Inr w"
    and init: "gate_policy_post_init (the_str (map_of raw (PStr ''version''))) (set r) (set h) x b v t a f w = Inr p"
    unfolding parse_gate_policy_def res_bind_eq_Inr as_load_error_Inr by blast
  have valid: "valid_policy p" using init by (rule gate_policy_post_init_valid)
  moreover have "gp_category_weights p = w" "gp_required_engines p = set r" "gp_hard_gate_rules p = set h"
    using init by (auto simp: gate_policy_post_init_def res_bind_eq_Inr)
  ultimately show ?thesis using parse_category_weights_valid [OF w] by simp
qed

section \<open>Properties\<close>

text \<open>Note: The loader fails closed. Loading either raises (\<open>GatePolicyLoadError\<close>, or
  \<open>OverflowError\<close> from \<open>float\<close> on an enormous integer) or yields a policy that satisfies every
  constructor invariant: a non-empty version, thresholds of at least \<open>LOW\<close>, a fail-closed verdict
  other than \<open>PASS\<close>, tier overrides that only tighten, weights within range, finite rule sets.\<close>

theorem load_gate_policy_fails_closed:
  "(case load_gate_policy y of
      Inl e \<Rightarrow> e \<in> {GatePolicyLoadError, OverflowError}
    | Inr p \<Rightarrow> valid_policy p \<and> valid_weights (gp_category_weights p) \<and>
        finite (gp_required_engines p) \<and> finite (gp_hard_gate_rules p) \<and>
        (\<forall>t. block_threshold p t \<le> gp_block_on_severity p))"
proof (cases "load_gate_policy y")
  case (Inl e)
  show ?thesis
  proof (cases "\<exists>raw. y = Parsed (PDict raw)")
    case True
    then obtain raw where "parse_gate_policy raw = Inl e" using Inl by (auto simp: load_gate_policy_def)
    then have "e \<in> {GatePolicyLoadError, OverflowError}"
      by (auto simp: parse_gate_policy_def res_bind_eq_Inl optional_field_def parse_confidence_def
          parse_severity_def parse_verdict_def split: option.splits if_splits
          dest!: as_load_error_Inl gate_policy_post_init_errors parse_category_weights_errors
          dest: load_errors py_float_errors member_of_cases)
    then show ?thesis using Inl by simp
  next
    case False
    then show ?thesis using Inl by (auto simp: load_gate_policy_def split: yaml_read.splits pyval.splits)
  qed
next
  case (Inr p)
  then show ?thesis using loaded_policy [OF Inr] block_threshold_le_base by simp
qed

lemma render_policy_loads:
  assumes "valid_policy p" "valid_weights (gp_category_weights p)" "enumerates it"
    "finite (gp_required_engines p)" "finite (gp_hard_gate_rules p)"
  shows "load_gate_policy (Parsed (PDict (render_policy it p))) = Inr p"
proof -
  have sets: "set (it (gp_required_engines p)) = gp_required_engines p"
    "set (it (gp_hard_gate_rules p)) = gp_hard_gate_rules p"
    using assms(3-5) by (simp_all add: enumerates_def)
  have init: "gate_policy_post_init (gp_version p) (gp_required_engines p) (gp_hard_gate_rules p)
      (Fin (gp_review_confidence p)) (gp_block_on_severity p) (gp_review_on_severity p)
      (gp_tier_block_overrides p) (gp_allowlistable_max_severity p) (gp_fail_closed_verdict p)
      (gp_category_weights p) = Inr p"
    using assms(1) by (auto simp: gate_policy_post_init_def valid_policy_def pfloat_between_def
        pfloat_real_def list_ex_iff list_all_iff not_less raise_if_def)
  have "gp_version p \<noteq> []" using assms(1) by (simp add: valid_policy_def)
  then show ?thesis
    using init sets parse_rendered_weights [OF assms(2)]
    by (simp add: load_gate_policy_def parse_gate_policy_def render_policy_def dict_get_def
        optional_field_def the_str_def parse_rendered_strings parse_rendered_tiers parse_confidence_def
        py_float_def as_load_error_def del: parse_str_sequence.simps parse_tier_overrides.simps
        parse_category_weights.simps)
qed

text \<open>Note: Every policy can be written down: for a valid policy with valid weights and finite sets,
  loading the document that lists all of its fields gives the policy back.\<close>

theorem parse_render_roundtrip:
  assumes "valid_policy p" "valid_weights (gp_category_weights p)" "enumerates it"
    "finite (gp_required_engines p)" "finite (gp_hard_gate_rules p)"
  shows "load_gate_policy (Parsed (PDict (render_policy it p))) = Inr p"
  using assms by (rule render_policy_loads)

text \<open>The severities that a tier blocks, at a given confidence.\<close>

definition blocked :: "gate_policy \<Rightarrow> trust_tier \<Rightarrow> real \<Rightarrow> severity set" where
  "blocked p t c = {s. classify s c p t = BLOCK}"

lemma blocked_eq: "blocked p t c = {block_threshold p t..}"
  by (auto simp: blocked_def classify_BLOCK_iff)

lemma blocked_psubset: "blocked p t c \<subset> blocked p u c \<longleftrightarrow> block_threshold p u < block_threshold p t"
  unfolding blocked_eq psubset_eq by (auto simp: less_le)

text \<open>Note: The reported direction of a tier divergence is what the gate does: for two different
  tiers it is \<open>looser\<close> exactly when the severities blocked under the tier that judged are a proper
  subset of those blocked under the requested tier, \<open>stricter\<close> exactly in the converse case, and
  \<open>equivalent\<close> otherwise; an unknown or missing tier gives no direction.\<close>

theorem tier_direction_semantics:
  "tier_direction p rq jd =
     (case (rq, jd) of
        (Some r, Some j) \<Rightarrow>
          (case (map_of trust_tier_members r, map_of trust_tier_members j) of
             (Some rt, Some jt) \<Rightarrow>
               if rt = jt then None
               else Some (if blocked p jt c \<subset> blocked p rt c then Looser
                          else if blocked p rt c \<subset> blocked p jt c then Stricter else Equivalent)
           | _ \<Rightarrow> None)
      | _ \<Rightarrow> None)"
proof (cases rq; cases jd)
  fix r j
  assume [simp]: "rq = Some r" "jd = Some j"
  have inj: "rt = jt \<Longrightarrow> r = j" if "map_of trust_tier_members r = Some rt" "map_of trust_tier_members j = Some jt"
    for rt jt
    using that TrustTier_of_value [of r rt] TrustTier_of_value [of j jt] by (simp add: TrustTier_of_def)
  show ?thesis
    using inj by (auto simp: tier_direction_def TrustTier_of_def blocked_psubset Let_def split: option.splits)
qed (simp_all add: tier_direction_def)

text \<open>A document whose \<open>required_engines\<close> key has no value and whose \<open>review_confidence\<close> is a
  boolean.\<close>

definition blank_engines_document :: "(pyval \<times> pyval) list" where
  "blank_engines_document = [(PStr ''version'', PStr ''v1''), (PStr ''required_engines'', PNone),
     (PStr ''review_confidence'', PBool False)]"

text \<open>Note: Two wrong-typed documents are accepted. A blank \<open>required_engines\<close> loads as the empty
  set, and \<open>review_confidence: false\<close> as 0, so a scan in which no engine ran at all is decided
  \<open>PASS\<close>; yet a document without the \<open>required_engines\<close> key is refused.\<close>

theorem blank_required_engines_fail_open:
  "\<exists>p sr. load_gate_policy (Parsed (PDict blank_engines_document)) = Inr p \<and>
     gp_required_engines p = {} \<and> gp_review_confidence p = 0 \<and>
     aggregate ''h'' [] p 0 1000 = Inr sr \<and> vr_verdict (decide sr p PUBLIC [] 0 0 None) = PASS \<and>
     load_gate_policy (Parsed (PDict (filter (\<lambda>kv. fst kv \<noteq> PStr ''required_engines'')
       blank_engines_document))) = Inl GatePolicyLoadError"
proof -
  obtain p where p: "load_gate_policy (Parsed (PDict blank_engines_document)) = Inr p"
    "gp_required_engines p = {}" "gp_review_confidence p = 0" "gp_block_on_severity p = CRITICAL"
    "gp_review_on_severity p = HIGH" "gp_tier_block_overrides p = []" "gp_hard_gate_rules p = {}"
    by (simp add: load_gate_policy_def parse_gate_policy_def blank_engines_document_def dict_get_def
        optional_field_def parse_confidence_def py_float_def as_load_error_def the_str_def
        gate_policy_post_init_def pfloat_between_def pfloat_real_def severity_order)
  obtain sr where sr: "aggregate ''h'' [] p 0 1000 = Inr sr"
    using survivors_subset [of "[]"]
    by (cases "aggregate ''h'' [] p 0 1000") (auto simp: aggregate_Inl dedup_eq all_findings_def safe_results_def)
  then have "sr_required_ok sr" "sr_findings sr = []" "sr_severity sr = NONE" "\<not> sr_trifecta_present sr"
      "\<not> sr_findings_capped sr" "set (sr_hard_gate_hits sr) = {}"
    using p survivors_subset [of "[]"]
    by (auto elim!: aggregate_InrE simp: all_findings_def safe_results_def evaluate_findings_def
        counted_findings_def collect_signals_def ALL_TRIFECTA_SIGNALS_def)
  then have "vr_verdict (decide sr p PUBLIC [] 0 0 None) = PASS"
    using p by (simp add: sample_eval)
  then show ?thesis using p sr
    by (simp add: load_gate_policy_def parse_gate_policy_def blank_engines_document_def)
qed

section \<open>Witnesses\<close>

theorem parse_render_roundtrip_witness:
  "load_gate_policy (Parsed (PDict (render_policy sorted_list_of_set sample_policy))) = Inr sample_policy"
  by (rule parse_render_roundtrip)
     (simp_all add: sample_policy_valid enumerates_sorted, simp_all add: sample_policy_def)

end
