(* ===== verification/Inventory_Lifecycle.thy ===== *)
theory Inventory_Lifecycle
  imports Skill_Prelude
begin

text \<open>
  The skill lifecycle and the ownership rules (\<open>inventory/lifecycle.py\<close>,
  \<open>inventory/ownership.py\<close>). States are the strings the code stores, so that the rejection of
  unknown states is part of the model. Two locales state what a log of validated transitions
  guarantees of any state machine; they are interpreted on the lifecycle's own transition check.
\<close>

section \<open>Logs of validated transitions\<close>

locale event_log =
  fixes src :: "'e \<Rightarrow> 's option"
    and dst :: "'e \<Rightarrow> 's"
    and legal :: "'s option \<Rightarrow> 's \<Rightarrow> bool"
    and start :: 's
  assumes legal_genesis: "legal None t \<Longrightarrow> t = start"
begin

text \<open>Each event starts where the previous one ended, and the step is legal.\<close>

primrec linked :: "'s option \<Rightarrow> 'e list \<Rightarrow> bool" where
  "linked s [] = True"
| "linked s (e # es) = (src e = s \<and> legal s (dst e) \<and> linked (Some (dst e)) es)"

definition position :: "'s option \<Rightarrow> 'e list \<Rightarrow> 's option" where
  "position s es = (if es = [] then s else Some (dst (last es)))"

lemma linked_snoc:
  "linked s (es @ [e]) \<longleftrightarrow> linked s es \<and> src e = position s es \<and> legal (position s es) (dst e)"
  by (induction es arbitrary: s) (auto simp: position_def)

lemma linked_nth:
  "linked s es \<Longrightarrow> k < length es \<Longrightarrow>
     src (es ! k) = (if k = 0 then s else Some (dst (es ! (k - 1)))) \<and> legal (src (es ! k)) (dst (es ! k))"
proof (induction es arbitrary: s k)
  case Nil
  then show ?case by simp
next
  case (Cons e es)
  then show ?case
  proof (cases k)
    case (Suc j)
    then show ?thesis using Cons by (cases j) auto
  qed simp
qed

lemma linked_genesis: "linked None (e # es) \<Longrightarrow> src e = None \<and> dst e = start"
  by (auto dest: legal_genesis)

text \<open>A region of states is left by an explicit, legal step out of it.\<close>

lemma leaves_region:
  assumes "linked s es" "i < j" "j < length es" "dst (es ! i) \<in> R" "dst (es ! j) \<notin> R"
  shows "\<exists>k r. i < k \<and> k \<le> j \<and> r \<in> R \<and> src (es ! k) = Some r \<and> legal (Some r) (dst (es ! k)) \<and>
    dst (es ! k) \<notin> R"
proof -
  define k where "k = (LEAST k. i < k \<and> dst (es ! k) \<notin> R)"
  have k: "i < k" "dst (es ! k) \<notin> R"
    using LeastI [of "\<lambda>k. i < k \<and> dst (es ! k) \<notin> R" j] assms by (auto simp: k_def)
  have kj: "k \<le> j" using Least_le [of "\<lambda>k. i < k \<and> dst (es ! k) \<notin> R" j] assms by (auto simp: k_def)
  have "dst (es ! (k - 1)) \<in> R"
  proof (cases "k - 1 = i")
    case True
    then show ?thesis using assms(4) by simp
  next
    case False
    then have "i < k - 1" "k - 1 < k" using k(1) by auto
    then show ?thesis using not_less_Least [of "k - 1" "\<lambda>k. i < k \<and> dst (es ! k) \<notin> R"] by (auto simp: k_def)
  qed
  moreover have "src (es ! k) = Some (dst (es ! (k - 1)))" "legal (src (es ! k)) (dst (es ! k))"
    using linked_nth [OF assms(1), of k] k(1) kj assms(3) by auto
  ultimately show ?thesis using k kj by metis
qed

end

locale event_log_final = event_log src dst legal start
  for src :: "'e \<Rightarrow> 's option" and dst :: "'e \<Rightarrow> 's" and legal :: "'s option \<Rightarrow> 's \<Rightarrow> bool" and start :: 's +
  fixes final :: 's
  assumes final_stuck: "\<not> legal (Some final) t"
begin

lemma final_is_last:
  assumes "linked s es" "k < length es" "dst (es ! k) = final"
  shows "Suc k = length es"
proof (rule ccontr)
  assume "Suc k \<noteq> length es"
  then have "Suc k < length es" using assms(2) by simp
  then show False using linked_nth [OF assms(1), of "Suc k"] assms(3) final_stuck by auto
qed

end

section \<open>The transition table\<close>

definition VALID_TRANSITIONS :: "(string \<times> string list) list" where
  "VALID_TRANSITIONS = [
     (''submitted'', [''scanning'']),
     (''scanning'', [''published'', ''review_pending'', ''retired'', ''blocked'']),
     (''review_pending'', [''published'', ''retired'', ''submitted'']),
     (''published'', [''quarantined'', ''retired'', ''submitted'']),
     (''quarantined'', [''published'', ''retired'']),
     (''blocked'', [''scanning'', ''retired'', ''submitted'']),
     (''retired'', [])]"

definition ALL_STATES :: "string list" where
  "ALL_STATES = map fst VALID_TRANSITIONS"

definition REVIEW_ACTIONABLE_STATE :: string where
  "REVIEW_ACTIONABLE_STATE = ''review_pending''"

record lifecycle_position =
  lp_skill_id :: string
  lp_state :: string
  lp_content_hash :: "string option"

definition pending_review_is_superseded :: "lifecycle_position option \<Rightarrow> string \<Rightarrow> bool" where
  "pending_review_is_superseded position review_content_hash =
     (case position of
        None \<Rightarrow> False
      | Some p \<Rightarrow> \<not> (lp_state p = REVIEW_ACTIONABLE_STATE \<and>
                     lp_content_hash p = Some review_content_hash))"

definition validate_transition :: "string option \<Rightarrow> string \<Rightarrow> unit res" where
  "validate_transition from_state to_state =
     (if to_state \<notin> set ALL_STATES then Inl InvalidTransitionError
      else case from_state of
        None \<Rightarrow> if to_state \<noteq> ''submitted'' then Inl InvalidTransitionError else Inr ()
      | Some f \<Rightarrow>
          (case map_of VALID_TRANSITIONS f of
             None \<Rightarrow> Inl InvalidTransitionError
           | Some targets \<Rightarrow>
               if to_state \<notin> set targets then Inl InvalidTransitionError else Inr ()))"

definition legal_transition :: "string option \<Rightarrow> string \<Rightarrow> bool" where
  "legal_transition f t \<longleftrightarrow> validate_transition f t = Inr ()"

section \<open>Ownership\<close>

definition MAX_OWNER_LENGTH :: nat where
  "MAX_OWNER_LENGTH = 255"

definition authorize_skill_write :: "string option \<Rightarrow> string \<Rightarrow> bool \<Rightarrow> unit res" where
  "authorize_skill_write recorded_owner actor actor_is_admin =
     (if actor_is_admin then Inr ()
      else case recorded_owner of
        None \<Rightarrow> Inl SkillOwnershipError
      | Some ow \<Rightarrow> if ow \<noteq> actor then Inl SkillOwnershipError else Inr ())"

definition authorize_skill_read :: "string option \<Rightarrow> string \<Rightarrow> unit res" where
  "authorize_skill_read recorded_owner actor =
     (case recorded_owner of
        None \<Rightarrow> Inl SkillOwnershipError
      | Some ow \<Rightarrow> if ow \<noteq> actor then Inl SkillOwnershipError else Inr ())"

definition normalize_owner :: "string \<Rightarrow> string res" where
  "normalize_owner new_owner =
     (let normalized = py_strip new_owner
      in if normalized = [] then Inl InvalidOwnerError
         else if length normalized > MAX_OWNER_LENGTH then Inl InvalidOwnerError
         else Inr normalized)"

definition validate_owner_assignment :: "string option \<Rightarrow> string \<Rightarrow> bool \<Rightarrow> string res" where
  "validate_owner_assignment recorded_owner new_owner expect_unowned =
     res_bind (normalize_owner new_owner) (\<lambda>normalized.
     res_bind (raise_if (expect_unowned \<and> recorded_owner \<noteq> None) OwnerAssignmentConflictError) (\<lambda>_.
     Inr normalized))"

section \<open>Facts\<close>

lemma legal_genesis_submitted: "legal_transition None t \<Longrightarrow> t = ''submitted''"
  by (auto simp: legal_transition_def validate_transition_def split: if_splits)

lemma legal_Some:
  "legal_transition (Some f) t \<longleftrightarrow> (\<exists>ts. map_of VALID_TRANSITIONS f = Some ts \<and> t \<in> set ts)"
proof -
  have "\<forall>(k, ts) \<in> set VALID_TRANSITIONS. set ts \<subseteq> set ALL_STATES"
    by (simp add: VALID_TRANSITIONS_def ALL_STATES_def)
  then have "t \<in> set ALL_STATES" if "map_of VALID_TRANSITIONS f = Some ts" "t \<in> set ts" for ts
    using that by (fastforce dest: map_of_SomeD)
  then show ?thesis
    by (auto simp: legal_transition_def validate_transition_def split: option.splits if_splits)
qed

lemma retired_final: "\<not> legal_transition (Some ''retired'') t"
  by (simp add: legal_Some VALID_TRANSITIONS_def)

lemma quarantined_exits: "legal_transition (Some ''quarantined'') t \<Longrightarrow> t \<in> {''published'', ''retired''}"
  by (auto simp: legal_Some VALID_TRANSITIONS_def)

lemma published_sources:
  "legal_transition (Some f) ''published'' \<Longrightarrow> f \<in> {''scanning'', ''review_pending'', ''quarantined''}"
  by (auto simp: legal_Some VALID_TRANSITIONS_def split: if_splits)

lemma scanning_sources: "legal_transition (Some f) ''scanning'' \<Longrightarrow> f \<in> {''submitted'', ''blocked''}"
  by (auto simp: legal_Some VALID_TRANSITIONS_def split: if_splits)

lemma validate_transition_Inl: "validate_transition f t = Inl e \<Longrightarrow> e = InvalidTransitionError"
  by (auto simp: validate_transition_def split: option.splits if_splits)

lemma normalize_owner_Inr:
  "normalize_owner s = Inr t \<Longrightarrow> t \<noteq> [] \<and> length t \<le> MAX_OWNER_LENGTH \<and> t = py_strip s"
  by (auto simp: normalize_owner_def Let_def split: if_splits)

end
