(* ===== verification/Inventory_Service.thy ===== *)
theory Inventory_Service
  imports Inventory_Lifecycle Core_Models "HOL-Library.Product_Lexorder"
begin

text \<open>
  The inventory service (\<open>inventory/service.py\<close>) over its tables (\<open>inventory/models.py\<close>). The
  database is a record of tables; a table with a primary key is an association list, an
  autoincrement table a list in id order. Every writer runs inside the caller's transaction, so an
  exception leaves the database unchanged: a writer returns either the exception or the new
  database. The wall clock is the argument \<open>now\<close>.
\<close>

section \<open>Tables\<close>

record skill_row =
  sk_source :: string
  sk_trust_tier :: string
  sk_scope :: "string option"
  sk_owner :: "string option"
  sk_created_at :: real

record version_row =
  sv_skill_id :: string
  sv_toolchain_digest :: string
  sv_declared_perms :: pyval
  sv_created_at :: real

record baseline_row =
  bl_content_hash :: string
  bl_approved_at :: real

record event_row =
  ev_skill_id :: string
  ev_content_hash :: "string option"
  ev_scan_id :: "string option"
  ev_from_state :: "string option"
  ev_to_state :: string
  ev_reason :: string
  ev_actor :: string
  ev_occurred_at :: real

record intent_row =
  ai_operator :: string
  ai_action :: string
  ai_payload :: "(string \<times> pyval) list"

record inventory_db =
  db_skills :: "(string \<times> skill_row) list"
  db_versions :: "(string \<times> version_row) list"
  db_baselines :: "(string \<times> baseline_row) list"
  db_events :: "event_row list"
  db_intents :: "intent_row list"

definition empty_inventory :: inventory_db where
  "empty_inventory = \<lparr>db_skills = [], db_versions = [], db_baselines = [], db_events = [], db_intents = []\<rparr>"

definition opt_str :: "string option \<Rightarrow> pyval" where
  "opt_str v = (case v of None \<Rightarrow> PNone | Some s \<Rightarrow> PStr s)"

section \<open>Reads\<close>

definition get_registered_skill :: "inventory_db \<Rightarrow> string \<Rightarrow> (string option \<times> string) option" where
  "get_registered_skill db skill_id =
     map_option (\<lambda>r. (sk_owner r, sk_trust_tier r)) (map_of (db_skills db) skill_id)"

definition count_unowned_skills :: "inventory_db \<Rightarrow> nat" where
  "count_unowned_skills db = length (filter (\<lambda>(k, r). sk_owner r = None) (db_skills db))"

definition genesis_actors :: "inventory_db \<Rightarrow> string list \<Rightarrow> (string \<times> string) list" where
  "genesis_actors db skill_ids =
     fold (\<lambda>e. dict_setdefault (ev_skill_id e) (ev_actor e))
       (filter (\<lambda>e. ev_skill_id e \<in> set skill_ids \<and> ev_from_state e = None) (db_events db)) []"

definition identity_appears_in_inventory :: "inventory_db \<Rightarrow> string \<Rightarrow> bool" where
  "identity_appears_in_inventory db who =
     (if list_ex (\<lambda>e. ev_actor e = who) (db_events db) then True
      else list_ex (\<lambda>(k, r). sk_owner r = Some who) (db_skills db))"

definition current_state :: "inventory_db \<Rightarrow> string \<Rightarrow> string option" where
  "current_state db skill_id =
     map_option ev_to_state (List.find (\<lambda>e. ev_skill_id e = skill_id) (rev (db_events db)))"

definition latest_lifecycle_positions ::
  "inventory_db \<Rightarrow> string list \<Rightarrow> (string \<times> lifecycle_position) list" where
  "latest_lifecycle_positions db skill_ids =
     fold (\<lambda>e. dict_setdefault (ev_skill_id e)
         \<lparr>lp_skill_id = ev_skill_id e, lp_state = ev_to_state e, lp_content_hash = ev_content_hash e\<rparr>)
       (filter (\<lambda>e. ev_skill_id e \<in> set skill_ids) (rev (db_events db))) []"

record unowned_skill =
  us_skill_id :: string
  us_source :: string
  us_trust_tier :: string
  us_state :: "string option"
  us_genesis_actor :: "string option"
  us_created_at :: real

definition list_unowned_skills :: "inventory_db \<Rightarrow> nat \<Rightarrow> nat \<Rightarrow> unowned_skill list" where
  "list_unowned_skills db limit offset =
     (let rows = take limit (drop offset
            (sort_key (\<lambda>(k, r). (sk_created_at r, k))
              (filter (\<lambda>(k, r). sk_owner r = None) (db_skills db))));
          skill_ids = map fst rows;
          positions = latest_lifecycle_positions db skill_ids;
          actors = genesis_actors db skill_ids
      in map (\<lambda>(k, r). \<lparr>us_skill_id = k, us_source = sk_source r, us_trust_tier = sk_trust_tier r,
                us_state = map_option lp_state (map_of positions k),
                us_genesis_actor = map_of actors k, us_created_at = sk_created_at r\<rparr>) rows)"

definition skill_id_for_content :: "inventory_db \<Rightarrow> string \<Rightarrow> string option" where
  "skill_id_for_content db content_hash = map_option sv_skill_id (map_of (db_versions db) content_hash)"

definition latest_skill_version_hashes :: "inventory_db \<Rightarrow> string \<Rightarrow> string list" where
  "latest_skill_version_hashes db skill_id =
     (let mine = filter (\<lambda>(ch, v). sv_skill_id v = skill_id) (db_versions db);
          newest = py_max 0 (map (\<lambda>(ch, v). sv_created_at v) mine)
      in sort (map fst (filter (\<lambda>(ch, v). sv_created_at v = newest) mine)))"

definition lifecycle_position_for_content :: "inventory_db \<Rightarrow> string \<Rightarrow> lifecycle_position option" where
  "lifecycle_position_for_content db content_hash =
     (case skill_id_for_content db content_hash of
        None \<Rightarrow> None
      | Some skill_id \<Rightarrow> map_of (latest_lifecycle_positions db [skill_id]) skill_id)"

section \<open>Writes\<close>

definition assign_skill_owner ::
  "inventory_db \<Rightarrow> string \<Rightarrow> string \<Rightarrow> string \<Rightarrow> string \<Rightarrow> bool \<Rightarrow> (string option \<times> inventory_db) res" where
  "assign_skill_owner db skill_id new_owner reason actor expect_unowned =
     (case map_of (db_skills db) skill_id of
        None \<Rightarrow> Inl ValueError
      | Some skill \<Rightarrow>
          res_bind (validate_owner_assignment (sk_owner skill) new_owner expect_unowned) (\<lambda>normalized.
          Inr (sk_owner skill,
            db\<lparr>db_skills := dict_put skill_id (skill\<lparr>sk_owner := Some normalized\<rparr>) (db_skills db),
               db_intents := db_intents db @ [\<lparr>ai_operator = actor, ai_action = ''skill_owner_assigned'',
                 ai_payload = [(''skill_id'', PStr skill_id), (''previous_owner'', opt_str (sk_owner skill)),
                   (''new_owner'', PStr normalized), (''reason'', PStr reason)]\<rparr>]\<rparr>)))"

text \<open>The audit payload of a transition.\<close>

definition transition_payload :: "event_row \<Rightarrow> (string \<times> pyval) list" where
  "transition_payload e = [(''skill_id'', PStr (ev_skill_id e)), (''content_hash'', opt_str (ev_content_hash e)),
     (''scan_id'', opt_str (ev_scan_id e)), (''from_state'', opt_str (ev_from_state e)),
     (''to_state'', PStr (ev_to_state e)), (''reason'', PStr (ev_reason e))]"

definition record_transition :: "inventory_db \<Rightarrow> event_row \<Rightarrow> inventory_db res" where
  "record_transition db e =
     res_bind (validate_transition (ev_from_state e) (ev_to_state e)) (\<lambda>_.
     Inr (db\<lparr>db_events := db_events db @ [e],
             db_intents := db_intents db @ [\<lparr>ai_operator = ev_actor e,
               ai_action = ''skill_lifecycle_transition'', ai_payload = transition_payload e\<rparr>]\<rparr>))"

definition register_skill_version ::
  "inventory_db \<Rightarrow> real \<Rightarrow> string \<Rightarrow> string \<Rightarrow> string \<Rightarrow> string \<Rightarrow> string \<Rightarrow> pyval \<Rightarrow> string \<Rightarrow> bool \<Rightarrow>
   string option \<Rightarrow> inventory_db res" where
  "register_skill_version db now skill_id source trust_tier content_hash toolchain_digest
       declared_perms operator actor_is_admin scope =
     res_bind
       (case map_of (db_skills db) skill_id of
          None \<Rightarrow> Inr (db\<lparr>db_skills := db_skills db @ [(skill_id, \<lparr>sk_source = source,
                 sk_trust_tier = trust_tier, sk_scope = scope, sk_owner = Some operator,
                 sk_created_at = now\<rparr>)]\<rparr>)
        | Some existing \<Rightarrow>
            res_bind (authorize_skill_write (sk_owner existing) operator actor_is_admin) (\<lambda>_. Inr db)) (\<lambda>db1.
     let existing_version = map_of (db_versions db1) content_hash in
     res_bind (raise_if (case existing_version of None \<Rightarrow> False | Some v \<Rightarrow> sv_skill_id v \<noteq> skill_id)
                ContentRegisteredToAnotherSkillError) (\<lambda>_.
     let db2 = (if existing_version = None
                then db1\<lparr>db_versions := db_versions db1 @ [(content_hash, \<lparr>sv_skill_id = skill_id,
                       sv_toolchain_digest = toolchain_digest, sv_declared_perms = declared_perms,
                       sv_created_at = now\<rparr>)]\<rparr>
                else db1);
         prior_state = current_state db2 skill_id;
         reason = (if prior_state = None then ''new submission''
                   else if existing_version \<noteq> None then ''resubmission of existing content''
                   else ''new content for existing skill'')
     in record_transition db2 \<lparr>ev_skill_id = skill_id, ev_content_hash = Some content_hash,
          ev_scan_id = None, ev_from_state = prior_state, ev_to_state = ''submitted'',
          ev_reason = reason, ev_actor = operator, ev_occurred_at = now\<rparr>))"

definition transition_skill ::
  "inventory_db \<Rightarrow> real \<Rightarrow> string \<Rightarrow> string \<Rightarrow> string \<Rightarrow> string \<Rightarrow> string option \<Rightarrow> string option \<Rightarrow>
   inventory_db res" where
  "transition_skill db now skill_id to_state reason actor content_hash scan_id =
     (case current_state db skill_id of
        None \<Rightarrow> Inl ValueError
      | Some from_state \<Rightarrow>
          record_transition db \<lparr>ev_skill_id = skill_id, ev_content_hash = content_hash,
            ev_scan_id = scan_id, ev_from_state = Some from_state, ev_to_state = to_state,
            ev_reason = reason, ev_actor = actor, ev_occurred_at = now\<rparr>)"

definition set_baseline :: "inventory_db \<Rightarrow> real \<Rightarrow> string \<Rightarrow> string \<Rightarrow> string \<Rightarrow> inventory_db" where
  "set_baseline db now skill_id content_hash actor =
     db\<lparr>db_baselines := dict_put skill_id \<lparr>bl_content_hash = content_hash, bl_approved_at = now\<rparr>
          (db_baselines db),
        db_intents := db_intents db @ [\<lparr>ai_operator = actor, ai_action = ''baseline_set'',
          ai_payload = [(''skill_id'', PStr skill_id), (''content_hash'', PStr content_hash)]\<rparr>]\<rparr>"

text \<open>The content of the newest published event that names one.\<close>

definition prior_published_hash :: "inventory_db \<Rightarrow> string \<Rightarrow> string option" where
  "prior_published_hash db skill_id =
     (case List.find (\<lambda>e. ev_skill_id e = skill_id \<and> ev_to_state e = ''published'' \<and>
                       ev_content_hash e \<noteq> None) (rev (db_events db)) of
        None \<Rightarrow> None | Some e \<Rightarrow> ev_content_hash e)"

definition advance_baseline_on_publish ::
  "inventory_db \<Rightarrow> real \<Rightarrow> string \<Rightarrow> string \<Rightarrow> string \<Rightarrow> bool \<times> inventory_db" where
  "advance_baseline_on_publish db now skill_id content_hash actor =
     (let existing = map_of (db_baselines db) skill_id
      in if (case existing of None \<Rightarrow> False | Some b \<Rightarrow> bl_content_hash b = content_hash)
         then (True, db)
         else if (case existing of None \<Rightarrow> False
                  | Some b \<Rightarrow> Some (bl_content_hash b) \<noteq> prior_published_hash db skill_id)
         then (False, db)
         else (True, set_baseline db now skill_id content_hash actor))"

section \<open>Reachable databases\<close>

inductive inventory_step :: "inventory_db \<Rightarrow> inventory_db \<Rightarrow> bool" where
  step_register:
    "register_skill_version db now sid src tier ch td perms op adm scope = Inr db' \<Longrightarrow> inventory_step db db'"
| step_transition:
    "transition_skill db now sid to_state reason actor ch scan_id = Inr db' \<Longrightarrow> inventory_step db db'"
| step_assign:
    "assign_skill_owner db sid new_owner reason actor expect_unowned = Inr (prev, db') \<Longrightarrow> inventory_step db db'"
| step_baseline: "inventory_step db (set_baseline db now sid ch actor)"
| step_advance:
    "advance_baseline_on_publish db now sid ch actor = (b, db') \<Longrightarrow> inventory_step db db'"

abbreviation inventory_reachable :: "inventory_db \<Rightarrow> bool" where
  "inventory_reachable db \<equiv> inventory_step\<^sup>*\<^sup>* empty_inventory db"

interpretation lc: event_log ev_from_state ev_to_state legal_transition "''submitted''"
  by unfold_locales (rule legal_genesis_submitted)

interpretation lcf: event_log_final ev_from_state ev_to_state legal_transition "''submitted''" "''retired''"
  by unfold_locales (rule retired_final)

definition history :: "inventory_db \<Rightarrow> string \<Rightarrow> event_row list" where
  "history db sid = filter (\<lambda>e. ev_skill_id e = sid) (db_events db)"

definition event_intent :: "event_row \<Rightarrow> intent_row" where
  "event_intent e = \<lparr>ai_operator = ev_actor e, ai_action = ''skill_lifecycle_transition'',
     ai_payload = transition_payload e\<rparr>"

definition transition_intents :: "inventory_db \<Rightarrow> intent_row list" where
  "transition_intents db = filter (\<lambda>i. ai_action i = ''skill_lifecycle_transition'') (db_intents db)"

definition inventory_ok :: "inventory_db \<Rightarrow> bool" where
  "inventory_ok db \<longleftrightarrow> (\<forall>sid. lc.linked None (history db sid)) \<and>
     transition_intents db = map event_intent (db_events db) \<and>
     (\<forall>e \<in> set (db_events db). map_of (db_skills db) (ev_skill_id e) \<noteq> None) \<and>
     (\<forall>v \<in> snd ` set (db_versions db). map_of (db_skills db) (sv_skill_id v) \<noteq> None)"

lemma find_eq_filter: "List.find P xs = (case filter P xs of [] \<Rightarrow> None | x # _ \<Rightarrow> Some x)"
  by (induction xs) auto

lemma find_rev: "List.find P (rev xs) = (if filter P xs = [] then None else Some (last (filter P xs)))"
proof (cases "filter P xs" rule: rev_cases)
  case Nil
  then have "filter P (rev xs) = []" by (simp flip: rev_filter)
  then show ?thesis using Nil by (simp add: find_eq_filter)
next
  case (snoc ys y)
  then have "filter P (rev xs) = y # rev ys" by (simp flip: rev_filter)
  then show ?thesis using snoc by (simp add: find_eq_filter)
qed

lemma current_state_eq: "current_state db sid = lc.position None (history db sid)"
  by (auto simp: current_state_def find_rev history_def lc.position_def)

lemma current_state_cong: "db_events db = db_events db' \<Longrightarrow> current_state db sid = current_state db' sid"
  by (simp add: current_state_def)

lemma record_transition_Inr:
  assumes "record_transition db e = Inr db'"
  shows "legal_transition (ev_from_state e) (ev_to_state e) \<and> db_events db' = db_events db @ [e] \<and>
    db_intents db' = db_intents db @ [event_intent e] \<and> db_skills db' = db_skills db \<and>
    db_versions db' = db_versions db \<and> db_baselines db' = db_baselines db"
  using assms by (auto simp: record_transition_def res_bind_eq_Inr legal_transition_def event_intent_def)

text \<open>Recording the next event of a registered skill keeps the invariant.\<close>

lemma record_transition_ok:
  assumes "inventory_ok db" "record_transition db e = Inr db'"
    and "ev_from_state e = current_state db (ev_skill_id e)"
    and "map_of (db_skills db) (ev_skill_id e) \<noteq> None"
  shows "inventory_ok db'"
proof -
  note r = record_transition_Inr [OF assms(2)]
  have "history db' sid = history db sid @ (if ev_skill_id e = sid then [e] else [])" for sid
    using r by (simp add: history_def)
  then have "lc.linked None (history db' sid)" for sid
    using assms(1,3) r by (auto simp: inventory_ok_def lc.linked_snoc current_state_eq)
  moreover have "transition_intents db' = map event_intent (db_events db')"
    using assms(1) r by (simp add: inventory_ok_def transition_intents_def event_intent_def)
  ultimately show ?thesis using assms(1,4) r by (auto simp: inventory_ok_def)
qed

text \<open>Changes that leave the events alone and add no transition intent.\<close>

lemma inventory_ok_frame:
  assumes "inventory_ok db" "db_events db' = db_events db" "transition_intents db' = transition_intents db"
    and "\<And>k. map_of (db_skills db) k \<noteq> None \<Longrightarrow> map_of (db_skills db') k \<noteq> None"
    and "\<And>v. v \<in> snd ` set (db_versions db') \<Longrightarrow> v \<in> snd ` set (db_versions db) \<or>
      map_of (db_skills db') (sv_skill_id v) \<noteq> None"
  shows "inventory_ok db'"
  using assms unfolding inventory_ok_def history_def by metis

lemma authorize_write_iff: "authorize_skill_write ow actor adm = Inr () \<longleftrightarrow> adm \<or> ow = Some actor"
  by (auto simp: authorize_skill_write_def split: if_splits option.splits)

text \<open>What a successful registration did.\<close>

lemma register_InrE:
  assumes "register_skill_version db now sid source tier ch td perms op adm scope = Inr db'"
  obtains db2 e where "record_transition db2 e = Inr db'" "ev_skill_id e = sid" "ev_to_state e = ''submitted''"
    "ev_from_state e = current_state db2 sid" "ev_actor e = op" "ev_content_hash e = Some ch"
    "db_events db2 = db_events db" "db_intents db2 = db_intents db" "db_baselines db2 = db_baselines db"
    "(\<exists>r. map_of (db_skills db) sid = None \<and> sk_owner r = Some op \<and> sk_trust_tier r = tier \<and>
        db_skills db2 = db_skills db @ [(sid, r)]) \<or>
     (\<exists>r. map_of (db_skills db) sid = Some r \<and> authorize_skill_write (sk_owner r) op adm = Inr () \<and>
        db_skills db2 = db_skills db)"
    "(\<exists>v. map_of (db_versions db) ch = None \<and> sv_skill_id v = sid \<and> sv_toolchain_digest v = td \<and>
        db_versions db2 = db_versions db @ [(ch, v)]) \<or>
     (\<exists>v. map_of (db_versions db) ch = Some v \<and> sv_skill_id v = sid \<and> db_versions db2 = db_versions db)"
proof -
  define db1 where "db1 = (case map_of (db_skills db) sid of
      None \<Rightarrow> db\<lparr>db_skills := db_skills db @ [(sid, \<lparr>sk_source = source, sk_trust_tier = tier,
        sk_scope = scope, sk_owner = Some op, sk_created_at = now\<rparr>)]\<rparr>
    | Some _ \<Rightarrow> db)"
  define db2 where "db2 = (if map_of (db_versions db) ch = None
    then db1\<lparr>db_versions := db_versions db1 @ [(ch, \<lparr>sv_skill_id = sid, sv_toolchain_digest = td,
      sv_declared_perms = perms, sv_created_at = now\<rparr>)]\<rparr> else db1)"
  have same: "db_versions db1 = db_versions db" "db_events db1 = db_events db" "db_intents db1 = db_intents db"
    "db_baselines db1 = db_baselines db"
    by (simp_all add: db1_def split: option.splits)
  have auth: "\<forall>r. map_of (db_skills db) sid = Some r \<longrightarrow> authorize_skill_write (sk_owner r) op adm = Inr ()"
    using assms by (auto simp: register_skill_version_def res_bind_eq_Inr)
  have content: "\<forall>v. map_of (db_versions db) ch = Some v \<longrightarrow> sv_skill_id v = sid"
    using assms same auth by (auto simp: register_skill_version_def Let_def res_bind_eq_Inr
        split: option.splits if_splits)
  let ?e = "\<lparr>ev_skill_id = sid, ev_content_hash = Some ch, ev_scan_id = None,
    ev_from_state = current_state db2 sid, ev_to_state = ''submitted'',
    ev_reason = (if current_state db2 sid = None then ''new submission''
      else if map_of (db_versions db) ch \<noteq> None then ''resubmission of existing content''
      else ''new content for existing skill''), ev_actor = op, ev_occurred_at = now\<rparr>"
  have rec: "record_transition db2 ?e = Inr db'"
    using assms auth content
    by (cases "map_of (db_skills db) sid"; cases "map_of (db_versions db) ch")
       (auto simp: register_skill_version_def db1_def db2_def Let_def raise_if_def)
  show thesis
  proof (rule that [of db2 ?e])
    show "(\<exists>r. map_of (db_skills db) sid = None \<and> sk_owner r = Some op \<and> sk_trust_tier r = tier \<and>
        db_skills db2 = db_skills db @ [(sid, r)]) \<or>
     (\<exists>r. map_of (db_skills db) sid = Some r \<and> authorize_skill_write (sk_owner r) op adm = Inr () \<and>
        db_skills db2 = db_skills db)"
      using auth by (cases "map_of (db_skills db) sid") (auto simp: db1_def db2_def)
    show "(\<exists>v. map_of (db_versions db) ch = None \<and> sv_skill_id v = sid \<and> sv_toolchain_digest v = td \<and>
        db_versions db2 = db_versions db @ [(ch, v)]) \<or>
     (\<exists>v. map_of (db_versions db) ch = Some v \<and> sv_skill_id v = sid \<and> db_versions db2 = db_versions db)"
      using content same by (cases "map_of (db_versions db) ch") (auto simp: db2_def)
  qed (use rec same in \<open>simp_all add: db2_def\<close>)
qed

lemma register_keeps_rows:
  assumes "register_skill_version db now sid source tier ch td perms op adm scope = Inr db'"
  shows "map_of (db_skills db) k = Some r \<Longrightarrow> map_of (db_skills db') k = Some r"
    and "map_of (db_versions db) c = Some v \<Longrightarrow> map_of (db_versions db') c = Some v"
proof -
  obtain db2 e where "record_transition db2 e = Inr db'"
    and sk: "db_skills db2 = db_skills db \<or> (\<exists>r. map_of (db_skills db) sid = None \<and> db_skills db2 = db_skills db @ [(sid, r)])"
    and sv: "db_versions db2 = db_versions db \<or> (\<exists>v. map_of (db_versions db) ch = None \<and> db_versions db2 = db_versions db @ [(ch, v)])"
    using assms by (rule register_InrE) blast
  then have "db_skills db' = db_skills db2" "db_versions db' = db_versions db2"
    by (simp_all add: record_transition_Inr)
  then show "map_of (db_skills db) k = Some r \<Longrightarrow> map_of (db_skills db') k = Some r"
    "map_of (db_versions db) c = Some v \<Longrightarrow> map_of (db_versions db') c = Some v"
    using sk sv by (auto simp: map_add_def)
qed

lemma transition_skill_InrE:
  assumes "transition_skill db now sid to_state reason actor ch scan_id = Inr db'"
  obtains e where "record_transition db e = Inr db'" "ev_skill_id e = sid" "ev_to_state e = to_state"
    "ev_from_state e = current_state db sid" "current_state db sid \<noteq> None" "ev_actor e = actor"
    "ev_content_hash e = ch" "ev_scan_id e = scan_id"
  using assms by (auto simp: transition_skill_def split: option.splits)

lemma assign_Inr:
  assumes "assign_skill_owner db sid new_owner reason actor expect = Inr (prev, db')"
  shows "\<exists>r n. map_of (db_skills db) sid = Some r \<and> prev = sk_owner r \<and> normalize_owner new_owner = Inr n \<and>
    (expect \<longrightarrow> prev = None) \<and>
    db_skills db' = dict_put sid (r\<lparr>sk_owner := Some n\<rparr>) (db_skills db) \<and> db_events db' = db_events db \<and>
    db_versions db' = db_versions db \<and> db_intents db' = db_intents db @ [\<lparr>ai_operator = actor,
      ai_action = ''skill_owner_assigned'', ai_payload = [(''skill_id'', PStr sid),
        (''previous_owner'', opt_str (sk_owner r)), (''new_owner'', PStr n), (''reason'', PStr reason)]\<rparr>]"
  using assms by (auto simp: assign_skill_owner_def validate_owner_assignment_def res_bind_eq_Inr
      split: option.splits)

lemma set_baseline_frame:
  "db_events (set_baseline db now sid ch actor) = db_events db"
  "db_skills (set_baseline db now sid ch actor) = db_skills db"
  "db_versions (set_baseline db now sid ch actor) = db_versions db"
  "transition_intents (set_baseline db now sid ch actor) = transition_intents db"
  by (simp_all add: set_baseline_def transition_intents_def)

lemma advance_frame:
  "advance_baseline_on_publish db now sid ch actor = (b, db') \<Longrightarrow>
     db' = db \<or> db' = set_baseline db now sid ch actor"
  by (auto simp: advance_baseline_on_publish_def Let_def split: if_splits)

lemma inventory_step_ok: "inventory_step db db' \<Longrightarrow> inventory_ok db \<Longrightarrow> inventory_ok db'"
proof (induction rule: inventory_step.induct)
  case (step_register db now sid source tier ch td perms op adm scope db')
  from step_register(1) show ?case
  proof (rule register_InrE)
    fix db2 e
    assume e: "record_transition db2 e = Inr db'" "ev_skill_id e = sid" "ev_from_state e = current_state db2 sid"
      and same: "db_events db2 = db_events db" "db_intents db2 = db_intents db"
      and sk: "(\<exists>r. map_of (db_skills db) sid = None \<and> sk_owner r = Some op \<and> sk_trust_tier r = tier \<and>
          db_skills db2 = db_skills db @ [(sid, r)]) \<or>
        (\<exists>r. map_of (db_skills db) sid = Some r \<and> authorize_skill_write (sk_owner r) op adm = Inr () \<and>
          db_skills db2 = db_skills db)"
      and sv: "(\<exists>v. map_of (db_versions db) ch = None \<and> sv_skill_id v = sid \<and> sv_toolchain_digest v = td \<and>
          db_versions db2 = db_versions db @ [(ch, v)]) \<or>
        (\<exists>v. map_of (db_versions db) ch = Some v \<and> sv_skill_id v = sid \<and> db_versions db2 = db_versions db)"
    have mono: "map_of (db_skills db) k \<noteq> None \<Longrightarrow> map_of (db_skills db2) k \<noteq> None" for k
      using sk by (auto simp: map_add_def split: option.splits)
    have reg: "map_of (db_skills db2) sid \<noteq> None"
      using sk by (auto simp: map_add_def split: option.splits)
    have "snd ` set (db_versions db2) = snd ` set (db_versions db) \<or>
        (\<exists>v. sv_skill_id v = sid \<and> snd ` set (db_versions db2) = insert v (snd ` set (db_versions db)))"
      using sv by auto
    then have vers: "v \<in> snd ` set (db_versions db2) \<Longrightarrow> v \<in> snd ` set (db_versions db) \<or>
        map_of (db_skills db2) (sv_skill_id v) \<noteq> None" for v
      using reg by (elim disjE exE conjE) auto
    have "transition_intents db2 = transition_intents db" using same by (simp add: transition_intents_def)
    then have "inventory_ok db2" using same mono vers by (intro inventory_ok_frame [OF step_register(2)])
    then show "inventory_ok db'" by (rule record_transition_ok [OF _ e(1)]) (use e reg in simp_all)
  qed
next
  case (step_transition db now sid to_state reason actor ch scan_id db')
  from step_transition(1) show ?case
  proof (rule transition_skill_InrE)
    fix e
    assume e: "record_transition db e = Inr db'" "ev_skill_id e = sid" "ev_from_state e = current_state db sid"
      "current_state db sid \<noteq> None"
    then have "history db sid \<noteq> []" by (auto simp: current_state_eq lc.position_def)
    then obtain x where "x \<in> set (db_events db)" "ev_skill_id x = sid"
      by (auto simp: history_def filter_empty_conv)
    then have "map_of (db_skills db) sid \<noteq> None" using step_transition(2) by (auto simp: inventory_ok_def)
    then show "inventory_ok db'"
      by (intro record_transition_ok [OF step_transition(2) e(1)]) (use e in simp_all)
  qed
next
  case (step_assign db sid new_owner reason actor expect prev db')
  from assign_Inr [OF step_assign(1)] obtain r n i where
    a: "db_skills db' = dict_put sid (r\<lparr>sk_owner := Some n\<rparr>) (db_skills db)" "db_events db' = db_events db"
      "db_versions db' = db_versions db" "db_intents db' = db_intents db @ [i]" "ai_action i = ''skill_owner_assigned''"
    by auto
  have t: "transition_intents db' = transition_intents db" using a(4,5) by (simp add: transition_intents_def)
  have k: "map_of (db_skills db') k \<noteq> None" if "map_of (db_skills db) k \<noteq> None" for k
    using that unfolding a(1) update_conv' by auto
  show ?case by (rule inventory_ok_frame [OF step_assign(2) a(2) t k]) (auto simp: a(3))
next
  case (step_baseline db now sid ch actor)
  show ?case
    by (rule inventory_ok_frame [OF step_baseline])
       (simp_all only: set_baseline_frame simp_thms not_False_eq_True)
next
  case (step_advance db now sid ch actor b db')
  have "inventory_ok (set_baseline db now sid ch actor)"
    by (rule inventory_ok_frame [OF step_advance(2)])
       (simp_all only: set_baseline_frame simp_thms not_False_eq_True)
  then show ?case using advance_frame [OF step_advance(1)] step_advance(2) by auto
qed

lemma inventory_reachable_ok: "inventory_reachable db \<Longrightarrow> inventory_ok db"
proof (induction rule: rtranclp_induct)
  case base
  then show ?case by (simp add: inventory_ok_def empty_inventory_def history_def transition_intents_def)
next
  case (step db db')
  then show ?case by (blast intro: inventory_step_ok)
qed

lemma history_linked: "inventory_reachable db \<Longrightarrow> lc.linked None (history db sid)"
  using inventory_reachable_ok by (simp add: inventory_ok_def)

lemma retired_not_before:
  assumes "inventory_reachable db" "k < j" "j < length (history db sid)"
  shows "ev_to_state (history db sid ! k) \<noteq> ''retired''"
  using lcf.final_is_last [OF history_linked [OF assms(1)], of k sid] assms(2,3) by auto

section \<open>Properties\<close>

text \<open>C27: In every database the service can reach, the recorded history of each skill is one legal
  run of the lifecycle: it starts with the genesis submission, every event leaves the state the
  previous one entered, every step passes the transition check, and nothing follows a retirement.
  The transition intents handed to the audit ledger are exactly the events, in order.\<close>

theorem lifecycle_histories_legal:
  assumes "inventory_reachable db"
  shows "(\<forall>sid k. k < length (history db sid) \<longrightarrow>
      ev_from_state (history db sid ! k) =
        (if k = 0 then None else Some (ev_to_state (history db sid ! (k - 1)))) \<and>
      validate_transition (ev_from_state (history db sid ! k)) (ev_to_state (history db sid ! k)) = Inr () \<and>
      (k = 0 \<longrightarrow> ev_to_state (history db sid ! k) = ''submitted'') \<and>
      (ev_to_state (history db sid ! k) = ''retired'' \<longrightarrow> Suc k = length (history db sid))) \<and>
    transition_intents db = map event_intent (db_events db)"
proof (intro conjI allI impI)
  fix sid k assume k: "k < length (history db sid)"
  note l = history_linked [OF assms, of sid]
  show "ev_from_state (history db sid ! k) =
      (if k = 0 then None else Some (ev_to_state (history db sid ! (k - 1))))"
    "validate_transition (ev_from_state (history db sid ! k)) (ev_to_state (history db sid ! k)) = Inr ()"
    using lc.linked_nth [OF l k] unfolding legal_transition_def by blast+
  show "ev_to_state (history db sid ! k) = ''submitted''" if "k = 0"
    using lc.linked_nth [OF l k] that by (auto dest: legal_genesis_submitted)
  show "Suc k = length (history db sid)" if "ev_to_state (history db sid ! k) = ''retired''"
    by (rule lcf.final_is_last [OF l k that])
qed (use inventory_reachable_ok [OF assms] in \<open>simp add: inventory_ok_def\<close>)

text \<open>Note: Quarantine is left only through an explicit restore. If a skill was quarantined and later
  has a new submission, an event between the two moves it from quarantined to published: no
  resubmission, however it is routed, replaces that restore.\<close>

theorem quarantine_needs_restore:
  assumes "inventory_reachable db" "i < j" "j < length (history db sid)"
    and "ev_to_state (history db sid ! i) = ''quarantined''"
    and "ev_to_state (history db sid ! j) = ''submitted''"
  shows "\<exists>k. i < k \<and> k < j \<and> ev_from_state (history db sid ! k) = Some ''quarantined'' \<and>
    ev_to_state (history db sid ! k) = ''published''"
proof -
  let ?h = "history db sid"
  obtain k r where k: "i < k" "k \<le> j" "r = ''quarantined''" "ev_from_state (?h ! k) = Some r"
      "legal_transition (Some r) (ev_to_state (?h ! k))"
    using lc.leaves_region [OF history_linked [OF assms(1)], of i j sid "{''quarantined''}"] assms(2-5)
    by auto
  then have "ev_to_state (?h ! k) \<in> {''published'', ''retired''}" using quarantined_exits by blast
  moreover from this have "k < j" using k(2) assms(5) by (cases "k = j") auto
  moreover from this have "ev_to_state (?h ! k) \<noteq> ''retired''" using retired_not_before assms by blast
  ultimately show ?thesis using k by auto
qed

text \<open>Note: A release needs a scan. Every publication event comes from \<open>scanning\<close>, from a completed
  review or from the quarantine restore, and a skill that was blocked is not published again
  before a later event put it back into \<open>scanning\<close>.\<close>

theorem blocked_needs_fresh_scan:
  assumes "inventory_reachable db" "j < length (history db sid)"
    and "ev_to_state (history db sid ! j) = ''published''"
  shows "ev_from_state (history db sid ! j) \<in> {Some ''scanning'', Some ''review_pending'', Some ''quarantined''} \<and>
    (\<forall>i < j. ev_to_state (history db sid ! i) = ''blocked'' \<longrightarrow>
      (\<exists>k. i < k \<and> k < j \<and> ev_to_state (history db sid ! k) = ''scanning''))"
proof (intro conjI allI impI)
  let ?h = "history db sid"
  note l = history_linked [OF assms(1), of sid]
  have step: "legal_transition (ev_from_state (?h ! j)) ''published''" using lc.linked_nth [OF l assms(2)] assms(3) by metis
  then show "ev_from_state (?h ! j) \<in> {Some ''scanning'', Some ''review_pending'', Some ''quarantined''}"
    by (cases "ev_from_state (?h ! j)") (auto dest: legal_genesis_submitted published_sources)
  fix i assume i: "i < j" "ev_to_state (?h ! i) = ''blocked''"
  obtain k r where k: "i < k" "k \<le> j" "r \<in> {''blocked'', ''submitted''}"
      "legal_transition (Some r) (ev_to_state (?h ! k))" "ev_to_state (?h ! k) \<notin> {''blocked'', ''submitted''}"
    using lc.leaves_region [OF l, of i j "{''blocked'', ''submitted''}"] i assms(2,3) by auto
  then have "ev_to_state (?h ! k) \<in> {''scanning'', ''retired''}"
    by (auto simp: legal_Some VALID_TRANSITIONS_def)
  moreover from this have "k < j" using k(2) assms(3) by (cases "k = j") auto
  moreover from this have "ev_to_state (?h ! k) \<noteq> ''retired''" using retired_not_before assms(1,2) by blast
  ultimately show "\<exists>k. i < k \<and> k < j \<and> ev_to_state (?h ! k) = ''scanning''" using k(1) by auto
qed

text \<open>Note: Submitting a version cannot take a skill over. A successful registration of a known skill
  was made by its recorded owner or an admin and leaves the owner, the trust tier and every other
  skill's row as they were; an unknown skill becomes the caller's. The content hash is recorded
  under this skill and every earlier version row is kept as it was.\<close>

theorem register_respects_ownership:
  assumes "register_skill_version db now sid source tier ch td perms op adm scope = Inr db'"
  shows "(\<forall>r. map_of (db_skills db) sid = Some r \<longrightarrow> (adm \<or> sk_owner r = Some op) \<and> db_skills db' = db_skills db) \<and>
    (map_of (db_skills db) sid = None \<longrightarrow>
      (\<exists>r. map_of (db_skills db') sid = Some r \<and> sk_owner r = Some op \<and> sk_trust_tier r = tier)) \<and>
    skill_id_for_content db' ch = Some sid \<and>
    (\<forall>c v. map_of (db_versions db) c = Some v \<longrightarrow> map_of (db_versions db') c = Some v) \<and>
    current_state db' sid = Some ''submitted''"
  using assms
proof (rule register_InrE)
  fix db2 e
  assume e: "record_transition db2 e = Inr db'" "ev_skill_id e = sid" "ev_to_state e = ''submitted''"
    and sk: "(\<exists>r. map_of (db_skills db) sid = None \<and> sk_owner r = Some op \<and> sk_trust_tier r = tier \<and>
        db_skills db2 = db_skills db @ [(sid, r)]) \<or>
      (\<exists>r. map_of (db_skills db) sid = Some r \<and> authorize_skill_write (sk_owner r) op adm = Inr () \<and>
        db_skills db2 = db_skills db)"
    and sv: "(\<exists>v. map_of (db_versions db) ch = None \<and> sv_skill_id v = sid \<and> sv_toolchain_digest v = td \<and>
        db_versions db2 = db_versions db @ [(ch, v)]) \<or>
      (\<exists>v. map_of (db_versions db) ch = Some v \<and> sv_skill_id v = sid \<and> db_versions db2 = db_versions db)"
  note r = record_transition_Inr [OF e(1)]
  have "\<forall>r. map_of (db_skills db) sid = Some r \<longrightarrow> (adm \<or> sk_owner r = Some op) \<and> db_skills db' = db_skills db"
    "map_of (db_skills db) sid = None \<longrightarrow>
      (\<exists>r. map_of (db_skills db') sid = Some r \<and> sk_owner r = Some op \<and> sk_trust_tier r = tier)"
    using sk r by (auto simp: map_add_def authorize_write_iff)
  moreover have "skill_id_for_content db' ch = Some sid"
    "\<forall>c v. map_of (db_versions db) c = Some v \<longrightarrow> map_of (db_versions db') c = Some v"
    using sv r by (auto simp: skill_id_for_content_def map_add_def split: option.splits)
  moreover have "current_state db' sid = Some ''submitted''" using r e by (simp add: current_state_def)
  ultimately show ?thesis by blast
qed

text \<open>Note: Ownership changes only by an audited assignment. If a step of the service changes the
  recorded owner of a registered skill, it appended one audit intent that names the skill, the
  previous and the new owner; and once a content hash is recorded it stays with its skill.\<close>

theorem ownership_changes_audited:
  assumes "inventory_step db db'"
  shows "(\<forall>sid r r'. map_of (db_skills db) sid = Some r \<and> map_of (db_skills db') sid = Some r' \<and>
        sk_owner r' \<noteq> sk_owner r \<longrightarrow>
      (\<exists>actor reason n. sk_owner r' = Some n \<and> db_intents db' = db_intents db @ [\<lparr>ai_operator = actor,
        ai_action = ''skill_owner_assigned'', ai_payload = [(''skill_id'', PStr sid),
          (''previous_owner'', opt_str (sk_owner r)), (''new_owner'', PStr n), (''reason'', PStr reason)]\<rparr>])) \<and>
    (\<forall>c v. map_of (db_versions db) c = Some v \<longrightarrow> map_of (db_versions db') c = Some v)"
  using assms
proof cases
  case (step_register now sid source tier ch td perms op adm scope)
  then show ?thesis by (auto dest: register_keeps_rows)
next
  case (step_transition now sid to_state reason actor ch scan_id)
  then show ?thesis by (elim transition_skill_InrE) (auto dest!: record_transition_Inr)
next
  case (step_assign sid new_owner reason actor expect_unowned prev)
  from assign_Inr [OF this] obtain r n where "map_of (db_skills db) sid = Some r"
      "db_skills db' = dict_put sid (r\<lparr>sk_owner := Some n\<rparr>) (db_skills db)" "db_versions db' = db_versions db"
      "db_intents db' = db_intents db @ [\<lparr>ai_operator = actor,
        ai_action = ''skill_owner_assigned'', ai_payload = [(''skill_id'', PStr sid),
          (''previous_owner'', opt_str (sk_owner r)), (''new_owner'', PStr n), (''reason'', PStr reason)]\<rparr>]"
    by blast
  then show ?thesis by (auto simp: update_conv' split: if_splits)
next
  case (step_baseline now sid ch actor)
  then show ?thesis by (auto simp: set_baseline_frame)
next
  case (step_advance now sid ch actor b)
  then show ?thesis by (auto dest!: advance_frame simp: set_baseline_frame)
qed

text \<open>Note: The batched read agrees with the single one: for every skill asked about, the position
  that \<open>latest_lifecycle_positions\<close> returns has the state that \<open>current_state\<close> returns, and the
  content hash of that same newest event; skills not asked about or without events are absent.\<close>

theorem latest_positions_agree:
  "map_of (latest_lifecycle_positions db sids) sid =
     (if sid \<in> set sids \<and> history db sid \<noteq> []
      then Some \<lparr>lp_skill_id = sid, lp_state = the (current_state db sid),
                lp_content_hash = ev_content_hash (last (history db sid))\<rparr>
      else None)"
proof -
  have "List.find (\<lambda>e. ev_skill_id e = sid) (filter (\<lambda>e. ev_skill_id e \<in> set sids) (rev (db_events db))) =
      (if sid \<in> set sids then List.find (\<lambda>e. ev_skill_id e = sid) (rev (db_events db)) else None)"
    by (auto simp: find_eq_filter conj_commute cong: filter_cong rev_conj_cong split: list.splits)
  moreover have "ev_skill_id (last (history db sid)) = sid" if "history db sid \<noteq> []"
    using last_in_set [OF that] by (simp add: history_def)
  ultimately show ?thesis
    by (auto simp: latest_lifecycle_positions_def map_of_fold_setdefault find_rev current_state_def
        simp flip: history_def)
qed

text \<open>Note: The drift baseline moves only along the skill's own published history. The flag that
  \<open>advance_baseline_on_publish\<close> returns says exactly whether the baseline now records the published
  content; a baseline that names content the skill was not last published at (one that an admin
  pinned) is left untouched; and the lifecycle and ownership tables never change.\<close>

theorem advance_baseline_respects_pin:
  assumes "advance_baseline_on_publish db now sid ch actor = (b, db')"
  shows "(b \<longleftrightarrow> map_option bl_content_hash (map_of (db_baselines db') sid) = Some ch) \<and>
    (\<forall>x. map_of (db_baselines db) sid = Some x \<and> bl_content_hash x \<noteq> ch \<and>
       Some (bl_content_hash x) \<noteq> prior_published_hash db sid \<longrightarrow> db' = db) \<and>
    (\<forall>k. k \<noteq> sid \<longrightarrow> map_of (db_baselines db') k = map_of (db_baselines db) k) \<and>
    db_events db' = db_events db \<and> db_skills db' = db_skills db \<and> db_versions db' = db_versions db"
  using assms
  by (auto simp: advance_baseline_on_publish_def set_baseline_def Let_def update_conv'
      split: if_splits option.splits)

section \<open>Witnesses\<close>

fun run_states :: "string list \<Rightarrow> inventory_db \<Rightarrow> inventory_db res" where
  "run_states [] db = Inr db"
| "run_states (t # ts) db =
     res_bind (transition_skill db 0 ''s'' t ''r'' ''admin'' None None) (run_states ts)"

fun legal_path :: "string \<Rightarrow> string list \<Rightarrow> bool" where
  "legal_path f [] = True"
| "legal_path f (t # ts) = (legal_transition (Some f) t \<and> legal_path t ts)"

lemma run_states_total:
  assumes "inventory_reachable db" "current_state db ''s'' = Some f" "legal_path f ts"
  shows "\<exists>db'. inventory_reachable db' \<and> run_states ts db = Inr db' \<and>
    map ev_to_state (history db' ''s'') = map ev_to_state (history db ''s'') @ ts"
  using assms
proof (induction ts arbitrary: db f)
  case Nil
  then show ?case by auto
next
  case (Cons t ts)
  obtain x where x: "transition_skill db 0 ''s'' t ''r'' ''admin'' None None = Inr x"
    using Cons.prems by (auto simp: transition_skill_def record_transition_def legal_transition_def)
  then have "inventory_reachable x"
    using Cons.prems(1) by (meson step_transition rtranclp.rtrancl_into_rtrancl)
  moreover obtain e where "record_transition db e = Inr x" "ev_skill_id e = ''s''" "ev_to_state e = t"
    using x by (rule transition_skill_InrE)
  then have "history x ''s'' = history db ''s'' @ [e]" "current_state x ''s'' = Some t" "ev_to_state e = t"
    by (auto simp: history_def current_state_def dest!: record_transition_Inr)
  ultimately obtain db' where "inventory_reachable db'" "run_states ts x = Inr db'"
      "map ev_to_state (history db' ''s'') = map ev_to_state (history db ''s'') @ t # ts"
    using Cons.IH [of x t] Cons.prems(3) by auto
  then show ?case using x by auto
qed

definition sample_run :: "string list" where
  "sample_run = [''scanning'', ''blocked'', ''submitted'', ''scanning'', ''published'', ''quarantined'',
     ''published'', ''submitted'']"

lemma sample_registered:
  obtains db where "register_skill_version empty_inventory 0 ''s'' ''git'' ''public'' ''c1''
     ''t1'' PNone ''alice'' False None = Inr db" "inventory_reachable db"
    "current_state db ''s'' = Some ''submitted''" "map ev_to_state (history db ''s'') = [''submitted'']"
proof -
  obtain db where db: "register_skill_version empty_inventory 0 ''s'' ''git'' ''public'' ''c1''
     ''t1'' PNone ''alice'' False None = Inr db"
    by (simp add: register_skill_version_def empty_inventory_def current_state_def record_transition_def
        validate_transition_def ALL_STATES_def VALID_TRANSITIONS_def Let_def)
  have reach: "inventory_reachable db" by (rule r_into_rtranclp, rule step_register, rule db)
  obtain db2 e where "record_transition db2 e = Inr db" "ev_skill_id e = ''s''"
      "ev_to_state e = ''submitted''" "db_events db2 = db_events empty_inventory"
    using db by (rule register_InrE)
  then have "current_state db ''s'' = Some ''submitted''" "map ev_to_state (history db ''s'') = [''submitted'']"
    by (auto simp: history_def current_state_def empty_inventory_def dest!: record_transition_Inr)
  then show thesis by (rule that [OF db reach])
qed

lemma sample_history:
  obtains db where "inventory_reachable db" "map ev_to_state (history db ''s'') = ''submitted'' # sample_run"
proof -
  have path: "legal_path ''submitted'' sample_run"
    by (simp add: sample_run_def legal_Some VALID_TRANSITIONS_def)
  obtain db where db: "inventory_reachable db" "current_state db ''s'' = Some ''submitted''"
      "map ev_to_state (history db ''s'') = [''submitted'']" by (rule sample_registered)
  show thesis using run_states_total [OF db(1,2) path] db(3) that by auto
qed

lemma sample_nth:
  assumes "map ev_to_state (history db ''s'') = ''submitted'' # sample_run" "k < 9"
  shows "k < length (history db ''s'')" "ev_to_state (history db ''s'' ! k) = (''submitted'' # sample_run) ! k"
proof -
  have "length (history db ''s'') = 9" using arg_cong [OF assms(1), of length] by (simp add: sample_run_def)
  then show k: "k < length (history db ''s'')" using assms(2) by simp
  show "ev_to_state (history db ''s'' ! k) = (''submitted'' # sample_run) ! k"
    using k by (simp flip: assms(1))
qed

theorem lifecycle_histories_legal_witness:
  "\<exists>db. ev_from_state (history db ''s'' ! 2) = Some (ev_to_state (history db ''s'' ! 1)) \<and>
     ev_to_state (history db ''s'' ! 2) = ''blocked''"
proof -
  obtain db where db: "inventory_reachable db" "map ev_to_state (history db ''s'') = ''submitted'' # sample_run"
    by (rule sample_history)
  show ?thesis
    using lifecycle_histories_legal [OF db(1)] sample_nth [OF db(2), of 2]
    by (intro exI [of _ db]) (simp add: sample_run_def)
qed

theorem quarantine_needs_restore_witness:
  "\<exists>db k. 6 < k \<and> k < 8 \<and> ev_from_state (history db ''s'' ! k) = Some ''quarantined'' \<and>
     ev_to_state (history db ''s'' ! k) = ''published''"
proof -
  obtain db where db: "inventory_reachable db" "map ev_to_state (history db ''s'') = ''submitted'' # sample_run"
    by (rule sample_history)
  show ?thesis
    using quarantine_needs_restore [OF db(1), of 6 8 "''s''"] sample_nth [OF db(2), of 6] sample_nth [OF db(2), of 8]
    by (auto simp: sample_run_def)
qed

theorem blocked_needs_fresh_scan_witness:
  "\<exists>db k. 2 < k \<and> k < 5 \<and> ev_to_state (history db ''s'' ! k) = ''scanning''"
proof -
  obtain db where db: "inventory_reachable db" "map ev_to_state (history db ''s'') = ''submitted'' # sample_run"
    by (rule sample_history)
  have "\<forall>i < 5. ev_to_state (history db ''s'' ! i) = ''blocked'' \<longrightarrow>
      (\<exists>k. i < k \<and> k < 5 \<and> ev_to_state (history db ''s'' ! k) = ''scanning'')"
    using blocked_needs_fresh_scan [OF db(1), of 5 "''s''"] sample_nth [OF db(2), of 5]
    by (simp add: sample_run_def)
  moreover have "ev_to_state (history db ''s'' ! 2) = ''blocked''"
    using sample_nth(2) [OF db(2), of 2] by (simp add: sample_run_def)
  ultimately have "\<exists>k. 2 < k \<and> k < 5 \<and> ev_to_state (history db ''s'' ! k) = ''scanning''"
    by (elim allE [of _ 2]) simp
  then show ?thesis by blast
qed

theorem register_respects_ownership_witness:
  "\<exists>db. register_skill_version empty_inventory 0 ''s'' ''git'' ''public'' ''c1'' ''t1'' PNone ''alice'' False None
     = Inr db \<and> skill_id_for_content db ''c1'' = Some ''s'' \<and> current_state db ''s'' = Some ''submitted''"
proof -
  obtain db where db: "register_skill_version empty_inventory 0 ''s'' ''git'' ''public'' ''c1''
     ''t1'' PNone ''alice'' False None = Inr db" by (rule sample_registered)
  then show ?thesis using register_respects_ownership [OF db] by blast
qed

theorem ownership_changes_audited_witness:
  "\<exists>db. inventory_step empty_inventory db \<and>
     (\<forall>c v. map_of (db_versions empty_inventory) c = Some v \<longrightarrow> map_of (db_versions db) c = Some v)"
proof -
  have "inventory_step empty_inventory (set_baseline empty_inventory 0 ''s'' ''c'' ''admin'')"
    by (rule step_baseline)
  then show ?thesis using ownership_changes_audited by blast
qed

theorem advance_baseline_respects_pin_witness:
  "\<exists>b db'. advance_baseline_on_publish empty_inventory 0 ''s'' ''c'' ''w'' = (b, db') \<and>
     (b \<longleftrightarrow> map_option bl_content_hash (map_of (db_baselines db') ''s'') = Some ''c'')"
proof -
  obtain b db' where a: "advance_baseline_on_publish empty_inventory 0 ''s'' ''c'' ''w'' = (b, db')"
    by (cases "advance_baseline_on_publish empty_inventory 0 ''s'' ''c'' ''w''") blast
  have "b \<longleftrightarrow> map_option bl_content_hash (map_of (db_baselines db') ''s'') = Some ''c''"
    using advance_baseline_respects_pin [OF a] by (rule conjunct1)
  with a show ?thesis by (intro exI conjI)
qed

end
