(* ===== verification/Gate_Service.thy ===== *)
theory Gate_Service
  imports Core_Gate Gate_Policy_Load Inventory_Service
begin

text \<open>
  The gate service over its tables (\<open>gate/models.py\<close>): the decision with its transactional outbox
  (\<open>gate/service.py\<close>), the allowlist, and the policy proposals with their two-person rule
  (\<open>gate/policy_workflow.py\<close>). A writer runs in the caller's transaction: it returns the exception
  or the new tables. The signer is a parameter (signing, and reading the token id back out of the token
  just produced), as are the YAML parser and the random identifiers. One operation reads the clock once.
\<close>

section \<open>Tables\<close>

record verdict_row =
  vd_content_hash :: string
  vd_verdict :: string
  vd_policy_version :: string
  vd_jti :: string
  vd_jws_signature :: string
  vd_effective_severity :: int
  vd_score :: int
  vd_reasons :: "string list"
  vd_fail_closed :: bool
  vd_issued_at :: real

record allowlist_row =
  aw_scope_type :: string
  aw_scope_value :: string
  aw_rule_id :: string
  aw_expires_at :: real
  aw_approved_by :: string
  aw_requested_by :: string
  aw_reason :: "string option"

record outbox_row =
  ob_aggregate_id :: string
  ob_event_type :: string
  ob_payload :: "(string \<times> pyval) list"
  ob_dispatched :: bool
  ob_created_at :: real

record proposal_row =
  pp_yaml :: string
  pp_changes_hard_gate_rules :: bool
  pp_status :: string
  pp_proposed_by :: string
  pp_approved_by :: "string option"
  pp_reason :: "string option"
  pp_created_at :: real
  pp_decided_at :: "real option"

record gate_db =
  gd_verdicts :: "(string \<times> verdict_row) list"
  gd_allowlist :: "(string \<times> allowlist_row) list"
  gd_outbox :: "outbox_row list"
  gd_proposals :: "(nat \<times> proposal_row) list"
  gd_intents :: "intent_row list"

definition empty_gate :: gate_db where
  "empty_gate = \<lparr>gd_verdicts = [], gd_allowlist = [], gd_outbox = [], gd_proposals = [], gd_intents = []\<rparr>"

section \<open>The signer\<close>

text \<open>What is signed, and the two operations the gate uses.\<close>

record verdict_claims =
  vc_content_hash :: string
  vc_verdict :: string
  vc_policy_version :: string
  vc_effective_severity :: int
  vc_score :: int

record signer =
  sg_sign :: "verdict_claims \<Rightarrow> string res"
  sg_jti :: "string \<Rightarrow> string res"

section \<open>Decide and record\<close>

definition outbox_payload :: "string \<Rightarrow> string \<Rightarrow> string \<Rightarrow> string \<Rightarrow> string \<Rightarrow> (string \<times> pyval) list" where
  "outbox_payload scan_id ch verdict jti jws =
     [(''scan_id'', PStr scan_id), (''content_hash'', PStr ch), (''verdict'', PStr verdict),
      (''jti'', PStr jti), (''jws'', PStr jws)]"

definition decide_and_record ::
  "gate_db \<Rightarrow> real \<Rightarrow> signer \<Rightarrow> string \<Rightarrow> scan_result \<Rightarrow> gate_policy \<Rightarrow> trust_tier \<Rightarrow>
   allowlist_entry list \<Rightarrow> string \<Rightarrow> real \<Rightarrow> string list \<Rightarrow> (verdict_result \<times> gate_db) res" where
  "decide_and_record db utcnow sg scan_id sr policy trust_tier allowlist operator now extra_reasons =
     (let vr = decide sr policy trust_tier allowlist now 0 None;
          reasons = vr_reasons vr @ extra_reasons
      in res_bind (sg_sign sg \<lparr>vc_content_hash = sr_content_hash sr,
             vc_verdict = verdict_name (vr_verdict vr), vc_policy_version = vr_policy_version vr,
             vc_effective_severity = severity_int (vr_effective_severity vr), vc_score = vr_score vr\<rparr>) (\<lambda>jws.
         res_bind (sg_jti sg jws) (\<lambda>jti.
         res_bind (raise_if (scan_id \<in> fst ` set (gd_verdicts db) \<or>
                     jti \<in> vd_jti ` snd ` set (gd_verdicts db)) IntegrityError) (\<lambda>_.
         Inr (vr, db
           \<lparr>gd_verdicts := gd_verdicts db @ [(scan_id,
              \<lparr>vd_content_hash = sr_content_hash sr, vd_verdict = verdict_name (vr_verdict vr),
               vd_policy_version = vr_policy_version vr, vd_jti = jti, vd_jws_signature = jws,
               vd_effective_severity = severity_int (vr_effective_severity vr), vd_score = vr_score vr,
               vd_reasons = reasons, vd_fail_closed = vr_fail_closed vr, vd_issued_at = utcnow\<rparr>)],
            gd_outbox := gd_outbox db @
              [\<lparr>ob_aggregate_id = scan_id, ob_event_type = ''verdict_issued'',
                ob_payload = outbox_payload scan_id (sr_content_hash sr) (verdict_name (vr_verdict vr)) jti jws,
                ob_dispatched = False, ob_created_at = utcnow\<rparr>],
            gd_intents := gd_intents db @
              [\<lparr>ai_operator = operator, ai_action = ''verdict_issued'',
                ai_payload = [(''scan_id'', PStr scan_id), (''content_hash'', PStr (sr_content_hash sr)),
                  (''verdict'', PStr (verdict_name (vr_verdict vr))),
                  (''policy_version'', PStr (vr_policy_version vr)),
                  (''reasons'', PList (map PStr reasons))]\<rparr>]\<rparr>)))))"

section \<open>Reads of the verdict table\<close>

record issued_verdict =
  iv_content_hash :: string
  iv_verdict :: string
  iv_issued_at :: real

text \<open>\<open>ORDER BY issued_at DESC\<close>; rows of equal time come in the order the driver yields them,
  here their insertion order.\<close>

definition list_issued_verdicts :: "gate_db \<Rightarrow> issued_verdict list" where
  "list_issued_verdicts db =
     sort_key (\<lambda>v. - iv_issued_at v)
       (map (\<lambda>(k, r). \<lparr>iv_content_hash = vd_content_hash r, iv_verdict = vd_verdict r,
                iv_issued_at = vd_issued_at r\<rparr>) (gd_verdicts db))"

record verdict_view =
  vw_verdict :: string
  vw_score :: int
  vw_policy_version :: string
  vw_issued_at :: string
  vw_jws_signature :: string
  vw_fail_closed :: bool

definition get_verdict_view :: "(real \<Rightarrow> string) \<Rightarrow> gate_db \<Rightarrow> string \<Rightarrow> verdict_view option" where
  "get_verdict_view isoformat db scan_id =
     map_option (\<lambda>r. \<lparr>vw_verdict = vd_verdict r, vw_score = vd_score r,
         vw_policy_version = vd_policy_version r, vw_issued_at = isoformat (vd_issued_at r),
         vw_jws_signature = vd_jws_signature r, vw_fail_closed = vd_fail_closed r\<rparr>)
       (map_of (gd_verdicts db) scan_id)"

definition list_pending_reviews :: "gate_db \<Rightarrow> (string \<times> verdict_row) list" where
  "list_pending_reviews db = filter (\<lambda>(k, r). vd_verdict r = ''REVIEW'') (gd_verdicts db)"

section \<open>Allowlist\<close>

text \<open>
  \<open>datetime.fromtimestamp(t, tz=UTC).replace(tzinfo=None)\<close>, as seconds since the epoch: rounded
  half-even to a microsecond; a time outside the years 1 to 9999 is rejected (\<open>ValueError\<close> here; far
  outside, CPython raises \<open>OverflowError\<close> or \<open>OSError\<close> instead). The way back is exact.
\<close>

definition fromtimestamp :: "real \<Rightarrow> real res" where
  "fromtimestamp t =
     (let us = py_round (t * 1000000)
      in if us < -62135596800 * 1000000 \<or> us \<ge> 253402300800 * 1000000 then Inl ValueError
         else Inr (of_int us / 1000000))"

definition allowlist_row_to_entry :: "allowlist_row \<Rightarrow> allowlist_entry res" where
  "allowlist_row_to_entry row = allowlist_entry_post_init
     \<lparr>al_scope_type = aw_scope_type row, al_scope_value = aw_scope_value row,
      al_rule_id = aw_rule_id row, al_expires_at = aw_expires_at row,
      al_approved_by = aw_approved_by row, al_requested_by = aw_requested_by row,
      al_reason = (case aw_reason row of None \<Rightarrow> [] | Some r \<Rightarrow> r)\<rparr>"

definition list_active_allowlist_rows :: "gate_db \<Rightarrow> real \<Rightarrow> (string \<times> allowlist_row) list res" where
  "list_active_allowlist_rows db now =
     res_bind (fromtimestamp now) (\<lambda>now_dt.
     Inr (filter (\<lambda>(k, r). aw_expires_at r > now_dt) (gd_allowlist db)))"

definition list_active_allowlist_entries :: "gate_db \<Rightarrow> real \<Rightarrow> allowlist_entry list res" where
  "list_active_allowlist_entries db now =
     res_bind (list_active_allowlist_rows db now) (\<lambda>rows.
     res_map (allowlist_row_to_entry \<circ> snd) rows)"

definition grant_allowlist_entry ::
  "gate_db \<Rightarrow> string \<Rightarrow> string \<Rightarrow> string \<Rightarrow> string \<Rightarrow> real \<Rightarrow> string \<Rightarrow> string \<Rightarrow> string \<Rightarrow>
   (allowlist_row \<times> gate_db) res" where
  "grant_allowlist_entry db uuid scope_type scope_value rule_id expires_at approved_by requested_by reason =
     res_bind (case allowlist_entry_post_init \<lparr>al_scope_type = scope_type, al_scope_value = scope_value,
                 al_rule_id = rule_id, al_expires_at = expires_at, al_approved_by = approved_by,
                 al_requested_by = requested_by, al_reason = reason\<rparr> of
               Inl e \<Rightarrow> Inl (if e = ValueError then AllowlistError else e) | Inr x \<Rightarrow> Inr x) (\<lambda>_.
     res_bind (fromtimestamp expires_at) (\<lambda>expires_dt.
     let row = \<lparr>aw_scope_type = scope_type, aw_scope_value = scope_value, aw_rule_id = rule_id,
                aw_expires_at = expires_dt, aw_approved_by = approved_by,
                aw_requested_by = requested_by, aw_reason = Some reason\<rparr>
     in res_bind (raise_if (uuid \<in> fst ` set (gd_allowlist db)) IntegrityError) (\<lambda>_.
        Inr (row, db
          \<lparr>gd_allowlist := gd_allowlist db @ [(uuid, row)],
           gd_intents := gd_intents db @ [\<lparr>ai_operator = approved_by, ai_action = ''allowlist_granted'',
             ai_payload = [(''allowlist_id'', PStr uuid), (''scope_type'', PStr scope_type),
               (''scope_value'', PStr scope_value), (''rule_id'', PStr rule_id),
               (''requested_by'', PStr requested_by)]\<rparr>]\<rparr>))))"

definition revoke_allowlist_entry :: "gate_db \<Rightarrow> string \<Rightarrow> string \<Rightarrow> gate_db res" where
  "revoke_allowlist_entry db allowlist_id actor =
     (case map_of (gd_allowlist db) allowlist_id of
        None \<Rightarrow> Inl AllowlistError
      | Some row \<Rightarrow> Inr (db
          \<lparr>gd_allowlist := filter (\<lambda>(k, r). k \<noteq> allowlist_id) (gd_allowlist db),
           gd_intents := gd_intents db @ [\<lparr>ai_operator = actor, ai_action = ''allowlist_revoked'',
             ai_payload = [(''allowlist_id'', PStr allowlist_id), (''scope_type'', PStr (aw_scope_type row)),
               (''scope_value'', PStr (aw_scope_value row)), (''rule_id'', PStr (aw_rule_id row))]\<rparr>]\<rparr>))"

section \<open>Policy proposals\<close>

definition propose_policy_change ::
  "(string \<Rightarrow> yaml_read) \<Rightarrow> gate_db \<Rightarrow> real \<Rightarrow> string \<Rightarrow> string set \<Rightarrow> string \<Rightarrow>
   ((nat \<times> proposal_row) \<times> gate_db) res" where
  "propose_policy_change safe_load db now proposed_by current_hard_gate_rules proposed_policy_yaml =
     res_bind
       (case (case safe_load proposed_policy_yaml of
                Parsed (PDict raw) \<Rightarrow> parse_gate_policy raw
              | _ \<Rightarrow> Inl GatePolicyLoadError) of
          Inl e \<Rightarrow> Inl (if e = GatePolicyLoadError then PolicyProposalError else e)
        | Inr p \<Rightarrow> Inr p) (\<lambda>proposed_policy.
     let changes = (gp_hard_gate_rules proposed_policy \<noteq> current_hard_gate_rules);
         pid = Suc (length (gd_proposals db));
         proposal = \<lparr>pp_yaml = proposed_policy_yaml, pp_changes_hard_gate_rules = changes,
           pp_status = (if changes then ''pending'' else ''approved''), pp_proposed_by = proposed_by,
           pp_approved_by = (if changes then None else Some proposed_by), pp_reason = None,
           pp_created_at = now, pp_decided_at = (if changes then None else Some now)\<rparr>
     in Inr ((pid, proposal), db
          \<lparr>gd_proposals := gd_proposals db @ [(pid, proposal)],
           gd_intents := gd_intents db @ [\<lparr>ai_operator = proposed_by, ai_action = ''policy_proposed'',
             ai_payload = [(''proposal_id'', PInt (int pid)), (''changes_hard_gate_rules'', PBool changes),
               (''status'', PStr (pp_status proposal))]\<rparr>]\<rparr>))"

definition approve_policy_proposal ::
  "gate_db \<Rightarrow> real \<Rightarrow> nat \<times> proposal_row \<Rightarrow> string \<Rightarrow> gate_db res" where
  "approve_policy_proposal db now = (\<lambda>(pid, proposal) approved_by.
     res_bind (raise_if (pp_status proposal \<noteq> ''pending'') PolicyProposalError) (\<lambda>_.
     res_bind (raise_if (approved_by = pp_proposed_by proposal) PolicyProposalError) (\<lambda>_.
     Inr (db
       \<lparr>gd_proposals := dict_put pid (proposal\<lparr>pp_status := ''approved'',
          pp_approved_by := Some approved_by, pp_decided_at := Some now\<rparr>) (gd_proposals db),
        gd_intents := gd_intents db @ [\<lparr>ai_operator = approved_by, ai_action = ''policy_approved'',
          ai_payload = [(''proposal_id'', PInt (int pid)),
            (''proposed_by'', PStr (pp_proposed_by proposal))]\<rparr>]\<rparr>))))"

definition reject_policy_proposal ::
  "gate_db \<Rightarrow> real \<Rightarrow> nat \<times> proposal_row \<Rightarrow> string \<Rightarrow> string \<Rightarrow> gate_db res" where
  "reject_policy_proposal db now = (\<lambda>(pid, proposal) rejected_by reason.
     res_bind (raise_if (pp_status proposal \<noteq> ''pending'') PolicyProposalError) (\<lambda>_.
     Inr (db
       \<lparr>gd_proposals := dict_put pid (proposal\<lparr>pp_status := ''rejected'',
          pp_approved_by := Some rejected_by, pp_reason := Some reason, pp_decided_at := Some now\<rparr>)
          (gd_proposals db),
        gd_intents := gd_intents db @ [\<lparr>ai_operator = rejected_by, ai_action = ''policy_rejected'',
          ai_payload = [(''proposal_id'', PInt (int pid)), (''proposed_by'', PStr (pp_proposed_by proposal)),
            (''reason'', PStr reason)]\<rparr>]\<rparr>)))"

section \<open>Invariants of the tables\<close>

definition row_claims :: "verdict_row \<Rightarrow> verdict_claims" where
  "row_claims r = \<lparr>vc_content_hash = vd_content_hash r, vc_verdict = vd_verdict r,
     vc_policy_version = vd_policy_version r, vc_effective_severity = vd_effective_severity r,
     vc_score = vd_score r\<rparr>"

text \<open>A signer whose tokens carry the claims it was given; \<open>claims_in\<close> reads a token.\<close>

definition signer_ok :: "(string \<Rightarrow> verdict_claims) \<Rightarrow> signer \<Rightarrow> bool" where
  "signer_ok claims_in sg \<longleftrightarrow> (\<forall>c jws. sg_sign sg c = Inr jws \<longrightarrow> claims_in jws = c)"

definition in_band :: "string \<Rightarrow> int \<Rightarrow> bool" where
  "in_band name sc \<longleftrightarrow> (\<exists>v. name = verdict_name v \<and> fst (score_band v) \<le> sc \<and> sc \<le> snd (score_band v))"

definition verdict_row_ok :: "(string \<Rightarrow> verdict_claims) \<Rightarrow> verdict_row \<Rightarrow> bool" where
  "verdict_row_ok claims_in r \<longleftrightarrow> claims_in (vd_jws_signature r) = row_claims r \<and> in_band (vd_verdict r) (vd_score r)"

definition outbox_of :: "gate_db \<Rightarrow> string \<Rightarrow> outbox_row list" where
  "outbox_of db sid = filter (\<lambda>e. ob_aggregate_id e = sid) (gd_outbox db)"

text \<open>The newest outbox event of a scan carries the verdict row as it stands.\<close>

definition announced :: "outbox_row list \<Rightarrow> string \<Rightarrow> verdict_row option \<Rightarrow> bool" where
  "announced evs sid r = (case r of
      None \<Rightarrow> evs = []
    | Some r \<Rightarrow> evs \<noteq> [] \<and> ob_payload (last evs) =
        outbox_payload sid (vd_content_hash r) (vd_verdict r) (vd_jti r) (vd_jws_signature r))"

definition is_verdict_intent :: "intent_row \<Rightarrow> bool" where
  "is_verdict_intent i \<longleftrightarrow> ai_action i \<in> {''verdict_issued'', ''review_decided''}"

text \<open>The audit intent of an outbox event names the same scan and the same verdict.\<close>

definition audits :: "intent_row \<Rightarrow> outbox_row \<Rightarrow> bool" where
  "audits i e \<longleftrightarrow> map_of (ai_payload i) ''scan_id'' = Some (PStr (ob_aggregate_id e)) \<and>
     map_of (ai_payload i) (if ai_action i = ''verdict_issued'' then ''verdict'' else ''new_verdict'') =
     map_of (ob_payload e) ''verdict''"

definition verdicts_ok :: "(string \<Rightarrow> verdict_claims) \<Rightarrow> gate_db \<Rightarrow> bool" where
  "verdicts_ok claims_in db \<longleftrightarrow>
     distinct (map fst (gd_verdicts db)) \<and> distinct (map (vd_jti \<circ> snd) (gd_verdicts db)) \<and>
     (\<forall>r \<in> snd ` set (gd_verdicts db). verdict_row_ok claims_in r) \<and>
     (\<forall>sid. announced (outbox_of db sid) sid (map_of (gd_verdicts db) sid)) \<and>
     list_all2 audits (filter is_verdict_intent (gd_intents db)) (gd_outbox db)"

definition allowlist_row_ok :: "allowlist_row \<Rightarrow> bool" where
  "allowlist_row_ok r \<longleftrightarrow> aw_approved_by r \<noteq> aw_requested_by r \<and> aw_approved_by r \<noteq> [] \<and>
     aw_requested_by r \<noteq> [] \<and> aw_rule_id r \<noteq> [] \<and>
     aw_scope_type r \<in> {''content_hash'', ''skill_id'', ''rule_global''} \<and>
     (aw_scope_type r = ''rule_global'' \<or> aw_scope_value r \<noteq> [])"

definition proposal_ok :: "proposal_row \<Rightarrow> bool" where
  "proposal_ok p \<longleftrightarrow> pp_status p \<in> {''pending'', ''approved'', ''rejected''} \<and>
     (pp_changes_hard_gate_rules p \<and> pp_status p = ''approved'' \<longrightarrow>
        (\<exists>a. pp_approved_by p = Some a \<and> a \<noteq> pp_proposed_by p)) \<and>
     (\<not> pp_changes_hard_gate_rules p \<longrightarrow> pp_status p = ''approved'')"

definition workflow_ok :: "gate_db \<Rightarrow> bool" where
  "workflow_ok db \<longleftrightarrow> list_all allowlist_row_ok (map snd (gd_allowlist db)) \<and>
     list_all proposal_ok (map snd (gd_proposals db)) \<and>
     map fst (gd_proposals db) = [1..<Suc (length (gd_proposals db))]"

section \<open>Facts\<close>

lemma dict_put_new: "k \<notin> fst ` set m \<Longrightarrow> dict_put k v m = m @ [(k, v)]"
  by (induction m) auto

lemma dict_put_snd: "x \<in> snd ` set (dict_put k v m) \<Longrightarrow> x = v \<or> x \<in> snd ` set m"
  by (induction m) (auto split: if_splits)

lemma distinct_val_put:
  assumes "distinct (map fst m)" "distinct (map (f \<circ> snd) m)" "f v \<notin> f ` snd ` {p \<in> set m. fst p \<noteq> k}"
  shows "distinct (map (f \<circ> snd) (dict_put k v m))"
  using assms
proof (induction m)
  case Nil
  then show ?case by simp
next
  case (Cons p m)
  show ?case
  proof (cases "fst p = k")
    case True
    then have eq: "dict_put k v (p # m) = (k, v) # m" by (cases p) simp
    have "{q \<in> set (p # m). fst q \<noteq> k} = set m" using Cons.prems(1) True by (force simp: image_iff)
    then have "f v \<notin> f ` snd ` set m" using Cons.prems(3) by simp
    then show ?thesis using Cons.prems(2) eq by (auto simp: image_iff)
  next
    case False
    then have eq: "dict_put k v (p # m) = p # dict_put k v m" by (cases p) simp
    have "distinct (map (f \<circ> snd) (dict_put k v m))"
      by (rule Cons.IH) (use Cons.prems in auto)
    moreover have "f (snd p) \<noteq> f y" if "y \<in> snd ` set (dict_put k v m)" for y
    proof -
      have "f (snd p) \<in> f ` snd ` {q \<in> set (p # m). fst q \<noteq> k}" using False by simp
      then have "f v \<noteq> f (snd p)" using Cons.prems(3) by metis
      moreover have "f (snd p) \<noteq> f z" if "z \<in> snd ` set m" for z using that Cons.prems(2) by auto
      ultimately show ?thesis using dict_put_snd [OF that] by metis
    qed
    ultimately show ?thesis unfolding eq by (auto simp: comp_def)
  qed
qed

text \<open>One write of a verdict: the row, its outbox event and its audit intent together.\<close>

lemma verdicts_ok_write:
  assumes ok: "verdicts_ok claims_in db"
    and v: "gd_verdicts db' = dict_put sid r (gd_verdicts db)"
    and o: "gd_outbox db' = gd_outbox db @ [e]"
    and i: "gd_intents db' = gd_intents db @ [a]"
    and r: "verdict_row_ok claims_in r"
    and e: "ob_aggregate_id e = sid"
      "ob_payload e = outbox_payload sid (vd_content_hash r) (vd_verdict r) (vd_jti r) (vd_jws_signature r)"
    and a: "is_verdict_intent a" "audits a e"
    and jti: "vd_jti r \<notin> vd_jti ` snd ` {p \<in> set (gd_verdicts db). fst p \<noteq> sid}"
  shows "verdicts_ok claims_in db'"
proof -
  note old = ok [unfolded verdicts_ok_def]
  have out: "outbox_of db' s = outbox_of db s @ (if s = sid then [e] else [])" for s
    using o e(1) by (simp add: outbox_of_def)
  have "announced (outbox_of db' s) s (map_of (gd_verdicts db') s)" for s
    using old e(2) by (cases "s = sid") (simp_all add: v out update_conv' announced_def)
  moreover have "\<forall>x \<in> snd ` set (gd_verdicts db'). verdict_row_ok claims_in x"
  proof
    fix x assume "x \<in> snd ` set (gd_verdicts db')"
    then have "x = r \<or> x \<in> snd ` set (gd_verdicts db)" unfolding v by (rule dict_put_snd)
    then show "verdict_row_ok claims_in x" using old r by blast
  qed
  moreover have "list_all2 audits (filter is_verdict_intent (gd_intents db')) (gd_outbox db')"
    unfolding o i using old a by (simp add: list_all2_appendI)
  moreover have "distinct (map (vd_jti \<circ> snd) (gd_verdicts db'))"
    unfolding v using old jti by (blast intro: distinct_val_put)
  moreover have "distinct (map fst (gd_verdicts db'))" unfolding v using old by (blast intro: distinct_update)
  ultimately show ?thesis unfolding verdicts_ok_def by blast
qed

text \<open>Operations that leave verdicts and outbox alone and add no verdict intent.\<close>

lemma verdicts_ok_frame:
  assumes "verdicts_ok claims_in db" "gd_verdicts db' = gd_verdicts db" "gd_outbox db' = gd_outbox db"
    and "gd_intents db' = gd_intents db @ [a]" "\<not> is_verdict_intent a"
  shows "verdicts_ok claims_in db'"
  using assms by (simp add: verdicts_ok_def outbox_of_def)

lemma decide_and_record_InrE:
  assumes "decide_and_record db utcnow sg sid sr p t al op now extra = Inr (vr, db')"
  obtains r e a where "vr = decide sr p t al now 0 None"
    "gd_verdicts db' = gd_verdicts db @ [(sid, r)]" "sid \<notin> fst ` set (gd_verdicts db)"
    "gd_outbox db' = gd_outbox db @ [e]" "gd_intents db' = gd_intents db @ [a]"
    "gd_allowlist db' = gd_allowlist db" "gd_proposals db' = gd_proposals db"
    "vd_verdict r = verdict_name (vr_verdict vr)" "vd_score r = vr_score vr"
    "vd_content_hash r = sr_content_hash sr" "vd_fail_closed r = vr_fail_closed vr"
    "vd_reasons r = vr_reasons vr @ extra" "vd_policy_version r = vr_policy_version vr"
    "vd_effective_severity r = severity_int (vr_effective_severity vr)" "vd_issued_at r = utcnow"
    "sg_sign sg (row_claims r) = Inr (vd_jws_signature r)" "sg_jti sg (vd_jws_signature r) = Inr (vd_jti r)"
    "vd_jti r \<notin> vd_jti ` snd ` set (gd_verdicts db)"
    "ob_aggregate_id e = sid" "ob_event_type e = ''verdict_issued''" "\<not> ob_dispatched e"
    "ob_payload e = outbox_payload sid (vd_content_hash r) (vd_verdict r) (vd_jti r) (vd_jws_signature r)"
    "is_verdict_intent a" "audits a e" "ai_operator a = op"
proof -
  let ?vr = "decide sr p t al now 0 None"
  define c where "c = \<lparr>vc_content_hash = sr_content_hash sr, vc_verdict = verdict_name (vr_verdict ?vr),
    vc_policy_version = vr_policy_version ?vr, vc_effective_severity = severity_int (vr_effective_severity ?vr),
    vc_score = vr_score ?vr\<rparr>"
  obtain jws jti where s: "sg_sign sg c = Inr jws" "sg_jti sg jws = Inr jti"
    and fresh: "sid \<notin> fst ` set (gd_verdicts db)" "jti \<notin> vd_jti ` snd ` set (gd_verdicts db)"
    and res: "vr = ?vr"
    using assms unfolding decide_and_record_def Let_def c_def [symmetric] res_bind_eq_Inr raise_if_eq_Inr by blast
  define r where "r = \<lparr>vd_content_hash = sr_content_hash sr, vd_verdict = verdict_name (vr_verdict ?vr),
    vd_policy_version = vr_policy_version ?vr, vd_jti = jti, vd_jws_signature = jws,
    vd_effective_severity = severity_int (vr_effective_severity ?vr), vd_score = vr_score ?vr,
    vd_reasons = vr_reasons ?vr @ extra, vd_fail_closed = vr_fail_closed ?vr, vd_issued_at = utcnow\<rparr>"
  have rc: "row_claims r = c" by (simp add: r_def c_def row_claims_def)
  define e where "e = \<lparr>ob_aggregate_id = sid, ob_event_type = ''verdict_issued'',
    ob_payload = outbox_payload sid (sr_content_hash sr) (verdict_name (vr_verdict ?vr)) jti jws,
    ob_dispatched = False, ob_created_at = utcnow\<rparr>"
  define a where "a = \<lparr>ai_operator = op, ai_action = ''verdict_issued'',
    ai_payload = [(''scan_id'', PStr sid), (''content_hash'', PStr (sr_content_hash sr)),
      (''verdict'', PStr (verdict_name (vr_verdict ?vr))), (''policy_version'', PStr (vr_policy_version ?vr)),
      (''reasons'', PList (map PStr (vr_reasons ?vr @ extra)))]\<rparr>"
  have "decide_and_record db utcnow sg sid sr p t al op now extra = Inr (?vr,
      db\<lparr>gd_verdicts := gd_verdicts db @ [(sid, r)], gd_outbox := gd_outbox db @ [e],
      gd_intents := gd_intents db @ [a]\<rparr>)"
    using s fresh unfolding decide_and_record_def Let_def c_def [symmetric]
    by (simp add: raise_if_def r_def e_def a_def)
  then have db': "db' = db\<lparr>gd_verdicts := gd_verdicts db @ [(sid, r)], gd_outbox := gd_outbox db @ [e],
      gd_intents := gd_intents db @ [a]\<rparr>"
    using assms by simp
  have au: "audits a e" by (simp add: audits_def a_def e_def outbox_payload_def)
  have vi: "is_verdict_intent a" by (simp add: is_verdict_intent_def a_def)
  show thesis
    by (rule that [of r e a]) (use s fresh res rc au vi in \<open>simp_all add: db' r_def e_def a_def\<close>)
qed

lemma decide_and_record_ok:
  assumes "verdicts_ok claims_in db" "signer_ok claims_in sg"
    and rec: "decide_and_record db utcnow sg sid sr p t al op now extra = Inr (vr, db')"
  shows "verdicts_ok claims_in db'"
  using rec
proof (rule decide_and_record_InrE)
  fix r e a
  assume *: "vr = decide sr p t al now 0 None"
    "gd_verdicts db' = gd_verdicts db @ [(sid, r)]" "sid \<notin> fst ` set (gd_verdicts db)"
    "gd_outbox db' = gd_outbox db @ [e]" "gd_intents db' = gd_intents db @ [a]"
    "vd_verdict r = verdict_name (vr_verdict vr)" "vd_score r = vr_score vr"
    "sg_sign sg (row_claims r) = Inr (vd_jws_signature r)"
    "vd_jti r \<notin> vd_jti ` snd ` set (gd_verdicts db)" "ob_aggregate_id e = sid"
    "ob_payload e = outbox_payload sid (vd_content_hash r) (vd_verdict r) (vd_jti r) (vd_jws_signature r)"
    "is_verdict_intent a" "audits a e"
  have "in_band (vd_verdict r) (vd_score r)"
    using decide_score_band [of sr p t al now 0 None] unfolding in_band_def *(6) *(7) *(1)
    by (intro exI [of _ "vr_verdict (decide sr p t al now 0 None)"]) simp
  moreover have "claims_in (vd_jws_signature r) = row_claims r"
    using assms(2) *(8) unfolding signer_ok_def by blast
  ultimately have r: "verdict_row_ok claims_in r" unfolding verdict_row_ok_def by blast
  have put: "gd_verdicts db' = dict_put sid r (gd_verdicts db)" using *(2,3) by (simp add: dict_put_new)
  have jti: "vd_jti r \<notin> vd_jti ` snd ` {p \<in> set (gd_verdicts db). fst p \<noteq> sid}" using *(9) by blast
  show ?thesis
    using verdicts_ok_write [OF assms(1) put *(4) *(5) r *(10) *(11) *(12) *(13) jti] .
qed

lemma grant_InrE:
  assumes "grant_allowlist_entry db u st sv rid ex ap rq rs = Inr (row, db')"
  obtains a where "gd_allowlist db' = gd_allowlist db @ [(u, row)]" "gd_verdicts db' = gd_verdicts db"
    "gd_outbox db' = gd_outbox db" "gd_proposals db' = gd_proposals db" "gd_intents db' = gd_intents db @ [a]"
    "ai_action a = ''allowlist_granted''" "ai_operator a = ap" "allowlist_row_ok row"
    "fromtimestamp ex = Inr (aw_expires_at row)" "0 < ex" "u \<notin> fst ` set (gd_allowlist db)"
    "aw_approved_by row = ap" "aw_requested_by row = rq" "aw_rule_id row = rid"
    "aw_scope_type row = st" "aw_scope_value row = sv"
proof -
  have post: "allowlist_entry_post_init e = Inr x \<Longrightarrow> al_approved_by e \<noteq> [] \<and> al_requested_by e \<noteq> [] \<and>
      al_approved_by e \<noteq> al_requested_by e \<and> 0 < al_expires_at e \<and>
      al_scope_type e \<in> {''content_hash'', ''skill_id'', ''rule_global''} \<and>
      (al_scope_type e = ''rule_global'' \<or> al_scope_value e \<noteq> []) \<and> al_rule_id e \<noteq> []" for e x
    unfolding allowlist_entry_post_init_def res_bind_eq_Inr raise_if_eq_Inr by (elim exE conjE) simp
  let ?e = "\<lparr>al_scope_type = st, al_scope_value = sv, al_rule_id = rid, al_expires_at = ex,
    al_approved_by = ap, al_requested_by = rq, al_reason = rs\<rparr>"
  obtain x where x: "allowlist_entry_post_init ?e = Inr x"
    using assms unfolding grant_allowlist_entry_def by (cases "allowlist_entry_post_init ?e") simp_all
  obtain dt where dt: "fromtimestamp ex = Inr dt"
    using assms x unfolding grant_allowlist_entry_def by (cases "fromtimestamp ex") simp_all
  have u: "u \<notin> fst ` set (gd_allowlist db)"
    using assms x dt unfolding grant_allowlist_entry_def by (simp add: Let_def res_bind_eq_Inr)
  define row' where "row' = \<lparr>aw_scope_type = st, aw_scope_value = sv, aw_rule_id = rid, aw_expires_at = dt,
    aw_approved_by = ap, aw_requested_by = rq, aw_reason = Some rs\<rparr>"
  define a where "a = \<lparr>ai_operator = ap, ai_action = ''allowlist_granted'',
    ai_payload = [(''allowlist_id'', PStr u), (''scope_type'', PStr st),
      (''scope_value'', PStr sv), (''rule_id'', PStr rid), (''requested_by'', PStr rq)]\<rparr>"
  have "grant_allowlist_entry db u st sv rid ex ap rq rs = Inr (row',
      db\<lparr>gd_allowlist := gd_allowlist db @ [(u, row')], gd_intents := gd_intents db @ [a]\<rparr>)"
    using x dt u by (simp add: grant_allowlist_entry_def raise_if_def row'_def a_def Let_def)
  then have eq: "row = row'" "db' = db\<lparr>gd_allowlist := gd_allowlist db @ [(u, row')], gd_intents := gd_intents db @ [a]\<rparr>"
    using assms by simp_all
  note px = post [OF x, simplified]
  have ok: "allowlist_row_ok row'" unfolding allowlist_row_ok_def row'_def using px by simp
  have "0 < ex" using px by (elim conjE)
  then show thesis
    by (intro that [of a]) (simp_all add: eq ok dt u, simp_all add: row'_def a_def dt)
qed

lemma workflow_ok_frame:
  "workflow_ok db \<Longrightarrow> gd_allowlist db' = gd_allowlist db \<Longrightarrow> gd_proposals db' = gd_proposals db \<Longrightarrow> workflow_ok db'"
  by (simp add: workflow_ok_def)

lemma grant_ok:
  assumes "grant_allowlist_entry db u st sv rid ex ap rq rs = Inr (row, db')"
  shows "(verdicts_ok claims_in db \<longrightarrow> verdicts_ok claims_in db') \<and> (workflow_ok db \<longrightarrow> workflow_ok db')"
  using assms
proof (rule grant_InrE)
  fix a
  assume *: "gd_allowlist db' = gd_allowlist db @ [(u, row)]" "gd_verdicts db' = gd_verdicts db"
    "gd_outbox db' = gd_outbox db" "gd_proposals db' = gd_proposals db" "gd_intents db' = gd_intents db @ [a]"
    "ai_action a = ''allowlist_granted''" "allowlist_row_ok row"
  have "\<not> is_verdict_intent a" by (simp add: is_verdict_intent_def *(6))
  then show ?thesis
    using verdicts_ok_frame [OF _ *(2) *(3) *(5)] by (simp add: workflow_ok_def *(1) *(4) *(7))
qed

lemma revoke_ok:
  assumes "revoke_allowlist_entry db u actor = Inr db'"
  shows "(verdicts_ok claims_in db \<longrightarrow> verdicts_ok claims_in db') \<and> (workflow_ok db \<longrightarrow> workflow_ok db') \<and>
    gd_allowlist db' = filter (\<lambda>(k, r). k \<noteq> u) (gd_allowlist db)"
proof (cases "map_of (gd_allowlist db) u")
  case None
  then show ?thesis using assms by (simp add: revoke_allowlist_entry_def)
next
  case (Some row)
  define a where "a = \<lparr>ai_operator = actor, ai_action = ''allowlist_revoked'',
    ai_payload = [(''allowlist_id'', PStr u), (''scope_type'', PStr (aw_scope_type row)),
      (''scope_value'', PStr (aw_scope_value row)), (''rule_id'', PStr (aw_rule_id row))]\<rparr>"
  have db': "db' = db\<lparr>gd_allowlist := filter (\<lambda>(k, r). k \<noteq> u) (gd_allowlist db), gd_intents := gd_intents db @ [a]\<rparr>"
    using assms Some by (simp add: revoke_allowlist_entry_def a_def)
  have "\<not> is_verdict_intent a" by (simp add: is_verdict_intent_def a_def)
  then have "verdicts_ok claims_in db \<longrightarrow> verdicts_ok claims_in db'"
    using verdicts_ok_frame [of claims_in db db' a] by (simp add: db')
  moreover have "workflow_ok db \<longrightarrow> workflow_ok db'"
    by (auto simp: db' workflow_ok_def list_all_iff)
  ultimately show ?thesis by (simp add: db')
qed

lemma propose_ok:
  assumes "propose_policy_change ld db now who cur y = Inr ((pid, prop), db')"
  shows "(verdicts_ok claims_in db \<longrightarrow> verdicts_ok claims_in db') \<and> (workflow_ok db \<longrightarrow> workflow_ok db')"
proof -
  obtain pol where pol: "(case (case ld y of Parsed (PDict raw) \<Rightarrow> parse_gate_policy raw
        | _ \<Rightarrow> Inl GatePolicyLoadError) of
        Inl e \<Rightarrow> Inl (if e = GatePolicyLoadError then PolicyProposalError else e) | Inr p \<Rightarrow> Inr p) = Inr pol"
    using assms unfolding propose_policy_change_def res_bind_eq_Inr by blast
  let ?c = "gp_hard_gate_rules pol \<noteq> cur"
  define n where "n = Suc (length (gd_proposals db))"
  define q where "q = \<lparr>pp_yaml = y, pp_changes_hard_gate_rules = ?c,
           pp_status = (if ?c then ''pending'' else ''approved''), pp_proposed_by = who,
           pp_approved_by = (if ?c then None else Some who), pp_reason = None,
           pp_created_at = now, pp_decided_at = (if ?c then None else Some now)\<rparr>"
  define a where "a = \<lparr>ai_operator = who, ai_action = ''policy_proposed'',
    ai_payload = [(''proposal_id'', PInt (int n)), (''changes_hard_gate_rules'', PBool ?c),
      (''status'', PStr (pp_status q))]\<rparr>"
  have "propose_policy_change ld db now who cur y = Inr ((n, q),
      db\<lparr>gd_proposals := gd_proposals db @ [(n, q)], gd_intents := gd_intents db @ [a]\<rparr>)"
    unfolding propose_policy_change_def pol by (simp only: res_bind_Inr Let_def a_def n_def q_def)
  then have eq: "pid = n" "prop = q"
     "db' = db\<lparr>gd_proposals := gd_proposals db @ [(n, q)], gd_intents := gd_intents db @ [a]\<rparr>"
    using assms by simp_all
  have "\<not> is_verdict_intent a" by (simp add: is_verdict_intent_def a_def)
  then have "verdicts_ok claims_in db \<longrightarrow> verdicts_ok claims_in db'"
    using verdicts_ok_frame [of claims_in db db' a] by (simp add: eq(3))
  moreover have "proposal_ok q" by (simp add: q_def proposal_ok_def)
  then have "workflow_ok db \<longrightarrow> workflow_ok db'" by (simp add: workflow_ok_def eq(3) n_def)
  ultimately show ?thesis by blast
qed

text \<open>Deciding a pending proposal rewrites its row in place.\<close>

lemma workflow_ok_put:
  assumes "workflow_ok db" "map_of (gd_proposals db) pid = Some p" "proposal_ok p'"
    and "gd_allowlist db' = gd_allowlist db" "gd_proposals db' = dict_put pid p' (gd_proposals db)"
  shows "workflow_ok db'"
proof -
  have mem: "pid \<in> set (map fst (gd_proposals db))" using assms(2) by (force dest: map_of_SomeD)
  then have keys: "map fst (dict_put pid p' (gd_proposals db)) = map fst (gd_proposals db)"
    by (simp add: update_keys)
  then have len: "length (dict_put pid p' (gd_proposals db)) = length (gd_proposals db)"
    by (metis length_map)
  have "list_all proposal_ok (map snd (dict_put pid p' (gd_proposals db)))"
    unfolding list_all_iff set_map
  proof
    fix x assume "x \<in> snd ` set (dict_put pid p' (gd_proposals db))"
    then have "x = p' \<or> x \<in> snd ` set (gd_proposals db)" by (rule dict_put_snd)
    then show "proposal_ok x" using assms(1,3) by (auto simp: workflow_ok_def list_all_iff)
  qed
  then show ?thesis using assms(1) keys len by (simp only: workflow_ok_def assms(4,5) simp_thms)
qed

lemma approve_InrD:
  assumes "approve_policy_proposal db now (pid, p) who = Inr db'"
  shows "pp_status p = ''pending'' \<and> who \<noteq> pp_proposed_by p \<and>
    gd_proposals db' = dict_put pid (p\<lparr>pp_status := ''approved'', pp_approved_by := Some who,
      pp_decided_at := Some now\<rparr>) (gd_proposals db) \<and>
    gd_allowlist db' = gd_allowlist db \<and> (verdicts_ok claims_in db \<longrightarrow> verdicts_ok claims_in db')"
proof -
  define a where "a = \<lparr>ai_operator = who, ai_action = ''policy_approved'',
    ai_payload = [(''proposal_id'', PInt (int pid)), (''proposed_by'', PStr (pp_proposed_by p))]\<rparr>"
  define p' where "p' = p\<lparr>pp_status := ''approved'', pp_approved_by := Some who, pp_decided_at := Some now\<rparr>"
  have g: "pp_status p = ''pending''" "who \<noteq> pp_proposed_by p"
    using assms unfolding approve_policy_proposal_def prod.case res_bind_eq_Inr raise_if_eq_Inr by blast+
  have db': "db' = db\<lparr>gd_proposals := dict_put pid p' (gd_proposals db), gd_intents := gd_intents db @ [a]\<rparr>"
    using assms g by (simp add: approve_policy_proposal_def a_def p'_def)
  have "\<not> is_verdict_intent a" by (simp add: is_verdict_intent_def a_def)
  then have "verdicts_ok claims_in db \<longrightarrow> verdicts_ok claims_in db'"
    using verdicts_ok_frame [of claims_in db db' a] by (simp add: db')
  then show ?thesis using g by (simp add: db' p'_def)
qed

lemma reject_InrD:
  assumes "reject_policy_proposal db now (pid, p) who why = Inr db'"
  shows "pp_status p = ''pending'' \<and>
    gd_proposals db' = dict_put pid (p\<lparr>pp_status := ''rejected'', pp_approved_by := Some who,
      pp_reason := Some why, pp_decided_at := Some now\<rparr>) (gd_proposals db) \<and>
    gd_allowlist db' = gd_allowlist db \<and> (verdicts_ok claims_in db \<longrightarrow> verdicts_ok claims_in db')"
proof -
  define a where "a = \<lparr>ai_operator = who, ai_action = ''policy_rejected'',
    ai_payload = [(''proposal_id'', PInt (int pid)), (''proposed_by'', PStr (pp_proposed_by p)),
      (''reason'', PStr why)]\<rparr>"
  define p' where "p' = p\<lparr>pp_status := ''rejected'', pp_approved_by := Some who, pp_reason := Some why,
    pp_decided_at := Some now\<rparr>"
  have g: "pp_status p = ''pending''"
    using assms unfolding reject_policy_proposal_def prod.case res_bind_eq_Inr raise_if_eq_Inr by blast
  have db': "db' = db\<lparr>gd_proposals := dict_put pid p' (gd_proposals db), gd_intents := gd_intents db @ [a]\<rparr>"
    using assms g by (simp add: reject_policy_proposal_def a_def p'_def)
  have "\<not> is_verdict_intent a" by (simp add: is_verdict_intent_def a_def)
  then have "verdicts_ok claims_in db \<longrightarrow> verdicts_ok claims_in db'"
    using verdicts_ok_frame [of claims_in db db' a] by (simp add: db')
  then show ?thesis using g by (simp add: db' p'_def)
qed

lemma decided_proposal_ok:
  assumes "proposal_ok p" "pp_status p = ''pending''"
  shows "who \<noteq> pp_proposed_by p \<Longrightarrow>
      proposal_ok (p\<lparr>pp_status := ''approved'', pp_approved_by := Some who, pp_decided_at := Some now\<rparr>)"
    and "proposal_ok (p\<lparr>pp_status := ''rejected'', pp_approved_by := Some who2, pp_reason := Some why,
      pp_decided_at := Some now\<rparr>)"
  using assms by (simp_all add: proposal_ok_def)

end
