(* ===== verification/Findings_Schema.thy ===== *)
theory Findings_Schema
  imports Core_Samples
begin

text \<open>
  The trust boundary of findings (\<open>libs/schemas/findings.py\<close>). The data transfer objects are
  records; what Pydantic does with a raw document (coercions and messages) is a parameter, and the
  two documented facts the code relies on are the predicate \<open>validator_ok\<close>: what a model accepts
  satisfies the declared field constraints, and a document that already has the declared types is
  accepted as it is. JSON values are \<open>pyval\<close>s; the iteration order of a frozenset is a parameter.
\<close>

section \<open>Values of the enumerations\<close>

fun capability_value :: "engine_capability \<Rightarrow> string" where
  "capability_value CAP_STATIC = ''static''"
| "capability_value SEMANTIC_LLM = ''semantic_llm''"
| "capability_value THREAT_INTEL = ''threat_intel''"
| "capability_value DYNAMIC_SANDBOX = ''dynamic_sandbox''"
| "capability_value SCA = ''sca''"
| "capability_value FILE_COMPLIANCE = ''file_compliance''"

fun status_value :: "engine_status \<Rightarrow> string" where
  "status_value OK = ''ok''"
| "status_value PARTIAL = ''partial''"
| "status_value ERROR = ''error''"
| "status_value TIMEOUT = ''timeout''"

fun scan_mode_value :: "scan_mode \<Rightarrow> string" where
  "scan_mode_value MODE_STATIC = ''static''"
| "scan_mode_value MODE_DYNAMIC = ''dynamic''"

fun signal_value :: "trifecta_signal \<Rightarrow> string" where
  "signal_value PRIVATE_DATA_ACCESS = ''private_data_access''"
| "signal_value UNTRUSTED_INPUT = ''untrusted_input''"
| "signal_value EXTERNAL_EGRESS = ''external_egress''"

section \<open>Data transfer objects\<close>

definition MAX_ANALYZE_DURATION_MS :: int where
  "MAX_ANALYZE_DURATION_MS = 2147483647"

definition MAX_RULE_ID_CHARS :: nat where
  "MAX_RULE_ID_CHARS = 128"

record finding_dto =
  fo_rule_id :: string
  fo_test_item_id :: string
  fo_category :: detection_category
  fo_title :: string
  fo_severity :: severity
  fo_confidence :: real
  fo_source_engine :: string
  fo_source_capability :: engine_capability
  fo_trifecta_signals :: "trifecta_signal list"
  fo_file_path :: "string option"
  fo_start_line :: "int option"
  fo_snippet_hash :: "string option"
  fo_evidence_redacted :: string

record engine_metadata_dto =
  mo_name :: string
  mo_version :: string
  mo_ruleset_digest :: string
  mo_capabilities :: "engine_capability list"
  mo_requires_network :: bool
  mo_requires_llm :: bool
  mo_deterministic :: bool

record engine_result_dto =
  ro_engine :: engine_metadata_dto
  ro_status :: engine_status
  ro_scan_mode :: scan_mode
  ro_llm_used :: bool
  ro_error :: "string option"
  ro_analyze_duration_ms :: "int option"
  ro_findings :: "finding_dto list"

text \<open>The \<open>Field\<close> constraints.\<close>

definition finding_dto_ok :: "finding_dto \<Rightarrow> bool" where
  "finding_dto_ok d \<longleftrightarrow> length (fo_rule_id d) \<le> MAX_RULE_ID_CHARS \<and>
     0 \<le> fo_confidence d \<and> fo_confidence d \<le> 1"

definition engine_result_dto_ok :: "engine_result_dto \<Rightarrow> bool" where
  "engine_result_dto_ok d \<longleftrightarrow> list_all finding_dto_ok (ro_findings d) \<and>
     (case ro_analyze_duration_ms d of None \<Rightarrow> True
      | Some ms \<Rightarrow> 0 \<le> ms \<and> ms \<le> MAX_ANALYZE_DURATION_MS)"

section \<open>From untrusted documents to domain objects\<close>

definition finding_of_dto :: "finding_dto \<Rightarrow> finding res" where
  "finding_of_dto f = finding_post_init
     \<lparr>fd_rule_id = fo_rule_id f, fd_test_item_id = fo_test_item_id f, fd_category = fo_category f,
      fd_title = fo_title f, fd_severity = fo_severity f, fd_confidence = fo_confidence f,
      fd_source_engine = fo_source_engine f, fd_source_capability = fo_source_capability f,
      fd_trifecta_signals = set (fo_trifecta_signals f), fd_file_path = fo_file_path f,
      fd_start_line = fo_start_line f, fd_snippet_hash = fo_snippet_hash f,
      fd_evidence_redacted = fo_evidence_redacted f\<rparr>"

text \<open>\<open>except ValueError as exc: raise UntrustedFindingsError\<close>\<close>

definition as_untrusted :: "'a res \<Rightarrow> 'a res" where
  "as_untrusted r = (case r of Inl e \<Rightarrow> Inl (if e = ValueError then UntrustedFindingsError else e)
                     | Inr x \<Rightarrow> Inr x)"

definition parse_engine_result_with_duration ::
  "('raw \<Rightarrow> engine_result_dto option) \<Rightarrow> 'raw \<Rightarrow> (engine_result \<times> int option) res" where
  "parse_engine_result_with_duration model_validate_json raw_json =
     (case model_validate_json raw_json of
        None \<Rightarrow> Inl UntrustedFindingsError
      | Some dto \<Rightarrow>
          res_bind (as_untrusted
            (res_bind (engine_metadata_post_init
                \<lparr>em_name = mo_name (ro_engine dto), em_version = mo_version (ro_engine dto),
                 em_ruleset_digest = mo_ruleset_digest (ro_engine dto),
                 em_capabilities = set (mo_capabilities (ro_engine dto)),
                 em_requires_network = mo_requires_network (ro_engine dto),
                 em_requires_llm = mo_requires_llm (ro_engine dto),
                 em_deterministic = mo_deterministic (ro_engine dto)\<rparr>) (\<lambda>metadata.
             res_bind (res_map finding_of_dto (ro_findings dto)) (\<lambda>findings.
             Inr \<lparr>er_engine = metadata, er_findings = findings, er_status = ro_status dto,
                  er_scan_mode = ro_scan_mode dto, er_llm_used = ro_llm_used dto,
                  er_error = ro_error dto\<rparr>)))) (\<lambda>result.
          Inr (result, ro_analyze_duration_ms dto)))"

definition parse_engine_result ::
  "('raw \<Rightarrow> engine_result_dto option) \<Rightarrow> 'raw \<Rightarrow> engine_result res" where
  "parse_engine_result model_validate_json raw_json =
     res_bind (parse_engine_result_with_duration model_validate_json raw_json) (\<lambda>p. Inr (fst p))"

type_synonym json_object = "(string \<times> pyval) list"

definition opt_val :: "('a \<Rightarrow> pyval) \<Rightarrow> 'a option \<Rightarrow> pyval" where
  "opt_val c v = (case v of None \<Rightarrow> PNone | Some x \<Rightarrow> c x)"

definition serialize_finding :: "(trifecta_signal set \<Rightarrow> trifecta_signal list) \<Rightarrow> finding \<Rightarrow> json_object" where
  "serialize_finding order f =
     [(''rule_id'', PStr (fd_rule_id f)), (''test_item_id'', PStr (fd_test_item_id f)),
      (''category'', PStr (category_value (fd_category f))), (''title'', PStr (fd_title f)),
      (''severity'', PInt (severity_int (fd_severity f))),
      (''confidence'', PFloat (Fin (fd_confidence f))),
      (''source_engine'', PStr (fd_source_engine f)),
      (''source_capability'', PStr (capability_value (fd_source_capability f))),
      (''trifecta_signals'', PList (map (PStr \<circ> signal_value) (order (fd_trifecta_signals f)))),
      (''file_path'', opt_val PStr (fd_file_path f)), (''start_line'', opt_val PInt (fd_start_line f)),
      (''snippet_hash'', opt_val PStr (fd_snippet_hash f)),
      (''evidence_redacted'', PStr (fd_evidence_redacted f))]"

definition deserialize_finding :: "(json_object \<Rightarrow> finding_dto option) \<Rightarrow> json_object \<Rightarrow> finding res" where
  "deserialize_finding model_validate d =
     (case model_validate d of
        None \<Rightarrow> Inl UntrustedFindingsError
      | Some dto \<Rightarrow> as_untrusted (finding_of_dto dto))"

definition py_obj :: "json_object \<Rightarrow> pyval" where
  "py_obj kvs = PDict (map (\<lambda>(k, v). (PStr k, v)) kvs)"

definition serialize_engine_result ::
  "(engine_capability set \<Rightarrow> engine_capability list) \<Rightarrow> (trifecta_signal set \<Rightarrow> trifecta_signal list) \<Rightarrow>
   engine_result \<Rightarrow> int option \<Rightarrow> json_object" where
  "serialize_engine_result corder sorder result analyze_duration_ms =
     [(''engine'', py_obj
        [(''name'', PStr (em_name (er_engine result))), (''version'', PStr (em_version (er_engine result))),
         (''ruleset_digest'', PStr (em_ruleset_digest (er_engine result))),
         (''capabilities'', PList (map (PStr \<circ> capability_value) (corder (em_capabilities (er_engine result))))),
         (''requires_network'', PBool (em_requires_network (er_engine result))),
         (''requires_llm'', PBool (em_requires_llm (er_engine result))),
         (''deterministic'', PBool (em_deterministic (er_engine result)))]),
      (''status'', PStr (status_value (er_status result))),
      (''scan_mode'', PStr (scan_mode_value (er_scan_mode result))),
      (''llm_used'', PBool (er_llm_used result)), (''error'', opt_val PStr (er_error result)),
      (''findings'', PList (map (py_obj \<circ> serialize_finding sorder) (er_findings result)))] @
     (case analyze_duration_ms of None \<Rightarrow> [] | Some ms \<Rightarrow> [(''analyze_duration_ms'', PInt ms)])"

section \<open>What the code relies on in the validator\<close>

text \<open>The document of a transfer object whose values have the declared types.\<close>

definition dump_finding :: "finding_dto \<Rightarrow> json_object" where
  "dump_finding d =
     [(''rule_id'', PStr (fo_rule_id d)), (''test_item_id'', PStr (fo_test_item_id d)),
      (''category'', PStr (category_value (fo_category d))), (''title'', PStr (fo_title d)),
      (''severity'', PInt (severity_int (fo_severity d))),
      (''confidence'', PFloat (Fin (fo_confidence d))),
      (''source_engine'', PStr (fo_source_engine d)),
      (''source_capability'', PStr (capability_value (fo_source_capability d))),
      (''trifecta_signals'', PList (map (PStr \<circ> signal_value) (fo_trifecta_signals d))),
      (''file_path'', opt_val PStr (fo_file_path d)), (''start_line'', opt_val PInt (fo_start_line d)),
      (''snippet_hash'', opt_val PStr (fo_snippet_hash d)),
      (''evidence_redacted'', PStr (fo_evidence_redacted d))]"

definition dump_result :: "engine_result_dto \<Rightarrow> json_object" where
  "dump_result d =
     [(''engine'', py_obj
        [(''name'', PStr (mo_name (ro_engine d))), (''version'', PStr (mo_version (ro_engine d))),
         (''ruleset_digest'', PStr (mo_ruleset_digest (ro_engine d))),
         (''capabilities'', PList (map (PStr \<circ> capability_value) (mo_capabilities (ro_engine d)))),
         (''requires_network'', PBool (mo_requires_network (ro_engine d))),
         (''requires_llm'', PBool (mo_requires_llm (ro_engine d))),
         (''deterministic'', PBool (mo_deterministic (ro_engine d)))]),
      (''status'', PStr (status_value (ro_status d))),
      (''scan_mode'', PStr (scan_mode_value (ro_scan_mode d))),
      (''llm_used'', PBool (ro_llm_used d)), (''error'', opt_val PStr (ro_error d)),
      (''findings'', PList (map (py_obj \<circ> dump_finding) (ro_findings d)))] @
     (case ro_analyze_duration_ms d of None \<Rightarrow> [] | Some ms \<Rightarrow> [(''analyze_duration_ms'', PInt ms)])"

definition validator_ok :: "('o \<Rightarrow> 'raw) \<Rightarrow> ('o \<Rightarrow> bool) \<Rightarrow> ('raw \<Rightarrow> 'o option) \<Rightarrow> bool" where
  "validator_ok dump ok validate \<longleftrightarrow>
     (\<forall>raw d. validate raw = Some d \<longrightarrow> ok d) \<and> (\<forall>d. ok d \<longrightarrow> validate (dump d) = Some d)"

section \<open>Facts\<close>

text \<open>The findings that pass the boundary: constructible, and with a rule id that fits its column.\<close>

definition storable_finding :: "finding \<Rightarrow> bool" where
  "storable_finding f \<longleftrightarrow> valid_finding f \<and> length (fd_rule_id f) \<le> MAX_RULE_ID_CHARS"

lemma as_untrusted_Inr [simp]: "as_untrusted r = Inr x \<longleftrightarrow> r = Inr x"
  by (cases r) (auto simp: as_untrusted_def)

lemma as_untrusted_of_Inr [simp]: "as_untrusted (Inr x) = Inr x"
  by (simp add: as_untrusted_def)

lemma finding_post_init_Inl: "finding_post_init f = Inl e \<Longrightarrow> e = ValueError"
  by (auto simp: finding_post_init_def res_bind_eq_Inl)

lemma finding_of_dto_storable:
  "finding_dto_ok d \<Longrightarrow> finding_of_dto d = Inr f \<Longrightarrow> storable_finding f"
  by (auto simp: finding_of_dto_def finding_post_init_iff storable_finding_def finding_dto_ok_def)

definition dto_of_finding :: "(trifecta_signal set \<Rightarrow> trifecta_signal list) \<Rightarrow> finding \<Rightarrow> finding_dto" where
  "dto_of_finding order f =
     \<lparr>fo_rule_id = fd_rule_id f, fo_test_item_id = fd_test_item_id f, fo_category = fd_category f,
      fo_title = fd_title f, fo_severity = fd_severity f, fo_confidence = fd_confidence f,
      fo_source_engine = fd_source_engine f, fo_source_capability = fd_source_capability f,
      fo_trifecta_signals = order (fd_trifecta_signals f), fo_file_path = fd_file_path f,
      fo_start_line = fd_start_line f, fo_snippet_hash = fd_snippet_hash f,
      fo_evidence_redacted = fd_evidence_redacted f\<rparr>"

lemma serialize_finding_dump: "serialize_finding order f = dump_finding (dto_of_finding order f)"
  by (simp add: serialize_finding_def dump_finding_def dto_of_finding_def)

lemma dto_of_finding_ok: "storable_finding f \<Longrightarrow> finding_dto_ok (dto_of_finding order f)"
  by (simp add: finding_dto_ok_def dto_of_finding_def storable_finding_def valid_finding_def)

lemma finding_of_dto_of_finding:
  assumes "valid_finding f" "\<And>S. set (order S) = S"
  shows "finding_of_dto (dto_of_finding order f) = Inr f"
  using assms by (simp add: finding_of_dto_def dto_of_finding_def finding_post_init_iff valid_finding_def)

lemma deserialize_serialize:
  assumes "validator_ok dump_finding finding_dto_ok V" "storable_finding f" "\<And>S. set (order S) = S"
  shows "deserialize_finding V (serialize_finding order f) = Inr f"
proof -
  have "V (serialize_finding order f) = Some (dto_of_finding order f)"
    using assms(1) dto_of_finding_ok [OF assms(2)] by (simp add: validator_ok_def serialize_finding_dump)
  then show ?thesis
    using finding_of_dto_of_finding [OF _ assms(3)] assms(2)
    by (simp add: deserialize_finding_def storable_finding_def)
qed

text \<open>Whatever the validator does, what leaves the boundary is storable and within its bounds.\<close>

lemma parse_InrD:
  assumes V: "validator_ok dump engine_result_dto_ok V"
    and p: "parse_engine_result_with_duration V raw = Inr (r, ms)"
  shows "list_all storable_finding (er_findings r) \<and> \<not> em_requires_network (er_engine r) \<and>
    em_name (er_engine r) \<noteq> [] \<and> em_version (er_engine r) \<noteq> [] \<and>
    (\<forall>n. ms = Some n \<longrightarrow> 0 \<le> n \<and> n \<le> MAX_ANALYZE_DURATION_MS)"
proof -
  obtain dto where d: "V raw = Some dto" "ms = ro_analyze_duration_ms dto"
    using p by (auto simp: parse_engine_result_with_duration_def res_bind_eq_Inr split: option.splits)
  have ok: "engine_result_dto_ok dto" using V d(1) by (auto simp: validator_ok_def)
  have fs: "list_all2 (\<lambda>x y. finding_of_dto x = Inr y) (ro_findings dto) (er_findings r)"
    using p d by (auto simp: parse_engine_result_with_duration_def res_bind_eq_Inr res_map_eq_Inr)
  have "list_all storable_finding (er_findings r)"
    unfolding list_all_length
  proof (intro allI impI)
    fix i assume "i < length (er_findings r)"
    then have "finding_of_dto (ro_findings dto ! i) = Inr (er_findings r ! i)" "i < length (ro_findings dto)"
      using fs by (auto simp: list_all2_conv_all_nth)
    then show "storable_finding (er_findings r ! i)"
      using ok by (auto simp: engine_result_dto_ok_def list_all_length intro: finding_of_dto_storable)
  qed
  moreover have "\<not> em_requires_network (er_engine r) \<and> em_name (er_engine r) \<noteq> [] \<and> em_version (er_engine r) \<noteq> []"
    using p d by (auto simp: parse_engine_result_with_duration_def res_bind_eq_Inr engine_metadata_post_init_iff)
  ultimately show ?thesis using ok d(2) by (auto simp: engine_result_dto_ok_def split: option.splits)
qed

lemma parse_Inl: "parse_engine_result_with_duration V raw = Inl e \<Longrightarrow> e = UntrustedFindingsError"
proof -
  have m: "res_map finding_of_dto ds = Inl e \<Longrightarrow> e = ValueError" for ds e
    by (induction ds) (auto simp: res_bind_eq_Inl finding_of_dto_def dest: finding_post_init_Inl)
  have "engine_metadata_post_init x = Inl e \<Longrightarrow> e = ValueError" for x e
    by (auto simp: engine_metadata_post_init_def res_bind_eq_Inl)
  then have "as_untrusted (res_bind (engine_metadata_post_init x) (\<lambda>m. res_bind (res_map finding_of_dto ds) (\<lambda>fs. Inr (g m fs)))) = Inl e
    \<Longrightarrow> e = UntrustedFindingsError" for x ds g
    using m by (auto simp: as_untrusted_def res_bind_eq_Inl split: sum.splits if_splits)
  then show "parse_engine_result_with_duration V raw = Inl e \<Longrightarrow> e = UntrustedFindingsError"
    by (auto simp: parse_engine_result_with_duration_def res_bind_eq_Inl split: option.splits)
qed

definition dto_of_result ::
  "(engine_capability set \<Rightarrow> engine_capability list) \<Rightarrow> (trifecta_signal set \<Rightarrow> trifecta_signal list) \<Rightarrow>
   engine_result \<Rightarrow> int option \<Rightarrow> engine_result_dto" where
  "dto_of_result corder sorder r ms =
     \<lparr>ro_engine = \<lparr>mo_name = em_name (er_engine r), mo_version = em_version (er_engine r),
        mo_ruleset_digest = em_ruleset_digest (er_engine r),
        mo_capabilities = corder (em_capabilities (er_engine r)),
        mo_requires_network = em_requires_network (er_engine r),
        mo_requires_llm = em_requires_llm (er_engine r), mo_deterministic = em_deterministic (er_engine r)\<rparr>,
      ro_status = er_status r, ro_scan_mode = er_scan_mode r, ro_llm_used = er_llm_used r,
      ro_error = er_error r, ro_analyze_duration_ms = ms,
      ro_findings = map (dto_of_finding sorder) (er_findings r)\<rparr>"

lemma serialize_result_dump:
  "serialize_engine_result corder sorder r ms = dump_result (dto_of_result corder sorder r ms)"
proof -
  have "map (py_obj \<circ> serialize_finding sorder) fs = map (py_obj \<circ> dump_finding) (map (dto_of_finding sorder) fs)" for fs
    by (simp add: serialize_finding_dump)
  then show ?thesis
    unfolding serialize_engine_result_def dump_result_def by (simp add: dto_of_result_def)
qed

text \<open>The results an engine may hand to the dispatch loop.\<close>

definition storable_result :: "engine_result \<Rightarrow> bool" where
  "storable_result r \<longleftrightarrow> list_all storable_finding (er_findings r) \<and> \<not> em_requires_network (er_engine r) \<and>
     em_name (er_engine r) \<noteq> [] \<and> em_version (er_engine r) \<noteq> []"

lemma parse_serialize:
  assumes V: "validator_ok dump engine_result_dto_ok V"
    and dump: "\<And>d. dump d = json_dumps (dump_result d)"
    and r: "storable_result r" and ms: "\<And>n. ms = Some n \<Longrightarrow> 0 \<le> n \<and> n \<le> MAX_ANALYZE_DURATION_MS"
    and ord: "\<And>S. set (corder S) = S" "\<And>S. set (sorder S) = S"
  shows "parse_engine_result_with_duration V (json_dumps (serialize_engine_result corder sorder r ms)) = Inr (r, ms)"
proof -
  let ?d = "dto_of_result corder sorder r ms"
  have "engine_result_dto_ok ?d"
    using r ms by (auto simp: engine_result_dto_ok_def dto_of_result_def storable_result_def list_all_iff
        dto_of_finding_ok split: option.splits)
  then have "V (json_dumps (serialize_engine_result corder sorder r ms)) = Some ?d"
    using V dump by (simp add: validator_ok_def serialize_result_dump)
  moreover have "res_map finding_of_dto (map (dto_of_finding sorder) (er_findings r)) = Inr (er_findings r)"
    using r ord(2) by (simp add: res_map_eq_Inr list_all2_map1 list_all2_same finding_of_dto_of_finding
        storable_result_def storable_finding_def list_all_iff)
  ultimately show ?thesis
    using r ord(1) by (simp add: parse_engine_result_with_duration_def dto_of_result_def storable_result_def
        engine_metadata_post_init_def raise_if_def engine_result.equality engine_metadata.equality)
qed

section \<open>Properties\<close>

text \<open>C25: Round trip of findings across the storage boundary. Whatever Pydantic validator is used
  (as long as it accepts documents of the declared types and enforces the declared bounds) and in
  whatever order a frozenset is iterated, a finding that the domain model can construct and whose rule
  id fits its column is read back from its stored form unchanged; and everything the reader accepts
  is such a finding, so storing and reading back again is the identity on it.\<close>

theorem findings_roundtrip:
  assumes "validator_ok dump_finding finding_dto_ok V" "\<And>S. set (order S) = S"
  shows "(storable_finding f \<longrightarrow> deserialize_finding V (serialize_finding order f) = Inr f) \<and>
    (deserialize_finding V d = Inr g \<longrightarrow> storable_finding g \<and>
       deserialize_finding V (serialize_finding order g) = Inr g) \<and>
    (deserialize_finding V d = Inl e \<longrightarrow> e = UntrustedFindingsError)"
proof -
  have ok: "storable_finding g" if "deserialize_finding V d = Inr g"
    using that assms(1)
    by (auto simp: deserialize_finding_def validator_ok_def split: option.splits intro: finding_of_dto_storable)
  have "e = UntrustedFindingsError" if "deserialize_finding V d = Inl e"
    using that
    by (auto simp: deserialize_finding_def as_untrusted_def finding_of_dto_def
        split: option.splits sum.splits if_splits dest: finding_post_init_Inl)
  then show ?thesis using ok deserialize_serialize [OF assms(1) _ assms(2)] by blast
qed

text \<open>Note: The untrusted-findings boundary (INV-11). Reading an engine's blob either raises the one
  exception its caller handles, or yields a result in which every finding satisfies the domain
  invariants and the column bounds, the engine declares no network access and the duration fits its
  integer column; and the blob that the dispatch loop writes for such a result is read back as
  exactly that result and duration.\<close>

theorem engine_result_boundary:
  assumes "validator_ok (json_dumps \<circ> dump_result) engine_result_dto_ok V"
    and "\<And>S. set (corder S) = S" "\<And>S. set (sorder S) = S"
  shows "(case parse_engine_result_with_duration V raw of
        Inl e \<Rightarrow> e = UntrustedFindingsError
      | Inr (r, ms) \<Rightarrow> storable_result r \<and> (\<forall>n. ms = Some n \<longrightarrow> 0 \<le> n \<and> n \<le> MAX_ANALYZE_DURATION_MS)) \<and>
    (storable_result r \<and> (\<forall>n. ms = Some n \<longrightarrow> 0 \<le> n \<and> n \<le> MAX_ANALYZE_DURATION_MS) \<longrightarrow>
       parse_engine_result_with_duration V (json_dumps (serialize_engine_result corder sorder r ms)) = Inr (r, ms))"
proof
  show "case parse_engine_result_with_duration V raw of
        Inl e \<Rightarrow> e = UntrustedFindingsError
      | Inr (r, ms) \<Rightarrow> storable_result r \<and> (\<forall>n. ms = Some n \<longrightarrow> 0 \<le> n \<and> n \<le> MAX_ANALYZE_DURATION_MS)"
    using parse_InrD [OF assms(1), of raw] parse_Inl [of V raw]
    by (auto simp: storable_result_def split: sum.splits)
  show "storable_result r \<and> (\<forall>n. ms = Some n \<longrightarrow> 0 \<le> n \<and> n \<le> MAX_ANALYZE_DURATION_MS) \<longrightarrow>
       parse_engine_result_with_duration V (json_dumps (serialize_engine_result corder sorder r ms)) = Inr (r, ms)"
    using parse_serialize [OF assms(1) _ _ _ assms(2,3), of json_dumps r ms] by simp
qed

section \<open>A strict validator, and the properties on it\<close>

text \<open>A validator without coercions, which satisfies what the code relies on.\<close>

definition enum_of :: "('a \<Rightarrow> string) \<Rightarrow> 'a list \<Rightarrow> string \<Rightarrow> 'a option" where
  "enum_of val members s = List.find (\<lambda>m. val m = s) members"

definition the_string :: "pyval option \<Rightarrow> string option" where
  "the_string v = (case v of Some (PStr s) \<Rightarrow> Some s | _ \<Rightarrow> None)"

definition the_bool :: "pyval option \<Rightarrow> bool option" where
  "the_bool v = (case v of Some (PBool b) \<Rightarrow> Some b | _ \<Rightarrow> None)"

definition the_opt :: "(pyval option \<Rightarrow> 'a option) \<Rightarrow> pyval option \<Rightarrow> 'a option option" where
  "the_opt g v = (case v of Some PNone \<Rightarrow> Some None | _ \<Rightarrow> map_option Some (g v))"

definition the_int :: "pyval option \<Rightarrow> int option" where
  "the_int v = (case v of Some (PInt n) \<Rightarrow> Some n | _ \<Rightarrow> None)"

definition the_real :: "pyval option \<Rightarrow> real option" where
  "the_real v = (case v of Some (PFloat (Fin x)) \<Rightarrow> Some x | _ \<Rightarrow> None)"

fun all_some :: "'a option list \<Rightarrow> 'a list option" where
  "all_some [] = Some []"
| "all_some (x # xs) = (case x of None \<Rightarrow> None | Some y \<Rightarrow> map_option ((#) y) (all_some xs))"

definition the_list :: "(pyval option \<Rightarrow> 'a option) \<Rightarrow> pyval option \<Rightarrow> 'a list option" where
  "the_list g v = (case v of Some (PList xs) \<Rightarrow> all_some (map (g \<circ> Some) xs) | _ \<Rightarrow> None)"

definition the_enum :: "('a \<Rightarrow> string) \<Rightarrow> 'a list \<Rightarrow> pyval option \<Rightarrow> 'a option" where
  "the_enum val members v = Option.bind (the_string v) (enum_of val members)"

definition the_severity :: "pyval option \<Rightarrow> severity option" where
  "the_severity v = Option.bind (the_int v)
     (\<lambda>n. List.find (\<lambda>s. severity_int s = n) [NONE, LOW, MEDIUM, HIGH, CRITICAL])"

definition the_object :: "pyval option \<Rightarrow> json_object option" where
  "the_object v = (case v of
      Some (PDict kvs) \<Rightarrow> all_some (map (\<lambda>(k, x). map_option (\<lambda>s. (s, x)) (the_string (Some k))) kvs)
    | _ \<Rightarrow> None)"

definition all_capabilities :: "engine_capability list" where
  "all_capabilities = [CAP_STATIC, SEMANTIC_LLM, THREAT_INTEL, DYNAMIC_SANDBOX, SCA, FILE_COMPLIANCE]"

definition all_signals :: "trifecta_signal list" where
  "all_signals = [PRIVATE_DATA_ACCESS, UNTRUSTED_INPUT, EXTERNAL_EGRESS]"

definition all_categories :: "detection_category list" where
  "all_categories = [INSTRUCTION, CODE, DATA_CREDENTIAL, NETWORK_INTEL, PERMISSION, FILE_PACKAGE,
     SUPPLY_CHAIN, BUNDLED_COMPONENT]"

definition strict_finding :: "json_object \<Rightarrow> finding_dto option" where
  "strict_finding raw =
     (let fld = map_of raw in
      Option.bind (the_string (fld ''rule_id'')) (\<lambda>a.
      Option.bind (the_string (fld ''test_item_id'')) (\<lambda>b.
      Option.bind (the_enum category_value all_categories (fld ''category'')) (\<lambda>c.
      Option.bind (the_string (fld ''title'')) (\<lambda>d.
      Option.bind (the_severity (fld ''severity'')) (\<lambda>e.
      Option.bind (the_real (fld ''confidence'')) (\<lambda>f.
      Option.bind (the_string (fld ''source_engine'')) (\<lambda>g.
      Option.bind (the_enum capability_value all_capabilities (fld ''source_capability'')) (\<lambda>h.
      Option.bind (the_list (the_enum signal_value all_signals) (fld ''trifecta_signals'')) (\<lambda>i.
      Option.bind (the_opt the_string (fld ''file_path'')) (\<lambda>j.
      Option.bind (the_opt the_int (fld ''start_line'')) (\<lambda>k.
      Option.bind (the_opt the_string (fld ''snippet_hash'')) (\<lambda>l.
      Option.bind (the_string (fld ''evidence_redacted'')) (\<lambda>m.
      let dto = \<lparr>fo_rule_id = a, fo_test_item_id = b, fo_category = c, fo_title = d, fo_severity = e,
            fo_confidence = f, fo_source_engine = g, fo_source_capability = h, fo_trifecta_signals = i,
            fo_file_path = j, fo_start_line = k, fo_snippet_hash = l, fo_evidence_redacted = m\<rparr>
      in if finding_dto_ok dto then Some dto else None))))))))))))))"

definition strict_metadata :: "json_object \<Rightarrow> engine_metadata_dto option" where
  "strict_metadata raw =
     (let fld = map_of raw in
      Option.bind (the_string (fld ''name'')) (\<lambda>a.
      Option.bind (the_string (fld ''version'')) (\<lambda>b.
      Option.bind (the_string (fld ''ruleset_digest'')) (\<lambda>c.
      Option.bind (the_list (the_enum capability_value all_capabilities) (fld ''capabilities'')) (\<lambda>d.
      Option.bind (the_bool (fld ''requires_network'')) (\<lambda>e.
      Option.bind (the_bool (fld ''requires_llm'')) (\<lambda>f.
      Option.bind (the_bool (fld ''deterministic'')) (\<lambda>g.
      Some \<lparr>mo_name = a, mo_version = b, mo_ruleset_digest = c, mo_capabilities = d,
            mo_requires_network = e, mo_requires_llm = f, mo_deterministic = g\<rparr>))))))))"

definition strict_result :: "json_object \<Rightarrow> engine_result_dto option" where
  "strict_result raw =
     (let fld = map_of raw in
      Option.bind (Option.bind (the_object (fld ''engine'')) strict_metadata) (\<lambda>a.
      Option.bind (the_enum status_value [OK, PARTIAL, ERROR, TIMEOUT] (fld ''status'')) (\<lambda>b.
      Option.bind (the_enum scan_mode_value [MODE_STATIC, MODE_DYNAMIC] (fld ''scan_mode'')) (\<lambda>c.
      Option.bind (the_bool (fld ''llm_used'')) (\<lambda>d.
      Option.bind (the_opt the_string (fld ''error'')) (\<lambda>e.
      Option.bind (case fld ''analyze_duration_ms'' of None \<Rightarrow> Some None | v \<Rightarrow> the_opt the_int v) (\<lambda>f.
      Option.bind (the_list (\<lambda>v. Option.bind (the_object v) strict_finding) (fld ''findings'')) (\<lambda>g.
      let dto = \<lparr>ro_engine = a, ro_status = b, ro_scan_mode = c, ro_llm_used = d, ro_error = e,
            ro_analyze_duration_ms = f, ro_findings = g\<rparr>
      in if engine_result_dto_ok dto then Some dto else None))))))))"

lemma all_some_map: "(\<And>x. x \<in> set xs \<Longrightarrow> f x = Some (g x)) \<Longrightarrow> all_some (map f xs) = Some (map g xs)"
  by (induction xs) auto

lemma the_object_py_obj [simp]: "the_object (Some (py_obj kvs)) = Some kvs"
proof -
  have "all_some (map ((\<lambda>(k, x). map_option (\<lambda>s. (s, x)) (the_string (Some k))) \<circ> (\<lambda>(k, v). (PStr k, v))) kvs) = Some (map id kvs)"
    by (rule all_some_map) (auto simp: the_string_def)
  then show ?thesis by (simp add: the_object_def py_obj_def)
qed

lemma the_enum_value:
  "the_enum category_value all_categories (Some (PStr (category_value c))) = Some c"
  "the_enum capability_value all_capabilities (Some (PStr (capability_value k))) = Some k"
  "the_enum signal_value all_signals (Some (PStr (signal_value g))) = Some g"
  "the_enum status_value [OK, PARTIAL, ERROR, TIMEOUT] (Some (PStr (status_value t))) = Some t"
  "the_enum scan_mode_value [MODE_STATIC, MODE_DYNAMIC] (Some (PStr (scan_mode_value m))) = Some m"
proof -
  show "the_enum category_value all_categories (Some (PStr (category_value c))) = Some c"
    by (cases c) (simp_all add: the_enum_def enum_of_def the_string_def all_categories_def)
  show "the_enum capability_value all_capabilities (Some (PStr (capability_value k))) = Some k"
    by (cases k) (simp_all add: the_enum_def enum_of_def the_string_def all_capabilities_def)
  show "the_enum signal_value all_signals (Some (PStr (signal_value g))) = Some g"
    by (cases g) (simp_all add: the_enum_def enum_of_def the_string_def all_signals_def)
  show "the_enum status_value [OK, PARTIAL, ERROR, TIMEOUT] (Some (PStr (status_value t))) = Some t"
    by (cases t) (simp_all add: the_enum_def enum_of_def the_string_def)
  show "the_enum scan_mode_value [MODE_STATIC, MODE_DYNAMIC] (Some (PStr (scan_mode_value m))) = Some m"
    by (cases m) (simp_all add: the_enum_def enum_of_def the_string_def)
qed

lemma the_severity_value: "the_severity (Some (PInt (severity_int s))) = Some s"
  by (cases s) (simp_all add: the_severity_def the_int_def)

lemma the_opt_value:
  "the_opt the_string (Some (opt_val PStr v)) = Some v"
  "the_opt the_int (Some (opt_val PInt w)) = Some w"
  "the_opt the_int (Some (PInt n)) = Some (Some n)"
proof -
  show "the_opt the_string (Some (opt_val PStr v)) = Some v"
    by (cases v) (simp_all add: the_opt_def opt_val_def the_string_def)
  show "the_opt the_int (Some (opt_val PInt w)) = Some w"
    by (cases w) (simp_all add: the_opt_def opt_val_def the_int_def)
qed (simp add: the_opt_def the_int_def)

lemma the_list_value:
  assumes "\<And>x. x \<in> set xs \<Longrightarrow> g (Some (c x)) = Some x"
  shows "the_list g (Some (PList (map c xs))) = Some xs"
proof -
  have "all_some (map ((g \<circ> Some) \<circ> c) xs) = Some (map id xs)" by (rule all_some_map) (simp add: assms)
  then show ?thesis by (simp add: the_list_def)
qed

lemmas strict_values = the_enum_value the_severity_value the_opt_value the_list_value

lemma strict_finding_dump: "finding_dto_ok d \<Longrightarrow> strict_finding (dump_finding d) = Some d"
  by (simp add: strict_finding_def dump_finding_def strict_values the_string_def the_real_def Let_def
      finding_dto_ok_def)

lemma strict_finding_validator: "validator_ok dump_finding finding_dto_ok strict_finding"
  unfolding validator_ok_def
  by (auto simp: strict_finding_dump)
     (auto simp: strict_finding_def Let_def bind_eq_Some_conv split: if_splits)

lemma strict_metadata_dump:
  "strict_metadata [(''name'', PStr (mo_name e)), (''version'', PStr (mo_version e)),
     (''ruleset_digest'', PStr (mo_ruleset_digest e)),
     (''capabilities'', PList (map (PStr \<circ> capability_value) (mo_capabilities e))),
     (''requires_network'', PBool (mo_requires_network e)), (''requires_llm'', PBool (mo_requires_llm e)),
     (''deterministic'', PBool (mo_deterministic e))] = Some e"
  by (simp add: strict_metadata_def strict_values the_string_def the_bool_def Let_def)

lemma strict_result_dump: "engine_result_dto_ok d \<Longrightarrow> strict_result (dump_result d) = Some d"
proof -
  assume ok: "engine_result_dto_ok d"
  have fs: "the_list (\<lambda>v. Option.bind (the_object v) strict_finding)
      (Some (PList (map (py_obj \<circ> dump_finding) (ro_findings d)))) = Some (ro_findings d)"
    by (rule the_list_value)
      (use ok in \<open>simp add: engine_result_dto_ok_def list_all_iff strict_finding_dump\<close>)
  show ?thesis
    using ok unfolding strict_result_def dump_result_def
    by (cases "ro_analyze_duration_ms d")
      (simp_all add: fs strict_metadata_dump strict_values the_bool_def Let_def engine_result_dto_ok_def)
qed

lemma strict_result_validator: "validator_ok (id \<circ> dump_result) engine_result_dto_ok strict_result"
  unfolding validator_ok_def
  by (auto simp: strict_result_dump)
     (auto simp: strict_result_def Let_def bind_eq_Some_conv split: if_splits)

definition signal_order :: "trifecta_signal set \<Rightarrow> trifecta_signal list" where
  "signal_order S = filter (\<lambda>s. s \<in> S) all_signals"

definition capability_order :: "engine_capability set \<Rightarrow> engine_capability list" where
  "capability_order S = filter (\<lambda>s. s \<in> S) all_capabilities"

lemma signal_order_set: "set (signal_order S) = S"
proof -
  have "x \<in> set all_signals" for x by (cases x) (simp_all add: all_signals_def)
  then show ?thesis by (auto simp: signal_order_def)
qed

lemma capability_order_set: "set (capability_order S) = S"
proof -
  have "x \<in> set all_capabilities" for x by (cases x) (simp_all add: all_capabilities_def)
  then show ?thesis by (auto simp: capability_order_def)
qed

lemma low_finding_storable: "storable_finding low_finding"
  by (simp add: storable_finding_def valid_finding_def sample_finding_def MAX_RULE_ID_CHARS_def)

theorem findings_roundtrip_witness:
  "storable_finding low_finding \<and>
   deserialize_finding strict_finding (serialize_finding signal_order low_finding) = Inr low_finding"
  using findings_roundtrip [OF strict_finding_validator signal_order_set,
      of low_finding "[]" low_finding ValueError] low_finding_storable
  by (elim conjE) (intro conjI, assumption, erule mp, assumption)

theorem engine_result_boundary_witness:
  "parse_engine_result_with_duration strict_result
     (id (serialize_engine_result capability_order signal_order (sample_result [low_finding]) (Some 0))) =
   Inr (sample_result [low_finding], Some 0)"
proof -
  have "storable_result (sample_result [low_finding])"
    using low_finding_storable by (simp add: storable_result_def sample_result_def)
  then show ?thesis
    using engine_result_boundary [OF strict_result_validator capability_order_set signal_order_set,
        of "[]" "sample_result [low_finding]" "Some 0"]
    by (simp add: MAX_ANALYZE_DURATION_MS_def)
qed

end
