(* ===== verification/Scan_Store.thy ===== *)
theory Scan_Store
  imports Findings_Schema Core_Gate
begin

text \<open>
  What the orchestration keeps and reads: its tables (\<open>orchestration/models.py\<close>), the queries other
  modules ask (\<open>orchestration/service.py\<close>), and the read-back of engine results from the blob store
  with its fail-closed placeholders and its health records (\<open>orchestration/aggregate.py\<close>). A blob
  store is a partial function from keys to raw documents; the schema validator, the text of a
  validation error and \<open>repr\<close> of a string are parameters.
\<close>

section \<open>Tables\<close>

record scan_job =
  sj_content_hash :: string
  sj_toolchain_digest :: string
  sj_cache_key :: string
  sj_state :: string
  sj_submitter :: string
  sj_created_at :: real
  sj_skill_name :: "nat list option"
  sj_sandbox_wait_started_at :: "real option"
  sj_trust_tier :: "string option"

record submitter_row =
  su_scan_id :: string
  su_submitter :: string
  su_source :: "string option"
  su_requested_trust_tier :: "string option"

record scan_result_row =
  rr_content_hash :: string
  rr_severity :: int
  rr_confidence_at_max :: real
  rr_trifecta_present :: bool
  rr_findings_capped :: bool
  rr_findings_total :: "nat option"
  rr_required_ok :: bool
  rr_findings :: "json_object list"
  rr_provenance :: "string list list"
  rr_hard_gate_hits :: "string list"

record health_row =
  hr_scan_id :: string
  hr_engine_name :: string
  hr_report_state :: string
  hr_engine_status :: "string option"
  hr_analyze_duration_ms :: "int option"
  hr_finding_count :: "nat option"
  hr_error :: "string option"
  hr_recorded_at :: real

record orch_db =
  od_jobs :: "(string \<times> scan_job) list"
  od_submitters :: "submitter_row list"
  od_results :: "(string \<times> scan_result_row) list"
  od_health :: "health_row list"

definition empty_orch :: orch_db where
  "empty_orch = \<lparr>od_jobs = [], od_submitters = [], od_results = [], od_health = []\<rparr>"

section \<open>Scan states\<close>

definition STATE_QUEUED :: string where "STATE_QUEUED = ''queued''"
definition STATE_RUNNING :: string where "STATE_RUNNING = ''running''"
definition STATE_SCORED :: string where "STATE_SCORED = ''scored''"
definition STATE_DECIDED :: string where "STATE_DECIDED = ''decided''"
definition STATE_FAILED :: string where "STATE_FAILED = ''failed''"

definition SCAN_STATES :: "string set" where
  "SCAN_STATES = {STATE_QUEUED, STATE_RUNNING, STATE_SCORED, STATE_DECIDED, STATE_FAILED}"

definition UNSCORED_STATES :: "string set" where
  "UNSCORED_STATES = {STATE_QUEUED, STATE_RUNNING}"

lemmas state_defs = STATE_QUEUED_def STATE_RUNNING_def STATE_SCORED_def STATE_DECIDED_def STATE_FAILED_def

section \<open>Who submitted what\<close>

datatype submission_channel = CONSOLE | MARKETPLACE

fun channel_value :: "submission_channel \<Rightarrow> string" where
  "channel_value CONSOLE = ''console''"
| "channel_value MARKETPLACE = ''marketplace''"

text \<open>\<open>_associate_submitter\<close>: the insert that loses a race is absorbed by its savepoint, which leaves
  the table as the winner wrote it.\<close>

definition associate_submitter ::
  "orch_db \<Rightarrow> string \<Rightarrow> string \<Rightarrow> submission_channel \<Rightarrow> trust_tier \<Rightarrow> orch_db" where
  "associate_submitter db scan_id submitter source requested =
     (if list_ex (\<lambda>r. su_scan_id r = scan_id \<and> su_submitter r = submitter) (od_submitters db) then db
      else db\<lparr>od_submitters := od_submitters db @
             [\<lparr>su_scan_id = scan_id, su_submitter = submitter, su_source = Some (channel_value source),
               su_requested_trust_tier = Some (trust_tier_value requested)\<rparr>]\<rparr>)"

definition is_scan_submitter :: "orch_db \<Rightarrow> string \<Rightarrow> string \<Rightarrow> bool" where
  "is_scan_submitter db scan_id subject =
     list_ex (\<lambda>r. su_scan_id r = scan_id \<and> su_submitter r = subject) (od_submitters db)"

record attribution =
  at_submitters :: "string list"
  at_submitter_sources :: "(string \<times> string option \<times> string option) list"
  at_source :: "string list"

text \<open>One round of the loop over the sorted rows.\<close>

definition attribute_row :: "submitter_row \<Rightarrow> (string \<times> attribution) list \<Rightarrow> (string \<times> attribution) list" where
  "attribute_row row m =
     (let entry = (case map_of m (su_scan_id row) of
            None \<Rightarrow> \<lparr>at_submitters = [], at_submitter_sources = [], at_source = []\<rparr> | Some e \<Rightarrow> e)
      in dict_put (su_scan_id row)
           (entry\<lparr>at_submitters := at_submitters entry @ [su_submitter row],
                  at_submitter_sources := at_submitter_sources entry @
                    [(su_submitter row, su_source row, su_requested_trust_tier row)]\<rparr>) m)"

definition submitter_attribution :: "orch_db \<Rightarrow> string list \<Rightarrow> (string \<times> attribution) list" where
  "submitter_attribution db scan_ids =
     (let rows = sort_key (\<lambda>r. (su_scan_id r, su_submitter r))
            (filter (\<lambda>r. su_scan_id r \<in> set scan_ids) (od_submitters db));
          attr = fold attribute_row rows []
      in map (\<lambda>(k, e). (k, e\<lparr>at_source := sorted_list_of_set
           {s. Some s \<in> (\<lambda>(_, src, _). src) ` set (at_submitter_sources e)}\<rparr>)) attr)"

section \<open>Queries of other modules\<close>

definition get_scan_state_and_tier :: "orch_db \<Rightarrow> string \<Rightarrow> (string \<times> string option) option" where
  "get_scan_state_and_tier db scan_id =
     map_option (\<lambda>j. (sj_state j, sj_trust_tier j)) (map_of (od_jobs db) scan_id)"

record scan_result_view =
  rv_findings :: "json_object list"
  rv_findings_capped :: bool
  rv_findings_total :: "nat option"
  rv_hard_gate_hits :: "string list"

definition get_scan_result_view :: "orch_db \<Rightarrow> string \<Rightarrow> scan_result_view option" where
  "get_scan_result_view db scan_id =
     map_option (\<lambda>r. \<lparr>rv_findings = rr_findings r, rv_findings_capped = rr_findings_capped r,
         rv_findings_total = rr_findings_total r, rv_hard_gate_hits = rr_hard_gate_hits r\<rparr>)
       (map_of (od_results db) scan_id)"

record scan_identity =
  sc_scan_id :: string
  sc_state :: string
  sc_trust_tier :: "string option"

definition latest_scan_identities_for_content :: "orch_db \<Rightarrow> string \<Rightarrow> scan_identity list" where
  "latest_scan_identities_for_content db content_hash =
     (let mine = filter (\<lambda>(k, j). sj_content_hash j = content_hash) (od_jobs db);
          newest = py_max 0 (map (\<lambda>(k, j). sj_created_at j) mine)
      in map (\<lambda>(k, j). \<lparr>sc_scan_id = k, sc_state = sj_state j, sc_trust_tier = sj_trust_tier j\<rparr>)
           (sort_key fst (filter (\<lambda>(k, j). sj_created_at j = newest) mine)))"

section \<open>Reading engine results back\<close>

definition findings_key :: "string \<Rightarrow> string \<Rightarrow> string" where
  "findings_key scan_id engine = ''findings/'' @ scan_id @ ''/'' @ engine @ ''.json''"

definition ERROR_MAX_CHARS :: nat where
  "ERROR_MAX_CHARS = 1000"

definition ERROR_TRUNCATION_SUFFIX :: string where
  "ERROR_TRUNCATION_SUFFIX = ''... (truncated)''"

datatype report_state = REPORTED | NOT_REPORTED | UNREADABLE

fun report_state_value :: "report_state \<Rightarrow> string" where
  "report_state_value REPORTED = ''reported''"
| "report_state_value NOT_REPORTED = ''not_reported''"
| "report_state_value UNREADABLE = ''unreadable''"

record health_record =
  hc_engine_name :: string
  hc_report_state :: report_state
  hc_engine_status :: "engine_status option"
  hc_analyze_duration_ms :: "int option"
  hc_finding_count :: "nat option"
  hc_error :: "string option"

definition health_record_post_init :: "health_record \<Rightarrow> health_record res" where
  "health_record_post_init h =
     (let reported = (hc_report_state h = REPORTED)
      in res_bind (raise_if (reported \<noteq> (hc_engine_status h \<noteq> None)) ValueError) (\<lambda>_.
         res_bind (raise_if (\<not> reported \<and> hc_analyze_duration_ms h \<noteq> None) ValueError) (\<lambda>_.
         Inr h)))"

definition truncate_error :: "string option \<Rightarrow> string option" where
  "truncate_error text = (case text of
      None \<Rightarrow> None
    | Some t \<Rightarrow> if length t \<le> ERROR_MAX_CHARS then Some t
        else Some (take (ERROR_MAX_CHARS - length ERROR_TRUNCATION_SUFFIX) t @ ERROR_TRUNCATION_SUFFIX))"

definition unavailable_engine_result :: "string \<Rightarrow> string \<Rightarrow> engine_result res" where
  "unavailable_engine_result engine_name reason =
     res_bind (engine_metadata_post_init \<lparr>em_name = engine_name, em_version = ''unknown'',
       em_ruleset_digest = ''unknown'', em_capabilities = {}, em_requires_network = False,
       em_requires_llm = False, em_deterministic = True\<rparr>) (\<lambda>metadata.
     Inr \<lparr>er_engine = metadata, er_findings = [], er_status = ERROR, er_scan_mode = MODE_STATIC,
          er_llm_used = False, er_error = Some reason\<rparr>)"

definition unavailable :: "string \<Rightarrow> string \<Rightarrow> report_state \<Rightarrow> (engine_result \<times> health_record) res" where
  "unavailable engine_name reason state =
     res_bind (unavailable_engine_result engine_name reason) (\<lambda>result.
     res_bind (health_record_post_init \<lparr>hc_engine_name = engine_name, hc_report_state = state,
       hc_engine_status = None, hc_analyze_duration_ms = None, hc_finding_count = None,
       hc_error = truncate_error (Some reason)\<rparr>) (\<lambda>health.
     Inr (result, health)))"

record 'raw blob_reader =
  br_validate :: "'raw \<Rightarrow> engine_result_dto option"
  br_exc :: "'raw \<Rightarrow> string"
  br_repr :: "string \<Rightarrow> string"

definition load_engine_result ::
  "'raw blob_reader \<Rightarrow> (string \<rightharpoonup> 'raw) \<Rightarrow> string \<Rightarrow> string \<Rightarrow> (engine_result \<times> health_record) res" where
  "load_engine_result rd blobs scan_id engine_name =
     (let key = findings_key scan_id engine_name in
      case blobs key of
        None \<Rightarrow> unavailable engine_name
          (''no findings reported at '' @ key @ '' (fail-closed, INV-11)'') NOT_REPORTED
      | Some raw \<Rightarrow>
          (case parse_engine_result_with_duration (br_validate rd) raw of
             Inl e \<Rightarrow>
               if e = UntrustedFindingsError
               then unavailable engine_name
                 (''schema validation failed (fail-closed, INV-11): '' @ br_exc rd raw) UNREADABLE
               else Inl e
           | Inr (result, ms) \<Rightarrow>
               if em_name (er_engine result) \<noteq> engine_name
               then unavailable engine_name
                 (''engine identity mismatch: key='' @ br_repr rd engine_name @ '' but blob claimed '' @
                  br_repr rd (em_name (er_engine result)) @ '' (fail-closed, INV-11)'') UNREADABLE
               else res_bind (health_record_post_init \<lparr>hc_engine_name = engine_name,
                 hc_report_state = REPORTED, hc_engine_status = Some (er_status result),
                 hc_analyze_duration_ms = ms, hc_finding_count = Some (length (er_findings result)),
                 hc_error = truncate_error (er_error result)\<rparr>) (\<lambda>health. Inr (result, health))))"

definition load_and_aggregate ::
  "'raw blob_reader \<Rightarrow> (string \<rightharpoonup> 'raw) \<Rightarrow> string \<Rightarrow> string \<Rightarrow> string list \<Rightarrow> gate_policy \<Rightarrow> real \<Rightarrow> nat \<Rightarrow>
   (scan_result \<times> health_record list) res" where
  "load_and_aggregate rd blobs scan_id content_hash engine_names policy min_confidence max_findings =
     res_bind (res_map (load_engine_result rd blobs scan_id) engine_names) (\<lambda>loaded.
     res_bind (aggregate content_hash (map fst loaded) policy min_confidence max_findings) (\<lambda>scan_result.
     Inr (scan_result, map snd loaded)))"

section \<open>Facts\<close>

lemma findings_key_inj: "findings_key s e = findings_key s e' \<longleftrightarrow> e = e'"
  by (simp add: findings_key_def)

lemma truncate_error_length:
  "truncate_error t = Some u \<Longrightarrow> length u \<le> ERROR_MAX_CHARS"
  by (auto simp: truncate_error_def ERROR_MAX_CHARS_def ERROR_TRUNCATION_SUFFIX_def
      split: option.splits if_splits)

definition health_ok :: "health_record \<Rightarrow> bool" where
  "health_ok h \<longleftrightarrow> (hc_engine_status h \<noteq> None \<longleftrightarrow> hc_report_state h = REPORTED) \<and>
     (hc_report_state h \<noteq> REPORTED \<longrightarrow> hc_analyze_duration_ms h = None) \<and>
     (\<forall>e. hc_error h = Some e \<longrightarrow> length e \<le> ERROR_MAX_CHARS)"

lemma unavailable_Inr:
  assumes "n \<noteq> []" "st \<noteq> REPORTED"
  shows "\<exists>r h. unavailable n why st = Inr (r, h) \<and> em_name (er_engine r) = n \<and> er_status r = ERROR \<and>
    er_findings r = [] \<and> hc_engine_name h = n \<and> hc_report_state h = st \<and> health_ok h"
  using assms truncate_error_length [of "Some why"]
  by (simp add: unavailable_def unavailable_engine_result_def engine_metadata_post_init_def
      health_record_post_init_def raise_if_def health_ok_def)

text \<open>The two ways a read-back can end.\<close>

lemma load_engine_result_cases:
  assumes "n \<noteq> []"
  obtains (trusted) raw r ms h where "blobs (findings_key sid n) = Some raw"
      "parse_engine_result_with_duration (br_validate rd) raw = Inr (r, ms)"
      "load_engine_result rd blobs sid n = Inr (r, h)" "em_name (er_engine r) = n"
      "hc_engine_name h = n" "hc_report_state h = REPORTED" "hc_engine_status h = Some (er_status r)" "health_ok h"
    | (placeholder) r h where "load_engine_result rd blobs sid n = Inr (r, h)" "em_name (er_engine r) = n"
      "er_status r = ERROR" "er_findings r = []" "hc_engine_name h = n" "hc_report_state h \<noteq> REPORTED"
      "hc_report_state h = NOT_REPORTED \<longleftrightarrow> blobs (findings_key sid n) = None" "health_ok h"
proof -
  let ?key = "findings_key sid n"
  have ph: thesis if un: "load_engine_result rd blobs sid n = unavailable n why st" and st: "st \<noteq> REPORTED"
    "st = NOT_REPORTED \<longleftrightarrow> blobs ?key = None" for why st
  proof -
    obtain r h where *: "unavailable n why st = Inr (r, h)" "em_name (er_engine r) = n" "er_status r = ERROR"
      "er_findings r = []" "hc_engine_name h = n" "hc_report_state h = st" "health_ok h"
      using unavailable_Inr [OF assms st(1), of why] by (elim exE conjE)
    show thesis by (rule placeholder [of r h]) (simp_all only: un * st simp_thms)
  qed
  show thesis
  proof (cases "blobs ?key")
    case None
    show thesis
      by (rule ph [of "''no findings reported at '' @ ?key @ '' (fail-closed, INV-11)''" NOT_REPORTED])
        (simp_all add: load_engine_result_def Let_def None)
  next
    case (Some raw)
    show thesis
    proof (cases "parse_engine_result_with_duration (br_validate rd) raw")
      case (Inl e)
      then have "e = UntrustedFindingsError" by (rule parse_Inl)
      then show thesis
        by (intro ph [of "''schema validation failed (fail-closed, INV-11): '' @ br_exc rd raw" UNREADABLE])
          (simp_all add: load_engine_result_def Let_def Some Inl)
    next
      case (Inr p)
      obtain r ms where p: "p = (r, ms)" by (cases p)
      show thesis
      proof (cases "em_name (er_engine r) = n")
        case True
        then show thesis
          using trusted [of raw r ms] Some Inr p truncate_error_length [of "er_error r"]
          by (simp add: load_engine_result_def Let_def health_record_post_init_def raise_if_def health_ok_def)
      next
        case False
        show thesis
          by (rule ph [of "''engine identity mismatch: key='' @ br_repr rd n @ '' but blob claimed '' @
              br_repr rd (em_name (er_engine r)) @ '' (fail-closed, INV-11)''" UNREADABLE])
            (simp_all add: load_engine_result_def Let_def Some Inr p False)
      qed
    qed
  qed
qed

text \<open>A blob the read-back trusts: present at the engine's key, valid, and naming that engine.\<close>

definition trusted_blob ::
  "'raw blob_reader \<Rightarrow> (string \<rightharpoonup> 'raw) \<Rightarrow> string \<Rightarrow> string \<Rightarrow> engine_result \<Rightarrow> bool" where
  "trusted_blob rd blobs sid n r \<longleftrightarrow> (\<exists>raw ms. blobs (findings_key sid n) = Some raw \<and>
     parse_engine_result_with_duration (br_validate rd) raw = Inr (r, ms) \<and> em_name (er_engine r) = n)"

lemma load_engine_result_InrD:
  assumes "n \<noteq> []" "load_engine_result rd blobs sid n = Inr (r, h)"
  shows "em_name (er_engine r) = n \<and> hc_engine_name h = n \<and> health_ok h \<and>
    (if trusted_blob rd blobs sid n r then hc_engine_status h = Some (er_status r)
     else \<not> usable r \<and> er_findings r = [] \<and> hc_engine_status h = None)"
  using assms(1)
proof (cases rule: load_engine_result_cases [where rd = rd and blobs = blobs and sid = sid])
  case (trusted raw r' ms h')
  then have "r' = r" "h' = h" using assms(2) by simp_all
  moreover have "trusted_blob rd blobs sid n r'" using trusted unfolding trusted_blob_def by blast
  ultimately show ?thesis using trusted by (simp only: simp_thms if_True)
next
  case (placeholder r' h')
  then have eq: "r' = r" "h' = h" using assms(2) by simp_all
  have "\<not> trusted_blob rd blobs sid n r"
  proof
    assume "trusted_blob rd blobs sid n r"
    then obtain raw ms where t: "blobs (findings_key sid n) = Some raw"
      "parse_engine_result_with_duration (br_validate rd) raw = Inr (r, ms)" "em_name (er_engine r) = n"
      unfolding trusted_blob_def by blast
    then have "hc_report_state h = REPORTED"
      using assms(2) by (auto simp: load_engine_result_def Let_def health_record_post_init_def raise_if_def)
    then show False using placeholder(6) eq by simp
  qed
  then show ?thesis
    using placeholder eq by (auto simp: usable_def health_ok_def)
qed

lemma load_engine_result_total: "n \<noteq> [] \<Longrightarrow> \<exists>p. load_engine_result rd blobs sid n = Inr p"
  by (cases rule: load_engine_result_cases [where rd = rd and blobs = blobs and sid = sid and n = n]) auto

lemma load_and_aggregate_InrE:
  assumes "load_and_aggregate rd blobs sid ch names p c m = Inr (sr, hs)"
  obtains loaded where "list_all2 (\<lambda>n x. load_engine_result rd blobs sid n = Inr x) names loaded"
    "aggregate ch (map fst loaded) p c m = Inr sr" "hs = map snd loaded"
  using assms by (auto simp: load_and_aggregate_def res_bind_eq_Inr res_map_eq_Inr)

lemma loaded_mem:
  assumes "list_all2 (\<lambda>n x. load_engine_result rd blobs sid n = Inr x) names loaded" "(r, h) \<in> set loaded"
  obtains n where "n \<in> set names" "load_engine_result rd blobs sid n = Inr (r, h)"
proof -
  obtain i where "i < length loaded" "loaded ! i = (r, h)" using assms(2) by (auto simp: in_set_conv_nth)
  then show thesis using assms(1) that [of "names ! i"] by (auto simp: list_all2_conv_all_nth)
qed

lemma load_and_aggregate_health:
  assumes "load_and_aggregate rd blobs sid ch names p c m = Inr (sr, hs)" "[] \<notin> set names"
  shows "map hc_engine_name hs = names \<and> list_all health_ok hs"
proof -
  obtain loaded where l: "list_all2 (\<lambda>n x. load_engine_result rd blobs sid n = Inr x) names loaded" "hs = map snd loaded"
    using assms(1) by (elim load_and_aggregate_InrE)
  have "hc_engine_name (snd (loaded ! i)) = names ! i \<and> health_ok (snd (loaded ! i))"
    if i: "i < length names" for i
  proof -
    have "names ! i \<noteq> []" using assms(2) i by (metis nth_mem)
    moreover have "load_engine_result rd blobs sid (names ! i) = Inr (fst (loaded ! i), snd (loaded ! i))"
      using l(1) i by (simp add: list_all2_conv_all_nth)
    ultimately show ?thesis using load_engine_result_InrD by blast
  qed
  moreover have "length loaded = length names" using l(1) by (simp add: list_all2_lengthD)
  ultimately show ?thesis unfolding l(2) by (auto simp: list_all_length intro: nth_equalityI)
qed

lemma load_and_aggregate_provenance:
  assumes "load_and_aggregate rd blobs sid ch names p c m = Inr (sr, hs)" "[] \<notin> set names"
    and "f \<in> set (sr_findings sr)"
  shows "\<exists>n \<in> set names. \<exists>r. trusted_blob rd blobs sid n r \<and> usable r \<and> f \<in> set (er_findings r)"
proof -
  obtain loaded where l: "list_all2 (\<lambda>n x. load_engine_result rd blobs sid n = Inr x) names loaded"
    "aggregate ch (map fst loaded) p c m = Inr sr"
    using assms(1) by (elim load_and_aggregate_InrE)
  have "f \<in> set (usable_findings (map fst loaded))"
    using aggregate_findings_subset [OF l(2)] assms(3) by auto
  then obtain r h where r: "(r, h) \<in> set loaded" "usable r" "f \<in> set (er_findings r)"
    by (auto simp: usable_findings_def safe_results_def)
  then obtain n where n: "n \<in> set names" "load_engine_result rd blobs sid n = Inr (r, h)"
    using loaded_mem [OF l(1)] by blast
  have "n \<noteq> []" using n(1) assms(2) by metis
  then show ?thesis using load_engine_result_InrD [OF _ n(2)] n(1) r by (auto split: if_splits)
qed

lemma load_and_aggregate_required:
  assumes "load_and_aggregate rd blobs sid ch names p c m = Inr (sr, hs)" "[] \<notin> set names"
    and "finite (gp_required_engines p)" "e \<in> gp_required_engines p" "sr_required_ok sr"
  shows "e \<in> set names \<and> (\<exists>r. trusted_blob rd blobs sid e r \<and> usable r)"
proof -
  obtain loaded where l: "list_all2 (\<lambda>n x. load_engine_result rd blobs sid n = Inr x) names loaded"
    "aggregate ch (map fst loaded) p c m = Inr sr"
    using assms(1) by (elim load_and_aggregate_InrE)
  have "e \<in> em_name ` er_engine ` set (filter usable (safe_results (map fst loaded)))"
    using l(2) assms(3,4,5) by (elim aggregate_InrE) auto
  then obtain r h where r: "(r, h) \<in> set loaded" "usable r" "em_name (er_engine r) = e"
    by (auto simp: safe_results_def)
  then obtain n where n: "n \<in> set names" "load_engine_result rd blobs sid n = Inr (r, h)"
    using loaded_mem [OF l(1)] by blast
  have "n \<noteq> []" using n(1) assms(2) by metis
  then show ?thesis using load_engine_result_InrD [OF _ n(2)] n(1) r by (auto split: if_splits)
qed

lemma load_and_aggregate_storable:
  assumes "load_and_aggregate rd blobs sid ch names p c m = Inr (sr, hs)" "[] \<notin> set names"
    and "validator_ok dump engine_result_dto_ok (br_validate rd)"
  shows "list_all storable_finding (sr_findings sr)"
  unfolding list_all_iff
proof
  fix f assume "f \<in> set (sr_findings sr)"
  then obtain n r where "trusted_blob rd blobs sid n r" "f \<in> set (er_findings r)"
    using load_and_aggregate_provenance [OF assms(1,2)] by blast
  then show "storable_finding f"
    using parse_InrD [OF assms(3)] unfolding trusted_blob_def list_all_iff by blast
qed

section \<open>Properties\<close>

text \<open>Note: Read-back is fail-closed and cannot be spoofed (INV-1, INV-11). Whatever lies in the blob
  store, when the read-back of a scan yields a result: every recorded finding comes from a blob at the
  key of a dispatched engine that names that very engine; a required engine without such a usable
  blob makes the decision the policy's fail-closed verdict at any tier, allowlist and clock; and there
  is exactly one health record per dispatched engine, in order, which carries an engine status
  exactly when the engine was heard.\<close>

theorem read_back_fail_closed:
  assumes "load_and_aggregate rd blobs sid ch names p c m = Inr (sr, hs)" "[] \<notin> set names"
    and "finite (gp_required_engines p)" "e \<in> gp_required_engines p"
  shows "(\<forall>f \<in> set (sr_findings sr). \<exists>n \<in> set names. \<exists>r. trusted_blob rd blobs sid n r \<and> f \<in> set (er_findings r)) \<and>
    ((\<forall>r. trusted_blob rd blobs sid e r \<longrightarrow> \<not> usable r) \<longrightarrow>
       vr_verdict (decide sr p t al now c' sk) = gp_fail_closed_verdict p \<and>
       vr_fail_closed (decide sr p t al now c' sk)) \<and>
    map hc_engine_name hs = names \<and> list_all health_ok hs"
proof -
  have "\<not> sr_required_ok sr" if "\<forall>r. trusted_blob rd blobs sid e r \<longrightarrow> \<not> usable r"
    using load_and_aggregate_required [OF assms] that by blast
  then show ?thesis
    using load_and_aggregate_provenance [OF assms(1,2)] load_and_aggregate_health [OF assms(1,2)]
      decide_not_required [of sr p t al now c' sk] by blast
qed

definition strict_reader :: "json_object blob_reader" where
  "strict_reader = \<lparr>br_validate = strict_result, br_exc = (\<lambda>_. []), br_repr = id\<rparr>"

lemma empty_store_loads:
  "\<exists>sr hs. load_and_aggregate strict_reader Map.empty ''s1'' ''h'' [''static-keyword''] sample_policy 0 5000 = Inr (sr, hs)"
proof -
  obtain r h where l: "load_engine_result strict_reader Map.empty ''s1'' ''static-keyword'' = Inr (r, h)"
    using load_engine_result_total [of "''static-keyword''"] by (metis list.distinct(1) surj_pair)
  have "er_findings r = []"
    using load_engine_result_InrD [OF _ l] by (auto simp: trusted_blob_def)
  then have "all_findings [r] = []" by (simp add: all_findings_def safe_results_def)
  then have "\<exists>sr. aggregate ''h'' [r] sample_policy 0 5000 = Inr sr"
    by (cases "aggregate ''h'' [r] sample_policy 0 5000") (auto simp: aggregate_Inl dedup_def)
  then show ?thesis using l by (auto simp: load_and_aggregate_def)
qed

theorem read_back_fail_closed_witness:
  "\<exists>sr hs. load_and_aggregate strict_reader Map.empty ''s1'' ''h'' [''static-keyword''] sample_policy 0 5000 =
     Inr (sr, hs) \<and> vr_verdict (decide sr sample_policy INTERNAL [] 0 0 None) = BLOCK"
proof -
  obtain sr hs where l: "load_and_aggregate strict_reader Map.empty ''s1'' ''h'' [''static-keyword'']
      sample_policy 0 5000 = Inr (sr, hs)"
    using empty_store_loads by (elim exE)
  have p: "finite (gp_required_engines sample_policy)" "''static-keyword'' \<in> gp_required_engines sample_policy"
    "[] \<notin> set [''static-keyword'']" "gp_fail_closed_verdict sample_policy = BLOCK"
    by (simp_all add: sample_policy_def)
  have "\<forall>r. trusted_blob strict_reader Map.empty ''s1'' ''static-keyword'' r \<longrightarrow> \<not> usable r"
    by (simp add: trusted_blob_def)
  then have "vr_verdict (decide sr sample_policy INTERNAL [] 0 0 None) = gp_fail_closed_verdict sample_policy"
    using read_back_fail_closed [OF l p(3) p(1) p(2), of INTERNAL "[]" 0 0 None] by (elim conjE) (erule mp [THEN conjunct1])
  then show ?thesis using l p(4) by (intro exI [of _ sr] exI [of _ hs]) simp
qed

end
