(* ===== verification/Gate_Reviews.thy ===== *)
theory Gate_Reviews
  imports Gate_Service Scan_Store
begin

text \<open>
  Manual review of a REVIEW verdict (\<open>gate/reviews.py\<close>), which reads the orchestration's and the
  inventory's tables and rewrites the gate's; and the reachable states of the gate's tables under
  every operation that writes them.
\<close>

section \<open>The review decision\<close>

definition DECISION_TO_VERDICT :: "(string \<times> verdict) list" where
  "DECISION_TO_VERDICT = [(''approve'', PASS), (''reject'', BLOCK)]"

definition review_superseded :: "inventory_db option \<Rightarrow> string \<Rightarrow> bool" where
  "review_superseded invt ch = (case invt of
      None \<Rightarrow> False
    | Some idb \<Rightarrow> pending_review_is_superseded (lifecycle_position_for_content idb ch) ch)"

definition submit_review_decision ::
  "(json_object \<Rightarrow> finding_dto option) \<Rightarrow> orch_db \<Rightarrow> gate_db \<Rightarrow> inventory_db option \<Rightarrow> real \<Rightarrow> signer \<Rightarrow>
   string \<Rightarrow> string \<Rightarrow> string \<Rightarrow> string \<Rightarrow> gate_policy \<Rightarrow> (verdict_row \<times> gate_db) res" where
  "submit_review_decision model_validate odb gdb invt utcnow sg scan_id decision reviewer reason policy =
     (case map_of DECISION_TO_VERDICT decision of
        None \<Rightarrow> Inl InvalidDecisionError
      | Some new_verdict \<Rightarrow>
     (case map_of (od_jobs odb) scan_id of
        None \<Rightarrow> Inl ReviewNotFoundError
      | Some job \<Rightarrow>
     res_bind (raise_if (reviewer = sj_submitter job \<or> is_scan_submitter odb scan_id reviewer)
                SodViolationError) (\<lambda>_.
     (case map_of (gd_verdicts gdb) scan_id of
        None \<Rightarrow> Inl ReviewNotFoundError
      | Some row \<Rightarrow>
     res_bind (raise_if (vd_verdict row \<noteq> ''REVIEW'') NotPendingReviewError) (\<lambda>_.
     res_bind (raise_if (review_superseded invt (vd_content_hash row)) SupersededReviewError) (\<lambda>_.
     let new_reasons = vd_reasons row @
           [''manual review by '' @ reviewer @ '': '' @ decision @ '' - '' @ reason]
     in (case map_of (od_results odb) scan_id of
        None \<Rightarrow> Inl RuntimeError
      | Some result_row \<Rightarrow>
     res_bind (res_map (deserialize_finding model_validate) (rr_findings result_row)) (\<lambda>findings.
     let new_score = security_score new_verdict findings False (gp_category_weights policy)
     in res_bind (sg_sign sg \<lparr>vc_content_hash = vd_content_hash row,
            vc_verdict = verdict_name new_verdict, vc_policy_version = vd_policy_version row,
            vc_effective_severity = vd_effective_severity row, vc_score = new_score\<rparr>) (\<lambda>jws.
        res_bind (sg_jti sg jws) (\<lambda>jti.
        res_bind (raise_if (jti \<in> vd_jti ` snd ` {p \<in> set (gd_verdicts gdb). fst p \<noteq> scan_id})
                   IntegrityError) (\<lambda>_.
        let row' = row\<lparr>vd_verdict := verdict_name new_verdict, vd_score := new_score, vd_jti := jti,
                       vd_jws_signature := jws, vd_reasons := new_reasons, vd_issued_at := utcnow\<rparr>
        in Inr (row', gdb
             \<lparr>gd_verdicts := dict_put scan_id row' (gd_verdicts gdb),
              gd_outbox := gd_outbox gdb @
                [\<lparr>ob_aggregate_id = scan_id, ob_event_type = ''verdict_issued'',
                  ob_payload = outbox_payload scan_id (vd_content_hash row) (verdict_name new_verdict) jti jws,
                  ob_dispatched = False, ob_created_at = utcnow\<rparr>],
              gd_intents := gd_intents gdb @
                [\<lparr>ai_operator = reviewer, ai_action = ''review_decided'',
                  ai_payload = [(''scan_id'', PStr scan_id), (''decision'', PStr decision),
                    (''new_verdict'', PStr (verdict_name new_verdict)), (''reason'', PStr reason)]\<rparr>]\<rparr>))))))))))))"

section \<open>Facts\<close>

lemma decision_verdict: "map_of DECISION_TO_VERDICT d = Some v \<Longrightarrow> v \<noteq> REVIEW"
  by (auto simp: DECISION_TO_VERDICT_def split: if_splits)

lemma submit_review_InrE:
  assumes "submit_review_decision V odb gdb invt utcnow sg sid d who why p = Inr (row', gdb')"
  obtains nv job row rr fs e a where "map_of DECISION_TO_VERDICT d = Some nv" "map_of (od_jobs odb) sid = Some job"
    "who \<noteq> sj_submitter job" "\<not> is_scan_submitter odb sid who"
    "map_of (gd_verdicts gdb) sid = Some row" "vd_verdict row = ''REVIEW''"
    "\<not> review_superseded invt (vd_content_hash row)"
    "map_of (od_results odb) sid = Some rr" "res_map (deserialize_finding V) (rr_findings rr) = Inr fs"
    "vd_verdict row' = verdict_name nv" "vd_score row' = security_score nv fs False (gp_category_weights p)"
    "vd_content_hash row' = vd_content_hash row" "vd_policy_version row' = vd_policy_version row"
    "vd_effective_severity row' = vd_effective_severity row" "vd_issued_at row' = utcnow"
    "vd_reasons row' = vd_reasons row @ [''manual review by '' @ who @ '': '' @ d @ '' - '' @ why]"
    "sg_sign sg (row_claims row') = Inr (vd_jws_signature row')"
    "vd_jti row' \<notin> vd_jti ` snd ` {q \<in> set (gd_verdicts gdb). fst q \<noteq> sid}"
    "gd_verdicts gdb' = dict_put sid row' (gd_verdicts gdb)" "gd_outbox gdb' = gd_outbox gdb @ [e]"
    "gd_intents gdb' = gd_intents gdb @ [a]" "gd_allowlist gdb' = gd_allowlist gdb"
    "gd_proposals gdb' = gd_proposals gdb" "ob_aggregate_id e = sid"
    "ob_payload e = outbox_payload sid (vd_content_hash row') (vd_verdict row') (vd_jti row') (vd_jws_signature row')"
    "is_verdict_intent a" "audits a e" "ai_operator a = who"
proof -
  note step = assms [unfolded submit_review_decision_def]
  obtain nv where nv: "map_of DECISION_TO_VERDICT d = Some nv"
    using step by (cases "map_of DECISION_TO_VERDICT d") simp_all
  obtain job where job: "map_of (od_jobs odb) sid = Some job"
    using step nv by (cases "map_of (od_jobs odb) sid") simp_all
  note step = step [unfolded nv job option.case res_bind_eq_Inr raise_if_eq_Inr]
  have sod: "who \<noteq> sj_submitter job" "\<not> is_scan_submitter odb sid who" using step by blast+
  obtain row where row: "map_of (gd_verdicts gdb) sid = Some row"
    using step by (cases "map_of (gd_verdicts gdb) sid") simp_all
  note step = step [unfolded row option.case res_bind_eq_Inr raise_if_eq_Inr]
  have rv: "vd_verdict row = ''REVIEW''" "\<not> review_superseded invt (vd_content_hash row)" using step by blast+
  obtain rr where rr: "map_of (od_results odb) sid = Some rr"
    using step by (cases "map_of (od_results odb) sid") (simp_all add: Let_def)
  note step = step [unfolded rr option.case Let_def res_bind_eq_Inr raise_if_eq_Inr]
  obtain fs where fs: "res_map (deserialize_finding V) (rr_findings rr) = Inr fs" using step by blast
  define sc where "sc = security_score nv fs False (gp_category_weights p)"
  define c where "c = \<lparr>vc_content_hash = vd_content_hash row, vc_verdict = verdict_name nv,
    vc_policy_version = vd_policy_version row, vc_effective_severity = vd_effective_severity row, vc_score = sc\<rparr>"
  have "\<exists>jws jti. sg_sign sg c = Inr jws \<and> sg_jti sg jws = Inr jti \<and>
      jti \<notin> vd_jti ` snd ` {q \<in> set (gd_verdicts gdb). fst q \<noteq> sid}"
    using step unfolding fs by (elim exE conjE) (simp only: sum.inject c_def sc_def, blast)
  then obtain jws jti where s: "sg_sign sg c = Inr jws" "sg_jti sg jws = Inr jti"
    "jti \<notin> vd_jti ` snd ` {q \<in> set (gd_verdicts gdb). fst q \<noteq> sid}" by blast
  define r where "r = row\<lparr>vd_verdict := verdict_name nv, vd_score := sc, vd_jti := jti, vd_jws_signature := jws,
    vd_reasons := vd_reasons row @ [''manual review by '' @ who @ '': '' @ d @ '' - '' @ why], vd_issued_at := utcnow\<rparr>"
  define e where "e = \<lparr>ob_aggregate_id = sid, ob_event_type = ''verdict_issued'',
    ob_payload = outbox_payload sid (vd_content_hash row) (verdict_name nv) jti jws,
    ob_dispatched = False, ob_created_at = utcnow\<rparr>"
  define a where "a = \<lparr>ai_operator = who, ai_action = ''review_decided'',
    ai_payload = [(''scan_id'', PStr sid), (''decision'', PStr d),
      (''new_verdict'', PStr (verdict_name nv)), (''reason'', PStr why)]\<rparr>"
  have "submit_review_decision V odb gdb invt utcnow sg sid d who why p = Inr (r,
      gdb\<lparr>gd_verdicts := dict_put sid r (gd_verdicts gdb), gd_outbox := gd_outbox gdb @ [e],
        gd_intents := gd_intents gdb @ [a]\<rparr>)"
    unfolding submit_review_decision_def nv job row rr fs option.case res_bind_Inr Let_def
      sc_def [symmetric] c_def [symmetric] s
    using sod rv s(3) by (simp only: raise_if_def r_def e_def a_def res_bind_Inr simp_thms if_False)
  then have eq: "row' = r" "gdb' = gdb\<lparr>gd_verdicts := dict_put sid r (gd_verdicts gdb),
      gd_outbox := gd_outbox gdb @ [e], gd_intents := gd_intents gdb @ [a]\<rparr>"
    using assms by simp_all
  have rc: "row_claims r = c" by (simp add: row_claims_def r_def c_def)
  have au: "audits a e" by (simp add: audits_def a_def e_def outbox_payload_def)
  have vi: "is_verdict_intent a" by (simp add: is_verdict_intent_def a_def)
  show thesis
    by (rule that [of nv job row rr fs e a])
      (simp_all add: nv job sod row rv rr fs eq rc au vi, simp_all add: r_def e_def a_def sc_def s)
qed

lemma security_score_in_band: "in_band (verdict_name v) (security_score v fs pin w)"
  using security_score_band [of v fs pin w] unfolding in_band_def by (intro exI [of _ v]) simp

lemma submit_review_ok:
  assumes "verdicts_ok claims_in gdb" "signer_ok claims_in sg"
    and rev: "submit_review_decision V odb gdb invt utcnow sg sid d who why p = Inr (row', gdb')"
  shows "verdicts_ok claims_in gdb' \<and> (workflow_ok gdb \<longrightarrow> workflow_ok gdb')"
  using rev
proof (rule submit_review_InrE)
  fix nv job row rr fs e a
  assume *: "vd_verdict row' = verdict_name nv" "vd_score row' = security_score nv fs False (gp_category_weights p)"
    "sg_sign sg (row_claims row') = Inr (vd_jws_signature row')"
    "vd_jti row' \<notin> vd_jti ` snd ` {q \<in> set (gd_verdicts gdb). fst q \<noteq> sid}"
    "gd_verdicts gdb' = dict_put sid row' (gd_verdicts gdb)" "gd_outbox gdb' = gd_outbox gdb @ [e]"
    "gd_intents gdb' = gd_intents gdb @ [a]" "gd_allowlist gdb' = gd_allowlist gdb"
    "gd_proposals gdb' = gd_proposals gdb" "ob_aggregate_id e = sid"
    "ob_payload e = outbox_payload sid (vd_content_hash row') (vd_verdict row') (vd_jti row') (vd_jws_signature row')"
    "is_verdict_intent a" "audits a e"
  have "claims_in (vd_jws_signature row') = row_claims row'"
    using assms(2) *(3) unfolding signer_ok_def by blast
  then have "verdict_row_ok claims_in row'"
    unfolding verdict_row_ok_def *(1) *(2) using security_score_in_band by blast
  then have "verdicts_ok claims_in gdb'"
    using verdicts_ok_write [OF assms(1) *(5) *(6) *(7) _ *(10) *(11) *(12) *(13) *(4)] by blast
  moreover have "workflow_ok gdb \<Longrightarrow> workflow_ok gdb'" using workflow_ok_frame [OF _ *(8) *(9)] .
  ultimately show ?thesis by blast
qed

section \<open>Reachable gate tables\<close>

text \<open>Every operation that writes the gate's tables, with any arguments; the signer of each
  signing operation puts what it is given into the token.\<close>

inductive gate_step :: "(string \<Rightarrow> verdict_claims) \<Rightarrow> gate_db \<Rightarrow> gate_db \<Rightarrow> bool" for claims_in where
  step_decide:
    "signer_ok claims_in sg \<Longrightarrow>
     decide_and_record db utcnow sg sid sr p t al op now extra = Inr (vr, db') \<Longrightarrow> gate_step claims_in db db'"
| step_review:
    "signer_ok claims_in sg \<Longrightarrow>
     submit_review_decision V odb db invt utcnow sg sid d who why p = Inr (row, db') \<Longrightarrow> gate_step claims_in db db'"
| step_grant:
    "grant_allowlist_entry db u st sv rid ex ap rq rs = Inr (row, db') \<Longrightarrow> gate_step claims_in db db'"
| step_revoke: "revoke_allowlist_entry db u actor = Inr db' \<Longrightarrow> gate_step claims_in db db'"
| step_propose:
    "propose_policy_change ld db now who cur y = Inr (pp, db') \<Longrightarrow> gate_step claims_in db db'"
| step_approve:
    "map_of (gd_proposals db) pid = Some pp \<Longrightarrow>
     approve_policy_proposal db now (pid, pp) who = Inr db' \<Longrightarrow> gate_step claims_in db db'"
| step_reject:
    "map_of (gd_proposals db) pid = Some pp \<Longrightarrow>
     reject_policy_proposal db now (pid, pp) who why = Inr db' \<Longrightarrow> gate_step claims_in db db'"

abbreviation gate_reachable :: "(string \<Rightarrow> verdict_claims) \<Rightarrow> gate_db \<Rightarrow> bool" where
  "gate_reachable claims_in db \<equiv> (gate_step claims_in)\<^sup>*\<^sup>* empty_gate db"

lemma workflow_proposal:
  assumes "workflow_ok db" "map_of (gd_proposals db) pid = Some pp"
  shows "proposal_ok pp"
  using assms map_of_SomeD [OF assms(2)] by (force simp: workflow_ok_def list_all_iff)

lemma gate_step_ok:
  assumes "gate_step claims_in db db'" "verdicts_ok claims_in db" "workflow_ok db"
  shows "verdicts_ok claims_in db' \<and> workflow_ok db'"
  using assms(1)
proof cases
  case (step_decide sg utcnow sid sr p t al op now extra vr)
  have "workflow_ok db'" using step_decide(2)
    by (rule decide_and_record_InrE) (rule workflow_ok_frame [OF assms(3)])
  then show ?thesis using decide_and_record_ok [OF assms(2) step_decide] by blast
next
  case (step_review sg V odb invt utcnow sid d who why p row)
  then show ?thesis using submit_review_ok [OF assms(2) step_review] assms(3) by blast
next
  case (step_grant u st sv rid ex ap rq rs row)
  then show ?thesis using grant_ok [of db u st sv rid ex ap rq rs row db' claims_in] assms(2,3) by blast
next
  case (step_revoke u actor)
  then show ?thesis using revoke_ok [of db u actor db' claims_in] assms(2,3) by blast
next
  case (step_propose ld now who cur y pp)
  then show ?thesis
    using propose_ok [of ld db now who cur y "fst pp" "snd pp" db' claims_in] assms(2,3)
    by (simp only: prod.collapse simp_thms)
next
  case (step_approve pid pp now who)
  note ap = approve_InrD [OF step_approve(2), of claims_in]
  have "workflow_ok db'"
    using workflow_ok_put [OF assms(3) step_approve(1) decided_proposal_ok(1)
        [OF workflow_proposal [OF assms(3) step_approve(1)]]] ap by blast
  then show ?thesis using ap assms(2) by blast
next
  case (step_reject pid pp now who why)
  note rj = reject_InrD [OF step_reject(2), of claims_in]
  have "workflow_ok db'"
    using workflow_ok_put [OF assms(3) step_reject(1) decided_proposal_ok(2)
        [OF workflow_proposal [OF assms(3) step_reject(1)]]] rj by blast
  then show ?thesis using rj assms(2) by blast
qed

lemma gate_reachable_ok: "gate_reachable claims_in db \<Longrightarrow> verdicts_ok claims_in db \<and> workflow_ok db"
proof (induction rule: rtranclp_induct)
  case base
  then show ?case
    by (simp add: verdicts_ok_def workflow_ok_def empty_gate_def outbox_of_def announced_def)
next
  case (step y z)
  then show ?case using gate_step_ok by blast
qed

text \<open>A decided proposal never changes again.\<close>

lemma gate_step_keeps_decided:
  assumes "gate_step claims_in db db'" "map_of (gd_proposals db) pid = Some pp"
    and "pp_status pp \<noteq> ''pending''"
  shows "map_of (gd_proposals db') pid = Some pp"
  using assms(1)
proof cases
  case (step_decide sg utcnow sid sr p t al op now extra vr)
  then have "gd_proposals db' = gd_proposals db" by (elim decide_and_record_InrE)
  then show ?thesis using assms(2) by simp
next
  case (step_review sg V odb invt utcnow sid d who why p row)
  then have "gd_proposals db' = gd_proposals db" by (elim submit_review_InrE)
  then show ?thesis using assms(2) by simp
next
  case (step_grant u st sv rid ex ap rq rs row)
  then have "gd_proposals db' = gd_proposals db" by (elim grant_InrE)
  then show ?thesis using assms(2) by simp
next
  case (step_revoke u actor)
  then show ?thesis
    using assms(2) by (auto simp: revoke_allowlist_entry_def split: option.splits)
next
  case (step_propose ld now who cur y q)
  then have "\<exists>x. gd_proposals db' = gd_proposals db @ x"
    unfolding propose_policy_change_def res_bind_eq_Inr Let_def by auto
  then show ?thesis using assms(2) by (auto simp: map_add_def)
next
  case (step_approve pid' q now who)
  then have "pid' \<noteq> pid" using approve_InrD [OF step_approve(2), of claims_in] assms(2,3) by auto
  then show ?thesis using approve_InrD [OF step_approve(2), of claims_in] assms(2) by (simp add: update_conv')
next
  case (step_reject pid' q now who why)
  then have "pid' \<noteq> pid" using reject_InrD [OF step_reject(2), of claims_in] assms(2,3) by auto
  then show ?thesis using reject_InrD [OF step_reject(2), of claims_in] assms(2) by (simp add: update_conv')
qed

lemma gate_steps_keep_decided:
  "(gate_step claims_in)\<^sup>*\<^sup>* db db' \<Longrightarrow> gate_reachable claims_in db \<Longrightarrow> map_of (gd_proposals db) pid = Some pp \<Longrightarrow>
     pp_status pp \<noteq> ''pending'' \<Longrightarrow> map_of (gd_proposals db') pid = Some pp"
proof (induction rule: rtranclp_induct)
  case base
  then show ?case by blast
next
  case (step y z)
  then show ?case using gate_step_keeps_decided [OF step.hyps(2)] step.IH step.prems by blast
qed

text \<open>The entry of a row that the gate wrote.\<close>

definition row_entry :: "allowlist_row \<Rightarrow> allowlist_entry" where
  "row_entry r = \<lparr>al_scope_type = aw_scope_type r, al_scope_value = aw_scope_value r,
     al_rule_id = aw_rule_id r, al_expires_at = aw_expires_at r, al_approved_by = aw_approved_by r,
     al_requested_by = aw_requested_by r, al_reason = (case aw_reason r of None \<Rightarrow> [] | Some t \<Rightarrow> t)\<rparr>"

lemma allowlist_row_entry:
  "allowlist_row_ok r \<Longrightarrow> 0 < aw_expires_at r \<Longrightarrow> allowlist_row_to_entry r = Inr (row_entry r)"
  unfolding allowlist_row_ok_def allowlist_row_to_entry_def allowlist_entry_post_init_def row_entry_def
  by (simp add: raise_if_def)

section \<open>Properties\<close>

text \<open>C23: The gate's tables never disagree (INV-12). In every reachable state, whatever sequence of
  decisions, reviews, waivers and proposals led there: a verdict row's token carries exactly the row's
  content hash, verdict, policy version, severity and score, and its score lies in its verdict's band; the
  newest outbox event of its scan carries that very verdict, token and token id; a scan without a
  verdict has no outbox event; and outbox events and verdict audit intents correspond one to one, in
  order, naming the same scan and verdict.\<close>

theorem gate_tables_consistent:
  assumes "gate_reachable claims_in db"
  shows "(\<forall>sid row. map_of (gd_verdicts db) sid = Some row \<longrightarrow>
      claims_in (vd_jws_signature row) = row_claims row \<and> in_band (vd_verdict row) (vd_score row) \<and>
      outbox_of db sid \<noteq> [] \<and> ob_payload (last (outbox_of db sid)) =
        outbox_payload sid (vd_content_hash row) (vd_verdict row) (vd_jti row) (vd_jws_signature row)) \<and>
    (\<forall>sid. map_of (gd_verdicts db) sid = None \<longrightarrow> outbox_of db sid = []) \<and>
    list_all2 audits (filter is_verdict_intent (gd_intents db)) (gd_outbox db)"
proof -
  have ok: "verdicts_ok claims_in db" using gate_reachable_ok [OF assms] by blast
  have ann: "announced (outbox_of db sid) sid (map_of (gd_verdicts db) sid)" for sid
    using ok unfolding verdicts_ok_def by blast
  have row: "verdict_row_ok claims_in row" if "map_of (gd_verdicts db) sid = Some row" for sid row
  proof -
    have "row \<in> snd ` set (gd_verdicts db)" using map_of_SomeD [OF that] by (rule rev_image_eqI) simp
    then show ?thesis using ok unfolding verdicts_ok_def by blast
  qed
  have "announced (outbox_of db sid) sid (Some row)" if "map_of (gd_verdicts db) sid = Some row" for sid row
    using ann [of sid] that by simp
  moreover have "announced (outbox_of db sid) sid None" if "map_of (gd_verdicts db) sid = None" for sid
    using ann [of sid] that by simp
  ultimately show ?thesis
    using row ok unfolding announced_def verdict_row_ok_def verdicts_ok_def option.case by blast
qed

text \<open>Note: Four eyes on hard-gate rules. In every reachable state an approved proposal that changes the
  hard-gate rules names an approver other than its proposer, and once a proposal is approved or rejected
  no later operation of the gate changes it.\<close>

theorem policy_four_eyes_and_final:
  assumes "gate_reachable claims_in db" "map_of (gd_proposals db) pid = Some pp"
    and "pp_changes_hard_gate_rules pp" "pp_status pp \<noteq> ''pending''" "(gate_step claims_in)\<^sup>*\<^sup>* db db'"
  shows "map_of (gd_proposals db') pid = Some pp \<and>
    (pp_status pp = ''approved'' \<longrightarrow> (\<exists>a. pp_approved_by pp = Some a \<and> a \<noteq> pp_proposed_by pp))"
proof -
  have "proposal_ok pp" using workflow_proposal gate_reachable_ok [OF assms(1)] assms(2) by blast
  then show ?thesis
    using gate_steps_keep_decided [OF assms(5,1,2,4)] assms(3) unfolding proposal_ok_def by blast
qed

text \<open>C24: Separation of duties in review. A decision is accepted only for a scan whose verdict is REVIEW
  and whose skill has not moved on, from someone who is neither its first submitter nor any recorded
  co-submitter; it turns the verdict into PASS or BLOCK as decided, keeps the earlier reasons, scores
  it within the new band, and takes the scan out of the review queue, so that no second decision on
  it can succeed.\<close>

theorem review_separation_of_duties:
  assumes "submit_review_decision V odb gdb invt utcnow sg sid d who why p = Inr (row', gdb')"
  shows "(\<exists>job row. map_of (od_jobs odb) sid = Some job \<and> who \<noteq> sj_submitter job \<and>
      \<not> is_scan_submitter odb sid who \<and> map_of (gd_verdicts gdb) sid = Some row \<and>
      vd_verdict row = ''REVIEW'' \<and> \<not> review_superseded invt (vd_content_hash row) \<and>
      take (length (vd_reasons row)) (vd_reasons row') = vd_reasons row) \<and>
    map_option verdict_name (map_of DECISION_TO_VERDICT d) = Some (vd_verdict row') \<and>
    in_band (vd_verdict row') (vd_score row') \<and> map_of (gd_verdicts gdb') sid = Some row' \<and>
    (sid, row') \<notin> set (list_pending_reviews gdb') \<and>
    (\<exists>e. submit_review_decision V odb gdb' invt2 utcnow2 sg2 sid d2 who2 why2 p2 = Inl e)"
  using assms
proof (rule submit_review_InrE)
  fix nv job row rr fs e a
  assume *: "map_of DECISION_TO_VERDICT d = Some nv" "map_of (od_jobs odb) sid = Some job"
    "who \<noteq> sj_submitter job" "\<not> is_scan_submitter odb sid who" "map_of (gd_verdicts gdb) sid = Some row"
    "vd_verdict row = ''REVIEW''" "\<not> review_superseded invt (vd_content_hash row)"
    "vd_verdict row' = verdict_name nv" "vd_score row' = security_score nv fs False (gp_category_weights p)"
    "vd_reasons row' = vd_reasons row @ [''manual review by '' @ who @ '': '' @ d @ '' - '' @ why]"
    "gd_verdicts gdb' = dict_put sid row' (gd_verdicts gdb)"
  have nr: "vd_verdict row' \<noteq> ''REVIEW''"
    using decision_verdict [OF *(1)] unfolding *(8) by (cases nv) simp_all
  have row': "map_of (gd_verdicts gdb') sid = Some row'" unfolding *(11) by (simp add: update_conv')
  have "submit_review_decision V odb gdb' invt2 utcnow2 sg2 sid d2 who2 why2 p2 \<noteq> Inr (r2, g2)" for r2 g2
  proof
    assume "submit_review_decision V odb gdb' invt2 utcnow2 sg2 sid d2 who2 why2 p2 = Inr (r2, g2)"
    then obtain row2 where "map_of (gd_verdicts gdb') sid = Some row2" "vd_verdict row2 = ''REVIEW''"
      by (elim submit_review_InrE)
    then show False using row' nr by simp
  qed
  then have again: "\<exists>e. submit_review_decision V odb gdb' invt2 utcnow2 sg2 sid d2 who2 why2 p2 = Inl e"
    by (cases "submit_review_decision V odb gdb' invt2 utcnow2 sg2 sid d2 who2 why2 p2") auto
  have "(sid, row') \<notin> set (list_pending_reviews gdb')" using nr by (simp add: list_pending_reviews_def)
  moreover have "in_band (vd_verdict row') (vd_score row')" unfolding *(8,9) by (rule security_score_in_band)
  moreover have "take (length (vd_reasons row)) (vd_reasons row') = vd_reasons row" unfolding *(10) by simp
  moreover have "map_option verdict_name (map_of DECISION_TO_VERDICT d) = Some (vd_verdict row')"
    unfolding *(1) *(8) by simp
  ultimately show ?thesis using *(2-7) row' again by blast
qed

text \<open>Note: Active waivers. In every reachable state and at any representable time from the epoch on, the list
  of active allowlist entries is delivered without error, holds exactly the entries of the unexpired
  rows, and each entry was approved by someone other than its requester, names a rule, and expires
  later than the time of the query as the database sees it.\<close>

theorem active_allowlist_sound:
  assumes "gate_reachable claims_in db" "fromtimestamp now = Inr dt" "0 \<le> dt"
  shows "\<exists>es. list_active_allowlist_entries db now = Inr es \<and>
    es = map (row_entry \<circ> snd) (filter (\<lambda>(k, r). dt < aw_expires_at r) (gd_allowlist db)) \<and>
    (\<forall>e \<in> set es. al_approved_by e \<noteq> al_requested_by e \<and> al_rule_id e \<noteq> [] \<and> dt < al_expires_at e)"
proof -
  let ?rows = "filter (\<lambda>(k, r). dt < aw_expires_at r) (gd_allowlist db)"
  have ok: "allowlist_row_ok (snd x)" "dt < aw_expires_at (snd x)" if "x \<in> set ?rows" for x
    using that gate_reachable_ok [OF assms(1)] by (auto simp: workflow_ok_def list_all_iff)
  have f: "allowlist_row_to_entry (snd x) = Inr (row_entry (snd x))" if "x \<in> set ?rows" for x
    using allowlist_row_entry [OF ok(1) [OF that]] ok(2) [OF that] assms(3) by simp
  have "list_active_allowlist_entries db now = Inr (map (row_entry \<circ> snd) ?rows)"
    unfolding list_active_allowlist_entries_def list_active_allowlist_rows_def assms(2) res_bind_Inr
    using f by (intro res_map_Inr_all) simp
  moreover have "al_approved_by e \<noteq> al_requested_by e \<and> al_rule_id e \<noteq> [] \<and> dt < al_expires_at e"
    if e: "e \<in> set (map (row_entry \<circ> snd) ?rows)" for e
  proof -
    obtain x where "x \<in> set ?rows" "e = row_entry (snd x)" using e by auto
    then show ?thesis using ok [of x] by (simp add: allowlist_row_ok_def row_entry_def)
  qed
  ultimately show ?thesis by blast
qed

text \<open>Note: Waivers scoped to a skill have no effect. The gate service calls the kernel without a skill id, so
  for every scan, policy, tier, clock and allowlist, leaving out all entries of scope \<open>skill_id\<close> changes
  neither the verdict nor anything that is recorded.\<close>

theorem skill_scoped_waivers_inert:
  "decide_and_record db utcnow sg sid sr p t (filter (\<lambda>e. al_scope_type e \<noteq> ''skill_id'') al) op now extra =
   decide_and_record db utcnow sg sid sr p t al op now extra"
proof -
  have "\<not> is_active e now (sr_content_hash sr) None" if "al_scope_type e = ''skill_id''" for e
    using that by (simp add: is_active_def)
  then have "decide sr p t (filter (\<lambda>e. al_scope_type e \<noteq> ''skill_id'') al) now 0 None = decide sr p t al now 0 None"
    by (intro decide_active_cong) auto
  then show ?thesis unfolding decide_and_record_def by simp
qed

section \<open>Witnesses\<close>

text \<open>A signer whose token is the verdict's name, for the claims of one scan.\<close>

definition demo_claims :: "string \<Rightarrow> verdict_claims" where
  "demo_claims v = \<lparr>vc_content_hash = ''h'', vc_verdict = v, vc_policy_version = ''v1'',
     vc_effective_severity = 0, vc_score = (if v = ''REVIEW'' then 40 else 100)\<rparr>"

definition demo_signer :: signer where
  "demo_signer = \<lparr>sg_sign = (\<lambda>c. if c = demo_claims (vc_verdict c) then Inr (vc_verdict c) else Inl RuntimeError),
     sg_jti = (\<lambda>jws. Inr jws)\<rparr>"

lemma demo_signer_ok: "signer_ok demo_claims demo_signer"
  by (auto simp: signer_ok_def demo_signer_def split: if_splits)

definition capped_scan :: scan_result where
  "capped_scan = (sample_scan [])\<lparr>sr_findings_capped := True\<rparr>"

lemma capped_decision:
  "decide capped_scan sample_policy INTERNAL [] 0 0 None =
     \<lparr>vr_verdict = REVIEW, vr_reasons = [''severity_all=NONE'', ''severity_non_llm=NONE'', ''findings_capped_forces_review''],
      vr_policy_version = ''v1'', vr_effective_severity = NONE, vr_trifecta_present = False,
      vr_hard_gate_hits = [], vr_fail_closed = False, vr_score = 40\<rparr>"
  by (simp add: decide_def capped_scan_def sample_defs combined_hard_gate_def evaluate_findings_def
      counted_findings_def collect_signals_def effective_findings_def signal_lost_def restore_signals_def
      classify_def block_threshold_def security_score_eq severity_order verdict_order max_def
      ALL_TRIFECTA_SIGNALS_def)

definition review_row :: verdict_row where
  "review_row = \<lparr>vd_content_hash = ''h'', vd_verdict = ''REVIEW'', vd_policy_version = ''v1'', vd_jti = ''REVIEW'',
     vd_jws_signature = ''REVIEW'', vd_effective_severity = 0, vd_score = 40,
     vd_reasons = [''severity_all=NONE'', ''severity_non_llm=NONE'', ''findings_capped_forces_review''],
     vd_fail_closed = False, vd_issued_at = 0\<rparr>"

definition demo_gate :: gate_db where
  "demo_gate = empty_gate\<lparr>gd_verdicts := [(''s1'', review_row)],
     gd_outbox := [\<lparr>ob_aggregate_id = ''s1'', ob_event_type = ''verdict_issued'',
       ob_payload = outbox_payload ''s1'' ''h'' ''REVIEW'' ''REVIEW'' ''REVIEW'', ob_dispatched = False, ob_created_at = 0\<rparr>],
     gd_intents := [\<lparr>ai_operator = ''op'', ai_action = ''verdict_issued'',
       ai_payload = [(''scan_id'', PStr ''s1''), (''content_hash'', PStr ''h''), (''verdict'', PStr ''REVIEW''),
         (''policy_version'', PStr ''v1''), (''reasons'', PList (map PStr (vd_reasons review_row)))]\<rparr>]\<rparr>"

lemma demo_decided:
  "\<exists>vr. decide_and_record empty_gate 0 demo_signer ''s1'' capped_scan sample_policy INTERNAL [] ''op'' 0 [] = Inr (vr, demo_gate)"
  unfolding decide_and_record_def capped_decision Let_def
  by (simp add: demo_signer_def demo_claims_def capped_scan_def sample_scan_def empty_gate_def demo_gate_def
      review_row_def raise_if_def)

lemma demo_reachable: "gate_reachable demo_claims demo_gate"
  using demo_decided by (elim exE) (rule r_into_rtranclp, rule step_decide [OF demo_signer_ok])

theorem gate_tables_consistent_witness:
  "map_of (gd_verdicts demo_gate) ''s1'' = Some review_row \<and> in_band (vd_verdict review_row) (vd_score review_row)"
proof -
  have "map_of (gd_verdicts demo_gate) ''s1'' = Some review_row" by (simp add: demo_gate_def)
  then show ?thesis using gate_tables_consistent [OF demo_reachable] by blast
qed

definition reviewable_orch :: orch_db where
  "reviewable_orch = empty_orch\<lparr>od_jobs := [(''s1'', \<lparr>sj_content_hash = ''h'', sj_toolchain_digest = ''d'',
       sj_cache_key = ''k'', sj_state = STATE_DECIDED, sj_submitter = ''alice'', sj_created_at = 0, sj_skill_name = None,
       sj_sandbox_wait_started_at = None, sj_trust_tier = None\<rparr>)],
     od_results := [(''s1'', \<lparr>rr_content_hash = ''h'', rr_severity = 0, rr_confidence_at_max = 0,
       rr_trifecta_present = False, rr_findings_capped = True, rr_findings_total = Some 0, rr_required_ok = True,
       rr_findings = [], rr_provenance = [], rr_hard_gate_hits = []\<rparr>)]\<rparr>"

lemma demo_review:
  "\<exists>row gdb'. submit_review_decision strict_finding reviewable_orch demo_gate None 1 demo_signer ''s1'' ''approve''
     ''bob'' ''ok'' sample_policy = Inr (row, gdb')"
proof -
  have others: "{p \<in> set (gd_verdicts demo_gate). fst p \<noteq> ''s1''} = {}" by (auto simp: demo_gate_def)
  have "band_position PASS 0 = 100" using py_round_of_int [of 100] by (simp add: band_position_def)
  then have "security_score PASS [] False (gp_category_weights sample_policy) = 100"
    by (simp add: security_score_eq raw_penalty_def)
  moreover have "map_of (gd_verdicts demo_gate) ''s1'' = Some review_row" by (simp add: demo_gate_def)
  ultimately show ?thesis
    by (simp add: others submit_review_decision_def DECISION_TO_VERDICT_def reviewable_orch_def empty_orch_def
        is_scan_submitter_def review_row_def review_superseded_def demo_signer_def demo_claims_def
        raise_if_def Let_def)
qed

theorem review_separation_of_duties_witness:
  "\<exists>row gdb'. submit_review_decision strict_finding reviewable_orch demo_gate None 1 demo_signer ''s1'' ''approve''
     ''bob'' ''ok'' sample_policy = Inr (row, gdb') \<and> map_of (gd_verdicts gdb') ''s1'' = Some row"
proof -
  obtain row gdb' where r: "submit_review_decision strict_finding reviewable_orch demo_gate None 1 demo_signer
      ''s1'' ''approve'' ''bob'' ''ok'' sample_policy = Inr (row, gdb')"
    using demo_review by (elim exE)
  show ?thesis
    by (intro exI [of _ row] exI [of _ gdb'] conjI r)
      (use review_separation_of_duties [OF r, of None 0 demo_signer "[]" "[]" "[]" sample_policy] in \<open>elim conjE\<close>)
qed

definition rules_document :: pyval where
  "rules_document = PDict [(PStr ''version'', PStr ''v2''), (PStr ''required_engines'', PList [PStr ''static-keyword'']),
     (PStr ''hard_gate_rules'', PList [PStr ''r1''])]"

lemma rules_document_parses:
  "\<exists>p. (case rules_document of PDict raw \<Rightarrow> parse_gate_policy raw | _ \<Rightarrow> Inl GatePolicyLoadError) = Inr p \<and>
     gp_hard_gate_rules p = {''r1''}"
  by (simp add: rules_document_def parse_gate_policy_def dict_get_def optional_field_def gate_policy_post_init_def
      as_load_error_def raise_if_def pfloat_between_def severity_order the_str_def)

definition pending_row :: proposal_row where
  "pending_row = \<lparr>pp_yaml = ''y'', pp_changes_hard_gate_rules = True, pp_status = ''pending'', pp_proposed_by = ''alice'',
     pp_approved_by = None, pp_reason = None, pp_created_at = 0, pp_decided_at = None\<rparr>"

definition approved_row :: proposal_row where
  "approved_row = pending_row\<lparr>pp_status := ''approved'', pp_approved_by := Some ''bob'', pp_decided_at := Some 1\<rparr>"

lemma demo_approved:
  "\<exists>db. gate_reachable demo_claims db \<and> map_of (gd_proposals db) 1 = Some approved_row"
proof -
  obtain p where p: "(case rules_document of PDict raw \<Rightarrow> parse_gate_policy raw | _ \<Rightarrow> Inl GatePolicyLoadError) = Inr p"
    "gp_hard_gate_rules p = {''r1''}" using rules_document_parses by (elim exE conjE)
  have "\<exists>pp db1. propose_policy_change (\<lambda>_. Parsed rules_document) empty_gate 0 ''alice'' {} ''y'' = Inr (pp, db1) \<and>
      gd_proposals db1 = [(1, pending_row)]"
    using p by (simp add: propose_policy_change_def Let_def empty_gate_def pending_row_def rules_document_def)
  then obtain pp db1 where d1: "propose_policy_change (\<lambda>_. Parsed rules_document) empty_gate 0 ''alice'' {} ''y'' = Inr (pp, db1)"
    "gd_proposals db1 = [(1, pending_row)]" by (elim exE conjE)
  have "\<exists>db2. approve_policy_proposal db1 1 (1, pending_row) ''bob'' = Inr db2 \<and> map_of (gd_proposals db2) 1 = Some approved_row"
    by (simp add: approve_policy_proposal_def raise_if_def d1(2) approved_row_def, simp add: pending_row_def)
  then obtain db2 where d2: "approve_policy_proposal db1 1 (1, pending_row) ''bob'' = Inr db2"
    "map_of (gd_proposals db2) 1 = Some approved_row" by (elim exE conjE)
  have "gate_step demo_claims empty_gate db1" by (rule step_propose [OF d1(1)])
  moreover have "gate_step demo_claims db1 db2" by (rule step_approve [OF _ d2(1)]) (simp add: d1(2))
  ultimately have "gate_reachable demo_claims db2" by (meson rtranclp.rtrancl_into_rtrancl rtranclp.rtrancl_refl)
  then show ?thesis using d2(2) by blast
qed

theorem policy_four_eyes_and_final_witness:
  "\<exists>db. gate_reachable demo_claims db \<and> map_of (gd_proposals db) 1 = Some approved_row \<and>
     (\<exists>a. pp_approved_by approved_row = Some a \<and> a \<noteq> pp_proposed_by approved_row)"
proof -
  obtain db where db: "gate_reachable demo_claims db" "map_of (gd_proposals db) 1 = Some approved_row"
    using demo_approved by (elim exE conjE)
  have "pp_changes_hard_gate_rules approved_row" "pp_status approved_row \<noteq> ''pending''"
    "pp_status approved_row = ''approved''" by (simp_all add: approved_row_def pending_row_def)
  then show ?thesis
    using policy_four_eyes_and_final [OF db, of db] db by blast
qed

lemma demo_granted:
  "\<exists>row db. grant_allowlist_entry empty_gate ''u1'' ''rule_global'' [] ''r1'' 100 ''bob'' ''alice'' [] = Inr (row, db) \<and>
     aw_expires_at row = 100 \<and> gd_allowlist db = [(''u1'', row)]"
proof -
  have "fromtimestamp 100 = Inr 100" using py_round_of_int [of 100000000] by (simp add: fromtimestamp_def Let_def)
  then show ?thesis
    by (simp add: grant_allowlist_entry_def allowlist_entry_post_init_def raise_if_def Let_def empty_gate_def)
qed

theorem active_allowlist_sound_witness:
  "\<exists>db es. gd_allowlist db \<noteq> [] \<and> list_active_allowlist_entries db 0 = Inr es \<and> length es = 1 \<and>
     (\<forall>e \<in> set es. al_approved_by e \<noteq> al_requested_by e)"
proof -
  obtain row db where g: "grant_allowlist_entry empty_gate ''u1'' ''rule_global'' [] ''r1'' 100 ''bob'' ''alice'' [] =
      Inr (row, db)" "aw_expires_at row = 100" "gd_allowlist db = [(''u1'', row)]"
    using demo_granted by (elim exE conjE)
  have "gate_reachable demo_claims db" using step_grant [OF g(1)] by (rule r_into_rtranclp)
  moreover have "fromtimestamp 0 = Inr 0" using py_round_of_int [of 0] by (simp add: fromtimestamp_def Let_def)
  ultimately have "\<exists>es. list_active_allowlist_entries db 0 = Inr es \<and>
      es = map (row_entry \<circ> snd) (filter (\<lambda>(k, r). 0 < aw_expires_at r) (gd_allowlist db)) \<and>
      (\<forall>e \<in> set es. al_approved_by e \<noteq> al_requested_by e \<and> al_rule_id e \<noteq> [] \<and> 0 < al_expires_at e)"
    by (rule active_allowlist_sound) simp
  then obtain es where es: "list_active_allowlist_entries db 0 = Inr es"
    "es = map (row_entry \<circ> snd) (filter (\<lambda>(k, r). 0 < aw_expires_at r) (gd_allowlist db))"
    "\<forall>e \<in> set es. al_approved_by e \<noteq> al_requested_by e \<and> al_rule_id e \<noteq> [] \<and> 0 < al_expires_at e"
    by (elim exE conjE)
  have "length es = 1" unfolding es(2) g(3) by (simp add: g(2))
  moreover have "gd_allowlist db \<noteq> []" unfolding g(3) by simp
  ultimately show ?thesis using es(1,3) by (intro exI [of _ db] exI [of _ es]) blast
qed

end
