(* ===== verification/Skill_Package.thy ===== *)
theory Skill_Package
  imports Core_Canonical
begin

text \<open>
  Where a package keeps its one authoritative \<open>SKILL.md\<close> (\<open>libs/common/skill_package.py\<close>) and how its
  front matter is read (\<open>libs/common/frontmatter.py\<close>). Paths are lists of code points. The Unicode case
  mappings, white-space stripping, strict UTF-8 decoding and the alias-free YAML loader are parameters.
\<close>

section \<open>The package root\<close>

definition SKILL_MD_NAME :: ustr where
  "SKILL_MD_NAME = ustr_of ''SKILL.md''"

definition STRUCTURAL_DIRECTORIES :: "ustr list" where
  "STRUCTURAL_DIRECTORIES = map ustr_of [''scripts'', ''references'', ''assets'', ''hooks'', ''examples'', ''docs'']"

definition ROOT_METADATA_STEMS :: "ustr list" where
  "ROOT_METADATA_STEMS = map ustr_of [''LICENSE'', ''LICENCE'', ''COPYING'', ''NOTICE'', ''README'', ''CHANGELOG'',
     ''CHANGES'', ''HISTORY'', ''AUTHORS'', ''CONTRIBUTORS'', ''CONTRIBUTING'', ''CODEOWNERS'']"

record case_maps =
  cm_upper :: "ustr \<Rightarrow> ustr"
  cm_lower :: "ustr \<Rightarrow> ustr"

abbreviation dot :: nat where "dot \<equiv> 0x2E"

definition is_root_metadata :: "case_maps \<Rightarrow> ustr \<Rightarrow> bool" where
  "is_root_metadata cm name =
     (if take 1 name = [dot] then True
      else cm_upper cm (takeWhile (\<lambda>c. c \<noteq> dot) name) \<in> set ROOT_METADATA_STEMS)"

text \<open>The loop of \<open>package_root_prefix\<close>: it stops early with no wrapper, or ends with the top-level
  directories seen. \<open>path.partition("/")\<close> has an empty separator exactly when there is no slash.\<close>

fun collect_tops :: "case_maps \<Rightarrow> ustr set \<Rightarrow> ustr list \<Rightarrow> ustr set option" where
  "collect_tops cm tops [] = Some tops"
| "collect_tops cm tops (path # paths) =
     (let head = takeWhile (\<lambda>c. c \<noteq> slash) path
      in if slash \<notin> set path then
           (if is_root_metadata cm head then collect_tops cm tops paths else None)
         else if card (insert head tops) > 1 then None
         else collect_tops cm (insert head tops) paths)"

definition package_root_prefix :: "case_maps \<Rightarrow> ustr list \<Rightarrow> ustr" where
  "package_root_prefix cm paths =
     (case collect_tops cm {} paths of
        None \<Rightarrow> []
      | Some tops \<Rightarrow>
          (if card tops \<noteq> 1 then []
           else let wrapper = the_elem tops
                in if cm_lower cm wrapper \<in> set STRUCTURAL_DIRECTORIES then [] else wrapper @ [slash]))"

definition root_skill_md_path :: "case_maps \<Rightarrow> ustr list \<Rightarrow> ustr" where
  "root_skill_md_path cm paths = package_root_prefix cm paths @ SKILL_MD_NAME"

section \<open>Front matter\<close>

definition MAX_FRONTMATTER_BYTES :: nat where
  "MAX_FRONTMATTER_BYTES = 64 * 1024"

text \<open>A value of the mapping as far as the callers look at it: a string, a list of which only the string
  entries are told apart, or anything else.\<close>

datatype fm_value = FM_Str ustr | FM_List "ustr option list" | FM_Other

record frontmatter_reader =
  fm_decode :: "bytes \<Rightarrow> ustr option"
  fm_load :: "ustr \<Rightarrow> (ustr \<times> fm_value) list option"

text \<open>\<open>text.split(sep, 1)\<close>: the two pieces around the first occurrence, if there is one.\<close>

fun split_once :: "ustr \<Rightarrow> ustr \<Rightarrow> (ustr \<times> ustr) option" where
  "split_once sep [] = (if sep = [] then Some ([], []) else None)"
| "split_once sep (c # cs) =
     (if py_startswith (c # cs) sep then Some ([], drop (length sep) (c # cs))
      else map_option (\<lambda>(a, b). (c # a, b)) (split_once sep cs))"

definition parse_frontmatter :: "frontmatter_reader \<Rightarrow> bytes \<Rightarrow> (ustr \<times> fm_value) list option" where
  "parse_frontmatter fm data =
     (if \<not> py_startswith data (map of_char ''---'') then None
      else case fm_decode fm data of
        None \<Rightarrow> None
      | Some t \<Rightarrow>
          (case split_once (0x0A # ustr_of ''---'') t of
             None \<Rightarrow> None
           | Some (front, rest) \<Rightarrow>
               let block = drop 3 front
               in if length (concat (map utf8_nats block)) > MAX_FRONTMATTER_BYTES then None
                  else fm_load fm block))"

text \<open>The display name of a scan (\<open>orchestration/service.py\<close>).\<close>

definition parse_skill_name ::
  "case_maps \<Rightarrow> frontmatter_reader \<Rightarrow> (ustr \<Rightarrow> ustr) \<Rightarrow> file_entry list \<Rightarrow> ustr option" where
  "parse_skill_name cm fm strip files =
     (case List.find (\<lambda>(path, mode, data). path = root_skill_md_path cm (map fst files)) files of
        None \<Rightarrow> None
      | Some (path, mode, data) \<Rightarrow>
          (case parse_frontmatter fm data of
             None \<Rightarrow> None
           | Some frontmatter \<Rightarrow>
               (case map_of frontmatter (ustr_of ''name'') of
                  Some (FM_Str name) \<Rightarrow> if strip name \<noteq> [] then Some (take 255 (strip name)) else None
                | _ \<Rightarrow> None)))"

section \<open>Facts\<close>

lemma collect_tops_Some:
  "collect_tops cm tops paths = Some ts \<Longrightarrow> card tops \<le> 1 \<Longrightarrow> finite tops \<Longrightarrow>
     ts = tops \<union> {takeWhile (\<lambda>c. c \<noteq> slash) p | p. p \<in> set paths \<and> slash \<in> set p} \<and> card ts \<le> 1 \<and>
     (\<forall>p \<in> set paths. slash \<notin> set p \<longrightarrow> is_root_metadata cm p)"
proof (induction paths arbitrary: tops)
  case Nil
  then show ?case by simp
next
  case (Cons p paths)
  show ?case
  proof (cases "slash \<in> set p")
    case True
    then have "collect_tops cm (insert (takeWhile (\<lambda>c. c \<noteq> slash) p) tops) paths = Some ts"
      "card (insert (takeWhile (\<lambda>c. c \<noteq> slash) p) tops) \<le> 1"
      using Cons.prems by (auto simp: Let_def split: if_splits)
    then show ?thesis using Cons.IH [of "insert (takeWhile (\<lambda>c. c \<noteq> slash) p) tops"] Cons.prems(3) True by auto
  next
    case False
    then have "takeWhile (\<lambda>c. c \<noteq> slash) p = p" by (auto simp: takeWhile_eq_all_conv)
    then have "is_root_metadata cm p" "collect_tops cm tops paths = Some ts"
      using Cons.prems(1) False by (simp_all add: Let_def del: takeWhile_eq_all_conv split: if_splits)
    then show ?thesis using Cons.IH [OF _ Cons.prems(2,3)] False by auto
  qed
qed

lemma package_root_prefix_cases:
  obtains "package_root_prefix cm paths = []"
  | w where "package_root_prefix cm paths = w @ [slash]" "slash \<notin> set w"
      "cm_lower cm w \<notin> set STRUCTURAL_DIRECTORIES"
      "\<And>p. p \<in> set paths \<Longrightarrow> slash \<in> set p \<Longrightarrow> takeWhile (\<lambda>c. c \<noteq> slash) p = w"
      "\<And>p. p \<in> set paths \<Longrightarrow> slash \<notin> set p \<Longrightarrow> is_root_metadata cm p"
proof (cases "collect_tops cm {} paths")
  case None
  then show thesis using that(1) by (simp add: package_root_prefix_def)
next
  case (Some ts)
  note ts = collect_tops_Some [OF Some, simplified]
  show thesis
  proof (cases "card ts = 1 \<and> cm_lower cm (the_elem ts) \<notin> set STRUCTURAL_DIRECTORIES")
    case False
    then show thesis using that(1) Some by (auto simp: package_root_prefix_def Let_def)
  next
    case True
    then obtain w where w: "ts = {w}" by (auto simp: card_1_singleton_iff)
    then obtain p where "w = takeWhile (\<lambda>c. c \<noteq> slash) p" using ts by auto
    then have "slash \<notin> set w" by (metis (mono_tags, lifting) set_takeWhileD)
    moreover have "takeWhile (\<lambda>c. c \<noteq> slash) p = w" if "p \<in> set paths" "slash \<in> set p" for p
      using ts w that by auto
    ultimately show thesis
      using that(2) [of w] True Some w ts by (auto simp: package_root_prefix_def)
  qed
qed

section \<open>Properties\<close>

text \<open>Note: The manifest is never a nested file. For every set of member paths, the path at which the
  manifest is looked up lies at most one directory deep; if it lies in a directory, that directory is
  not one of the format's structural ones, and every member outside it is packaging metadata at the
  archive root. So a \<open>SKILL.md\<close> under \<open>examples\<close> or
  \<open>scripts\<close>, or beside other content of the package, is never taken for the manifest.\<close>

theorem manifest_never_nested:
  assumes "path \<in> set paths" "path = root_skill_md_path cm paths"
  shows "path = SKILL_MD_NAME \<or>
    (\<exists>w. path = w @ slash # SKILL_MD_NAME \<and> slash \<notin> set w \<and> cm_lower cm w \<notin> set STRUCTURAL_DIRECTORIES \<and>
      (\<forall>p \<in> set paths. (\<exists>r. p = w @ slash # r) \<or> slash \<notin> set p \<and> is_root_metadata cm p))"
proof (cases rule: package_root_prefix_cases [of cm paths])
  case 1
  then show ?thesis using assms(2) by (simp add: root_skill_md_path_def)
next
  case (2 w)
  have "\<exists>r. p = w @ slash # r" if "p \<in> set paths" "slash \<in> set p" for p
  proof -
    have "p = takeWhile (\<lambda>c. c \<noteq> slash) p @ dropWhile (\<lambda>c. c \<noteq> slash) p" by simp
    moreover have "\<exists>r. dropWhile (\<lambda>c. c \<noteq> slash) p = slash # r"
      using that(2) by (induction p) auto
    ultimately show ?thesis using 2(4) [OF that] by auto
  qed
  then show ?thesis using assms(2) 2 by (auto simp: root_skill_md_path_def)
qed

definition ascii_case :: case_maps where
  "ascii_case = \<lparr>cm_upper = map (\<lambda>c. if 97 \<le> c \<and> c \<le> 122 then c - 32 else c),
     cm_lower = map (\<lambda>c. if 65 \<le> c \<and> c \<le> 90 then c + 32 else c)\<rparr>"

text \<open>The examples the documentation of \<open>package_root_prefix\<close> lists.\<close>

lemma package_root_examples:
  "package_root_prefix ascii_case (map ustr_of [''my-skill/SKILL.md'', ''my-skill/scripts/run.sh'']) = ustr_of ''my-skill/''"
  "package_root_prefix ascii_case (map ustr_of [''SKILL.md'', ''scripts/run.sh'']) = []"
  "package_root_prefix ascii_case (map ustr_of [''examples/SKILL.md'', ''scripts/run.sh'']) = []"
  "package_root_prefix ascii_case (map ustr_of [''examples/SKILL.md'']) = []"
  "package_root_prefix ascii_case (map ustr_of [''my-skill/SKILL.md'', ''my-skill/run.sh'', ''LICENSE'']) = ustr_of ''my-skill/''"
  "package_root_prefix ascii_case (map ustr_of [''skill.py'', ''mylib/SKILL.md'']) = []"
  by (simp_all add: package_root_prefix_def ascii_case_def is_root_metadata_def ROOT_METADATA_STEMS_def
      STRUCTURAL_DIRECTORIES_def ustr_of_def Let_def)

theorem manifest_never_nested_witness:
  "ustr_of ''my-skill/SKILL.md'' = root_skill_md_path ascii_case [ustr_of ''my-skill/SKILL.md''] \<and>
   (\<exists>w. ustr_of ''my-skill/SKILL.md'' = w @ slash # SKILL_MD_NAME \<and> slash \<notin> set w)"
proof -
  have eq: "ustr_of ''my-skill/SKILL.md'' = root_skill_md_path ascii_case [ustr_of ''my-skill/SKILL.md'']"
    by (simp add: root_skill_md_path_def package_root_prefix_def ascii_case_def STRUCTURAL_DIRECTORIES_def
        SKILL_MD_NAME_def ustr_of_def)
  have "ustr_of ''my-skill/SKILL.md'' \<noteq> SKILL_MD_NAME" by (simp add: SKILL_MD_NAME_def ustr_of_def)
  then show ?thesis
    using manifest_never_nested [OF _ eq] eq by auto
qed

end
