(* ===== verification/Scan_Service.thy ===== *)
theory Scan_Service
  imports Gate_Reviews Skill_Package Core_Policy "HOL-Library.Option_ord"
begin

text \<open>
  The scan state machine (\<open>orchestration/service.py\<close>): submission with single-flight deduplication, the
  in-process engine worker, the result collector, the dead-letter path and the sandbox-wait sweep, over
  the orchestration's and the gate's tables, the blob store and the scan stream. A function that opens
  several transactions returns the system together with its result, so that what was committed before an
  exception stays. Redis delivers messages as arguments; the clock, identifiers, hashing, archive
  packing, hardened unpacking, JSON text and the engines are parameters.
\<close>

section \<open>The system\<close>

record scan_message =
  sm_scan_id :: string
  sm_content_hash :: string
  sm_artifact_key :: string
  sm_deadline_epoch :: real
  sm_engines :: "string list"

record 'raw system =
  sy_orch :: orch_db
  sy_gate :: gate_db
  sy_blobs :: "string \<rightharpoonup> 'raw"
  sy_scans :: "scan_message list"

section \<open>Submission\<close>

record 'raw platform =
  pf_nfc :: "ustr \<Rightarrow> ustr"
  pf_sha256 :: "bytes \<Rightarrow> string"
  pf_iter :: iteration
  pf_repr :: py_repr
  pf_sha256_text :: "string \<Rightarrow> string"
  pf_case :: case_maps
  pf_frontmatter :: frontmatter_reader
  pf_strip :: "ustr \<Rightarrow> ustr"
  pf_pack_tar :: "file_entry list \<Rightarrow> 'raw"

definition artifact_key :: "string \<Rightarrow> string" where
  "artifact_key ch = ''artifacts/'' @ ch @ ''/pkg.tar''"

text \<open>The three identities a submission is keyed by.\<close>

definition scan_keys ::
  "'raw platform \<Rightarrow> file_entry list \<Rightarrow> engine_metadata list \<Rightarrow> gate_policy \<Rightarrow> (string \<times> string \<times> string) res" where
  "scan_keys pf files engine_metadatas policy =
     res_bind (content_hash (pf_nfc pf) (pf_sha256 pf) files) (\<lambda>c_hash.
     res_bind (cache_policy_version (pf_iter pf) (pf_repr pf) (pf_sha256_text pf) policy) (\<lambda>cpv.
     res_bind (toolchain_digest (pf_sha256 pf) engine_metadatas cpv ''none'') (\<lambda>t_digest.
     res_bind (cache_key (pf_sha256 pf) c_hash t_digest) (\<lambda>ck.
     Inr (c_hash, t_digest, ck)))))"

definition submit_scan ::
  "'raw platform \<Rightarrow> 'raw system \<Rightarrow> real \<Rightarrow> string \<Rightarrow> file_entry list \<Rightarrow> string \<Rightarrow> engine_metadata list \<Rightarrow>
   gate_policy \<Rightarrow> trust_tier \<Rightarrow> submission_channel \<Rightarrow> trust_tier \<Rightarrow> real \<Rightarrow> 'raw system \<times> string res" where
  "submit_scan pf sy now uuid files submitter engine_metadatas policy trust_tier source requested deadline_s =
     (case scan_keys pf files engine_metadatas policy of
        Inl e \<Rightarrow> (sy, Inl e)
      | Inr (c_hash, t_digest, ck) \<Rightarrow>
          (case List.find (\<lambda>(k, j). sj_cache_key j = ck) (od_jobs (sy_orch sy)) of
             Some (existing, _) \<Rightarrow>
               (sy\<lparr>sy_orch := associate_submitter (sy_orch sy) existing submitter source requested\<rparr>, Inr existing)
           | None \<Rightarrow>
               let a_key = artifact_key c_hash;
                   sy1 = (if sy_blobs sy a_key = None
                          then sy\<lparr>sy_blobs := (sy_blobs sy)(a_key \<mapsto> pf_pack_tar pf files)\<rparr> else sy)
               in if uuid \<in> fst ` set (od_jobs (sy_orch sy)) then (sy1, Inl IntegrityError)
                  else
                    let job = \<lparr>sj_content_hash = c_hash, sj_toolchain_digest = t_digest, sj_cache_key = ck,
                          sj_state = STATE_QUEUED, sj_submitter = submitter, sj_created_at = now,
                          sj_skill_name = parse_skill_name (pf_case pf) (pf_frontmatter pf) (pf_strip pf) files,
                          sj_sandbox_wait_started_at = None,
                          sj_trust_tier = Some (trust_tier_value trust_tier)\<rparr>;
                        odb = (sy_orch sy)\<lparr>od_jobs := od_jobs (sy_orch sy) @ [(uuid, job)]\<rparr>
                    in (sy1\<lparr>sy_orch := associate_submitter odb uuid submitter source requested,
                            sy_scans := sy_scans sy @ [\<lparr>sm_scan_id = uuid, sm_content_hash = c_hash,
                              sm_artifact_key = a_key, sm_deadline_epoch = now + deadline_s,
                              sm_engines = sorted_list_of_set (gp_required_engines policy)\<rparr>]\<rparr>,
                        Inr uuid)))"

section \<open>Scoring and deciding\<close>

definition POISON_PILL_STATUS :: string where "POISON_PILL_STATUS = ''poison_pill''"
definition UNPACK_REJECTED_STATUS :: string where "UNPACK_REJECTED_STATUS = ''unpack_rejected''"
definition POISON_PILL_ENGINE_MARKER :: string where "POISON_PILL_ENGINE_MARKER = ''__poison_pill__''"
definition UNPACK_REJECTED_ENGINE_MARKER :: string where "UNPACK_REJECTED_ENGINE_MARKER = ''__unpack_rejected__''"
definition RESULT_POISON_PILL_REASON :: string where
  "RESULT_POISON_PILL_REASON = ''result_poison_pill:max_delivery_exceeded''"
definition SWEEP_GRACE_S :: real where "SWEEP_GRACE_S = 30"
definition SWEEP_BATCH :: nat where "SWEEP_BATCH = 50"
definition MAX_DELIVERY_COUNT :: nat where "MAX_DELIVERY_COUNT = 5"

text \<open>The arguments that the collector and the sweep pass through.\<close>

record 'raw decide_config =
  dc_reader :: "'raw blob_reader"
  dc_order :: "trifecta_signal set \<Rightarrow> trifecta_signal list"
  dc_policy :: gate_policy
  dc_default_tier :: trust_tier
  dc_allowlist :: "allowlist_entry list"
  dc_signer :: signer
  dc_operator :: string
  dc_additional :: "string list"
  dc_waited :: "string list"

text \<open>\<open>dict.fromkeys\<close>: the first occurrence of each key, in order.\<close>

definition dict_fromkeys :: "'a list \<Rightarrow> 'a list" where
  "dict_fromkeys xs = rev (remdups (rev xs))"

definition forced_block_scan_result :: "string \<Rightarrow> string \<Rightarrow> scan_result" where
  "forced_block_scan_result c_hash reason =
     \<lparr>sr_content_hash = c_hash, sr_severity = CRITICAL, sr_confidence_at_max = 1,
      sr_trifecta_present = False, sr_hard_gate_hits = [], sr_findings = [], sr_engine_provenance = [],
      sr_findings_capped = False, sr_required_ok = False, sr_missing_or_failed_required = [reason],
      sr_findings_total = 0, sr_dedup_collision_rule_ids = {}\<rparr>"

definition effective_trust_tier :: "string option \<Rightarrow> trust_tier \<Rightarrow> trust_tier res" where
  "effective_trust_tier recorded deflt = (case recorded of None \<Rightarrow> Inr deflt | Some t \<Rightarrow> TrustTier_of t)"

definition set_state :: "string \<Rightarrow> string set \<Rightarrow> string \<Rightarrow> orch_db \<Rightarrow> orch_db" where
  "set_state scan_id from to odb = odb\<lparr>od_jobs := map (\<lambda>(k, j).
     (k, if k = scan_id \<and> sj_state j \<in> from then j\<lparr>sj_state := to\<rparr> else j)) (od_jobs odb)\<rparr>"

definition mark_running_if_queued :: "string \<Rightarrow> orch_db \<Rightarrow> orch_db" where
  "mark_running_if_queued scan_id = set_state scan_id {STATE_QUEUED} STATE_RUNNING"

text \<open>The transaction in the gate's own session: on an exception the gate's tables stay.\<close>

definition gate_transaction :: "'raw system \<Rightarrow> (verdict_result \<times> gate_db) res \<Rightarrow> 'raw system \<times> unit res" where
  "gate_transaction sy r = (case r of Inl e \<Rightarrow> (sy, Inl e) | Inr (vr, gdb) \<Rightarrow> (sy\<lparr>sy_gate := gdb\<rparr>, Inr ()))"

definition dead_letter_and_decide ::
  "'raw decide_config \<Rightarrow> real \<Rightarrow> 'raw system \<Rightarrow> string \<Rightarrow> string \<Rightarrow> 'raw system \<times> bool res" where
  "dead_letter_and_decide cfg now sy scan_id reason =
     (case map_of (od_jobs (sy_orch sy)) scan_id of
        None \<Rightarrow> (sy, Inr False)
      | Some job \<Rightarrow>
          if sj_state job \<notin> UNSCORED_STATES then (sy, Inr False)
          else
            (case effective_trust_tier (sj_trust_tier job) (dc_default_tier cfg) of
               Inl e \<Rightarrow> (sy, Inl e)
             | Inr tier \<Rightarrow>
                 (case gate_transaction sy (decide_and_record (sy_gate sy) now (dc_signer cfg) scan_id
                     (forced_block_scan_result (sj_content_hash job) reason) (dc_policy cfg) tier []
                     (dc_operator cfg) now []) of
                    (sy1, Inl e) \<Rightarrow> (sy1, Inl e)
                  | (sy1, Inr _) \<Rightarrow>
                      (sy1\<lparr>sy_orch := set_state scan_id UNSCORED_STATES STATE_FAILED (sy_orch sy1)\<rparr>, Inr True))))"

definition reported :: "(string \<rightharpoonup> 'raw) \<Rightarrow> string \<Rightarrow> string \<Rightarrow> bool" where
  "reported blobs scan_id e \<longleftrightarrow> blobs (findings_key scan_id e) \<noteq> None"

definition health_row_of :: "string \<Rightarrow> real \<Rightarrow> health_record \<Rightarrow> health_row" where
  "health_row_of scan_id recorded_at h =
     \<lparr>hr_scan_id = scan_id, hr_engine_name = hc_engine_name h,
      hr_report_state = report_state_value (hc_report_state h),
      hr_engine_status = map_option status_value (hc_engine_status h),
      hr_analyze_duration_ms = hc_analyze_duration_ms h, hr_finding_count = hc_finding_count h,
      hr_error = hc_error h, hr_recorded_at = recorded_at\<rparr>"

definition result_row_of ::
  "(trifecta_signal set \<Rightarrow> trifecta_signal list) \<Rightarrow> scan_result \<Rightarrow> scan_result_row" where
  "result_row_of order sr =
     \<lparr>rr_content_hash = sr_content_hash sr, rr_severity = severity_int (sr_severity sr),
      rr_confidence_at_max = sr_confidence_at_max sr, rr_trifecta_present = sr_trifecta_present sr,
      rr_findings_capped = sr_findings_capped sr, rr_findings_total = Some (sr_findings_total sr),
      rr_required_ok = sr_required_ok sr, rr_findings = map (serialize_finding order) (sr_findings sr),
      rr_provenance = map (\<lambda>(n, v, d). [n, v, d]) (sr_engine_provenance sr),
      rr_hard_gate_hits = sr_hard_gate_hits sr\<rparr>"

text \<open>What the first transaction of \<open>_try_score_and_decide\<close> came to: not decidable yet (with the
  tables as committed), or scored.\<close>

datatype score_outcome = Not_Ready orch_db | Scored orch_db scan_result "string option" "string list"

definition engine_set :: "'raw decide_config \<Rightarrow> string list \<Rightarrow> string list" where
  "engine_set cfg required_engines = dict_fromkeys (required_engines @ dc_waited cfg @ dc_additional cfg)"

definition score_transaction ::
  "'raw decide_config \<Rightarrow> real \<Rightarrow> orch_db \<Rightarrow> (string \<rightharpoonup> 'raw) \<Rightarrow> string \<Rightarrow> string list \<Rightarrow> bool \<Rightarrow> score_outcome res" where
  "score_transaction cfg now odb blobs scan_id required_engines force_decide =
     (case map_of (od_jobs odb) scan_id of
        None \<Rightarrow> Inr (Not_Ready odb)
      | Some job \<Rightarrow>
          if sj_state job \<notin> UNSCORED_STATES then Inr (Not_Ready odb)
          else if \<not> list_all (reported blobs scan_id) required_engines then Inr (Not_Ready odb)
          else
            let missing = filter (\<lambda>e. \<not> reported blobs scan_id e) (dc_waited cfg)
            in if \<not> force_decide \<and> missing \<noteq> [] then
                 Inr (Not_Ready (if sj_sandbox_wait_started_at job = None
                   then odb\<lparr>od_jobs := dict_put scan_id (job\<lparr>sj_sandbox_wait_started_at := Some now\<rparr>) (od_jobs odb)\<rparr>
                   else odb))
               else
                 let extra_reasons = (if missing = [] then []
                       else [''sandbox_wait_timeout:'' @ py_join '','' (sort missing)])
                 in res_bind (load_and_aggregate (dc_reader cfg) blobs scan_id (sj_content_hash job)
                        (engine_set cfg required_engines) (dc_policy cfg) 0 5000) (\<lambda>(sr, health).
                    res_bind (raise_if (list_ex (\<lambda>h. list_ex (\<lambda>r. hr_scan_id r = scan_id \<and>
                          hr_engine_name r = hc_engine_name h) (od_health odb)) health \<or>
                        \<not> distinct (map hc_engine_name health) \<or> scan_id \<in> fst ` set (od_results odb))
                      IntegrityError) (\<lambda>_.
                    Inr (Scored (odb
                      \<lparr>od_health := od_health odb @ map (health_row_of scan_id now) health,
                       od_results := od_results odb @ [(scan_id, result_row_of (dc_order cfg) sr)],
                       od_jobs := dict_put scan_id (job\<lparr>sj_state := STATE_SCORED\<rparr>) (od_jobs odb)\<rparr>)
                      sr (sj_trust_tier job) extra_reasons))))"

definition try_score_and_decide ::
  "'raw decide_config \<Rightarrow> real \<Rightarrow> 'raw system \<Rightarrow> string \<Rightarrow> string list \<Rightarrow> bool \<Rightarrow> 'raw system \<times> bool res" where
  "try_score_and_decide cfg now sy scan_id required_engines force_decide =
     (case score_transaction cfg now (sy_orch sy) (sy_blobs sy) scan_id required_engines force_decide of
        Inl e \<Rightarrow> (sy, Inl e)
      | Inr (Not_Ready odb) \<Rightarrow> (sy\<lparr>sy_orch := odb\<rparr>, Inr False)
      | Inr (Scored odb sr job_tier extra_reasons) \<Rightarrow>
          let sy1 = sy\<lparr>sy_orch := odb\<rparr> in
          (case effective_trust_tier job_tier (dc_default_tier cfg) of
             Inl e \<Rightarrow> (sy1, Inl e)
           | Inr tier \<Rightarrow>
               (case gate_transaction sy1 (decide_and_record (sy_gate sy1) now (dc_signer cfg) scan_id sr
                   (dc_policy cfg) tier (dc_allowlist cfg) (dc_operator cfg) now extra_reasons) of
                  (sy2, Inl e) \<Rightarrow> (sy2, Inl e)
                | (sy2, Inr _) \<Rightarrow>
                    (sy2\<lparr>sy_orch := set_state scan_id {STATE_SCORED} STATE_DECIDED (sy_orch sy2)\<rparr>, Inr True))))"

section \<open>The collector\<close>

record result_message =
  rm_message_id :: string
  rm_scan_id :: string
  rm_engine :: string
  rm_status :: string

text \<open>Which scans the batch is about, with their messages, in the order of first appearance.\<close>

definition by_scan_id :: "result_message list \<Rightarrow> (string \<times> result_message list) list" where
  "by_scan_id results = map (\<lambda>s. (s, filter (\<lambda>r. rm_scan_id r = s) results))
     (dict_fromkeys (map rm_scan_id results))"

definition collect_scan ::
  "'raw decide_config \<Rightarrow> real \<Rightarrow> (string \<Rightarrow> nat res) \<Rightarrow> 'raw system \<Rightarrow> string \<Rightarrow> result_message list \<Rightarrow>
   'raw system \<times> bool res" where
  "collect_scan cfg now result_delivery_count sy scan_id msgs =
     (case res_map (result_delivery_count \<circ> rm_message_id) msgs of
        Inl e \<Rightarrow> (sy, Inl e)
      | Inr deliveries \<Rightarrow>
          let exhausted = py_max 0 deliveries > MAX_DELIVERY_COUNT;
              statuses = map rm_status msgs
          in if UNPACK_REJECTED_STATUS \<in> set statuses then
               dead_letter_and_decide cfg now sy scan_id ''unpack_rejected:hardening_check_failed''
             else if POISON_PILL_STATUS \<in> set statuses then
               dead_letter_and_decide cfg now sy scan_id ''poison_pill:max_delivery_exceeded''
             else if exhausted then
               dead_letter_and_decide cfg now sy scan_id RESULT_POISON_PILL_REASON
             else try_score_and_decide cfg now
               (sy\<lparr>sy_orch := mark_running_if_queued scan_id (sy_orch sy)\<rparr>) scan_id
               (sorted_list_of_set (gp_required_engines (dc_policy cfg))) False)"

record 'raw tick =
  tk_system :: "'raw system"
  tk_decided :: nat
  tk_failed :: "string set"

text \<open>One scan of the batch: an exception is contained, its scan is remembered as failed.\<close>

definition collect_step ::
  "'raw decide_config \<Rightarrow> real \<Rightarrow> (string \<Rightarrow> nat res) \<Rightarrow> string \<times> result_message list \<Rightarrow> 'raw tick \<Rightarrow> 'raw tick" where
  "collect_step cfg now result_delivery_count = (\<lambda>(scan_id, msgs) tk.
     (case collect_scan cfg now result_delivery_count (tk_system tk) scan_id msgs of
        (sy, Inl e) \<Rightarrow> tk\<lparr>tk_system := sy, tk_failed := insert scan_id (tk_failed tk)\<rparr>
      | (sy, Inr b) \<Rightarrow> tk\<lparr>tk_system := sy, tk_decided := tk_decided tk + (if b then 1 else 0)\<rparr>))"

text \<open>The tick: how many scans were decided, and the messages acknowledged.\<close>

definition run_result_collector_tick ::
  "'raw decide_config \<Rightarrow> real \<Rightarrow> (string \<Rightarrow> nat res) \<Rightarrow> result_message list \<Rightarrow> 'raw system \<Rightarrow>
   'raw system \<times> nat \<times> string list" where
  "run_result_collector_tick cfg now result_delivery_count results sy =
     (let tk = fold (collect_step cfg now result_delivery_count) (by_scan_id results)
            \<lparr>tk_system = sy, tk_decided = 0, tk_failed = {}\<rparr>
      in (tk_system tk, tk_decided tk,
          map rm_message_id (filter (\<lambda>r. rm_scan_id r \<notin> tk_failed tk) results)))"

section \<open>The sandbox-wait sweep\<close>

definition sweep_candidates :: "real \<Rightarrow> real \<Rightarrow> orch_db \<Rightarrow> string list" where
  "sweep_candidates now wait_timeout_s odb =
     (let cutoff = now - (wait_timeout_s + SWEEP_GRACE_S)
      in map fst (take SWEEP_BATCH (sort_key (\<lambda>(k, j). sj_sandbox_wait_started_at j)
           (filter (\<lambda>(k, j). sj_state j \<in> UNSCORED_STATES \<and>
               (case sj_sandbox_wait_started_at j of None \<Rightarrow> False | Some t \<Rightarrow> t < cutoff)) (od_jobs odb)))))"

definition sweep_step :: "'raw decide_config \<Rightarrow> real \<Rightarrow> string \<Rightarrow> 'raw system \<times> nat \<Rightarrow> 'raw system \<times> nat" where
  "sweep_step cfg now scan_id = (\<lambda>(sy, decided).
     (case try_score_and_decide cfg now sy scan_id
          (sorted_list_of_set (gp_required_engines (dc_policy cfg))) True of
        (sy1, Inl e) \<Rightarrow> (sy1, decided)
      | (sy1, Inr b) \<Rightarrow> (sy1, if b then Suc decided else decided)))"

definition sweep_sandbox_wait_timeouts ::
  "'raw decide_config \<Rightarrow> real \<Rightarrow> real \<Rightarrow> 'raw system \<Rightarrow> 'raw system \<times> nat" where
  "sweep_sandbox_wait_timeouts cfg now wait_timeout_s sy =
     fold (sweep_step cfg now) (sweep_candidates now wait_timeout_s (sy_orch sy)) (sy, 0)"

section \<open>Facts\<close>

lemma set_state_jobs:
  "map_of (od_jobs (set_state sid from to odb)) s =
     map_option (\<lambda>j. if s = sid \<and> sj_state j \<in> from then j\<lparr>sj_state := to\<rparr> else j) (map_of (od_jobs odb) s)"
  by (simp add: set_state_def map_of_map_value)

lemma set_state_frame [simp]:
  "od_submitters (set_state sid from to odb) = od_submitters odb"
  "od_results (set_state sid from to odb) = od_results odb"
  "od_health (set_state sid from to odb) = od_health odb"
  by (simp_all add: set_state_def)

lemma fst_set_state [simp]: "map fst (od_jobs (set_state sid from to odb)) = map fst (od_jobs odb)"
  by (simp add: set_state_def split_def comp_def)

lemma set_fromkeys [simp]: "set (dict_fromkeys xs) = set xs"
  by (simp add: dict_fromkeys_def)

lemma distinct_fromkeys [simp]: "distinct (dict_fromkeys xs)"
  by (simp add: dict_fromkeys_def)

text \<open>What a scoring transaction that scored did.\<close>

lemma score_transaction_ScoredE:
  assumes "score_transaction cfg now odb blobs sid req force = Inr (Scored odb' sr jt extra)"
  obtains job hs where "map_of (od_jobs odb) sid = Some job" "sj_state job \<in> UNSCORED_STATES"
    "list_all (reported blobs sid) req" "force \<or> list_all (reported blobs sid) (dc_waited cfg)"
    "load_and_aggregate (dc_reader cfg) blobs sid (sj_content_hash job) (engine_set cfg req) (dc_policy cfg) 0 5000 =
       Inr (sr, hs)"
    "sid \<notin> fst ` set (od_results odb)" "distinct (map hc_engine_name hs)" "jt = sj_trust_tier job"
    "od_jobs odb' = dict_put sid (job\<lparr>sj_state := STATE_SCORED\<rparr>) (od_jobs odb)"
    "od_results odb' = od_results odb @ [(sid, result_row_of (dc_order cfg) sr)]"
    "od_health odb' = od_health odb @ map (health_row_of sid now) hs" "od_submitters odb' = od_submitters odb"
    "extra = (let missing = filter (\<lambda>e. \<not> reported blobs sid e) (dc_waited cfg)
       in if missing = [] then [] else [''sandbox_wait_timeout:'' @ py_join '','' (sort missing)])"
proof -
  note s = assms [unfolded score_transaction_def]
  obtain job where job: "map_of (od_jobs odb) sid = Some job"
    using s by (cases "map_of (od_jobs odb) sid") simp_all
  note s = s [unfolded job option.case Let_def]
  have u: "sj_state job \<in> UNSCORED_STATES" using s by (cases "sj_state job \<in> UNSCORED_STATES") simp_all
  have r: "list_all (reported blobs sid) req" using s u by (cases "list_all (reported blobs sid) req") simp_all
  let ?m = "filter (\<lambda>e. \<not> reported blobs sid e) (dc_waited cfg)"
  have w: "force \<or> ?m = []" using s u r by (cases "force \<or> ?m = []") simp_all
  then have w': "(\<not> force \<and> ?m \<noteq> []) = False" by blast
  have "force \<or> list_all (reported blobs sid) (dc_waited cfg)"
    using w by (auto simp: list_all_iff filter_empty_conv)
  have u': "(sj_state job \<notin> UNSCORED_STATES) = False" "(\<not> list_all (reported blobs sid) req) = False"
    using u r by simp_all
  note s = s [unfolded w' u' if_False]
  obtain sr' hs where l: "load_and_aggregate (dc_reader cfg) blobs sid (sj_content_hash job) (engine_set cfg req)
      (dc_policy cfg) 0 5000 = Inr (sr', hs)"
    using s by (cases "load_and_aggregate (dc_reader cfg) blobs sid (sj_content_hash job) (engine_set cfg req)
      (dc_policy cfg) 0 5000") auto
  note s = s [unfolded l res_bind_Inr prod.case]
  let ?bad = "list_ex (\<lambda>h. list_ex (\<lambda>r. hr_scan_id r = sid \<and> hr_engine_name r = hc_engine_name h) (od_health odb)) hs \<or>
      \<not> distinct (map hc_engine_name hs) \<or> sid \<in> fst ` set (od_results odb)"
  have g: "\<not> ?bad" using s unfolding res_bind_eq_Inr raise_if_eq_Inr by blast
  note s = s [unfolded raise_if_def if_not_P [OF g] res_bind_Inr]
  show thesis
    by (rule that [of job hs]) (use s u r l g job \<open>force \<or> list_all _ _\<close> in \<open>auto simp: Let_def\<close>)
qed

lemma score_transaction_Not_ReadyE:
  assumes "score_transaction cfg now odb blobs sid req force = Inr (Not_Ready odb')"
  obtains "odb' = odb"
  | job where "map_of (od_jobs odb) sid = Some job" "sj_state job \<in> UNSCORED_STATES"
      "sj_sandbox_wait_started_at job = None" "\<not> force" "list_all (reported blobs sid) req"
      "\<not> list_all (reported blobs sid) (dc_waited cfg)"
      "odb' = odb\<lparr>od_jobs := dict_put sid (job\<lparr>sj_sandbox_wait_started_at := Some now\<rparr>) (od_jobs odb)\<rparr>"
proof (cases "map_of (od_jobs odb) sid")
  case None
  then show thesis using assms that(1) by (simp add: score_transaction_def)
next
  case (Some job)
  note s = assms [unfolded score_transaction_def Some option.case Let_def]
  consider "sj_state job \<notin> UNSCORED_STATES \<or> \<not> list_all (reported blobs sid) req"
    | "sj_state job \<in> UNSCORED_STATES" "list_all (reported blobs sid) req" by blast
  then show thesis
  proof cases
    case 1
    then show thesis using s that(1) by (auto split: if_splits)
  next
    case 2
    let ?m = "filter (\<lambda>e. \<not> reported blobs sid e) (dc_waited cfg)"
    show thesis
    proof (cases "\<not> force \<and> ?m \<noteq> []")
      case True
      then have "\<not> list_all (reported blobs sid) (dc_waited cfg)" by (auto simp: list_all_iff filter_empty_conv)
      then show thesis using s 2 True that Some by (auto split: if_splits)
    next
      case False
      then show thesis using s 2 by (auto simp: res_bind_eq_Inr)
    qed
  qed
qed

end
