(* ===== verification/Scan_Transactions.thy ===== *)
theory Scan_Transactions
  imports Scan_Service "HOL-Library.Multiset"
begin

text \<open>
  Interleavings of the orchestration's transactions. The collector, the dead-letter path and the sweep
  each run two or three transactions, and several processes run them at once; between two transactions
  of one process any other may commit, and a process may fail. A state is the system together with the
  work in flight: what each process still has to commit. Every transaction of the service is a step; the
  sequential functions of \<open>Scan_Service\<close> are shown to be runs of these steps.
\<close>

section \<open>Steps\<close>

text \<open>Work in flight: a dead letter that read its job, one whose verdict is committed, a scored scan to
  be decided, one whose verdict is committed.\<close>

datatype 'raw pending =
    Dead_Letter "'raw decide_config" string string trust_tier string
  | Dead_Lettered string
  | To_Decide "'raw decide_config" string scan_result trust_tier "string list"
  | Decided string

type_synonym 'raw conc = "'raw system \<times> 'raw pending multiset"

text \<open>Besides the state machine's own transactions: submissions, blobs written by whoever reaches the
  store, waivers, and reviews.\<close>

inductive tx_step :: "'raw conc \<Rightarrow> 'raw conc \<Rightarrow> bool" where
  tx_submit:
    "submit_scan pf sy now uuid files who ms pol tier src req dl = (sy', r) \<Longrightarrow> tx_step (sy, P) (sy', P)"
| tx_blob: "tx_step (sy, P) (sy\<lparr>sy_blobs := (sy_blobs sy)(k \<mapsto> raw)\<rparr>, P)"
| tx_waiver:
    "grant_allowlist_entry (sy_gate sy) u st sv rid ex ap rq rs = Inr (row, g) \<or>
     revoke_allowlist_entry (sy_gate sy) u actor = Inr g \<Longrightarrow> tx_step (sy, P) (sy\<lparr>sy_gate := g\<rparr>, P)"
| tx_review:
    "submit_review_decision V (sy_orch sy) (sy_gate sy) invt now sg sid d who why pol = Inr (row, g) \<Longrightarrow>
     tx_step (sy, P) (sy\<lparr>sy_gate := g\<rparr>, P)"
| tx_running: "tx_step (sy, P) (sy\<lparr>sy_orch := mark_running_if_queued sid (sy_orch sy)\<rparr>, P)"
| tx_wait:
    "score_transaction cfg now (sy_orch sy) (sy_blobs sy) sid req force = Inr (Not_Ready odb) \<Longrightarrow>
     tx_step (sy, P) (sy\<lparr>sy_orch := odb\<rparr>, P)"
| tx_score:
    "valid_policy (dc_policy cfg) \<Longrightarrow>
     score_transaction cfg now (sy_orch sy) (sy_blobs sy) sid req force = Inr (Scored odb sr jt extra) \<Longrightarrow>
     effective_trust_tier jt (dc_default_tier cfg) = Inr tier \<Longrightarrow>
     tx_step (sy, P) (sy\<lparr>sy_orch := odb\<rparr>, add_mset (To_Decide cfg sid sr tier extra) P)"
| tx_score_bad_tier:
    "score_transaction cfg now (sy_orch sy) (sy_blobs sy) sid req force = Inr (Scored odb sr jt extra) \<Longrightarrow>
     tx_step (sy, P) (sy\<lparr>sy_orch := odb\<rparr>, P)"
| tx_decide:
    "decide_and_record (sy_gate sy) now (dc_signer cfg) sid sr (dc_policy cfg) tier (dc_allowlist cfg)
       (dc_operator cfg) now extra = Inr (vr, g) \<Longrightarrow>
     tx_step (sy, add_mset (To_Decide cfg sid sr tier extra) P) (sy\<lparr>sy_gate := g\<rparr>, add_mset (Decided sid) P)"
| tx_decided:
    "tx_step (sy, add_mset (Decided sid) P)
       (sy\<lparr>sy_orch := set_state sid {STATE_SCORED} STATE_DECIDED (sy_orch sy)\<rparr>, P)"
| tx_dead_read:
    "valid_policy (dc_policy cfg) \<Longrightarrow> map_of (od_jobs (sy_orch sy)) sid = Some job \<Longrightarrow>
     sj_state job \<in> UNSCORED_STATES \<Longrightarrow> effective_trust_tier (sj_trust_tier job) (dc_default_tier cfg) = Inr tier \<Longrightarrow>
     tx_step (sy, P) (sy, add_mset (Dead_Letter cfg sid (sj_content_hash job) tier reason) P)"
| tx_dead_decide:
    "decide_and_record (sy_gate sy) now (dc_signer cfg) sid (forced_block_scan_result ch reason) (dc_policy cfg) tier []
       (dc_operator cfg) now [] = Inr (vr, g) \<Longrightarrow>
     tx_step (sy, add_mset (Dead_Letter cfg sid ch tier reason) P) (sy\<lparr>sy_gate := g\<rparr>, add_mset (Dead_Lettered sid) P)"
| tx_dead_done:
    "tx_step (sy, add_mset (Dead_Lettered sid) P)
       (sy\<lparr>sy_orch := set_state sid UNSCORED_STATES STATE_FAILED (sy_orch sy)\<rparr>, P)"
| tx_abort: "tx_step (sy, add_mset p P) (sy, P)"

definition empty_system :: "'raw system" where
  "empty_system = \<lparr>sy_orch = empty_orch, sy_gate = empty_gate, sy_blobs = Map.empty, sy_scans = []\<rparr>"

abbreviation tx_reachable :: "'raw conc \<Rightarrow> bool" where
  "tx_reachable c \<equiv> tx_step\<^sup>*\<^sup>* (empty_system, {#}) c"

section \<open>The invariant\<close>

definition job_state :: "orch_db \<Rightarrow> string \<Rightarrow> string option" where
  "job_state odb sid = map_option sj_state (map_of (od_jobs odb) sid)"

abbreviation result_of :: "orch_db \<Rightarrow> string \<Rightarrow> scan_result_row option" where
  "result_of odb sid \<equiv> map_of (od_results odb) sid"

abbreviation verdict_of :: "gate_db \<Rightarrow> string \<Rightarrow> verdict_row option" where
  "verdict_of gdb sid \<equiv> map_of (gd_verdicts gdb) sid"

definition jobs_ok :: "orch_db \<Rightarrow> bool" where
  "jobs_ok odb \<longleftrightarrow> distinct (map fst (od_jobs odb)) \<and> distinct (map (sj_cache_key \<circ> snd) (od_jobs odb)) \<and>
     (\<forall>sid s. job_state odb sid = Some s \<longrightarrow> s \<in> SCAN_STATES) \<and>
     (\<forall>sid. result_of odb sid \<noteq> None \<longleftrightarrow> job_state odb sid \<in> {Some STATE_SCORED, Some STATE_DECIDED})"

text \<open>A verdict belongs to a job; it was issued fail-closed or on a complete result; it passes only
  with a recorded result.\<close>

definition verdict_ok :: "orch_db \<Rightarrow> string \<Rightarrow> verdict_row \<Rightarrow> bool" where
  "verdict_ok odb sid row \<longleftrightarrow> job_state odb sid \<noteq> None \<and>
     (vd_fail_closed row \<or> (\<exists>rr. result_of odb sid = Some rr \<and> rr_required_ok rr)) \<and>
     (vd_verdict row = ''PASS'' \<longrightarrow> result_of odb sid \<noteq> None)"

definition states_ok :: "orch_db \<Rightarrow> gate_db \<Rightarrow> bool" where
  "states_ok odb gdb \<longleftrightarrow> (\<forall>sid. job_state odb sid \<in> {Some STATE_DECIDED, Some STATE_FAILED} \<longrightarrow> verdict_of gdb sid \<noteq> None) \<and>
     (\<forall>sid row. verdict_of gdb sid = Some row \<longrightarrow> verdict_ok odb sid row)"

fun pending_ok :: "orch_db \<Rightarrow> gate_db \<Rightarrow> 'raw pending \<Rightarrow> bool" where
  "pending_ok odb gdb (Dead_Letter cfg sid ch tier reason) = (valid_policy (dc_policy cfg) \<and> job_state odb sid \<noteq> None)"
| "pending_ok odb gdb (Dead_Lettered sid) = (verdict_of gdb sid \<noteq> None)"
| "pending_ok odb gdb (To_Decide cfg sid sr tier extra) =
     (valid_policy (dc_policy cfg) \<and> (\<exists>rr. result_of odb sid = Some rr \<and> rr_required_ok rr = sr_required_ok sr))"
| "pending_ok odb gdb (Decided sid) = (verdict_of gdb sid \<noteq> None)"

definition conc_ok :: "'raw conc \<Rightarrow> bool" where
  "conc_ok = (\<lambda>(sy, P). jobs_ok (sy_orch sy) \<and> states_ok (sy_orch sy) (sy_gate sy) \<and>
     (\<forall>p \<in># P. pending_ok (sy_orch sy) (sy_gate sy) p))"

section \<open>Frames\<close>

text \<open>Later tables that still have the earlier ones' jobs, results and verdicts.\<close>

definition grows :: "orch_db \<Rightarrow> gate_db \<Rightarrow> orch_db \<Rightarrow> gate_db \<Rightarrow> bool" where
  "grows odb gdb odb' gdb' \<longleftrightarrow> (\<forall>sid. job_state odb sid \<noteq> None \<longrightarrow> job_state odb' sid \<noteq> None) \<and>
     (\<forall>sid rr. result_of odb sid = Some rr \<longrightarrow> result_of odb' sid = Some rr) \<and>
     (\<forall>sid. verdict_of gdb sid \<noteq> None \<longrightarrow> verdict_of gdb' sid \<noteq> None)"

lemma grows_refl [simp]: "grows odb gdb odb gdb"
  by (simp add: grows_def)

lemma pending_ok_mono: "grows odb gdb odb' gdb' \<Longrightarrow> pending_ok odb gdb p \<Longrightarrow> pending_ok odb' gdb' p"
  by (cases p) (auto simp: grows_def)

lemma verdict_ok_mono: "grows odb gdb odb' gdb' \<Longrightarrow> verdict_ok odb sid row \<Longrightarrow> verdict_ok odb' sid row"
  unfolding grows_def verdict_ok_def by (metis option.exhaust)

text \<open>A step that changes the jobs' tables only.\<close>

lemma conc_ok_orch:
  assumes "conc_ok (sy, P)" "jobs_ok odb" "grows (sy_orch sy) (sy_gate sy) odb (sy_gate sy)" "P' \<subseteq># P + Q"
    and "\<And>p. p \<in># Q \<Longrightarrow> pending_ok odb (sy_gate sy) p"
    and "\<And>sid. job_state odb sid \<in> {Some STATE_DECIDED, Some STATE_FAILED} \<Longrightarrow>
      job_state (sy_orch sy) sid = job_state odb sid \<or> verdict_of (sy_gate sy) sid \<noteq> None"
    and "sy_orch sy' = odb" "sy_gate sy' = sy_gate sy"
  shows "conc_ok (sy', P')"
proof -
  have old: "states_ok (sy_orch sy) (sy_gate sy)" "\<forall>p \<in># P. pending_ok (sy_orch sy) (sy_gate sy) p"
    using assms(1) by (auto simp: conc_ok_def)
  have "states_ok odb (sy_gate sy)"
    using old(1) assms(6) verdict_ok_mono [OF assms(3)] unfolding states_ok_def by metis
  moreover have "pending_ok odb (sy_gate sy) p" if "p \<in># P'" for p
  proof -
    have "p \<in># P \<or> p \<in># Q" using that assms(4) by (meson mset_subset_eqD union_iff)
    then show ?thesis using old(2) assms(5) pending_ok_mono [OF assms(3)] by blast
  qed
  ultimately show ?thesis using assms(2) by (simp add: conc_ok_def assms(7,8))
qed

text \<open>A step that writes one verdict.\<close>

lemma conc_ok_gate:
  assumes "conc_ok (sy, P)" "\<And>s. verdict_of g s = (if s = sid then Some row else verdict_of (sy_gate sy) s)"
    and "verdict_ok (sy_orch sy) sid row" "P' \<subseteq># P + Q"
    and "\<And>p. p \<in># Q \<Longrightarrow> p = Decided sid \<or> p = Dead_Lettered sid"
  shows "conc_ok (sy\<lparr>sy_gate := g\<rparr>, P')"
proof -
  have old: "jobs_ok (sy_orch sy)" "states_ok (sy_orch sy) (sy_gate sy)"
    "\<forall>p \<in># P. pending_ok (sy_orch sy) (sy_gate sy) p"
    using assms(1) by (auto simp: conc_ok_def)
  have gr: "grows (sy_orch sy) (sy_gate sy) (sy_orch sy) g" using assms(2) by (simp add: grows_def)
  have "states_ok (sy_orch sy) g"
    using old(2) assms(2,3) unfolding states_ok_def by (metis option.distinct(1) option.inject)
  moreover have "pending_ok (sy_orch sy) g p" if "p \<in># P'" for p
  proof -
    have "p \<in># P \<or> p \<in># Q" using that assms(4) by (meson mset_subset_eqD union_iff)
    then show ?thesis using old(3) assms(2,5) pending_ok_mono [OF gr] by fastforce
  qed
  ultimately show ?thesis using old(1) by (simp add: conc_ok_def)
qed

section \<open>Every step keeps the invariant\<close>

lemma job_state_put:
  "job_state (odb\<lparr>od_jobs := dict_put sid j (od_jobs odb)\<rparr>) s = (if s = sid then Some (sj_state j) else job_state odb s)"
  by (simp add: job_state_def update_conv')

lemma associate_frame [simp]:
  "od_jobs (associate_submitter odb sid who src t) = od_jobs odb"
  "od_results (associate_submitter odb sid who src t) = od_results odb"
  "od_health (associate_submitter odb sid who src t) = od_health odb"
  "job_state (associate_submitter odb sid who src t) s = job_state odb s"
  by (simp_all add: associate_submitter_def job_state_def)

lemma jobs_ok_cong:
  "od_jobs odb' = od_jobs odb \<Longrightarrow> od_results odb' = od_results odb \<Longrightarrow> jobs_ok odb' = jobs_ok odb"
  by (simp add: jobs_ok_def job_state_def)

text \<open>What a submission can do to the tables.\<close>

lemma submit_scan_cases:
  assumes "submit_scan pf sy now uuid files who ms pol tier src req dl = (sy', r)"
  obtains (nothing) "sy_orch sy' = sy_orch sy" "sy_gate sy' = sy_gate sy"
  | (joined) k where "sy_orch sy' = associate_submitter (sy_orch sy) k who src req" "sy_gate sy' = sy_gate sy"
      "k \<in> fst ` set (od_jobs (sy_orch sy))" "r = Inr k"
  | (created) job where "sy_gate sy' = sy_gate sy" "uuid \<notin> fst ` set (od_jobs (sy_orch sy))" "r = Inr uuid"
      "sj_cache_key job \<notin> sj_cache_key ` snd ` set (od_jobs (sy_orch sy))" "sj_state job = STATE_QUEUED"
      "sj_submitter job = who" "sj_trust_tier job = Some (trust_tier_value tier)"
      "sy_orch sy' = associate_submitter ((sy_orch sy)\<lparr>od_jobs := od_jobs (sy_orch sy) @ [(uuid, job)]\<rparr>) uuid who src req"
proof (cases "scan_keys pf files ms pol")
  case (Inl e)
  then have eq: "sy' = sy" using assms by (simp add: submit_scan_def)
  show thesis by (rule nothing) (simp_all add: eq)
next
  case (Inr keys)
  obtain ch td ck where k: "keys = (ch, td, ck)" by (cases keys)
  note s = assms [unfolded submit_scan_def Inr sum.case k prod.case Let_def]
  show thesis
  proof (cases "List.find (\<lambda>(k, j). sj_cache_key j = ck) (od_jobs (sy_orch sy))")
    case (Some x)
    obtain e j where x: "x = (e, j)" by (cases x)
    have "(e, j) \<in> set (od_jobs (sy_orch sy))" using Some x by (auto simp: find_Some_iff in_set_conv_nth)
    then have "e \<in> fst ` set (od_jobs (sy_orch sy))" by (rule rev_image_eqI) simp
    then show thesis using s Some x joined [of e] by auto
  next
    case None
    then have fresh: "ck \<notin> sj_cache_key ` snd ` set (od_jobs (sy_orch sy))"
      unfolding find_None_iff by fastforce
    note s = s [unfolded None option.case]
    show thesis
    proof (cases "uuid \<in> fst ` set (od_jobs (sy_orch sy))")
      case True
      have eq: "sy' = (if sy_blobs sy (artifact_key ch) = None
          then sy\<lparr>sy_blobs := (sy_blobs sy)(artifact_key ch \<mapsto> pf_pack_tar pf files)\<rparr> else sy)"
        using s unfolding if_P [OF True] by simp
      show thesis by (rule nothing) (simp_all add: eq)
    next
      case False
      note s = s [unfolded if_not_P [OF False]]
      show thesis
        by (rule created [of "\<lparr>sj_content_hash = ch, sj_toolchain_digest = td, sj_cache_key = ck,
            sj_state = STATE_QUEUED, sj_submitter = who, sj_created_at = now,
            sj_skill_name = parse_skill_name (pf_case pf) (pf_frontmatter pf) (pf_strip pf) files,
            sj_sandbox_wait_started_at = None, sj_trust_tier = Some (trust_tier_value tier)\<rparr>"])
          (use s False fresh in \<open>auto split: if_splits\<close>)
    qed
  qed
qed

lemma state_neqs [simp]:
  "STATE_QUEUED \<noteq> STATE_SCORED" "STATE_QUEUED \<noteq> STATE_DECIDED" "STATE_QUEUED \<noteq> STATE_FAILED"
  "STATE_RUNNING \<noteq> STATE_SCORED" "STATE_RUNNING \<noteq> STATE_DECIDED" "STATE_RUNNING \<noteq> STATE_FAILED"
  "STATE_SCORED \<noteq> STATE_DECIDED" "STATE_SCORED \<noteq> STATE_FAILED" "STATE_DECIDED \<noteq> STATE_FAILED"
  "STATE_SCORED \<noteq> STATE_QUEUED" "STATE_SCORED \<noteq> STATE_RUNNING" "STATE_DECIDED \<noteq> STATE_SCORED"
  "STATE_DECIDED \<noteq> STATE_QUEUED" "STATE_DECIDED \<noteq> STATE_RUNNING" "STATE_FAILED \<noteq> STATE_QUEUED"
  "STATE_FAILED \<noteq> STATE_RUNNING" "STATE_FAILED \<noteq> STATE_SCORED" "STATE_FAILED \<noteq> STATE_DECIDED"
  by (simp_all add: state_defs)

lemma states_members [simp]:
  "STATE_QUEUED \<in> SCAN_STATES" "STATE_RUNNING \<in> SCAN_STATES" "STATE_SCORED \<in> SCAN_STATES"
  "STATE_DECIDED \<in> SCAN_STATES" "STATE_FAILED \<in> SCAN_STATES"
  by (simp_all add: SCAN_STATES_def)

lemma submit_ok:
  assumes "conc_ok (sy, P)" "submit_scan pf sy now uuid files who ms pol tier src req dl = (sy', r)"
  shows "conc_ok (sy', P)"
  using assms(2)
proof (cases rule: submit_scan_cases)
  case nothing
  then show ?thesis using assms(1) by (simp add: conc_ok_def)
next
  case (joined k)
  have "jobs_ok (sy_orch sy)" using assms(1) by (simp add: conc_ok_def)
  then have jo: "jobs_ok (sy_orch sy')" using jobs_ok_cong [of "sy_orch sy'" "sy_orch sy"] joined(1) by simp
  show ?thesis
    by (rule conc_ok_orch [OF assms(1) jo, of P "{#}"]) (simp_all add: grows_def joined(1,2))
next
  case (created job)
  let ?odb = "(sy_orch sy)\<lparr>od_jobs := od_jobs (sy_orch sy) @ [(uuid, job)]\<rparr>"
  have j: "jobs_ok (sy_orch sy)" using assms(1) by (simp add: conc_ok_def)
  have none: "map_of (od_jobs (sy_orch sy)) uuid = None" using created(2) by (simp add: map_of_eq_None_iff)
  have st: "job_state ?odb s = (if s = uuid then Some STATE_QUEUED else job_state (sy_orch sy) s)" for s
    using none created(5) by (auto simp: job_state_def map_add_def split: option.splits)
  have old: "job_state (sy_orch sy) uuid = None" using none by (simp add: job_state_def)
  then have "result_of (sy_orch sy) uuid = None" using j unfolding jobs_ok_def by (metis insert_iff option.distinct(1) singletonD)
  then have "jobs_ok ?odb"
    using j created(2,4) old unfolding jobs_ok_def st by (auto simp: image_image)
  then have jo: "jobs_ok (sy_orch sy')" using created(8) jobs_ok_cong [of "sy_orch sy'" ?odb] by simp
  have st': "job_state (sy_orch sy') s = job_state ?odb s" for s using created(8) by (simp add: job_state_def)
  show ?thesis
    by (rule conc_ok_orch [OF assms(1) jo, of P "{#}"])
      (use old in \<open>simp_all add: grows_def st' st created(1,8) split: if_splits\<close>)
qed

text \<open>State changes of one job that keep the jobs' invariant.\<close>

lemma unscored_iff: "s \<in> UNSCORED_STATES \<longleftrightarrow> s = STATE_QUEUED \<or> s = STATE_RUNNING"
  by (simp add: UNSCORED_STATES_def)

lemma job_state_set_state:
  "job_state (set_state sid from to odb) s =
     map_option (\<lambda>x. if s = sid \<and> x \<in> from then to else x) (job_state odb s)"
  by (cases "map_of (od_jobs odb) s") (simp_all add: job_state_def set_state_jobs)

lemma set_state_jobs_ok:
  assumes "jobs_ok odb" "to \<in> SCAN_STATES"
    and "(\<forall>x \<in> from. x \<in> {STATE_SCORED, STATE_DECIDED}) \<and> to \<in> {STATE_SCORED, STATE_DECIDED} \<or>
      (\<forall>x \<in> from. x \<notin> {STATE_SCORED, STATE_DECIDED}) \<and> to \<notin> {STATE_SCORED, STATE_DECIDED}"
  shows "jobs_ok (set_state sid from to odb)"
proof -
  have ck: "map (sj_cache_key \<circ> snd) (od_jobs (set_state sid from to odb)) = map (sj_cache_key \<circ> snd) (od_jobs odb)"
    by (auto simp: set_state_def)
  have "result_of odb s \<noteq> None \<longleftrightarrow> job_state (set_state sid from to odb) s \<in> {Some STATE_SCORED, Some STATE_DECIDED}" for s
    using assms(1,3) unfolding jobs_ok_def job_state_set_state by (cases "job_state odb s") auto
  moreover have "x \<in> SCAN_STATES" if "job_state (set_state sid from to odb) s = Some x" for s x
    using that assms(1,2) unfolding jobs_ok_def job_state_set_state
    by (cases "job_state odb s") (auto split: if_splits)
  ultimately show ?thesis
    using assms(1) unfolding jobs_ok_def ck fst_set_state set_state_frame by blast
qed

lemma put_job_cache_keys:
  assumes "map_of m sid = Some j" "sj_cache_key j' = sj_cache_key j"
  shows "map fst (dict_put sid j' m) = map fst m \<and> map (sj_cache_key \<circ> snd) (dict_put sid j' m) = map (sj_cache_key \<circ> snd) m"
  using assms by (induction m) (auto split: if_splits)

lemma score_ok:
  assumes "conc_ok (sy, P)" "valid_policy (dc_policy cfg) \<or> Q = {#}"
    and sc: "score_transaction cfg now (sy_orch sy) (sy_blobs sy) sid req force = Inr (Scored odb sr jt extra)"
    and "set_mset Q \<subseteq> {To_Decide cfg sid sr tier extra}"
  shows "conc_ok (sy\<lparr>sy_orch := odb\<rparr>, P + Q)"
  using sc
proof (rule score_transaction_ScoredE)
  fix job hs
  assume *: "map_of (od_jobs (sy_orch sy)) sid = Some job" "sj_state job \<in> UNSCORED_STATES"
    "sid \<notin> fst ` set (od_results (sy_orch sy))"
    "od_jobs odb = dict_put sid (job\<lparr>sj_state := STATE_SCORED\<rparr>) (od_jobs (sy_orch sy))"
    "od_results odb = od_results (sy_orch sy) @ [(sid, result_row_of (dc_order cfg) sr)]"
  have j: "jobs_ok (sy_orch sy)" using assms(1) by (simp add: conc_ok_def)
  have none: "result_of (sy_orch sy) sid = None" using *(3) by (simp add: map_of_eq_None_iff)
  have res: "result_of odb s = (if s = sid then Some (result_row_of (dc_order cfg) sr) else result_of (sy_orch sy) s)" for s
    using none unfolding *(5) by (auto simp: map_add_def split: option.splits)
  have st: "job_state odb s = (if s = sid then Some STATE_SCORED else job_state (sy_orch sy) s)" for s
    unfolding job_state_def *(4) by (simp add: update_conv')
  have keys: "map fst (od_jobs odb) = map fst (od_jobs (sy_orch sy))"
    "map (sj_cache_key \<circ> snd) (od_jobs odb) = map (sj_cache_key \<circ> snd) (od_jobs (sy_orch sy))"
    unfolding *(4) using put_job_cache_keys [OF *(1)] by simp_all
  have "jobs_ok odb" using j unfolding jobs_ok_def keys res st by auto
  moreover have "grows (sy_orch sy) (sy_gate sy) odb (sy_gate sy)" using none unfolding grows_def res st by auto
  moreover have "pending_ok odb (sy_gate sy) p" if "p \<in># Q" for p
    using that assms(2,4) res [of sid] by (auto simp: result_row_of_def)
  ultimately show ?thesis
    by (intro conc_ok_orch [OF assms(1), of odb "P + Q" Q]) (simp_all add: st split: if_splits)
qed

lemma decide_ok:
  assumes "conc_ok (sy, P)" "verdict_of (sy_gate sy) sid = None \<Longrightarrow> job_state (sy_orch sy) sid \<noteq> None"
    and rec: "decide_and_record (sy_gate sy) now sg sid sr p tier al op now' extra = Inr (vr, g)"
    and "\<And>vr. vr = decide sr p tier al now' 0 None \<Longrightarrow>
      (vr_fail_closed vr \<or> (\<exists>rr. result_of (sy_orch sy) sid = Some rr \<and> rr_required_ok rr)) \<and>
      (vr_verdict vr = PASS \<longrightarrow> result_of (sy_orch sy) sid \<noteq> None)"
    and "P' \<subseteq># P + Q" "\<And>q. q \<in># Q \<Longrightarrow> q = Decided sid \<or> q = Dead_Lettered sid"
  shows "conc_ok (sy\<lparr>sy_gate := g\<rparr>, P')"
  using rec
proof (rule decide_and_record_InrE)
  fix r e a
  assume *: "vr = decide sr p tier al now' 0 None" "gd_verdicts g = gd_verdicts (sy_gate sy) @ [(sid, r)]"
    "sid \<notin> fst ` set (gd_verdicts (sy_gate sy))" "vd_verdict r = verdict_name (vr_verdict vr)"
    "vd_fail_closed r = vr_fail_closed vr"
  have none: "verdict_of (sy_gate sy) sid = None" using *(3) by (simp add: map_of_eq_None_iff)
  have v: "verdict_of g s = (if s = sid then Some r else verdict_of (sy_gate sy) s)" for s
    using none unfolding *(2) by (auto simp: map_add_def split: option.splits)
  have "vd_verdict r = ''PASS'' \<longleftrightarrow> vr_verdict vr = PASS" unfolding *(4) by (cases "vr_verdict vr") simp_all
  then have "verdict_ok (sy_orch sy) sid r"
    using assms(2) [OF none] assms(4) [OF *(1)] unfolding verdict_ok_def *(5) by blast
  then show ?thesis by (rule conc_ok_gate [OF assms(1) v _ assms(5,6)])
qed

lemma review_ok:
  assumes "conc_ok (sy, P)"
    and rev: "submit_review_decision V (sy_orch sy) (sy_gate sy) invt now sg sid d who why pol = Inr (row', g)"
  shows "conc_ok (sy\<lparr>sy_gate := g\<rparr>, P)"
  using rev
proof (rule submit_review_InrE)
  fix nv job row rr fs e a
  assume *: "map_of (gd_verdicts (sy_gate sy)) sid = Some row" "result_of (sy_orch sy) sid = Some rr"
    "gd_verdicts g = dict_put sid row' (gd_verdicts (sy_gate sy))"
  have fc: "vd_fail_closed row' = vd_fail_closed row"
    using rev *(1) unfolding submit_review_decision_def Let_def
    by (auto simp: res_bind_eq_Inr split: option.splits)
  have v: "verdict_of g s = (if s = sid then Some row' else verdict_of (sy_gate sy) s)" for s
    unfolding *(3) by (simp add: update_conv')
  have "verdict_ok (sy_orch sy) sid row" using assms(1) *(1) by (auto simp: conc_ok_def states_ok_def)
  then have "verdict_ok (sy_orch sy) sid row'" using *(2) unfolding verdict_ok_def fc by simp
  then show ?thesis by (rule conc_ok_gate [OF assms(1) v, of P "{#}"]) simp_all
qed

lemma wait_ok:
  assumes "conc_ok (sy, P)"
    and "score_transaction cfg now (sy_orch sy) (sy_blobs sy) sid req force = Inr (Not_Ready odb)"
  shows "conc_ok (sy\<lparr>sy_orch := odb\<rparr>, P)"
  using assms(2)
proof (cases rule: score_transaction_Not_ReadyE)
  case 1
  then show ?thesis using assms(1) by (simp add: conc_ok_def)
next
  case (2 job)
  have j: "jobs_ok (sy_orch sy)" using assms(1) by (simp add: conc_ok_def)
  have st: "job_state odb s = job_state (sy_orch sy) s" for s
    unfolding 2(7) job_state_put using 2(1) by (simp add: job_state_def)
  have keys: "map fst (od_jobs odb) = map fst (od_jobs (sy_orch sy))"
    "map (sj_cache_key \<circ> snd) (od_jobs odb) = map (sj_cache_key \<circ> snd) (od_jobs (sy_orch sy))"
    unfolding 2(7) using put_job_cache_keys [OF 2(1)] by simp_all
  have res: "od_results odb = od_results (sy_orch sy)" unfolding 2(7) by simp
  have "jobs_ok odb" using j unfolding jobs_ok_def keys res st .
  then show ?thesis
    by (intro conc_ok_orch [OF assms(1), of odb P "{#}"]) (simp_all add: grows_def st res)
qed

lemma set_state_ok:
  assumes "conc_ok (sy, P)" "to \<in> SCAN_STATES" "P' \<subseteq># P"
    and "(\<forall>x \<in> from. x \<in> {STATE_SCORED, STATE_DECIDED}) \<and> to \<in> {STATE_SCORED, STATE_DECIDED} \<or>
      (\<forall>x \<in> from. x \<notin> {STATE_SCORED, STATE_DECIDED}) \<and> to \<notin> {STATE_SCORED, STATE_DECIDED}"
    and "to \<in> {STATE_DECIDED, STATE_FAILED} \<Longrightarrow> verdict_of (sy_gate sy) sid \<noteq> None"
  shows "conc_ok (sy\<lparr>sy_orch := set_state sid from to (sy_orch sy)\<rparr>, P')"
proof -
  have j: "jobs_ok (sy_orch sy)" using assms(1) by (simp add: conc_ok_def)
  let ?odb = "set_state sid from to (sy_orch sy)"
  have jo: "jobs_ok ?odb" by (rule set_state_jobs_ok [OF j assms(2,4)])
  have gr: "grows (sy_orch sy) (sy_gate sy) ?odb (sy_gate sy)" by (simp add: grows_def job_state_set_state)
  have "job_state (sy_orch sy) s = job_state ?odb s \<or> verdict_of (sy_gate sy) s \<noteq> None"
    if "job_state ?odb s \<in> {Some STATE_DECIDED, Some STATE_FAILED}" for s
    using that assms(5) unfolding job_state_set_state
    by (cases "job_state (sy_orch sy) s") (auto split: if_splits)
  then show ?thesis
    by (intro conc_ok_orch [OF assms(1) jo gr, of P' "{#}"]) (simp_all add: assms(3))
qed

lemma forced_block_decision:
  assumes "valid_policy p"
  shows "vr_fail_closed (decide (forced_block_scan_result ch reason) p t al now c sk) \<and>
    vr_verdict (decide (forced_block_scan_result ch reason) p t al now c sk) = gp_fail_closed_verdict p \<and>
    gp_fail_closed_verdict p \<noteq> PASS"
  using decide_not_required [of "forced_block_scan_result ch reason" p t al now c sk] assms
  by (simp add: forced_block_scan_result_def valid_policy_def)

lemma decide_required_flag:
  assumes "valid_policy p"
  shows "vr_fail_closed (decide sr p t al now c sk) = (\<not> sr_required_ok sr)"
  using decide_main [of sr p t al now c sk] decide_hard_gate [of sr p t al now c sk]
    decide_not_required [of sr p t al now c sk] by blast

lemma tx_step_ok:
  assumes "tx_step c c'" "conc_ok c"
  shows "conc_ok c'"
  using assms
proof (induction rule: tx_step.induct)
  case (tx_submit pf sy now uuid files who ms pol tier src req dl sy' r P)
  then show ?case using submit_ok by blast
next
  case (tx_blob sy P k raw)
  then show ?case by (simp add: conc_ok_def)
next
  case (tx_waiver sy u st sv rid ex ap rq rs row g actor P)
  have "gd_verdicts g = gd_verdicts (sy_gate sy)"
    using tx_waiver(1)
  proof
    assume "grant_allowlist_entry (sy_gate sy) u st sv rid ex ap rq rs = Inr (row, g)"
    then show ?thesis by (elim grant_InrE)
  next
    assume "revoke_allowlist_entry (sy_gate sy) u actor = Inr g"
    then show ?thesis by (auto simp: revoke_allowlist_entry_def split: option.splits)
  qed
  then have "states_ok (sy_orch sy) g = states_ok (sy_orch sy) (sy_gate sy)"
    "pending_ok (sy_orch sy) g p = pending_ok (sy_orch sy) (sy_gate sy) p" for p :: "'a pending"
    by (cases p; simp add: states_ok_def)+
  then show ?case using tx_waiver(2) by (simp add: conc_ok_def)
next
  case (tx_review V sy invt now sg sid d who why pol row g P)
  then show ?case using review_ok by blast
next
  case (tx_running sy P sid)
  show ?case unfolding mark_running_if_queued_def by (rule set_state_ok [OF tx_running]) simp_all
next
  case (tx_wait cfg now sy sid req force odb P)
  then show ?case using wait_ok by blast
next
  case (tx_score cfg now sy sid req force odb sr jt extra tier P)
  then show ?case
    using score_ok [of sy P cfg "{#To_Decide cfg sid sr tier extra#}" now sid req force odb sr jt extra tier] by simp
next
  case (tx_score_bad_tier cfg now sy sid req force odb sr jt extra P)
  then show ?case using score_ok [of sy P cfg "{#}" now sid req force odb sr jt extra undefined] by simp
next
  case (tx_decide sy now cfg sid sr tier extra vr g P)
  have p: "pending_ok (sy_orch sy) (sy_gate sy) (To_Decide cfg sid sr tier extra)" "jobs_ok (sy_orch sy)"
    using tx_decide(2) by (auto simp: conc_ok_def)
  then have "job_state (sy_orch sy) sid \<noteq> None" by (fastforce simp: jobs_ok_def)
  then show ?case
    using decide_required_flag [of "dc_policy cfg" sr tier "dc_allowlist cfg" now 0 None] p(1)
    by (intro decide_ok [OF tx_decide(2) _ tx_decide(1), of _ "{#Decided sid#}"]) auto
next
  case (tx_decided sy sid P)
  then have "verdict_of (sy_gate sy) sid \<noteq> None" by (auto simp: conc_ok_def)
  then show ?case using tx_decided by (intro set_state_ok [OF tx_decided]) simp_all
next
  case (tx_dead_read cfg sy sid job tier P reason)
  then show ?case by (auto simp: conc_ok_def job_state_def)
next
  case (tx_dead_decide sy now cfg sid ch reason tier vr g P)
  have p: "pending_ok (sy_orch sy) (sy_gate sy) (Dead_Letter cfg sid ch tier reason)"
    using tx_dead_decide(2) by (auto simp: conc_ok_def)
  then show ?case
    using forced_block_decision [of "dc_policy cfg" ch reason tier "[]" now 0 None]
    by (intro decide_ok [OF tx_dead_decide(2) _ tx_dead_decide(1), of _ "{#Dead_Lettered sid#}"]) auto
next
  case (tx_dead_done sy sid P)
  then have "verdict_of (sy_gate sy) sid \<noteq> None" by (auto simp: conc_ok_def)
  then show ?case by (intro set_state_ok [OF tx_dead_done]) (simp_all add: UNSCORED_STATES_def)
next
  case (tx_abort sy p P)
  then show ?case by (simp add: conc_ok_def)
qed

lemma tx_reachable_ok: "tx_reachable c \<Longrightarrow> conc_ok c"
proof (induction rule: rtranclp_induct)
  case base
  then show ?case
    by (simp add: conc_ok_def jobs_ok_def states_ok_def job_state_def empty_system_def empty_orch_def empty_gate_def)
next
  case (step c c')
  then show ?case using tx_step_ok by blast
qed

section \<open>Verdicts are final\<close>

text \<open>A step leaves a verdict as it is, unless it is a REVIEW that a reviewer decides.\<close>

lemma tx_step_verdict:
  assumes "tx_step c c'" "verdict_of (sy_gate (fst c)) sid = Some row"
  shows "\<exists>row'. verdict_of (sy_gate (fst c')) sid = Some row' \<and> (row' = row \<or> vd_verdict row = ''REVIEW'')"
  using assms
proof (induction rule: tx_step.induct)
  case (tx_submit pf sy now uuid files who ms pol tier src req dl sy' r P)
  have "sy_gate sy' = sy_gate sy" using tx_submit(1) by (cases rule: submit_scan_cases)
  then show ?case using tx_submit(2) by simp
next
  case (tx_waiver sy u st sv rid ex ap rq rs row' g actor P)
  have "gd_verdicts g = gd_verdicts (sy_gate sy)"
    using tx_waiver(1)
  proof
    assume "grant_allowlist_entry (sy_gate sy) u st sv rid ex ap rq rs = Inr (row', g)"
    then show ?thesis by (elim grant_InrE)
  next
    assume "revoke_allowlist_entry (sy_gate sy) u actor = Inr g"
    then show ?thesis by (auto simp: revoke_allowlist_entry_def split: option.splits)
  qed
  then show ?case using tx_waiver(2) by simp
next
  case (tx_review V sy invt now sg s d who why pol r g P)
  then obtain row2 where "verdict_of (sy_gate sy) s = Some row2" "vd_verdict row2 = ''REVIEW''"
    "gd_verdicts g = dict_put s r (gd_verdicts (sy_gate sy))"
    by (elim submit_review_InrE)
  then show ?case using tx_review(2) by (cases "s = sid") (simp_all add: update_conv')
next
  case (tx_decide sy now cfg s sr tier extra vr g P)
  then obtain r where "gd_verdicts g = gd_verdicts (sy_gate sy) @ [(s, r)]" by (elim decide_and_record_InrE)
  then show ?case using tx_decide(2) by (simp add: map_add_def)
next
  case (tx_dead_decide sy now cfg s ch reason tier vr g P)
  then obtain r where "gd_verdicts g = gd_verdicts (sy_gate sy) @ [(s, r)]" by (elim decide_and_record_InrE)
  then show ?case using tx_dead_decide(2) by (simp add: map_add_def)
qed simp_all

lemma tx_steps_verdict:
  assumes "tx_step\<^sup>*\<^sup>* c c'" "verdict_of (sy_gate (fst c)) sid = Some row"
  shows "\<exists>row'. verdict_of (sy_gate (fst c')) sid = Some row' \<and> (row' = row \<or> vd_verdict row = ''REVIEW'')"
  using assms
proof (induction rule: rtranclp_induct)
  case base
  then show ?case by blast
next
  case (step y z)
  then obtain r where "verdict_of (sy_gate (fst y)) sid = Some r" "r = row \<or> vd_verdict row = ''REVIEW''" by blast
  then show ?case using tx_step_verdict [OF step.hyps(2)] by blast
qed

section \<open>The sequential functions are runs of the transactions\<close>

lemma steps2: "r a b \<Longrightarrow> r b c \<Longrightarrow> r\<^sup>*\<^sup>* a c"
  by (rule rtranclp_trans) (rule r_into_rtranclp, assumption)+

lemma steps3: "r a b \<Longrightarrow> r b c \<Longrightarrow> r c d \<Longrightarrow> r\<^sup>*\<^sup>* a d"
  by (rule rtranclp.rtrancl_into_rtrancl [OF steps2])

lemma gate_transaction_cases:
  obtains e where "gate_transaction sy r = (sy, Inl e)" "r = Inl e"
  | vr g where "gate_transaction sy r = (sy\<lparr>sy_gate := g\<rparr>, Inr ())" "r = Inr (vr, g)"
  by (cases r) (auto simp: gate_transaction_def)

lemma dead_letter_run:
  assumes "valid_policy (dc_policy cfg)" "dead_letter_and_decide cfg now sy sid reason = (sy', r)"
  shows "tx_step\<^sup>*\<^sup>* (sy, P) (sy', P)"
proof (cases "map_of (od_jobs (sy_orch sy)) sid")
  case None
  then show ?thesis using assms(2) by (simp add: dead_letter_and_decide_def)
next
  case (Some job)
  note d = assms(2) [unfolded dead_letter_and_decide_def Some option.case]
  show ?thesis
  proof (cases "sj_state job \<in> UNSCORED_STATES")
    case False
    then show ?thesis using d by simp
  next
    case True
    note d = d [unfolded if_not_P [OF iffD2 [OF not_not True]]]
    show ?thesis
    proof (cases "effective_trust_tier (sj_trust_tier job) (dc_default_tier cfg)")
      case (Inl e)
      then show ?thesis using d by simp
    next
      case (Inr tier)
      let ?D = "Dead_Letter cfg sid (sj_content_hash job) tier reason"
      let ?rec = "decide_and_record (sy_gate sy) now (dc_signer cfg) sid
        (forced_block_scan_result (sj_content_hash job) reason) (dc_policy cfg) tier [] (dc_operator cfg) now []"
      note d = d [unfolded Inr sum.case]
      have read: "tx_step (sy, P) (sy, add_mset ?D P)" by (rule tx_dead_read [OF assms(1) Some True Inr])
      show ?thesis
      proof (cases rule: gate_transaction_cases [of sy ?rec])
        case (1 e)
        then have eq: "sy' = sy" using d by simp
        show ?thesis unfolding eq by (rule steps2 [of tx_step, OF read tx_abort])
      next
        case (2 vr g)
        have rec: "tx_step (sy, add_mset ?D P) (sy\<lparr>sy_gate := g\<rparr>, add_mset (Dead_Lettered sid) P)"
          by (rule tx_dead_decide [OF 2(2)])
        have eq: "sy' = (sy\<lparr>sy_gate := g\<rparr>)\<lparr>sy_orch := set_state sid UNSCORED_STATES STATE_FAILED
            (sy_orch (sy\<lparr>sy_gate := g\<rparr>))\<rparr>" using d unfolding 2(1) by simp
        show ?thesis unfolding eq by (rule steps3 [of tx_step, OF read rec tx_dead_done])
      qed
    qed
  qed
qed

lemma try_score_run:
  assumes "valid_policy (dc_policy cfg)" "try_score_and_decide cfg now sy sid req force = (sy', r)"
  shows "tx_step\<^sup>*\<^sup>* (sy, P) (sy', P)"
proof (cases "score_transaction cfg now (sy_orch sy) (sy_blobs sy) sid req force")
  case (Inl e)
  then show ?thesis using assms(2) by (simp add: try_score_and_decide_def)
next
  case sc: (Inr out)
  show ?thesis
  proof (cases out)
    case (Not_Ready odb)
    then have "sy' = sy\<lparr>sy_orch := odb\<rparr>" using assms(2) sc by (simp add: try_score_and_decide_def)
    then show ?thesis using tx_wait [OF sc [unfolded Not_Ready], of P] by blast
  next
    case (Scored odb sr jt extra)
    note t = assms(2) [unfolded try_score_and_decide_def sc Scored sum.case score_outcome.case Let_def]
    show ?thesis
    proof (cases "effective_trust_tier jt (dc_default_tier cfg)")
      case (Inl e)
      then have "sy' = sy\<lparr>sy_orch := odb\<rparr>" using t by simp
      then show ?thesis using tx_score_bad_tier [OF sc [unfolded Scored], of P] by blast
    next
      case (Inr tier)
      let ?D = "To_Decide cfg sid sr tier extra" and ?sy = "sy\<lparr>sy_orch := odb\<rparr>"
      let ?rec = "decide_and_record (sy_gate ?sy) now (dc_signer cfg) sid sr (dc_policy cfg) tier (dc_allowlist cfg)
        (dc_operator cfg) now extra"
      note t = t [unfolded Inr sum.case]
      have score: "tx_step (sy, P) (?sy, add_mset ?D P)" by (rule tx_score [OF assms(1) sc [unfolded Scored] Inr])
      show ?thesis
      proof (cases rule: gate_transaction_cases [of ?sy ?rec])
        case (1 e)
        then have eq: "sy' = ?sy" using t by simp
        show ?thesis unfolding eq by (rule steps2 [of tx_step, OF score tx_abort])
      next
        case (2 vr g)
        have rec: "tx_step (?sy, add_mset ?D P) (?sy\<lparr>sy_gate := g\<rparr>, add_mset (Decided sid) P)"
          by (rule tx_decide [OF 2(2)])
        have eq: "sy' = (?sy\<lparr>sy_gate := g\<rparr>)\<lparr>sy_orch := set_state sid {STATE_SCORED} STATE_DECIDED
            (sy_orch (?sy\<lparr>sy_gate := g\<rparr>))\<rparr>" using t unfolding 2(1) by simp
        show ?thesis unfolding eq by (rule steps3 [of tx_step, OF score rec tx_decided])
      qed
    qed
  qed
qed

lemma collect_scan_run:
  assumes "valid_policy (dc_policy cfg)" "collect_scan cfg now dcount sy sid msgs = (sy', r)"
  shows "tx_step\<^sup>*\<^sup>* (sy, P) (sy', P)"
proof (cases "res_map (dcount \<circ> rm_message_id) msgs")
  case (Inl e)
  then show ?thesis using assms(2) by (simp add: collect_scan_def)
next
  case (Inr ds)
  let ?sy = "sy\<lparr>sy_orch := mark_running_if_queued sid (sy_orch sy)\<rparr>"
  have "tx_step\<^sup>*\<^sup>* (?sy, P) (sy', P) \<Longrightarrow> tx_step\<^sup>*\<^sup>* (sy, P) (sy', P)"
    using tx_running [of sy P sid] by (meson converse_rtranclp_into_rtranclp)
  then show ?thesis
    using assms(2) Inr dead_letter_run [OF assms(1), of now sy sid _ sy' r P]
      try_score_run [OF assms(1), of now ?sy sid "sorted_list_of_set (gp_required_engines (dc_policy cfg))" False sy' r P]
    unfolding collect_scan_def by (simp add: Let_def split: if_splits)
qed

lemma collector_run:
  assumes "valid_policy (dc_policy cfg)"
  shows "tx_step\<^sup>*\<^sup>* (tk_system tk, P) (tk_system (fold (collect_step cfg now dcount) groups tk), P)"
proof (induction groups arbitrary: tk)
  case Nil
  then show ?case by simp
next
  case (Cons x groups)
  obtain sid msgs where x: "x = (sid, msgs)" by (cases x)
  obtain sy' r where c: "collect_scan cfg now dcount (tk_system tk) sid msgs = (sy', r)"
    by (cases "collect_scan cfg now dcount (tk_system tk) sid msgs")
  have "tk_system (collect_step cfg now dcount x tk) = sy'" using c x by (cases r) (simp_all add: collect_step_def)
  then have "tx_step\<^sup>*\<^sup>* (tk_system tk, P) (tk_system (collect_step cfg now dcount x tk), P)"
    using collect_scan_run [OF assms c] by simp
  then show ?case using Cons.IH [of "collect_step cfg now dcount x tk"] by (simp add: rtranclp_trans)
qed

lemma sweep_run:
  assumes "valid_policy (dc_policy cfg)"
  shows "tx_step\<^sup>*\<^sup>* (fst a, P) (fst (fold (sweep_step cfg now) sids a), P)"
proof (induction sids arbitrary: a)
  case Nil
  then show ?case by simp
next
  case (Cons sid sids)
  let ?req = "sorted_list_of_set (gp_required_engines (dc_policy cfg))"
  obtain sy' r where c: "try_score_and_decide cfg now (fst a) sid ?req True = (sy', r)"
    by (cases "try_score_and_decide cfg now (fst a) sid ?req True")
  have "fst (sweep_step cfg now sid a) = sy'" using c by (cases r; cases a) (simp_all add: sweep_step_def)
  then have "tx_step\<^sup>*\<^sup>* (fst a, P) (fst (sweep_step cfg now sid a), P)"
    using try_score_run [OF assms c] by simp
  then show ?case using Cons.IH [of "sweep_step cfg now sid a"] by (simp add: rtranclp_trans)
qed

section \<open>Properties\<close>

text \<open>C7: No PASS without a recorded result. However the transactions of any number of collectors, sweeps,
  dead letters, reviews, submissions and blob writes interleave, and wherever processes fail between two
  of their transactions: a verdict belongs to a submitted scan; a PASS has a recorded scan result; and
  a verdict that is not marked fail-closed rests on a result for which every required engine
  reported. So a dead-lettered or never scored scan cannot come to PASS, not even by review.\<close>

theorem pass_needs_recorded_result:
  assumes "tx_reachable (sy, P)" "map_of (gd_verdicts (sy_gate sy)) sid = Some row"
  shows "map_of (od_jobs (sy_orch sy)) sid \<noteq> None \<and>
    (vd_verdict row = ''PASS'' \<longrightarrow> map_of (od_results (sy_orch sy)) sid \<noteq> None) \<and>
    (\<not> vd_fail_closed row \<longrightarrow> (\<exists>rr. map_of (od_results (sy_orch sy)) sid = Some rr \<and> rr_required_ok rr))"
proof -
  have "verdict_ok (sy_orch sy) sid row"
    using tx_reachable_ok [OF assms(1)] assms(2) by (simp add: conc_ok_def states_ok_def)
  then show ?thesis by (auto simp: verdict_ok_def job_state_def)
qed


text \<open>C9: The collector and the sweep refine the transaction system: under a constructible policy, a whole
  tick over any batch of messages, whatever exceptions it contains and absorbs, and a whole sweep are
  runs of single transactions that leave the work in flight of all other processes alone. What holds in
  every reachable state of the interleaved system therefore holds after them.\<close>

theorem ticks_refine_transactions:
  assumes "valid_policy (dc_policy cfg)"
  shows "tx_step\<^sup>*\<^sup>* (sy, P) (fst (run_result_collector_tick cfg now dcount results sy), P) \<and>
    tx_step\<^sup>*\<^sup>* (sy, P) (fst (sweep_sandbox_wait_timeouts cfg now wait sy), P)"
  using collector_run [OF assms, of "\<lparr>tk_system = sy, tk_decided = 0, tk_failed = {}\<rparr>" P now dcount "by_scan_id results"]
    sweep_run [OF assms, of "(sy, 0)" P now "sweep_candidates now wait (sy_orch sy)"]
  by (simp add: run_result_collector_tick_def sweep_sandbox_wait_timeouts_def Let_def)

end
