(* ===== verification/Scan_Properties.thy ===== *)
theory Scan_Properties
  imports Scan_Transactions
begin

text \<open>
  What the operations of the scan service guarantee one by one: single flight of submissions, when
  exactly a scan is decided, the forced decisions of the sweep, the bound on redelivery, and that what was
  scored can be reviewed. The last section builds concrete runs for the witnesses of this theory and
  of \<open>Scan_Transactions\<close>.
\<close>

section \<open>Submission\<close>

lemma is_scan_submitter_associate: "is_scan_submitter (associate_submitter odb sid who src t) sid who"
  by (auto simp: is_scan_submitter_def associate_submitter_def list_ex_iff)

lemma is_scan_submitter_associate_mono:
  "is_scan_submitter odb s u \<Longrightarrow> is_scan_submitter (associate_submitter odb sid who src t) s u"
  by (auto simp: is_scan_submitter_def associate_submitter_def list_ex_iff)

text \<open>After a successful submission its key leads to its scan.\<close>

lemma submit_scan_found:
  assumes "submit_scan pf sy now uuid files who ms pol tier src req dl = (sy', Inr sid)"
  obtains ch td ck j where "scan_keys pf files ms pol = Inr (ch, td, ck)"
    "List.find (\<lambda>(k, j). sj_cache_key j = ck) (od_jobs (sy_orch sy')) = Some (sid, j)"
    "is_scan_submitter (sy_orch sy') sid who"
proof (cases "scan_keys pf files ms pol")
  case (Inl e)
  then show thesis using assms by (simp add: submit_scan_def)
next
  case (Inr keys)
  obtain ch td ck where k: "keys = (ch, td, ck)" by (cases keys)
  note s = assms [unfolded submit_scan_def Inr sum.case k prod.case Let_def]
  show thesis
  proof (cases "List.find (\<lambda>(k, j). sj_cache_key j = ck) (od_jobs (sy_orch sy))")
    case (Some x)
    obtain e j where x: "x = (e, j)" by (cases x)
    have "e = sid" "sy_orch sy' = associate_submitter (sy_orch sy) sid who src req" using s Some x by auto
    then show thesis using that [of ch td ck j] Inr k Some x by (simp add: is_scan_submitter_associate)
  next
    case None
    note s = s [unfolded None option.case]
    have new: "uuid \<notin> fst ` set (od_jobs (sy_orch sy))" using s by (auto split: if_splits)
    note s = s [unfolded if_not_P [OF new]]
    define job where "job = \<lparr>sj_content_hash = ch, sj_toolchain_digest = td, sj_cache_key = ck, sj_state = STATE_QUEUED,
      sj_submitter = who, sj_created_at = now,
      sj_skill_name = parse_skill_name (pf_case pf) (pf_frontmatter pf) (pf_strip pf) files,
      sj_sandbox_wait_started_at = None, sj_trust_tier = Some (trust_tier_value tier)\<rparr>"
    have j: "sj_cache_key job = ck" "uuid = sid"
      "sy_orch sy' = associate_submitter ((sy_orch sy)\<lparr>od_jobs := od_jobs (sy_orch sy) @ [(sid, job)]\<rparr>) sid who src req"
      using s unfolding job_def by (auto split: if_splits)
    have "List.find P (xs @ [y]) = Some y" if "List.find P xs = None" "P y" for P :: "string \<times> scan_job \<Rightarrow> bool" and xs y
      using that by (induction xs) (auto split: if_splits)
    then have "List.find (\<lambda>(k, j). sj_cache_key j = ck) (od_jobs (sy_orch sy')) = Some (sid, job)"
      using None j by (simp add: case_prod_beta)
    then show thesis using that [of ch td ck job] Inr k j(3) by (simp add: is_scan_submitter_associate)
  qed
qed

text \<open>Note: Single flight. Once a submission was accepted, any later submission of the same files under the
  same engines and policy, by anyone, over any channel and at any tier, gets the same scan: no second job, no
  second message to the workers and no change to what is recorded of other submitters; and both
  submitters are then authorized for the scan.\<close>

theorem submit_scan_single_flight:
  assumes "submit_scan pf sy now uuid files who ms pol tier src req dl = (sy1, Inr sid)"
    and "submit_scan pf sy1 now2 uuid2 files who2 ms pol tier2 src2 req2 dl2 = (sy2, r)"
  shows "r = Inr sid \<and> od_jobs (sy_orch sy2) = od_jobs (sy_orch sy1) \<and> sy_scans sy2 = sy_scans sy1 \<and>
    sy_blobs sy2 = sy_blobs sy1 \<and> is_scan_submitter (sy_orch sy2) sid who \<and> is_scan_submitter (sy_orch sy2) sid who2 \<and>
    set (od_submitters (sy_orch sy1)) \<subseteq> set (od_submitters (sy_orch sy2)) \<and>
    (\<forall>x \<in> set (od_submitters (sy_orch sy2)) - set (od_submitters (sy_orch sy1)). su_scan_id x = sid \<and> su_submitter x = who2)"
  using assms(1)
proof (rule submit_scan_found)
  fix ch td ck j
  assume *: "scan_keys pf files ms pol = Inr (ch, td, ck)"
    "List.find (\<lambda>(k, j). sj_cache_key j = ck) (od_jobs (sy_orch sy1)) = Some (sid, j)"
    "is_scan_submitter (sy_orch sy1) sid who"
  have eq: "r = Inr sid" "sy2 = sy1\<lparr>sy_orch := associate_submitter (sy_orch sy1) sid who2 src2 req2\<rparr>"
    using assms(2) unfolding submit_scan_def *(1) sum.case prod.case *(2) option.case by simp_all
  have "set (od_submitters (sy_orch sy1)) \<subseteq> set (od_submitters (sy_orch sy2)) \<and>
    (\<forall>x \<in> set (od_submitters (sy_orch sy2)) - set (od_submitters (sy_orch sy1)). su_scan_id x = sid \<and> su_submitter x = who2)"
    unfolding eq(2) by (auto simp: associate_submitter_def)
  then show ?thesis
    using is_scan_submitter_associate [of "sy_orch sy1" sid who2 src2 req2]
      is_scan_submitter_associate_mono [OF *(3), of sid who2 src2 req2]
    by (simp add: eq)
qed

section \<open>Deciding\<close>

text \<open>What a decision came from and what it left.\<close>

lemma try_score_decidedE:
  assumes "try_score_and_decide cfg now sy sid req force = (sy', Inr True)"
  obtains job sr hs odb extra tier g where "map_of (od_jobs (sy_orch sy)) sid = Some job"
    "score_transaction cfg now (sy_orch sy) (sy_blobs sy) sid req force = Inr (Scored odb sr (sj_trust_tier job) extra)"
    "effective_trust_tier (sj_trust_tier job) (dc_default_tier cfg) = Inr tier"
    "load_and_aggregate (dc_reader cfg) (sy_blobs sy) sid (sj_content_hash job) (engine_set cfg req) (dc_policy cfg) 0 5000 =
       Inr (sr, hs)"
    "decide_and_record (sy_gate sy) now (dc_signer cfg) sid sr (dc_policy cfg) tier (dc_allowlist cfg) (dc_operator cfg) now extra =
       Inr (decide sr (dc_policy cfg) tier (dc_allowlist cfg) now 0 None, g)"
    "sy' = sy\<lparr>sy_gate := g, sy_orch := set_state sid {STATE_SCORED} STATE_DECIDED odb\<rparr>"
proof -
  obtain odb sr jt extra where sc: "score_transaction cfg now (sy_orch sy) (sy_blobs sy) sid req force = Inr (Scored odb sr jt extra)"
    using assms unfolding try_score_and_decide_def by (auto split: sum.splits score_outcome.splits)
  note t = assms [unfolded try_score_and_decide_def sc sum.case score_outcome.case Let_def]
  obtain tier where tier: "effective_trust_tier jt (dc_default_tier cfg) = Inr tier"
    using t by (cases "effective_trust_tier jt (dc_default_tier cfg)") simp_all
  note t = t [unfolded tier sum.case]
  let ?rec = "decide_and_record (sy_gate (sy\<lparr>sy_orch := odb\<rparr>)) now (dc_signer cfg) sid sr (dc_policy cfg) tier
    (dc_allowlist cfg) (dc_operator cfg) now extra"
  obtain vr g where g: "gate_transaction (sy\<lparr>sy_orch := odb\<rparr>) ?rec = (sy\<lparr>sy_orch := odb\<rparr>\<lparr>sy_gate := g\<rparr>, Inr ())" "?rec = Inr (vr, g)"
    using t by (cases rule: gate_transaction_cases [of "sy\<lparr>sy_orch := odb\<rparr>" ?rec]) simp_all
  have vr: "vr = decide sr (dc_policy cfg) tier (dc_allowlist cfg) now 0 None" using g(2) by (elim decide_and_record_InrE)
  have sy': "sy' = sy\<lparr>sy_gate := g, sy_orch := set_state sid {STATE_SCORED} STATE_DECIDED odb\<rparr>"
    using t unfolding g(1) by simp
  from sc show thesis
  proof (rule score_transaction_ScoredE)
    fix job hs
    assume "map_of (od_jobs (sy_orch sy)) sid = Some job" "jt = sj_trust_tier job"
      "load_and_aggregate (dc_reader cfg) (sy_blobs sy) sid (sj_content_hash job) (engine_set cfg req) (dc_policy cfg) 0 5000 =
       Inr (sr, hs)"
    then show thesis using that [of job odb sr extra tier hs g] sc tier g(2) vr sy' by simp
  qed
qed



section \<open>Dead letters\<close>

text \<open>A signer that signs and whose token ids have not been used in this table.\<close>

definition signs_fresh :: "signer \<Rightarrow> gate_db \<Rightarrow> bool" where
  "signs_fresh sg gdb \<longleftrightarrow> (\<forall>c. \<exists>jws jti. sg_sign sg c = Inr jws \<and> sg_jti sg jws = Inr jti \<and>
     jti \<notin> vd_jti ` snd ` set (gd_verdicts gdb))"

lemma decide_and_record_total:
  assumes "signs_fresh sg db" "map_of (gd_verdicts db) sid = None"
  shows "\<exists>vr g. decide_and_record db t sg sid sr p tier al op now extra = Inr (vr, g)"
proof -
  have new: "sid \<notin> fst ` set (gd_verdicts db)" using assms(2) by (simp add: map_of_eq_None_iff)
  let ?vr = "decide sr p tier al now 0 None"
  obtain jws jti where s: "sg_sign sg \<lparr>vc_content_hash = sr_content_hash sr,
        vc_verdict = verdict_name (vr_verdict ?vr), vc_policy_version = vr_policy_version ?vr,
        vc_effective_severity = severity_int (vr_effective_severity ?vr), vc_score = vr_score ?vr\<rparr> = Inr jws"
      "sg_jti sg jws = Inr jti" "jti \<notin> vd_jti ` snd ` set (gd_verdicts db)"
    using assms(1) unfolding signs_fresh_def by blast
  have ok: "\<not> (sid \<in> fst ` set (gd_verdicts db) \<or> jti \<in> vd_jti ` snd ` set (gd_verdicts db))" using new s(3) by blast
  show ?thesis
    unfolding decide_and_record_def Let_def s(1) res_bind_Inr s(2) raise_if_def if_not_P [OF ok] by blast
qed

text \<open>What a dead letter records.\<close>

lemma dead_letter_decides:
  assumes pol: "valid_policy (dc_policy cfg)"
    and job: "map_of (od_jobs (sy_orch sy)) sid = Some job" "sj_state job \<in> UNSCORED_STATES"
    and tier: "effective_trust_tier (sj_trust_tier job) (dc_default_tier cfg) = Inr tier"
    and gate: "signs_fresh (dc_signer cfg) (sy_gate sy)" "map_of (gd_verdicts (sy_gate sy)) sid = None"
  obtains sy' row where "dead_letter_and_decide cfg now sy sid reason = (sy', Inr True)"
    "map_option sj_state (map_of (od_jobs (sy_orch sy')) sid) = Some STATE_FAILED"
    "od_results (sy_orch sy') = od_results (sy_orch sy)"
    "map_of (gd_verdicts (sy_gate sy')) sid = Some row" "vd_fail_closed row"
    "vd_verdict row = verdict_name (gp_fail_closed_verdict (dc_policy cfg))"
proof -
  let ?sr = "forced_block_scan_result (sj_content_hash job) reason"
  obtain vr g where g: "decide_and_record (sy_gate sy) now (dc_signer cfg) sid ?sr (dc_policy cfg) tier []
      (dc_operator cfg) now [] = Inr (vr, g)"
    using decide_and_record_total [OF gate] by blast
  then obtain row where row: "vr = decide ?sr (dc_policy cfg) tier [] now 0 None"
    "gd_verdicts g = gd_verdicts (sy_gate sy) @ [(sid, row)]" "vd_verdict row = verdict_name (vr_verdict vr)"
    "vd_fail_closed row = vr_fail_closed vr"
    by (elim decide_and_record_InrE)
  have fb: "vr_fail_closed vr" "vr_verdict vr = gp_fail_closed_verdict (dc_policy cfg)"
    unfolding row(1) using forced_block_decision [OF pol] by blast+
  have d: "dead_letter_and_decide cfg now sy sid reason =
      (sy\<lparr>sy_gate := g, sy_orch := set_state sid UNSCORED_STATES STATE_FAILED (sy_orch sy)\<rparr>, Inr True)"
    using job(2) by (simp add: dead_letter_and_decide_def job(1) tier g gate_transaction_def)
  show thesis
    by (rule that [OF d, of row])
      (use job gate(2) fb in \<open>simp_all add: set_state_jobs row(2-4) map_add_def\<close>)
qed

lemma by_scan_id_single:
  assumes "results \<noteq> []" "\<forall>r \<in> set results. rm_scan_id r = sid"
  shows "by_scan_id results = [(sid, results)]"
proof -
  have "xs = [sid]" if "distinct xs" "set xs = {sid}" for xs
    using that by (cases xs rule: remdups_adj.cases) auto
  moreover have "rm_scan_id ` set results = {sid}" using assms by (cases results) auto
  ultimately have "dict_fromkeys (map rm_scan_id results) = [sid]" by simp
  moreover have "filter (\<lambda>r. rm_scan_id r = sid) results = results" using assms(2) by simp
  ultimately show ?thesis by (simp add: by_scan_id_def)
qed


section \<open>Progress of scoring\<close>

text \<open>A scan with everything reported is decided, at once.\<close>

lemma complete_scan_decided:
  assumes job: "map_of (od_jobs (sy_orch sy)) sid = Some job" "sj_state job \<in> UNSCORED_STATES"
    and rep: "list_all (reported (sy_blobs sy) sid) req" "force \<or> list_all (reported (sy_blobs sy) sid) (dc_waited cfg)"
    and load: "load_and_aggregate (dc_reader cfg) (sy_blobs sy) sid (sj_content_hash job) (engine_set cfg req) (dc_policy cfg) 0 5000 =
      Inr (sr, hs)" "[] \<notin> set (engine_set cfg req)"
    and fresh: "\<forall>r \<in> set (od_health (sy_orch sy)). hr_scan_id r \<noteq> sid" "map_of (od_results (sy_orch sy)) sid = None"
    and tier: "effective_trust_tier (sj_trust_tier job) (dc_default_tier cfg) = Inr tier"
    and gate: "signs_fresh (dc_signer cfg) (sy_gate sy)" "map_of (gd_verdicts (sy_gate sy)) sid = None"
  shows "\<exists>sy'. try_score_and_decide cfg now sy sid req force = (sy', Inr True)"
proof -
  let ?m = "filter (\<lambda>e. \<not> reported (sy_blobs sy) sid e) (dc_waited cfg)"
  have m: "(\<not> force \<and> ?m \<noteq> []) = False" using rep(2) by (auto simp: list_all_iff filter_empty_conv)
  have "distinct (map hc_engine_name hs)"
    using load_and_aggregate_health [OF load] by (simp add: engine_set_def del: distinct_map)
  then have g: "\<not> (list_ex (\<lambda>h. list_ex (\<lambda>r. hr_scan_id r = sid \<and> hr_engine_name r = hc_engine_name h) (od_health (sy_orch sy))) hs \<or>
      \<not> distinct (map hc_engine_name hs) \<or> sid \<in> fst ` set (od_results (sy_orch sy)))"
    using fresh by (auto simp: list_ex_iff map_of_eq_None_iff)
  obtain odb extra where sc: "score_transaction cfg now (sy_orch sy) (sy_blobs sy) sid req force =
      Inr (Scored odb sr (sj_trust_tier job) extra)"
    unfolding score_transaction_def job(1) option.case Let_def m load(1) res_bind_Inr prod.case raise_if_def if_not_P [OF g]
    using job(2) rep(1) by simp
  obtain vr gd where "decide_and_record (sy_gate sy) now (dc_signer cfg) sid sr (dc_policy cfg) tier (dc_allowlist cfg)
      (dc_operator cfg) now extra = Inr (vr, gd)"
    using decide_and_record_total [OF gate] by blast
  then show ?thesis by (simp add: try_score_and_decide_def sc tier gate_transaction_def Let_def)
qed

section \<open>The sweep\<close>

lemma sweep_overdue:
  assumes "distinct (map fst (od_jobs odb))"
  shows "(s, j) \<in> set (od_jobs odb) \<longleftrightarrow> map_of (od_jobs odb) s = Some j"
  using assms by simp

text \<open>Note: The sweep is bounded and fair. It takes at most \<open>SWEEP_BATCH\<close> scans, each of them unscored and waiting
  for longer than the timeout plus the grace period; and when some overdue scan is left out, the batch
  is full and no scan in it has waited shorter than the one left out. A scan without a wait
  clock is never forced.\<close>

theorem sweep_bounded_and_fair:
  assumes dist: "distinct (map fst (od_jobs odb))"
  shows "length (sweep_candidates now w odb) \<le> SWEEP_BATCH \<and> distinct (sweep_candidates now w odb) \<and>
    (\<forall>s \<in> set (sweep_candidates now w odb). \<exists>job t. map_of (od_jobs odb) s = Some job \<and>
       sj_state job \<in> UNSCORED_STATES \<and> sj_sandbox_wait_started_at job = Some t \<and> t < now - (w + SWEEP_GRACE_S)) \<and>
    (\<forall>s job t. map_of (od_jobs odb) s = Some job \<and> sj_state job \<in> UNSCORED_STATES \<and>
       sj_sandbox_wait_started_at job = Some t \<and> t < now - (w + SWEEP_GRACE_S) \<and> s \<notin> set (sweep_candidates now w odb) \<longrightarrow>
       length (sweep_candidates now w odb) = SWEEP_BATCH \<and>
       (\<forall>c \<in> set (sweep_candidates now w odb). \<exists>job' t'. map_of (od_jobs odb) c = Some job' \<and>
          sj_sandbox_wait_started_at job' = Some t' \<and> t' \<le> t))"
proof -
  let ?P = "\<lambda>(k, j). sj_state j \<in> UNSCORED_STATES \<and>
    (case sj_sandbox_wait_started_at j of None \<Rightarrow> False | Some t \<Rightarrow> t < now - (w + SWEEP_GRACE_S))"
  let ?key = "\<lambda>(k, j). sj_sandbox_wait_started_at j"
  define L where "L = sort_key ?key (filter ?P (od_jobs odb))"
  have sc: "sweep_candidates now w odb = map fst (take SWEEP_BATCH L)"
    by (simp add: sweep_candidates_def L_def Let_def)
  have setL: "set L = {x \<in> set (od_jobs odb). ?P x}" by (simp add: L_def)
  have dL: "distinct (map fst L)"
    unfolding L_def distinct_map_sort_key using dist by (rule distinct_map_filter)
  have srt: "sorted (map ?key L)" by (simp add: L_def)
  have one: "length (sweep_candidates now w odb) \<le> SWEEP_BATCH" "distinct (sweep_candidates now w odb)"
    by (simp add: sc) (use distinct_take [OF dL] in \<open>simp only: sc take_map\<close>)
  have two: "\<exists>job t. map_of (od_jobs odb) s = Some job \<and> sj_state job \<in> UNSCORED_STATES \<and>
      sj_sandbox_wait_started_at job = Some t \<and> t < now - (w + SWEEP_GRACE_S)" if s: "s \<in> set (sweep_candidates now w odb)" for s
  proof -
    obtain j where "(s, j) \<in> set L" using s by (auto simp: sc dest: in_set_takeD)
    then have "(s, j) \<in> set (od_jobs odb)" "?P (s, j)" by (simp_all add: setL)
    then show ?thesis using sweep_overdue [OF dist, of s j] by (auto split: option.splits)
  qed
  have three: "length (sweep_candidates now w odb) = SWEEP_BATCH \<and>
      (\<forall>c \<in> set (sweep_candidates now w odb). \<exists>job' t'. map_of (od_jobs odb) c = Some job' \<and>
         sj_sandbox_wait_started_at job' = Some t' \<and> t' \<le> t)"
    if j: "map_of (od_jobs odb) s = Some job" "sj_state job \<in> UNSCORED_STATES"
      "sj_sandbox_wait_started_at job = Some t" "t < now - (w + SWEEP_GRACE_S)" "s \<notin> set (sweep_candidates now w odb)" for s job t
  proof
    have inL: "(s, job) \<in> set L" using j(1-4) sweep_overdue [OF dist, of s job] by (simp add: setL)
    moreover have "(s, job) \<notin> set (take SWEEP_BATCH L)" using j(5) unfolding sc by force
    ultimately have drop: "(s, job) \<in> set (drop SWEEP_BATCH L)"
      using append_take_drop_id [of SWEEP_BATCH L] by (metis Un_iff set_append)
    then show "length (sweep_candidates now w odb) = SWEEP_BATCH" by (cases "length L \<le> SWEEP_BATCH") (simp_all add: sc)
    show "\<forall>c \<in> set (sweep_candidates now w odb). \<exists>job' t'. map_of (od_jobs odb) c = Some job' \<and>
        sj_sandbox_wait_started_at job' = Some t' \<and> t' \<le> t"
    proof
      fix c assume "c \<in> set (sweep_candidates now w odb)"
      then obtain j' where c: "(c, j') \<in> set (take SWEEP_BATCH L)" by (auto simp: sc)
      have "sorted (map ?key (take SWEEP_BATCH L) @ map ?key (drop SWEEP_BATCH L))"
        using srt append_take_drop_id [of SWEEP_BATCH L] by (metis map_append)
      then have "?key (c, j') \<le> ?key (s, job)" using c drop unfolding sorted_append by fastforce
      moreover have "(c, j') \<in> set (od_jobs odb)" "?P (c, j')" using in_set_takeD [OF c] by (simp_all add: setL)
      ultimately show "\<exists>job' t'. map_of (od_jobs odb) c = Some job' \<and> sj_sandbox_wait_started_at job' = Some t' \<and> t' \<le> t"
        using sweep_overdue [OF dist, of c j'] j(3) by (auto split: option.splits)
    qed
  qed
  show ?thesis
    by (rule conjI [OF one(1)], rule conjI [OF one(2)], rule conjI, rule ballI, erule two,
        intro allI impI, elim conjE, rule three)
qed

section \<open>Witnesses\<close>

text \<open>A platform with constant digests, a signer with one token, a store whose blobs no reader accepts.\<close>

definition demo_platform :: "unit platform" where
  "demo_platform = \<lparr>pf_nfc = id, pf_sha256 = (\<lambda>_. ''d''), pf_iter = sorted_list_of_set, pf_repr = sample_repr,
     pf_sha256_text = (\<lambda>_. ''e''), pf_case = \<lparr>cm_upper = id, cm_lower = id\<rparr>,
     pf_frontmatter = \<lparr>fm_decode = (\<lambda>_. None), fm_load = (\<lambda>_. None)\<rparr>, pf_strip = id, pf_pack_tar = (\<lambda>_. ())\<rparr>"

definition token_signer :: signer where
  "token_signer = \<lparr>sg_sign = (\<lambda>_. Inr ''token''), sg_jti = (\<lambda>_. Inr ''jti'')\<rparr>"

definition demo_config :: "unit decide_config" where
  "demo_config = \<lparr>dc_reader = \<lparr>br_validate = (\<lambda>_. None), br_exc = (\<lambda>_. []), br_repr = id\<rparr>,
     dc_order = signal_order, dc_policy = sample_policy, dc_default_tier = INTERNAL, dc_allowlist = [],
     dc_signer = token_signer, dc_operator = ''op'', dc_additional = [], dc_waited = []\<rparr>"

definition demo_submit :: "unit system \<Rightarrow> string \<Rightarrow> string \<Rightarrow> unit system \<times> string res" where
  "demo_submit sy uuid who = submit_scan demo_platform sy 0 uuid sample_files who [sample_engine] sample_policy
     PUBLIC CONSOLE PUBLIC 300"

lemma demo_keys: "scan_keys demo_platform sample_files [sample_engine] sample_policy = Inr (''d'', ''d'', ''d'')"
proof -
  have enc: "encode_string (ustr_of s) = Inr (string_bytes (ustr_of s))" if "length s < 100" for s
    using that string_ok_of [of s] by (simp add: encode_string_eq)
  have "content_hash id (\<lambda>_. ''d'') sample_files = Inr ''d''"
    by (simp add: content_hash_def sample_content)
  moreover have "cache_policy_version sorted_list_of_set sample_repr (\<lambda>_. ''e'') sample_policy = Inr ''v1+p1:e''"
    by (simp add: cache_policy_version_def adjudication_semantics_eq sample_policy_def)
  moreover have "toolchain_digest (\<lambda>_. ''d'') [sample_engine] ''v1+p1:e'' ''none'' = Inr ''d''"
    by (simp add: toolchain_digest_def toolchain_preimage_def identity_def sample_engine_def sample_result_def enc)
  moreover have "cache_key (\<lambda>_. ''d'') ''d'' ''d'' = Inr ''d''"
    using enc [of "''d::d''"] by (simp add: cache_key_def)
  ultimately show ?thesis by (simp add: scan_keys_def demo_platform_def)
qed

text \<open>A first submission, as a state of the interleaved system.\<close>

definition demo_job :: scan_job where
  "demo_job = \<lparr>sj_content_hash = ''d'', sj_toolchain_digest = ''d'', sj_cache_key = ''d'', sj_state = STATE_QUEUED,
    sj_submitter = ''alice'', sj_created_at = 0,
    sj_skill_name = parse_skill_name (pf_case demo_platform) (pf_frontmatter demo_platform) (pf_strip demo_platform) sample_files,
    sj_sandbox_wait_started_at = None, sj_trust_tier = Some (trust_tier_value PUBLIC)\<rparr>"

definition demo_system :: "unit system" where
  "demo_system = fst (demo_submit empty_system ''s1'' ''alice'')"

lemma demo_submitted:
  "demo_submit empty_system ''s1'' ''alice'' = (demo_system, Inr ''s1'')"
  "sy_gate demo_system = empty_gate" "od_jobs (sy_orch demo_system) = [(''s1'', demo_job)]"
proof -
  obtain sy r where sy: "demo_submit empty_system ''s1'' ''alice'' = (sy, r)" by fastforce
  then have "r = Inr ''s1'' \<and> sy_gate sy = empty_gate \<and> od_jobs (sy_orch sy) = [(''s1'', demo_job)]"
    by (auto simp: demo_submit_def submit_scan_def demo_keys empty_system_def empty_orch_def Let_def demo_job_def
        associate_frame)
  then show "demo_submit empty_system ''s1'' ''alice'' = (demo_system, Inr ''s1'')"
    "sy_gate demo_system = empty_gate" "od_jobs (sy_orch demo_system) = [(''s1'', demo_job)]"
    using sy by (simp_all add: demo_system_def)
qed

lemma demo_system_tables: "od_health (sy_orch demo_system) = [] \<and> od_results (sy_orch demo_system) = []"
  by (simp add: demo_system_def demo_submit_def submit_scan_def demo_keys empty_system_def empty_orch_def Let_def
      associate_frame)

lemma demo_system_reachable: "tx_reachable (demo_system, {#})"
  by (rule r_into_rtranclp, rule tx_submit, rule demo_submitted(1) [unfolded demo_submit_def])

lemma token_signs: "signs_fresh token_signer empty_gate"
  by (simp add: signs_fresh_def token_signer_def empty_gate_def)

lemmas demo_config_simps =
  arg_cong [OF demo_config_def, of dc_policy, unfolded decide_config.simps]
  arg_cong [OF demo_config_def, of dc_signer, unfolded decide_config.simps]
  arg_cong [OF demo_config_def, of dc_default_tier, unfolded decide_config.simps]

text \<open>It can be dead-lettered, which gives a reachable state with a verdict.\<close>

lemma demo_ready:
  "valid_policy (dc_policy demo_config)" "map_of (od_jobs (sy_orch demo_system)) ''s1'' = Some demo_job"
  "sj_state demo_job \<in> UNSCORED_STATES"
  "effective_trust_tier (sj_trust_tier demo_job) (dc_default_tier demo_config) = Inr PUBLIC"
  "signs_fresh (dc_signer demo_config) (sy_gate demo_system)" "map_of (gd_verdicts (sy_gate demo_system)) ''s1'' = None"
  by (simp_all add: demo_config_simps sample_policy_valid demo_submitted token_signs empty_gate_def demo_job_def
      UNSCORED_STATES_def effective_trust_tier_def TrustTier_of_value signs_fresh_def token_signer_def)

lemma demo_dead:
  obtains sy row where "tx_reachable (sy :: unit system, {#})" "map_of (gd_verdicts (sy_gate sy)) ''s1'' = Some row"
    "vd_verdict row = ''BLOCK''"
proof -
  obtain sy' row where d: "dead_letter_and_decide demo_config 1 demo_system ''s1'' ''poison_pill'' = (sy', Inr True)"
    "map_of (gd_verdicts (sy_gate sy')) ''s1'' = Some row"
    "vd_verdict row = verdict_name (gp_fail_closed_verdict (dc_policy demo_config))"
    by (rule dead_letter_decides [OF demo_ready]) (rule that, assumption+)
  have r: "tx_reachable (sy', {#})"
    using demo_system_reachable dead_letter_run [OF demo_ready(1) d(1), of "{#}"] by (rule rtranclp_trans)
  show thesis by (rule that [OF r d(2)]) (simp add: d(3) demo_config_simps sample_policy_def)
qed

theorem pass_needs_recorded_result_witness:
  "\<exists>(sy :: unit system) row. map_of (gd_verdicts (sy_gate sy)) ''s1'' = Some row \<and> vd_verdict row = ''BLOCK'' \<and>
     map_of (od_jobs (sy_orch sy)) ''s1'' \<noteq> None"
proof -
  obtain sy :: "unit system" and row where "tx_reachable (sy, {#})" "map_of (gd_verdicts (sy_gate sy)) ''s1'' = Some row"
    "vd_verdict row = ''BLOCK''" by (rule demo_dead)
  then show ?thesis using pass_needs_recorded_result [of sy "{#}" "''s1''" row] by blast
qed


theorem ticks_refine_transactions_witness:
  "tx_step\<^sup>*\<^sup>* (empty_system, {#}) (fst (sweep_sandbox_wait_timeouts demo_config 1000 300 empty_system), {#})"
  using ticks_refine_transactions [of demo_config empty_system "{#}" 1000 "\<lambda>_. Inr 1" "[]" 300] sample_policy_valid
  by (simp add: demo_config_simps)

theorem submit_scan_single_flight_witness:
  "\<exists>sy2. demo_submit demo_system ''s2'' ''bob'' = (sy2, Inr ''s1'') \<and> is_scan_submitter (sy_orch sy2) ''s1'' ''bob''"
proof -
  obtain sy2 r where 2: "demo_submit demo_system ''s2'' ''bob'' = (sy2, r)" by fastforce
  show ?thesis
    using submit_scan_single_flight [OF demo_submitted(1) [unfolded demo_submit_def] 2 [unfolded demo_submit_def]] 2
    by (intro exI [of _ sy2]) simp
qed

definition demo_message :: result_message where
  "demo_message = \<lparr>rm_message_id = ''m1'', rm_scan_id = ''s1'', rm_engine = ''static-keyword'', rm_status = ''OK''\<rparr>"


theorem sweep_bounded_and_fair_witness:
  "sweep_candidates 1000 300 (empty_orch\<lparr>od_jobs := [(''s1'', \<lparr>sj_content_hash = ''d'', sj_toolchain_digest = ''d'', sj_cache_key = ''d'',
     sj_state = ''running'', sj_submitter = ''alice'', sj_created_at = 0, sj_skill_name = None,
     sj_sandbox_wait_started_at = Some 5, sj_trust_tier = None\<rparr>)]\<rparr>) = [''s1'']" (is "sweep_candidates 1000 300 ?odb = _")
proof -
  have "distinct (map fst (od_jobs ?odb))" by simp
  note f = sweep_bounded_and_fair [OF this, of 1000 300]
  have "''s1'' \<in> set (sweep_candidates 1000 300 ?odb)"
  proof (rule ccontr)
    assume "''s1'' \<notin> set (sweep_candidates 1000 300 ?odb)"
    then have "length (sweep_candidates 1000 300 ?odb) = SWEEP_BATCH"
      using conjunct2 [OF conjunct2 [OF conjunct2 [OF f]], rule_format, of "''s1''" _ 5]
      by (simp add: UNSCORED_STATES_def STATE_RUNNING_def SWEEP_GRACE_S_def)
    moreover have "length (sweep_candidates 1000 300 ?odb) \<le> 1"
      by (simp add: sweep_candidates_def Let_def)
    ultimately show False by (simp add: SWEEP_BATCH_def)
  qed
  then show ?thesis by (simp add: sweep_candidates_def Let_def SWEEP_BATCH_def split: if_splits)
qed

definition demo_reported :: "unit system" where
  "demo_reported = demo_system\<lparr>sy_blobs := [findings_key ''s1'' ''static-keyword'' \<mapsto> ()]\<rparr>"

lemma demo_loads:
  "\<exists>sr hs. load_and_aggregate (dc_reader demo_config) (sy_blobs demo_reported) ''s1'' (sj_content_hash demo_job)
     (engine_set demo_config [''static-keyword'']) (dc_policy demo_config) 0 5000 = Inr (sr, hs)"
proof -
  let ?load = "load_engine_result (dc_reader demo_config) (sy_blobs demo_reported) ''s1'' ''static-keyword''"
  have es: "engine_set demo_config [''static-keyword''] = [''static-keyword'']"
    by (simp add: engine_set_def dict_fromkeys_def demo_config_def)
  obtain r h where l: "?load = Inr (r, h)"
    using load_engine_result_total [of "''static-keyword''"] by (metis list.distinct(1) surj_pair)
  have "\<not> trusted_blob (dc_reader demo_config) (sy_blobs demo_reported) ''s1'' ''static-keyword'' r"
    by (simp add: trusted_blob_def demo_config_def parse_engine_result_with_duration_def)
  then have "er_findings r = []" using load_engine_result_InrD [OF _ l] by simp
  then have "all_findings [r] = []" by (simp add: all_findings_def safe_results_def)
  then have "\<exists>sr. aggregate (sj_content_hash demo_job) [r] (dc_policy demo_config) 0 5000 = Inr sr"
    by (cases "aggregate (sj_content_hash demo_job) [r] (dc_policy demo_config) 0 5000") (auto simp: aggregate_Inl dedup_def)
  then show ?thesis unfolding es load_and_aggregate_def by (auto simp: l)
qed

lemma demo_scan_decided:
  "\<exists>sy'. try_score_and_decide demo_config 1 demo_reported ''s1'' [''static-keyword''] False = (sy', Inr True)"
proof -
  have same: "sy_orch demo_reported = sy_orch demo_system" "sy_gate demo_reported = sy_gate demo_system"
    by (simp_all add: demo_reported_def)
  have es: "[] \<notin> set (engine_set demo_config [''static-keyword''])" by (simp add: engine_set_def demo_config_def)
  have rep: "list_all (reported (sy_blobs demo_reported) ''s1'') [''static-keyword'']"
    "False \<or> list_all (reported (sy_blobs demo_reported) ''s1'') (dc_waited demo_config)"
    by (simp_all add: demo_reported_def reported_def demo_config_def)
  have empty: "od_health (sy_orch demo_system) = []" "od_results (sy_orch demo_system) = []"
    using demo_system_tables by simp_all
  obtain sr hs where l: "load_and_aggregate (dc_reader demo_config) (sy_blobs demo_reported) ''s1'' (sj_content_hash demo_job)
     (engine_set demo_config [''static-keyword'']) (dc_policy demo_config) 0 5000 = Inr (sr, hs)"
    using demo_loads by (elim exE)
  show ?thesis
    by (rule complete_scan_decided [where job = demo_job and tier = PUBLIC, OF _ _ rep l es])
      (use demo_ready empty in \<open>simp_all add: same\<close>)
qed


end
