(* ===== verification/Worker_Lifecycle.thy ===== *)
theory Worker_Lifecycle
  imports Inventory_Service Scan_Service
begin

text \<open>
  The worker's lifecycle step (\<open>worker.py\<close>) and the drift check (\<open>orchestration/drift.py\<close>): verdicts of the
  gate drive the lifecycle of the inventory. A tick reads the events and the verdicts, then settles each
  waiting skill in a transaction of its own; that transaction is a function of the event as it was read and
  of the inventory as it is by then, so that what a stale read can do is expressible. Logging and the
  Redis deduplication of reports are left out; the clock of the transaction that concerns a skill
  is \<open>now\<close> of that skill.
\<close>

section \<open>Drift\<close>

record drift_result =
  dr_has_baseline :: bool
  dr_drifted :: bool
  dr_baseline_content_hash :: "string option"

definition is_drift :: "string option \<Rightarrow> string \<Rightarrow> bool" where
  "is_drift baseline_content_hash current_content_hash =
     (case baseline_content_hash of None \<Rightarrow> False | Some b \<Rightarrow> b \<noteq> current_content_hash)"

definition check_drift :: "inventory_db \<Rightarrow> string \<Rightarrow> string \<Rightarrow> drift_result" where
  "check_drift idb skill_id ch =
     (let baseline_hash = map_option bl_content_hash (map_of (db_baselines idb) skill_id)
      in \<lparr>dr_has_baseline = map_of (db_baselines idb) skill_id \<noteq> None,
          dr_drifted = is_drift baseline_hash ch, dr_baseline_content_hash = baseline_hash\<rparr>)"

section \<open>Settling waiting skills\<close>

definition WORKER_OPERATOR :: string where "WORKER_OPERATOR = ''system:worker''"

definition VERDICT_TARGET_STATE :: "string \<rightharpoonup> string" where
  "VERDICT_TARGET_STATE = map_of [(''PASS'', ''published''), (''REVIEW'', ''review_pending''), (''BLOCK'', ''blocked'')]"

definition WAITING_STATES :: "string set" where "WAITING_STATES = {''scanning'', ''review_pending''}"

text \<open>The truth value of an optional string.\<close>

definition truthy :: "string option \<Rightarrow> bool" where
  "truthy s \<longleftrightarrow> s \<noteq> None \<and> s \<noteq> Some []"

text \<open>The newest event of each skill, and those that wait for a verdict.\<close>

definition latest_by_skill :: "event_row list \<Rightarrow> (string \<times> event_row) list" where
  "latest_by_skill events = fold (\<lambda>e. dict_setdefault (ev_skill_id e) e) (rev events) []"

definition pending_events :: "event_row list \<Rightarrow> (string \<times> event_row) list" where
  "pending_events events =
     filter (\<lambda>(s, e). ev_to_state e \<in> WAITING_STATES \<and> truthy (ev_content_hash e)) (latest_by_skill events)"

definition awaited_scan_ids :: "(string \<times> event_row) list \<Rightarrow> string set" where
  "awaited_scan_ids pending = (the \<circ> ev_scan_id \<circ> snd) ` set (filter (\<lambda>(k, e). truthy (ev_scan_id e)) pending)"

definition legacy_hashes :: "(string \<times> event_row) list \<Rightarrow> string set" where
  "legacy_hashes pending =
     (the \<circ> ev_content_hash \<circ> snd) ` set (filter (\<lambda>(k, e). \<not> truthy (ev_scan_id e)) pending)"

text \<open>One query over the verdicts, newest first.\<close>

definition verdict_rows :: "gate_db \<Rightarrow> string set \<Rightarrow> string set \<Rightarrow> (string \<times> verdict_row) list" where
  "verdict_rows gdb scan_ids hashes = sort_key (\<lambda>(k, v). - vd_issued_at v)
     (filter (\<lambda>(k, v). k \<in> scan_ids \<or> vd_content_hash v \<in> hashes) (gd_verdicts gdb))"

definition resolve_event_verdict ::
  "event_row \<Rightarrow> (string \<times> string) list \<Rightarrow> verdict_row list \<Rightarrow> string option" where
  "resolve_event_verdict event verdict_by_scan legacy_candidates =
     (case ev_scan_id event of
        Some s \<Rightarrow> if s \<noteq> [] then map_of verdict_by_scan s
          else map_option vd_verdict (List.find (\<lambda>v. Some (vd_content_hash v) = ev_content_hash event \<and>
            ev_occurred_at event \<le> vd_issued_at v) legacy_candidates)
      | None \<Rightarrow> map_option vd_verdict (List.find (\<lambda>v. Some (vd_content_hash v) = ev_content_hash event \<and>
            ev_occurred_at event \<le> vd_issued_at v) legacy_candidates))"

definition event_verdict :: "gate_db \<Rightarrow> (string \<times> event_row) list \<Rightarrow> event_row \<Rightarrow> string option" where
  "event_verdict gdb pending event =
     (let awaited = awaited_scan_ids pending; legacy = legacy_hashes pending;
          rows = verdict_rows gdb awaited legacy
      in resolve_event_verdict event
           (map (\<lambda>(k, v). (k, vd_verdict v)) (filter (\<lambda>(k, v). k \<in> awaited) rows))
           (map snd (filter (\<lambda>(k, v). vd_content_hash v \<in> legacy) rows)))"

definition drift_reason :: "drift_result \<Rightarrow> string \<Rightarrow> string" where
  "drift_reason d ch = ''drift detected (SUP-05): baseline='' @
     (case dr_baseline_content_hash d of None \<Rightarrow> ''None'' | Some b \<Rightarrow> b) @ '' != current='' @ ch"

text \<open>\<open>transition_skill\<close> raises only \<open>InvalidTransitionError\<close> and \<open>ValueError\<close> (lemma
  \<open>transition_skill_errors\<close>), and both are caught here and below.\<close>

definition quarantine_if_drifted :: "inventory_db \<Rightarrow> real \<Rightarrow> string \<Rightarrow> string \<Rightarrow> inventory_db" where
  "quarantine_if_drifted idb now skill_id ch =
     (let d = check_drift idb skill_id ch
      in if \<not> (dr_has_baseline d \<and> dr_drifted d) then idb
         else case transition_skill idb now skill_id ''quarantined'' (drift_reason d ch) WORKER_OPERATOR (Some ch) None of
           Inl _ \<Rightarrow> idb | Inr idb' \<Rightarrow> idb')"

text \<open>The transaction that settles one skill: the event as read, the verdict found for it, and the
  inventory the transaction runs on. The result says whether a transition was made.\<close>

definition settle_skill ::
  "(string \<Rightarrow> real) \<Rightarrow> string \<times> event_row \<Rightarrow> string option \<Rightarrow> inventory_db \<Rightarrow> inventory_db \<times> bool" where
  "settle_skill now = (\<lambda>(skill_id, event) v idb.
     (case v of
        None \<Rightarrow> (idb, False)
      | Some vd \<Rightarrow>
          (case VERDICT_TARGET_STATE vd of
             None \<Rightarrow> (idb, False)
           | Some target \<Rightarrow>
               if target = ev_to_state event then (idb, False)
               else
                 let ch = (case ev_content_hash event of None \<Rightarrow> ''None'' | Some h \<Rightarrow> h);
                     idb1 = (if target = ''published''
                       then snd (advance_baseline_on_publish idb (now skill_id) skill_id ch WORKER_OPERATOR) else idb)
                 in (case transition_skill idb1 (now skill_id) skill_id target (''verdict '' @ vd) WORKER_OPERATOR (Some ch)
                        (if truthy (ev_scan_id event) then ev_scan_id event else None) of
                       Inl _ \<Rightarrow> (idb, False)
                     | Inr idb2 \<Rightarrow>
                         (if target = ''published'' then quarantine_if_drifted idb2 (now skill_id) skill_id ch else idb2,
                          True)))))"

definition settle_step ::
  "gate_db \<Rightarrow> (string \<times> event_row) list \<Rightarrow> (string \<Rightarrow> real) \<Rightarrow> string \<times> event_row \<Rightarrow> inventory_db \<times> nat \<Rightarrow>
   inventory_db \<times> nat" where
  "settle_step gdb pending now x = (\<lambda>(idb, n).
     (case settle_skill now x (event_verdict gdb pending (snd x)) idb of
        (idb', b) \<Rightarrow> (idb', if b then Suc n else n)))"

definition sync_lifecycle_tick :: "gate_db \<Rightarrow> (string \<Rightarrow> real) \<Rightarrow> inventory_db \<Rightarrow> inventory_db \<times> nat" where
  "sync_lifecycle_tick gdb now idb =
     (let pending = pending_events (db_events idb)
      in fold (settle_step gdb pending now) pending (idb, 0))"

text \<open>The scans whose verdicts are reported as stranded.\<close>

definition stranded_verdicts :: "gate_db \<Rightarrow> event_row list \<Rightarrow> (string \<times> verdict_row) list" where
  "stranded_verdicts gdb events =
     (let awaited = awaited_scan_ids (pending_events events);
          named = filter (\<lambda>e. truthy (ev_scan_id e)) events;
          entered_waiting = (the \<circ> ev_scan_id) ` set (filter (\<lambda>e. ev_to_state e \<in> WAITING_STATES) named);
          left_waiting = (the \<circ> ev_scan_id) ` set (filter (\<lambda>e. ev_from_state e \<in> Some ` WAITING_STATES) named);
          candidates = entered_waiting - left_waiting - awaited
      in filter (\<lambda>(k, v). k \<in> candidates) (gd_verdicts gdb))"

section \<open>Facts\<close>

lemma transition_skill_errors:
  "transition_skill idb t sid to_state reason actor ch scan = Inl e \<Longrightarrow> e \<in> {InvalidTransitionError, ValueError}"
  by (auto simp: transition_skill_def record_transition_def res_bind_eq_Inl split: option.splits
      dest: validate_transition_Inl)

text \<open>The verdict an event waits for: that of its own scan; for an event without a scan the newest verdict
  on its content that is not older than the event.\<close>

definition own_verdict :: "gate_db \<Rightarrow> event_row \<Rightarrow> string option" where
  "own_verdict gdb e = map_option vd_verdict
     (if truthy (ev_scan_id e) then map_of (gd_verdicts gdb) (the (ev_scan_id e))
      else List.find (\<lambda>v. Some (vd_content_hash v) = ev_content_hash e \<and> ev_occurred_at e \<le> vd_issued_at v)
        (map snd (sort_key (\<lambda>(k, v). - vd_issued_at v) (gd_verdicts gdb))))"

lemma event_verdict_own:
  assumes "(s, e) \<in> set pending" "distinct (map fst (gd_verdicts gdb))"
  shows "event_verdict gdb pending e = own_verdict gdb e"
proof (cases "truthy (ev_scan_id e)")
  case True
  then obtain sid where sid: "ev_scan_id e = Some sid" "sid \<noteq> []" by (auto simp: truthy_def)
  let ?A = "awaited_scan_ids pending" and ?L = "legacy_hashes pending"
  have aw: "sid \<in> ?A" using assms(1) True sid by (force simp: awaited_scan_ids_def)
  have "filter (\<lambda>(k, v). k \<in> ?A) (verdict_rows gdb ?A ?L) =
      sort_key (\<lambda>(k, v). - vd_issued_at v) (filter (\<lambda>(k, v). k \<in> ?A) (gd_verdicts gdb))"
    unfolding verdict_rows_def filter_sort filter_filter by (rule arg_cong [of _ _ "sort_key _"]) (auto intro!: filter_cong)
  moreover have "distinct (map fst (filter (\<lambda>(k, v). k \<in> ?A) (gd_verdicts gdb)))"
    using assms(2) by (rule distinct_map_filter)
  ultimately have "map_of (filter (\<lambda>(k, v). k \<in> ?A) (verdict_rows gdb ?A ?L)) sid = map_of (gd_verdicts gdb) sid"
    using aw by (simp add: map_of_sort_key map_of_filter_key)
  then show ?thesis
    using sid True by (simp add: event_verdict_def own_verdict_def resolve_event_verdict_def Let_def
        map_of_map_value [of "\<lambda>k v. vd_verdict v", unfolded split_def] split_def)
next
  case False
  let ?A = "awaited_scan_ids pending" and ?L = "legacy_hashes pending"
  let ?P = "\<lambda>v. Some (vd_content_hash v) = ev_content_hash e \<and> ev_occurred_at e \<le> vd_issued_at v"
  have inL: "vd_content_hash v \<in> ?L" if "Some (vd_content_hash v) = ev_content_hash e" for v
  proof -
    have "(s, e) \<in> set (filter (\<lambda>(k, e). \<not> truthy (ev_scan_id e)) pending)" using assms(1) False by simp
    then have "the (ev_content_hash e) \<in> ?L" unfolding legacy_hashes_def by force
    then show ?thesis using that by (metis option.sel)
  qed
  have "filter (\<lambda>(k, v). vd_content_hash v \<in> ?L) (verdict_rows gdb ?A ?L) =
      filter (\<lambda>(k, v). vd_content_hash v \<in> ?L) (sort_key (\<lambda>(k, v). - vd_issued_at v) (gd_verdicts gdb))"
    unfolding verdict_rows_def filter_sort filter_filter by (rule arg_cong [of _ _ "sort_key _"]) (auto intro!: filter_cong)
  then have "map snd (filter (\<lambda>(k, v). vd_content_hash v \<in> ?L) (verdict_rows gdb ?A ?L)) =
      filter (\<lambda>v. vd_content_hash v \<in> ?L) (map snd (sort_key (\<lambda>(k, v). - vd_issued_at v) (gd_verdicts gdb)))"
    by (simp add: filter_map comp_def split_def)
  then have "List.find ?P (map snd (filter (\<lambda>(k, v). vd_content_hash v \<in> ?L) (verdict_rows gdb ?A ?L))) =
      List.find ?P (map snd (sort_key (\<lambda>(k, v). - vd_issued_at v) (gd_verdicts gdb)))"
    using inL by (simp only:) (rule find_filter, blast)
  then show ?thesis
    using False unfolding truthy_def
    by (cases "ev_scan_id e") (auto simp: event_verdict_def own_verdict_def resolve_event_verdict_def Let_def truthy_def)
qed


section \<open>One skill at a time\<close>

definition last_event :: "inventory_db \<Rightarrow> string \<Rightarrow> event_row option" where
  "last_event idb s = (if history idb s = [] then None else Some (last (history idb s)))"

lemma find_last_event: "List.find (\<lambda>e. ev_skill_id e = s) (rev (db_events idb)) = last_event idb s"
  by (simp add: find_rev last_event_def history_def)

lemma current_state_last: "current_state idb s = map_option ev_to_state (last_event idb s)"
  by (simp add: current_state_def find_last_event)

lemma distinct_fold_setdefault:
  "distinct (map fst m) \<Longrightarrow> distinct (map fst (fold (\<lambda>x. dict_setdefault (f x) (g x)) xs m))"
  by (induction xs arbitrary: m) (auto simp: dict_setdefault_def)

lemma latest_lookup: "map_of (latest_by_skill (db_events idb)) s = last_event idb s"
  using map_of_fold_setdefault [of ev_skill_id "\<lambda>e. e" "rev (db_events idb)" "[]" s]
  by (simp add: latest_by_skill_def find_last_event option.map_ident)

lemma distinct_latest: "distinct (map fst (latest_by_skill evs))"
  using distinct_fold_setdefault [of "[]" ev_skill_id "\<lambda>e. e" "rev evs"] by (simp add: latest_by_skill_def)

lemma distinct_pending: "distinct (map fst (pending_events evs))"
  unfolding pending_events_def using distinct_latest by (rule distinct_map_filter)

lemma pending_iff: "(s, e) \<in> set (pending_events (db_events idb)) \<longleftrightarrow>
    last_event idb s = Some e \<and> ev_to_state e \<in> WAITING_STATES \<and> truthy (ev_content_hash e)"
  using latest_lookup [of idb s] map_of_eq_Some_iff [OF distinct_latest, of "db_events idb" s e]
  by (auto simp: pending_events_def)

lemma prior_published_history: "history idb s = history idb' s \<Longrightarrow> prior_published_hash idb s = prior_published_hash idb' s"
proof -
  have "filter (\<lambda>e. ev_skill_id e = s \<and> ev_to_state e = ''published'' \<and> ev_content_hash e \<noteq> None) (db_events i) =
      filter (\<lambda>e. ev_to_state e = ''published'' \<and> ev_content_hash e \<noteq> None) (history i s)" for i
    by (simp add: history_def conj_commute conj_left_commute)
  then show "history idb s = history idb' s \<Longrightarrow> prior_published_hash idb s = prior_published_hash idb' s"
    by (simp add: prior_published_hash_def find_rev)
qed

text \<open>The event the worker writes, and the state a validated transition leaves.\<close>

definition moved :: "real \<Rightarrow> string \<Rightarrow> string option \<Rightarrow> string \<Rightarrow> string \<Rightarrow> string \<Rightarrow> string option \<Rightarrow> event_row" where
  "moved t s f to_state reason ch scan = \<lparr>ev_skill_id = s, ev_content_hash = Some ch, ev_scan_id = scan, ev_from_state = f,
     ev_to_state = to_state, ev_reason = reason, ev_actor = WORKER_OPERATOR, ev_occurred_at = t\<rparr>"

lemma transition_worker:
  assumes "current_state idb s = Some f"
  shows "transition_skill idb t s to_state reason WORKER_OPERATOR (Some ch) scan =
    (if legal_transition (Some f) to_state
     then Inr (idb\<lparr>db_events := db_events idb @ [moved t s (Some f) to_state reason ch scan],
       db_intents := db_intents idb @ [event_intent (moved t s (Some f) to_state reason ch scan)]\<rparr>)
     else Inl InvalidTransitionError)"
  using assms
  by (cases "validate_transition (Some f) to_state")
    (auto simp: transition_skill_def record_transition_def moved_def event_intent_def legal_transition_def
      dest: validate_transition_Inl)

text \<open>A baseline pinned to content that is not the skill's last published one.\<close>

definition pinned_elsewhere :: "inventory_db \<Rightarrow> string \<Rightarrow> string \<Rightarrow> bool" where
  "pinned_elsewhere idb s ch \<longleftrightarrow> (case map_of (db_baselines idb) s of None \<Rightarrow> False
     | Some b \<Rightarrow> bl_content_hash b \<noteq> ch \<and> Some (bl_content_hash b) \<noteq> prior_published_hash idb s)"

lemma advance_baseline_drift:
  "map_of (db_baselines (snd (advance_baseline_on_publish idb t s ch a))) s =
     (if pinned_elsewhere idb s ch then map_of (db_baselines idb) s
      else if map_option bl_content_hash (map_of (db_baselines idb) s) = Some ch then map_of (db_baselines idb) s
      else Some \<lparr>bl_content_hash = ch, bl_approved_at = t\<rparr>)"
  by (auto simp: advance_baseline_on_publish_def pinned_elsewhere_def set_baseline_def update_conv' Let_def
      split: option.splits)

lemma advance_keeps:
  "db_events (snd (advance_baseline_on_publish idb t s ch a)) = db_events idb"
  "s' \<noteq> s \<Longrightarrow> map_of (db_baselines (snd (advance_baseline_on_publish idb t s ch a))) s' = map_of (db_baselines idb) s'"
  by (auto simp: advance_baseline_on_publish_def set_baseline_def update_conv' Let_def)

lemma history_cong: "db_events idb = db_events idb' \<Longrightarrow> history idb s = history idb' s"
  by (simp add: history_def)

text \<open>What a tick is to write for a skill, from its last event, its baseline and its own verdict alone.\<close>

definition settled_events :: "(string \<Rightarrow> real) \<Rightarrow> string option \<Rightarrow> inventory_db \<Rightarrow> string \<Rightarrow> event_row list" where
  "settled_events now v idb s =
     (case last_event idb s of
        None \<Rightarrow> []
      | Some w \<Rightarrow>
          if ev_to_state w \<notin> WAITING_STATES \<or> \<not> truthy (ev_content_hash w) then []
          else (case Option.bind v VERDICT_TARGET_STATE of
            None \<Rightarrow> []
          | Some target \<Rightarrow>
              if target = ev_to_state w \<or> \<not> legal_transition (Some (ev_to_state w)) target then []
              else
                let ch = the (ev_content_hash w)
                in moved (now s) s (Some (ev_to_state w)) target (''verdict '' @ the v) ch
                     (if truthy (ev_scan_id w) then ev_scan_id w else None) #
                   (if target = ''published'' \<and> pinned_elsewhere idb s ch
                    then [moved (now s) s (Some ''published'') ''quarantined''
                      (drift_reason (check_drift idb s ch) ch) ch None]
                    else [])))"

lemma legal_targets:
  "legal_transition (Some ''published'') ''quarantined''" "legal_transition (Some ''scanning'') ''published''"
  "legal_transition (Some ''scanning'') ''review_pending''" "legal_transition (Some ''scanning'') ''blocked''"
  "legal_transition (Some ''review_pending'') ''published''" "\<not> legal_transition (Some ''review_pending'') ''blocked''"
  by (simp_all add: legal_Some VALID_TRANSITIONS_def)

lemma check_drift_advanced:
  assumes "db_baselines idb2 = db_baselines (snd (advance_baseline_on_publish idb t s ch a))"
  shows "dr_has_baseline (check_drift idb2 s ch) \<and> dr_drifted (check_drift idb2 s ch) \<longleftrightarrow> pinned_elsewhere idb s ch"
    and "pinned_elsewhere idb s ch \<Longrightarrow> check_drift idb2 s ch = check_drift idb s ch"
  using advance_baseline_drift [of idb t s ch a] assms
  by (auto simp: check_drift_def is_drift_def pinned_elsewhere_def Let_def split: option.splits if_splits)

lemma settle_own:
  assumes e: "last_event idb s = Some e" "ev_to_state e \<in> WAITING_STATES" "truthy (ev_content_hash e)"
  shows "\<exists>idb'. settle_skill now (s, e) v idb = (idb', settled_events now v idb s \<noteq> []) \<and>
    history idb' s = history idb s @ settled_events now v idb s \<and> (settled_events now v idb s = [] \<longrightarrow> idb' = idb)"
proof (cases "Option.bind v VERDICT_TARGET_STATE")
  case None
  then have "settled_events now v idb s = []" using e by (simp add: settled_events_def)
  moreover have "settle_skill now (s, e) v idb = (idb, False)"
    using None by (cases v) (simp_all add: settle_skill_def)
  ultimately show ?thesis by simp
next
  case (Some target)
  then obtain vd where v: "v = Some vd" "VERDICT_TARGET_STATE vd = Some target" by (cases v) simp_all
  obtain ch where ch: "ev_content_hash e = Some ch" using e(3) by (auto simp: truthy_def)
  let ?scan = "if truthy (ev_scan_id e) then ev_scan_id e else None"
  define idb1 where "idb1 = (if target = ''published''
    then snd (advance_baseline_on_publish idb (now s) s ch WORKER_OPERATOR) else idb)"
  have ev1: "db_events idb1 = db_events idb" by (simp add: idb1_def advance_keeps)
  have cs: "current_state idb1 s = Some (ev_to_state e)"
    using current_state_cong [OF ev1] by (simp add: current_state_last e(1))
  show ?thesis
  proof (cases "target = ev_to_state e \<or> \<not> legal_transition (Some (ev_to_state e)) target")
    case True
    then have "settled_events now v idb s = []" using e Some by (simp add: settled_events_def)
    moreover have "settle_skill now (s, e) v idb = (idb, False)"
      using True transition_worker [OF cs] by (auto simp: settle_skill_def v ch Let_def idb1_def)
    ultimately show ?thesis by simp
  next
    case False
    let ?m = "moved (now s) s (Some (ev_to_state e)) target (''verdict '' @ vd) ch ?scan"
    define idb2 where "idb2 = idb1\<lparr>db_events := db_events idb1 @ [?m], db_intents := db_intents idb1 @ [event_intent ?m]\<rparr>"
    have tr: "transition_skill idb1 (now s) s target (''verdict '' @ vd) WORKER_OPERATOR (Some ch) ?scan = Inr idb2"
      using transition_worker [OF cs] False by (simp add: idb2_def)
    have se: "settle_skill now (s, e) v idb =
        (if target = ''published'' then quarantine_if_drifted idb2 (now s) s ch else idb2, True)"
      using False tr by (simp add: settle_skill_def v ch Let_def idb1_def)
    have h2: "history idb2 s = history idb s @ [?m]"
      using history_cong [OF ev1] by (simp add: idb2_def history_def moved_def)
    have cs2: "current_state idb2 s = Some target" by (simp add: current_state_last last_event_def h2 moved_def)
    show ?thesis
    proof (cases "target = ''published'' \<and> pinned_elsewhere idb s ch")
      case False
      then have "target = ''published'' \<Longrightarrow> quarantine_if_drifted idb2 (now s) s ch = idb2"
        using check_drift_advanced(1) [of idb2 idb "now s" s ch WORKER_OPERATOR]
        by (auto simp: quarantine_if_drifted_def idb2_def idb1_def Let_def)
      moreover have "settled_events now v idb s = [?m]"
        using e \<open>\<not> (target = ev_to_state e \<or> \<not> legal_transition (Some (ev_to_state e)) target)\<close> Some ch False
        by (simp add: settled_events_def v(1) Let_def)
      ultimately show ?thesis using se h2 by auto
    next
      case True
      then have b2: "db_baselines idb2 = db_baselines (snd (advance_baseline_on_publish idb (now s) s ch WORKER_OPERATOR))"
        by (simp add: idb2_def idb1_def)
      let ?q = "moved (now s) s (Some ''published'') ''quarantined'' (drift_reason (check_drift idb s ch) ch) ch None"
      have "history (quarantine_if_drifted idb2 (now s) s ch) s = history idb2 s @ [?q]"
        using check_drift_advanced [OF b2] True transition_worker [of idb2 s "''published''"] cs2 legal_targets(1)
        by (simp add: quarantine_if_drifted_def Let_def) (simp add: history_def moved_def)
      moreover have "settled_events now v idb s = [?m, ?q]"
        using e \<open>\<not> (target = ev_to_state e \<or> \<not> legal_transition (Some (ev_to_state e)) target)\<close> Some ch True
        by (simp add: settled_events_def v(1) Let_def)
      ultimately show ?thesis using se h2 True by auto
    qed
  qed
qed

text \<open>The others are not touched.\<close>

definition same_skill :: "string \<Rightarrow> inventory_db \<Rightarrow> inventory_db \<Rightarrow> bool" where
  "same_skill s idb idb' \<longleftrightarrow> history idb s = history idb' s \<and> map_of (db_baselines idb) s = map_of (db_baselines idb') s"

lemma transition_other:
  assumes "transition_skill idb t s to_state reason actor ch scan = Inr idb'" "s' \<noteq> s"
  shows "same_skill s' idb idb'"
  using assms(1)
proof (rule transition_skill_InrE)
  fix e assume "record_transition idb e = Inr idb'" "ev_skill_id e = s"
  then show "same_skill s' idb idb'" using assms(2) record_transition_Inr [of idb e idb'] by (simp add: same_skill_def history_def)
qed

lemma quarantine_other: "s' \<noteq> s \<Longrightarrow> same_skill s' idb (quarantine_if_drifted idb t s ch)"
  using transition_other by (auto simp: quarantine_if_drifted_def Let_def same_skill_def split: sum.splits)

lemma same_skill_refl [simp]: "same_skill s idb idb"
  by (simp add: same_skill_def)

lemma same_skill_trans: "same_skill s a b \<Longrightarrow> same_skill s b c \<Longrightarrow> same_skill s a c"
  by (simp add: same_skill_def)

lemma advance_other: "s' \<noteq> s \<Longrightarrow> same_skill s' idb (snd (advance_baseline_on_publish idb t s ch a))"
  by (simp add: same_skill_def advance_keeps history_def)

lemma settle_other:
  assumes "settle_skill now (s, e) v idb = (idb', b)" "s' \<noteq> s"
  shows "same_skill s' idb idb'"
proof -
  note tr = transition_other [OF _ assms(2)] and qu = quarantine_other [OF assms(2)]
  note chain = same_skill_trans [OF advance_other [OF assms(2)] tr]
  show ?thesis
    using assms(1)
    by (auto simp: settle_skill_def Let_def split: option.splits if_splits sum.splits
        intro: tr chain same_skill_trans [OF chain qu])
qed

section \<open>The whole tick\<close>

lemma settled_same:
  assumes "same_skill s idb idb'"
  shows "settled_events now v idb s = settled_events now v idb' s"
proof -
  have "last_event idb s = last_event idb' s" "pinned_elsewhere idb s = pinned_elsewhere idb' s"
    "check_drift idb s = check_drift idb' s"
    using assms prior_published_history [of idb s idb']
    by (auto simp: fun_eq_iff same_skill_def last_event_def pinned_elsewhere_def check_drift_def split: option.splits)
  note eqs = this
  show ?thesis unfolding settled_events_def eqs ..
qed

lemma fold_settle:
  assumes "distinct (map fst xs)" "fold (settle_step gdb P now) xs (idb, n) = (idb', n')"
    and "\<And>s e. (s, e) \<in> set xs \<Longrightarrow> last_event idb s = Some e \<and> ev_to_state e \<in> WAITING_STATES \<and> truthy (ev_content_hash e)"
  shows "(\<forall>s. s \<notin> fst ` set xs \<longrightarrow> same_skill s idb idb') \<and>
    (\<forall>(s, e) \<in> set xs. history idb' s = history idb s @ settled_events now (event_verdict gdb P e) idb s) \<and>
    n' = n + length (filter (\<lambda>(s, e). settled_events now (event_verdict gdb P e) idb s \<noteq> []) xs) \<and>
    ((\<forall>(s, e) \<in> set xs. settled_events now (event_verdict gdb P e) idb s = []) \<longrightarrow> idb' = idb)"
  using assms
proof (induction xs arbitrary: idb n)
  case Nil
  then show ?case by simp
next
  case (Cons x xs)
  obtain s e where x: "x = (s, e)" by (cases x)
  let ?v = "\<lambda>e. event_verdict gdb P e"
  have le: "last_event idb s = Some e" "ev_to_state e \<in> WAITING_STATES" "truthy (ev_content_hash e)"
    using Cons.prems(3) x by auto
  obtain idb1 where 1: "settle_skill now (s, e) (?v e) idb = (idb1, settled_events now (?v e) idb s \<noteq> [])"
    "history idb1 s = history idb s @ settled_events now (?v e) idb s" "settled_events now (?v e) idb s = [] \<longrightarrow> idb1 = idb"
    using settle_own [OF le, of now "?v e"] by (elim exE conjE)
  let ?n = "if settled_events now (?v e) idb s \<noteq> [] then Suc n else n"
  have "settle_step gdb P now x (idb, n) = (idb1, ?n)" using 1(1) by (simp add: x settle_step_def)
  then have rest: "fold (settle_step gdb P now) xs (idb1, ?n) = (idb', n')" using Cons.prems(2) by simp
  have new: "s \<notin> fst ` set xs" "distinct (map fst xs)" using Cons.prems(1) x by auto
  have same: "same_skill s' idb idb1" if "s' \<noteq> s" for s' by (rule settle_other [OF 1(1) that])
  have neq: "s' \<noteq> s" if "(s', e') \<in> set xs" for s' e' using that new(1) by force
  have "last_event idb1 s' = Some e' \<and> ev_to_state e' \<in> WAITING_STATES \<and> truthy (ev_content_hash e')"
    if "(s', e') \<in> set xs" for s' e'
    using Cons.prems(3) [of s' e'] that same [OF neq [OF that]]
    by (auto simp: same_skill_def last_event_def split: if_splits)
  note IH = Cons.IH [OF new(2) rest this]
  have se: "settled_events now v idb1 s' = settled_events now v idb s'" if "(s', e') \<in> set xs" for s' e' v
    using settled_same [OF same [OF neq [OF that]]] by simp
  have hist: "history idb' s = history idb1 s" using IH new(1) by (simp add: same_skill_def)
  show ?case
  proof (intro conjI)
    show "\<forall>s'. s' \<notin> fst ` set (x # xs) \<longrightarrow> same_skill s' idb idb'"
      using same_skill_trans [OF same] conjunct1 [OF IH] by (auto simp: x)
    show "\<forall>(s', e') \<in> set (x # xs). history idb' s' = history idb s' @ settled_events now (?v e') idb s'"
    proof safe
      fix s' e' assume "(s', e') \<in> set (x # xs)"
      then consider "s' = s" "e' = e" | "(s', e') \<in> set xs" by (auto simp: x)
      then show "history idb' s' = history idb s' @ settled_events now (?v e') idb s'"
      proof cases
        case 1
        then show ?thesis using hist \<open>history idb1 s = _\<close> by simp
      next
        case 2
        then have "history idb' s' = history idb1 s' @ settled_events now (?v e') idb1 s'" using IH by blast
        then show ?thesis using se [OF 2] same [OF neq [OF 2]] by (simp add: same_skill_def)
      qed
    qed
    have "filter (\<lambda>(s, e). settled_events now (?v e) idb1 s \<noteq> []) xs = filter (\<lambda>(s, e). settled_events now (?v e) idb s \<noteq> []) xs"
      using se by (auto intro!: filter_cong)
    then show "n' = n + length (filter (\<lambda>(s, e). settled_events now (?v e) idb s \<noteq> []) (x # xs))"
      using IH by (simp add: x)
    show "(\<forall>(s, e) \<in> set (x # xs). settled_events now (?v e) idb s = []) \<longrightarrow> idb' = idb"
      using IH 1(3) by (auto simp: x)
  qed
qed

lemma sync_tick_spec:
  assumes "distinct (map fst (gd_verdicts gdb))" "sync_lifecycle_tick gdb now idb = (idb', n)"
  defines "P \<equiv> pending_events (db_events idb)"
  shows "history idb' s = history idb s @ (case last_event idb s of None \<Rightarrow> [] | Some w \<Rightarrow> settled_events now (own_verdict gdb w) idb s)"
    and "n = length (filter (\<lambda>(s, e). settled_events now (own_verdict gdb e) idb s \<noteq> []) P)"
    and "\<forall>(s, e) \<in> set P. settled_events now (own_verdict gdb e) idb s = [] \<Longrightarrow> idb' = idb"
proof -
  have f: "fold (settle_step gdb P now) P (idb, 0) = (idb', n)"
    using assms(2) by (simp add: sync_lifecycle_tick_def P_def Let_def)
  have pend: "(s, e) \<in> set P \<longleftrightarrow> last_event idb s = Some e \<and> ev_to_state e \<in> WAITING_STATES \<and> truthy (ev_content_hash e)" for s e
    by (simp add: P_def pending_iff)
  have own: "event_verdict gdb P e = own_verdict gdb e" if "(s, e) \<in> set P" for s e
    using event_verdict_own [OF that assms(1)] .
  note F = fold_settle [OF distinct_pending [of "db_events idb", folded P_def] f]
  show "history idb' s = history idb s @ (case last_event idb s of None \<Rightarrow> [] | Some w \<Rightarrow> settled_events now (own_verdict gdb w) idb s)"
  proof (cases "s \<in> fst ` set P")
    case True
    then obtain e where e: "(s, e) \<in> set P" by force
    have "history idb' s = history idb s @ settled_events now (event_verdict gdb P e) idb s" using F pend e by blast
    then show ?thesis using e pend own [OF e] by simp
  next
    case False
    then have "history idb' s = history idb s" using F pend by (simp add: same_skill_def)
    moreover have "settled_events now v idb s = []" for v
    proof (cases "last_event idb s")
      case (Some w)
      then have "\<not> (ev_to_state w \<in> WAITING_STATES \<and> truthy (ev_content_hash w))"
        using False pend [of s w] by force
      then show ?thesis using Some by (simp add: settled_events_def)
    qed (simp add: settled_events_def)
    ultimately show ?thesis by (simp split: option.splits)
  qed
  have "filter (\<lambda>(s, e). settled_events now (event_verdict gdb P e) idb s \<noteq> []) P =
      filter (\<lambda>(s, e). settled_events now (own_verdict gdb e) idb s \<noteq> []) P"
    using own by (auto intro!: filter_cong)
  then show "n = length (filter (\<lambda>(s, e). settled_events now (own_verdict gdb e) idb s \<noteq> []) P)"
    using F pend by (metis (no_types, lifting) add_0)
  show "idb' = idb" if "\<forall>(s, e) \<in> set P. settled_events now (own_verdict gdb e) idb s = []"
  proof -
    have "\<forall>(s, e) \<in> set P. settled_events now (event_verdict gdb P e) idb s = []" using that own by fastforce
    then show ?thesis using F pend by blast
  qed
qed

lemma find_newest:
  fixes k :: "'v \<Rightarrow> real"
  assumes "sorted (map (\<lambda>v. - k v) xs)"
  shows "List.find (\<lambda>v. H v \<and> t \<le> k v) xs =
    (case List.find H xs of None \<Rightarrow> None | Some v \<Rightarrow> if t \<le> k v then Some v else None)"
  using assms
proof (induction xs)
  case (Cons x xs)
  show ?case
  proof (cases "H x \<and> \<not> t \<le> k x")
    case True
    have "\<not> t \<le> k v" if "v \<in> set xs" for v using Cons.prems that True by fastforce
    then have "List.find (\<lambda>v. H v \<and> t \<le> k v) xs = None" by (simp add: find_None_iff)
    then show ?thesis using True by simp
  qed (use Cons in auto)
qed simp

text \<open>An event that carries the scan and the content of another one waits for the same verdict, or for none.\<close>

lemma own_verdict_forwarded:
  assumes "ev_content_hash e = ev_content_hash w" "ev_scan_id e = (if truthy (ev_scan_id w) then ev_scan_id w else None)"
    and "own_verdict gdb w = Some v"
  shows "own_verdict gdb e \<in> {None, Some v}"
proof (cases "truthy (ev_scan_id w)")
  case True
  then show ?thesis using assms by (simp add: own_verdict_def)
next
  case False
  let ?L = "map snd (sort_key (\<lambda>(k, v). - vd_issued_at v) (gd_verdicts gdb))"
  have "map (\<lambda>v. - vd_issued_at v) ?L = map (\<lambda>(k, v). - vd_issued_at v) (sort_key (\<lambda>(k, v). - vd_issued_at v) (gd_verdicts gdb))"
    by (simp add: comp_def split_def)
  then have "sorted (map (\<lambda>v. - vd_issued_at v) ?L)" by (simp only: sorted_sort_key)
  note f = find_newest [OF this]
  have "\<not> truthy (ev_scan_id e)" using False assms(2) by (auto simp: truthy_def)
  then show ?thesis
    using assms(1,3) False unfolding own_verdict_def
    by (auto simp: f split: option.splits if_splits)
qed

lemma settled_empty_iff:
  assumes "last_event idb s = Some w" "ev_to_state w \<in> WAITING_STATES" "truthy (ev_content_hash w)"
  shows "settled_events now v idb s = [] \<longleftrightarrow> (case Option.bind v VERDICT_TARGET_STATE of None \<Rightarrow> True
    | Some t \<Rightarrow> t = ev_to_state w \<or> \<not> legal_transition (Some (ev_to_state w)) t)"
  using assms by (simp add: settled_events_def Let_def split: option.splits)

lemma verdict_targets:
  "VERDICT_TARGET_STATE v = Some t \<longleftrightarrow>
     v = ''PASS'' \<and> t = ''published'' \<or> v = ''REVIEW'' \<and> t = ''review_pending'' \<or> v = ''BLOCK'' \<and> t = ''blocked''"
  by (auto simp: VERDICT_TARGET_STATE_def)

lemma settledE:
  assumes "settled_events now v idb s = x # xs"
  obtains w vd t where "last_event idb s = Some w" "ev_to_state w \<in> WAITING_STATES" "truthy (ev_content_hash w)" "v = Some vd"
    "VERDICT_TARGET_STATE vd = Some t" "t \<noteq> ev_to_state w" "legal_transition (Some (ev_to_state w)) t"
    "x = moved (now s) s (Some (ev_to_state w)) t (''verdict '' @ vd) (the (ev_content_hash w))
       (if truthy (ev_scan_id w) then ev_scan_id w else None)"
    "xs = (if t = ''published'' \<and> pinned_elsewhere idb s (the (ev_content_hash w))
      then [moved (now s) s (Some ''published'') ''quarantined'' (drift_reason (check_drift idb s (the (ev_content_hash w)))
        (the (ev_content_hash w))) (the (ev_content_hash w)) None] else [])"
proof -
  obtain w where w: "last_event idb s = Some w" using assms by (cases "last_event idb s") (simp_all add: settled_events_def)
  note s = assms [unfolded settled_events_def w option.case]
  have wt: "ev_to_state w \<in> WAITING_STATES" "truthy (ev_content_hash w)" using s by (auto split: if_splits)
  obtain vd t where v: "v = Some vd" "VERDICT_TARGET_STATE vd = Some t"
    using s wt by (cases v; cases "Option.bind v VERDICT_TARGET_STATE") auto
  have "t \<noteq> ev_to_state w" "legal_transition (Some (ev_to_state w)) t" using s wt v by (auto split: if_splits)
  then show thesis using that [OF w wt v] s wt v by (simp add: Let_def)
qed

section \<open>Properties\<close>


text \<open>Note: A tick settles everything it can. A scanning skill whose verdict is known leaves that state in one
  tick; and a second tick over the same verdicts, at any later time, changes nothing and counts
  nothing, so that running the tick every second is harmless.\<close>

theorem sync_tick_settles:
  assumes "distinct (map fst (gd_verdicts gdb))" "sync_lifecycle_tick gdb now idb = (idb', n)"
  shows "(\<forall>s w v. last_event idb s = Some w \<and> ev_to_state w = ''scanning'' \<and> truthy (ev_content_hash w) \<and>
      own_verdict gdb w = Some v \<and> v \<in> {''PASS'', ''REVIEW'', ''BLOCK''} \<longrightarrow>
      current_state idb' s \<in> {VERDICT_TARGET_STATE v, Some ''quarantined''}) \<and>
    sync_lifecycle_tick gdb now' idb' = (idb', 0)"
proof (intro conjI allI impI)
  fix s w v
  assume a: "last_event idb s = Some w \<and> ev_to_state w = ''scanning'' \<and> truthy (ev_content_hash w) \<and>
      own_verdict gdb w = Some v \<and> v \<in> {''PASS'', ''REVIEW'', ''BLOCK''}"
  then obtain t where t: "VERDICT_TARGET_STATE v = Some t" "t \<noteq> ''scanning''" "legal_transition (Some ''scanning'') t"
    using legal_targets by (auto simp: VERDICT_TARGET_STATE_def)
  then have "settled_events now (Some v) idb s \<noteq> []"
    using a settled_empty_iff [of idb s w now "Some v"] by (simp add: WAITING_STATES_def)
  then obtain x xs where x: "settled_events now (Some v) idb s = x # xs" by (cases "settled_events now (Some v) idb s") auto
  then have "ev_to_state (last (x # xs)) \<in> {t, ''quarantined''}"
    using t(1) by (elim settledE) (auto simp: moved_def)
  then have "current_state idb' s \<in> {Some t, Some ''quarantined''}"
    using sync_tick_spec(1) [OF assms, of s] a x by (auto simp: current_state_last last_event_def)
  then show "current_state idb' s \<in> {VERDICT_TARGET_STATE v, Some ''quarantined''}" by (simp add: t(1))
next
  obtain idb2 m where 2: "sync_lifecycle_tick gdb now' idb' = (idb2, m)" by fastforce
  have none: "settled_events now' (own_verdict gdb e) idb' s = []" if se: "(s, e) \<in> set (pending_events (db_events idb'))" for s e
  proof -
    have e: "last_event idb' s = Some e" "ev_to_state e \<in> WAITING_STATES" "truthy (ev_content_hash e)"
      using se unfolding pending_iff by simp_all
    let ?new = "case last_event idb s of None \<Rightarrow> [] | Some w \<Rightarrow> settled_events now (own_verdict gdb w) idb s"
    have h: "history idb' s = history idb s @ ?new" by (rule sync_tick_spec(1) [OF assms])
    show ?thesis
    proof (cases ?new)
      case Nil
      then have le: "last_event idb s = Some e" using e(1) h by (simp add: last_event_def split: if_splits)
      then have "settled_events now (own_verdict gdb e) idb s = []" using Nil by simp
      then show ?thesis using settled_empty_iff [OF e] settled_empty_iff [OF le e(2,3)] by simp
    next
      case (Cons x xs)
      then obtain w where w: "last_event idb s = Some w" "settled_events now (own_verdict gdb w) idb s = x # xs"
        by (cases "last_event idb s") simp_all
      obtain w' v t where s: "last_event idb s = Some w'" "truthy (ev_content_hash w')"
        "own_verdict gdb w = Some v" "VERDICT_TARGET_STATE v = Some t"
        "x = moved (now s) s (Some (ev_to_state w')) t (''verdict '' @ v) (the (ev_content_hash w'))
           (if truthy (ev_scan_id w') then ev_scan_id w' else None)"
        "xs = [] \<or> (\<exists>q. xs = [q] \<and> ev_to_state q = ''quarantined'')"
        using w(2) by (elim settledE) (simp add: moved_def)
      have w': "w' = w" using s(1) w(1) by simp
      have "last (x # xs) = e" using h Cons e(1) by (simp add: last_event_def)
      then have ex: "e = x" using s(6) e(2) by (auto simp: WAITING_STATES_def)
      then have "t = ''review_pending'' \<and> ev_to_state e = t"
        using s(4,5) e(2) unfolding verdict_targets by (auto simp: moved_def WAITING_STATES_def)
      moreover have "own_verdict gdb e \<in> {None, Some v}"
        by (rule own_verdict_forwarded [of _ w]) (use ex s w' in \<open>auto simp: moved_def truthy_def\<close>)
      ultimately show ?thesis using settled_empty_iff [OF e] s(4) by auto
    qed
  qed
  then have "idb2 = idb'" using sync_tick_spec(3) [OF assms(1) 2] by blast
  moreover have "filter (\<lambda>(s, e). settled_events now' (own_verdict gdb e) idb' s \<noteq> []) (pending_events (db_events idb')) = []"
    using none by (auto simp: filter_empty_conv)
  then have "m = 0" using sync_tick_spec(2) [OF assms(1) 2] by simp
  ultimately show "sync_lifecycle_tick gdb now' idb' = (idb', 0)" using 2 by simp
qed

text \<open>C15: A rejected review never reaches the inventory. The worker maps the BLOCK of a rejected review to
  the state blocked, but the lifecycle has no edge from review pending to blocked: the transition is
  refused in every tick, and the skill stays in review pending, however often the tick runs.\<close>

theorem rejected_review_never_blocks:
  assumes "distinct (map fst (gd_verdicts gdb))"
    and "last_event idb s = Some w" "ev_to_state w = ''review_pending''" "own_verdict gdb w = Some ''BLOCK''"
  shows "VERDICT_TARGET_STATE ''BLOCK'' = Some ''blocked'' \<and>
    current_state (((\<lambda>i. fst (sync_lifecycle_tick gdb now i)) ^^ k) idb) s = Some ''review_pending''"
proof -
  let ?tick = "\<lambda>i. fst (sync_lifecycle_tick gdb now i)"
  have step: "last_event (?tick i) s = Some w" if "last_event i s = Some w" for i
  proof -
    obtain i' n where i': "sync_lifecycle_tick gdb now i = (i', n)" by fastforce
    have "settled_events now (own_verdict gdb w) i s = []"
      using legal_targets(6) that assms(3,4) by (simp add: settled_events_def VERDICT_TARGET_STATE_def)
    then have "history i' s = history i s" using sync_tick_spec(1) [OF assms(1) i', of s] that by simp
    then show ?thesis using that i' by (simp add: last_event_def split: if_splits)
  qed
  have "last_event ((?tick ^^ k) idb) s = Some w" using assms(2) step by (induction k) simp_all
  then show ?thesis using assms(3) by (simp add: current_state_last VERDICT_TARGET_STATE_def)
qed

section \<open>Witnesses\<close>

text \<open>A skill that is published by scan \<open>s1\<close> and then submitted again under scan \<open>s2\<close>.\<close>

definition demo_scanning :: "inventory_db res" where
  "demo_scanning =
     res_bind (register_skill_version empty_inventory 0 ''k'' ''git'' ''public'' ''c1'' ''t1'' PNone ''alice'' False None) (\<lambda>d.
     transition_skill d 1 ''k'' ''scanning'' ''scan'' ''alice'' (Some ''c1'') (Some ''s1''))"

definition demo_resubmitted :: "inventory_db \<Rightarrow> inventory_db res" where
  "demo_resubmitted d0 =
     res_bind (transition_skill d0 2 ''k'' ''published'' ''verdict PASS'' WORKER_OPERATOR (Some ''c1'') (Some ''s1'')) (\<lambda>d1.
     res_bind (register_skill_version d1 3 ''k'' ''git'' ''public'' ''c1'' ''t2'' PNone ''alice'' False None) (\<lambda>d2.
     transition_skill d2 4 ''k'' ''scanning'' ''scan'' ''alice'' (Some ''c1'') (Some ''s2'')))"

lemmas demo_run_simps = register_skill_version_def empty_inventory_def current_state_def record_transition_def
  validate_transition_def ALL_STATES_def VALID_TRANSITIONS_def transition_skill_def authorize_skill_write_def raise_if_def Let_def

definition waiting_event :: "real \<Rightarrow> string \<Rightarrow> event_row" where
  "waiting_event t scan = \<lparr>ev_skill_id = ''k'', ev_content_hash = Some ''c1'', ev_scan_id = Some scan,
     ev_from_state = Some ''submitted'', ev_to_state = ''scanning'', ev_reason = ''scan'', ev_actor = ''alice'', ev_occurred_at = t\<rparr>"

definition pass_gate :: gate_db where
  "pass_gate = empty_gate\<lparr>gd_verdicts := [(''s1'', \<lparr>vd_content_hash = ''c1'', vd_verdict = ''PASS'', vd_policy_version = ''v1'',
     vd_jti = ''j'', vd_jws_signature = ''w'', vd_effective_severity = 0, vd_score = 100, vd_reasons = [],
     vd_fail_closed = False, vd_issued_at = 2\<rparr>)]\<rparr>"

lemma demo_d0:
  obtains d0 where "demo_scanning = Inr d0" "inventory_reachable d0" "last_event d0 ''k'' = Some (waiting_event 1 ''s1'')"
    "db_baselines d0 = []"
proof -
  obtain d where d: "register_skill_version empty_inventory 0 ''k'' ''git'' ''public'' ''c1'' ''t1'' PNone ''alice'' False None = Inr d"
    by (simp add: demo_run_simps)
  obtain d0 where d0: "transition_skill d 1 ''k'' ''scanning'' ''scan'' ''alice'' (Some ''c1'') (Some ''s1'') = Inr d0"
    "last_event d0 ''k'' = Some (waiting_event 1 ''s1'')" "db_baselines d0 = []"
    using d by (auto simp: demo_run_simps last_event_def history_def waiting_event_def)
  have "inventory_step empty_inventory d" "inventory_step d d0"
    by (rule step_register, rule d) (rule step_transition, rule d0)
  then have "inventory_reachable d0" by (meson converse_rtranclp_into_rtranclp rtranclp.rtrancl_refl)
  then show thesis using that d d0 by (simp add: demo_scanning_def)
qed

lemma pass_gate_facts: "distinct (map fst (gd_verdicts pass_gate))" "own_verdict pass_gate (waiting_event t ''s1'') = Some ''PASS''"
  "own_verdict pass_gate (waiting_event t ''s2'') = None"
  by (simp_all add: pass_gate_def own_verdict_def waiting_event_def truthy_def)


theorem sync_tick_settles_witness:
  "\<exists>d0 d1 n. demo_scanning = Inr d0 \<and> sync_lifecycle_tick pass_gate (\<lambda>_. 5) d0 = (d1, n) \<and>
     current_state d1 ''k'' \<in> {Some ''published'', Some ''quarantined''} \<and> sync_lifecycle_tick pass_gate (\<lambda>_. 6) d1 = (d1, 0)"
proof -
  obtain d0 where d0: "demo_scanning = Inr d0" "last_event d0 ''k'' = Some (waiting_event 1 ''s1'')" by (rule demo_d0)
  obtain d1 n where t: "sync_lifecycle_tick pass_gate (\<lambda>_. 5) d0 = (d1, n)" by fastforce
  note s = sync_tick_settles [OF pass_gate_facts(1) t, of "\<lambda>_. 6"]
  have "current_state d1 ''k'' \<in> {VERDICT_TARGET_STATE ''PASS'', Some ''quarantined''}"
    by (rule conjunct1 [OF s, rule_format, of _ "waiting_event 1 ''s1''"])
      (use d0(2) pass_gate_facts(2) in \<open>simp add: waiting_event_def truthy_def\<close>)
  then have "current_state d1 ''k'' \<in> {Some ''published'', Some ''quarantined''}" by (simp add: VERDICT_TARGET_STATE_def)
  then show ?thesis using d0(1) t conjunct2 [OF s] by (intro exI conjI)
qed

definition block_gate :: gate_db where
  "block_gate = pass_gate\<lparr>gd_verdicts := map (\<lambda>(k, v). (k, v\<lparr>vd_verdict := ''BLOCK''\<rparr>)) (gd_verdicts pass_gate)\<rparr>"

theorem rejected_review_never_blocks_witness:
  "\<exists>d1. current_state d1 ''k'' = Some ''review_pending'' \<and>
     current_state (((\<lambda>i. fst (sync_lifecycle_tick block_gate (\<lambda>_. 9) i)) ^^ 3) d1) ''k'' = Some ''review_pending''"
proof -
  obtain d0 where d0: "demo_scanning = Inr d0" "last_event d0 ''k'' = Some (waiting_event 1 ''s1'')" by (rule demo_d0)
  let ?m = "moved 2 ''k'' (Some ''scanning'') ''review_pending'' ''verdict REVIEW'' ''c1'' (Some ''s1'')"
  define d1 where "d1 = d0\<lparr>db_events := db_events d0 @ [?m]\<rparr>"
  have l: "last_event d1 ''k'' = Some ?m" by (simp add: d1_def last_event_def history_def moved_def)
  have w: "ev_to_state ?m = ''review_pending''" "own_verdict block_gate ?m = Some ''BLOCK''"
    "distinct (map fst (gd_verdicts block_gate))"
    by (simp_all add: moved_def own_verdict_def block_gate_def pass_gate_def truthy_def)
  have "current_state d1 ''k'' = Some ''review_pending''" by (simp add: current_state_last l w(1))
  then show ?thesis
    using conjunct2 [OF rejected_review_never_blocks [OF w(3) l w(1,2), where now = "\<lambda>_. 9" and k = 3]] by (intro exI [of _ d1] conjI)
qed

text \<open>Note: What a stale read can do. The transaction that settles a skill checks that the transition is legal
  from the current state, but not that the current event is still the one it read. Two workers read a
  scanning skill whose scan \<open>s1\<close> passed; the first publishes it; its owner submits it again and
  scan \<open>s2\<close> starts; then the second worker's transaction publishes the skill on the verdict of
  \<open>s1\<close>, although \<open>s2\<close>, the scan the skill now waits for, has no verdict.\<close>

theorem stale_read_publishes_running_scan:
  "\<exists>d0 d1 d2. demo_scanning = Inr d0 \<and> demo_resubmitted d0 = Inr d1 \<and> inventory_reachable d1 \<and>
     (''k'', waiting_event 1 ''s1'') \<in> set (pending_events (db_events d0)) \<and>
     last_event d1 ''k'' = Some (waiting_event 4 ''s2'') \<and> map_of (gd_verdicts pass_gate) ''s2'' = None \<and>
     settle_skill (\<lambda>_. 5) (''k'', waiting_event 1 ''s1'')
       (event_verdict pass_gate (pending_events (db_events d0)) (waiting_event 1 ''s1'')) d1 = (d2, True) \<and>
     current_state d2 ''k'' = Some ''published''"
proof -
  obtain d0 where d0: "demo_scanning = Inr d0" "inventory_reachable d0" "last_event d0 ''k'' = Some (waiting_event 1 ''s1'')"
    by (rule demo_d0)
  have pend: "(''k'', waiting_event 1 ''s1'') \<in> set (pending_events (db_events d0))"
    by (simp add: pending_iff d0(3)) (simp add: waiting_event_def WAITING_STATES_def truthy_def)
  have ver: "event_verdict pass_gate (pending_events (db_events d0)) (waiting_event 1 ''s1'') = Some ''PASS''"
    using event_verdict_own [OF pend pass_gate_facts(1)] pass_gate_facts(2) by simp
  obtain d1 where d1: "demo_resubmitted d0 = Inr d1" "last_event d1 ''k'' = Some (waiting_event 4 ''s2'')" "db_baselines d1 = []"
    using d0(1) by (auto simp: demo_scanning_def demo_resubmitted_def demo_run_simps last_event_def history_def
        waiting_event_def WORKER_OPERATOR_def)
  have reach: "inventory_reachable d1"
    using d1(1) d0(2) unfolding demo_resubmitted_def res_bind_eq_Inr
    by (meson step_transition step_register rtranclp.rtrancl_into_rtrancl)
  let ?w = "waiting_event 1 ''s1''"
  define i1 where "i1 = snd (advance_baseline_on_publish d1 5 ''k'' ''c1'' WORKER_OPERATOR)"
  have cs: "current_state i1 ''k'' = Some ''scanning''"
    using current_state_cong [of i1 d1] d1(2) by (simp add: i1_def advance_keeps current_state_last waiting_event_def)
  let ?m = "moved 5 ''k'' (Some ''scanning'') ''published'' ''verdict PASS'' ''c1'' (Some ''s1'')"
  define i2 where "i2 = i1\<lparr>db_events := db_events i1 @ [?m], db_intents := db_intents i1 @ [event_intent ?m]\<rparr>"
  have tr: "transition_skill i1 5 ''k'' ''published'' ''verdict PASS'' WORKER_OPERATOR (Some ''c1'') (Some ''s1'') = Inr i2"
    unfolding transition_worker [OF cs] if_P [OF legal_targets(2)] i2_def ..
  have "\<not> pinned_elsewhere d1 ''k'' ''c1''" by (simp add: pinned_elsewhere_def d1(3))
  then have q: "quarantine_if_drifted i2 5 ''k'' ''c1'' = i2"
    using check_drift_advanced(1) [of i2 d1 5 "''k''" "''c1''" WORKER_OPERATOR]
    by (auto simp: quarantine_if_drifted_def i2_def i1_def Let_def)
  have "settle_skill (\<lambda>_. 5) (''k'', ?w) (Some ''PASS'') d1 = (i2, True)"
    by (simp add: settle_skill_def waiting_event_def VERDICT_TARGET_STATE_def truthy_def Let_def tr q flip: i1_def)
  moreover have "current_state i2 ''k'' = Some ''published''"
    by (simp add: current_state_last last_event_def history_def i2_def moved_def)
  moreover have "map_of (gd_verdicts pass_gate) ''s2'' = None" by (simp add: pass_gate_def)
  ultimately show ?thesis
    by (intro exI conjI) (rule d0(1), rule d1(1), rule reach, rule pend, rule d1(2), assumption, simp only: ver, assumption)
qed

end
