(* ===== verification/Audit_Chain.thy ===== *)
theory Audit_Chain
  imports Inventory_Service
begin

text \<open>
  The audit ledger (\<open>audit/service.py\<close>, \<open>audit/models.py\<close>): draining the intents that the modules write in
  their own transactions into a hash chain, and verifying it. SHA-256 and the canonical JSON text are
  parameters; nothing is assumed of the text, and of the hash only what a theorem names. What a locking read
  returns is an argument: MySQL may hand a waiting transaction a row that is no longer the last.
\<close>

section \<open>Tables\<close>

record audit_entry =
  ae_prev_hash :: string
  ae_entry_hash :: string
  ae_operator :: string
  ae_action :: string
  ae_payload :: "(string \<times> pyval) list"
  ae_chained_at :: real

text \<open>Both tables are autoincrement: the id of a row is its position. An intent carries its
  \<open>chained\<close> flag.\<close>

record audit_db =
  ad_intents :: "(intent_row \<times> bool) list"
  ad_entries :: "audit_entry list"

definition GENESIS_HASH :: string where
  "GENESIS_HASH = replicate 64 (CHR ''0'')"

definition MAX_APPEND_RETRIES :: nat where
  "MAX_APPEND_RETRIES = 50"

text \<open>The digest and the JSON text of the three fields that are hashed.\<close>

record hashing =
  hs_sha256 :: "string \<Rightarrow> string"
  hs_canonical_json :: "(string \<times> pyval) list \<Rightarrow> string"

definition canonical_text :: "hashing \<Rightarrow> string \<Rightarrow> string \<Rightarrow> (string \<times> pyval) list \<Rightarrow> string" where
  "canonical_text h operator action payload = hs_canonical_json h
     [(''operator'', PStr operator), (''action'', PStr action), (''payload'', PDict (map (\<lambda>(k, v). (PStr k, v)) payload))]"

definition compute_entry_hash :: "hashing \<Rightarrow> string \<Rightarrow> string \<Rightarrow> string \<Rightarrow> (string \<times> pyval) list \<Rightarrow> string" where
  "compute_entry_hash h prev_hash operator action payload = hs_sha256 h (prev_hash @ canonical_text h operator action payload)"

section \<open>Appending\<close>

record chained_entry =
  ce_seq :: nat
  ce_prev_hash :: string
  ce_entry_hash :: string

text \<open>\<open>tail\<close> is the row the locking read returned, with its position.\<close>

definition append_one_intent ::
  "hashing \<Rightarrow> real \<Rightarrow> (nat \<times> audit_entry) option \<Rightarrow> nat \<Rightarrow> intent_row \<Rightarrow> audit_db \<Rightarrow> (chained_entry \<times> audit_db) res" where
  "append_one_intent h now tail intent_id intent db =
     (let prev_hash = (case tail of None \<Rightarrow> GENESIS_HASH | Some (seq, t) \<Rightarrow> ae_entry_hash t)
      in if (case tail of None \<Rightarrow> False | Some (seq, t) \<Rightarrow> seq + 1 < length (ad_entries db)) then Inl StaleTailDetected
         else
           let entry_hash = compute_entry_hash h prev_hash (ai_operator intent) (ai_action intent) (ai_payload intent);
               entry = \<lparr>ae_prev_hash = prev_hash, ae_entry_hash = entry_hash, ae_operator = ai_operator intent,
                 ae_action = ai_action intent, ae_payload = ai_payload intent, ae_chained_at = now\<rparr>
           in Inr (\<lparr>ce_seq = length (ad_entries db), ce_prev_hash = prev_hash, ce_entry_hash = entry_hash\<rparr>,
                db\<lparr>ad_entries := ad_entries db @ [entry], ad_intents := (ad_intents db)[intent_id := (intent, True)]\<rparr>))"

text \<open>The first unchained intent that no other transaction holds (\<open>FOR UPDATE SKIP LOCKED\<close>).\<close>

definition claim_pending :: "nat set \<Rightarrow> audit_db \<Rightarrow> (nat \<times> intent_row) option" where
  "claim_pending held db =
     map_option (\<lambda>(i, r). (i, fst r)) (List.find (\<lambda>(i, r). \<not> snd r \<and> i \<notin> held)
       (zip [0..<length (ad_intents db)] (ad_intents db)))"

text \<open>What one attempt meets: a database error (a transient one or another), or the intents that others hold,
  how far behind the end of the chain the row is that its tail lock returned, and the clock.\<close>

datatype attempt = Lock_Error bool | Attempt "nat set" nat real

definition locked_tail :: "nat \<Rightarrow> audit_db \<Rightarrow> (nat \<times> audit_entry) option" where
  "locked_tail behind db = (if ad_entries db = [] then None
     else let seq = length (ad_entries db) - 1 - behind in Some (seq, ad_entries db ! seq))"

fun drain_attempts ::
  "hashing \<Rightarrow> (nat \<Rightarrow> attempt) \<Rightarrow> nat \<Rightarrow> nat \<Rightarrow> audit_db \<Rightarrow> audit_db \<times> chained_entry option res" where
  "drain_attempts h env k 0 db = (db, Inl AssertionError)"
| "drain_attempts h env k (Suc left) db =
     (case env k of
        Lock_Error retryable \<Rightarrow>
          if \<not> retryable \<or> left = 0 then (db, Inl OperationalError) else drain_attempts h env (Suc k) left db
      | Attempt held behind now \<Rightarrow>
          (case claim_pending held db of
             None \<Rightarrow> (db, Inr None)
           | Some (i, intent) \<Rightarrow>
               (case append_one_intent h now (locked_tail behind db) i intent db of
                  Inr (c, db') \<Rightarrow> (db', Inr (Some c))
                | Inl e \<Rightarrow>
                    if e \<noteq> StaleTailDetected \<or> left = 0 then (db, Inl e)
                    else drain_attempts h env (Suc k) left db)))"

definition drain_one_with_retry :: "hashing \<Rightarrow> (nat \<Rightarrow> attempt) \<Rightarrow> audit_db \<Rightarrow> audit_db \<times> chained_entry option res" where
  "drain_one_with_retry h env = drain_attempts h env 0 MAX_APPEND_RETRIES"

text \<open>The batch: the environment of each round is its own.\<close>

fun drain_pending_intents ::
  "hashing \<Rightarrow> (nat \<Rightarrow> nat \<Rightarrow> attempt) \<Rightarrow> nat \<Rightarrow> audit_db \<Rightarrow> audit_db \<times> chained_entry list res" where
  "drain_pending_intents h env 0 db = (db, Inr [])"
| "drain_pending_intents h env (Suc n) db =
     (case drain_one_with_retry h (env 0) db of
        (db1, Inl e) \<Rightarrow> (db1, Inl e)
      | (db1, Inr None) \<Rightarrow> (db1, Inr [])
      | (db1, Inr (Some c)) \<Rightarrow>
          (case drain_pending_intents h (env \<circ> Suc) n db1 of
             (db2, Inl e) \<Rightarrow> (db2, Inl e)
           | (db2, Inr cs) \<Rightarrow> (db2, Inr (c # cs))))"

definition count_unchained_intents :: "audit_db \<Rightarrow> nat" where
  "count_unchained_intents db = length (filter (\<lambda>r. \<not> snd r) (ad_intents db))"

section \<open>Verifying\<close>

fun verify_rows :: "hashing \<Rightarrow> string \<Rightarrow> audit_entry list \<Rightarrow> bool" where
  "verify_rows h expected_prev [] = True"
| "verify_rows h expected_prev (e # es) =
     (if ae_prev_hash e \<noteq> expected_prev then False
      else if compute_entry_hash h (ae_prev_hash e) (ae_operator e) (ae_action e) (ae_payload e) \<noteq> ae_entry_hash e then False
      else verify_rows h (ae_entry_hash e) es)"

definition verify_chain :: "hashing \<Rightarrow> audit_db \<Rightarrow> bool" where
  "verify_chain h db =
     (case ad_entries db of
        [] \<Rightarrow> False
      | g # rest \<Rightarrow> if ae_prev_hash g \<noteq> GENESIS_HASH then False else verify_rows h (ae_entry_hash g) rest)"

section \<open>Concurrent drains\<close>

text \<open>What the processes do to the tables: a module's transaction inserts an intent; an attempt of some
  drainer commits. A failed attempt leaves no trace.\<close>

inductive audit_step :: "hashing \<Rightarrow> audit_db \<Rightarrow> audit_db \<Rightarrow> bool" for h where
  step_intent: "audit_step h db (db\<lparr>ad_intents := ad_intents db @ [(intent, False)]\<rparr>)"
| step_append: "claim_pending held db = Some (i, intent) \<Longrightarrow>
    append_one_intent h now (locked_tail behind db) i intent db = Inr (c, db') \<Longrightarrow> audit_step h db db'"

text \<open>The initial schema inserts the genesis row.\<close>

definition genesis_db :: "audit_entry \<Rightarrow> audit_db" where
  "genesis_db g = \<lparr>ad_intents = [], ad_entries = [g]\<rparr>"

abbreviation audit_reachable :: "hashing \<Rightarrow> audit_entry \<Rightarrow> audit_db \<Rightarrow> bool" where
  "audit_reachable h g db \<equiv> (audit_step h)\<^sup>*\<^sup>* (genesis_db g) db"

section \<open>Facts\<close>

abbreviation last_hash :: "string \<Rightarrow> audit_entry list \<Rightarrow> string" where
  "last_hash p es \<equiv> (if es = [] then p else ae_entry_hash (last es))"

lemma verify_rows_append: "verify_rows h p (es @ es') \<longleftrightarrow> verify_rows h p es \<and> verify_rows h (last_hash p es) es'"
  by (induction es arbitrary: p) auto

abbreviation entry_content :: "audit_entry \<Rightarrow> string \<times> string \<times> (string \<times> pyval) list" where
  "entry_content e \<equiv> (ae_operator e, ae_action e, ae_payload e)"

abbreviation intent_content :: "intent_row \<Rightarrow> string \<times> string \<times> (string \<times> pyval) list" where
  "intent_content i \<equiv> (ai_operator i, ai_action i, ai_payload i)"

definition chained_contents :: "audit_db \<Rightarrow> (string \<times> string \<times> (string \<times> pyval) list) multiset" where
  "chained_contents db = mset (map (intent_content \<circ> fst) (filter snd (ad_intents db)))"

text \<open>The chain verifies, starts at the genesis row and holds the chained intents, each once.\<close>

definition audit_ok :: "hashing \<Rightarrow> audit_entry \<Rightarrow> audit_db \<Rightarrow> bool" where
  "audit_ok h g db \<longleftrightarrow> (\<exists>rest. ad_entries db = g # rest \<and> verify_rows h (ae_entry_hash g) rest \<and>
     mset (map entry_content rest) = chained_contents db)"

lemma claim_pendingE:
  assumes "claim_pending held db = Some (i, r)"
  obtains xs ys where "ad_intents db = xs @ (r, False) # ys" "i = length xs"
proof -
  obtain b where f: "List.find (\<lambda>(i, r). \<not> snd r \<and> i \<notin> held) (zip [0..<length (ad_intents db)] (ad_intents db)) = Some (i, (r, b))"
    using assms by (auto simp: claim_pending_def)
  then have "\<not> b" "i < length (ad_intents db)" "ad_intents db ! i = (r, b)" by (auto simp: find_Some_iff)
  then show thesis
    using that [of "take i (ad_intents db)" "drop (Suc i) (ad_intents db)"] id_take_nth_drop [of i "ad_intents db"] by simp
qed

lemma claim_none: "claim_pending {} db = None \<longleftrightarrow> count_unchained_intents db = 0"
proof -
  have "snd ` set (zip [0..<length (ad_intents db)] (ad_intents db)) = set (ad_intents db)"
    by (simp flip: set_map)
  then have "(\<forall>r \<in> set (ad_intents db). snd r) \<longleftrightarrow> (\<forall>x \<in> set (zip [0..<length (ad_intents db)] (ad_intents db)). snd (snd x))"
    by (metis (no_types, lifting) imageE imageI)
  then show ?thesis
    by (simp add: claim_pending_def find_None_iff count_unchained_intents_def filter_empty_conv split_def Ball_def)
qed

text \<open>What a committed attempt did.\<close>

lemma append_InrE:
  assumes "append_one_intent h now (locked_tail behind db) i r db = Inr (c, db')" "claim_pending held db = Some (i, r)"
    and "ad_entries db \<noteq> []"
  obtains xs ys e where "ad_intents db = xs @ (r, False) # ys" "ad_intents db' = xs @ (r, True) # ys"
    "ad_entries db' = ad_entries db @ [e]" "entry_content e = intent_content r"
    "verify_rows h (ae_entry_hash (last (ad_entries db))) [e]" "ce_seq c = length (ad_entries db)"
    "ce_entry_hash c = ae_entry_hash e"
proof -
  let ?n = "length (ad_entries db)"
  obtain xs ys where i: "ad_intents db = xs @ (r, False) # ys" "i = length xs" using assms(2) by (rule claim_pendingE)
  have lt: "locked_tail behind db = Some (?n - 1 - behind, ad_entries db ! (?n - 1 - behind))"
    using assms(3) by (simp add: locked_tail_def Let_def)
  have "\<not> ?n - 1 - behind + 1 < ?n" using assms(1) by (simp add: append_one_intent_def lt Let_def split: if_splits)
  moreover have "0 < ?n" using assms(3) by simp
  ultimately have "?n - 1 - behind = ?n - 1" by linarith
  then have "ad_entries db ! (?n - 1 - behind) = last (ad_entries db)" using assms(3) by (simp add: last_conv_nth)
  then show thesis
    using assms(1) i by (intro that [of xs ys "last (ad_entries db')"]) (auto simp: append_one_intent_def lt Let_def split: if_splits)
qed

lemma append_ok:
  assumes "audit_ok h g db" "claim_pending held db = Some (i, r)" "append_one_intent h now (locked_tail behind db) i r db = Inr (c, db')"
  shows "audit_ok h g db' \<and> count_unchained_intents db = Suc (count_unchained_intents db')"
proof -
  obtain rest where rest: "ad_entries db = g # rest" "verify_rows h (ae_entry_hash g) rest"
    "mset (map entry_content rest) = chained_contents db" using assms(1) by (auto simp: audit_ok_def)
  obtain xs ys e where a: "ad_intents db = xs @ (r, False) # ys" "ad_intents db' = xs @ (r, True) # ys"
    "ad_entries db' = ad_entries db @ [e]" "entry_content e = intent_content r"
    "verify_rows h (ae_entry_hash (last (ad_entries db))) [e]"
    by (rule append_InrE [OF assms(3,2)]) (use rest(1) in simp)
  have "chained_contents db' = add_mset (intent_content r) (chained_contents db)"
    by (simp add: chained_contents_def a(1,2))
  then have "mset (map entry_content (rest @ [e])) = chained_contents db'" using rest(3) a(4) by simp
  moreover have "verify_rows h (ae_entry_hash g) (rest @ [e])"
    using rest a(5) by (simp add: verify_rows_append split: if_splits)
  ultimately have "audit_ok h g db'" unfolding audit_ok_def a(3) rest(1) by (intro exI [of _ "rest @ [e]"]) simp
  then show ?thesis by (simp add: count_unchained_intents_def a(1,2))
qed

lemma audit_reachable_ok: "audit_reachable h g db \<Longrightarrow> audit_ok h g db"
proof (induction rule: rtranclp_induct)
  case base
  then show ?case by (simp add: audit_ok_def genesis_db_def chained_contents_def)
next
  case (step db db')
  from step(2) show ?case
  proof cases
    case (step_intent intent)
    then show ?thesis using step(3) by (simp add: audit_ok_def chained_contents_def)
  next
    case (step_append held i intent now behind c)
    then show ?thesis using append_ok [OF step(3)] by blast
  qed
qed

text \<open>With the tail locked, every attempt of a drain that gets through is honest: it commits.\<close>

definition fair :: "nat \<Rightarrow> (nat \<Rightarrow> attempt) \<Rightarrow> bool" where
  "fair n env \<longleftrightarrow> (\<exists>k < n. (\<exists>t. env k = Attempt {} 0 t) \<and>
     (\<forall>j < k. env j = Lock_Error True \<or> (\<exists>b t. env j = Attempt {} b t)))"

lemma drain_attempts_step:
  assumes "\<exists>m < left. (\<exists>t. env (k + m) = Attempt {} 0 t) \<and> (\<forall>j < m. env (k + j) = Lock_Error True \<or> (\<exists>b t. env (k + j) = Attempt {} b t))"
    and "0 < count_unchained_intents db" "ad_entries db \<noteq> []"
  shows "\<exists>db' c. drain_attempts h env k left db = (db', Inr (Some c)) \<and> audit_step h db db'"
  using assms
proof (induction left arbitrary: k)
  case 0
  then show ?case by simp
next
  case (Suc left)
  obtain i r where cl: "claim_pending {} db = Some (i, r)"
    using Suc.prems(2) claim_none [of db] by (cases "claim_pending {} db") auto
  obtain m where m: "m < Suc left" "\<exists>t. env (k + m) = Attempt {} 0 t"
    "\<forall>j < m. env (k + j) = Lock_Error True \<or> (\<exists>b t. env (k + j) = Attempt {} b t)" using Suc.prems(1) by blast
  have later: ?case if "0 < m" "drain_attempts h env k (Suc left) db = drain_attempts h env (Suc k) left db"
  proof -
    obtain m' where "m = Suc m'" using \<open>0 < m\<close> gr0_conv_Suc by blast
    then have "\<exists>m < left. (\<exists>t. env (Suc k + m) = Attempt {} 0 t) \<and>
        (\<forall>j < m. env (Suc k + j) = Lock_Error True \<or> (\<exists>b t. env (Suc k + j) = Attempt {} b t))"
      using m by (intro exI [of _ m']) (auto simp flip: add_Suc_right)
    then show ?thesis using Suc.IH Suc.prems(2,3) that(2) by simp
  qed
  have "left \<noteq> 0" if "0 < m" using that m(1) by simp
  consider "0 < m" "env k = Lock_Error True" | b t where "env k = Attempt {} b t" "0 < m \<or> b = 0"
    using m(2,3) by (cases m) force+
  then show ?case
  proof cases
    case 1
    then show ?thesis using later \<open>0 < m \<Longrightarrow> left \<noteq> 0\<close> by simp
  next
    case 2
    show ?thesis
    proof (cases "append_one_intent h t (locked_tail b db) i r db")
      case (Inl e)
      then have "e = StaleTailDetected" "b \<noteq> 0"
        using Suc.prems(3) by (auto simp: append_one_intent_def locked_tail_def Let_def split: if_splits)
      then show ?thesis using later 2 Inl cl \<open>0 < m \<Longrightarrow> left \<noteq> 0\<close> by simp
    next
      case (Inr x)
      obtain c db' where "x = (c, db')" by (cases x)
      then have "audit_step h db db'" using step_append [OF cl] Inr by blast
      then show ?thesis using 2 Inr cl \<open>x = _\<close> by simp
    qed
  qed
qed

lemma drain_none:
  assumes "\<exists>m < left. (\<exists>t. env (k + m) = Attempt {} 0 t) \<and> (\<forall>j < m. env (k + j) = Lock_Error True \<or> (\<exists>b t. env (k + j) = Attempt {} b t))"
    and "claim_pending {} db = None"
  shows "drain_attempts h env k left db = (db, Inr None)"
  using assms(1)
proof (induction left arbitrary: k)
  case (Suc left)
  obtain m where m: "m < Suc left" "\<exists>t. env (k + m) = Attempt {} 0 t"
    "\<forall>j < m. env (k + j) = Lock_Error True \<or> (\<exists>b t. env (k + j) = Attempt {} b t)" using Suc.prems by blast
  show ?case
  proof (cases "env k")
    case (Lock_Error b)
    then obtain m' where m': "m = Suc m'" "b" using m(2,3) by (cases m) auto
    then have "\<exists>m < left. (\<exists>t. env (Suc k + m) = Attempt {} 0 t) \<and>
        (\<forall>j < m. env (Suc k + j) = Lock_Error True \<or> (\<exists>b t. env (Suc k + j) = Attempt {} b t))"
      using m by (intro exI [of _ m']) (auto simp flip: add_Suc_right)
    then show ?thesis using Suc.IH Lock_Error m' m(1) by simp
  next
    case (Attempt held b t)
    then have "held = {}" using m(2,3) by (cases m) auto
    then show ?thesis using Attempt assms(2) by simp
  qed
qed simp

lemma drain_attempts_count:
  assumes "audit_ok h g db" "drain_attempts h env k left db = (db', Inr (Some c))"
  shows "count_unchained_intents db = Suc (count_unchained_intents db')"
  using assms(2)
proof (induction left arbitrary: k)
  case (Suc left)
  show ?case
  proof (cases "env k")
    case (Lock_Error b)
    then show ?thesis using Suc by (simp split: if_splits)
  next
    case (Attempt held b t)
    then obtain i r where cl: "claim_pending held db = Some (i, r)" using Suc.prems by (cases "claim_pending held db") auto
    show ?thesis
    proof (cases "append_one_intent h t (locked_tail b db) i r db")
      case (Inl e)
      then show ?thesis using Suc Attempt cl by (simp split: if_splits)
    next
      case (Inr x)
      then show ?thesis using Suc.prems Attempt cl append_ok [OF assms(1) cl, of t b] by (cases x) simp
    qed
  qed
qed simp

text \<open>Two verifying chains of equal length with the same last hash agree from the front.\<close>

abbreviation entry_text :: "hashing \<Rightarrow> audit_entry \<Rightarrow> string" where
  "entry_text h e \<equiv> canonical_text h (ae_operator e) (ae_action e) (ae_payload e)"

lemma verify_rows_inject:
  assumes "verify_rows h p es" "verify_rows h p' es'" "length es = length es'" "last_hash p es = last_hash p' es'"
    and "\<forall>x. length (hs_sha256 h x) = n" "length p = n" "length p' = n"
    and "inj_on (hs_sha256 h) ((\<lambda>e. ae_prev_hash e @ entry_text h e) ` (set es \<union> set es'))"
  shows "p = p' \<and> map ae_prev_hash es = map ae_prev_hash es' \<and> map ae_entry_hash es = map ae_entry_hash es' \<and>
    map (entry_text h) es = map (entry_text h) es'"
  using assms(1-4,8)
proof (induction es arbitrary: es' rule: rev_induct)
  case Nil
  then show ?case by simp
next
  case (snoc e es)
  obtain f fs where es': "es' = fs @ [f]" using snoc.prems(3) by (cases es' rule: rev_cases) auto
  have v: "verify_rows h p es" "ae_prev_hash e = last_hash p es"
    "hs_sha256 h (ae_prev_hash e @ entry_text h e) = ae_entry_hash e"
    using snoc.prems(1) by (simp_all add: verify_rows_append compute_entry_hash_def split: if_splits)
  have v': "verify_rows h p' fs" "ae_prev_hash f = last_hash p' fs"
    "hs_sha256 h (ae_prev_hash f @ entry_text h f) = ae_entry_hash f"
    using snoc.prems(2) es' by (simp_all add: verify_rows_append compute_entry_hash_def split: if_splits)
  have len: "length (last_hash q xs) = n" if "verify_rows h q xs" "length q = n" for q xs
  proof (cases xs rule: rev_cases)
    case (snoc ys y)
    then have "ae_entry_hash y = hs_sha256 h (ae_prev_hash y @ entry_text h y)"
      using that(1) by (simp add: verify_rows_append compute_entry_hash_def split: if_splits)
    then show ?thesis using snoc assms(5) by simp
  qed (use that in simp)
  have hash: "ae_entry_hash e = ae_entry_hash f" using snoc.prems(4) es' by simp
  then have same: "hs_sha256 h (ae_prev_hash e @ entry_text h e) = hs_sha256 h (ae_prev_hash f @ entry_text h f)"
    unfolding v(3) v'(3) .
  have "ae_prev_hash e @ entry_text h e = ae_prev_hash f @ entry_text h f"
    by (rule inj_onD [OF snoc.prems(5) same]) (rule imageI, simp add: es')+
  moreover have "length (ae_prev_hash e) = length (ae_prev_hash f)"
    using len [OF v(1) assms(6)] len [OF v'(1) assms(7)] v(2) v'(2) by simp
  ultimately have eq: "ae_prev_hash e = ae_prev_hash f" "entry_text h e = entry_text h f" by simp_all
  have "inj_on (hs_sha256 h) ((\<lambda>e. ae_prev_hash e @ entry_text h e) ` (set es \<union> set fs))"
    by (rule inj_on_subset [OF snoc.prems(5)]) (auto simp: es')
  then have "p = p' \<and> map ae_prev_hash es = map ae_prev_hash fs \<and> map ae_entry_hash es = map ae_entry_hash fs \<and>
      map (entry_text h) es = map (entry_text h) fs"
    using snoc.IH [of fs] v v' eq(1) snoc.prems(3) es' by simp
  then show ?case using eq hash es' by simp
qed

section \<open>Properties\<close>

text \<open>C19: The ledger is exact under concurrency (INV-12). However intents and the attempts of any number of
  drainers interleave, whatever rows their tail locks return and whichever intents they skip: the
  chain verifies, starts at the genesis row, and its other entries are the chained intents, each exactly once;
  an intent that was written stays in the table, and once chained it stays chained.\<close>

theorem ledger_exact_under_concurrency:
  assumes "audit_reachable h g db" "ae_prev_hash g = GENESIS_HASH" "(audit_step h)\<^sup>*\<^sup>* db db'"
  shows "verify_chain h db \<and> hd (ad_entries db) = g \<and>
    mset (map entry_content (tl (ad_entries db))) = mset (map (intent_content \<circ> fst) (filter snd (ad_intents db))) \<and>
    (\<exists>more. ad_entries db' = ad_entries db @ more) \<and>
    (\<forall>i < length (ad_intents db). i < length (ad_intents db') \<and> fst (ad_intents db' ! i) = fst (ad_intents db ! i) \<and>
       (snd (ad_intents db ! i) \<longrightarrow> snd (ad_intents db' ! i)))"
proof -
  obtain rest where r: "ad_entries db = g # rest" "verify_rows h (ae_entry_hash g) rest"
    "mset (map entry_content rest) = chained_contents db"
    using audit_reachable_ok [OF assms(1)] by (auto simp: audit_ok_def)
  have ok: "audit_ok h g db" by (rule audit_reachable_ok [OF assms(1)])
  have "(\<exists>more. ad_entries db' = ad_entries db @ more) \<and> audit_ok h g db' \<and>
    (\<forall>i < length (ad_intents db). i < length (ad_intents db') \<and> fst (ad_intents db' ! i) = fst (ad_intents db ! i) \<and>
       (snd (ad_intents db ! i) \<longrightarrow> snd (ad_intents db' ! i)))"
    using assms(3)
  proof (induction rule: rtranclp_induct)
    case base
    then show ?case using ok by simp
  next
    case (step d d')
    from step(2) show ?case
    proof cases
      case (step_intent intent)
      then show ?thesis using step(3) by (auto simp: nth_append audit_ok_def chained_contents_def)
    next
      case (step_append held i intent now behind c)
      have "ad_entries d \<noteq> []" using step(3) by (auto simp: audit_ok_def)
      then obtain xs ys e where a: "ad_intents d = xs @ (intent, False) # ys" "ad_intents d' = xs @ (intent, True) # ys"
        "ad_entries d' = ad_entries d @ [e]"
        by (rule append_InrE [OF step_append(2,1)])
      have "length (ad_intents d') = length (ad_intents d)" "fst (ad_intents d' ! k) = fst (ad_intents d ! k)"
        "snd (ad_intents d ! k) \<longrightarrow> snd (ad_intents d' ! k)" for k
        by (auto simp: a nth_append nth_Cons')
      then show ?thesis using step(3) a(3) append_ok [OF _ step_append] by auto
    qed
  qed
  then show ?thesis using r assms(2) by (auto simp: verify_chain_def chained_contents_def)
qed

text \<open>Note: Draining clears the backlog. When in each round one of the at most \<open>MAX_APPEND_RETRIES\<close> attempts reads
  the true end of the chain, and the attempts before it failed only for a transient lock error or a stale tail,
  a drain chains one intent per round until the batch is full or nothing is pending, raises nothing and
  returns the entries it made.\<close>

theorem drain_clears_backlog:
  assumes "\<forall>r < n. fair MAX_APPEND_RETRIES (env r)" "audit_reachable h g db"
  shows "\<exists>db' cs. drain_pending_intents h env n db = (db', Inr cs) \<and> length cs = min n (count_unchained_intents db) \<and>
    count_unchained_intents db' = count_unchained_intents db - n \<and> audit_reachable h g db'"
  using assms
proof (induction n arbitrary: env db)
  case 0
  then show ?case by simp
next
  case (Suc n)
  have ne: "ad_entries db \<noteq> []" using audit_reachable_ok [OF Suc.prems(2)] by (auto simp: audit_ok_def)
  have f: "fair MAX_APPEND_RETRIES (env 0)" using Suc.prems(1) by simp
  show ?case
  proof (cases "count_unchained_intents db = 0")
    case True
    then have "claim_pending {} db = None" by (simp add: claim_none)
    then have "drain_one_with_retry h (env 0) db = (db, Inr None)"
      using f unfolding drain_one_with_retry_def fair_def by (intro drain_none) auto
    then show ?thesis using True Suc.prems(2) by simp
  next
    case False
    then obtain db1 c where 1: "drain_one_with_retry h (env 0) db = (db1, Inr (Some c))" "audit_step h db db1"
      using drain_attempts_step [of MAX_APPEND_RETRIES "env 0" 0 db h] f ne unfolding drain_one_with_retry_def fair_def by auto
    have r1: "audit_reachable h g db1" using Suc.prems(2) 1(2) by (rule rtranclp.rtrancl_into_rtrancl)
    have cnt: "count_unchained_intents db = Suc (count_unchained_intents db1)"
      using drain_attempts_count [OF audit_reachable_ok [OF Suc.prems(2)] 1(1) [unfolded drain_one_with_retry_def]] .
    obtain db2 cs where "drain_pending_intents h (env \<circ> Suc) n db1 = (db2, Inr cs)"
      "length cs = min n (count_unchained_intents db1)" "count_unchained_intents db2 = count_unchained_intents db1 - n"
      "audit_reachable h g db2"
      using Suc.IH [of "env \<circ> Suc" db1, OF _ r1] Suc.prems(1) by (elim impE exE conjE meta_impE) (simp add: comp_def)
    then show ?thesis using 1(1) cnt by simp
  qed
qed


text \<open>Note: What \<open>verify_chain\<close> cannot see. Cutting any number of entries off the end of an intact ledger leaves one
  that verifies, down to the genesis row alone; and the operator, action and payload of the genesis row
  can be anything.\<close>

theorem verify_chain_blind_to_truncation:
  assumes "verify_chain h db"
  shows "(\<forall>k > 0. verify_chain h (db\<lparr>ad_entries := take k (ad_entries db)\<rparr>)) \<and>
    verify_chain h (db\<lparr>ad_entries := (hd (ad_entries db))\<lparr>ae_operator := who, ae_action := act, ae_payload := what\<rparr> # tl (ad_entries db)\<rparr>)"
proof -
  obtain g es where e: "ad_entries db = g # es" "ae_prev_hash g = GENESIS_HASH" "verify_rows h (ae_entry_hash g) es"
    using assms by (auto simp: verify_chain_def split: list.splits if_splits)
  have "verify_rows h p (take k xs)" if "verify_rows h p xs" for p k xs
    using that verify_rows_append [of h p "take k xs" "drop k xs"] by simp
  then have "verify_chain h (db\<lparr>ad_entries := take k (ad_entries db)\<rparr>)" if "k > 0" for k
    using that e by (cases k) (simp_all add: verify_chain_def)
  then show ?thesis using e by (simp add: verify_chain_def)
qed

section \<open>Witnesses\<close>

definition zero_hashing :: hashing where
  "zero_hashing = \<lparr>hs_sha256 = (\<lambda>_. replicate 64 (CHR ''0'')), hs_canonical_json = (\<lambda>_. ''{}'')\<rparr>"

definition genesis_entry :: audit_entry where
  "genesis_entry = \<lparr>ae_prev_hash = GENESIS_HASH, ae_entry_hash = replicate 64 (CHR ''a''), ae_operator = ''system'',
     ae_action = ''chain_genesis'', ae_payload = [], ae_chained_at = 0\<rparr>"

definition demo_intent :: intent_row where
  "demo_intent = \<lparr>ai_operator = ''alice'', ai_action = ''baseline_set'', ai_payload = []\<rparr>"

definition one_intent :: audit_db where
  "one_intent = (genesis_db genesis_entry)\<lparr>ad_intents := [(demo_intent, False)]\<rparr>"

lemma one_intent_reachable: "audit_reachable zero_hashing genesis_entry one_intent"
  using step_intent [of zero_hashing "genesis_db genesis_entry" demo_intent]
  by (intro r_into_rtranclp) (simp add: one_intent_def genesis_db_def)

theorem drain_clears_backlog_witness:
  "\<exists>db' cs. drain_pending_intents zero_hashing (\<lambda>r k. if k = 0 then Lock_Error True else Attempt {} 0 1) 50 one_intent = (db', Inr cs) \<and>
     length cs = 1 \<and> count_unchained_intents db' = 0"
proof -
  let ?env = "\<lambda>r k. if k = 0 then Lock_Error True else Attempt {} 0 (1 :: real)"
  have f: "\<forall>r < (50 :: nat). fair MAX_APPEND_RETRIES (?env r)"
    by (auto simp: fair_def MAX_APPEND_RETRIES_def intro!: exI [of _ 1])
  have "count_unchained_intents one_intent = 1" by (simp add: count_unchained_intents_def one_intent_def)
  then show ?thesis using drain_clears_backlog [OF f one_intent_reachable] by auto
qed

theorem ledger_exact_under_concurrency_witness:
  "verify_chain zero_hashing one_intent \<and> hd (ad_entries one_intent) = genesis_entry"
proof -
  have "ae_prev_hash genesis_entry = GENESIS_HASH" by (simp add: genesis_entry_def)
  then show ?thesis
    using ledger_exact_under_concurrency [OF one_intent_reachable _ rtranclp.rtrancl_refl] by blast
qed


theorem verify_chain_blind_to_truncation_witness:
  "verify_chain zero_hashing (one_intent\<lparr>ad_entries := take 1 (ad_entries one_intent)\<rparr>)"
proof -
  have "verify_chain zero_hashing one_intent"
    by (simp add: verify_chain_def one_intent_def genesis_db_def genesis_entry_def)
  then show ?thesis using verify_chain_blind_to_truncation [of zero_hashing one_intent] by simp
qed

end
