(* ===== verification/Reconciliation.thy ===== *)
theory Reconciliation
  imports Scan_Service Inventory_Service "HOL-Library.Product_Lexorder"
begin

text \<open>
  Re-evaluation (\<open>reeval/reconciliation.py\<close>, \<open>quarantine.py\<close>, \<open>service.py\<close>, \<open>controller.py\<close>): comparing
  what the marketplace publishes with the verdicts in force, the asymmetric correction of polled and pushed
  observations, and queueing rescans of content scanned by an outdated toolchain. The marketplace's
  published set, \<open>repr\<close>, HMAC and identifiers are parameters; a call to the marketplace is an entry in the
  list of calls, since a failing call is swallowed and changes nothing else.
\<close>

section \<open>Reconciliation\<close>

datatype reconciliation_result = MATCH | ORPHAN | MISMATCH
datatype reconciliation_source = POLL | PUSH

fun result_value :: "reconciliation_result \<Rightarrow> string" where
  "result_value MATCH = ''MATCH''"
| "result_value ORPHAN = ''ORPHAN''"
| "result_value MISMATCH = ''MISMATCH''"

fun source_value :: "reconciliation_source \<Rightarrow> string" where
  "source_value POLL = ''poll''"
| "source_value PUSH = ''push''"

record published_entry =
  pe_content_hash :: string
  pe_skill_id :: string

record outcome =
  oc_content_hash :: string
  oc_skill_id :: string
  oc_result :: reconciliation_result
  oc_source :: reconciliation_source

definition currency :: "issued_verdict \<Rightarrow> real \<times> bool" where
  "currency v = (iv_issued_at v, iv_verdict v \<noteq> ''PASS'')"

definition verdict_step ::
  "issued_verdict \<Rightarrow> (string \<times> issued_verdict) list \<Rightarrow> (string \<times> issued_verdict) list" where
  "verdict_step issued m =
     (case map_of m (iv_content_hash issued) of
        None \<Rightarrow> dict_put (iv_content_hash issued) issued m
      | Some incumbent \<Rightarrow>
          if currency issued > currency incumbent then dict_put (iv_content_hash issued) issued m else m)"

definition reconcile :: "published_entry list \<Rightarrow> issued_verdict list \<Rightarrow> reconciliation_source \<Rightarrow> outcome list" where
  "reconcile published issued_verdicts source =
     (let verdict_by_hash = fold verdict_step issued_verdicts []
      in map (\<lambda>entry. \<lparr>oc_content_hash = pe_content_hash entry, oc_skill_id = pe_skill_id entry,
           oc_result = (case map_option iv_verdict (map_of verdict_by_hash (pe_content_hash entry)) of
             None \<Rightarrow> ORPHAN | Some v \<Rightarrow> if v \<noteq> ''PASS'' then MISMATCH else MATCH),
           oc_source = source\<rparr>) published)"

text \<open>How many warnings the configuration of the two channels causes at start-up.\<close>

definition reconciliation_mode_warnings :: "bool \<Rightarrow> bool \<Rightarrow> string list" where
  "reconciliation_mode_warnings poll_enabled push_enabled =
     (if \<not> poll_enabled \<and> \<not> push_enabled then [''reconciliation fully disabled'']
      else if \<not> poll_enabled \<and> push_enabled then [''push-only coverage cannot detect ORPHAN'']
      else [])"

text \<open>\<open>mac\<close> is the HMAC of a secret over the timestamp, a dot and the body. Subtracting a timestamp from the
  clock raises when it rounds to no finite float.\<close>

definition verify_push_event_signature ::
  "(string \<Rightarrow> int \<Rightarrow> bytes \<Rightarrow> string) \<Rightarrow> bytes \<Rightarrow> string \<Rightarrow> int \<Rightarrow> string \<Rightarrow> int \<Rightarrow> real \<Rightarrow> unit res" where
  "verify_push_event_signature mac body signature_header timestamp hmac_secret replay_window_s now =
     (if \<bar>timestamp\<bar> \<ge> 2 ^ 1024 - 2 ^ 970 then Inl OverflowError
      else if \<bar>now - real_of_int timestamp\<bar> > real_of_int replay_window_s then Inl PushEventVerificationError
      else res_bind (compare_digest (mac hmac_secret timestamp body) signature_header) (\<lambda>same.
        raise_if (\<not> same) PushEventVerificationError))"

section \<open>Correction\<close>

record quarantine_decision =
  qd_should_quarantine :: bool
  qd_should_alert :: bool
  qd_reason :: "string option"

definition decide_quarantine_action :: "(string \<Rightarrow> string) \<Rightarrow> outcome \<Rightarrow> bool \<Rightarrow> quarantine_decision" where
  "decide_quarantine_action rp oc push_auto_quarantine_enabled =
     (if oc_result oc \<notin> {ORPHAN, MISMATCH}
      then \<lparr>qd_should_quarantine = False, qd_should_alert = False, qd_reason = None\<rparr>
      else
        let reason = source_value (oc_source oc) @ ''-sourced '' @ result_value (oc_result oc) @ '' for skill_id='' @
              rp (oc_skill_id oc) @ '' content_hash='' @ rp (oc_content_hash oc)
        in if oc_source oc = POLL
           then \<lparr>qd_should_quarantine = True, qd_should_alert = True, qd_reason = Some reason\<rparr>
           else \<lparr>qd_should_quarantine = push_auto_quarantine_enabled, qd_should_alert = True, qd_reason = Some reason\<rparr>)"

record reconciliation_row =
  rc_content_hash :: "string option"
  rc_skill_id :: "string option"
  rc_result :: string
  rc_source :: string
  rc_detected_at :: real

text \<open>The rows of the table, the alerts raised and the quarantine calls made so far.\<close>

record reeval_state =
  rs_rows :: "reconciliation_row list"
  rs_alerts :: "outcome list"
  rs_quarantined :: "(string \<times> string) list"

definition persist_step :: "(string \<Rightarrow> string) \<Rightarrow> real \<Rightarrow> bool \<Rightarrow> outcome \<Rightarrow> reeval_state \<Rightarrow> reeval_state" where
  "persist_step rp now push_auto_quarantine_enabled oc st =
     (let d = decide_quarantine_action rp oc push_auto_quarantine_enabled;
          st1 = st\<lparr>rs_rows := rs_rows st @ [\<lparr>rc_content_hash = Some (oc_content_hash oc),
            rc_skill_id = Some (oc_skill_id oc), rc_result = result_value (oc_result oc),
            rc_source = source_value (oc_source oc), rc_detected_at = now\<rparr>]\<rparr>;
          st2 = (if qd_should_alert d then st1\<lparr>rs_alerts := rs_alerts st1 @ [oc]\<rparr> else st1)
      in if qd_should_quarantine d
         then st2\<lparr>rs_quarantined := rs_quarantined st2 @ [(oc_skill_id oc,
           case qd_reason d of None \<Rightarrow> ''reconciliation mismatch'' | Some r \<Rightarrow> r)]\<rparr>
         else st2)"

definition persist_and_act :: "(string \<Rightarrow> string) \<Rightarrow> real \<Rightarrow> bool \<Rightarrow> outcome list \<Rightarrow> reeval_state \<Rightarrow> reeval_state" where
  "persist_and_act rp now push_auto_quarantine_enabled outcomes st =
     fold (persist_step rp now push_auto_quarantine_enabled) outcomes st"

text \<open>An item of the published set is a mapping; a missing key raises.\<close>

definition parse_published_entries :: "(string \<times> string) list list \<Rightarrow> published_entry list res" where
  "parse_published_entries raw = res_map (\<lambda>item.
     (case map_of item ''content_hash'' of None \<Rightarrow> Inl KeyError
      | Some ch \<Rightarrow> (case map_of item ''skill_id'' of None \<Rightarrow> Inl KeyError
         | Some sk \<Rightarrow> Inr \<lparr>pe_content_hash = ch, pe_skill_id = sk\<rparr>))) raw"

definition run_poll_reconciliation ::
  "(string \<Rightarrow> string) \<Rightarrow> real \<Rightarrow> gate_db \<Rightarrow> (string \<times> string) list list res \<Rightarrow> bool \<Rightarrow> reeval_state \<Rightarrow>
   reeval_state \<times> outcome list res" where
  "run_poll_reconciliation rp now gdb list_published push_auto_quarantine_enabled st =
     (case res_bind list_published parse_published_entries of
        Inl e \<Rightarrow> (st, Inl e)
      | Inr published \<Rightarrow>
          let outcomes = reconcile published (list_issued_verdicts gdb) POLL
          in (persist_and_act rp now push_auto_quarantine_enabled outcomes st, Inr outcomes))"

definition apply_push_event ::
  "(string \<Rightarrow> string) \<Rightarrow> real \<Rightarrow> gate_db \<Rightarrow> published_entry \<Rightarrow> bool \<Rightarrow> reeval_state \<Rightarrow> reeval_state \<times> outcome" where
  "apply_push_event rp now gdb entry push_auto_quarantine_enabled st =
     (let outcomes = reconcile [entry] (list_issued_verdicts gdb) PUSH
      in (persist_and_act rp now push_auto_quarantine_enabled outcomes st, hd outcomes))"

definition MAX_RECONCILIATION_LIST_LIMIT :: int where
  "MAX_RECONCILIATION_LIST_LIMIT = 500"

definition list_reconciliation_outcomes :: "reeval_state \<Rightarrow> int \<Rightarrow> reconciliation_row list" where
  "list_reconciliation_outcomes st limit =
     take (nat (max 1 (min limit MAX_RECONCILIATION_LIST_LIMIT))) (rev (rs_rows st))"

section \<open>Rescans\<close>

fun TIER_ORDER :: "trust_tier \<Rightarrow> nat" where
  "TIER_ORDER PUBLIC = 0"
| "TIER_ORDER PARTNER = 1"
| "TIER_ORDER INTERNAL = 2"

record toolchain_status =
  ts_skill_id :: string
  ts_trust_tier :: trust_tier
  ts_content_hash :: string
  ts_recorded_toolchain_digest :: string

definition is_stale :: "toolchain_status \<Rightarrow> string \<Rightarrow> bool" where
  "is_stale status current_toolchain_digest \<longleftrightarrow> ts_recorded_toolchain_digest status \<noteq> current_toolchain_digest"

definition batch_rescan_targets :: "toolchain_status list \<Rightarrow> string \<Rightarrow> toolchain_status list" where
  "batch_rescan_targets statuses current_toolchain_digest =
     sort_key (\<lambda>s. TIER_ORDER (ts_trust_tier s)) (filter (\<lambda>s. is_stale s current_toolchain_digest) statuses)"

definition build_rescan_job :: "(bytes \<Rightarrow> string) \<Rightarrow> toolchain_status \<Rightarrow> string \<Rightarrow> string \<Rightarrow> real \<Rightarrow> scan_job res" where
  "build_rescan_job sha status td submitter now =
     res_bind (cache_key sha (ts_content_hash status) td) (\<lambda>ck.
     Inr \<lparr>sj_content_hash = ts_content_hash status, sj_toolchain_digest = td, sj_cache_key = ck, sj_state = STATE_QUEUED,
          sj_submitter = submitter, sj_created_at = now, sj_skill_name = None, sj_sandbox_wait_started_at = None,
          sj_trust_tier = Some (trust_tier_value (ts_trust_tier status))\<rparr>)"

text \<open>The join of skills and versions, newest version first; the tier of every joined row is
  parsed, also of those that do not stay.\<close>

definition joined_versions :: "inventory_db \<Rightarrow> (string \<times> string \<times> version_row) list" where
  "joined_versions idb =
     map (\<lambda>(ch, v). (ch, sk_trust_tier (the (map_of (db_skills idb) (sv_skill_id v))), v))
       (sort_key (\<lambda>(ch, v). (- sv_created_at v, ch))
         (filter (\<lambda>(ch, v). map_of (db_skills idb) (sv_skill_id v) \<noteq> None) (db_versions idb)))"

definition list_published_toolchain_statuses :: "inventory_db \<Rightarrow> toolchain_status list res" where
  "list_published_toolchain_statuses idb =
     res_bind (res_map (\<lambda>(ch, tier, v). res_bind (TrustTier_of tier) (\<lambda>t.
         Inr \<lparr>ts_skill_id = sv_skill_id v, ts_trust_tier = t, ts_content_hash = ch,
              ts_recorded_toolchain_digest = sv_toolchain_digest v\<rparr>)) (joined_versions idb)) (\<lambda>rows.
     Inr (map snd (fold (\<lambda>s. dict_setdefault (ts_skill_id s) s) rows [])))"

text \<open>One target: its insert is a savepoint of its own, and a duplicate key is skipped. Identifiers are
  drawn per target.\<close>

definition rescan_step ::
  "(bytes \<Rightarrow> string) \<Rightarrow> (string \<Rightarrow> string) \<Rightarrow> string \<Rightarrow> string \<Rightarrow> real \<Rightarrow> toolchain_status \<Rightarrow> orch_db \<times> nat \<Rightarrow> (orch_db \<times> nat) res" where
  "rescan_step sha uuid td submitter now target = (\<lambda>(odb, queued).
     res_bind (build_rescan_job sha target td submitter now) (\<lambda>job.
     if uuid (ts_content_hash target) \<in> fst ` set (od_jobs odb) \<or> sj_cache_key job \<in> sj_cache_key ` snd ` set (od_jobs odb)
     then Inr (odb, queued)
     else Inr (odb\<lparr>od_jobs := od_jobs odb @ [(uuid (ts_content_hash target), job)]\<rparr>, Suc queued)))"

fun trigger_rescans ::
  "(bytes \<Rightarrow> string) \<Rightarrow> (string \<Rightarrow> string) \<Rightarrow> string \<Rightarrow> string \<Rightarrow> real \<Rightarrow> toolchain_status list \<Rightarrow> orch_db \<times> nat \<Rightarrow> (orch_db \<times> nat) res" where
  "trigger_rescans sha uuid td submitter now [] acc = Inr acc"
| "trigger_rescans sha uuid td submitter now (t # ts) acc =
     res_bind (rescan_step sha uuid td submitter now t acc) (trigger_rescans sha uuid td submitter now ts)"

section \<open>Facts\<close>

interpretation vb: best_per_key iv_content_hash currency verdict_step
  by unfold_locales (simp_all add: verdict_step_def)

text \<open>A content is approved when some verdict on it is PASS, none is newer and no other verdict than PASS is
  equally new: a statement about the rows of the table, whatever their order.\<close>

definition in_force_pass :: "gate_db \<Rightarrow> string \<Rightarrow> bool" where
  "in_force_pass gdb ch \<longleftrightarrow> (\<exists>r \<in> snd ` set (gd_verdicts gdb). vd_content_hash r = ch \<and> vd_verdict r = ''PASS'' \<and>
     (\<forall>q \<in> snd ` set (gd_verdicts gdb). vd_content_hash q = ch \<longrightarrow>
        vd_issued_at q < vd_issued_at r \<or> vd_issued_at q = vd_issued_at r \<and> vd_verdict q = ''PASS''))"

definition any_verdict :: "gate_db \<Rightarrow> string \<Rightarrow> bool" where
  "any_verdict gdb ch \<longleftrightarrow> (\<exists>r \<in> snd ` set (gd_verdicts gdb). vd_content_hash r = ch)"

definition projected :: "verdict_row \<Rightarrow> issued_verdict" where
  "projected r = \<lparr>iv_content_hash = vd_content_hash r, iv_verdict = vd_verdict r, iv_issued_at = vd_issued_at r\<rparr>"

lemma set_issued: "set (list_issued_verdicts gdb) = projected ` snd ` set (gd_verdicts gdb)"
  by (force simp: list_issued_verdicts_def projected_def)

lemma currency_le:
  "currency q \<le> currency v \<longleftrightarrow> iv_issued_at q < iv_issued_at v \<or>
     iv_issued_at q = iv_issued_at v \<and> (iv_verdict q = ''PASS'' \<or> iv_verdict v \<noteq> ''PASS'')"
  by (auto simp: currency_def less_eq_prod_def)

lemma reconcile_result:
  "oc_result oc = (case map_option iv_verdict (map_of (fold verdict_step (list_issued_verdicts gdb) []) ch) of
       None \<Rightarrow> ORPHAN | Some v \<Rightarrow> if v \<noteq> ''PASS'' then MISMATCH else MATCH) \<Longrightarrow>
   oc_result oc = (if \<not> any_verdict gdb ch then ORPHAN else if in_force_pass gdb ch then MATCH else MISMATCH)"
proof -
  let ?m = "map_of (fold verdict_step (list_issued_verdicts gdb) []) ch"
  assume oc: "oc_result oc = (case map_option iv_verdict ?m of None \<Rightarrow> ORPHAN | Some v \<Rightarrow> if v \<noteq> ''PASS'' then MISMATCH else MATCH)"
  show ?thesis
  proof (cases ?m)
    case None
    then have "\<not> any_verdict gdb ch"
      using vb.run_lookup_None [of "list_issued_verdicts gdb" ch] by (force simp: set_issued any_verdict_def projected_def)
    then show ?thesis using oc None by simp
  next
    case (Some v)
    then have v: "v \<in> projected ` snd ` set (gd_verdicts gdb)" "iv_content_hash v = ch"
      "\<forall>q \<in> projected ` snd ` set (gd_verdicts gdb). iv_content_hash q = ch \<longrightarrow> currency q \<le> currency v"
      using vb.run_lookup [of "list_issued_verdicts gdb" ch v] by (simp_all add: set_issued)
    obtain r where r: "r \<in> snd ` set (gd_verdicts gdb)" "v = projected r" using v(1) by blast
    have best: "vd_issued_at q < vd_issued_at r \<or> vd_issued_at q = vd_issued_at r \<and> (vd_verdict q = ''PASS'' \<or> vd_verdict r \<noteq> ''PASS'')"
      if "q \<in> snd ` set (gd_verdicts gdb)" "vd_content_hash q = ch" for q
      using bspec [OF v(3) imageI [OF that(1)]] that(2) r(2) by (simp add: currency_le projected_def)
    have ch: "vd_content_hash r = ch" using v(2) r(2) by (simp add: projected_def)
    have "in_force_pass gdb ch \<longleftrightarrow> vd_verdict r = ''PASS''"
    proof
      assume "in_force_pass gdb ch"
      then obtain p where p: "p \<in> snd ` set (gd_verdicts gdb)" "vd_content_hash p = ch" "vd_verdict p = ''PASS''"
        "\<forall>q \<in> snd ` set (gd_verdicts gdb). vd_content_hash q = ch \<longrightarrow>
          vd_issued_at q < vd_issued_at p \<or> vd_issued_at q = vd_issued_at p \<and> vd_verdict q = ''PASS''"
        unfolding in_force_pass_def by blast
      then show "vd_verdict r = ''PASS''" using bspec [OF p(4) r(1)] ch best [OF p(1,2)] by auto
    next
      assume "vd_verdict r = ''PASS''"
      then show "in_force_pass gdb ch" unfolding in_force_pass_def using r(1) ch best by blast
    qed
    moreover have "any_verdict gdb ch" using r(1) ch by (auto simp: any_verdict_def)
    ultimately show ?thesis using oc Some r(2) by (simp add: projected_def)
  qed
qed

text \<open>The comparison, as a statement about the tables.\<close>

definition expected_outcome :: "gate_db \<Rightarrow> reconciliation_source \<Rightarrow> published_entry \<Rightarrow> outcome" where
  "expected_outcome gdb src e = \<lparr>oc_content_hash = pe_content_hash e, oc_skill_id = pe_skill_id e,
     oc_result = (if \<not> any_verdict gdb (pe_content_hash e) then ORPHAN
       else if in_force_pass gdb (pe_content_hash e) then MATCH else MISMATCH), oc_source = src\<rparr>"

lemma reconcile_eq: "reconcile published (list_issued_verdicts gdb) src = map (expected_outcome gdb src) published"
proof -
  have "(case map_option iv_verdict (map_of (fold verdict_step (list_issued_verdicts gdb) []) ch) of
      None \<Rightarrow> ORPHAN | Some v \<Rightarrow> if v \<noteq> ''PASS'' then MISMATCH else MATCH) =
      (if \<not> any_verdict gdb ch then ORPHAN else if in_force_pass gdb ch then MATCH else MISMATCH)" for ch
    using reconcile_result [of "\<lparr>oc_content_hash = [], oc_skill_id = [], oc_result = _, oc_source = POLL\<rparr>" gdb ch] by simp
  then show ?thesis by (simp add: reconcile_def expected_outcome_def Let_def)
qed

lemma approved_has_verdict: "in_force_pass gdb ch \<Longrightarrow> any_verdict gdb ch"
  by (auto simp: in_force_pass_def any_verdict_def)

lemma persist_fold:
  "rs_rows (persist_and_act rp now auto ocs st) = rs_rows st @ map (\<lambda>oc. \<lparr>rc_content_hash = Some (oc_content_hash oc),
     rc_skill_id = Some (oc_skill_id oc), rc_result = result_value (oc_result oc), rc_source = source_value (oc_source oc),
     rc_detected_at = now\<rparr>) ocs"
  "rs_alerts (persist_and_act rp now auto ocs st) = rs_alerts st @ filter (\<lambda>oc. oc_result oc \<noteq> MATCH) ocs"
  "map fst (rs_quarantined (persist_and_act rp now auto ocs st)) = map fst (rs_quarantined st) @
     map oc_skill_id (filter (\<lambda>oc. oc_result oc \<noteq> MATCH \<and> (oc_source oc = POLL \<or> auto)) ocs)"
proof -
  have d: "qd_should_alert (decide_quarantine_action rp oc auto) = (oc_result oc \<noteq> MATCH)"
    "qd_should_quarantine (decide_quarantine_action rp oc auto) = (oc_result oc \<noteq> MATCH \<and> (oc_source oc = POLL \<or> auto))" for oc auto
    by (cases "oc_result oc"; simp add: decide_quarantine_action_def Let_def)+
  show "rs_rows (persist_and_act rp now auto ocs st) = rs_rows st @ map (\<lambda>oc. \<lparr>rc_content_hash = Some (oc_content_hash oc),
     rc_skill_id = Some (oc_skill_id oc), rc_result = result_value (oc_result oc), rc_source = source_value (oc_source oc),
     rc_detected_at = now\<rparr>) ocs"
    unfolding persist_and_act_def by (induction ocs arbitrary: st) (simp_all add: persist_step_def Let_def)
  show "rs_alerts (persist_and_act rp now auto ocs st) = rs_alerts st @ filter (\<lambda>oc. oc_result oc \<noteq> MATCH) ocs"
    unfolding persist_and_act_def by (induction ocs arbitrary: st) (simp_all add: persist_step_def Let_def d)
  show "map fst (rs_quarantined (persist_and_act rp now auto ocs st)) = map fst (rs_quarantined st) @
     map oc_skill_id (filter (\<lambda>oc. oc_result oc \<noteq> MATCH \<and> (oc_source oc = POLL \<or> auto)) ocs)"
    unfolding persist_and_act_def by (induction ocs arbitrary: st) (simp_all add: persist_step_def Let_def d)
qed

lemma setdefault_first:
  fixes f :: "'a \<Rightarrow> 'k"
  defines "m \<equiv> \<lambda>rows. fold (\<lambda>s. dict_setdefault (f s) s) rows []"
  shows "distinct (map f (map snd (m rows)))" and "r \<in> set (map snd (m rows)) \<Longrightarrow> List.find (\<lambda>x. f x = f r) rows = Some r"
proof -
  have d: "distinct (map fst (fold (\<lambda>s. dict_setdefault (f s) s) rows a))" if "distinct (map fst a)" for a
    using that by (induction rows arbitrary: a) (auto simp: dict_setdefault_def)
  have look: "map_of (m rows) k = List.find (\<lambda>x. f x = k) rows" for k
    using map_of_fold_setdefault [of f "\<lambda>s. s" rows "[]" k] by (simp add: m_def option.map_ident)
  have mem: "List.find (\<lambda>x. f x = k) rows = Some r" if "(k, r) \<in> set (m rows)" for k r
    using that map_of_is_SomeI [OF d [of "[]"], of k r] look by (simp add: m_def)
  have key: "k = f r" if "(k, r) \<in> set (m rows)" for k r using mem [OF that] by (auto simp: find_Some_iff)
  then have "map f (map snd (m rows)) = map fst (m rows)" by auto
  then show "distinct (map f (map snd (m rows)))" using d [of "[]"] by (simp only: m_def) simp
  show "List.find (\<lambda>x. f x = f r) rows = Some r" if "r \<in> set (map snd (m rows))" using that mem key by force
qed

lemma find_least:
  "sorted (map key xs) \<Longrightarrow> List.find P xs = Some x \<Longrightarrow> y \<in> set xs \<Longrightarrow> P y \<Longrightarrow> key x \<le> key y"
  by (induction xs) (auto split: if_splits)

lemma find_map: "List.find P (map f xs) = map_option f (List.find (P \<circ> f) xs)"
  by (induction xs) auto

text \<open>What queueing a list of targets adds: queued jobs at their own tier, under keys that were free.\<close>

definition rescan_of :: "(bytes \<Rightarrow> string) \<Rightarrow> string \<Rightarrow> string \<Rightarrow> toolchain_status list \<Rightarrow> scan_job \<Rightarrow> bool" where
  "rescan_of sha td submitter targets j \<longleftrightarrow> (\<exists>t \<in> set targets. cache_key sha (ts_content_hash t) td = Inr (sj_cache_key j) \<and>
     sj_content_hash j = ts_content_hash t \<and> sj_toolchain_digest j = td \<and> sj_state j = STATE_QUEUED \<and> sj_submitter j = submitter \<and>
     sj_trust_tier j = Some (trust_tier_value (ts_trust_tier t)))"

lemma rescan_step_InrE:
  assumes "rescan_step sha uuid td sub now t (odb, n) = Inr (odb1, n1)" "uuid (ts_content_hash t) \<notin> fst ` set (od_jobs odb)"
  obtains ck where "cache_key sha (ts_content_hash t) td = Inr ck" "ck \<in> sj_cache_key ` snd ` set (od_jobs odb)" "odb1 = odb" "n1 = n"
  | job where "cache_key sha (ts_content_hash t) td = Inr (sj_cache_key job)" "rescan_of sha td sub [t] job"
      "sj_cache_key job \<notin> sj_cache_key ` snd ` set (od_jobs odb)"
      "odb1 = odb\<lparr>od_jobs := od_jobs odb @ [(uuid (ts_content_hash t), job)]\<rparr>" "n1 = Suc n"
proof -
  obtain job where job: "build_rescan_job sha t td sub now = Inr job"
    using assms(1) by (cases "build_rescan_job sha t td sub now") (simp_all add: rescan_step_def)
  then have ck: "cache_key sha (ts_content_hash t) td = Inr (sj_cache_key job)" "rescan_of sha td sub [t] job"
    by (auto simp: build_rescan_job_def res_bind_eq_Inr rescan_of_def)
  note s = assms(1) [unfolded rescan_step_def prod.case job res_bind_Inr]
  show thesis
  proof (cases "sj_cache_key job \<in> sj_cache_key ` snd ` set (od_jobs odb)")
    case True
    have "odb1 = odb" "n1 = n" using s unfolding if_P [OF disjI2 [OF True]] by simp_all
    then show thesis by (rule that(1) [OF ck(1) True])
  next
    case False
    have "\<not> (uuid (ts_content_hash t) \<in> fst ` set (od_jobs odb) \<or> sj_cache_key job \<in> sj_cache_key ` snd ` set (od_jobs odb))"
      using False assms(2) by blast
    then have "odb1 = odb\<lparr>od_jobs := od_jobs odb @ [(uuid (ts_content_hash t), job)]\<rparr>" "n1 = Suc n"
      using s by simp_all
    then show thesis by (rule that(2) [OF ck False])
  qed
qed

lemma trigger_rescans_InrD:
  assumes "trigger_rescans sha uuid td sub now ts (odb, n) = Inr (odb', n')"
    and "distinct (map (uuid \<circ> ts_content_hash) ts)" "\<forall>t \<in> set ts. uuid (ts_content_hash t) \<notin> fst ` set (od_jobs odb)"
  shows "\<exists>new. odb' = odb\<lparr>od_jobs := od_jobs odb @ new\<rparr> \<and> n' = n + length new \<and>
    fst ` set new \<subseteq> (uuid \<circ> ts_content_hash) ` set ts \<and> (\<forall>j \<in> snd ` set new. rescan_of sha td sub ts j) \<and>
    (\<forall>t \<in> set ts. \<exists>ck. cache_key sha (ts_content_hash t) td = Inr ck \<and> ck \<in> sj_cache_key ` snd ` set (od_jobs odb')) \<and>
    distinct (map (sj_cache_key \<circ> snd) new) \<and> (sj_cache_key ` snd ` set new) \<inter> (sj_cache_key ` snd ` set (od_jobs odb)) = {}"
  using assms
proof (induction ts arbitrary: odb n)
  case Nil
  then show ?case by (intro exI [of _ "[]"]) simp
next
  case (Cons t ts)
  obtain odb1 n1 where s: "rescan_step sha uuid td sub now t (odb, n) = Inr (odb1, n1)"
    "trigger_rescans sha uuid td sub now ts (odb1, n1) = Inr (odb', n')"
    using Cons.prems(1) by (auto simp: res_bind_eq_Inr)
  have d: "distinct (map (uuid \<circ> ts_content_hash) ts)" using Cons.prems(2) by (simp add: comp_def)
  have fresh: "\<forall>t \<in> set ts. uuid (ts_content_hash t) \<notin> fst ` set (od_jobs odb)" using Cons.prems(3) by simp
  have "uuid (ts_content_hash t) \<notin> fst ` set (od_jobs odb)" using Cons.prems(3) by simp
  with s(1) show ?case
  proof (cases rule: rescan_step_InrE)
    case (1 ck)
    have later: "trigger_rescans sha uuid td sub now ts (odb, n) = Inr (odb', n')" using s(2) 1 by simp
    obtain new where new: "odb' = odb\<lparr>od_jobs := od_jobs odb @ new\<rparr>" "n' = n + length new"
      "fst ` set new \<subseteq> (uuid \<circ> ts_content_hash) ` set ts" "\<forall>j \<in> snd ` set new. rescan_of sha td sub ts j"
      "\<forall>t \<in> set ts. \<exists>ck. cache_key sha (ts_content_hash t) td = Inr ck \<and> ck \<in> sj_cache_key ` snd ` set (od_jobs odb')"
      "distinct (map (sj_cache_key \<circ> snd) new)" "(sj_cache_key ` snd ` set new) \<inter> (sj_cache_key ` snd ` set (od_jobs odb)) = {}"
      using Cons.IH [OF later d fresh] by (elim exE conjE)
    have "ck \<in> sj_cache_key ` snd ` set (od_jobs odb')" using 1(2) new(1) by auto
    then have "\<forall>x \<in> set (t # ts). \<exists>ck. cache_key sha (ts_content_hash x) td = Inr ck \<and> ck \<in> sj_cache_key ` snd ` set (od_jobs odb')"
      using new(5) 1(1) by simp
    moreover have "\<forall>j \<in> snd ` set new. rescan_of sha td sub (t # ts) j" using new(4) by (auto simp: rescan_of_def)
    moreover have "fst ` set new \<subseteq> (uuid \<circ> ts_content_hash) ` set (t # ts)" using new(3) by auto
    ultimately show ?thesis using new(1,2,6,7) by (intro exI [of _ new] conjI)
  next
    case (2 job)
    have fresh1: "\<forall>x \<in> set ts. uuid (ts_content_hash x) \<notin> fst ` set (od_jobs odb1)"
      using Cons.prems(2,3) 2(4) by (auto simp: image_iff)
    obtain new where new: "odb' = odb1\<lparr>od_jobs := od_jobs odb1 @ new\<rparr>" "n' = n1 + length new"
      "fst ` set new \<subseteq> (uuid \<circ> ts_content_hash) ` set ts" "\<forall>j \<in> snd ` set new. rescan_of sha td sub ts j"
      "\<forall>t \<in> set ts. \<exists>ck. cache_key sha (ts_content_hash t) td = Inr ck \<and> ck \<in> sj_cache_key ` snd ` set (od_jobs odb')"
      "distinct (map (sj_cache_key \<circ> snd) new)" "(sj_cache_key ` snd ` set new) \<inter> (sj_cache_key ` snd ` set (od_jobs odb1)) = {}"
      using Cons.IH [OF s(2) d fresh1] by (elim exE conjE)
    have jobs: "od_jobs odb' = od_jobs odb @ (uuid (ts_content_hash t), job) # new" using new(1) 2(4) by simp
    show ?thesis
    proof (intro exI [of _ "(uuid (ts_content_hash t), job) # new"] conjI)
      show "odb' = odb\<lparr>od_jobs := od_jobs odb @ (uuid (ts_content_hash t), job) # new\<rparr>" using new(1) 2(4) by simp
      show "\<forall>j \<in> snd ` set ((uuid (ts_content_hash t), job) # new). rescan_of sha td sub (t # ts) j"
        using new(4) 2(2) by (auto simp: rescan_of_def)
      show "\<forall>x \<in> set (t # ts). \<exists>ck. cache_key sha (ts_content_hash x) td = Inr ck \<and> ck \<in> sj_cache_key ` snd ` set (od_jobs odb')"
        using new(5) 2(1) jobs by auto
      show "distinct (map (sj_cache_key \<circ> snd) ((uuid (ts_content_hash t), job) # new))" using new(6,7) 2(4) by auto
      show "sj_cache_key ` snd ` set ((uuid (ts_content_hash t), job) # new) \<inter> sj_cache_key ` snd ` set (od_jobs odb) = {}"
        using new(7) 2(3,4) by auto
    qed (use new(2,3) 2(5) in auto)
  qed
qed

text \<open>Targets whose keys are all taken add nothing.\<close>

lemma trigger_rescans_none:
  assumes "\<forall>t \<in> set ts. \<exists>ck. cache_key sha (ts_content_hash t) td = Inr ck \<and> ck \<in> sj_cache_key ` snd ` set (od_jobs odb)"
  shows "trigger_rescans sha uuid td sub now ts (odb, n) = Inr (odb, n)"
  using assms
proof (induction ts)
  case (Cons t ts)
  obtain ck where ck: "cache_key sha (ts_content_hash t) td = Inr ck" "ck \<in> sj_cache_key ` snd ` set (od_jobs odb)"
    using Cons.prems by auto
  then have "rescan_step sha uuid td sub now t (odb, n) = Inr (odb, n)"
    by (simp add: rescan_step_def build_rescan_job_def)
  then show ?case using Cons by simp
qed simp

section \<open>Properties\<close>

text \<open>C22: A poll takes down exactly what has no approval in force. Over the whole published set, in its order,
  the marketplace is asked to quarantine precisely the entries whose content has no verdict at all or whose
  newest verdict is not PASS, where on a tie PASS loses; every entry leaves one row, every quarantine an
  alert; and the outcome does not depend on the order in which the verdicts are read.\<close>

theorem poll_quarantines_exactly_unapproved:
  assumes "parse_published_entries raw = Inr published"
    and "run_poll_reconciliation rp now gdb (Inr raw) auto st = (st', r)"
  shows "r = Inr (map (expected_outcome gdb POLL) published) \<and>
    map fst (rs_quarantined st') = map fst (rs_quarantined st) @
      map pe_skill_id (filter (\<lambda>e. \<not> in_force_pass gdb (pe_content_hash e)) published) \<and>
    rs_alerts st' = rs_alerts st @ filter (\<lambda>oc. \<not> in_force_pass gdb (oc_content_hash oc)) (map (expected_outcome gdb POLL) published) \<and>
    length (rs_rows st') = length (rs_rows st) + length published"
proof -
  have res: "oc_result (expected_outcome gdb src e) \<noteq> MATCH \<longleftrightarrow> \<not> in_force_pass gdb (pe_content_hash e)" for src e
    using approved_has_verdict [of gdb "pe_content_hash e"] by (simp add: expected_outcome_def)
  have "st' = persist_and_act rp now auto (map (expected_outcome gdb POLL) published) st"
    "r = Inr (map (expected_outcome gdb POLL) published)"
    using assms by (simp_all add: run_poll_reconciliation_def reconcile_eq Let_def)
  moreover have "oc_content_hash (expected_outcome gdb src e) = pe_content_hash e" "oc_skill_id (expected_outcome gdb src e) = pe_skill_id e"
    "oc_source (expected_outcome gdb src e) = src" for src e by (simp_all add: expected_outcome_def)
  ultimately show ?thesis by (simp add: persist_fold filter_map comp_def res)
qed

text \<open>Note: A pushed event alone takes nothing down. Unless the operator opted in, applying a pushed event makes no
  quarantine call whatever it claims; it alerts exactly when the content has no approval in force and
  reaches the same finding as a poll; and without both channels, or with push alone, the start-up warns.\<close>

theorem push_only_alerts:
  "fst (apply_push_event rp now gdb entry False st) = st' \<Longrightarrow>
     rs_quarantined st' = rs_quarantined st \<and>
     rs_alerts st' = rs_alerts st @ (if in_force_pass gdb (pe_content_hash entry) then [] else [expected_outcome gdb PUSH entry]) \<and>
     oc_result (snd (apply_push_event rp now gdb entry False st)) = oc_result (expected_outcome gdb POLL entry) \<and>
     (reconciliation_mode_warnings poll push = [] \<longleftrightarrow> poll)"
proof -
  let ?oc = "expected_outcome gdb PUSH entry"
  assume "fst (apply_push_event rp now gdb entry False st) = st'"
  then have st': "st' = persist_and_act rp now False [?oc] st"
    by (simp add: apply_push_event_def reconcile_eq Let_def)
  have res: "oc_result ?oc \<noteq> MATCH \<longleftrightarrow> \<not> in_force_pass gdb (pe_content_hash entry)"
    using approved_has_verdict [of gdb "pe_content_hash entry"] by (simp add: expected_outcome_def)
  have "rs_quarantined st' = rs_quarantined st"
    by (simp add: st' persist_and_act_def persist_step_def decide_quarantine_action_def expected_outcome_def Let_def)
  moreover have "oc_result (snd (apply_push_event rp now gdb entry False st)) = oc_result (expected_outcome gdb POLL entry)"
    by (simp add: apply_push_event_def reconcile_eq expected_outcome_def Let_def)
  moreover have "rs_alerts st' = rs_alerts st @ (if in_force_pass gdb (pe_content_hash entry) then [] else [?oc])"
    using res by (simp add: st' persist_fold)
  ultimately show ?thesis by (simp add: reconciliation_mode_warnings_def)
qed

text \<open>Note: Rescans are queued once, at the skill's own tier. Queueing a batch gives every target a job under the
  key of its content and the current toolchain, either an old or a new one; the new ones are queued, carry
  the tier recorded for their skill and keep the keys unique; and queueing the same batch again, with any
  identifiers and at any time, adds nothing.\<close>

theorem rescans_queued_once_at_own_tier:
  assumes "trigger_rescans sha uuid td sub now ts (odb, 0) = Inr (odb', n)"
    and "distinct (map (uuid \<circ> ts_content_hash) ts)" "\<forall>t \<in> set ts. uuid (ts_content_hash t) \<notin> fst ` set (od_jobs odb)"
    and "distinct (map (sj_cache_key \<circ> snd) (od_jobs odb))"
  shows "(\<exists>new. odb' = odb\<lparr>od_jobs := od_jobs odb @ new\<rparr> \<and> n = length new \<and> (\<forall>j \<in> snd ` set new. rescan_of sha td sub ts j)) \<and>
    (\<forall>t \<in> set ts. \<exists>j \<in> snd ` set (od_jobs odb'). cache_key sha (ts_content_hash t) td = Inr (sj_cache_key j)) \<and>
    distinct (map (sj_cache_key \<circ> snd) (od_jobs odb')) \<and>
    trigger_rescans sha uuid' td sub' now' ts (odb', 0) = Inr (odb', 0)"
proof -
  obtain new where new: "odb' = odb\<lparr>od_jobs := od_jobs odb @ new\<rparr>" "n = 0 + length new" "\<forall>j \<in> snd ` set new. rescan_of sha td sub ts j"
    "\<forall>t \<in> set ts. \<exists>ck. cache_key sha (ts_content_hash t) td = Inr ck \<and> ck \<in> sj_cache_key ` snd ` set (od_jobs odb')"
    "distinct (map (sj_cache_key \<circ> snd) new)" "(sj_cache_key ` snd ` set new) \<inter> (sj_cache_key ` snd ` set (od_jobs odb)) = {}"
    using trigger_rescans_InrD [OF assms(1-3)] by (elim exE conjE)
  have "distinct (map (sj_cache_key \<circ> snd) (od_jobs odb) @ map (sj_cache_key \<circ> snd) new)"
    using new(5,6) assms(4) unfolding distinct_append set_map image_comp by blast
  moreover have jobs: "od_jobs odb' = od_jobs odb @ new" by (simp add: new(1))
  ultimately have "distinct (map (sj_cache_key \<circ> snd) (od_jobs odb'))" unfolding jobs map_append by blast
  moreover have "\<forall>t \<in> set ts. \<exists>j \<in> snd ` set (od_jobs odb'). cache_key sha (ts_content_hash t) td = Inr (sj_cache_key j)"
    using new(4) by blast
  ultimately show ?thesis using new(1-3) trigger_rescans_none [OF new(4)] by auto
qed

text \<open>Note: Only current versions are offered for a rescan: the statuses hold one entry per skill, and its content
  is a version of that skill than which none was registered later.\<close>

theorem statuses_are_current_versions:
  assumes "list_published_toolchain_statuses idb = Inr ss"
  shows "distinct (map ts_skill_id ss) \<and> (\<forall>s \<in> set ss. \<exists>v. (ts_content_hash s, v) \<in> set (db_versions idb) \<and>
      sv_skill_id v = ts_skill_id s \<and> ts_recorded_toolchain_digest s = sv_toolchain_digest v \<and>
      (\<forall>(ch, w) \<in> set (db_versions idb). sv_skill_id w = ts_skill_id s \<longrightarrow> sv_created_at w \<le> sv_created_at v))"
proof -
  let ?F = "\<lambda>(ch, tier, v). res_bind (TrustTier_of tier) (\<lambda>t. Inr \<lparr>ts_skill_id = sv_skill_id v, ts_trust_tier = t,
    ts_content_hash = ch, ts_recorded_toolchain_digest = sv_toolchain_digest v\<rparr>)"
  let ?ok = "\<lambda>(ch, v). map_of (db_skills idb) (sv_skill_id v) \<noteq> None"
  let ?key = "\<lambda>(ch, v). (- sv_created_at v, ch)"
  define S where "S = sort_key ?key (filter ?ok (db_versions idb))"
  obtain rows where rows: "list_all2 (\<lambda>x y. ?F x = Inr y) (joined_versions idb) rows"
    "ss = map snd (fold (\<lambda>s. dict_setdefault (ts_skill_id s) s) rows [])"
    using assms by (auto simp: list_published_toolchain_statuses_def res_bind_eq_Inr res_map_eq_Inr)
  define st where "st = (\<lambda>(ch, v :: version_row). \<lparr>ts_skill_id = sv_skill_id v,
    ts_trust_tier = projr (TrustTier_of (sk_trust_tier (the (map_of (db_skills idb) (sv_skill_id v))))),
    ts_content_hash = ch, ts_recorded_toolchain_digest = sv_toolchain_digest v\<rparr>)"
  have "rows = map st S"
    using rows(1) unfolding joined_versions_def S_def [symmetric] list_all2_map1
    by (induction rule: list_all2_induct) (auto simp: st_def res_bind_eq_Inr)
  note rows' = this
  have cur: "\<exists>v. (ts_content_hash s, v) \<in> set (db_versions idb) \<and> sv_skill_id v = ts_skill_id s \<and>
      ts_recorded_toolchain_digest s = sv_toolchain_digest v \<and>
      (\<forall>(ch, w) \<in> set (db_versions idb). sv_skill_id w = ts_skill_id s \<longrightarrow> sv_created_at w \<le> sv_created_at v)"
    if s: "s \<in> set ss" for s
  proof -
    have "List.find (\<lambda>x. ts_skill_id x = ts_skill_id s) rows = Some s"
      using setdefault_first(2) [of s ts_skill_id rows] s rows(2) by simp
    then obtain x where x: "List.find ((\<lambda>x. ts_skill_id x = ts_skill_id s) \<circ> st) S = Some x" "s = st x"
      by (auto simp: rows' find_map)
    obtain ch v where cv: "x = (ch, v)" by (cases x)
    have mem: "(ch, v) \<in> set S" "sv_skill_id v = ts_skill_id s" using x cv by (auto simp: find_Some_iff st_def)
    have "map_of (db_skills idb) (sv_skill_id v) \<noteq> None" using mem(1) by (simp add: S_def)
    then have "sv_created_at w \<le> sv_created_at v" if w: "(c, w) \<in> set (db_versions idb)" "sv_skill_id w = ts_skill_id s" for c w
      using find_least [of ?key S _ x "(c, w)", OF _ x(1)] w mem(2) cv by (auto simp: S_def st_def less_eq_prod_def)
    moreover have "(ts_content_hash s, v) \<in> set (db_versions idb)" "ts_recorded_toolchain_digest s = sv_toolchain_digest v"
      using mem(1) x(2) cv by (simp_all add: S_def st_def)
    ultimately show ?thesis using mem(2) by (intro exI [of _ v]) auto
  qed
  have "distinct (map ts_skill_id ss)" using setdefault_first(1) [of ts_skill_id rows] rows(2) by simp
  then show ?thesis using cur by blast
qed

text \<open>Note: Separation of duties does not reach rescans. A job queued by the re-evaluation has the controller as its
  submitter and no other submitter on record, so the check that refuses a submitter's own review
  refuses no person for it, in particular not whoever submitted the same content.\<close>

theorem rescan_has_no_human_submitter:
  assumes "trigger_rescans sha uuid td ''system:reeval-controller'' now ts (odb, 0) = Inr (odb', n)"
    and "distinct (map (uuid \<circ> ts_content_hash) ts)" "\<forall>t \<in> set ts. uuid (ts_content_hash t) \<notin> fst ` set (od_jobs odb)"
    and "\<forall>t \<in> set ts. \<forall>s \<in> set (od_submitters odb). su_scan_id s \<noteq> uuid (ts_content_hash t)"
    and "(sid, job) \<in> set (od_jobs odb')" "sid \<notin> fst ` set (od_jobs odb)" "who \<noteq> ''system:reeval-controller''"
  shows "sj_submitter job \<noteq> who \<and> \<not> is_scan_submitter odb' sid who"
proof -
  obtain new where new: "odb' = odb\<lparr>od_jobs := od_jobs odb @ new\<rparr>" "fst ` set new \<subseteq> (uuid \<circ> ts_content_hash) ` set ts"
    "\<forall>j \<in> snd ` set new. rescan_of sha td ''system:reeval-controller'' ts j"
    using trigger_rescans_InrD [OF assms(1-3)] by (elim exE conjE)
  have mem: "(sid, job) \<in> set new" using assms(5,6) new(1) by force
  then have "rescan_of sha td ''system:reeval-controller'' ts job" using new(3) by force
  then have "sj_submitter job = ''system:reeval-controller''" by (auto simp: rescan_of_def)
  moreover have "sid \<in> (uuid \<circ> ts_content_hash) ` set ts" using mem new(2) by force
  then have "\<not> is_scan_submitter odb' sid who"
    using assms(4) new(1) by (auto simp: is_scan_submitter_def list_ex_iff)
  ultimately show ?thesis using assms(7) by metis
qed

section \<open>Witnesses\<close>

definition empty_reeval :: reeval_state where
  "empty_reeval = \<lparr>rs_rows = [], rs_alerts = [], rs_quarantined = []\<rparr>"

theorem poll_quarantines_exactly_unapproved_witness:
  "map fst (rs_quarantined (fst (run_poll_reconciliation id 0 empty_gate (Inr [[(''content_hash'', ''c''), (''skill_id'', ''k'')]])
     False empty_reeval))) = [''k'']"
proof -
  have p: "parse_published_entries [[(''content_hash'', ''c''), (''skill_id'', ''k'')]] = Inr [\<lparr>pe_content_hash = ''c'', pe_skill_id = ''k''\<rparr>]"
    by (simp add: parse_published_entries_def)
  obtain st r where r: "run_poll_reconciliation id 0 empty_gate (Inr [[(''content_hash'', ''c''), (''skill_id'', ''k'')]])
     False empty_reeval = (st, r)" by fastforce
  have "\<not> in_force_pass empty_gate ''c''" by (simp add: in_force_pass_def empty_gate_def)
  then show ?thesis using poll_quarantines_exactly_unapproved [OF p r] r by (simp add: empty_reeval_def)
qed

theorem push_only_alerts_witness:
  "length (rs_alerts (fst (apply_push_event id 0 empty_gate \<lparr>pe_content_hash = ''c'', pe_skill_id = ''k''\<rparr> False empty_reeval))) = 1"
proof -
  have "\<not> in_force_pass empty_gate ''c''" by (simp add: in_force_pass_def empty_gate_def)
  then show ?thesis
    using push_only_alerts [OF refl, of id 0 empty_gate "\<lparr>pe_content_hash = ''c'', pe_skill_id = ''k''\<rparr>" empty_reeval]
    by (simp add: empty_reeval_def)
qed

definition demo_status :: toolchain_status where
  "demo_status = \<lparr>ts_skill_id = ''k'', ts_trust_tier = PUBLIC, ts_content_hash = ''c'', ts_recorded_toolchain_digest = ''t1''\<rparr>"

lemma demo_cache_key: "cache_key (\<lambda>_. ''d'') ''c'' ''t2'' = Inr ''d''"
  using string_ok_of [of "''c::t2''"] by (simp add: cache_key_def encode_string_eq [THEN iffD2])

lemma demo_rescan:
  "\<exists>odb' j. trigger_rescans (\<lambda>_. ''d'') (\<lambda>_. ''u'') ''t2'' ''system:reeval-controller'' 0 [demo_status] (empty_orch, 0) = Inr (odb', 1) \<and>
     od_jobs odb' = [(''u'', j)]"
  by (simp add: rescan_step_def build_rescan_job_def demo_cache_key demo_status_def empty_orch_def)

theorem rescans_queued_once_at_own_tier_witness:
  "\<exists>odb'. trigger_rescans (\<lambda>_. ''d'') (\<lambda>_. ''u'') ''t2'' ''system:reeval-controller'' 0 [demo_status] (empty_orch, 0) = Inr (odb', 1) \<and>
     trigger_rescans (\<lambda>_. ''d'') (\<lambda>_. ''w'') ''t2'' ''op'' 9 [demo_status] (odb', 0) = Inr (odb', 0)"
proof -
  obtain odb' where r: "trigger_rescans (\<lambda>_. ''d'') (\<lambda>_. ''u'') ''t2'' ''system:reeval-controller'' 0 [demo_status] (empty_orch, 0) = Inr (odb', 1)"
    using demo_rescan by (elim exE conjE)
  have "trigger_rescans (\<lambda>_. ''d'') (\<lambda>_. ''w'') ''t2'' ''op'' 9 [demo_status] (odb', 0) = Inr (odb', 0)"
    using rescans_queued_once_at_own_tier [OF r] by (simp add: empty_orch_def)
  then show ?thesis using r by (intro exI conjI)
qed

theorem rescan_has_no_human_submitter_witness:
  "\<exists>odb' j. od_jobs odb' = [(''u'', j)] \<and> sj_submitter j \<noteq> ''alice'' \<and> \<not> is_scan_submitter odb' ''u'' ''alice''"
proof -
  obtain odb' j where r: "trigger_rescans (\<lambda>_. ''d'') (\<lambda>_. ''u'') ''t2'' ''system:reeval-controller'' 0 [demo_status] (empty_orch, 0) = Inr (odb', 1)"
    "od_jobs odb' = [(''u'', j)]"
    using demo_rescan by (elim exE conjE)
  have "sj_submitter j \<noteq> ''alice'' \<and> \<not> is_scan_submitter odb' ''u'' ''alice''"
    by (rule rescan_has_no_human_submitter [OF r(1)]) (simp_all add: r(2) empty_orch_def)
  with r(2) have "od_jobs odb' = [(''u'', j)] \<and> sj_submitter j \<noteq> ''alice'' \<and> \<not> is_scan_submitter odb' ''u'' ''alice''" by (rule conjI)
  then show ?thesis by (intro exI)
qed

theorem statuses_are_current_versions_witness:
  "\<exists>ss. list_published_toolchain_statuses (empty_inventory\<lparr>db_skills := [(''k'', \<lparr>sk_source = ''git'', sk_trust_tier = ''public'',
     sk_scope = None, sk_owner = None, sk_created_at = 0\<rparr>)],
     db_versions := [(''c'', \<lparr>sv_skill_id = ''k'', sv_toolchain_digest = ''t1'', sv_declared_perms = PNone, sv_created_at = 0\<rparr>)]\<rparr>) = Inr ss \<and>
     ss \<noteq> [] \<and> distinct (map ts_skill_id ss)" (is "\<exists>ss. list_published_toolchain_statuses ?idb = Inr ss \<and> _")
proof -
  have "TrustTier_of ''public'' = Inr PUBLIC" by (simp add: TrustTier_of_value)
  then obtain s where s: "list_published_toolchain_statuses ?idb = Inr [s]"
    by (simp add: list_published_toolchain_statuses_def joined_versions_def dict_setdefault_def)
  show ?thesis using conjunct1 [OF statuses_are_current_versions [OF s]] s by (intro exI [of _ "[s]"] conjI) simp_all
qed

end
