(* ===== verification/Engine_Dispatch.thy ===== *)
theory Engine_Dispatch
  imports Scan_Properties "HOL-Library.Sublist"
begin

text \<open>
  Running the engines: the in-process worker (\<open>run_mock_engine_worker_tick\<close> of \<open>orchestration/service.py\<close>),
  the sandbox worker (\<open>services/engine_runner/worker.py\<close>) and the sweep that puts queued jobs back on the
  stream (\<open>worker.py\<close>). The claimed batch, the delivery counts, the hardened unpacking, the engines,
  their durations, the JSON text and failures of the store are parameters. A failure of one job is contained:
  what it wrote stays, and its message is not acknowledged.
\<close>

section \<open>Workers\<close>

record claimed_job = scan_message +
  cj_message_id :: string

record produced =
  pr_scan_id :: string
  pr_findings_key :: string
  pr_engine :: string
  pr_status :: string
  pr_analyze_duration_ms :: "int option"

type_synonym files = "(ustr \<times> bytes) list"
type_synonym engine = "files \<Rightarrow> real \<Rightarrow> engine_result res"

record 'raw runner =
  rn_unpack :: "'raw \<Rightarrow> file_entry list res"
  rn_dump :: "json_object \<Rightarrow> 'raw"
  rn_capabilities :: "engine_capability set \<Rightarrow> engine_capability list"
  rn_signals :: "trifecta_signal set \<Rightarrow> trifecta_signal list"
  rn_elapsed_ms :: "string \<Rightarrow> string \<Rightarrow> int"
  rn_put :: "string \<Rightarrow> unit res"
  rn_engines :: "(string \<times> engine) list"

record 'raw worker_state =
  wk_blobs :: "string \<rightharpoonup> 'raw"
  wk_results :: "produced list"
  wk_acked :: "string list"
  wk_processed :: nat

text \<open>\<open>{path: data for path, _mode, data in ...}\<close>.\<close>

definition file_dict :: "file_entry list \<Rightarrow> files" where
  "file_dict entries = fold (\<lambda>(path, mode, data). dict_put path data) entries []"

definition terminal_result :: "string \<Rightarrow> string \<Rightarrow> string \<Rightarrow> produced" where
  "terminal_result scan_id engine status = \<lparr>pr_scan_id = scan_id, pr_findings_key = [], pr_engine = engine,
     pr_status = status, pr_analyze_duration_ms = None\<rparr>"

definition ack :: "string \<Rightarrow> 'raw worker_state \<Rightarrow> 'raw worker_state" where
  "ack m st = st\<lparr>wk_acked := wk_acked st @ [m], wk_processed := Suc (wk_processed st)\<rparr>"

text \<open>One engine: its result becomes a blob, then a message.\<close>

definition report ::
  "'raw runner \<Rightarrow> string \<Rightarrow> string \<Rightarrow> engine_result res \<Rightarrow> int option \<Rightarrow> 'raw worker_state \<Rightarrow> 'raw worker_state \<times> unit res" where
  "report rn scan_id engine_name result ms st =
     (case result of
        Inl e \<Rightarrow> (st, Inl e)
      | Inr r \<Rightarrow>
          let key = findings_key scan_id engine_name
          in (case rn_put rn key of
                Inl e \<Rightarrow> (st, Inl e)
              | Inr _ \<Rightarrow>
                  (st\<lparr>wk_blobs := (wk_blobs st)(key \<mapsto> rn_dump rn (serialize_engine_result (rn_capabilities rn) (rn_signals rn) r ms)),
                      wk_results := wk_results st @ [\<lparr>pr_scan_id = scan_id, pr_findings_key = key, pr_engine = engine_name,
                        pr_status = status_value (er_status r), pr_analyze_duration_ms = ms\<rparr>]\<rparr>, Inr ())))"

text \<open>The dispatch list of the in-process worker: an engine that is not registered is reported as failed.\<close>

definition dispatch_one ::
  "'raw runner \<Rightarrow> string \<Rightarrow> files \<Rightarrow> real \<Rightarrow> string \<Rightarrow> 'raw worker_state \<Rightarrow> 'raw worker_state \<times> unit res" where
  "dispatch_one rn scan_id fs deadline engine_name st =
     (case map_of (rn_engines rn) engine_name of
        Some engine \<Rightarrow> report rn scan_id engine_name (engine fs deadline) (Some (rn_elapsed_ms rn scan_id engine_name)) st
      | None \<Rightarrow> report rn scan_id engine_name
          (unavailable_engine_result engine_name ''engine not registered on this worker'') None st)"

fun dispatch_list ::
  "'raw runner \<Rightarrow> string \<Rightarrow> files \<Rightarrow> real \<Rightarrow> string list \<Rightarrow> 'raw worker_state \<Rightarrow> 'raw worker_state \<times> unit res" where
  "dispatch_list rn scan_id fs deadline [] st = (st, Inr ())"
| "dispatch_list rn scan_id fs deadline (e # es) st =
     (case dispatch_one rn scan_id fs deadline e st of
        (st1, Inl x) \<Rightarrow> (st1, Inl x)
      | (st1, Inr _) \<Rightarrow> dispatch_list rn scan_id fs deadline es st1)"

definition dispatch_engine_names :: "'a scan_message_scheme \<Rightarrow> string list \<Rightarrow> string list" where
  "dispatch_engine_names job additional_engine_names =
     sm_engines job @ filter (\<lambda>e. e \<notin> set (sm_engines job)) additional_engine_names"

text \<open>One job of the in-process worker. An exception of the delivery count is the only one that leaves
  the function; every other is contained.\<close>

definition mock_job ::
  "'raw runner \<Rightarrow> (string \<Rightarrow> nat res) \<Rightarrow> string list \<Rightarrow> claimed_job \<Rightarrow> 'raw worker_state \<Rightarrow> 'raw worker_state \<times> unit res" where
  "mock_job rn delivery_count additional_engine_names job st =
     (case delivery_count (cj_message_id job) of
        Inl e \<Rightarrow> (st, Inl e)
      | Inr delivered \<Rightarrow>
          if delivered > MAX_DELIVERY_COUNT then
            (ack (cj_message_id job) (st\<lparr>wk_results := wk_results st @
              [terminal_result (sm_scan_id job) POISON_PILL_ENGINE_MARKER POISON_PILL_STATUS]\<rparr>), Inr ())
          else
            (let rejected = ack (cj_message_id job) (st\<lparr>wk_results := wk_results st @
                   [terminal_result (sm_scan_id job) UNPACK_REJECTED_ENGINE_MARKER UNPACK_REJECTED_STATUS]\<rparr>)
             in (case wk_blobs st (sm_artifact_key job) of
                   None \<Rightarrow> (rejected, Inr ())
                 | Some artifact \<Rightarrow>
                     (case rn_unpack rn artifact of
                        Inl e \<Rightarrow> if e = UnpackRejected then (rejected, Inr ()) else (st, Inr ())
                      | Inr entries \<Rightarrow>
                          (case dispatch_list rn (sm_scan_id job) (file_dict entries) (sm_deadline_epoch job)
                              (dispatch_engine_names job additional_engine_names) st of
                             (st1, Inl _) \<Rightarrow> (st1, Inr ())
                           | (st1, Inr _) \<Rightarrow> (ack (cj_message_id job) st1, Inr ()))))))"

fun run_mock_engine_worker_tick ::
  "'raw runner \<Rightarrow> (string \<Rightarrow> nat res) \<Rightarrow> string list \<Rightarrow> claimed_job list \<Rightarrow> 'raw worker_state \<Rightarrow> 'raw worker_state \<times> unit res" where
  "run_mock_engine_worker_tick rn delivery_count additional [] st = (st, Inr ())"
| "run_mock_engine_worker_tick rn delivery_count additional (job # jobs) st =
     (case mock_job rn delivery_count additional job st of
        (st1, Inl e) \<Rightarrow> (st1, Inl e)
      | (st1, Inr _) \<Rightarrow> run_mock_engine_worker_tick rn delivery_count additional jobs st1)"

text \<open>The sandbox worker: every registered engine that is not disabled; rejected packages are only
  acknowledged, because the other worker reports them.\<close>

fun dispatch_engines ::
  "'raw runner \<Rightarrow> string \<Rightarrow> files \<Rightarrow> real \<Rightarrow> string set \<Rightarrow> (string \<times> engine) list \<Rightarrow> 'raw worker_state \<Rightarrow>
   'raw worker_state \<times> unit res" where
  "dispatch_engines rn scan_id fs deadline disabled [] st = (st, Inr ())"
| "dispatch_engines rn scan_id fs deadline disabled ((n, engine) # es) st =
     (if n \<in> disabled then dispatch_engines rn scan_id fs deadline disabled es st
      else case report rn scan_id n (engine fs deadline) (Some (rn_elapsed_ms rn scan_id n)) st of
        (st1, Inl x) \<Rightarrow> (st1, Inl x)
      | (st1, Inr _) \<Rightarrow> dispatch_engines rn scan_id fs deadline disabled es st1)"

definition sandbox_job :: "'raw runner \<Rightarrow> string set \<Rightarrow> claimed_job \<Rightarrow> 'raw worker_state \<Rightarrow> 'raw worker_state" where
  "sandbox_job rn disabled job st =
     (case wk_blobs st (sm_artifact_key job) of
        None \<Rightarrow> ack (cj_message_id job) st
      | Some artifact \<Rightarrow>
          (case rn_unpack rn artifact of
             Inl e \<Rightarrow> if e = UnpackRejected then ack (cj_message_id job) st else st
           | Inr entries \<Rightarrow>
               (case dispatch_engines rn (sm_scan_id job) (file_dict entries) (sm_deadline_epoch job) disabled (rn_engines rn) st of
                  (st1, Inl _) \<Rightarrow> st1
                | (st1, Inr _) \<Rightarrow> ack (cj_message_id job) st1)))"

definition sandbox_engine_tick :: "'raw runner \<Rightarrow> string set \<Rightarrow> claimed_job list \<Rightarrow> 'raw worker_state \<Rightarrow> 'raw worker_state" where
  "sandbox_engine_tick rn disabled jobs st = fold (sandbox_job rn disabled) jobs st"

section \<open>Putting queued jobs back\<close>

definition UNRUNNABLE_ENGINE_MARKER :: string where "UNRUNNABLE_ENGINE_MARKER = ''__artifact_missing__''"
definition REQUEUE_QUEUED_AFTER_S :: real where "REQUEUE_QUEUED_AFTER_S = 60"

text \<open>The new messages of the scan stream, the new results and the count.\<close>

definition sweep_queued_jobs_to_airlock ::
  "gate_policy \<Rightarrow> real \<Rightarrow> real \<Rightarrow> real \<Rightarrow> 'raw system \<Rightarrow> 'raw system \<times> produced list \<times> nat" where
  "sweep_queued_jobs_to_airlock policy now requeue_after_s scan_deadline_s sy =
     (let rows = filter (\<lambda>(k, j). sj_state j = STATE_QUEUED \<and> sj_created_at j < now - requeue_after_s) (od_jobs (sy_orch sy));
          runnable = filter (\<lambda>(k, j). sy_blobs sy (artifact_key (sj_content_hash j)) \<noteq> None) rows;
          gone = filter (\<lambda>(k, j). sy_blobs sy (artifact_key (sj_content_hash j)) = None) rows
      in (sy\<lparr>sy_scans := sy_scans sy @ map (\<lambda>(k, j). \<lparr>sm_scan_id = k, sm_content_hash = sj_content_hash j,
              sm_artifact_key = artifact_key (sj_content_hash j), sm_deadline_epoch = now + scan_deadline_s,
              sm_engines = sorted_list_of_set (gp_required_engines policy)\<rparr>) runnable\<rparr>,
          map (\<lambda>(k, j). terminal_result k UNRUNNABLE_ENGINE_MARKER POISON_PILL_STATUS) gone,
          length runnable))"

section \<open>Facts\<close>

text \<open>Nothing a worker does is undone: blobs stay, results and acknowledgements are only added.\<close>

definition extends :: "'raw worker_state \<Rightarrow> 'raw worker_state \<Rightarrow> bool" where
  "extends st st' \<longleftrightarrow> dom (wk_blobs st) \<subseteq> dom (wk_blobs st') \<and> set (wk_results st) \<subseteq> set (wk_results st') \<and>
     (\<exists>more. wk_acked st' = wk_acked st @ more)"

lemma extends_refl [simp]: "extends st st"
  by (simp add: extends_def)

lemma extends_trans: "extends a b \<Longrightarrow> extends b c \<Longrightarrow> extends a c"
  by (auto simp: extends_def)

lemma report_cases:
  assumes "report rn sid n res ms st = (st', x)"
  obtains (failed) e where "x = Inl e" "st' = st"
  | (wrote) r where "x = Inr ()" "wk_acked st' = wk_acked st" "extends st st'"
      "wk_blobs st' = (wk_blobs st)(findings_key sid n \<mapsto> rn_dump rn (serialize_engine_result (rn_capabilities rn) (rn_signals rn) r ms))"
      "res = Inr r" "\<exists>p \<in> set (wk_results st'). pr_scan_id p = sid \<and> pr_engine p = n \<and> pr_status p = status_value (er_status r)"
proof (cases res)
  case (Inl e)
  then show thesis using assms by (intro failed [of e]) (simp_all add: report_def)
next
  case (Inr r)
  show thesis
  proof (cases "rn_put rn (findings_key sid n)")
    case (Inl e)
    then show thesis using assms Inr by (intro failed [of e]) (simp_all add: report_def Let_def)
  next
    case put: (Inr u)
    note eq = assms [unfolded report_def Inr sum.case Let_def put, unfolded prod.inject]
    from eq have st': "st' = st\<lparr>wk_blobs := (wk_blobs st)(findings_key sid n \<mapsto> rn_dump rn (serialize_engine_result (rn_capabilities rn) (rn_signals rn) r ms)),
        wk_results := wk_results st @ [\<lparr>pr_scan_id = sid, pr_findings_key = findings_key sid n, pr_engine = n,
          pr_status = status_value (er_status r), pr_analyze_duration_ms = ms\<rparr>]\<rparr>" and x: "x = Inr ()"
      by simp_all
    have "extends st st'" unfolding st' extends_def by auto
    with Inr x show thesis by (intro wrote [of r]) (simp_all add: st')
  qed
qed

text \<open>What a finished dispatch left: a blob and a message for every engine of the list.\<close>

definition all_reported :: "string \<Rightarrow> string list \<Rightarrow> 'raw worker_state \<Rightarrow> bool" where
  "all_reported sid es st \<longleftrightarrow> (\<forall>e \<in> set es. reported (wk_blobs st) sid e \<and>
     (\<exists>p \<in> set (wk_results st). pr_scan_id p = sid \<and> pr_engine p = e))"

definition given_up :: "string \<Rightarrow> 'raw worker_state \<Rightarrow> bool" where
  "given_up sid st \<longleftrightarrow> (\<exists>p \<in> set (wk_results st). pr_scan_id p = sid \<and> pr_status p \<in> {POISON_PILL_STATUS, UNPACK_REJECTED_STATUS})"

lemma given_up_mono: "given_up sid st \<Longrightarrow> extends st st' \<Longrightarrow> given_up sid st'"
  unfolding given_up_def extends_def by blast

lemma all_reported_mono: "all_reported sid es st \<Longrightarrow> extends st st' \<Longrightarrow> all_reported sid es st'"
  by (fastforce simp: all_reported_def extends_def reported_def)

lemma dispatch_list_result:
  assumes "dispatch_list rn sid fs dl es st = (st', x)"
  shows "extends st st' \<and> wk_acked st' = wk_acked st \<and> (x = Inr () \<longrightarrow> all_reported sid es st')"
  using assms
proof (induction es arbitrary: st)
  case Nil
  then show ?case by (simp add: all_reported_def)
next
  case (Cons e es)
  obtain st1 y where 1: "dispatch_one rn sid fs dl e st = (st1, y)" by fastforce
  obtain res ms where rep: "report rn sid e res ms st = (st1, y)"
    using 1 by (auto simp: dispatch_one_def split: option.splits)
  from rep show ?case
  proof (cases rule: report_cases)
    case (failed err)
    then show ?thesis using Cons.prems 1 by auto
  next
    case (wrote r)
    then have 2: "dispatch_list rn sid fs dl es st1 = (st', x)" using Cons.prems 1 by simp
    have "all_reported sid [e] st1" using wrote(4,6) by (auto simp: all_reported_def reported_def)
    then show ?thesis
      using Cons.IH [OF 2] wrote(2,3) extends_trans [of st st1 st'] all_reported_mono [of sid "[e]" st1 st']
      by (auto simp: all_reported_def)
  qed
qed

lemma dispatch_list_processed:
  "dispatch_list rn sid fs dl es st = (st', x) \<Longrightarrow> wk_processed st' = wk_processed st"
proof (induction es arbitrary: st)
  case (Cons e es)
  obtain st1 y where 1: "dispatch_one rn sid fs dl e st = (st1, y)" by fastforce
  then have "wk_processed st1 = wk_processed st"
    by (auto simp: dispatch_one_def report_def Let_def split: option.splits sum.splits)
  then show ?case using Cons 1 by (auto split: sum.splits)
qed simp

text \<open>How one job of the in-process worker can end.\<close>

lemma mock_job_cases:
  assumes "mock_job rn dc add job st = (st', Inr ())"
  obtains (terminal) "given_up (sm_scan_id job) st'"
      "wk_acked st' = wk_acked st @ [cj_message_id job]" "extends st st'" "wk_blobs st' = wk_blobs st"
      "wk_processed st' = Suc (wk_processed st)"
  | (dispatched) "all_reported (sm_scan_id job) (dispatch_engine_names job add) st'"
      "wk_acked st' = wk_acked st @ [cj_message_id job]" "extends st st'" "dc (cj_message_id job) \<in> Inr ` {..MAX_DELIVERY_COUNT}"
      "wk_processed st' = Suc (wk_processed st)"
  | (contained) "wk_acked st' = wk_acked st" "extends st st'" "dc (cj_message_id job) \<in> Inr ` {..MAX_DELIVERY_COUNT}"
      "wk_processed st' = wk_processed st"
proof -
  obtain d where d: "dc (cj_message_id job) = Inr d" using assms by (cases "dc (cj_message_id job)") (simp_all add: mock_job_def)
  note m = assms [unfolded mock_job_def d sum.case Let_def]
  show thesis
  proof (cases "d > MAX_DELIVERY_COUNT")
    case True
    then show thesis using m by (intro terminal) (auto simp: ack_def extends_def terminal_result_def given_up_def)
  next
    case False
    then have d': "dc (cj_message_id job) \<in> Inr ` {..MAX_DELIVERY_COUNT}" using d by simp
    note m = m [unfolded if_not_P [OF False]]
    show thesis
    proof (cases "wk_blobs st (sm_artifact_key job)")
      case None
      then show thesis using m by (intro terminal) (auto simp: ack_def extends_def terminal_result_def given_up_def)
    next
      case (Some art)
      show thesis
      proof (cases "rn_unpack rn art")
        case (Inl e)
        show thesis
        proof (cases "e = UnpackRejected")
          case True
          then show thesis using m Some Inl by (intro terminal) (auto simp: ack_def extends_def terminal_result_def given_up_def)
        next
          case False
          then show thesis using m Some Inl d' by (intro contained) auto
        qed
      next
        case (Inr entries)
        obtain st1 x where dl: "dispatch_list rn (sm_scan_id job) (file_dict entries) (sm_deadline_epoch job)
            (dispatch_engine_names job add) st = (st1, x)" by fastforce
        note res = dispatch_list_result [OF dl]
        have same: "wk_processed st1 = wk_processed st" using dispatch_list_processed [OF dl] .
        show thesis
        proof (cases x)
          case (Inl e)
          then have "st' = st1" using m Some Inr dl by simp
          then show thesis using res d' same by (intro contained) simp_all
        next
          case (Inr u)
          then have st': "st' = ack (cj_message_id job) st1" using m Some \<open>rn_unpack rn art = _\<close> dl by simp
          have ext: "extends st1 st'" by (simp add: st' ack_def extends_def)
          show thesis
            using res Inr d' same extends_trans [OF _ ext] all_reported_mono [OF _ ext]
            by (intro dispatched) (simp_all add: st' ack_def)
        qed
      qed
    qed
  qed
qed


text \<open>What an acknowledged job leaves behind.\<close>

definition accounted :: "string list \<Rightarrow> 'raw worker_state \<Rightarrow> claimed_job \<Rightarrow> bool" where
  "accounted additional st job \<longleftrightarrow> given_up (sm_scan_id job) st \<or>
     all_reported (sm_scan_id job) (dispatch_engine_names job additional) st"

lemma accounted_mono: "accounted add st job \<Longrightarrow> extends st st' \<Longrightarrow> accounted add st' job"
  unfolding accounted_def using given_up_mono all_reported_mono by blast

lemma mock_job_accounted:
  assumes "mock_job rn dc add job st = (st', Inr ())"
  obtains (acked) "accounted add st' job" "wk_acked st' = wk_acked st @ [cj_message_id job]" "extends st st'"
      "wk_processed st' = Suc (wk_processed st)"
  | (kept) "wk_acked st' = wk_acked st" "extends st st'" "dc (cj_message_id job) \<in> Inr ` {..MAX_DELIVERY_COUNT}"
      "wk_processed st' = wk_processed st"
  using assms
proof (cases rule: mock_job_cases)
  case terminal
  then show thesis by (intro acked) (simp_all add: accounted_def)
next
  case dispatched
  then show thesis by (intro acked) (simp_all add: accounted_def)
next
  case contained
  then show thesis by (intro kept)
qed

lemma mock_job_readable: "dc (cj_message_id job) = Inr d \<Longrightarrow> \<exists>st'. mock_job rn dc add job st = (st', Inr ())"
  unfolding mock_job_def Let_def by (auto split: option.split sum.split prod.split)


section \<open>The sandbox worker\<close>

lemma status_value_not_terminal: "status_value s \<notin> {POISON_PILL_STATUS, UNPACK_REJECTED_STATUS}"
  by (cases s) (simp_all add: POISON_PILL_STATUS_def UNPACK_REJECTED_STATUS_def)

text \<open>A message the sandbox worker may add: of an enabled, registered engine, with the status of a result,
  and with the result stored.\<close>

definition sandbox_message :: "'raw runner \<Rightarrow> string set \<Rightarrow> 'raw worker_state \<Rightarrow> produced \<Rightarrow> bool" where
  "sandbox_message rn disabled st p \<longleftrightarrow> pr_engine p \<in> set (map fst (rn_engines rn)) - disabled \<and>
     pr_status p \<notin> {POISON_PILL_STATUS, UNPACK_REJECTED_STATUS} \<and> reported (wk_blobs st) (pr_scan_id p) (pr_engine p)"

definition sandbox_grows :: "'raw runner \<Rightarrow> string set \<Rightarrow> 'raw worker_state \<Rightarrow> 'raw worker_state \<Rightarrow> bool" where
  "sandbox_grows rn disabled st st' \<longleftrightarrow> extends st st' \<and>
     (\<forall>p \<in> set (wk_results st'). p \<in> set (wk_results st) \<or> sandbox_message rn disabled st' p)"

lemma sandbox_grows_refl [simp]: "sandbox_grows rn dis st st"
  by (simp add: sandbox_grows_def)

lemma sandbox_message_mono: "sandbox_message rn dis st p \<Longrightarrow> extends st st' \<Longrightarrow> sandbox_message rn dis st' p"
  unfolding sandbox_message_def extends_def reported_def by blast

lemma sandbox_grows_trans: "sandbox_grows rn dis a b \<Longrightarrow> sandbox_grows rn dis b c \<Longrightarrow> sandbox_grows rn dis a c"
  unfolding sandbox_grows_def using extends_trans sandbox_message_mono by blast

lemma sandbox_grows_ack [simp]: "sandbox_grows rn dis st (ack m st)"
  by (simp add: sandbox_grows_def extends_def ack_def)

lemma report_sandbox_grows:
  assumes "report rn sid n res ms st = (st', x)" "n \<in> set (map fst (rn_engines rn)) - dis"
  shows "sandbox_grows rn dis st st' \<and> (x = Inr () \<longrightarrow> all_reported sid [n] st')"
  using assms(1)
proof (cases rule: report_cases)
  case (failed e)
  then show ?thesis by simp
next
  case (wrote r)
  have all: "all_reported sid [n] st'" using wrote(4,6) by (auto simp: all_reported_def reported_def)
  obtain k p where p: "wk_results st' = wk_results st @ [p]" "pr_scan_id p = sid" "pr_engine p = n"
      "pr_status p = status_value (er_status r)"
  proof (cases "rn_put rn (findings_key sid n)")
    case (Inl e)
    then show thesis using assms(1) wrote(1,5) by (simp add: report_def Let_def)
  next
    case (Inr u)
    then show thesis using assms(1) wrote(5) that by (auto simp: report_def Let_def)
  qed
  have "sandbox_message rn dis st' p"
    using p assms(2) status_value_not_terminal [of "er_status r"] all
    unfolding sandbox_message_def all_reported_def by simp
  then show ?thesis using all wrote(3) p(1) by (auto simp: sandbox_grows_def)
qed

lemma dispatch_engines_result:
  assumes "dispatch_engines rn sid fs dl dis es st = (st', x)" "set es \<subseteq> set (rn_engines rn)"
  shows "sandbox_grows rn dis st st' \<and> (x = Inr () \<longrightarrow> all_reported sid (filter (\<lambda>n. n \<notin> dis) (map fst es)) st')"
  using assms
proof (induction es arbitrary: st)
  case Nil
  then show ?case by (auto simp: all_reported_def)
next
  case (Cons entry es)
  obtain n engine where e: "entry = (n, engine)" by fastforce
  show ?case
  proof (cases "n \<in> dis")
    case True
    then show ?thesis using Cons.IH [of st] Cons.prems e by simp
  next
    case False
    obtain st1 y where 1: "report rn sid n (engine fs dl) (Some (rn_elapsed_ms rn sid n)) st = (st1, y)" by fastforce
    have n: "n \<in> set (map fst (rn_engines rn)) - dis" using Cons.prems(2) e False by force
    note r = report_sandbox_grows [OF 1 n]
    show ?thesis
    proof (cases y)
      case (Inl err)
      then show ?thesis using Cons.prems(1) e False 1 r by auto
    next
      case (Inr u)
      then have 2: "dispatch_engines rn sid fs dl dis es st1 = (st', x)" using Cons.prems(1) e False 1 by simp
      have ih: "sandbox_grows rn dis st1 st'" "x = Inr () \<longrightarrow> all_reported sid (filter (\<lambda>n. n \<notin> dis) (map fst es)) st'"
        using Cons.IH [OF 2] Cons.prems(2) by simp_all
      moreover have "all_reported sid [n] st'"
        using all_reported_mono [of sid "[n]" st1 st'] r Inr ih(1) by (simp add: sandbox_grows_def)
      ultimately show ?thesis
        using sandbox_grows_trans [OF conjunct1 [OF r] ih(1)] False e by (simp add: all_reported_def)
    qed
  qed
qed

lemma dispatch_engines_acked: "dispatch_engines rn sid fs dl dis es st = (st', x) \<Longrightarrow> wk_acked st' = wk_acked st"
proof (induction es arbitrary: st)
  case (Cons entry es)
  obtain n engine where e: "entry = (n, engine)" by fastforce
  obtain st1 y where 1: "report rn sid n (engine fs dl) (Some (rn_elapsed_ms rn sid n)) st = (st1, y)" by fastforce
  then have "wk_acked st1 = wk_acked st" by (cases rule: report_cases) simp_all
  then show ?case using Cons e 1 by (auto split: if_splits sum.splits)
qed simp

text \<open>An acknowledged job had no usable package, or every enabled engine has reported it.\<close>

definition sandbox_accounted :: "'raw runner \<Rightarrow> string set \<Rightarrow> 'raw worker_state \<Rightarrow> 'raw worker_state \<Rightarrow> claimed_job \<Rightarrow> bool" where
  "sandbox_accounted rn disabled st st' job \<longleftrightarrow>
     Option.bind (wk_blobs st (sm_artifact_key job)) (\<lambda>a. if rn_unpack rn a = Inl UnpackRejected then None else Some a) = None \<or>
     all_reported (sm_scan_id job) (filter (\<lambda>n. n \<notin> disabled) (map fst (rn_engines rn))) st'"

lemma sandbox_job_result:
  "sandbox_grows rn dis st (sandbox_job rn dis job st) \<and>
   (wk_acked (sandbox_job rn dis job st) = wk_acked st \<or>
    wk_acked (sandbox_job rn dis job st) = wk_acked st @ [cj_message_id job] \<and> sandbox_accounted rn dis st (sandbox_job rn dis job st) job)"
proof (cases "Option.bind (wk_blobs st (sm_artifact_key job)) (\<lambda>a. if rn_unpack rn a = Inl UnpackRejected then None else Some a)")
  case None
  then have "sandbox_job rn dis job st = ack (cj_message_id job) st"
    by (auto simp: sandbox_job_def split: option.splits if_splits)
  then show ?thesis using None by (simp add: sandbox_accounted_def) (simp add: ack_def)
next
  case (Some a)
  then have a: "wk_blobs st (sm_artifact_key job) = Some a" "rn_unpack rn a \<noteq> Inl UnpackRejected"
    by (auto split: if_splits simp: bind_eq_Some_conv)
  show ?thesis
  proof (cases "rn_unpack rn a")
    case (Inl e)
    then show ?thesis using a by (auto simp: sandbox_job_def)
  next
    case (Inr entries)
    obtain st1 x where 1: "dispatch_engines rn (sm_scan_id job) (file_dict entries) (sm_deadline_epoch job) dis (rn_engines rn) st = (st1, x)"
      by fastforce
    note r = dispatch_engines_result [OF 1 subset_refl]
    have acked: "wk_acked st1 = wk_acked st" using dispatch_engines_acked [OF 1] .
    show ?thesis
    proof (cases x)
      case (Inl e)
      then show ?thesis using a Inr 1 r acked by (simp add: sandbox_job_def)
    next
      case (Inr u)
      have eq: "sandbox_job rn dis job st = ack (cj_message_id job) st1"
        using a \<open>rn_unpack rn a = _\<close> 1 Inr by (simp add: sandbox_job_def)
      have ext: "extends st1 (ack (cj_message_id job) st1)" by (simp add: ack_def extends_def)
      have "x = Inr ()" using Inr by simp
      note mono = all_reported_mono [OF conjunct2 [OF r, rule_format, OF this] ext]
      then show ?thesis
        using sandbox_grows_trans [OF conjunct1 [OF r] sandbox_grows_ack] acked mono
        by (simp add: eq sandbox_accounted_def) (simp add: ack_def)
    qed
  qed
qed

lemma sandbox_accounted_mono:
  "sandbox_accounted rn dis st0 st job \<Longrightarrow> extends st st' \<Longrightarrow> sandbox_accounted rn dis st0 st' job"
  unfolding sandbox_accounted_def using all_reported_mono by blast

text \<open>Note: The sandbox worker keeps to its enabled engines. Whatever batch it claims, every message it adds
  to the result stream is of a registered engine the administrator has not disabled, refers to a stored
  result, and never carries one of the two statuses that end a scan, so nothing an engine in the sandbox
  returns can have a scan given up; and every job it acknowledges had, when it was run, no package
  that unpacks, or has a stored result and a message of every enabled engine.\<close>

theorem sandbox_respects_toggle:
  "\<exists>acked. subseq acked jobs \<and>
     wk_acked (sandbox_engine_tick rn disabled jobs st) = wk_acked st @ map cj_message_id acked \<and>
     sandbox_grows rn disabled st (sandbox_engine_tick rn disabled jobs st) \<and>
     list_all (\<lambda>job. \<exists>st0. extends st st0 \<and>
       sandbox_accounted rn disabled st0 (sandbox_engine_tick rn disabled jobs st) job) acked"
proof (induction jobs arbitrary: st)
  case Nil
  show ?case by (simp add: sandbox_engine_tick_def)
next
  case (Cons job jobs)
  let ?st1 = "sandbox_job rn disabled job st" and ?st' = "sandbox_engine_tick rn disabled (job # jobs) st"
  have run: "?st' = sandbox_engine_tick rn disabled jobs ?st1" by (simp add: sandbox_engine_tick_def)
  obtain acked where 2: "subseq acked jobs" "wk_acked ?st' = wk_acked ?st1 @ map cj_message_id acked"
    "sandbox_grows rn disabled ?st1 ?st'"
    "list_all (\<lambda>job. \<exists>st0. extends ?st1 st0 \<and> sandbox_accounted rn disabled st0 ?st' job) acked"
    using Cons.IH [of ?st1] unfolding run by (elim exE conjE)
  note j = sandbox_job_result [of rn disabled st job]
  have grows: "sandbox_grows rn disabled st ?st'" using sandbox_grows_trans [OF conjunct1 [OF j] 2(3)] .
  have ext: "extends st ?st1" "extends ?st1 ?st'" using j 2(3) by (simp_all add: sandbox_grows_def)
  have rest: "list_all (\<lambda>job. \<exists>st0. extends st st0 \<and> sandbox_accounted rn disabled st0 ?st' job) acked"
    using 2(4) extends_trans [OF ext(1)] unfolding list_all_iff by blast
  show ?case
  proof (cases "wk_acked ?st1 = wk_acked st")
    case True
    then show ?thesis using 2 grows rest by (intro exI [of _ acked]) auto
  next
    case False
    then have "wk_acked ?st1 = wk_acked st @ [cj_message_id job]" "sandbox_accounted rn disabled st ?st1 job" using j by simp_all
    then show ?thesis
      using 2 grows rest sandbox_accounted_mono [OF _ ext(2)]
      by (intro exI [of _ "job # acked"]) (auto intro: exI [of _ st])
  qed
qed

section \<open>From the queue to the collector\<close>

text \<open>Note: A queued job is not forgotten. The sweep leaves every scan job that has been queued for too long with
  a terminal result, when its package is gone from the store, or with a message on the scan stream such that
  whichever worker claims it, under whatever name, with whatever additional engines: once the worker has
  acknowledged it, the scan has a terminal result or a stored result of every engine the policy requires,
  which is what the collector waits for before it scores. The sweep itself changes no scan.\<close>

theorem queued_job_reaches_collector:
  assumes "map_of (od_jobs (sy_orch sy)) k = Some j" "sj_state j = STATE_QUEUED" "sj_created_at j < now - requeue_after_s"
    and "finite (gp_required_engines policy)"
    and sweep: "sweep_queued_jobs_to_airlock policy now requeue_after_s scan_deadline_s sy = (sy', lost, swept)"
  shows "sy_orch sy' = sy_orch sy \<and>
    (terminal_result k UNRUNNABLE_ENGINE_MARKER POISON_PILL_STATUS \<in> set lost \<or>
     (\<exists>m \<in> set (sy_scans sy'). sm_scan_id m = k \<and> (\<forall>message_id rn delivery_count additional (st :: 'raw worker_state) st'.
        mock_job rn delivery_count additional (scan_message.extend m (claimed_job.fields message_id)) st = (st', Inr ()) \<longrightarrow>
        wk_acked st' = wk_acked st \<or> given_up k st' \<or> (\<forall>e \<in> gp_required_engines policy. reported (wk_blobs st') k e))))"
proof (cases "sy_blobs sy (artifact_key (sj_content_hash j))")
  case None
  have "(k, j) \<in> set (od_jobs (sy_orch sy))" using assms(1) by (rule map_of_SomeD)
  then have "terminal_result k UNRUNNABLE_ENGINE_MARKER POISON_PILL_STATUS \<in> set lost" "sy_orch sy' = sy_orch sy"
    using sweep assms(2,3) None unfolding sweep_queued_jobs_to_airlock_def Let_def by (auto intro!: image_eqI [of _ _ "(k, j)"])
  then show ?thesis by simp
next
  case (Some art)
  let ?m = "\<lparr>sm_scan_id = k, sm_content_hash = sj_content_hash j, sm_artifact_key = artifact_key (sj_content_hash j),
    sm_deadline_epoch = now + scan_deadline_s, sm_engines = sorted_list_of_set (gp_required_engines policy)\<rparr>"
  have "(k, j) \<in> set (od_jobs (sy_orch sy))" using assms(1) by (rule map_of_SomeD)
  then have m: "?m \<in> set (sy_scans sy')" "sy_orch sy' = sy_orch sy"
    using sweep assms(2,3) Some unfolding sweep_queued_jobs_to_airlock_def Let_def by (auto intro!: image_eqI [of _ _ "(k, j)"])
  have "wk_acked st' = wk_acked st \<or> given_up k st' \<or> (\<forall>e \<in> gp_required_engines policy. reported (wk_blobs st') k e)"
    if "mock_job rn delivery_count additional (scan_message.extend ?m (claimed_job.fields message_id)) st = (st', Inr ())"
    for message_id rn delivery_count additional and st st' :: "'raw worker_state"
    using that
  proof (cases rule: mock_job_accounted)
    case acked
    then show ?thesis
      using assms(4) by (auto simp: accounted_def all_reported_def dispatch_engine_names_def scan_message.defs claimed_job.defs)
  next
    case kept
    then show ?thesis by simp
  qed
  then show ?thesis using m by (intro conjI disjI2 bexI [of _ ?m]) simp_all
qed

section \<open>Witnesses\<close>

definition idle_worker :: "unit worker_state" where
  "idle_worker = \<lparr>wk_blobs = Map.empty, wk_results = [], wk_acked = [], wk_processed = 0\<rparr>"

definition bare_runner :: "unit runner" where
  "bare_runner = \<lparr>rn_unpack = (\<lambda>_. Inr []), rn_dump = (\<lambda>_. ()), rn_capabilities = (\<lambda>_. []), rn_signals = (\<lambda>_. []),
     rn_elapsed_ms = (\<lambda>_ _. 1), rn_put = (\<lambda>_. Inr ()), rn_engines = []\<rparr>"

definition tired_job :: claimed_job where
  "tired_job = \<lparr>sm_scan_id = ''s1'', sm_content_hash = ''d'', sm_artifact_key = ''a'', sm_deadline_epoch = 300,
     sm_engines = [''static-keyword''], cj_message_id = ''m1''\<rparr>"


text \<open>The queued scan of the first submission.\<close>

theorem queued_job_reaches_collector_witness:
  "\<exists>sy' lost n. sweep_queued_jobs_to_airlock sample_policy 100 60 300 demo_system = (sy', lost, n) \<and>
     (lost = [] \<longrightarrow> (\<exists>m \<in> set (sy_scans sy'). sm_scan_id m = ''s1''))"
proof -
  obtain sy' lost n where s: "sweep_queued_jobs_to_airlock sample_policy 100 60 300 demo_system = (sy', lost, n)"
    by (metis prod_cases3)
  have "sj_state demo_job = STATE_QUEUED" "sj_created_at demo_job < 100 - 60" "finite (gp_required_engines sample_policy)"
    by (simp_all add: demo_job_def sample_policy_def)
  note q = queued_job_reaches_collector [OF demo_ready(2) this s]
  have "lost = [] \<longrightarrow> (\<exists>m \<in> set (sy_scans sy'). sm_scan_id m = ''s1'')"
    using conjunct2 [OF q] by (auto simp del: split_paired_Ex)
  then show ?thesis using s by (intro exI conjI)
qed

end
