(* ===== verification/Archive_Unpack.thy ===== *)
theory Archive_Unpack
  imports Core_Canonical
begin

text \<open>
  Hardened unpacking of uploaded and stored archives (\<open>services/engine_runner/normalizer.py\<close>) and the packing of
  accepted files into the stored artifact (\<open>_pack_tar\<close> of \<open>orchestration/service.py\<close>). The tar and zip readers
  and the tar writer of the standard library are parameters: what they deliver for the given bytes, or the
  exception they raise. The limits, the path rules, the order of the checks and what becomes of each
  exception are the module's own and are modelled. Modification times are left out: nothing reads them back.
\<close>

unbundle bit_operations_syntax

section \<open>Limits\<close>

definition MAX_ARCHIVE_BYTES :: nat where "MAX_ARCHIVE_BYTES = 50 * 1024 * 1024"
definition MAX_SINGLE_FILE_BYTES :: nat where "MAX_SINGLE_FILE_BYTES = 20 * 1024 * 1024"
definition MAX_TOTAL_UNCOMPRESSED_BYTES :: nat where "MAX_TOTAL_UNCOMPRESSED_BYTES = 200 * 1024 * 1024"
definition MAX_ENTRY_COUNT :: nat where "MAX_ENTRY_COUNT = 5000"
definition MAX_COMPRESSION_RATIO :: real where "MAX_COMPRESSION_RATIO = 100"
definition MAX_PATH_DEPTH :: nat where "MAX_PATH_DEPTH = 20"

lemmas limit_defs = MAX_ARCHIVE_BYTES_def MAX_SINGLE_FILE_BYTES_def MAX_TOTAL_UNCOMPRESSED_BYTES_def
  MAX_ENTRY_COUNT_def MAX_COMPRESSION_RATIO_def MAX_PATH_DEPTH_def

section \<open>Member paths\<close>

fun clean_segments :: "ustr list \<Rightarrow> ustr list res" where
  "clean_segments [] = Inr []"
| "clean_segments (segment # segments) =
     (if segment = ustr_of ''.'' then clean_segments segments
      else if segment \<in> {[], ustr_of ''..''} then Inl UnpackRejected
      else if list_ex bad_segment (py_split backslash segment) then Inl UnpackRejected
      else res_bind (clean_segments segments) (\<lambda>cleaned. Inr (segment # cleaned)))"

definition canonicalize_member_path :: "ustr \<Rightarrow> ustr res" where
  "canonicalize_member_path name =
     res_bind (raise_if (0 \<in> set name) UnpackRejected) (\<lambda>_.
     res_bind (raise_if (py_startswith name [slash]) UnpackRejected) (\<lambda>_.
     let segments = py_split slash name in
     res_bind (raise_if (length segments > MAX_PATH_DEPTH) UnpackRejected) (\<lambda>_.
     res_bind (clean_segments segments) (\<lambda>cleaned.
     res_bind (raise_if (cleaned = []) UnpackRejected) (\<lambda>_.
     Inr (py_join [slash] cleaned))))))"

section \<open>Tar archives\<close>

record tar_member =
  tm_name :: ustr
  tm_issym :: bool
  tm_islnk :: bool
  tm_isfile :: bool
  tm_size :: int
  tm_mode :: int
  tm_extract :: "(nat \<Rightarrow> bytes res) option"

record zip_entry =
  ze_filename :: ustr
  ze_flag_bits :: int
  ze_external_attr :: int
  ze_file_size :: int
  ze_open :: "nat \<Rightarrow> bytes res"

text \<open>The readers and the writer: opening a tar and listing its members, listing a zip, what \<open>addfile\<close>
  raises for a member, and the bytes of a closed tar.\<close>

record formats =
  fm_tar_open :: "bytes \<Rightarrow> tar_member list res res"
  fm_zip_infolist :: "bytes \<Rightarrow> zip_entry list res"
  fm_addfile :: "file_entry \<Rightarrow> unit res"
  fm_tar_bytes :: "file_entry list \<Rightarrow> bytes"

fun unpack_members :: "nat \<Rightarrow> tar_member list \<Rightarrow> (nat \<times> file_entry list) res" where
  "unpack_members total_uncompressed [] = Inr (total_uncompressed, [])"
| "unpack_members total_uncompressed (member # members) =
     res_bind (canonicalize_member_path (tm_name member)) (\<lambda>canonical_name.
     res_bind (raise_if (tm_issym member \<or> tm_islnk member) UnpackRejected) (\<lambda>_.
     if \<not> tm_isfile member then unpack_members total_uncompressed members
     else
       res_bind (raise_if (tm_size member > int MAX_SINGLE_FILE_BYTES) UnpackRejected) (\<lambda>_.
       (case tm_extract member of
          None \<Rightarrow> unpack_members total_uncompressed members
        | Some read \<Rightarrow>
            res_bind (read (MAX_SINGLE_FILE_BYTES + 1)) (\<lambda>data.
            res_bind (raise_if (length data > MAX_SINGLE_FILE_BYTES) UnpackRejected) (\<lambda>_.
            let total = total_uncompressed + length data in
            res_bind (raise_if (total > MAX_TOTAL_UNCOMPRESSED_BYTES) UnpackRejected) (\<lambda>_.
            res_bind (unpack_members total members) (\<lambda>(final_total, files).
            Inr (final_total, (canonical_name, tm_mode member AND 0xFFF, data) # files)))))))))"

text \<open>A path that is a directory of another path of the package.\<close>

definition directory_conflict :: "ustr list \<Rightarrow> bool" where
  "directory_conflict paths = list_ex (\<lambda>path.
     let parts = py_split slash path
     in list_ex (\<lambda>depth. py_join [slash] (take depth parts) \<in> set paths) [1..<length parts]) paths"

definition unpack_hardened :: "formats \<Rightarrow> bytes \<Rightarrow> file_entry list res" where
  "unpack_hardened fm archive_bytes =
     (let compressed_size = length archive_bytes in
      res_bind (raise_if (compressed_size = 0) UnpackRejected) (\<lambda>_.
      res_bind (raise_if (compressed_size > MAX_ARCHIVE_BYTES) UnpackRejected) (\<lambda>_.
      (case fm_tar_open fm archive_bytes of
         Inl e \<Rightarrow> Inl (if e = TarError then UnpackRejected else e)
       | Inr listing \<Rightarrow>
           res_bind listing (\<lambda>members.
           res_bind (raise_if (length members > MAX_ENTRY_COUNT) UnpackRejected) (\<lambda>_.
           res_bind (unpack_members 0 members) (\<lambda>(total_uncompressed, files).
           res_bind (raise_if (real total_uncompressed / real compressed_size > MAX_COMPRESSION_RATIO) UnpackRejected) (\<lambda>_.
           res_bind (raise_if (files = []) UnpackRejected) (\<lambda>_.
           let paths = map fst files in
           res_bind (raise_if (\<not> distinct paths) UnpackRejected) (\<lambda>_.
           res_bind (raise_if (directory_conflict paths) UnpackRejected) (\<lambda>_.
           Inr files)))))))))))"

section \<open>Zip archives\<close>

definition ZIP_MAGIC_PREFIXES :: "bytes list" where
  "ZIP_MAGIC_PREFIXES = [[0x50, 0x4B, 3, 4], [0x50, 0x4B, 5, 6], [0x50, 0x4B, 7, 8]]"

definition EOCD_SIGNATURE :: bytes where "EOCD_SIGNATURE = [0x50, 0x4B, 5, 6]"
definition EOCD_SIZE :: nat where "EOCD_SIZE = 22"

definition ZIP_PARSE_ERRORS :: "py_error set" where
  "ZIP_PARSE_ERRORS = {BadZipFile, LargeZipFile, ZlibError, NotImplementedError, ValueError, EOFError, RuntimeError,
     StructError, OSError}"

definition rfind :: "'a list \<Rightarrow> 'a list \<Rightarrow> nat option" where
  "rfind s p = List.find (\<lambda>i. py_startswith (drop i s) p) (rev [0..<Suc (length s)])"

text \<open>A little-endian unsigned 16-bit field.\<close>

definition unpack_u16 :: "bytes \<Rightarrow> nat \<Rightarrow> nat" where
  "unpack_u16 b i = unat (b ! i) + 256 * unat (b ! Suc i)"

definition read_zip_end_record :: "bytes \<Rightarrow> (nat \<times> nat \<times> nat) res" where
  "read_zip_end_record zip_bytes =
     (case rfind zip_bytes EOCD_SIGNATURE of
        None \<Rightarrow> Inl UnpackRejected
      | Some index \<Rightarrow>
          if length zip_bytes - index < EOCD_SIZE then Inl UnpackRejected
          else Inr (unpack_u16 zip_bytes (index + 4), unpack_u16 zip_bytes (index + 6), unpack_u16 zip_bytes (index + 10)))"

definition is_dir :: "zip_entry \<Rightarrow> bool" where
  "is_dir info \<longleftrightarrow> ze_filename info \<noteq> [] \<and> last (ze_filename info) = slash"

definition S_IFMT :: "int \<Rightarrow> int" where "S_IFMT mode = mode AND 0xF000"
definition S_ISREG :: "int \<Rightarrow> bool" where "S_ISREG mode \<longleftrightarrow> S_IFMT mode = 0x8000"
definition S_ISDIR :: "int \<Rightarrow> bool" where "S_ISDIR mode \<longleftrightarrow> S_IFMT mode = 0x4000"

definition unix_mode :: "zip_entry \<Rightarrow> int" where
  "unix_mode info = drop_bit 16 (ze_external_attr info) AND 0xFFFF"

fun transcode_entries :: "formats \<Rightarrow> nat \<Rightarrow> nat \<Rightarrow> zip_entry list \<Rightarrow> file_entry list res" where
  "transcode_entries fm compressed_size total_uncompressed [] = Inr []"
| "transcode_entries fm compressed_size total_uncompressed (info # entries) =
     res_bind (raise_if (ze_flag_bits info AND 1 \<noteq> 0) UnpackRejected) (\<lambda>_.
     if is_dir info then transcode_entries fm compressed_size total_uncompressed entries
     else if S_IFMT (unix_mode info) \<noteq> 0 \<and> \<not> S_ISREG (unix_mode info) then
       (if S_ISDIR (unix_mode info) then transcode_entries fm compressed_size total_uncompressed entries
        else Inl UnpackRejected)
     else
       res_bind (raise_if (0 \<in> set (ze_filename info)) UnpackRejected) (\<lambda>_.
       res_bind (raise_if (ze_file_size info > int MAX_SINGLE_FILE_BYTES) UnpackRejected) (\<lambda>_.
       res_bind (ze_open info (MAX_SINGLE_FILE_BYTES + 1)) (\<lambda>data.
       res_bind (raise_if (length data > MAX_SINGLE_FILE_BYTES) UnpackRejected) (\<lambda>_.
       let total = total_uncompressed + length data in
       res_bind (raise_if (total > MAX_TOTAL_UNCOMPRESSED_BYTES) UnpackRejected) (\<lambda>_.
       res_bind (raise_if (real total / real compressed_size > MAX_COMPRESSION_RATIO) UnpackRejected) (\<lambda>_.
       let mode = unix_mode info AND 0x1FF;
           tarinfo = (ze_filename info, if mode \<noteq> 0 then mode else 0x1A4, data) in
       res_bind (fm_addfile fm tarinfo) (\<lambda>_.
       res_bind (transcode_entries fm compressed_size total entries) (\<lambda>rest.
       Inr (tarinfo # rest))))))))))"

definition transcode_zip :: "formats \<Rightarrow> bytes \<Rightarrow> bytes res" where
  "transcode_zip fm zip_bytes =
     res_bind (fm_zip_infolist fm zip_bytes) (\<lambda>entries.
     res_bind (raise_if (length entries > MAX_ENTRY_COUNT) UnpackRejected) (\<lambda>_.
     res_bind (transcode_entries fm (length zip_bytes) 0 entries) (\<lambda>members.
     res_bind (raise_if (members = []) UnpackRejected) (\<lambda>_.
     Inr (fm_tar_bytes fm members)))))"

definition zip_to_tar_bytes :: "formats \<Rightarrow> bytes \<Rightarrow> bytes res" where
  "zip_to_tar_bytes fm zip_bytes =
     res_bind (raise_if (length zip_bytes = 0) UnpackRejected) (\<lambda>_.
     res_bind (raise_if (length zip_bytes > MAX_ARCHIVE_BYTES) UnpackRejected) (\<lambda>_.
     res_bind (read_zip_end_record zip_bytes) (\<lambda>(this_disk, cd_disk, declared_entries).
     res_bind (raise_if (this_disk \<noteq> 0 \<or> cd_disk \<noteq> 0) UnpackRejected) (\<lambda>_.
     res_bind (raise_if (declared_entries > MAX_ENTRY_COUNT) UnpackRejected) (\<lambda>_.
     (case transcode_zip fm zip_bytes of
        Inl e \<Rightarrow> Inl (if e \<in> ZIP_PARSE_ERRORS then UnpackRejected else e)
      | Inr tar \<Rightarrow> Inr tar))))))"

definition unpack_package_archive :: "formats \<Rightarrow> bytes \<Rightarrow> file_entry list res" where
  "unpack_package_archive fm archive_bytes =
     res_bind (if list_ex (py_startswith archive_bytes) ZIP_MAGIC_PREFIXES then zip_to_tar_bytes fm archive_bytes
               else Inr archive_bytes) (unpack_hardened fm)"

text \<open>Packing the accepted files into the artifact.\<close>

definition pack_tar :: "formats \<Rightarrow> file_entry list \<Rightarrow> bytes res" where
  "pack_tar fm files =
     (let infos = map (\<lambda>(path, mode, data). (path, mode AND 0xFFF, data)) files
      in res_bind (res_map (fm_addfile fm) infos) (\<lambda>_. Inr (fm_tar_bytes fm infos)))"

section \<open>What an accepted package looks like\<close>

definition good_segment :: "ustr \<Rightarrow> bool" where
  "good_segment s \<longleftrightarrow> \<not> bad_segment s \<and> \<not> list_ex bad_segment (py_split backslash s)"

definition plain_path :: "ustr \<Rightarrow> bool" where
  "plain_path p \<longleftrightarrow> 0 \<notin> set p \<and> length (py_split slash p) \<le> MAX_PATH_DEPTH \<and> list_all good_segment (py_split slash p)"

definition safe_entry :: "file_entry \<Rightarrow> bool" where
  "safe_entry = (\<lambda>(path, mode, data). plain_path path \<and> 0 \<le> mode \<and> mode \<le> 0xFFF \<and> length data \<le> MAX_SINGLE_FILE_BYTES)"

definition payload :: "file_entry list \<Rightarrow> nat" where
  "payload files = sum_list (map (length \<circ> snd \<circ> snd) files)"

definition safe_package :: "file_entry list \<Rightarrow> bool" where
  "safe_package files \<longleftrightarrow> files \<noteq> [] \<and> length files \<le> MAX_ENTRY_COUNT \<and> payload files \<le> MAX_TOTAL_UNCOMPRESSED_BYTES \<and>
     list_all safe_entry files \<and>
     distinct (map fst files) \<and> \<not> directory_conflict (map fst files)"

lemma payload_simps [simp]: "payload [] = 0" "payload (f # fs) = length (snd (snd f)) + payload fs"
  by (simp_all add: payload_def)

lemma good_segment_nonempty: "\<not> good_segment []"
  by (simp add: good_segment_def bad_segment_def)

lemma good_segment_no_dot: "good_segment s \<Longrightarrow> s \<noteq> ustr_of ''.''"
  unfolding good_segment_def bad_segment_def by blast

lemma clean_segments_Cons:
  "clean_segments (x # xs) =
     (if x = ustr_of ''.'' then clean_segments xs
      else if good_segment x then res_bind (clean_segments xs) (\<lambda>ys. Inr (x # ys)) else Inl UnpackRejected)"
proof -
  have "x \<in> {[], ustr_of ''..''} \<longleftrightarrow> bad_segment x" if "x \<noteq> ustr_of ''.''"
    using that unfolding bad_segment_def by blast
  then show ?thesis unfolding clean_segments.simps(2) good_segment_def by presburger
qed

declare clean_segments.simps(2) [simp del]

lemma clean_segments_Inr:
  "clean_segments xs = Inr ys \<Longrightarrow> ys = filter (\<lambda>s. s \<noteq> ustr_of ''.'') xs \<and> list_all good_segment ys"
proof (induction xs arbitrary: ys)
  case (Cons x xs)
  show ?case
  proof (cases "x = ustr_of ''.''")
    case True
    then have "clean_segments xs = Inr ys" using Cons.prems by (simp add: clean_segments_Cons)
    from Cons.IH [OF this] True show ?thesis by (elim conjE) simp
  next
    case False
    with Cons.prems obtain zs where z: "good_segment x" "clean_segments xs = Inr zs" "x # zs = ys"
      by (simp add: clean_segments_Cons res_bind_eq_Inr split: if_splits) (elim exE conjE)
    show ?thesis using Cons.IH [OF z(2)] z(1) z(3) [symmetric] False by (elim conjE) simp
  qed
qed simp

lemma clean_segments_fixed: "list_all good_segment xs \<Longrightarrow> clean_segments xs = Inr xs"
  by (induction xs) (simp_all add: clean_segments_Cons good_segment_no_dot)

lemma clean_segments_Inl: "clean_segments xs = Inl e \<Longrightarrow> e = UnpackRejected"
  by (induction xs) (simp_all add: clean_segments_Cons res_bind_eq_Inl split: if_splits)

lemma canonicalize_Inl: "canonicalize_member_path p = Inl e \<Longrightarrow> e = UnpackRejected"
  by (auto simp: canonicalize_member_path_def res_bind_eq_Inl Let_def dest: clean_segments_Inl)

lemma py_split_concat_set: "x \<in> set p \<Longrightarrow> p \<in> set (py_split c s) \<Longrightarrow> x \<in> set s"
proof (induction s arbitrary: p)
  case Nil
  then show ?case by simp
next
  case (Cons a s)
  obtain q qs where q: "py_split c s = q # qs" by (cases "py_split c s") auto
  have "x \<in> set s" if "x \<in> set q \<or> (\<exists>r \<in> set qs. x \<in> set r)" using that Cons.IH q by auto
  then show ?case using Cons.prems q by (auto split: if_splits)
qed

lemma canonicalize_Inr:
  assumes "canonicalize_member_path name = Inr p"
  shows "plain_path p"
proof -
  obtain cleaned where c: "clean_segments (py_split slash name) = Inr cleaned" "cleaned \<noteq> []" "p = py_join [slash] cleaned"
    "0 \<notin> set name" "length (py_split slash name) \<le> MAX_PATH_DEPTH"
    using assms by (auto simp: canonicalize_member_path_def res_bind_eq_Inr Let_def)
  have f: "set cleaned \<subseteq> set (py_split slash name)" "list_all good_segment cleaned"
    "length cleaned \<le> length (py_split slash name)"
    using clean_segments_Inr [OF c(1)] by auto
  have "\<forall>x \<in> set cleaned. slash \<notin> set x" using f(1) py_split_no_sep [of _ slash name] by blast
  then have split: "py_split slash p = cleaned" using py_split_join [OF c(2)] c(3) by simp
  have "0 \<notin> set p"
  proof
    assume "0 \<in> set p"
    then obtain x where "x \<in> set cleaned" "0 \<in> set x" using set_py_join [of "[slash]" cleaned] c(3) by auto
    then show False using c(4) f(1) py_split_concat_set [of 0 x slash name] by blast
  qed
  then show ?thesis using f c(5) by (simp add: plain_path_def split)
qed

lemma plain_path_canonical: "plain_path p \<Longrightarrow> canonicalize_member_path p = Inr p"
proof -
  assume p: "plain_path p"
  let ?s = "py_split slash p"
  have "clean_segments ?s = Inr ?s" using p by (intro clean_segments_fixed) (simp add: plain_path_def)
  moreover have "\<not> py_startswith p [slash]"
  proof
    assume "py_startswith p [slash]"
    then obtain r where "p = slash # r" by (cases p) (auto simp: py_startswith_def)
    then show False using p good_segment_nonempty by (simp add: plain_path_def)
  qed
  ultimately show ?thesis using p by (simp add: canonicalize_member_path_def plain_path_def py_join_split)
qed

lemma masked_mode: "0 \<le> (m :: int) AND 0xFFF" "(m :: int) AND 0xFFF \<le> 0xFFF"
  by (simp_all add: AND_upper2)

lemma masked_twice: "((m :: int) AND 0xFFF) AND 0xFFF = m AND 0xFFF"
  by (simp add: and.assoc)

lemma masked_small: "0 \<le> m \<Longrightarrow> m \<le> 0xFFF \<Longrightarrow> (m :: int) AND 0xFFF = m"
  using take_bit_int_eq_self [of m 12] by (simp add: take_bit_eq_mask mask_eq_exp_minus_1)

lemma unpack_members_Inr:
  assumes "unpack_members t ms = Inr (tot, files)"
  shows "tot = t + payload files \<and> length files \<le> length ms \<and> (files \<noteq> [] \<longrightarrow> tot \<le> MAX_TOTAL_UNCOMPRESSED_BYTES) \<and>
    list_all safe_entry files"
  using assms
proof (induction ms arbitrary: t tot files)
  case (Cons m ms)
  obtain name where name: "canonicalize_member_path (tm_name m) = Inr name" using Cons.prems by (auto simp: res_bind_eq_Inr)
  note u = Cons.prems [unfolded unpack_members.simps name res_bind_Inr]
  show ?case
  proof (cases "tm_isfile m \<and> tm_extract m \<noteq> None")
    case False
    then have "unpack_members t ms = Inr (tot, files)"
      using u by (auto simp: res_bind_eq_Inr split: if_splits option.splits)
    then show ?thesis using Cons.IH by fastforce
  next
    case True
    then obtain read where "tm_isfile m" "tm_extract m = Some read" by blast
    then obtain data fs where d: "unpack_members (t + length data) ms = Inr (tot, fs)"
      "files = (name, tm_mode m AND 0xFFF, data) # fs" "length data \<le> MAX_SINGLE_FILE_BYTES"
      "t + length data \<le> MAX_TOTAL_UNCOMPRESSED_BYTES"
      using u by (auto simp: res_bind_eq_Inr Let_def not_less)
    show ?thesis
      using Cons.IH [OF d(1)] d(2-4) canonicalize_Inr [OF name] masked_mode [of "tm_mode m"]
      by (cases "fs = []") (auto simp: safe_entry_def)
  qed
qed simp

lemma unpack_hardened_Inr:
  assumes "unpack_hardened fm b = Inr files"
  shows "safe_package files" "b \<noteq> []" "length b \<le> MAX_ARCHIVE_BYTES" "payload files \<le> 100 * length b"
proof -
  obtain ms tot where u: "unpack_members 0 ms = Inr (tot, files)" "length ms \<le> MAX_ENTRY_COUNT" "files \<noteq> []"
    "distinct (map fst files)" "\<not> directory_conflict (map fst files)"
    "real tot / real (length b) \<le> MAX_COMPRESSION_RATIO"
    and b: "b \<noteq> []" "length b \<le> MAX_ARCHIVE_BYTES"
    using assms unfolding unpack_hardened_def
    by (auto simp: res_bind_eq_Inr Let_def not_less split: sum.splits)
  note f = unpack_members_Inr [OF u(1)]
  have "real tot \<le> 100 * real (length b)"
    using u(6) b(1) by (simp add: MAX_COMPRESSION_RATIO_def divide_le_eq)
  then show "payload files \<le> 100 * length b" using f by linarith
  show "safe_package files" using u f unfolding safe_package_def by auto
qed (use assms in \<open>auto simp: unpack_hardened_def res_bind_eq_Inr Let_def\<close>)

section \<open>Reading back what was written\<close>

text \<open>The law of the tar library: a tar of members that \<open>addfile\<close> took is read back as these members, as regular
  files, and is longer than their contents.\<close>

definition regular_member :: "file_entry \<Rightarrow> tar_member" where
  "regular_member = (\<lambda>(path, mode, data). \<lparr>tm_name = path, tm_issym = False, tm_islnk = False, tm_isfile = True,
     tm_size = int (length data), tm_mode = mode, tm_extract = Some (\<lambda>n. Inr (take n data))\<rparr>)"

definition reads_back :: "formats \<Rightarrow> bool" where
  "reads_back fm \<longleftrightarrow> (\<forall>es. list_all (\<lambda>e. fm_addfile fm e = Inr ()) es \<longrightarrow>
     fm_tar_open fm (fm_tar_bytes fm es) = Inr (Inr (map regular_member es)) \<and> payload es < length (fm_tar_bytes fm es))"

lemma res_map_Inr_mem: "res_map f xs = Inr ys \<Longrightarrow> x \<in> set xs \<Longrightarrow> \<exists>y. f x = Inr y"
  by (induction xs arbitrary: ys) (auto simp: res_bind_eq_Inr)

lemma unpack_regular:
  assumes "list_all safe_entry files" "t + payload files \<le> MAX_TOTAL_UNCOMPRESSED_BYTES"
  shows "unpack_members t (map regular_member files) = Inr (t + payload files, files)"
  using assms
proof (induction files arbitrary: t)
  case (Cons f fs)
  obtain path mode data where f: "f = (path, mode, data)" by (cases f)
  have ok: "plain_path path" "mode AND 0xFFF = mode" "length data \<le> MAX_SINGLE_FILE_BYTES"
    using Cons.prems(1) by (simp_all add: f safe_entry_def masked_small)
  have ih: "unpack_members (t + length data) (map regular_member fs) = Inr (t + length data + payload fs, fs)"
    using Cons.IH [of "t + length data"] Cons.prems by (simp add: f add.assoc)
  show ?case
    using Cons.prems(2) ok ih
    by (simp add: f regular_member_def plain_path_canonical Let_def)
qed simp

lemma unpack_regular_payload:
  assumes "unpack_members t (map regular_member es) = Inr (tot, files)" "list_all (\<lambda>e. length (snd (snd e)) \<le> MAX_SINGLE_FILE_BYTES) es"
  shows "payload files = payload es"
  using assms
proof (induction es arbitrary: t tot files)
  case (Cons e es)
  obtain path mode data where e: "e = (path, mode, data)" by (cases e)
  have take: "take (MAX_SINGLE_FILE_BYTES + 1) data = data" using Cons.prems(2) by (simp add: e)
  obtain fs name where fs: "unpack_members (t + length data) (map regular_member es) = Inr (tot, fs)"
    "files = (name, mode AND 0xFFF, data) # fs"
    using Cons.prems(1) take
    by (auto simp: e regular_member_def res_bind_eq_Inr Let_def)
  then show ?case using Cons.IH [OF fs(1)] Cons.prems(2) e by simp
qed simp

lemma transcode_entries_Inr:
  assumes "transcode_entries fm c t zs = Inr es"
  shows "list_all (\<lambda>e. fm_addfile fm e = Inr ()) es \<and> list_all (\<lambda>e. length (snd (snd e)) \<le> MAX_SINGLE_FILE_BYTES) es \<and>
    (es \<noteq> [] \<longrightarrow> real (t + payload es) / real c \<le> MAX_COMPRESSION_RATIO)"
  using assms
proof (induction zs arbitrary: t es)
  case (Cons z zs)
  show ?case
  proof (cases "is_dir z \<or> (S_IFMT (unix_mode z) \<noteq> 0 \<and> \<not> S_ISREG (unix_mode z))")
    case True
    then have "transcode_entries fm c t zs = Inr es" using Cons.prems by (auto simp: res_bind_eq_Inr split: if_splits)
    then show ?thesis by (rule Cons.IH)
  next
    case False
    then obtain data m fs where d: "transcode_entries fm c (t + length data) zs = Inr fs" "es = (ze_filename z, m, data) # fs"
      "length data \<le> MAX_SINGLE_FILE_BYTES" "real (t + length data) / real c \<le> MAX_COMPRESSION_RATIO"
      "fm_addfile fm (ze_filename z, m, data) = Inr ()"
      using Cons.prems by (auto simp: res_bind_eq_Inr Let_def not_less)
    show ?thesis using Cons.IH [OF d(1)] d(2-5) by (cases "fs = []") (auto simp: add.assoc)
  qed
qed simp

lemma zip_to_tar_Inr:
  assumes "zip_to_tar_bytes fm z = Inr tar"
  obtains es where "tar = fm_tar_bytes fm es" "list_all (\<lambda>e. fm_addfile fm e = Inr ()) es"
    "list_all (\<lambda>e. length (snd (snd e)) \<le> MAX_SINGLE_FILE_BYTES) es" "payload es \<le> 100 * length z"
    "length z \<le> MAX_ARCHIVE_BYTES"
proof -
  have z: "z \<noteq> []" "length z \<le> MAX_ARCHIVE_BYTES" and t: "transcode_zip fm z = Inr tar"
    using assms by (auto simp: zip_to_tar_bytes_def res_bind_eq_Inr not_less split: sum.splits)
  obtain zs es where e: "transcode_entries fm (length z) 0 zs = Inr es" "es \<noteq> []" "tar = fm_tar_bytes fm es"
    using t by (auto simp: transcode_zip_def res_bind_eq_Inr)
  note f = transcode_entries_Inr [OF e(1)]
  have "real (payload es) \<le> 100 * real (length z)"
    using f e(2) z(1) by (simp add: MAX_COMPRESSION_RATIO_def divide_le_eq)
  then have "payload es \<le> 100 * length z" by linarith
  then show thesis using that f e(3) z(2) by blast
qed

section \<open>Properties\<close>


text \<open>C18: The workers scan what was accepted, or nothing. The artifact packed from the files of an accepted archive
  unpacks to exactly these files when it fits the limit on archives, and is refused otherwise: in particular
  a package of more than 50 MiB of content, which an upload may have up to 200 MiB of when it is compressed, is
  accepted and then always refused by the workers.\<close>

theorem stored_artifact_reads_back:
  assumes "unpack_hardened fm archive = Inr files" "pack_tar fm files = Inr artifact" "reads_back fm"
  shows "unpack_hardened fm artifact = (if length artifact \<le> MAX_ARCHIVE_BYTES then Inr files else Inl UnpackRejected) \<and>
    (MAX_ARCHIVE_BYTES < payload files \<longrightarrow> unpack_hardened fm artifact = Inl UnpackRejected)"
proof -
  have safe: "safe_package files" by (rule unpack_hardened_Inr(1) [OF assms(1)])
  have "map (\<lambda>(path, mode, data). (path, mode AND 0xFFF, data)) files = files"
    using safe unfolding safe_package_def list_all_iff
    by (intro map_idI) (auto simp: safe_entry_def masked_small)
  then have a: "artifact = fm_tar_bytes fm files" "list_all (\<lambda>e. fm_addfile fm e = Inr ()) files"
    using assms(2) by (auto simp: pack_tar_def res_bind_eq_Inr list_all_iff Let_def dest: res_map_Inr_mem)
  then have r: "fm_tar_open fm artifact = Inr (Inr (map regular_member files))" "payload files < length artifact"
    using assms(3) by (simp_all add: reads_back_def)
  have u: "unpack_members 0 (map regular_member files) = Inr (payload files, files)"
    using unpack_regular [of files 0] safe by (simp add: safe_package_def)
  have ratio: "real (payload files) / real (length artifact) \<le> MAX_COMPRESSION_RATIO"
    using r(2) by (simp add: MAX_COMPRESSION_RATIO_def divide_le_eq)
  have "unpack_hardened fm artifact = (if length artifact \<le> MAX_ARCHIVE_BYTES then Inr files else Inl UnpackRejected)"
    using r u ratio safe by (auto simp: unpack_hardened_def safe_package_def Let_def raise_if_def)
  then show ?thesis using r(2) by simp
qed

lemma res_map_uniform:
  assumes "\<And>x. x \<in> set xs \<Longrightarrow> f x = (if P x then Inr (g x) else Inl e)" "set xs = S"
  shows "res_map f xs = (if \<forall>x \<in> S. P x then Inr (map g xs) else Inl e)"
  using assms(1) unfolding assms(2) [symmetric] by (induction xs) auto

text \<open>When the content hash takes an accepted package.\<close>

definition hashable_path :: "ustr \<Rightarrow> bool" where
  "hashable_path p \<longleftrightarrow> list_all is_scalar p \<and> \<not> (length p \<ge> 2 \<and> p ! 1 = colon)"

lemma plain_path_ok:
  assumes "plain_path p" "nfc p = p"
  shows "path_ok nfc p \<longleftrightarrow> \<not> (length p \<ge> 2 \<and> p ! 1 = colon)"
proof -
  have "take 1 p \<noteq> [slash]"
  proof
    assume "take 1 p = [slash]"
    then obtain r where "p = slash # r" by (cases p) auto
    then show False using assms(1) good_segment_nonempty by (simp add: plain_path_def)
  qed
  moreover have "\<not> list_ex (\<lambda>s. bad_segment s \<or> list_ex bad_segment (py_split backslash s)) (py_split slash p)"
    using assms(1) by (auto simp: plain_path_def list_ex_iff list_all_iff good_segment_def)
  ultimately show ?thesis
    using assms by (auto simp: path_ok_def validate_and_normalize_path_def Let_def plain_path_def raise_if_def)
qed

lemma encode_entry_short:
  assumes "safe_entry e" "4 * length (fst e) < 256 ^ 8"
  shows "encode_entry e = (if list_all is_scalar (fst e) then Inr (entry_bytes e) else Inl ValueError)"
proof -
  obtain path mode data where e: "e = (path, mode, data)" by (cases e)
  have m: "0 \<le> mode" "nat mode < 256 ^ 4" "length data < 256 ^ 8"
    using assms(1) by (auto simp: e safe_entry_def MAX_SINGLE_FILE_BYTES_def)
  have "length (concat (map utf8_char path)) < 256 ^ 8" using assms(2) length_utf8_bounds [of path] by (simp add: e)
  then have "list_all is_scalar path \<Longrightarrow> encode_entry e = Inr (entry_bytes e)"
    using m encode_entry_eq [of e "entry_bytes e"] by (simp add: e entry_ok_def)
  moreover have "\<not> list_all is_scalar path \<Longrightarrow> encode_entry e = Inl ValueError"
    by (simp add: e encode_entry_def utf8_encode_def)
  ultimately show ?thesis by (simp add: e)
qed

text \<open>Note: The content hash does not take every accepted package. When no path is changed by normalisation and none is
  absurdly long, hashing an accepted package succeeds exactly if no path looks like a drive letter, that is, has
  a colon as its second character, and none has an undecodable name; otherwise it raises
  \<open>ValueError\<close>. The path rules of the unpacker were meant to be those of the hash.\<close>

theorem accepted_package_hashable_iff:
  assumes "unpack_hardened fm archive = Inr files"
    and "\<forall>f \<in> set files. nfc (fst f) = fst f \<and> 4 * length (fst f) < 256 ^ 8"
  shows "if list_all (hashable_path \<circ> fst) files then (\<exists>h. content_hash nfc sha256 files = Inr h)
    else content_hash nfc sha256 files = Inl ValueError"
proof -
  have safe: "files \<noteq> []" "list_all safe_entry files" "distinct (map fst files)"
    using unpack_hardened_Inr(1) [OF assms(1)] by (simp_all add: safe_package_def)
  have id: "map (norm_entry nfc) files = files"
    using safe(2) assms(2) by (intro map_idI) (auto simp: norm_entry_def safe_entry_def masked_small list_all_iff)
  have "distinct (map (nfc \<circ> fst) files)" using safe(3) assms(2) by (metis (mono_tags, lifting) comp_apply map_cong)
  then have ok: "files_ok nfc files \<longleftrightarrow> (\<forall>f \<in> set files. \<not> (length (fst f) \<ge> 2 \<and> fst f ! 1 = colon))"
    using safe assms(2) plain_path_ok [of "fst f" nfc for f] unfolding files_ok_def list_all_iff safe_entry_def by fastforce
  have enc: "encode_entry e = (if list_all is_scalar (fst e) then Inr (entry_bytes e) else Inl ValueError)" if "e \<in> set files" for e
    using that safe(2) assms(2) by (intro encode_entry_short) (auto simp: list_all_iff)
  have "res_map encode_entry (sort_key fst files) =
      (if \<forall>f \<in> set files. list_all is_scalar (fst f) then Inr (map entry_bytes (sort_key fst files)) else Inl ValueError)"
    using enc by (intro res_map_uniform) simp_all
  then show ?thesis
    by (auto simp: content_hash_def content_preimage_eq id ok list_all_iff hashable_path_def)
qed

text \<open>A member for the top directory itself, which \<open>tar\<close> writes for \<open>.\<close>, still has the whole archive refused; and
  an exception raised while the members are listed, such as the end of a truncated compressed stream, is
  passed on as it is.\<close>

lemma top_directory_member_refused: "canonicalize_member_path (ustr_of ''.'') = Inl UnpackRejected"
  by (simp add: canonicalize_member_path_def ustr_of_def py_startswith_def clean_segments_Cons MAX_PATH_DEPTH_def)

lemma listing_error_escapes:
  "b \<noteq> [] \<Longrightarrow> length b \<le> MAX_ARCHIVE_BYTES \<Longrightarrow> fm_tar_open fm b = Inr (Inl e) \<Longrightarrow> unpack_hardened fm b = Inl e"
  by (simp add: unpack_hardened_def Let_def)

section \<open>Witnesses\<close>

text \<open>A format whose archives hold copies of one small file, named \<open>a:b\<close>.\<close>

definition colon_file :: file_entry where
  "colon_file = ([97, 58, 98], 0x1A4, [1])"

definition copy_formats :: formats where
  "copy_formats = \<lparr>fm_tar_open = (\<lambda>b. Inr (Inr (replicate (length b - 2) (regular_member colon_file)))),
     fm_zip_infolist = (\<lambda>_. Inl BadZipFile),
     fm_addfile = (\<lambda>e. if e = colon_file then Inr () else Inl ValueError),
     fm_tar_bytes = (\<lambda>es. replicate (2 + length es) 1)\<rparr>"

lemma copy_formats_reads_back: "reads_back copy_formats"
  unfolding reads_back_def
proof (intro allI impI)
  fix es assume "list_all (\<lambda>e. fm_addfile copy_formats e = Inr ()) es"
  then have "es = replicate (length es) colon_file"
    by (intro replicate_eqI) (auto simp: copy_formats_def list_all_iff split: if_splits)
  then obtain n where n: "es = replicate n colon_file" by blast
  have "payload (replicate n colon_file) = n" by (induction n) (simp_all add: colon_file_def)
  then show "fm_tar_open copy_formats (fm_tar_bytes copy_formats es) = Inr (Inr (map regular_member es)) \<and>
      payload es < length (fm_tar_bytes copy_formats es)"
    by (simp add: n copy_formats_def map_replicate)
qed

lemma colon_unpacks: "unpack_hardened copy_formats [1, 1, 1] = Inr [colon_file]"
proof -
  have "plain_path [97, 58, 98]"
    by (simp add: plain_path_def good_segment_def bad_segment_def ustr_of_def MAX_PATH_DEPTH_def)
  then have "unpack_members 0 [regular_member colon_file] = Inr (1, [colon_file])"
    using unpack_regular [of "[colon_file]" 0] by (simp add: colon_file_def safe_entry_def limit_defs)
  moreover have "\<not> directory_conflict [fst colon_file]" by (simp add: directory_conflict_def colon_file_def)
  ultimately show ?thesis by (simp add: unpack_hardened_def copy_formats_def limit_defs Let_def)
qed


theorem stored_artifact_reads_back_witness:
  "\<exists>artifact. pack_tar copy_formats [colon_file] = Inr artifact \<and> unpack_hardened copy_formats artifact = Inr [colon_file]"
proof -
  have p: "pack_tar copy_formats [colon_file] = Inr [1, 1, 1]"
    by (simp add: pack_tar_def copy_formats_def colon_file_def numeral_eq_Suc)
  show ?thesis
    using stored_artifact_reads_back [OF colon_unpacks p copy_formats_reads_back] p
    by (intro exI [of _ "[1, 1, 1]"]) (simp add: MAX_ARCHIVE_BYTES_def)
qed

theorem accepted_package_hashable_iff_witness: "content_hash id (\<lambda>_. []) [colon_file] = Inl ValueError"
proof -
  have h: "\<forall>f \<in> set [colon_file]. id (fst f) = fst f \<and> 4 * length (fst f) < 256 ^ 8" by (simp add: colon_file_def)
  show ?thesis
    using accepted_package_hashable_iff [OF colon_unpacks h, of "\<lambda>_. []"]
    by (simp add: hashable_path_def colon_file_def)
qed

end
