(* ===== verification/Outbox_Relay.thy ===== *)
theory Outbox_Relay
  imports Gate_Service
begin

text \<open>
  Delivery of the gate's outbox (\<open>integration_relay/service.py\<close>) and the event format of the log sink
  (\<open>integration_relay/siem.py\<close>). The marketplace and the locks of concurrent drainers are parameters of each
  round; what the marketplace took and what was handed to the sink are recorded in the state, so that
  delivery can be stated. Decimal printing of integers and the Unicode case mapping are parameters.
\<close>

section \<open>Draining the outbox\<close>

record relay =
  rl_outbox :: "outbox_row list"
  rl_published :: "(pyval \<times> pyval) list"
  rl_emitted :: "(string \<times> (string \<times> pyval) list) list"

type_synonym marketplace = "pyval \<Rightarrow> pyval \<Rightarrow> unit res"

record drain_attempt =
  da_row_id :: "nat option"
  da_succeeded :: bool

definition mark_dispatched :: "nat \<Rightarrow> relay \<Rightarrow> relay" where
  "mark_dispatched i rl = rl\<lparr>rl_outbox := (rl_outbox rl)[i := (rl_outbox rl ! i)\<lparr>ob_dispatched := True\<rparr>]\<rparr>"

definition next_row :: "nat set \<Rightarrow> nat set \<Rightarrow> outbox_row list \<Rightarrow> nat option" where
  "next_row exclude_ids held outbox =
     List.find (\<lambda>i. \<not> ob_dispatched (outbox ! i) \<and> i \<notin> exclude_ids \<and> i \<notin> held) [0..<length outbox]"

definition drain_one :: "marketplace option \<Rightarrow> bool \<Rightarrow> nat set \<Rightarrow> nat set \<Rightarrow> relay \<Rightarrow> relay \<times> drain_attempt" where
  "drain_one marketplace notifier exclude_ids held rl =
     (case next_row exclude_ids held (rl_outbox rl) of
        None \<Rightarrow> (rl, \<lparr>da_row_id = None, da_succeeded = False\<rparr>)
      | Some i \<Rightarrow>
          let row = rl_outbox rl ! i;
              failed = (rl, \<lparr>da_row_id = Some i, da_succeeded = False\<rparr>);
              succeeded = \<lparr>da_row_id = Some i, da_succeeded = True\<rparr>
          in (case (if ob_event_type row = ''verdict_issued'' then marketplace else None) of
                None \<Rightarrow> (mark_dispatched i rl, succeeded)
              | Some write_verdict \<Rightarrow>
                  (case (map_of (ob_payload row) ''jws'', map_of (ob_payload row) ''content_hash'') of
                     (Some jws, Some ch) \<Rightarrow>
                       (case write_verdict jws ch of
                          Inl _ \<Rightarrow> failed
                        | Inr _ \<Rightarrow>
                            (mark_dispatched i (rl\<lparr>rl_published := rl_published rl @ [(ch, jws)],
                               rl_emitted := rl_emitted rl @ (if notifier then [(ob_event_type row, ob_payload row)] else [])\<rparr>),
                             succeeded))
                   | _ \<Rightarrow> failed)))"

text \<open>The batch. Round \<open>k\<close> meets the locks and the marketplace of \<open>env k\<close>.\<close>

fun drain_rounds ::
  "(nat \<Rightarrow> nat set \<times> marketplace option) \<Rightarrow> bool \<Rightarrow> nat \<Rightarrow> nat set \<Rightarrow> nat \<Rightarrow> relay \<Rightarrow> relay \<times> nat" where
  "drain_rounds env notifier 0 failed_ids drained rl = (rl, drained)"
| "drain_rounds env notifier (Suc n) failed_ids drained rl =
     (case drain_one (snd (env 0)) notifier failed_ids (fst (env 0)) rl of
        (rl1, attempt) \<Rightarrow>
          (case da_row_id attempt of
             None \<Rightarrow> (rl1, drained)
           | Some i \<Rightarrow>
               if da_succeeded attempt then drain_rounds (env \<circ> Suc) notifier n failed_ids (Suc drained) rl1
               else drain_rounds (env \<circ> Suc) notifier n (insert i failed_ids) drained rl1))"

definition drain_pending_outbox ::
  "(nat \<Rightarrow> nat set \<times> marketplace option) \<Rightarrow> bool \<Rightarrow> nat \<Rightarrow> relay \<Rightarrow> relay \<times> nat" where
  "drain_pending_outbox env notifier batch_size rl = drain_rounds env notifier batch_size {} 0 rl"

section \<open>Facts about a round\<close>

text \<open>The row without its flag, and the rows that are dispatched.\<close>

definition content_of :: "outbox_row \<Rightarrow> outbox_row" where
  "content_of r = r\<lparr>ob_dispatched := False\<rparr>"

definition dispatched :: "relay \<Rightarrow> nat set" where
  "dispatched rl = {i. i < length (rl_outbox rl) \<and> ob_dispatched (rl_outbox rl ! i)}"

definition undispatched :: "relay \<Rightarrow> nat set" where
  "undispatched rl = {i. i < length (rl_outbox rl) \<and> \<not> ob_dispatched (rl_outbox rl ! i)}"

text \<open>What the marketplace gets for a row, when it is an event for the marketplace.\<close>

definition delivery :: "outbox_row \<Rightarrow> pyval \<times> pyval" where
  "delivery r = (the (map_of (ob_payload r) ''content_hash''), the (map_of (ob_payload r) ''jws''))"

abbreviation is_verdict_event :: "outbox_row \<Rightarrow> bool" where
  "is_verdict_event r \<equiv> ob_event_type r = ''verdict_issued''"

lemma next_row_Some:
  "next_row ex held ob = Some i \<Longrightarrow> i < length ob \<and> \<not> ob_dispatched (ob ! i) \<and> i \<notin> ex \<and> i \<notin> held"
  unfolding next_row_def by (auto simp: find_Some_iff)

lemma next_row_None:
  "next_row ex held ob = None \<longleftrightarrow> (\<forall>i < length ob. \<not> ob_dispatched (ob ! i) \<longrightarrow> i \<in> ex \<or> i \<in> held)"
  unfolding next_row_def by (auto simp: find_None_iff)

lemma mark_dispatched_facts:
  assumes "i < length (rl_outbox rl)"
  shows "map content_of (rl_outbox (mark_dispatched i rl)) = map content_of (rl_outbox rl)"
    "dispatched (mark_dispatched i rl) = insert i (dispatched rl)"
    "undispatched (mark_dispatched i rl) = undispatched rl - {i}"
    "rl_published (mark_dispatched i rl) = rl_published rl" "rl_emitted (mark_dispatched i rl) = rl_emitted rl"
proof -
  show "map content_of (rl_outbox (mark_dispatched i rl)) = map content_of (rl_outbox rl)"
    using assms by (intro nth_equalityI) (auto simp: mark_dispatched_def nth_list_update content_of_def)
qed (use assms in \<open>auto simp: mark_dispatched_def dispatched_def undispatched_def nth_list_update\<close>)

lemma drain_one_cases:
  assumes "drain_one mk nt ex held rl = (rl', a)"
  obtains (empty) "rl' = rl" "da_row_id a = None" "undispatched rl \<subseteq> ex \<union> held"
  | (failed) i where "rl' = rl" "da_row_id a = Some i" "\<not> da_succeeded a" "i \<in> undispatched rl - ex"
      "is_verdict_event (rl_outbox rl ! i)"
      "\<And>wv jws ch. mk = Some wv \<Longrightarrow> map_of (ob_payload (rl_outbox rl ! i)) ''jws'' = Some jws \<Longrightarrow>
         map_of (ob_payload (rl_outbox rl ! i)) ''content_hash'' = Some ch \<Longrightarrow> wv jws ch \<noteq> Inr ()" "mk \<noteq> None"
  | (sent) i pub emi where "rl' = mark_dispatched i (rl\<lparr>rl_published := rl_published rl @ pub, rl_emitted := emi\<rparr>)"
      "da_row_id a = Some i" "da_succeeded a" "i \<in> undispatched rl - ex"
      "pub = (if is_verdict_event (rl_outbox rl ! i) \<and> mk \<noteq> None then [delivery (rl_outbox rl ! i)] else [])"
proof (cases "next_row ex held (rl_outbox rl)")
  case None
  then have "undispatched rl \<subseteq> ex \<union> held" unfolding next_row_None undispatched_def by blast
  then show thesis using assms None by (intro empty) (auto simp: drain_one_def)
next
  case (Some i)
  let ?row = "rl_outbox rl ! i"
  have i: "i \<in> undispatched rl - ex" using next_row_Some [OF Some] by (simp add: undispatched_def)
  note d = assms [unfolded drain_one_def Some option.case Let_def]
  show thesis
  proof (cases "is_verdict_event ?row \<and> mk \<noteq> None")
    case False
    then have "(if ob_event_type ?row = ''verdict_issued'' then mk else None) = None" by simp
    then have "rl' = mark_dispatched i rl" "a = \<lparr>da_row_id = Some i, da_succeeded = True\<rparr>" using d by simp_all
    then show thesis using i False by (intro sent [where i = i and pub = "[]" and emi = "rl_emitted rl"]) simp_all
  next
    case True
    then obtain wv where mk: "mk = Some wv" "(if ob_event_type ?row = ''verdict_issued'' then mk else None) = Some wv"
      by auto
    note d = d [unfolded mk(2) option.case]
    show thesis
    proof (cases "\<exists>jws ch. map_of (ob_payload ?row) ''jws'' = Some jws \<and> map_of (ob_payload ?row) ''content_hash'' = Some ch \<and> wv jws ch = Inr ()")
      case ok: True
      then obtain jws ch where w: "map_of (ob_payload ?row) ''jws'' = Some jws" "map_of (ob_payload ?row) ''content_hash'' = Some ch"
        "wv jws ch = Inr ()" by (elim exE conjE)
      have del: "delivery ?row = (ch, jws)" by (simp add: delivery_def w)
      note d = d [unfolded w option.case prod.case sum.case, unfolded prod.inject]
      show thesis
        by (rule sent [OF conjunct1 [OF d, symmetric]]) (use d i True del in \<open>auto\<close>)
    next
      case bad: False
      have "rl' = rl" "a = \<lparr>da_row_id = Some i, da_succeeded = False\<rparr>"
        using d bad by (auto split: option.splits sum.splits)
      then show thesis using i True bad mk(1) by (intro failed [of i]) auto
    qed
  qed
qed

section \<open>A whole batch\<close>

text \<open>What a batch does: it only sets flags, of rows that were not dispatched and had not failed in it; it counts them;
  and the marketplace got exactly their deliveries, in the order they were sent.\<close>

definition batch_effect :: "bool \<Rightarrow> relay \<Rightarrow> relay \<Rightarrow> nat list \<Rightarrow> bool" where
  "batch_effect configured rl rl' sent \<longleftrightarrow> map content_of (rl_outbox rl') = map content_of (rl_outbox rl) \<and>
     distinct sent \<and> set sent \<subseteq> undispatched rl \<and> dispatched rl' = dispatched rl \<union> set sent \<and>
     undispatched rl' = undispatched rl - set sent \<and>
     (\<exists>pub. rl_published rl' = rl_published rl @ pub \<and>
        (configured \<longrightarrow> pub = map (\<lambda>i. delivery (rl_outbox rl ! i)) (filter (\<lambda>i. is_verdict_event (rl_outbox rl ! i)) sent)))"

lemma same_row:
  assumes "map content_of (rl_outbox rl') = map content_of (rl_outbox rl)" "i < length (rl_outbox rl)"
  shows "delivery (rl_outbox rl' ! i) = delivery (rl_outbox rl ! i)"
    "is_verdict_event (rl_outbox rl' ! i) = is_verdict_event (rl_outbox rl ! i)"
    "ob_payload (rl_outbox rl' ! i) = ob_payload (rl_outbox rl ! i)"
proof -
  have "length (rl_outbox rl') = length (rl_outbox rl)" using arg_cong [OF assms(1), of length] by simp
  then have "content_of (rl_outbox rl' ! i) = content_of (rl_outbox rl ! i)" using assms by (metis nth_map)
  then have "ob_payload (rl_outbox rl' ! i) = ob_payload (rl_outbox rl ! i) \<and> ob_event_type (rl_outbox rl' ! i) = ob_event_type (rl_outbox rl ! i)"
    unfolding content_of_def by (metis outbox_row.ext_inject outbox_row.surjective outbox_row.update_convs(4))
  then show "delivery (rl_outbox rl' ! i) = delivery (rl_outbox rl ! i)"
    "is_verdict_event (rl_outbox rl' ! i) = is_verdict_event (rl_outbox rl ! i)"
    "ob_payload (rl_outbox rl' ! i) = ob_payload (rl_outbox rl ! i)"
    by (simp_all add: delivery_def)
qed

lemma batch_effect_Nil [simp]: "batch_effect c rl rl []"
  by (simp add: batch_effect_def)

lemma batch_effect_Cons:
  assumes "i \<in> undispatched rl" "batch_effect c rl1 rl2 sent"
    and rl1: "rl1 = mark_dispatched i (rl\<lparr>rl_published := rl_published rl @ pub, rl_emitted := emi\<rparr>)"
    and pub: "c \<longrightarrow> pub = (if is_verdict_event (rl_outbox rl ! i) then [delivery (rl_outbox rl ! i)] else [])"
  shows "batch_effect c rl rl2 (i # sent)"
proof -
  let ?r = "rl\<lparr>rl_published := rl_published rl @ pub, rl_emitted := emi\<rparr>"
  have i: "i < length (rl_outbox ?r)" using assms(1) by (simp add: undispatched_def)
  have f: "map content_of (rl_outbox rl1) = map content_of (rl_outbox rl)" "dispatched rl1 = insert i (dispatched rl)"
    "undispatched rl1 = undispatched rl - {i}" "rl_published rl1 = rl_published rl @ pub"
    using mark_dispatched_facts [OF i] by (simp_all add: rl1 dispatched_def undispatched_def)
  have e: "map content_of (rl_outbox rl2) = map content_of (rl_outbox rl1)" "distinct sent" "set sent \<subseteq> undispatched rl1"
    "dispatched rl2 = dispatched rl1 \<union> set sent" "undispatched rl2 = undispatched rl1 - set sent"
    using assms(2) by (simp_all add: batch_effect_def)
  obtain pub2 where p: "rl_published rl2 = rl_published rl1 @ pub2"
    "c \<longrightarrow> pub2 = map (\<lambda>i. delivery (rl_outbox rl1 ! i)) (filter (\<lambda>i. is_verdict_event (rl_outbox rl1 ! i)) sent)"
    using assms(2) unfolding batch_effect_def by (elim conjE exE)
  have len: "j < length (rl_outbox rl)" if "j \<in> set sent" for j using that e(3) f(3) by (auto simp: undispatched_def)
  have "map (\<lambda>i. delivery (rl_outbox rl1 ! i)) (filter (\<lambda>i. is_verdict_event (rl_outbox rl1 ! i)) sent) =
      map (\<lambda>i. delivery (rl_outbox rl ! i)) (filter (\<lambda>i. is_verdict_event (rl_outbox rl ! i)) sent)"
    using same_row [OF f(1) len] by (intro map_cong filter_cong) auto
  then have "\<exists>pub. rl_published rl2 = rl_published rl @ pub \<and>
      (c \<longrightarrow> pub = map (\<lambda>i. delivery (rl_outbox rl ! i)) (filter (\<lambda>i. is_verdict_event (rl_outbox rl ! i)) (i # sent)))"
    using p f(4) pub by (intro exI [of _ "pub @ pub2"]) simp
  then show ?thesis using e f assms(1) unfolding batch_effect_def by auto
qed

lemma drain_rounds_effect:
  assumes "drain_rounds env nt n bad k rl = (rl', m)" "c \<longrightarrow> (\<forall>j. snd (env j) \<noteq> None)"
  shows "\<exists>sent. m = k + length sent \<and> batch_effect c rl rl' sent \<and> set sent \<inter> bad = {}"
  using assms
proof (induction n arbitrary: env bad k rl)
  case 0
  then show ?case by (intro exI [of _ "[]"]) simp
next
  case (Suc n)
  obtain rl1 a where 1: "drain_one (snd (env 0)) nt bad (fst (env 0)) rl = (rl1, a)" by fastforce
  have c: "c \<longrightarrow> (\<forall>j. snd ((env \<circ> Suc) j) \<noteq> None)" using Suc.prems(2) by simp
  from 1 show ?case
  proof (cases rule: drain_one_cases)
    case empty
    then show ?thesis using Suc.prems 1 by (intro exI [of _ "[]"]) simp
  next
    case (failed i)
    then have "drain_rounds (env \<circ> Suc) nt n (insert i bad) k rl = (rl', m)" using Suc.prems 1 by simp
    from Suc.IH [OF this c] show ?thesis by blast
  next
    case (sent i pub emi)
    then have "drain_rounds (env \<circ> Suc) nt n bad (Suc k) rl1 = (rl', m)" using Suc.prems 1 by simp
    from Suc.IH [OF this c] obtain s where s: "m = Suc k + length s" "batch_effect c rl1 rl' s" "set s \<inter> bad = {}" by blast
    have "c \<longrightarrow> pub = (if is_verdict_event (rl_outbox rl ! i) then [delivery (rl_outbox rl ! i)] else [])"
      using sent(5) Suc.prems(2) by simp
    then have "batch_effect c rl rl' (i # s)" using batch_effect_Cons [OF _ s(2) sent(1)] sent(4) by simp
    then show ?thesis using s sent(4) by (intro exI [of _ "i # s"]) simp
  qed
qed

text \<open>A row that the marketplace would take is not kept out by rows that it refuses.\<close>

lemma drain_rounds_reaches:
  assumes "drain_rounds env nt n bad k rl = (rl', m)"
    and free: "\<forall>j. fst (env j) = {}" and room: "card (undispatched rl - bad) \<le> n"
    and i: "i \<in> undispatched rl - bad"
    and takes: "\<forall>j wv. snd (env j) = Some wv \<longrightarrow> (\<exists>jws ch. map_of (ob_payload (rl_outbox rl ! i)) ''jws'' = Some jws \<and>
      map_of (ob_payload (rl_outbox rl ! i)) ''content_hash'' = Some ch \<and> wv jws ch = Inr ())"
  shows "i \<in> dispatched rl'"
  using assms
proof (induction n arbitrary: env bad k rl)
  case 0
  have "finite (undispatched rl - bad)" by (simp add: undispatched_def)
  then show ?case using "0.prems" by (auto simp: card_eq_0_iff)
next
  case (Suc n)
  obtain rl1 a where 1: "drain_one (snd (env 0)) nt bad (fst (env 0)) rl = (rl1, a)" by fastforce
  have env: "\<forall>j. fst ((env \<circ> Suc) j) = {}" using Suc.prems(2) by simp
  have fin: "finite (undispatched rl)" by (simp add: undispatched_def)
  from 1 show ?case
  proof (cases rule: drain_one_cases)
    case empty
    then show ?thesis using Suc.prems(2,4) by auto
  next
    case (failed f)
    then have run: "drain_rounds (env \<circ> Suc) nt n (insert f bad) k rl = (rl', m)" using Suc.prems(1) 1 by simp
    have ne: "i \<noteq> f"
    proof
      assume "i = f"
      then show False using Suc.prems(5) failed(6,7) by (metis option.exhaust)
    qed
    have "card (undispatched rl - insert f bad) < card (undispatched rl - bad)"
      using failed(4) fin by (intro psubset_card_mono) auto
    then show ?thesis using Suc.IH [OF run env] Suc.prems(3,4,5) ne by simp
  next
    case (sent d pub emi)
    let ?r = "rl\<lparr>rl_published := rl_published rl @ pub, rl_emitted := emi\<rparr>"
    have run: "drain_rounds (env \<circ> Suc) nt n bad (Suc k) rl1 = (rl', m)" using Suc.prems(1) 1 sent by simp
    have d: "d < length (rl_outbox ?r)" using sent(4) by (simp add: undispatched_def)
    have f: "map content_of (rl_outbox rl1) = map content_of (rl_outbox rl)" "dispatched rl1 = insert d (dispatched rl)"
      "undispatched rl1 = undispatched rl - {d}"
      using mark_dispatched_facts [OF d] by (simp_all add: sent(1) dispatched_def undispatched_def)
    show ?thesis
    proof (cases "i = d")
      case True
      obtain s where "batch_effect False rl1 rl' s" using drain_rounds_effect [OF run, of False] by blast
      then show ?thesis using True f(2) by (auto simp: batch_effect_def)
    next
      case False
      have "card (undispatched rl1 - bad) < card (undispatched rl - bad)"
        using sent(4) fin by (intro psubset_card_mono) (auto simp: f(3))
      moreover have "i < length (rl_outbox rl)" using Suc.prems(4) by (simp add: undispatched_def)
      ultimately show ?thesis
        using Suc.IH [OF run env] Suc.prems(3,4,5) False same_row(3) [OF f(1), of i] by (simp add: f(3))
    qed
  qed
qed

section \<open>Events for the log sink\<close>

text \<open>\<open>s.replace(c, w)\<close> for a single character, and decimal printing.\<close>

definition replace_char :: "char \<Rightarrow> string \<Rightarrow> string \<Rightarrow> string" where
  "replace_char c w s = concat (map (\<lambda>x. if x = c then w else [x]) s)"

fun nat_str :: "nat \<Rightarrow> string" where
  "nat_str n = (if n < 10 then [char_of (48 + n)] else nat_str (n div 10) @ [char_of (48 + n mod 10)])"

definition int_str :: "int \<Rightarrow> string" where
  "int_str i = (if i < 0 then CHR ''-'' # nat_str (nat (- i)) else nat_str (nat i))"

abbreviation ch_backslash :: char where "ch_backslash \<equiv> CHR 0x5C"
abbreviation ch_newline :: char where "ch_newline \<equiv> CHR 0x0A"
abbreviation ch_return :: char where "ch_return \<equiv> CHR 0x0D"
abbreviation ch_pipe :: char where "ch_pipe \<equiv> CHR 0x7C"
abbreviation ch_equals :: char where "ch_equals \<equiv> CHR 0x3D"

definition escape_cef_header :: "string \<Rightarrow> string" where
  "escape_cef_header v = replace_char ch_return [] (replace_char ch_newline [ch_backslash, CHR ''n'']
     (replace_char ch_pipe [ch_backslash, ch_pipe] (replace_char ch_backslash [ch_backslash, ch_backslash] v)))"

definition escape_cef_extension_value :: "string \<Rightarrow> string" where
  "escape_cef_extension_value v = replace_char ch_return [] (replace_char ch_newline [ch_backslash, CHR ''n'']
     (replace_char ch_equals [ch_backslash, ch_equals] (replace_char ch_backslash [ch_backslash, ch_backslash] v)))"

definition extension_text :: "(pyval \<Rightarrow> string) \<Rightarrow> (string \<times> pyval) list \<Rightarrow> string" where
  "extension_text str extension =
     py_join '' '' (map (\<lambda>(key, v). key @ ''='' @ escape_cef_extension_value (str v)) extension)"

definition format_cef ::
  "(pyval \<Rightarrow> string) \<Rightarrow> string \<Rightarrow> string \<Rightarrow> string \<Rightarrow> string \<Rightarrow> string \<Rightarrow> int \<Rightarrow> (string \<times> pyval) list \<Rightarrow> string res" where
  "format_cef str device_vendor device_product device_version signature_id name severity extension =
     res_bind (raise_if (\<not> (0 \<le> severity \<and> severity \<le> 10)) ValueError) (\<lambda>_.
     Inr (py_join ''|'' (map escape_cef_header
            [''CEF:0'', device_vendor, device_product, device_version, signature_id, name, int_str severity]) @
          ''|'' @ extension_text str extension))"

definition VERDICT_SEVERITY :: "(string \<times> int \<times> int) list" where
  "VERDICT_SEVERITY = [(''BLOCK'', 9, 3), (''REVIEW'', 5, 5), (''PASS'', 1, 6)]"

definition verdict_issued_event_to_cef ::
  "(pyval \<Rightarrow> string) \<Rightarrow> (string \<Rightarrow> string) \<Rightarrow> (string \<times> pyval) list \<Rightarrow> string \<Rightarrow> string \<Rightarrow> string \<Rightarrow> (string \<times> int) res" where
  "verdict_issued_event_to_cef str upper payload device_vendor device_product device_version =
     (let verdict = upper (str (case map_of payload ''verdict'' of None \<Rightarrow> PStr [] | Some v \<Rightarrow> v));
          (cef_severity, syslog_severity) = (case map_of VERDICT_SEVERITY verdict of None \<Rightarrow> (5, 5) | Some p \<Rightarrow> p)
      in res_bind (format_cef str device_vendor device_product device_version ''verdict_issued''
            (''Skill scan verdict issued: '' @ (if verdict = [] then ''UNKNOWN'' else verdict)) cef_severity
            (filter (\<lambda>(k, v). k \<in> {''scan_id'', ''content_hash'', ''verdict'', ''jti''}) payload)) (\<lambda>cef.
         Inr (cef, syslog_severity)))"

record siem_adapter =
  sa_facility :: int
  sa_vendor :: string
  sa_product :: string
  sa_version :: string

text \<open>The datagram an event becomes; a failed send is only logged.\<close>

definition emit :: "(pyval \<Rightarrow> string) \<Rightarrow> (string \<Rightarrow> string) \<Rightarrow> siem_adapter \<Rightarrow> string \<times> (string \<times> pyval) list \<Rightarrow> string option res" where
  "emit str upper sa = (\<lambda>(event_type, payload).
     if event_type \<noteq> ''verdict_issued'' then Inr None
     else res_bind (verdict_issued_event_to_cef str upper payload (sa_vendor sa) (sa_product sa) (sa_version sa)) (\<lambda>(cef, sev).
       Inr (Some (''<'' @ int_str (sa_facility sa * 8 + sev) @ ''>'' @ cef))))"

section \<open>Reading an event back\<close>

text \<open>A reader of the format: a backslash protects the next character, an unprotected pipe ends a field.\<close>

fun cef_field :: "string \<Rightarrow> string \<times> string" where
  "cef_field [] = ([], [])"
| "cef_field [c] = (if c = ch_pipe then ([], []) else ([c], []))"
| "cef_field (c # d # cs) =
     (if c = ch_pipe then ([], d # cs)
      else if c = ch_backslash then (case cef_field cs of (f, r) \<Rightarrow> ((if d = CHR ''n'' then ch_newline else d) # f, r))
      else (case cef_field (d # cs) of (f, r) \<Rightarrow> (c # f, r)))"

fun cef_fields :: "nat \<Rightarrow> string \<Rightarrow> string list \<times> string" where
  "cef_fields 0 s = ([], s)"
| "cef_fields (Suc n) s = (case cef_field s of (f, r) \<Rightarrow> (case cef_fields n r of (fs, t) \<Rightarrow> (f # fs, t)))"

definition esc :: "char \<Rightarrow> char \<Rightarrow> string" where
  "esc sep c = (if c = ch_return then [] else if c = ch_newline then [ch_backslash, CHR ''n'']
     else if c = sep \<or> c = ch_backslash then [ch_backslash, c] else [c])"

lemma py_join_free: "c \<notin> set sep \<Longrightarrow> \<forall>x \<in> set xs. c \<notin> set x \<Longrightarrow> c \<notin> set (py_join sep xs)"
  using set_py_join [of sep xs] by blast

lemma replace_char_append: "replace_char c w (s @ t) = replace_char c w s @ replace_char c w t"
  by (simp add: replace_char_def)

lemma escape_header_concat: "escape_cef_header v = concat (map (esc ch_pipe) v)"
  by (induction v) (auto simp: escape_cef_header_def replace_char_def esc_def)

lemma escape_value_concat: "escape_cef_extension_value v = concat (map (esc ch_equals) v)"
  by (induction v) (auto simp: escape_cef_extension_value_def replace_char_def esc_def)

lemma esc_line: "sep \<noteq> ch_newline \<Longrightarrow> sep \<noteq> ch_return \<Longrightarrow> ch_newline \<notin> set (esc sep c) \<and> ch_return \<notin> set (esc sep c)"
  by (auto simp: esc_def)

lemma cef_field_plain: "c \<noteq> ch_pipe \<Longrightarrow> c \<noteq> ch_backslash \<Longrightarrow> s \<noteq> [] \<Longrightarrow>
    cef_field (c # s) = (case cef_field s of (f, r) \<Rightarrow> (c # f, r))"
  by (cases s) simp_all

lemma cef_field_escaped: "cef_field (escape_cef_header v @ ch_pipe # rest) = (filter (\<lambda>c. c \<noteq> ch_return) v, rest)"
proof (induction v)
  case Nil
  then show ?case by (cases rest) (simp_all add: escape_header_concat)
next
  case (Cons c v)
  let ?s = "escape_cef_header v @ ch_pipe # rest"
  have s: "escape_cef_header (c # v) @ ch_pipe # rest = esc ch_pipe c @ ?s" by (simp add: escape_header_concat)
  have "cef_field (esc ch_pipe c @ ?s) = (filter (\<lambda>c. c \<noteq> ch_return) (c # v), rest)"
    using Cons cef_field_plain [of c ?s] by (auto simp: esc_def)
  then show ?case by (simp only: s)
qed

lemma cef_fields_joined:
  "fs \<noteq> [] \<Longrightarrow> cef_fields (length fs) (py_join ''|'' (map escape_cef_header fs) @ ch_pipe # rest) =
     (map (filter (\<lambda>c. c \<noteq> ch_return)) fs, rest)"
proof (induction fs)
  case (Cons f fs)
  show ?case
  proof (cases fs)
    case Nil
    then show ?thesis by (simp add: cef_field_escaped)
  next
    case (Cons g gs)
    have "py_join ''|'' (map escape_cef_header (f # fs)) @ ch_pipe # rest =
        escape_cef_header f @ ch_pipe # (py_join ''|'' (map escape_cef_header fs) @ ch_pipe # rest)"
      by (simp add: Cons)
    then show ?thesis using Cons.IH Cons by (simp add: cef_field_escaped del: cef_fields.simps) (simp add: cef_field_escaped)
  qed
qed simp

section \<open>Properties\<close>

text \<open>A marketplace that takes what a row carries, in every round.\<close>

definition always_taken :: "(nat \<Rightarrow> nat set \<times> marketplace option) \<Rightarrow> outbox_row \<Rightarrow> bool" where
  "always_taken env r \<longleftrightarrow> (\<forall>j wv. snd (env j) = Some wv \<longrightarrow> (\<exists>jws ch. map_of (ob_payload r) ''jws'' = Some jws \<and>
     map_of (ob_payload r) ''content_hash'' = Some ch \<and> wv jws ch = Inr ()))"


definition verdict_event :: "string \<Rightarrow> string \<Rightarrow> outbox_row" where
  "verdict_event verdict jws = \<lparr>ob_aggregate_id = ''s1'', ob_event_type = ''verdict_issued'',
     ob_payload = outbox_payload ''s1'' ''c1'' verdict ''j'' jws, ob_dispatched = False, ob_created_at = 0\<rparr>"

definition review_outbox :: relay where
  "review_outbox = \<lparr>rl_outbox = [verdict_event ''REVIEW'' ''w1'', verdict_event ''BLOCK'' ''w2''], rl_published = [], rl_emitted = []\<rparr>"

text \<open>A marketplace that is unreachable for one write.\<close>

definition first_write_fails :: "nat \<Rightarrow> nat set \<times> marketplace option" where
  "first_write_fails j = ({}, Some (\<lambda>jws ch. if j = 0 then Inl OSError else Inr ()))"

definition writes_succeed :: "nat \<Rightarrow> nat set \<times> marketplace option" where
  "writes_succeed j = ({}, Some (\<lambda>jws ch. Inr ()))"

text \<open>Note: A retried delivery can bring an older verdict back. A scan was issued REVIEW and then, by a reviewer, BLOCK. The
  write of the first event fails once, the second one succeeds, and the next batch writes the first again: the
  marketplace, which keeps one verdict per content, ends with the older one, and nothing is left to
  deliver.\<close>

theorem outbox_retry_restores_older_verdict:
  "\<exists>rl1 rl2. drain_pending_outbox first_write_fails False 50 review_outbox = (rl1, 1) \<and>
     drain_pending_outbox writes_succeed False 50 rl1 = (rl2, 1) \<and>
     rl_published rl2 = [(PStr ''c1'', PStr ''w2''), (PStr ''c1'', PStr ''w1'')] \<and> undispatched rl2 = {}"
proof -
  have less2: "i < Suc (Suc 0) \<longleftrightarrow> i = 0 \<or> i = 1" for i by auto
  show ?thesis
    by (simp add: drain_pending_outbox_def review_outbox_def verdict_event_def outbox_payload_def numeral_eq_Suc
        drain_one_def next_row_def first_write_fails_def writes_succeed_def mark_dispatched_def undispatched_def less2)
qed

text \<open>Note: An event cannot break its line or its fields. Whatever the verdict, the scan and the content are called, a
  line has no line break, a reader gets back the seven header fields as they were, less carriage returns, and
  the rest is the extension, which never carries the signed token.\<close>

theorem siem_line_roundtrip:
  assumes "verdict_issued_event_to_cef str upper payload vendor product version = Inr (line, sev)"
  shows "\<exists>name cef_sev. cef_fields 7 line =
      (map (filter (\<lambda>c. c \<noteq> ch_return)) [''CEF:0'', vendor, product, version, ''verdict_issued'', name, int_str cef_sev],
       extension_text str (filter (\<lambda>(k, v). k \<in> {''scan_id'', ''content_hash'', ''verdict'', ''jti''}) payload)) \<and>
    ch_newline \<notin> set line \<and> ch_return \<notin> set line"
proof -
  let ?ext = "filter (\<lambda>(k, v). k \<in> {''scan_id'', ''content_hash'', ''verdict'', ''jti''}) payload"
  obtain name cs where l: "line = py_join ''|'' (map escape_cef_header
      [''CEF:0'', vendor, product, version, ''verdict_issued'', name, int_str cs]) @ ch_pipe # extension_text str ?ext"
    using assms by (auto simp: verdict_issued_event_to_cef_def format_cef_def res_bind_eq_Inr Let_def split: option.splits prod.splits)
  let ?fs = "[''CEF:0'', vendor, product, version, ''verdict_issued'', name, int_str cs]"
  have f: "cef_fields 7 line = (map (filter (\<lambda>c. c \<noteq> ch_return)) ?fs, extension_text str ?ext)"
  proof -
    have n: "?fs \<noteq> []" "length ?fs = 7" by simp_all
    show ?thesis using cef_fields_joined [OF n(1), of "extension_text str ?ext"] unfolding l n(2) .
  qed
  have hdr: "ch_newline \<notin> set (escape_cef_header v)" "ch_return \<notin> set (escape_cef_header v)" for v
    using esc_line [of ch_pipe] by (auto simp: escape_header_concat)
  have val: "ch_newline \<notin> set (escape_cef_extension_value v)" "ch_return \<notin> set (escape_cef_extension_value v)" for v
    using esc_line [of ch_equals] by (auto simp: escape_value_concat)
  have key: "ch_newline \<notin> set k \<and> ch_return \<notin> set k" if "(k, v) \<in> set ?ext" for k v using that by auto
  have ext: "ch_newline \<notin> set (extension_text str ?ext)" "ch_return \<notin> set (extension_text str ?ext)"
    unfolding extension_text_def by (rule py_join_free; use val key in fastforce)+
  have "ch_newline \<notin> set (py_join ''|'' (map escape_cef_header ?fs))" "ch_return \<notin> set (py_join ''|'' (map escape_cef_header ?fs))"
    by (rule py_join_free; use hdr in auto)+
  then have "ch_newline \<notin> set line" "ch_return \<notin> set line" using ext unfolding l by simp_all
  then show ?thesis using f by (intro exI conjI)
qed

section \<open>Witnesses\<close>


theorem siem_line_roundtrip_witness:
  "\<exists>line. verdict_issued_event_to_cef (\<lambda>v. case v of PStr s \<Rightarrow> s | _ \<Rightarrow> []) id [(''verdict'', PStr ''PASS'')] ''a|b'' ''g'' ''1'' = Inr (line, 6) \<and>
     hd (tl (fst (cef_fields 7 line))) = ''a|b'' \<and> ch_newline \<notin> set line"
proof -
  obtain line where l: "verdict_issued_event_to_cef (\<lambda>v. case v of PStr s \<Rightarrow> s | _ \<Rightarrow> []) id [(''verdict'', PStr ''PASS'')] ''a|b'' ''g'' ''1'' = Inr (line, 6)"
    by (simp add: verdict_issued_event_to_cef_def format_cef_def VERDICT_SEVERITY_def Let_def)
  from siem_line_roundtrip [OF l] have "hd (tl (fst (cef_fields 7 line))) = ''a|b'' \<and> ch_newline \<notin> set line"
    by (elim exE conjE) simp
  with l show ?thesis by (elim conjE) (intro exI conjI)
qed

end
