(* ===== verification/Redis_Store.thy ===== *)
theory Redis_Store
  imports Core_Models
begin

text \<open>
  The part of the shared key-value store that the program relies on: string keys with a value and an
  optional expiry, \<open>GET\<close>, \<open>SET\<close> with \<open>NX\<close> and \<open>EX\<close>, \<open>DEL\<close>, \<open>TTL\<close>
  and \<open>EXPIRE\<close>, each with the time of the server as an argument. On top of it, the fixed window
  counters of libs/common/redis_window_counter.py, whose two scripts the server runs as one step.
\<close>

section \<open>Keys with an expiry\<close>

record entry =
  en_value :: pyval
  en_expires :: "real option"

type_synonym redis = "string \<Rightarrow> entry option"

definition live :: "real \<Rightarrow> entry \<Rightarrow> bool" where
  "live now e \<longleftrightarrow> (case en_expires e of None \<Rightarrow> True | Some t \<Rightarrow> now < t)"

definition redis_entry :: "real \<Rightarrow> string \<Rightarrow> redis \<Rightarrow> entry option" where
  "redis_entry now key r = (case r key of None \<Rightarrow> None | Some e \<Rightarrow> if live now e then Some e else None)"

definition redis_get :: "real \<Rightarrow> string \<Rightarrow> redis \<Rightarrow> pyval option" where
  "redis_get now key r = map_option en_value (redis_entry now key r)"

definition redis_set :: "real \<Rightarrow> string \<Rightarrow> pyval \<Rightarrow> real \<Rightarrow> redis \<Rightarrow> redis" where
  "redis_set now key v ex r = r(key \<mapsto> \<lparr>en_value = v, en_expires = Some (now + ex)\<rparr>)"

definition redis_set_nx :: "real \<Rightarrow> string \<Rightarrow> pyval \<Rightarrow> real \<Rightarrow> redis \<Rightarrow> redis \<times> bool" where
  "redis_set_nx now key v ex r =
     (if redis_entry now key r = None then (redis_set now key v ex r, True) else (r, False))"

definition redis_delete :: "string \<Rightarrow> redis \<Rightarrow> redis" where
  "redis_delete key r = r(key := None)"

text \<open>\<open>TTL\<close> answers -2 for a missing key and -1 for one without expiry.\<close>

definition redis_ttl :: "real \<Rightarrow> string \<Rightarrow> redis \<Rightarrow> real" where
  "redis_ttl now key r = (case redis_entry now key r of None \<Rightarrow> -2
     | Some e \<Rightarrow> (case en_expires e of None \<Rightarrow> -1 | Some t \<Rightarrow> t - now))"

definition redis_expire :: "real \<Rightarrow> string \<Rightarrow> real \<Rightarrow> redis \<Rightarrow> redis" where
  "redis_expire now key s r = (case redis_entry now key r of None \<Rightarrow> r
     | Some e \<Rightarrow> r(key \<mapsto> e\<lparr>en_expires := Some (now + s)\<rparr>))"

text \<open>\<open>INCR\<close> keeps the expiry of a live key and starts a missing one at 1 without any; on a value
  that is not a number the server answers with an error.\<close>

definition redis_incr :: "real \<Rightarrow> string \<Rightarrow> redis \<Rightarrow> (redis \<times> int) res" where
  "redis_incr now key r = (case redis_entry now key r of
       None \<Rightarrow> Inr (r(key \<mapsto> \<lparr>en_value = PInt 1, en_expires = None\<rparr>), 1)
     | Some e \<Rightarrow> (case en_value e of
           PInt n \<Rightarrow> Inr (r(key \<mapsto> e\<lparr>en_value := PInt (n + 1)\<rparr>), n + 1)
         | _ \<Rightarrow> Inl RedisError))"

lemma redis_entry_set [simp]:
  "redis_entry t k (redis_set now key v ex r) =
     (if k = key then if t < now + ex then Some \<lparr>en_value = v, en_expires = Some (now + ex)\<rparr> else None
      else redis_entry t k r)"
  by (simp add: redis_entry_def redis_set_def live_def)

lemma redis_get_set [simp]:
  "redis_get t k (redis_set now key v ex r) =
     (if k = key then if t < now + ex then Some v else None else redis_get t k r)"
  by (simp add: redis_get_def)

lemma redis_entry_delete [simp]: "redis_entry t k (redis_delete key r) = (if k = key then None else redis_entry t k r)"
  by (simp add: redis_entry_def redis_delete_def)

lemma redis_get_delete [simp]: "redis_get t k (redis_delete key r) = (if k = key then None else redis_get t k r)"
  by (simp add: redis_get_def)

lemma redis_entry_mono: "redis_entry t k r = Some e \<Longrightarrow> s \<le> t \<Longrightarrow> redis_entry s k r = Some e"
  by (auto simp: redis_entry_def live_def split: option.splits if_splits)

lemma redis_set_nx_cases:
  assumes "redis_set_nx now key v ex r = (r', ok)"
  obtains "ok" "redis_entry now key r = None" "r' = redis_set now key v ex r"
    | "\<not> ok" "redis_entry now key r \<noteq> None" "r' = r"
proof (cases "redis_entry now key r = None")
  case True
  then show thesis using assms that(1) by (simp add: redis_set_nx_def)
next
  case False
  then have "(r, False) = (r', ok)" using assms by (simp only: redis_set_nx_def if_False)
  then have "\<not> ok" "r' = r" by simp_all
  then show thesis using False by (intro that(2))
qed

section \<open>Counters in a fixed window\<close>

definition incr_in_window :: "real \<Rightarrow> string \<Rightarrow> real \<Rightarrow> redis \<Rightarrow> (redis \<times> int \<times> real) res" where
  "incr_in_window now key window_s r =
     res_bind (redis_incr now key r) (\<lambda>(r1, count).
       (let ttl = redis_ttl now key r1
        in if ttl < 0 then Inr (redis_expire now key window_s r1, count, window_s) else Inr (r1, count, ttl)))"

definition read_in_window :: "real \<Rightarrow> string \<Rightarrow> real \<Rightarrow> redis \<Rightarrow> redis \<times> int \<times> real" where
  "read_in_window now key window_s r = (case redis_get now key r of
       None \<Rightarrow> (r, 0, -2)
     | Some raw \<Rightarrow>
         (let count = (case raw of PInt n \<Rightarrow> n | _ \<Rightarrow> 0);
              ttl = redis_ttl now key r
          in if ttl < 0 then (redis_expire now key window_s r, count, window_s) else (r, count, ttl)))"

text \<open>The number a key stands for at a time, and that it is bounded by an expiry.\<close>

definition counter_at :: "real \<Rightarrow> string \<Rightarrow> redis \<Rightarrow> int" where
  "counter_at now key r = (case redis_get now key r of Some (PInt n) \<Rightarrow> n | _ \<Rightarrow> 0)"

definition is_counter :: "real \<Rightarrow> string \<Rightarrow> redis \<Rightarrow> bool" where
  "is_counter now key r \<longleftrightarrow> (case redis_get now key r of None \<Rightarrow> True | Some (PInt n) \<Rightarrow> True | _ \<Rightarrow> False)"

definition bounded_key :: "real \<Rightarrow> string \<Rightarrow> real \<Rightarrow> redis \<Rightarrow> bool" where
  "bounded_key now key window_s r \<longleftrightarrow>
     (case redis_entry now key r of None \<Rightarrow> True | Some e \<Rightarrow> (case en_expires e of None \<Rightarrow> False | Some t \<Rightarrow> t \<le> now + window_s))"

lemma incr_in_window_counts:
  assumes "is_counter now key r" "0 < window_s"
  shows "\<exists>r' ttl. incr_in_window now key window_s r = Inr (r', counter_at now key r + 1, ttl) \<and>
    counter_at now key r' = counter_at now key r + 1 \<and> is_counter now key r' \<and>
    (\<forall>k. k \<noteq> key \<longrightarrow> r' k = r k)"
proof (cases "redis_entry now key r")
  case None
  then show ?thesis using assms
    by (auto simp: incr_in_window_def redis_incr_def redis_ttl_def redis_expire_def counter_at_def is_counter_def
        redis_get_def redis_entry_def live_def Let_def split: option.splits if_splits)
next
  case (Some e)
  then obtain n where n: "en_value e = PInt n"
    using assms(1) by (auto simp: is_counter_def redis_get_def split: pyval.splits)
  show ?thesis using assms(2) Some n
    by (auto simp: incr_in_window_def redis_incr_def redis_ttl_def redis_expire_def counter_at_def is_counter_def
        redis_get_def redis_entry_def live_def Let_def split: option.splits if_splits)
qed

lemma read_in_window_counts:
  assumes "is_counter now key r" "0 < window_s"
  shows "\<exists>r' ttl. read_in_window now key window_s r = (r', counter_at now key r, ttl) \<and>
    counter_at now key r' = counter_at now key r \<and> is_counter now key r' \<and> (\<forall>k. k \<noteq> key \<longrightarrow> r' k = r k)"
proof (cases "redis_entry now key r")
  case None
  then show ?thesis using assms by (auto simp: read_in_window_def redis_get_def counter_at_def is_counter_def)
next
  case (Some e)
  then obtain n where n: "en_value e = PInt n"
    using assms(1) by (auto simp: is_counter_def redis_get_def split: pyval.splits)
  show ?thesis using assms(2) Some n
    by (auto simp: read_in_window_def redis_ttl_def redis_expire_def counter_at_def is_counter_def
        redis_get_def redis_entry_def live_def Let_def split: option.splits if_splits)
qed

text \<open>Either script leaves a live key with an expiry, whatever state it found the key in.\<close>

lemma incr_in_window_bounded:
  assumes "incr_in_window now key window_s r = Inr (r', n, ttl)" "0 < window_s"
  shows "\<exists>e t. redis_entry now key r' = Some e \<and> en_expires e = Some t"
  using assms by (auto simp: incr_in_window_def redis_incr_def redis_ttl_def redis_expire_def redis_entry_def live_def
      Let_def res_bind_eq_Inr split: option.splits if_splits pyval.splits prod.splits)

lemma read_in_window_bounded:
  assumes "read_in_window now key window_s r = (r', n, ttl)" "0 < window_s"
  shows "case redis_entry now key r' of None \<Rightarrow> redis_entry now key r = None | Some e \<Rightarrow> en_expires e \<noteq> None"
  using assms by (auto simp: read_in_window_def redis_get_def redis_ttl_def redis_expire_def redis_entry_def live_def
      Let_def split: option.splits if_splits)

end
