(* ===== verification/Engine_Registry.thy ===== *)
theory Engine_Registry
  imports Core_Models
begin

text \<open>
  The names of the engines and their switches: libs/common/engine_names.py (lock file keys and runtime
  names), libs/common/engine_toggle.py (the shared set of disabled engines),
  apps/monolith/modules/admin/engine_registry.py (the listing, the toggle and the attribution of missing
  reports), the lists of sandbox engines in services/engine_runner/sandbox_engines.py, and the waiting set
  of apps/monolith/worker.py. The set of disabled engines is the value of one key of the shared store.
\<close>

section \<open>Two namespaces\<close>

definition ENGINE_NAME_BY_LOCK_KEY :: "(string \<times> string) list" where
  "ENGINE_NAME_BY_LOCK_KEY =
     [(''aig'', ''aig-mcp-scan''), (''bandit'', ''bandit''), (''osv_scanner'', ''osv-scanner''),
      (''skillspector'', ''skillspector''), (''yara'', ''yara'')]"

definition LOCK_KEY_BY_ENGINE_NAME :: "(string \<times> string) list" where
  "LOCK_KEY_BY_ENGINE_NAME = map (\<lambda>(key, name). (name, key)) ENGINE_NAME_BY_LOCK_KEY"

definition engine_name_for_lock_key :: "string \<Rightarrow> string res" where
  "engine_name_for_lock_key lock_key = (case map_of ENGINE_NAME_BY_LOCK_KEY lock_key of
     None \<Rightarrow> Inl UnknownEngineNameError | Some name \<Rightarrow> Inr name)"

definition lock_key_for_engine_name :: "string \<Rightarrow> string res" where
  "lock_key_for_engine_name engine_name = (case map_of LOCK_KEY_BY_ENGINE_NAME engine_name of
     None \<Rightarrow> Inl UnknownEngineNameError | Some key \<Rightarrow> Inr key)"

section \<open>The sandbox engines\<close>

definition SANDBOX_ENGINE_NAMES :: "string list" where
  "SANDBOX_ENGINE_NAMES = [''bandit'', ''osv-scanner'', ''yara'', ''skillspector'', ''aig-mcp-scan'']"

text \<open>The engines a runner builds, by whether an internal language model endpoint is configured.\<close>

definition sandbox_engine_names :: "string \<Rightarrow> string set" where
  "sandbox_engine_names vllm_base_url =
     set ([''bandit'', ''osv-scanner'', ''yara''] @ [''skillspector''] @ (if vllm_base_url \<noteq> [] then [''aig-mcp-scan''] else []))"

definition llm_gated_engine_names :: "string set" where
  "llm_gated_engine_names = set SANDBOX_ENGINE_NAMES - sandbox_engine_names []"

definition active_sandbox_waited_engines :: "string set \<Rightarrow> bool \<Rightarrow> string list" where
  "active_sandbox_waited_engines disabled_engines sandbox_llm_configured =
     filter (\<lambda>name. name \<notin> disabled_engines \<and> (sandbox_llm_configured \<or> name \<notin> llm_gated_engine_names)) SANDBOX_ENGINE_NAMES"

section \<open>Listing and toggling\<close>

record engine_row =
  er_name :: string
  er_version :: "string option"
  er_version_unavailable_reason :: "string option"
  er_required :: bool
  er_enabled :: bool
  er_capabilities :: "string list"

definition VERSION_UNAVAILABLE_SANDBOXED :: string where
  "VERSION_UNAVAILABLE_SANDBOXED = ''sandboxed_image''"

text \<open>The identity of the intelligence matcher, which is in process but not among the floor engines.\<close>

definition INTEL_ENGINE_NAME :: string where "INTEL_ENGINE_NAME = ''inhouse-intel-matcher''"

definition INTEL_ENGINE_VERSION :: string where "INTEL_ENGINE_VERSION = ''1.0.0''"

definition INTEL_ENGINE_CAPABILITIES :: "string list" where
  "INTEL_ENGINE_CAPABILITIES = [''static'', ''threat_intel'']"

text \<open>An engine in process is given by its name, version and capability values.\<close>

definition known_engine_rows ::
  "(string \<times> string \<times> string list) list \<Rightarrow> string set \<Rightarrow> string set \<Rightarrow> engine_row list" where
  "known_engine_rows engine_metadatas required disabled =
     map (\<lambda>(name, version, caps). \<lparr>er_name = name, er_version = Some version, er_version_unavailable_reason = None,
        er_required = (name \<in> required), er_enabled = (name \<notin> disabled), er_capabilities = sort caps\<rparr>) engine_metadatas @
     map (\<lambda>name. \<lparr>er_name = name, er_version = None, er_version_unavailable_reason = Some VERSION_UNAVAILABLE_SANDBOXED,
        er_required = False, er_enabled = (name \<notin> disabled), er_capabilities = [''sandboxed'']\<rparr>) SANDBOX_ENGINE_NAMES @
     [\<lparr>er_name = INTEL_ENGINE_NAME, er_version = Some INTEL_ENGINE_VERSION, er_version_unavailable_reason = None,
       er_required = (INTEL_ENGINE_NAME \<in> required), er_enabled = (INTEL_ENGINE_NAME \<notin> disabled),
       er_capabilities = sort INTEL_ENGINE_CAPABILITIES\<rparr>]"

definition known_engine_names :: "(string \<times> string \<times> string list) list \<Rightarrow> string set" where
  "known_engine_names engine_metadatas = er_name ` set (known_engine_rows engine_metadatas {} {})"

definition is_disableable :: "string \<Rightarrow> string set \<Rightarrow> bool" where
  "is_disableable name required_names \<longleftrightarrow> name \<notin> required_names"

definition set_engine_enabled :: "string \<Rightarrow> bool \<Rightarrow> string set \<Rightarrow> string set \<Rightarrow> string set res" where
  "set_engine_enabled name enabled required_names disabled =
     res_bind (raise_if (\<not> enabled \<and> \<not> is_disableable name required_names) EngineDisableError) (\<lambda>_.
       Inr (if enabled then disabled - {name} else insert name disabled))"

definition filter_enabled_engines :: "string set \<Rightarrow> (string \<times> 'm) list \<Rightarrow> (string \<times> 'm) list" where
  "filter_enabled_engines disabled engine_metadatas = filter (\<lambda>(name, m). name \<notin> disabled) engine_metadatas"

section \<open>Why an engine did not report\<close>

definition ATTRIBUTION_LLM_ENDPOINT_UNCONFIGURED :: string where
  "ATTRIBUTION_LLM_ENDPOINT_UNCONFIGURED = ''llm_endpoint_unconfigured''"
definition ATTRIBUTION_CURRENTLY_DISABLED :: string where "ATTRIBUTION_CURRENTLY_DISABLED = ''currently_disabled''"
definition ATTRIBUTION_BASIS_CURRENT_CONFIG :: string where "ATTRIBUTION_BASIS_CURRENT_CONFIG = ''current_config''"

definition llm_unconfigured_engine_names :: "bool \<Rightarrow> string set" where
  "llm_unconfigured_engine_names sandbox_llm_configured = (if sandbox_llm_configured then {} else llm_gated_engine_names)"

definition structurally_absent_engine_names :: "string set \<Rightarrow> string set \<Rightarrow> string set" where
  "structurally_absent_engine_names disabled llm_unconfigured = disabled \<union> llm_unconfigured"

definition not_reported_attribution :: "string \<Rightarrow> string set \<Rightarrow> string set \<Rightarrow> nat \<Rightarrow> string option" where
  "not_reported_attribution engine_name disabled llm_unconfigured reported_in_window =
     (if engine_name \<in> llm_unconfigured \<and> reported_in_window = 0 then Some ATTRIBUTION_LLM_ENDPOINT_UNCONFIGURED
      else if engine_name \<in> disabled then Some ATTRIBUTION_CURRENTLY_DISABLED
      else None)"

definition not_reported_attribution_basis :: "string option \<Rightarrow> string option" where
  "not_reported_attribution_basis attribution = map_option (\<lambda>_. ATTRIBUTION_BASIS_CURRENT_CONFIG) attribution"

section \<open>Facts\<close>

lemma engine_names_roundtrip:
  "engine_name_for_lock_key k = Inr n \<longleftrightarrow> lock_key_for_engine_name n = Inr k"
  by (auto simp: engine_name_for_lock_key_def lock_key_for_engine_name_def ENGINE_NAME_BY_LOCK_KEY_def
      LOCK_KEY_BY_ENGINE_NAME_def split: option.splits if_splits)

lemma lock_names_cover_sandbox:
  "n \<in> set SANDBOX_ENGINE_NAMES \<longleftrightarrow> (\<exists>k. lock_key_for_engine_name n = Inr k)"
  by (auto simp: lock_key_for_engine_name_def ENGINE_NAME_BY_LOCK_KEY_def SANDBOX_ENGINE_NAMES_def
      LOCK_KEY_BY_ENGINE_NAME_def split: option.splits if_splits)

lemma llm_gated_is_aig: "llm_gated_engine_names = {''aig-mcp-scan''}"
  by (auto simp: llm_gated_engine_names_def SANDBOX_ENGINE_NAMES_def sandbox_engine_names_def)

text \<open>The gate waits exactly for the sandbox engines that are not structurally absent: the explanation of
  the console and the wait of the worker agree.\<close>

lemma waited_iff_not_absent:
  "n \<in> set (active_sandbox_waited_engines disabled llm) \<longleftrightarrow>
     n \<in> set SANDBOX_ENGINE_NAMES \<and> n \<notin> structurally_absent_engine_names disabled (llm_unconfigured_engine_names llm)"
  by (auto simp: active_sandbox_waited_engines_def structurally_absent_engine_names_def llm_unconfigured_engine_names_def)

lemma attribution_only_of_absent:
  "not_reported_attribution n disabled unconf k \<noteq> None \<Longrightarrow> n \<in> structurally_absent_engine_names disabled unconf"
  by (auto simp: not_reported_attribution_def structurally_absent_engine_names_def split: if_splits)

lemma toggle_keeps_required:
  "set_engine_enabled name enabled req disabled = Inr disabled' \<Longrightarrow> disabled \<inter> req = {} \<Longrightarrow> disabled' \<inter> req = {}"
  by (auto simp: set_engine_enabled_def is_disableable_def res_bind_eq_Inr split: if_splits)

end
