(* ===== verification/Report_Schedule.thy ===== *)
theory Report_Schedule
  imports Outbox_Relay Audit_Chain Redis_Store Engine_Registry
begin

text \<open>
  apps/monolith/modules/reporting/service.py: the cron expressions of report schedules, the storage of a
  schedule, the report templates over the audit ledger, and the step of the worker that fires the due
  schedules (apps/monolith/worker.py, \<open>run_due_report_schedules\<close>). The spelling of values and times
  (\<open>str\<close>, \<open>isoformat\<close>) and the reader of the engine lock file are parameters; the exports to CSV and
  PDF are libraries and are not modelled.
\<close>

section \<open>Cron expressions\<close>

definition CRON_FIELD_BOUNDS :: "(int \<times> int) list" where
  "CRON_FIELD_BOUNDS = [(0, 59), (0, 23), (1, 31), (1, 12), (0, 7)]"

definition is_digit :: "char \<Rightarrow> bool" where
  "is_digit c \<longleftrightarrow> 48 \<le> (of_char c :: nat) \<and> (of_char c :: nat) \<le> 57"

fun digits_value :: "int \<Rightarrow> string \<Rightarrow> int res" where
  "digits_value acc [] = Inr acc"
| "digits_value acc (c # cs) =
     (if is_digit c then digits_value (acc * 10 + (int (of_char c) - 48)) cs else Inl InvalidCronError)"

text \<open>\<open>int(text)\<close> on the characters a cron field may have (digits and \<open>* , - /\<close>), with its
  \<open>ValueError\<close> already turned into the error of the module as every call site does.\<close>

definition cron_int :: "string \<Rightarrow> int res" where
  "cron_int s = (case s of [] \<Rightarrow> Inl InvalidCronError
     | c # cs \<Rightarrow> if c = CHR ''-'' then (if cs = [] then Inl InvalidCronError
                    else res_bind (digits_value 0 cs) (\<lambda>n. Inr (- n)))
                 else digits_value 0 s)"

definition cron_token :: "int \<Rightarrow> int \<Rightarrow> string \<Rightarrow> (int \<times> int \<times> int) res" where
  "cron_token lo hi token =
     (let (base, step_raw) = py_partition (CHR ''/'') token
      in res_bind (if step_raw \<noteq> [] then cron_int step_raw else Inr 1) (\<lambda>step.
         res_bind (raise_if (step < 1) InvalidCronError) (\<lambda>_.
         res_bind (if base = ''*'' then Inr (lo, hi)
                   else if CHR ''-'' \<in> set base then
                     (let (start_raw, end_raw) = py_partition (CHR ''-'') base
                      in res_bind (cron_int start_raw) (\<lambda>start. res_bind (cron_int end_raw) (\<lambda>stop. Inr (start, stop))))
                   else res_bind (cron_int base) (\<lambda>start. Inr (start, start))) (\<lambda>(start, stop).
         res_bind (raise_if (\<not> (lo \<le> start \<and> start \<le> hi \<and> lo \<le> stop \<and> stop \<le> hi \<and> start \<le> stop)) InvalidCronError) (\<lambda>_.
         Inr (start, stop, step))))))"

fun cron_tokens_match :: "int \<Rightarrow> int \<Rightarrow> int \<Rightarrow> string list \<Rightarrow> bool res" where
  "cron_tokens_match lo hi value [] = Inr False"
| "cron_tokens_match lo hi value (token # ts) =
     res_bind (cron_token lo hi token) (\<lambda>(start, stop, step).
       if start \<le> value \<and> value \<le> stop \<and> (value - start) mod step = 0 then Inr True
       else cron_tokens_match lo hi value ts)"

definition cron_field_matches :: "string \<Rightarrow> int \<Rightarrow> int \<Rightarrow> int \<Rightarrow> bool res" where
  "cron_field_matches field_expr value lo hi = cron_tokens_match lo hi value (py_split (CHR '','') field_expr)"

definition CRON_FIELD_PATTERN :: "string \<Rightarrow> bool" where
  "CRON_FIELD_PATTERN f \<longleftrightarrow> f \<noteq> [] \<and> list_all (\<lambda>c. is_digit c \<or> c \<in> {CHR ''*'', CHR '','', CHR ''-'', CHR ''/''}) f"

fun validate_fields :: "(string \<times> int \<times> int) list \<Rightarrow> unit res" where
  "validate_fields [] = Inr ()"
| "validate_fields ((f, lo, hi) # fs) =
     res_bind (raise_if (\<not> CRON_FIELD_PATTERN f) InvalidCronError) (\<lambda>_.
     res_bind (cron_field_matches f lo lo hi) (\<lambda>_. validate_fields fs))"

definition validate_cron :: "string \<Rightarrow> unit res" where
  "validate_cron expression =
     (let fields = split_words expression
      in res_bind (raise_if (length fields \<noteq> 5) InvalidCronError) (\<lambda>_.
         validate_fields (zip fields CRON_FIELD_BOUNDS)))"

text \<open>The fields of a \<open>datetime\<close> that cron looks at; Monday is weekday 0.\<close>

record cron_time =
  ct_minute :: int
  ct_hour :: int
  ct_day :: int
  ct_month :: int
  ct_weekday :: int

definition cron_matches :: "string \<Rightarrow> cron_time \<Rightarrow> bool res" where
  "cron_matches expression t =
     res_bind (validate_cron expression) (\<lambda>_.
       case split_words expression of [minute_f, hour_f, dom_f, month_f, dow_f] \<Rightarrow>
         res_bind (cron_field_matches minute_f (ct_minute t) 0 59) (\<lambda>minute_ok.
         if \<not> minute_ok then Inr False else
         res_bind (cron_field_matches hour_f (ct_hour t) 0 23) (\<lambda>hour_ok.
         if \<not> hour_ok then Inr False else
         res_bind (cron_field_matches month_f (ct_month t) 1 12) (\<lambda>month_ok.
         if \<not> month_ok then Inr False else
         (let cron_weekday = (ct_weekday t + 1) mod 7
          in res_bind (cron_field_matches dom_f (ct_day t) 1 31) (\<lambda>dom_ok.
             res_bind (cron_field_matches dow_f cron_weekday 0 7) (\<lambda>dow1.
             res_bind (if dow1 then Inr True else if cron_weekday = 0 then cron_field_matches dow_f 7 0 7 else Inr False) (\<lambda>dow_ok.
             if dom_f \<noteq> ''*'' \<and> dow_f \<noteq> ''*'' then Inr (dom_ok \<or> dow_ok) else Inr (dom_ok \<and> dow_ok))))))))
       | _ \<Rightarrow> Inl ValueError)"

section \<open>What an expression means\<close>

datatype cron_base = Star | Value nat | Range nat nat

type_synonym cron_item = "cron_base \<times> nat option"

fun base_text :: "cron_base \<Rightarrow> string" where
  "base_text Star = ''*''"
| "base_text (Value n) = nat_str n"
| "base_text (Range a b) = nat_str a @ ''-'' @ nat_str b"

definition item_text :: "cron_item \<Rightarrow> string" where
  "item_text i = base_text (fst i) @ (case snd i of None \<Rightarrow> [] | Some s \<Rightarrow> ''/'' @ nat_str s)"

definition field_text :: "cron_item list \<Rightarrow> string" where
  "field_text is = py_join '','' (map item_text is)"

definition cron_text :: "cron_item list list \<Rightarrow> string" where
  "cron_text fs = py_join '' '' (map field_text fs)"

fun base_range :: "int \<Rightarrow> int \<Rightarrow> cron_base \<Rightarrow> int \<times> int" where
  "base_range lo hi Star = (lo, hi)"
| "base_range lo hi (Value n) = (int n, int n)"
| "base_range lo hi (Range a b) = (int a, int b)"

definition item_step :: "cron_item \<Rightarrow> int" where
  "item_step i = (case snd i of None \<Rightarrow> 1 | Some s \<Rightarrow> int s)"

definition item_values :: "int \<Rightarrow> int \<Rightarrow> cron_item \<Rightarrow> int set" where
  "item_values lo hi i = (let (start, stop) = base_range lo hi (fst i)
     in {v. start \<le> v \<and> v \<le> stop \<and> (v - start) mod item_step i = 0})"

definition field_values :: "int \<Rightarrow> int \<Rightarrow> cron_item list \<Rightarrow> int set" where
  "field_values lo hi is = (\<Union>i \<in> set is. item_values lo hi i)"

definition item_ok :: "int \<Rightarrow> int \<Rightarrow> cron_item \<Rightarrow> bool" where
  "item_ok lo hi i \<longleftrightarrow> 1 \<le> item_step i \<and>
     (let (start, stop) = base_range lo hi (fst i) in lo \<le> start \<and> start \<le> stop \<and> stop \<le> hi)"

definition field_ok :: "int \<times> int \<Rightarrow> cron_item list \<Rightarrow> bool" where
  "field_ok b is \<longleftrightarrow> is \<noteq> [] \<and> list_all (item_ok (fst b) (snd b)) is"

text \<open>Printed numbers.\<close>

lemma is_digit_char_of: "n < 10 \<Longrightarrow> is_digit (char_of (48 + n :: nat))"
  by (simp add: is_digit_def take_bit_eq_mod)

lemma of_char_digit: "n < 10 \<Longrightarrow> (of_char (char_of (48 + n :: nat)) :: nat) = 48 + n"
  by (simp add: take_bit_eq_mod)

declare nat_str.simps [simp del]

lemma nat_str_digits: "nat_str n \<noteq> [] \<and> list_all is_digit (nat_str n)"
proof (induction n rule: nat_str.induct)
  case (1 n)
  then show ?case by (subst (1 2) nat_str.simps) (auto simp: is_digit_char_of)
qed

lemma digits_value_append:
  "digits_value acc (s @ t) = res_bind (digits_value acc s) (\<lambda>a. digits_value a t)"
  by (induction acc s rule: digits_value.induct) auto

lemma digits_value_nat_str: "digits_value 0 (nat_str n) = Inr (int n)"
proof (induction n rule: nat_str.induct)
  case (1 n)
  have one: "digits_value acc [char_of (48 + m)] = Inr (acc * 10 + int m)" if "m < 10" for acc and m :: nat
    using that by (simp add: is_digit_char_of of_char_digit)
  show ?case
  proof (cases "n < 10")
    case True
    then show ?thesis using one [of n 0] by (subst nat_str.simps) simp
  next
    case False
    have "int n = int (n div 10) * 10 + int (n mod 10)" by presburger
    then show ?thesis using False 1 one [of "n mod 10" "int (n div 10)"]
      by (subst nat_str.simps) (simp add: digits_value_append)
  qed
qed

lemma digit_not_mark: "is_digit c \<Longrightarrow> c \<noteq> CHR ''*'' \<and> c \<noteq> CHR '','' \<and> c \<noteq> CHR ''-'' \<and> c \<noteq> CHR ''/''"
  by (auto simp: is_digit_def)

lemma digit_not_space: "is_digit c \<Longrightarrow> \<not> is_py_space c"
  by (auto simp: is_digit_def is_py_space_def)

lemma nat_str_marks: "CHR ''*'' \<notin> set (nat_str n)" "CHR '','' \<notin> set (nat_str n)" "CHR ''-'' \<notin> set (nat_str n)"
    "CHR ''/'' \<notin> set (nat_str n)"
  using nat_str_digits [of n] digit_not_mark by (auto simp: list_all_iff)

lemma cron_int_nat_str [simp]: "cron_int (nat_str n) = Inr (int n)"
proof -
  obtain c cs where c: "nat_str n = c # cs" using nat_str_digits [of n] by (cases "nat_str n") auto
  then have "c \<noteq> CHR ''-''" using nat_str_marks(3) [of n] by auto
  then show ?thesis using c digits_value_nat_str [of n] by (simp add: cron_int_def)
qed

lemma py_partition_append: "c \<notin> set p \<Longrightarrow> py_partition c (p @ c # s) = (p, s)"
  by (induction p) (auto simp: py_partition_def)

lemma py_partition_none: "c \<notin> set s \<Longrightarrow> py_partition c s = (s, [])"
  by (induction s) (auto simp: py_partition_def)

text \<open>Printed items and fields.\<close>

lemma base_text_marks: "CHR ''/'' \<notin> set (base_text b)" "CHR '','' \<notin> set (base_text b)"
  by (cases b; simp add: nat_str_marks)+

lemma item_text_chars: "list_all (\<lambda>c. is_digit c \<or> c \<in> {CHR ''*'', CHR ''-'', CHR ''/''}) (item_text i)"
  using nat_str_digits by (cases "fst i"; cases "snd i") (auto simp: item_text_def list_all_iff)

lemma item_text_nonempty: "item_text i \<noteq> []"
  using nat_str_digits by (cases "fst i") (auto simp: item_text_def)

lemma item_text_no_comma: "CHR '','' \<notin> set (item_text i)"
  using item_text_chars [of i] digit_not_mark by (auto simp: list_all_iff)

lemma item_text_partition:
  "py_partition (CHR ''/'') (item_text i) = (base_text (fst i), case snd i of None \<Rightarrow> [] | Some s \<Rightarrow> nat_str s)"
  by (cases "snd i") (simp_all add: item_text_def py_partition_none py_partition_append base_text_marks)

lemma base_text_not_star: "b \<noteq> Star \<Longrightarrow> base_text b \<noteq> ''*''"
proof (cases b)
  case (Value n)
  then show ?thesis using nat_str_marks(1) [of n] by auto
next
  case (Range m n)
  then show ?thesis using nat_str_digits [of m] nat_str_digits [of n] by (cases "nat_str m") auto
qed simp

lemma cron_token_item:
  assumes "item_ok lo hi i"
  shows "cron_token lo hi (item_text i) =
    Inr (fst (base_range lo hi (fst i)), snd (base_range lo hi (fst i)), item_step i)"
proof -
  have step: "(if (case snd i of None \<Rightarrow> [] | Some s \<Rightarrow> nat_str s) \<noteq> []
        then cron_int (case snd i of None \<Rightarrow> [] | Some s \<Rightarrow> nat_str s) else Inr 1) = Inr (item_step i)"
    using nat_str_digits by (cases "snd i") (auto simp: item_step_def)
  have base: "(if base_text b = ''*'' then Inr (lo, hi)
      else if CHR ''-'' \<in> set (base_text b) then
        (let (start_raw, end_raw) = py_partition (CHR ''-'') (base_text b)
         in res_bind (cron_int start_raw) (\<lambda>start. res_bind (cron_int end_raw) (\<lambda>stop. Inr (start, stop))))
      else res_bind (cron_int (base_text b)) (\<lambda>start. Inr (start, start))) = Inr (base_range lo hi b)" for b
  proof (cases b)
    case Star
    then show ?thesis by simp
  next
    case (Value n)
    then show ?thesis using base_text_not_star [of b] nat_str_marks(3) [of n] by auto
  next
    case (Range m n)
    then show ?thesis using base_text_not_star [of b] nat_str_marks(3) [of m]
      by (simp add: py_partition_append)
  qed
  show ?thesis using assms
    by (simp only: cron_token_def item_text_partition Let_def case_prod_conv step base [unfolded Let_def] res_bind_Inr)
      (simp add: item_ok_def case_prod_unfold Let_def)
qed

lemma tokens_match_items:
  "list_all (item_ok lo hi) is \<Longrightarrow> cron_tokens_match lo hi v (map item_text is) = Inr (v \<in> field_values lo hi is)"
  by (induction "is") (auto simp: cron_token_item field_values_def item_values_def case_prod_unfold Let_def)

lemma split_field_text: "is \<noteq> [] \<Longrightarrow> py_split (CHR '','') (field_text is) = map item_text is"
  using item_text_no_comma by (simp add: field_text_def py_split_join)

lemma field_matches_text:
  "field_ok (lo, hi) is \<Longrightarrow> cron_field_matches (field_text is) v lo hi = Inr (v \<in> field_values lo hi is)"
  by (simp add: cron_field_matches_def field_ok_def split_field_text tokens_match_items)

lemma field_text_chars: "set (field_text is) \<subseteq> {CHR '',''} \<union> (\<Union>i \<in> set is. set (item_text i))"
  using set_py_join [of "'',''" "map item_text is"] by (auto simp: field_text_def)

lemma field_text_char:
  assumes "c \<in> set (field_text is)"
  shows "is_digit c \<or> c \<in> {CHR ''*'', CHR '','', CHR ''-'', CHR ''/''}"
proof (cases "c = CHR '',''")
  case False
  then obtain i where "c \<in> set (item_text i)" using assms field_text_chars [of "is"] by auto
  then show ?thesis using item_text_chars [of i] by (auto simp: list_all_iff)
qed simp

lemma field_text_nonempty: "is \<noteq> [] \<Longrightarrow> field_text is \<noteq> []"
proof -
  have "[] \<notin> set (map item_text is)" using item_text_nonempty by (metis ex_map_conv)
  then show "is \<noteq> [] \<Longrightarrow> field_text is \<noteq> []" by (simp add: field_text_def py_join_eq_Nil)
qed

lemma field_text_pattern: "is \<noteq> [] \<Longrightarrow> CRON_FIELD_PATTERN (field_text is)"
  unfolding CRON_FIELD_PATTERN_def list_all_iff using field_text_char field_text_nonempty by blast

lemma field_text_no_space: "c \<in> set (field_text is) \<Longrightarrow> \<not> is_py_space c"
  using field_text_char digit_not_space by (fastforce simp: is_py_space_def)

lemma field_text_star:
  assumes "is \<noteq> []"
  shows "field_text is = ''*'' \<longleftrightarrow> is = [(Star, None)]"
proof
  assume "field_text is = ''*''"
  then have "map item_text is = [''*'']" using split_field_text [OF assms] by simp
  then obtain i where i: "is = [i]" "item_text i = ''*''" by auto
  have "py_partition (CHR ''/'') (item_text i) = (''*'', [])" unfolding i(2) by (simp add: py_partition_def)
  then have "base_text (fst i) = ''*''" "snd i = None"
    using nat_str_digits unfolding item_text_partition by (auto split: option.splits)
  then show "is = [(Star, None)]" using base_text_not_star [of "fst i"] i(1) by (cases i) auto
qed (simp add: field_text_def item_text_def)

lemma split_cron_text: "list_all (\<lambda>f. f \<noteq> []) fs \<Longrightarrow> split_words (cron_text fs) = map field_text fs"
  unfolding cron_text_def
  by (rule split_words_join) (use field_text_no_space field_text_nonempty in \<open>auto simp: list_all_iff\<close>)

definition weekday_in :: "int set \<Rightarrow> int \<Rightarrow> bool" where
  "weekday_in F weekday \<longleftrightarrow> (weekday + 1) mod 7 \<in> F \<or> ((weekday + 1) mod 7 = 0 \<and> 7 \<in> F)"

text \<open>The minute an expression names: every field holds, and the two day fields are alternatives when both
  are restricted.\<close>

definition cron_denotes :: "cron_item list list \<Rightarrow> cron_time \<Rightarrow> bool" where
  "cron_denotes fs t = (case fs of [m, h, day, mon, dow] \<Rightarrow>
     ct_minute t \<in> field_values 0 59 m \<and> ct_hour t \<in> field_values 0 23 h \<and> ct_month t \<in> field_values 1 12 mon \<and>
     (let d = ct_day t \<in> field_values 1 31 day; w = weekday_in (field_values 0 7 dow) (ct_weekday t)
      in if day \<noteq> [(Star, None)] \<and> dow \<noteq> [(Star, None)] then d \<or> w else d \<and> w) | _ \<Rightarrow> False)"

lemma validate_cron_text:
  assumes "list_all2 field_ok CRON_FIELD_BOUNDS fs"
  shows "validate_cron (cron_text fs) = Inr ()" "split_words (cron_text fs) = map field_text fs"
proof -
  have ne: "list_all (\<lambda>f. f \<noteq> []) fs"
    using assms by (induction rule: list_all2_induct) (auto simp: field_ok_def)
  then show w: "split_words (cron_text fs) = map field_text fs" by (rule split_cron_text)
  have "validate_fields (zip (map field_text fs) bs) = Inr ()" if "list_all2 field_ok bs fs" for bs
    using that
  proof (induction rule: list_all2_induct)
    case (Cons b bs f fs)
    then show ?case by (cases b) (simp add: field_matches_text field_text_pattern field_ok_def)
  qed simp
  then show "validate_cron (cron_text fs) = Inr ()"
    using assms list_all2_lengthD [OF assms] by (simp add: validate_cron_def w CRON_FIELD_BOUNDS_def)
qed



text \<open>Note: The check of a stored expression is not complete: an out-of-range value behind a token that already
  matches the probe is not looked at, so the expression is accepted, and evaluating it raises at every
  other minute.\<close>

theorem validated_cron_still_raises:
  "validate_cron ''0,99 * * * *'' = Inr () \<and>
   (ct_minute t = 0 \<or> cron_matches ''0,99 * * * *'' t = Inl InvalidCronError)"
proof -
  have split: "split_words ''0,99 * * * *'' = [''0,99'', ''*'', ''*'', ''*'', ''*'']" by (simp add: is_py_space_def)
  have star: "cron_field_matches ''*'' v lo hi = Inr True" if "lo \<le> v" "v \<le> hi" for v lo hi
    using that by (simp add: cron_field_matches_def cron_token_def py_partition_def)
  have first: "cron_field_matches ''0,99'' v 0 59 = (if v = 0 then Inr True else Inl InvalidCronError)" for v
    by (auto simp: cron_field_matches_def cron_token_def py_partition_def cron_int_def is_digit_def)
  have "validate_cron ''0,99 * * * *'' = Inr ()"
    unfolding validate_cron_def split
    by (simp add: CRON_FIELD_BOUNDS_def CRON_FIELD_PATTERN_def is_digit_def first star)
  then show ?thesis
    unfolding cron_matches_def split by (simp add: first)
qed

section \<open>Report templates\<close>

definition TEMPLATES :: "string list" where
  "TEMPLATES = [''executive_summary'', ''compliance_status'', ''risk_trend'', ''engine_coverage'', ''exception_audit'']"

record report =
  rp_template :: string
  rp_since :: "real option"
  rp_until :: "real option"
  rp_summary :: "(string \<times> pyval) list"
  rp_rows :: "(string \<times> pyval) list list"

text \<open>The spelling of values and times, and \<open>dict.get\<close> with its default.\<close>

record spelling =
  sp_str :: "pyval \<Rightarrow> string"
  sp_iso :: "real \<Rightarrow> string"
  sp_day :: "real \<Rightarrow> string"

definition payload_get :: "audit_entry \<Rightarrow> string \<Rightarrow> pyval" where
  "payload_get e k = (case map_of (ae_payload e) k of None \<Rightarrow> PNone | Some v \<Rightarrow> v)"

definition audit_entries :: "audit_db \<Rightarrow> string \<Rightarrow> real option \<Rightarrow> real option \<Rightarrow> audit_entry list" where
  "audit_entries db action since until =
     filter (\<lambda>e. ae_action e = action \<and>
        (case since of None \<Rightarrow> True | Some t \<Rightarrow> t \<le> ae_chained_at e) \<and>
        (case until of None \<Rightarrow> True | Some t \<Rightarrow> ae_chained_at e \<le> t)) (ad_entries db)"

text \<open>\<open>collections.Counter\<close>: keys in the order of their first occurrence.\<close>

definition counter_add :: "'k \<Rightarrow> ('k \<times> nat) list \<Rightarrow> ('k \<times> nat) list" where
  "counter_add k m = dict_put k (Suc (case map_of m k of None \<Rightarrow> 0 | Some n \<Rightarrow> n)) m"

definition counter :: "'k list \<Rightarrow> ('k \<times> nat) list" where
  "counter xs = fold counter_add xs []"

definition counts_value :: "(string \<times> nat) list \<Rightarrow> pyval" where
  "counts_value m = PDict (map (\<lambda>(k, n). (PStr k, PInt (int n))) m)"

definition verdict_of :: "spelling \<Rightarrow> audit_entry \<Rightarrow> string" where
  "verdict_of sp e = sp_str sp (payload_get e ''verdict'')"

definition build_executive_summary :: "spelling \<Rightarrow> audit_db \<Rightarrow> real option \<Rightarrow> real option \<Rightarrow> report" where
  "build_executive_summary sp db since until =
     (let verdicts = audit_entries db ''verdict_issued'' since until;
          transitions = audit_entries db ''skill_lifecycle_transition'' since until;
          activations = audit_entries db ''breakglass_activated'' since until
      in \<lparr>rp_template = ''executive_summary'', rp_since = since, rp_until = until,
          rp_summary = [(''total_verdicts'', PInt (int (length verdicts))),
            (''verdict_counts'', counts_value (counter (map (verdict_of sp) verdicts))),
            (''lifecycle_transitions'', PInt (int (length transitions))),
            (''breakglass_activations'', PInt (int (length activations)))],
          rp_rows = map (\<lambda>e. [(''scan_id'', payload_get e ''scan_id''), (''verdict'', payload_get e ''verdict''),
            (''policy_version'', payload_get e ''policy_version''), (''occurred_at'', PStr (sp_iso sp (ae_chained_at e)))])
            verdicts\<rparr>)"

text \<open>The rows of several actions, ordered by the spelling of their time.\<close>

definition action_rows ::
  "spelling \<Rightarrow> (audit_entry \<Rightarrow> (string \<times> pyval) list) \<Rightarrow> (string \<times> audit_entry list) list \<Rightarrow> (string \<times> pyval) list list" where
  "action_rows sp head groups =
     map snd (sort_key fst (concat (map (\<lambda>(name, es). map (\<lambda>e. (sp_iso sp (ae_chained_at e),
       head e @ [(''action'', PStr name), (''operator'', PStr (ae_operator e)),
                 (''occurred_at'', PStr (sp_iso sp (ae_chained_at e)))])) es) groups)))"

definition build_compliance_status :: "spelling \<Rightarrow> audit_db \<Rightarrow> real option \<Rightarrow> real option \<Rightarrow> report" where
  "build_compliance_status sp db since until =
     (let verdicts = audit_entries db ''verdict_issued'' since until;
          proposed = audit_entries db ''policy_proposed'' since until;
          approved = audit_entries db ''policy_approved'' since until;
          rejected = audit_entries db ''policy_rejected'' since until;
          engine_changes = audit_entries db ''engine_enabled_changed'' since until
      in \<lparr>rp_template = ''compliance_status'', rp_since = since, rp_until = until,
          rp_summary = [(''verdict_counts'', counts_value (counter (map (verdict_of sp) verdicts))),
            (''policy_proposals'', PDict
              [(PStr ''pending'', PInt (int (length proposed) - int (length approved) - int (length rejected))),
               (PStr ''approved'', PInt (int (length approved))), (PStr ''rejected'', PInt (int (length rejected)))]),
            (''engine_changes'', PInt (int (length engine_changes)))],
          rp_rows = action_rows sp (\<lambda>e. [(''proposal_id'', payload_get e ''proposal_id'')])
            [(''proposed'', proposed), (''approved'', approved), (''rejected'', rejected)]\<rparr>)"

text \<open>\<open>defaultdict(Counter)\<close>: one round of the loop over the verdicts.\<close>

definition day_add :: "spelling \<Rightarrow> audit_entry \<Rightarrow> (string \<times> (string \<times> nat) list) list \<Rightarrow> (string \<times> (string \<times> nat) list) list" where
  "day_add sp e by_day =
     (let day = sp_day sp (ae_chained_at e)
      in dict_put day (counter_add (verdict_of sp e) (case map_of by_day day of None \<Rightarrow> [] | Some c \<Rightarrow> c)) by_day)"

definition trend_rows :: "(string \<times> (string \<times> nat) list) list \<Rightarrow> (string \<times> string \<times> nat) list" where
  "trend_rows by_day =
     concat (map (\<lambda>(day, c). map (\<lambda>(verdict, n). (day, verdict, n)) (sort_key fst c)) (sort_key fst by_day))"

definition build_risk_trend :: "spelling \<Rightarrow> audit_db \<Rightarrow> real option \<Rightarrow> real option \<Rightarrow> report" where
  "build_risk_trend sp db since until =
     (let verdicts = audit_entries db ''verdict_issued'' since until;
          by_day = fold (day_add sp) verdicts []
      in \<lparr>rp_template = ''risk_trend'', rp_since = since, rp_until = until,
          rp_summary = [(''total_verdicts'', PInt (int (length verdicts))), (''days_covered'', PInt (int (length by_day)))],
          rp_rows = map (\<lambda>(day, verdict, n). [(''date'', PStr day), (''verdict'', PStr verdict), (''count'', PInt (int n))])
            (trend_rows by_day)\<rparr>)"

definition build_exception_audit :: "spelling \<Rightarrow> audit_db \<Rightarrow> real option \<Rightarrow> real option \<Rightarrow> report" where
  "build_exception_audit sp db since until =
     (let granted = audit_entries db ''allowlist_granted'' since until;
          revoked = audit_entries db ''allowlist_revoked'' since until
      in \<lparr>rp_template = ''exception_audit'', rp_since = since, rp_until = until,
          rp_summary = [(''total_granted'', PInt (int (length granted))), (''total_revoked'', PInt (int (length revoked)))],
          rp_rows = action_rows sp (\<lambda>e. [(''rule_id'', payload_get e ''rule_id''), (''scope_value'', payload_get e ''scope_value'')])
            [(''granted'', granted), (''revoked'', revoked)]\<rparr>)"

definition opt_bool :: "bool option \<Rightarrow> pyval" where
  "opt_bool b = (case b of None \<Rightarrow> PNone | Some x \<Rightarrow> PBool x)"

record coverage_row =
  cv_name :: string
  cv_lock_key :: string
  cv_role :: pyval
  cv_adapter_status :: pyval
  cv_required :: "bool option"
  cv_disabled :: "bool option"

definition coverage_row_of :: "string set \<Rightarrow> string set \<Rightarrow> string \<times> (string \<times> pyval) list \<Rightarrow> coverage_row" where
  "coverage_row_of required disabled = (\<lambda>(lock_key, spec).
     let (name, resolved) = (case engine_name_for_lock_key lock_key of Inl _ \<Rightarrow> (lock_key, False) | Inr n \<Rightarrow> (n, True))
     in \<lparr>cv_name = name, cv_lock_key = lock_key,
         cv_role = (case map_of spec ''role'' of None \<Rightarrow> PNone | Some v \<Rightarrow> v),
         cv_adapter_status = (case map_of spec ''adapter_status'' of None \<Rightarrow> PStr ''not_built'' | Some v \<Rightarrow> v),
         cv_required = (if resolved then Some (name \<in> required) else None),
         cv_disabled = (if resolved then Some (name \<in> disabled) else None)\<rparr>)"

definition build_engine_coverage_rows ::
  "(string \<times> (string \<times> pyval) list) list \<Rightarrow> string set \<Rightarrow> string set \<Rightarrow> coverage_row list" where
  "build_engine_coverage_rows engines required disabled = map (coverage_row_of required disabled) (sort_key fst engines)"

definition coverage_dict :: "coverage_row \<Rightarrow> (string \<times> pyval) list" where
  "coverage_dict r = [(''name'', PStr (cv_name r)), (''lock_key'', PStr (cv_lock_key r)), (''role'', cv_role r),
     (''adapter_status'', cv_adapter_status r), (''required'', opt_bool (cv_required r)), (''disabled'', opt_bool (cv_disabled r))]"

text \<open>\<open>engines_lock\<close> is the mapping of the lock file, absent when the file is missing or not a mapping.\<close>

definition build_engine_coverage ::
  "(string \<times> (string \<times> pyval) list) list option \<Rightarrow> string set \<Rightarrow> string set \<Rightarrow> report" where
  "build_engine_coverage engines_lock required disabled =
     (let engines = (case engines_lock of None \<Rightarrow> [] | Some es \<Rightarrow> es);
          rows = build_engine_coverage_rows engines required disabled
      in \<lparr>rp_template = ''engine_coverage'', rp_since = None, rp_until = None,
          rp_summary = [(''total_engines'', PInt (int (length engines))),
            (''required_floor'', PList (map PStr (sorted_list_of_set required))),
            (''currently_disabled'', PList (map PStr (sorted_list_of_set disabled))),
            (''unmapped_lock_keys'', PList (map PStr (sort (map cv_lock_key (filter (\<lambda>r. cv_required r = None) rows)))))],
          rp_rows = map coverage_dict rows\<rparr>)"

record report_env =
  re_spelling :: spelling
  re_audit :: audit_db
  re_engines_lock :: "(string \<times> (string \<times> pyval) list) list option"
  re_floor :: "string set"
  re_disabled :: "string set"

definition generate_report :: "report_env \<Rightarrow> string \<Rightarrow> real option \<Rightarrow> real option \<Rightarrow> report res" where
  "generate_report env template since until =
     (if template = ''executive_summary'' then Inr (build_executive_summary (re_spelling env) (re_audit env) since until)
      else if template = ''compliance_status'' then Inr (build_compliance_status (re_spelling env) (re_audit env) since until)
      else if template = ''risk_trend'' then Inr (build_risk_trend (re_spelling env) (re_audit env) since until)
      else if template = ''engine_coverage'' then Inr (build_engine_coverage (re_engines_lock env) (re_floor env) (re_disabled env))
      else if template = ''exception_audit'' then Inr (build_exception_audit (re_spelling env) (re_audit env) since until)
      else Inl UnknownReportTemplateError)"

section \<open>Schedules\<close>

record schedule_row =
  rs_template :: string
  rs_cron :: string
  rs_targets :: "string list"
  rs_created_by :: string
  rs_created_at :: real

text \<open>The table is autoincrement: the id of a row is its position.\<close>

definition schedule_report ::
  "real \<Rightarrow> string \<Rightarrow> string \<Rightarrow> string list \<Rightarrow> string \<Rightarrow> schedule_row list \<Rightarrow> schedule_row list res" where
  "schedule_report now template cron targets created_by db =
     res_bind (raise_if (template \<notin> set TEMPLATES) UnknownReportTemplateError) (\<lambda>_.
     res_bind (validate_cron cron) (\<lambda>_.
     res_bind (raise_if (targets = []) ReportingError) (\<lambda>_.
     Inr (db @ [\<lparr>rs_template = template, rs_cron = cron, rs_targets = targets, rs_created_by = created_by,
                  rs_created_at = now\<rparr>]))))"

definition SCHEDULE_FIRED_PREFIX :: string where
  "SCHEDULE_FIRED_PREFIX = ''skillscan:reporting:schedule_fired:''"

definition dedup_key :: "nat \<Rightarrow> string \<Rightarrow> string" where
  "dedup_key schedule_id minute_stamp = SCHEDULE_FIRED_PREFIX @ nat_str schedule_id @ '':'' @ minute_stamp"

text \<open>The outside world of a tick: the shared store, the datagrams sent to the log sink, and the reports
  written to the log of the process.\<close>

record delivery_state =
  ds_redis :: redis
  ds_sent :: "string list"
  ds_logged :: "(nat \<times> report) list"

record tick_time =
  tt_now :: real
  tt_at :: cron_time
  tt_stamp :: string

definition report_event :: "nat \<Rightarrow> schedule_row \<Rightarrow> report \<Rightarrow> string \<times> (string \<times> pyval) list" where
  "report_event i s r = (''scheduled_report'',
     [(''schedule_id'', PInt (int i)), (''template'', PStr (rp_template r)),
      (''targets'', PList (map PStr (rs_targets s))),
      (''summary'', PDict (map (\<lambda>(k, v). (PStr k, v)) (rp_summary r)))])"

text \<open>One round of the loop; the flag tells whether the schedule fired.\<close>

definition fire_schedule ::
  "(pyval \<Rightarrow> string) \<Rightarrow> (string \<Rightarrow> string) \<Rightarrow> siem_adapter option \<Rightarrow> (string \<Rightarrow> report res) \<Rightarrow> tick_time \<Rightarrow>
   nat \<Rightarrow> schedule_row \<Rightarrow> delivery_state \<Rightarrow> (delivery_state \<times> bool) res" where
  "fire_schedule str upper notifier generate t i s st =
     (case cron_matches (rs_cron s) (tt_at t) of
        Inl e \<Rightarrow> if e = InvalidCronError then Inr (st, False) else Inl e
      | Inr False \<Rightarrow> Inr (st, False)
      | Inr True \<Rightarrow>
          (case redis_set_nx (tt_now t) (dedup_key i (tt_stamp t)) (PStr ''1'') 120 (ds_redis st) of (redis', fresh) \<Rightarrow>
             let st1 = st\<lparr>ds_redis := redis'\<rparr>
             in if \<not> fresh then Inr (st1, False)
                else (case generate (rs_template s) of
                    Inl _ \<Rightarrow> Inr (st1, False)
                  | Inr report \<Rightarrow>
                      (case notifier of
                         Some sa \<Rightarrow> res_bind (emit str upper sa (report_event i s report)) (\<lambda>m.
                           Inr (st1\<lparr>ds_sent := ds_sent st1 @ (case m of None \<Rightarrow> [] | Some d \<Rightarrow> [d])\<rparr>, True))
                       | None \<Rightarrow> Inr (st1\<lparr>ds_logged := ds_logged st1 @ [(i, report)]\<rparr>, True)))))"

fun fire_all ::
  "(pyval \<Rightarrow> string) \<Rightarrow> (string \<Rightarrow> string) \<Rightarrow> siem_adapter option \<Rightarrow> (string \<Rightarrow> report res) \<Rightarrow> tick_time \<Rightarrow>
   (nat \<times> schedule_row) list \<Rightarrow> delivery_state \<Rightarrow> (delivery_state \<times> nat) res" where
  "fire_all str upper notifier generate t [] st = Inr (st, 0)"
| "fire_all str upper notifier generate t ((i, s) # rows) st =
     res_bind (fire_schedule str upper notifier generate t i s st) (\<lambda>(st1, fired).
     res_bind (fire_all str upper notifier generate t rows st1) (\<lambda>(st2, n).
     Inr (st2, if fired then Suc n else n)))"

definition run_due_report_schedules ::
  "(pyval \<Rightarrow> string) \<Rightarrow> (string \<Rightarrow> string) \<Rightarrow> siem_adapter option \<Rightarrow> (string \<Rightarrow> report res) \<Rightarrow> tick_time \<Rightarrow>
   schedule_row list option \<Rightarrow> delivery_state \<Rightarrow> (delivery_state \<times> nat) res" where
  "run_due_report_schedules str upper notifier generate t schedules st = (case schedules of
     None \<Rightarrow> Inr (st, 0)
   | Some rows \<Rightarrow> fire_all str upper notifier generate t (List.enumerate 0 rows) st)"

section \<open>Firing once\<close>

lemma nat_str_inject: "nat_str m = nat_str n \<Longrightarrow> m = n"
  by (metis digits_value_nat_str sum.inject(2) of_nat_eq_iff)

lemma dedup_key_inject:
  assumes "dedup_key i m = dedup_key j m'"
  shows "i = j"
proof -
  have colon: "CHR '':'' \<notin> set (nat_str n)" for n
    using nat_str_digits [of n] by (auto simp: list_all_iff is_digit_def)
  have "nat_str i @ CHR '':'' # m = nat_str j @ CHR '':'' # m'"
    using assms by (simp add: dedup_key_def)
  then have "nat_str i = nat_str j"
    by (metis colon py_partition_append Pair_inject)
  then show ?thesis by (rule nat_str_inject)
qed

lemma validate_cron_five: "validate_cron e = Inr () \<Longrightarrow> length (split_words e) = 5"
  by (simp add: validate_cron_def Let_def res_bind_eq_Inr)

lemma cron_int_error: "cron_int s = Inl e \<Longrightarrow> e = InvalidCronError"
proof -
  have "digits_value acc cs = Inl e \<Longrightarrow> e = InvalidCronError" for acc cs
    by (induction acc cs rule: digits_value.induct) (auto split: if_splits)
  then show "cron_int s = Inl e \<Longrightarrow> e = InvalidCronError"
    by (auto simp: cron_int_def res_bind_eq_Inl split: list.splits if_splits)
qed

lemma cron_token_error: "cron_token lo hi s = Inl e \<Longrightarrow> e = InvalidCronError"
  by (auto simp: cron_token_def Let_def res_bind_eq_Inl case_prod_unfold dest: cron_int_error split: if_splits)

lemma cron_field_error: "cron_field_matches f v lo hi = Inl e \<Longrightarrow> e = InvalidCronError"
proof -
  have "cron_tokens_match lo hi v ts = Inl e \<Longrightarrow> e = InvalidCronError" for ts
    by (induction ts) (auto simp: res_bind_eq_Inl case_prod_unfold dest: cron_token_error split: if_splits)
  then show "cron_field_matches f v lo hi = Inl e \<Longrightarrow> e = InvalidCronError" by (simp add: cron_field_matches_def)
qed

lemma validate_cron_error: "validate_cron x = Inl e \<Longrightarrow> e = InvalidCronError"
proof -
  have "validate_fields fs = Inl e \<Longrightarrow> e = InvalidCronError" for fs
    by (induction fs rule: validate_fields.induct) (auto simp: res_bind_eq_Inl dest: cron_field_error)
  then show "validate_cron x = Inl e \<Longrightarrow> e = InvalidCronError"
    by (auto simp: validate_cron_def Let_def res_bind_eq_Inl)
qed

lemma cron_matches_error:
  assumes "cron_matches x t = Inl e"
  shows "e = InvalidCronError"
proof (cases "validate_cron x")
  case (Inl e')
  then show ?thesis using assms validate_cron_error by (simp add: cron_matches_def)
next
  case (Inr u)
  then have "length (split_words x) = 5" using validate_cron_five by simp
  then obtain a b c d f where five: "split_words x = [a, b, c, d, f]"
    by (auto simp: eval_nat_numeral length_Suc_conv)
  show ?thesis using assms Inr
    by (auto simp: cron_matches_def five Let_def res_bind_eq_Inl split: if_splits dest: cron_field_error)
qed

lemma emit_report_event [simp]: "emit str upper sa (report_event i s r) = Inr None"
  by (simp add: emit_def report_event_def)

definition due :: "tick_time \<Rightarrow> schedule_row \<Rightarrow> bool" where
  "due t s \<longleftrightarrow> cron_matches (rs_cron s) (tt_at t) = Inr True"

definition logged_of :: "nat \<Rightarrow> delivery_state \<Rightarrow> nat" where
  "logged_of i st = length (filter (\<lambda>(j, r). j = i) (ds_logged st))"

definition generated :: "(string \<Rightarrow> report res) \<Rightarrow> schedule_row \<Rightarrow> bool" where
  "generated gen s \<longleftrightarrow> (case gen (rs_template s) of Inl _ \<Rightarrow> False | Inr _ \<Rightarrow> True)"

text \<open>What one round does to a schedule: with the key free it takes it and delivers a generated report,
  with the key taken it does nothing.\<close>

definition takes :: "tick_time \<Rightarrow> nat \<Rightarrow> schedule_row \<Rightarrow> delivery_state \<Rightarrow> bool" where
  "takes t i s st \<longleftrightarrow> due t s \<and> redis_entry (tt_now t) (dedup_key i (tt_stamp t)) (ds_redis st) = None"

definition key_after :: "tick_time \<Rightarrow> bool \<Rightarrow> nat \<Rightarrow> delivery_state \<Rightarrow> real \<Rightarrow> entry option" where
  "key_after t taken i st u =
     (if taken then if u < tt_now t + 120 then Some \<lparr>en_value = PStr ''1'', en_expires = Some (tt_now t + 120)\<rparr> else None
      else redis_entry u (dedup_key i (tt_stamp t)) (ds_redis st))"

definition round_effect ::
  "bool \<Rightarrow> (string \<Rightarrow> report res) \<Rightarrow> tick_time \<Rightarrow> nat \<Rightarrow> schedule_row \<Rightarrow> delivery_state \<Rightarrow> delivery_state \<Rightarrow> bool" where
  "round_effect lg gen t i s st st' \<longleftrightarrow>
     (\<forall>u. redis_entry u (dedup_key i (tt_stamp t)) (ds_redis st') = key_after t (takes t i s st) i st u) \<and>
     logged_of i st' = logged_of i st + (if takes t i s st \<and> generated gen s \<and> lg then 1 else 0)"

definition untouched :: "nat \<Rightarrow> delivery_state \<Rightarrow> delivery_state \<Rightarrow> bool" where
  "untouched i st st' \<longleftrightarrow> logged_of i st' = logged_of i st \<and>
     (\<forall>u m. redis_entry u (dedup_key i m) (ds_redis st') = redis_entry u (dedup_key i m) (ds_redis st))"

lemma untouched_takes: "untouched i st st' \<Longrightarrow> takes t i s st' = takes t i s st"
  by (simp add: untouched_def takes_def)

lemma untouched_trans: "untouched i st st1 \<Longrightarrow> untouched i st1 st2 \<Longrightarrow> untouched i st st2"
  by (simp add: untouched_def)

lemma round_effect_after_untouched: "untouched i st st1 \<Longrightarrow> round_effect lg gen t i s st1 st2 \<Longrightarrow> round_effect lg gen t i s st st2"
  by (simp add: round_effect_def untouched_takes key_after_def) (simp add: untouched_def)

lemma round_effect_then_untouched: "round_effect lg gen t i s st st1 \<Longrightarrow> untouched i st1 st2 \<Longrightarrow> round_effect lg gen t i s st st2"
  by (simp add: round_effect_def untouched_def)

lemma fire_schedule_effect:
  "\<exists>st' fired. fire_schedule str upper notifier gen t i s st = Inr (st', fired) \<and> ds_sent st' = ds_sent st \<and>
    round_effect (notifier = None) gen t i s st st' \<and> (\<forall>j. j \<noteq> i \<longrightarrow> untouched j st st')"
proof (cases "due t s")
  case False
  then have "fire_schedule str upper notifier gen t i s st = Inr (st, False)"
    using cron_matches_error by (auto simp: fire_schedule_def due_def split: sum.splits bool.splits)
  then show ?thesis using False by (auto simp: round_effect_def untouched_def takes_def key_after_def)
next
  case True
  then have c: "cron_matches (rs_cron s) (tt_at t) = Inr True" by (simp add: due_def)
  have other: "dedup_key j m \<noteq> dedup_key i (tt_stamp t)" if "j \<noteq> i" for j m using that dedup_key_inject by blast
  show ?thesis
  proof (cases "redis_entry (tt_now t) (dedup_key i (tt_stamp t)) (ds_redis st) = None")
    case free: True
    then show ?thesis using c True
      by (cases "gen (rs_template s)"; cases notifier)
        (simp_all add: fire_schedule_def redis_set_nx_def generated_def logged_of_def round_effect_def untouched_def
          takes_def key_after_def other, blast+)
  next
    case False
    then obtain y where "redis_entry (tt_now t) (dedup_key i (tt_stamp t)) (ds_redis st) = Some y" by blast
    then show ?thesis using c
      by (simp add: fire_schedule_def redis_set_nx_def round_effect_def untouched_def takes_def key_after_def) blast
  qed
qed

text \<open>A tick over distinct schedules: the key and the log of each are touched by its own round only.\<close>

lemma fire_all_effect:
  assumes "distinct (map fst rows)"
  shows "\<exists>st' n. fire_all str upper notifier gen t rows st = Inr (st', n) \<and> ds_sent st' = ds_sent st \<and>
    (\<forall>(i, s) \<in> set rows. round_effect (notifier = None) gen t i s st st') \<and>
    (\<forall>i. i \<notin> fst ` set rows \<longrightarrow> untouched i st st')"
  using assms
proof (induction rows arbitrary: st)
  case (Cons row rows)
  obtain i s where row: "row = (i, s)" by (cases row)
  obtain st1 fired where one: "fire_schedule str upper notifier gen t i s st = Inr (st1, fired)" "ds_sent st1 = ds_sent st"
      "round_effect (notifier = None) gen t i s st st1" "\<And>j. j \<noteq> i \<Longrightarrow> untouched j st st1"
    using fire_schedule_effect [of str upper notifier gen t i s st] by blast
  have dist: "distinct (map fst rows)" "i \<notin> fst ` set rows" using Cons.prems by (simp_all add: row)
  obtain st2 n where rest: "fire_all str upper notifier gen t rows st1 = Inr (st2, n)" "ds_sent st2 = ds_sent st1"
      "\<And>j s'. (j, s') \<in> set rows \<Longrightarrow> round_effect (notifier = None) gen t j s' st1 st2"
      "\<And>j. j \<notin> fst ` set rows \<Longrightarrow> untouched j st1 st2"
    using Cons.IH [OF dist(1), of st1] by blast
  have "round_effect (notifier = None) gen t j s' st st2" if "(j, s') \<in> set rows" for j s'
  proof -
    have "j \<noteq> i" using that dist(2) by force
    then show ?thesis using round_effect_after_untouched one(4) rest(3) [OF that] by blast
  qed
  moreover have "round_effect (notifier = None) gen t i s st st2"
    using round_effect_then_untouched [OF one(3)] rest(4) dist(2) by blast
  moreover have "untouched j st st2" if "j \<notin> fst ` set (row # rows)" for j
    using that untouched_trans one(4) rest(4) by (simp add: row) blast
  moreover have "fire_all str upper notifier gen t (row # rows) st = Inr (st2, if fired then Suc n else n)" "ds_sent st2 = ds_sent st"
    by (simp_all add: row one rest)
  ultimately show ?case by (auto simp: row)
qed (simp add: untouched_def)

text \<open>The ticks of all replicas over one set of schedules, in the order in which they run.\<close>

fun run_ticks ::
  "(pyval \<Rightarrow> string) \<Rightarrow> (string \<Rightarrow> string) \<Rightarrow> siem_adapter option \<Rightarrow> schedule_row list \<Rightarrow>
   (tick_time \<times> (string \<Rightarrow> report res)) list \<Rightarrow> delivery_state \<Rightarrow> delivery_state res" where
  "run_ticks str upper notifier rows [] st = Inr st"
| "run_ticks str upper notifier rows ((t, gen) # ts) st =
     res_bind (run_due_report_schedules str upper notifier gen t (Some rows) st) (\<lambda>(st1, n).
       run_ticks str upper notifier rows ts st1)"

lemma run_due_effect:
  "\<exists>st' n. run_due_report_schedules str upper notifier gen t (Some rows) st = Inr (st', n) \<and> ds_sent st' = ds_sent st \<and>
    (\<forall>i < length rows. round_effect (notifier = None) gen t i (rows ! i) st st') \<and>
    (\<forall>i. \<not> i < length rows \<longrightarrow> untouched i st st')"
proof -
  have "distinct (map fst (List.enumerate 0 rows))" by simp
  from fire_all_effect [OF this, of str upper notifier gen t st]
  show ?thesis
    by (simp add: run_due_report_schedules_def case_prod_unfold Ball_def in_set_enumerate_eq image_iff Bex_def)
qed

text \<open>Once the key of the minute is taken, later ticks of the minute leave the schedule alone.\<close>

lemma run_ticks_taken:
  assumes "i < length rows" "\<And>t gen. (t, gen) \<in> set ts \<Longrightarrow> tt_stamp t = m \<and> redis_entry (tt_now t) (dedup_key i m) (ds_redis st) \<noteq> None"
  shows "\<exists>st'. run_ticks str upper notifier rows ts st = Inr st' \<and> ds_sent st' = ds_sent st \<and> logged_of i st' = logged_of i st"
  using assms(2)
proof (induction ts arbitrary: st)
  case (Cons tg ts)
  obtain t gen where tg: "tg = (t, gen)" by (cases tg)
  obtain st1 n where one: "run_due_report_schedules str upper notifier gen t (Some rows) st = Inr (st1, n)" "ds_sent st1 = ds_sent st"
      "round_effect (notifier = None) gen t i (rows ! i) st st1"
    using run_due_effect [of str upper notifier gen t rows st] assms(1) by blast
  have stamp: "tt_stamp t = m" and "\<not> takes t i (rows ! i) st" using Cons.prems [of t gen] by (simp_all add: tg takes_def)
  then have same: "redis_entry u (dedup_key i m) (ds_redis st1) = redis_entry u (dedup_key i m) (ds_redis st)"
      "logged_of i st1 = logged_of i st" for u
    using one(3) by (simp_all add: round_effect_def key_after_def)
  have "tt_stamp t' = m \<and> redis_entry (tt_now t') (dedup_key i m) (ds_redis st1) \<noteq> None" if "(t', gen') \<in> set ts" for t' gen'
    using Cons.prems [of t' gen'] that by (simp add: same)
  from Cons.IH [OF this] show ?case using one same by (auto simp: tg)
qed simp

text \<open>Note: A schedule fires once per minute across replicas. Let any number of ticks, of one or several
  replicas and with whatever state of the reports, run within 120 seconds in one minute, and let the key of
  the minute be free before. No tick raises; the first one delivers the report of the schedule when its
  expression matches the minute and the report can be generated, and none of the others delivers it again,
  even when the first failed to generate it.\<close>

theorem schedule_fires_once_per_minute:
  assumes "i < length rows"
    and "\<And>t gen. (t, gen) \<in> set ts \<Longrightarrow> tt_stamp t = m \<and> tt_at t = minute \<and> T \<le> tt_now t \<and> tt_now t < T + 120"
    and "redis_entry T (dedup_key i m) (ds_redis st) = None"
  shows "\<exists>st'. run_ticks str upper None rows ts st = Inr st' \<and>
    logged_of i st' = logged_of i st +
      (case ts of [] \<Rightarrow> 0 | (t, gen) # _ \<Rightarrow>
         if cron_matches (rs_cron (rows ! i)) minute = Inr True \<and> generated gen (rows ! i) then 1 else 0)"
  using assms(2,3)
proof (induction ts arbitrary: st)
  case (Cons tg ts)
  obtain t gen where tg: "tg = (t, gen)" by (cases tg)
  obtain st1 n where one: "run_due_report_schedules str upper None gen t (Some rows) st = Inr (st1, n)"
      "round_effect True gen t i (rows ! i) st st1"
    using run_due_effect [of str upper None gen t rows st] assms(1) by auto
  have t: "tt_stamp t = m" "tt_at t = minute" "T \<le> tt_now t" using Cons.prems(1) [of t gen] by (simp_all add: tg)
  have "redis_entry (tt_now t) (dedup_key i m) (ds_redis st) = None"
    using Cons.prems(2) redis_entry_mono [OF _ t(3)] by (metis not_Some_eq)
  then have takes: "takes t i (rows ! i) st \<longleftrightarrow> cron_matches (rs_cron (rows ! i)) minute = Inr True"
    by (simp add: takes_def due_def t)
  show ?case
  proof (cases "cron_matches (rs_cron (rows ! i)) minute = Inr True")
    case True
    have "tt_stamp t' = m \<and> redis_entry (tt_now t') (dedup_key i m) (ds_redis st1) \<noteq> None" if "(t', gen') \<in> set ts" for t' gen'
      using Cons.prems(1) [of t' gen'] that one(2) True t by (simp add: tg round_effect_def key_after_def takes)
    then obtain st2 where "run_ticks str upper None rows ts st1 = Inr st2" "logged_of i st2 = logged_of i st1"
      using run_ticks_taken [OF assms(1), of ts m st1 str upper None] by blast
    then show ?thesis using one True by (simp add: tg round_effect_def takes)
  next
    case False
    then have "redis_entry T (dedup_key i m) (ds_redis st1) = None" "logged_of i st1 = logged_of i st"
      using one(2) Cons.prems(2) by (simp_all add: round_effect_def takes key_after_def t(1))
    moreover have "\<exists>st'. run_ticks str upper None rows ts st1 = Inr st' \<and>
      logged_of i st' = logged_of i st1 +
        (case ts of [] \<Rightarrow> 0 | (t, gen) # _ \<Rightarrow>
           if cron_matches (rs_cron (rows ! i)) minute = Inr True \<and> generated gen (rows ! i) then 1 else 0)"
    proof (rule Cons.IH)
      show "tt_stamp t' = m \<and> tt_at t' = minute \<and> T \<le> tt_now t' \<and> tt_now t' < T + 120" if "(t', gen') \<in> set ts" for t' gen'
        using Cons.prems(1) [of t' gen'] that by simp
    qed (rule calculation(1))
    moreover have "(case ts of [] \<Rightarrow> 0 | (t, gen) # _ \<Rightarrow>
        if cron_matches (rs_cron (rows ! i)) minute = Inr True \<and> generated gen (rows ! i) then 1 else 0) = (0 :: nat)"
      using False by (simp split: list.splits)
    ultimately show ?thesis using False one(1) by (simp add: tg)
  qed
qed simp

text \<open>Note: With a log sink configured no run of ticks ever delivers a report: the adapter drops every event but
  verdicts, and the branch that writes the report to the log is the one without a sink.\<close>

theorem sink_swallows_reports:
  "\<exists>st'. run_ticks str upper (Some sa) rows ts st = Inr st' \<and> ds_sent st' = ds_sent st \<and>
     logged_of i st' = logged_of i st"
proof (induction ts arbitrary: st)
  case (Cons tg ts)
  obtain t gen where tg: "tg = (t, gen)" by (cases tg)
  obtain st1 n where one: "run_due_report_schedules str upper (Some sa) gen t (Some rows) st = Inr (st1, n)"
      "ds_sent st1 = ds_sent st" "\<forall>j < length rows. round_effect False gen t j (rows ! j) st st1"
      "\<forall>j. \<not> j < length rows \<longrightarrow> untouched j st st1"
    using run_due_effect [of str upper "Some sa" gen t rows st] by auto
  then have "logged_of i st1 = logged_of i st"
    by (cases "i < length rows") (auto simp: round_effect_def untouched_def)
  obtain st2 where "run_ticks str upper (Some sa) rows ts st1 = Inr st2" "ds_sent st2 = ds_sent st1"
      "logged_of i st2 = logged_of i st1" using Cons.IH by blast
  then show ?case using one(1,2) \<open>logged_of i st1 = logged_of i st\<close> by (simp add: tg)
qed simp

definition daily_schedule :: schedule_row where
  "daily_schedule = \<lparr>rs_template = ''risk_trend'', rs_cron = ''0 8 * * *'', rs_targets = [''siem''], rs_created_by = ''admin'',
     rs_created_at = 0\<rparr>"

definition eight_oclock :: cron_time where
  "eight_oclock = \<lparr>ct_minute = 0, ct_hour = 8, ct_day = 4, ct_month = 7, ct_weekday = 0\<rparr>"

definition no_spelling :: spelling where "no_spelling = \<lparr>sp_str = (\<lambda>_. []), sp_iso = (\<lambda>_. []), sp_day = (\<lambda>_. [])\<rparr>"

definition empty_report :: "string \<Rightarrow> report res" where
  "empty_report template = generate_report \<lparr>re_spelling = no_spelling, re_audit = \<lparr>ad_intents = [], ad_entries = []\<rparr>,
     re_engines_lock = None, re_floor = {}, re_disabled = {}\<rparr> template None None"

theorem schedule_fires_once_per_minute_witness:
  "\<exists>st'. run_ticks (\<lambda>_. []) id None [daily_schedule]
     [(\<lparr>tt_now = 1, tt_at = eight_oclock, tt_stamp = ''0800''\<rparr>, empty_report),
      (\<lparr>tt_now = 2, tt_at = eight_oclock, tt_stamp = ''0800''\<rparr>, empty_report)]
     \<lparr>ds_redis = \<lambda>_. None, ds_sent = [], ds_logged = []\<rparr> = Inr st' \<and> logged_of 0 st' = 1"
proof -
  let ?ts = "[(\<lparr>tt_now = 1, tt_at = eight_oclock, tt_stamp = ''0800''\<rparr>, empty_report),
    (\<lparr>tt_now = 2, tt_at = eight_oclock, tt_stamp = ''0800''\<rparr>, empty_report)]"
  let ?st = "\<lparr>ds_redis = \<lambda>_. None, ds_sent = [], ds_logged = []\<rparr>"
  have "cron_matches (rs_cron daily_schedule) eight_oclock = Inr True" by code_simp
  moreover have "generated empty_report daily_schedule"
    by (simp add: generated_def empty_report_def generate_report_def daily_schedule_def)
  moreover have "\<exists>st'. run_ticks (\<lambda>_. []) id None [daily_schedule] ?ts ?st = Inr st' \<and>
    logged_of 0 st' = logged_of 0 ?st + (case ?ts of [] \<Rightarrow> 0 | (t, gen) # _ \<Rightarrow>
         if cron_matches (rs_cron ([daily_schedule] ! 0)) eight_oclock = Inr True \<and> generated gen ([daily_schedule] ! 0) then 1 else 0)"
  proof (rule schedule_fires_once_per_minute [where m = "''0800''" and T = 0])
    show "tt_stamp t = ''0800'' \<and> tt_at t = eight_oclock \<and> 0 \<le> tt_now t \<and> tt_now t < 0 + 120" if "(t, gen) \<in> set ?ts" for t gen
      using that by auto
  qed (simp_all add: redis_entry_def)
  ultimately show ?thesis by (simp add: logged_of_def)
qed

section \<open>Counting\<close>

lemma map_of_counter_add:
  "map_of (counter_add k m) j = (if j = k then Some (Suc (case map_of m k of None \<Rightarrow> 0 | Some n \<Rightarrow> n)) else map_of m j)"
  by (simp add: counter_add_def update_conv')

lemma distinct_counter_add: "distinct (map fst m) \<Longrightarrow> distinct (map fst (counter_add k m))"
  by (simp add: counter_add_def distinct_update)

definition tally :: "(string \<times> (string \<times> nat) list) list \<Rightarrow> string \<Rightarrow> string \<Rightarrow> nat option" where
  "tally by_day d v = Option.bind (map_of by_day d) (\<lambda>c. map_of c v)"

definition tally_wf :: "(string \<times> (string \<times> nat) list) list \<Rightarrow> bool" where
  "tally_wf by_day \<longleftrightarrow> distinct (map fst by_day) \<and> (\<forall>d c. map_of by_day d = Some c \<longrightarrow> distinct (map fst c))"

lemma tally_day_add:
  "tally (day_add sp e m) d v =
     (if d = sp_day sp (ae_chained_at e) \<and> v = verdict_of sp e then Some (Suc (case tally m d v of None \<Rightarrow> 0 | Some n \<Rightarrow> n))
      else tally m d v)"
  by (auto simp: tally_def day_add_def Let_def update_conv' map_of_counter_add split: option.splits)

lemma tally_wf_day_add: "tally_wf m \<Longrightarrow> tally_wf (day_add sp e m)"
  by (auto simp: tally_wf_def day_add_def Let_def distinct_update update_conv' intro!: distinct_counter_add
      split: option.splits if_splits)

lemma tally_fold:
  "tally_wf m \<Longrightarrow> tally_wf (fold (day_add sp) es m) \<and>
   tally (fold (day_add sp) es m) d v =
     (let n = length (filter (\<lambda>e. sp_day sp (ae_chained_at e) = d \<and> verdict_of sp e = v) es)
      in if n = 0 then tally m d v else Some (n + (case tally m d v of None \<Rightarrow> 0 | Some k \<Rightarrow> k)))"
proof (induction es arbitrary: m)
  case (Cons e es)
  from Cons.IH [OF tally_wf_day_add [OF Cons.prems], of sp e] show ?case
    by (auto simp: tally_day_add Let_def split: option.splits)
qed simp

lemma trend_rows_tally:
  assumes "tally_wf m"
  shows "(d, v, n) \<in> set (trend_rows m) \<longleftrightarrow> tally m d v = Some n"
proof -
  have "(d, v, n) \<in> set (trend_rows m) \<longleftrightarrow> (\<exists>c. (d, c) \<in> set m \<and> (v, n) \<in> set c)"
    by (auto simp: trend_rows_def)
  also have "\<dots> \<longleftrightarrow> (\<exists>c. map_of m d = Some c \<and> (v, n) \<in> set c)"
    using assms by (simp add: tally_wf_def)
  also have "\<dots> \<longleftrightarrow> (\<exists>c. map_of m d = Some c \<and> map_of c v = Some n)"
    using assms by (auto simp: tally_wf_def)
  finally show ?thesis by (simp add: tally_def bind_eq_Some_conv)
qed

lemma disjoint_by_fst: "fst ` A \<subseteq> {d} \<Longrightarrow> fst ` B \<subseteq> C \<Longrightarrow> d \<notin> C \<Longrightarrow> A \<inter> B = {}"
  by (auto simp: image_subset_iff)

lemma trend_rows_distinct:
  assumes "tally_wf m"
  shows "distinct (map (\<lambda>(d, v, n). (d, v)) (trend_rows m))"
proof -
  have "distinct (map (\<lambda>(d, v, n). (d, v)) (concat (map (\<lambda>(day, c). map (\<lambda>(verdict, n). (day, verdict, n)) (sort_key fst c)) xs)))"
    if "distinct (map fst xs)" "\<forall>(d, c) \<in> set xs. distinct (map fst c)" for xs :: "(string \<times> (string \<times> nat) list) list"
    using that
  proof (induction xs)
    case (Cons x xs)
    obtain d c where x: "x = (d, c)" by (cases x)
    have "distinct (map fst (sort_key fst c))" using Cons.prems(2) by (simp add: x distinct_map_sort_key)
    then have "distinct (map (Pair d) (map fst (sort_key fst c)))" by (simp add: distinct_map inj_on_def)
    then have A: "distinct (map (\<lambda>(d, v, n). (d, v)) (map (\<lambda>(verdict, n). (d, verdict, n)) (sort_key fst c)))"
      by (simp add: comp_def case_prod_unfold)
    let ?A = "map (\<lambda>(d, v, n). (d, v)) (map (\<lambda>(verdict, n). (d, verdict, n)) (sort_key fst c))"
    let ?B = "map (\<lambda>(d, v, n). (d, v)) (concat (map (\<lambda>(day, c). map (\<lambda>(verdict, n). (day, verdict, n)) (sort_key fst c)) xs))"
    have B: "distinct ?B" using Cons by (simp add: x)
    have "fst ` set ?A \<subseteq> {d}" by auto
    moreover have "fst ` set ?B \<subseteq> fst ` set xs" by force
    ultimately have "set ?A \<inter> set ?B = {}" by (rule disjoint_by_fst) (use Cons.prems(1) in \<open>simp add: x\<close>)
    then show ?case using A B by (simp only: x list.map concat.simps map_append distinct_append prod.case)
  qed simp
  moreover have "distinct (map fst (sort_key fst m))" using assms by (simp add: tally_wf_def distinct_map_sort_key)
  moreover have "\<forall>(d, c) \<in> set (sort_key fst m). distinct (map fst c)"
    using assms by (auto simp: tally_wf_def)
  ultimately show ?thesis unfolding trend_rows_def by blast
qed

text \<open>Note: The risk trend is exact. The rows of the report are distinct, and a row with a day, a verdict and a
  count is in it precisely when the count is positive and is the number of verdicts of that spelling the
  ledger holds for that day within the requested period.\<close>

theorem risk_trend_exact:
  "distinct (rp_rows (build_risk_trend sp db since until)) \<and>
   ([(''date'', PStr d), (''verdict'', PStr v), (''count'', PInt k)] \<in> set (rp_rows (build_risk_trend sp db since until)) \<longleftrightarrow>
    0 < k \<and> k = int (length (filter (\<lambda>e. sp_day sp (ae_chained_at e) = d \<and> verdict_of sp e = v)
                       (audit_entries db ''verdict_issued'' since until))))"
proof -
  define es where "es = audit_entries db ''verdict_issued'' since until"
  define row where "row = (\<lambda>(day, verdict, n :: nat). [(''date'', PStr day), (''verdict'', PStr verdict), (''count'', PInt (int n))])"
  have rows: "rp_rows (build_risk_trend sp db since until) = map row (trend_rows (fold (day_add sp) es []))"
    by (simp add: build_risk_trend_def Let_def es_def row_def)
  have wf: "tally_wf (fold (day_add sp) es [])" using tally_fold [of "[]"] by (simp add: tally_wf_def)
  have t: "(d, v, n) \<in> set (trend_rows (fold (day_add sp) es [])) \<longleftrightarrow>
      0 < n \<and> n = length (filter (\<lambda>e. sp_day sp (ae_chained_at e) = d \<and> verdict_of sp e = v) es)" for n
    using tally_fold [of "[]" sp es d v] by (auto simp: trend_rows_tally [OF wf] tally_wf_def tally_def Let_def)
  have "distinct (map row (trend_rows (fold (day_add sp) es [])))"
    unfolding distinct_map
  proof
    show "distinct (trend_rows (fold (day_add sp) es []))"
      using trend_rows_distinct [OF wf] by (simp add: distinct_map)
    show "inj_on row (set (trend_rows (fold (day_add sp) es [])))" by (auto simp: inj_on_def row_def)
  qed
  moreover have "[(''date'', PStr d), (''verdict'', PStr v), (''count'', PInt k)] \<in> set (map row (trend_rows (fold (day_add sp) es []))) \<longleftrightarrow>
      (\<exists>n. k = int n \<and> (d, v, n) \<in> set (trend_rows (fold (day_add sp) es [])))"
    by (force simp: row_def)
  ultimately show ?thesis unfolding rows t es_def [symmetric] by auto
qed

text \<open>Counting decisions and proposals of a period separately makes the number of pending proposals of the
  compliance report negative: the decision lies in the period and the proposal before it.\<close>

lemma pending_can_be_negative:
  "rp_summary (build_compliance_status sp \<lparr>ad_intents = [], ad_entries =
      [\<lparr>ae_prev_hash = [], ae_entry_hash = [], ae_operator = ''a'', ae_action = ''policy_proposed'', ae_payload = [], ae_chained_at = 1\<rparr>,
       \<lparr>ae_prev_hash = [], ae_entry_hash = [], ae_operator = ''b'', ae_action = ''policy_approved'', ae_payload = [], ae_chained_at = 3\<rparr>]\<rparr>
      (Some 2) None) ! 1 =
   (''policy_proposals'', PDict [(PStr ''pending'', PInt (-1)), (PStr ''approved'', PInt 1), (PStr ''rejected'', PInt 0)])"
  by (simp add: build_compliance_status_def audit_entries_def Let_def)

end
