(* ===== verification/Policy_Rollout.thy ===== *)
theory Policy_Rollout
  imports Gate_Reviews Core_Samples
begin

text \<open>
  How a policy gets to run (apps/monolith/worker.py, \<open>_parse_policy_candidate\<close>,
  \<open>promote_approved_policy\<close> and \<open>reload_policy_if_changed\<close>, and the policy endpoints of
  apps/monolith/modules/admin/router.py): an approved proposal is parsed, guarded and marked applied, the
  replica that approved it switches at once, and every replica re-reads the newest applied proposal in each
  tick. The gate's tables and the two-person workflow are those of \<open>Gate_Service\<close>; the YAML reader is a
  parameter.
\<close>

section \<open>Operations\<close>

text \<open>\<open>available\<close> are the engines of the deployment. A refusal is \<open>None\<close>; an error other than the
  caught ones leaves the function.\<close>

definition parse_policy_candidate ::
  "(string \<Rightarrow> yaml_read) \<Rightarrow> string set \<Rightarrow> proposal_row \<Rightarrow> gate_policy option res" where
  "parse_policy_candidate safe_load available row =
     (case (case safe_load (pp_yaml row) of
              Parsed (PDict raw) \<Rightarrow> parse_gate_policy raw
            | _ \<Rightarrow> Inl GatePolicyLoadError) of
        Inl e \<Rightarrow> if e \<in> {GatePolicyLoadError, ValueError} then Inr None else Inl e
      | Inr candidate \<Rightarrow>
          if gp_required_engines candidate = {} then Inr None
          else if \<not> gp_required_engines candidate \<subseteq> available then Inr None
          else Inr (Some candidate))"

definition promote_approved_policy ::
  "(string \<Rightarrow> yaml_read) \<Rightarrow> string set \<Rightarrow> nat \<Rightarrow> gate_db \<times> gate_policy \<Rightarrow> ((gate_db \<times> gate_policy) \<times> bool) res" where
  "promote_approved_policy safe_load available proposal_id = (\<lambda>(db, policy).
     case map_of (gd_proposals db) proposal_id of
       None \<Rightarrow> Inr ((db, policy), False)
     | Some row \<Rightarrow>
         if pp_status row \<noteq> ''approved'' then Inr ((db, policy), False)
         else res_bind (parse_policy_candidate safe_load available row) (\<lambda>c. case c of
             None \<Rightarrow> Inr ((db, policy), False)
           | Some candidate \<Rightarrow>
               Inr ((db\<lparr>gd_proposals := dict_put proposal_id (row\<lparr>pp_status := ''applied''\<rparr>) (gd_proposals db)\<rparr>, candidate), True)))"

text \<open>\<open>ORDER BY id DESC LIMIT 1\<close> over the applied rows.\<close>

definition newest_applied :: "gate_db \<Rightarrow> (nat \<times> proposal_row) option" where
  "newest_applied db = (case filter (\<lambda>(pid, row). pp_status row = ''applied'') (gd_proposals db) of
       [] \<Rightarrow> None
     | rows \<Rightarrow> Some (last (sort_key fst rows)))"

definition reload_policy_if_changed ::
  "(string \<Rightarrow> yaml_read) \<Rightarrow> string set \<Rightarrow> gate_db \<Rightarrow> gate_policy \<Rightarrow> (gate_policy \<times> bool) res" where
  "reload_policy_if_changed safe_load available db policy = (case newest_applied db of
       None \<Rightarrow> Inr (policy, False)
     | Some (pid, row) \<Rightarrow>
         res_bind (parse_policy_candidate safe_load available row) (\<lambda>c. case c of
             None \<Rightarrow> Inr (policy, False)
           | Some candidate \<Rightarrow>
               if gp_version candidate = gp_version policy then Inr (policy, False) else Inr (candidate, True)))"

text \<open>The endpoint answers with a status code when it refuses.\<close>

definition approve_policy ::
  "(string \<Rightarrow> yaml_read) \<Rightarrow> string set \<Rightarrow> real \<Rightarrow> nat \<Rightarrow> string \<Rightarrow> gate_db \<times> gate_policy \<Rightarrow>
   nat + (((gate_db \<times> gate_policy) \<times> bool) res)" where
  "approve_policy safe_load available now proposal_id subject = (\<lambda>(db, policy).
     case map_of (gd_proposals db) proposal_id of
       None \<Rightarrow> Inl 404
     | Some proposal \<Rightarrow>
         (case approve_policy_proposal db now (proposal_id, proposal) subject of
            Inl e \<Rightarrow> Inl 403
          | Inr db1 \<Rightarrow> Inr (promote_approved_policy safe_load available proposal_id (db1, policy))))"

definition propose_policy ::
  "(string \<Rightarrow> yaml_read) \<Rightarrow> real \<Rightarrow> string \<Rightarrow> string \<Rightarrow> gate_db \<times> gate_policy \<Rightarrow> nat + ((nat \<times> proposal_row) \<times> gate_db) res" where
  "propose_policy safe_load now subject policy_yaml = (\<lambda>(db, policy).
     case propose_policy_change safe_load db now subject (gp_hard_gate_rules policy) policy_yaml of
       Inl e \<Rightarrow> if e = PolicyProposalError then Inl 400 else Inr (Inl e)
     | Inr r \<Rightarrow> Inr (Inr r))"

definition reject_policy :: "real \<Rightarrow> nat \<Rightarrow> string \<Rightarrow> string \<Rightarrow> gate_db \<Rightarrow> nat + gate_db" where
  "reject_policy now proposal_id subject reason db = (case map_of (gd_proposals db) proposal_id of
       None \<Rightarrow> Inl 404
     | Some proposal \<Rightarrow> (case reject_policy_proposal db now (proposal_id, proposal) subject reason of
           Inl e \<Rightarrow> Inl 400 | Inr db' \<Rightarrow> Inr db'))"

section \<open>The cluster\<close>

text \<open>One database and the policy each replica runs. Any operation of the gate may happen, an approval at a
  replica with the switch it does there, the tick of a replica, and a restart, which puts the policy file
  back until the next tick.\<close>

type_synonym cluster = "gate_db \<times> (nat \<Rightarrow> gate_policy)"

inductive rollout_step ::
  "(string \<Rightarrow> yaml_read) \<Rightarrow> string set \<Rightarrow> (string \<Rightarrow> verdict_claims) \<Rightarrow> gate_policy \<Rightarrow> cluster \<Rightarrow> cluster \<Rightarrow> bool"
  for ld available claims_in start where
  roll_gate: "gate_step claims_in db db' \<Longrightarrow> rollout_step ld available claims_in start (db, ps) (db', ps)"
| roll_approve:
    "approve_policy ld available now pid who (db, ps r) = Inr (Inr ((db', p), applied)) \<Longrightarrow>
     rollout_step ld available claims_in start (db, ps) (db', ps(r := p))"
| roll_reload:
    "reload_policy_if_changed ld available db (ps r) = Inr (p, changed) \<Longrightarrow>
     rollout_step ld available claims_in start (db, ps) (db, ps(r := p))"
| roll_restart: "rollout_step ld available claims_in start (db, ps) (db, ps(r := start))"

abbreviation rollout_reachable ::
  "(string \<Rightarrow> yaml_read) \<Rightarrow> string set \<Rightarrow> (string \<Rightarrow> verdict_claims) \<Rightarrow> gate_policy \<Rightarrow> cluster \<Rightarrow> bool" where
  "rollout_reachable ld available claims_in start c \<equiv>
     (rollout_step ld available claims_in start)\<^sup>*\<^sup>* (empty_gate, \<lambda>_. start) c"

section \<open>What applied means\<close>

definition candidate :: "(string \<Rightarrow> yaml_read) \<Rightarrow> string set \<Rightarrow> proposal_row \<Rightarrow> gate_policy option" where
  "candidate ld available row = (case parse_policy_candidate ld available row of Inr c \<Rightarrow> c | Inl _ \<Rightarrow> None)"

definition second_person :: "proposal_row \<Rightarrow> bool" where
  "second_person row \<longleftrightarrow> pp_changes_hard_gate_rules row \<and> (\<exists>a. pp_approved_by row = Some a \<and> a \<noteq> pp_proposed_by row)"

definition row_sound :: "(string \<Rightarrow> yaml_read) \<Rightarrow> string set \<Rightarrow> proposal_row \<Rightarrow> bool" where
  "row_sound ld available row \<longleftrightarrow>
     (pp_status row = ''pending'' \<longrightarrow> pp_changes_hard_gate_rules row) \<and>
     (pp_status row = ''applied'' \<longrightarrow> second_person row \<and> candidate ld available row \<noteq> None)"

definition rows_sound :: "(string \<Rightarrow> yaml_read) \<Rightarrow> string set \<Rightarrow> gate_db \<Rightarrow> bool" where
  "rows_sound ld available db \<longleftrightarrow> (\<forall>pid row. map_of (gd_proposals db) pid = Some row \<longrightarrow> row_sound ld available row)"

definition runs_applied :: "(string \<Rightarrow> yaml_read) \<Rightarrow> string set \<Rightarrow> gate_db \<Rightarrow> gate_policy \<Rightarrow> bool" where
  "runs_applied ld available db p \<longleftrightarrow>
     (\<exists>pid row. map_of (gd_proposals db) pid = Some row \<and> pp_status row = ''applied'' \<and> candidate ld available row = Some p)"

lemma candidate_guarded:
  "candidate ld available row = Some p \<Longrightarrow> load_gate_policy (ld (pp_yaml row)) = Inr p \<and>
     gp_required_engines p \<noteq> {} \<and> gp_required_engines p \<subseteq> available"
  by (auto simp: candidate_def parse_policy_candidate_def load_gate_policy_def
      split: sum.splits if_splits yaml_read.splits pyval.splits)

lemma candidate_SomeD: "candidate ld av row = Some p \<Longrightarrow> parse_policy_candidate ld av row = Inr (Some p)"
  by (simp add: candidate_def split: sum.splits)

lemma candidate_status [simp]: "candidate ld av (row\<lparr>pp_status := s\<rparr>) = candidate ld av row"
  by (simp add: candidate_def parse_policy_candidate_def)

lemma candidate_decided [simp]:
  "candidate ld av (row\<lparr>pp_status := s, pp_approved_by := a, pp_decided_at := d\<rparr>) = candidate ld av row"
  by (simp add: candidate_def parse_policy_candidate_def)

text \<open>How an operation of the gate changes a proposal: not at all, or it adds a fresh one, or it decides a
  pending one.\<close>

lemma gate_step_proposal:
  assumes "gate_step claims_in db db'" "map_of (gd_proposals db') pid = Some row'"
  obtains "map_of (gd_proposals db) pid = Some row'"
    | "map_of (gd_proposals db) pid = None" "pp_status row' = (if pp_changes_hard_gate_rules row' then ''pending'' else ''approved'')"
    | row where "map_of (gd_proposals db) pid = Some row" "pp_status row = ''pending''" "pp_status row' \<in> {''approved'', ''rejected''}"
  using assms(1)
proof cases
  case (step_decide sg utcnow sid sr p t al op now extra vr)
  then have "gd_proposals db' = gd_proposals db" by (elim decide_and_record_InrE)
  then show ?thesis using assms(2) that(1) by simp
next
  case (step_review sg V odb invt utcnow sid d who why p row)
  then have "gd_proposals db' = gd_proposals db" by (elim submit_review_InrE)
  then show ?thesis using assms(2) that(1) by simp
next
  case (step_grant u st sv rid ex ap rq rs row)
  then have "gd_proposals db' = gd_proposals db" by (elim grant_InrE)
  then show ?thesis using assms(2) that(1) by simp
next
  case (step_revoke u actor)
  then have "gd_proposals db' = gd_proposals db" by (auto simp: revoke_allowlist_entry_def split: option.splits)
  then show ?thesis using assms(2) that(1) by simp
next
  case (step_propose ld now who cur y q)
  then obtain n q' where q': "gd_proposals db' = gd_proposals db @ [(n, q')]"
      "pp_status q' = (if pp_changes_hard_gate_rules q' then ''pending'' else ''approved'')"
    unfolding propose_policy_change_def res_bind_eq_Inr Let_def by auto
  show ?thesis
  proof (cases "map_of (gd_proposals db) pid")
    case None
    then have "row' = q'" using assms(2) q'(1) by (simp add: map_add_def split: if_splits)
    then show ?thesis using that(2) [OF None] q'(2) by simp
  next
    case (Some r)
    then show ?thesis using assms(2) q'(1) that(1) by (simp add: map_add_def)
  qed
next
  case (step_approve pid' q now who)
  note ap = approve_InrD [OF step_approve(2), of claims_in]
  show ?thesis
  proof (cases "pid' = pid")
    case True
    then show ?thesis using ap assms(2) that(3) [of q] step_approve(1) by (auto simp: update_conv')
  next
    case False
    then show ?thesis using ap assms(2) that(1) by (simp add: update_conv')
  qed
next
  case (step_reject pid' q now who why)
  note rj = reject_InrD [OF step_reject(2), of claims_in]
  show ?thesis
  proof (cases "pid' = pid")
    case True
    then show ?thesis using rj assms(2) that(3) [of q] step_reject(1) by (auto simp: update_conv')
  next
    case False
    then show ?thesis using rj assms(2) that(1) by (simp add: update_conv')
  qed
qed

lemma gate_step_sound:
  assumes "gate_step claims_in db db'" "rows_sound ld av db"
  shows "rows_sound ld av db'"
  unfolding rows_sound_def
proof (intro allI impI)
  fix pid row'
  assume "map_of (gd_proposals db') pid = Some row'"
  with assms(1) show "row_sound ld av row'"
  proof (cases rule: gate_step_proposal)
    case 1
    then show ?thesis using assms(2) by (simp add: rows_sound_def)
  next
    case 2
    then show ?thesis by (simp add: row_sound_def split: if_splits)
  next
    case (3 row)
    then show ?thesis by (auto simp: row_sound_def)
  qed
qed

lemma gate_step_runs: "gate_step claims_in db db' \<Longrightarrow> runs_applied ld av db p \<Longrightarrow> runs_applied ld av db' p"
  unfolding runs_applied_def using gate_step_keeps_decided by fastforce

lemma promote_InrE:
  assumes "promote_approved_policy ld av pid (db, p) = Inr ((db', p'), applied)"
  obtains "\<not> applied" "db' = db" "p' = p"
  | row where "applied" "map_of (gd_proposals db) pid = Some row" "pp_status row = ''approved''"
      "candidate ld av row = Some p'"
      "db' = db\<lparr>gd_proposals := dict_put pid (row\<lparr>pp_status := ''applied''\<rparr>) (gd_proposals db)\<rparr>"
proof (cases "map_of (gd_proposals db) pid")
  case None
  then show ?thesis using assms that(1) by (simp add: promote_approved_policy_def)
next
  case (Some row)
  show ?thesis
  proof (cases "pp_status row = ''approved'' \<and> (\<exists>c. parse_policy_candidate ld av row = Inr (Some c))")
    case True
    then show ?thesis using assms Some that(2) [of row]
      by (auto simp: promote_approved_policy_def candidate_def)
  next
    case False
    then show ?thesis using assms Some that(1)
      by (auto simp: promote_approved_policy_def res_bind_eq_Inr split: if_splits option.splits)
  qed
qed

text \<open>An approval at a replica, seen as one step: the two-person step of the gate, and the switch when the
  guards let the policy through.\<close>

lemma approve_policy_InrE:
  assumes "approve_policy ld av now pid who (db, p) = Inr (Inr ((db', p'), applied))"
  obtains row db1 where "map_of (gd_proposals db) pid = Some row"
    "approve_policy_proposal db now (pid, row) who = Inr db1"
    "promote_approved_policy ld av pid (db1, p) = Inr ((db', p'), applied)"
  using assms by (auto simp: approve_policy_def split: option.splits sum.splits)

lemma approve_policy_sound:
  assumes "approve_policy ld av now pid who (db, p) = Inr (Inr ((db', p'), applied))" "rows_sound ld av db"
  shows "rows_sound ld av db' \<and> (\<forall>q. runs_applied ld av db q \<longrightarrow> runs_applied ld av db' q) \<and> (p' = p \<or> runs_applied ld av db' p')"
proof -
  from assms(1) obtain row db1 where row: "map_of (gd_proposals db) pid = Some row"
    "approve_policy_proposal db now (pid, row) who = Inr db1"
    "promote_approved_policy ld av pid (db1, p) = Inr ((db', p'), applied)" by (rule approve_policy_InrE)
  have step: "gate_step undefined db db1" by (rule step_approve [OF row(1,2)])
  have db1: "rows_sound ld av db1" using gate_step_sound [OF step assms(2)] .
  have runs1: "runs_applied ld av db1 q" if "runs_applied ld av db q" for q using gate_step_runs [OF step that] .
  define row1 where "row1 = row\<lparr>pp_status := ''approved'', pp_approved_by := Some who, pp_decided_at := Some now\<rparr>"
  have pend: "pp_status row = ''pending''" "who \<noteq> pp_proposed_by row" "map_of (gd_proposals db1) pid = Some row1"
    using approve_InrD [OF row(2), of undefined] by (simp_all add: update_conv' row1_def)
  have second: "second_person (row1\<lparr>pp_status := s\<rparr>)" for s
    using assms(2) row(1) pend(1,2) by (auto simp: second_person_def row1_def rows_sound_def row_sound_def)
  show ?thesis using row(3)
  proof (cases rule: promote_InrE)
    case 1
    then show ?thesis using db1 runs1 by simp
  next
    case (2 r)
    then have r: "r = row1" using pend(3) by simp
    have look: "map_of (gd_proposals db') i = (if i = pid then Some (row1\<lparr>pp_status := ''applied''\<rparr>) else map_of (gd_proposals db1) i)" for i
      by (simp add: 2(5) r update_conv')
    have "rows_sound ld av db'"
      using db1 2(4) second by (auto simp: rows_sound_def look row_sound_def r)
    moreover have "runs_applied ld av db' q" if run: "runs_applied ld av db q" for q
    proof -
      obtain i r' where i: "map_of (gd_proposals db1) i = Some r'" "pp_status r' = ''applied''" "candidate ld av r' = Some q"
        using runs1 [OF run] by (auto simp: runs_applied_def)
      then have "i \<noteq> pid" using pend(3) by (auto simp: row1_def)
      then show ?thesis using i unfolding runs_applied_def by (intro exI [of _ i] exI [of _ r']) (simp add: look)
    qed
    moreover have "runs_applied ld av db' p'"
      unfolding runs_applied_def using 2(4) by (intro exI [of _ pid] exI [of _ "row1\<lparr>pp_status := ''applied''\<rparr>"]) (simp add: look r)
    ultimately show ?thesis by blast
  qed
qed

lemma sorted_le_last: "sorted xs \<Longrightarrow> y \<in> set xs \<Longrightarrow> y \<le> last xs"
  by (induction xs) auto

lemma newest_applied_Some:
  assumes "newest_applied db = Some (pid, row)"
  shows "(pid, row) \<in> set (gd_proposals db) \<and> pp_status row = ''applied'' \<and>
    (\<forall>(i, r) \<in> set (gd_proposals db). pp_status r = ''applied'' \<longrightarrow> i \<le> pid)"
proof -
  let ?rows = "filter (\<lambda>(pid, row). pp_status row = ''applied'') (gd_proposals db)"
  have ne: "?rows \<noteq> []" and l: "last (sort_key fst ?rows) = (pid, row)"
    using assms by (auto simp: newest_applied_def split: list.splits)
  have "sort_key fst ?rows \<noteq> []" using ne by (metis set_empty set_sort)
  then have "(pid, row) \<in> set ?rows" using l last_in_set [of "sort_key fst ?rows"] by simp
  moreover have "fst x \<le> pid" if "x \<in> set ?rows" for x
  proof -
    have "sorted (map fst (sort_key fst ?rows))" by simp
    moreover have "fst x \<in> set (map fst (sort_key fst ?rows))" using that by force
    ultimately have "fst x \<le> last (map fst (sort_key fst ?rows))" by (rule sorted_le_last)
    then show ?thesis using l \<open>sort_key fst ?rows \<noteq> []\<close> by (simp add: last_map)
  qed
  ultimately show ?thesis by fastforce
qed

lemma newest_applied_lookup:
  assumes "newest_applied db = Some (pid, row)" "distinct (map fst (gd_proposals db))"
  shows "map_of (gd_proposals db) pid = Some row \<and> pp_status row = ''applied''"
  using newest_applied_Some [OF assms(1)] assms(2) by simp

text \<open>The applied rows with the greatest id decide what a tick re-reads.\<close>

lemma newest_applied_is:
  assumes "distinct (map fst (gd_proposals db))" "map_of (gd_proposals db) pid = Some row" "pp_status row = ''applied''"
    and "\<And>i r. map_of (gd_proposals db) i = Some r \<Longrightarrow> pp_status r = ''applied'' \<Longrightarrow> i \<le> pid"
  shows "newest_applied db = Some (pid, row)"
proof -
  have "(pid, row) \<in> set (filter (\<lambda>(pid, row). pp_status row = ''applied'') (gd_proposals db))"
    using assms(2,3) by (simp add: map_of_SomeD)
  then obtain x where x: "newest_applied db = Some x"
    unfolding newest_applied_def by (cases "filter (\<lambda>(pid, row). pp_status row = ''applied'') (gd_proposals db)") auto
  obtain i r where ir: "x = (i, r)" by (cases x)
  note n = newest_applied_Some [OF x [unfolded ir]]
  have "pid \<le> i" using n assms(2,3) map_of_SomeD [OF assms(2)] by fastforce
  moreover have look: "map_of (gd_proposals db) i = Some r" using n assms(1) by simp
  then have "i \<le> pid" using assms(4) n by blast
  ultimately show ?thesis using look assms(2) by (simp add: x ir)
qed

lemma reload_cases:
  assumes "reload_policy_if_changed ld av db p = Inr (p', changed)"
  obtains "p' = p" | pid row where "newest_applied db = Some (pid, row)" "candidate ld av row = Some p'"
proof (cases "newest_applied db")
  case None
  then show ?thesis using assms that(1) by (simp add: reload_policy_if_changed_def)
next
  case (Some x)
  obtain pid row where x: "x = (pid, row)" by (cases x)
  show ?thesis
  proof (cases "candidate ld av row")
    case None
    then show ?thesis using assms Some that(1)
      by (auto simp: reload_policy_if_changed_def x candidate_def split: sum.splits)
  next
    case (Some c)
    note c = candidate_SomeD [OF this]
    show ?thesis
    proof (cases "gp_version c = gp_version p")
      case True
      then show ?thesis using assms \<open>newest_applied db = Some x\<close> c that(1) by (simp add: reload_policy_if_changed_def x)
    next
      case False
      then have "p' = c" using assms \<open>newest_applied db = Some x\<close> c by (simp add: reload_policy_if_changed_def x)
      then show ?thesis using that(2) \<open>newest_applied db = Some x\<close> Some x by simp
    qed
  qed
qed

lemma gate_step_distinct:
  assumes "gate_step claims_in db db'" "map fst (gd_proposals db) = [1..<Suc (length (gd_proposals db))]"
  shows "map fst (gd_proposals db') = [1..<Suc (length (gd_proposals db'))]"
proof -
  have put: "map fst (dict_put pid r (gd_proposals db)) = [1..<Suc (length (dict_put pid r (gd_proposals db)))]"
    if "map_of (gd_proposals db) pid = Some q" for pid r q
  proof -
    have "pid \<in> set (map fst (gd_proposals db))" using that by (force dest: map_of_SomeD)
    then have "map fst (dict_put pid r (gd_proposals db)) = map fst (gd_proposals db)" by (simp add: update_keys)
    then show ?thesis using assms(2) by (metis length_map)
  qed
  show ?thesis using assms(1)
  proof cases
    case (step_decide sg utcnow sid sr p t al op now extra vr)
    then have "gd_proposals db' = gd_proposals db" by (elim decide_and_record_InrE)
    then show ?thesis using assms(2) by simp
  next
    case (step_review sg V odb invt utcnow sid d who why p row)
    then have "gd_proposals db' = gd_proposals db" by (elim submit_review_InrE)
    then show ?thesis using assms(2) by simp
  next
    case (step_grant u st sv rid ex ap rq rs row)
    then have "gd_proposals db' = gd_proposals db" by (elim grant_InrE)
    then show ?thesis using assms(2) by simp
  next
    case (step_revoke u actor)
    then have "gd_proposals db' = gd_proposals db" by (auto simp: revoke_allowlist_entry_def split: option.splits)
    then show ?thesis using assms(2) by simp
  next
    case (step_propose ld now who cur y q)
    then obtain q' where "gd_proposals db' = gd_proposals db @ [(Suc (length (gd_proposals db)), q')]"
      unfolding propose_policy_change_def res_bind_eq_Inr Let_def by auto
    then show ?thesis using assms(2) by simp
  next
    case (step_approve pid q now who)
    then show ?thesis using put [OF step_approve(1)] approve_InrD [OF step_approve(2), of claims_in] by simp
  next
    case (step_reject pid q now who why)
    then show ?thesis using put [OF step_reject(1)] reject_InrD [OF step_reject(2), of claims_in] by simp
  qed
qed

definition cluster_ok :: "(string \<Rightarrow> yaml_read) \<Rightarrow> string set \<Rightarrow> gate_policy \<Rightarrow> cluster \<Rightarrow> bool" where
  "cluster_ok ld av start c \<longleftrightarrow> rows_sound ld av (fst c) \<and>
     map fst (gd_proposals (fst c)) = [1..<Suc (length (gd_proposals (fst c)))] \<and>
     (\<forall>r. snd c r = start \<or> runs_applied ld av (fst c) (snd c r))"

lemma approve_policy_keys:
  assumes "approve_policy ld av now pid who (db, p) = Inr (Inr ((db', p'), applied))"
    "map fst (gd_proposals db) = [1..<Suc (length (gd_proposals db))]"
  shows "map fst (gd_proposals db') = [1..<Suc (length (gd_proposals db'))]"
proof -
  from assms(1) obtain row db1 where row: "map_of (gd_proposals db) pid = Some row"
    "approve_policy_proposal db now (pid, row) who = Inr db1"
    "promote_approved_policy ld av pid (db1, p) = Inr ((db', p'), applied)" by (rule approve_policy_InrE)
  have db1: "map fst (gd_proposals db1) = [1..<Suc (length (gd_proposals db1))]"
    by (rule gate_step_distinct [OF step_approve [OF row(1,2)] assms(2)])
  show ?thesis using row(3)
  proof (cases rule: promote_InrE)
    case (2 r)
    have "pid \<in> set (map fst (gd_proposals db1))" using 2(2) by (force dest: map_of_SomeD)
    then have "map fst (gd_proposals db') = map fst (gd_proposals db1)" by (simp add: 2(5) update_keys)
    then show ?thesis using db1 by (metis length_map)
  qed (simp add: db1)
qed

lemma rollout_step_ok:
  assumes "rollout_step ld av claims_in start c c'" "cluster_ok ld av start c"
  shows "cluster_ok ld av start c'"
  using assms
proof (induction rule: rollout_step.induct)
  case (roll_gate db db' ps)
  then show ?case using gate_step_sound gate_step_distinct gate_step_runs unfolding cluster_ok_def fst_conv snd_conv by blast
next
  case (roll_approve now pid who db ps r db' p applied)
  then show ?case
    using approve_policy_sound [OF roll_approve(1)] approve_policy_keys [OF roll_approve(1)]
    by (fastforce simp: cluster_ok_def)
next
  case (roll_reload db ps r p changed)
  from roll_reload(1) have "p = ps r \<or> runs_applied ld av db p"
  proof (cases rule: reload_cases)
    case (2 pid row)
    have "distinct (map fst (gd_proposals db))" using roll_reload(2) by (simp add: cluster_ok_def)
    then show ?thesis using newest_applied_lookup [OF 2(1)] 2(2) by (auto simp: runs_applied_def)
  qed simp
  then show ?case using roll_reload(2) by (auto simp: cluster_ok_def)
next
  case (roll_restart db ps r)
  then show ?case by (simp add: cluster_ok_def)
qed

lemma rollout_reachable_ok: "rollout_reachable ld av claims_in start c \<Longrightarrow> cluster_ok ld av start c"
proof (induction rule: rtranclp_induct)
  case base
  then show ?case by (simp add: cluster_ok_def rows_sound_def empty_gate_def)
next
  case (step y z)
  then show ?case using rollout_step_ok by blast
qed

section \<open>Properties\<close>

text \<open>C16: No unreviewed policy runs. However proposals, approvals, rejections, ticks and restarts of the
  replicas interleave, every replica runs the policy of its file or one that was proposed, changes the
  hard-gate rules, was approved by somebody other than its proposer, parses into a policy that meets every
  constructor invariant, and requires at least one engine and only engines the deployment has. In
  particular a proposal that leaves the hard-gate rules alone, which is approved on its own, never
  runs.\<close>

theorem running_policy_guarded:
  assumes "rollout_reachable ld av claims_in start (db, ps)" "ps r \<noteq> start"
  shows "\<exists>pid row. map_of (gd_proposals db) pid = Some row \<and> pp_status row = ''applied'' \<and>
    pp_changes_hard_gate_rules row \<and> (\<exists>a. pp_approved_by row = Some a \<and> a \<noteq> pp_proposed_by row) \<and>
    load_gate_policy (ld (pp_yaml row)) = Inr (ps r) \<and> valid_policy (ps r) \<and>
    gp_required_engines (ps r) \<noteq> {} \<and> gp_required_engines (ps r) \<subseteq> av"
proof -
  have ok: "cluster_ok ld av start (db, ps)" by (rule rollout_reachable_ok [OF assms(1)])
  then obtain pid row where row: "map_of (gd_proposals db) pid = Some row" "pp_status row = ''applied''"
      "candidate ld av row = Some (ps r)"
    using assms(2) by (auto simp: cluster_ok_def runs_applied_def)
  have "second_person row" using ok row(1,2) by (simp add: cluster_ok_def rows_sound_def row_sound_def)
  moreover have "valid_policy (ps r)"
    using loaded_policy candidate_guarded [OF row(3)] by blast
  ultimately show ?thesis using row candidate_guarded [OF row(3)] unfolding second_person_def by blast
qed

text \<open>Note: Approving an older proposal is undone by the next tick. Let a proposal be approved, pass the guards
  and be switched to, while a proposal with a greater id is already applied. The endpoint reports it as
  applied; the next tick of the very same replica re-reads the applied proposal with the greatest id and
  switches back to it, whenever the two policies have different version strings.\<close>

theorem approved_older_policy_is_undone:
  assumes "distinct (map fst (gd_proposals db))" "map_of (gd_proposals db) old = Some row" "pp_status row = ''pending''"
    and "who \<noteq> pp_proposed_by row" "candidate ld av row = Some p" "newest_applied db = Some (new, row')" "old < new"
    and "candidate ld av row' = Some p'" "gp_version p' \<noteq> gp_version p"
  shows "\<exists>db'. approve_policy ld av now old who (db, q) = Inr (Inr ((db', p), True)) \<and>
    reload_policy_if_changed ld av db' p = Inr (p', True)"
proof -
  define row1 where "row1 = row\<lparr>pp_status := ''approved'', pp_approved_by := Some who, pp_decided_at := Some now\<rparr>"
  obtain db1 where db1: "approve_policy_proposal db now (old, row) who = Inr db1"
    using assms(3,4) by (simp add: approve_policy_proposal_def)
  have props1: "gd_proposals db1 = dict_put old row1 (gd_proposals db)"
    using approve_InrD [OF db1, of undefined] by (simp add: row1_def)
  define db2 where "db2 = db1\<lparr>gd_proposals := dict_put old (row1\<lparr>pp_status := ''applied''\<rparr>) (gd_proposals db1)\<rparr>"
  have cand: "parse_policy_candidate ld av row1 = Inr (Some p)"
    using candidate_SomeD [OF assms(5)] by (simp add: row1_def parse_policy_candidate_def)
  have "promote_approved_policy ld av old (db1, q) = Inr ((db2, p), True)"
    by (simp add: promote_approved_policy_def props1 update_conv' row1_def [symmetric] cand db2_def)
      (simp add: row1_def)
  then have app: "approve_policy ld av now old who (db, q) = Inr (Inr ((db2, p), True))"
    by (simp add: approve_policy_def assms(2) db1)
  have look: "map_of (gd_proposals db2) i = (if i = old then Some (row1\<lparr>pp_status := ''applied''\<rparr>) else map_of (gd_proposals db) i)" for i
    by (simp add: db2_def props1 update_conv')
  have dist: "distinct (map fst (gd_proposals db2))"
    using assms(1) by (simp add: db2_def props1 distinct_update)
  have row': "map_of (gd_proposals db) new = Some row'" "pp_status row' = ''applied''"
    using newest_applied_lookup [OF assms(6,1)] by simp_all
  have "newest_applied db2 = Some (new, row')"
  proof (rule newest_applied_is [OF dist])
    show "map_of (gd_proposals db2) new = Some row'" using row' assms(7) by (simp add: look)
    show "i \<le> new" if "map_of (gd_proposals db2) i = Some r" "pp_status r = ''applied''" for i r
      using that assms(7) newest_applied_Some [OF assms(6)] by (auto simp: look split: if_splits dest: map_of_SomeD)
  qed (rule row'(2))
  moreover have "parse_policy_candidate ld av row' = Inr (Some p')"
    by (rule candidate_SomeD [OF assms(8)])
  ultimately have "reload_policy_if_changed ld av db2 p = Inr (p', True)"
    using assms(9) by (simp add: reload_policy_if_changed_def)
  then show ?thesis using app by blast
qed

text \<open>Where the version strings agree the tick keeps what the replica runs, however the policies differ: a
  replica that did not take part in the approval never switches.\<close>

lemma same_version_not_reloaded:
  "newest_applied db = Some (pid, row) \<Longrightarrow> candidate ld av row = Some p \<Longrightarrow> gp_version p = gp_version q \<Longrightarrow>
     reload_policy_if_changed ld av db q = Inr (q, False)"
  by (simp add: reload_policy_if_changed_def candidate_SomeD)

text \<open>With versions that identify policies, a tick brings every replica to the newest applied one.\<close>

lemma reload_converges:
  "newest_applied db = Some (pid, row) \<Longrightarrow> candidate ld av row = Some p \<Longrightarrow> (gp_version q = gp_version p \<Longrightarrow> q = p) \<Longrightarrow>
     \<exists>b. reload_policy_if_changed ld av db q = Inr (p, b)"
  by (cases "gp_version p = gp_version q") (auto simp: reload_policy_if_changed_def candidate_SomeD)

section \<open>Witnesses\<close>

definition versioned :: "string \<Rightarrow> string set \<Rightarrow> gate_policy" where
  "versioned v rules = sample_policy\<lparr>gp_version := v, gp_hard_gate_rules := rules\<rparr>"

definition demo_load :: "string \<Rightarrow> yaml_read" where
  "demo_load y = Parsed (PDict (render_policy sorted_list_of_set (versioned y {})))"

definition demo_row :: "string \<Rightarrow> string \<Rightarrow> string option \<Rightarrow> proposal_row" where
  "demo_row y status approver = \<lparr>pp_yaml = y, pp_changes_hard_gate_rules = True, pp_status = status,
     pp_proposed_by = ''alice'', pp_approved_by = approver, pp_reason = None, pp_created_at = 0, pp_decided_at = None\<rparr>"

lemma demo_load_valid: "y \<noteq> [] \<Longrightarrow> load_gate_policy (demo_load y) = Inr (versioned y {})"
  unfolding demo_load_def
  by (rule render_policy_loads)
    (simp_all add: versioned_def sample_policy_def valid_policy_def severity_order enumerates_sorted)

lemma demo_candidate:
  assumes "y \<noteq> []" "pp_yaml row = y"
  shows "candidate demo_load {''static-keyword''} row = Some (versioned y {})"
proof -
  have "parse_gate_policy (render_policy sorted_list_of_set (versioned y {})) = Inr (versioned y {})"
    using demo_load_valid [OF assms(1)] by (simp add: demo_load_def load_gate_policy_def)
  then show ?thesis
    using assms(2) by (simp add: candidate_def parse_policy_candidate_def demo_load_def)
      (simp add: versioned_def sample_policy_def)
qed

lemma demo_switched:
  "\<exists>db ps. rollout_reachable demo_load {''static-keyword''} demo_claims sample_policy (db, ps) \<and> ps 0 = versioned ''v2'' {}"
proof -
  let ?R = "rollout_step demo_load {''static-keyword''} demo_claims sample_policy"
  have parse: "parse_gate_policy (render_policy sorted_list_of_set (versioned ''v2'' {})) = Inr (versioned ''v2'' {})"
    using demo_load_valid [of "''v2''"] by (simp add: demo_load_def load_gate_policy_def)
  define row where "row = demo_row ''v2'' ''pending'' None"
  have "\<exists>db1. propose_policy_change demo_load empty_gate 0 ''alice'' {''hard.rule''} ''v2'' = Inr ((1, row), db1) \<and>
      gd_proposals db1 = [(1, row)]"
    using parse by (simp add: propose_policy_change_def demo_load_def Let_def empty_gate_def row_def demo_row_def)
      (simp add: versioned_def sample_policy_def)
  then obtain db1 where d1: "propose_policy_change demo_load empty_gate 0 ''alice'' {''hard.rule''} ''v2'' = Inr ((1, row), db1)"
    "gd_proposals db1 = [(1, row)]" by blast
  have s1: "?R (empty_gate, \<lambda>_. sample_policy) (db1, \<lambda>_. sample_policy)" by (rule roll_gate [OF step_propose [OF d1(1)]])
  obtain db2 where d2: "approve_policy_proposal db1 1 (1, row) ''bob'' = Inr db2"
    by (simp add: approve_policy_proposal_def row_def demo_row_def)
  define row2 where "row2 = row\<lparr>pp_status := ''approved'', pp_approved_by := Some ''bob'', pp_decided_at := Some 1\<rparr>"
  have p2: "gd_proposals db2 = [(1, row2)]"
    using approve_InrD [OF d2, of demo_claims] d1(2) by (simp add: row2_def)
  have c: "parse_policy_candidate demo_load {''static-keyword''} row2 = Inr (Some (versioned ''v2'' {}))"
    by (rule candidate_SomeD) (rule demo_candidate, simp_all add: row2_def row_def demo_row_def)
  obtain db3 where "promote_approved_policy demo_load {''static-keyword''} 1 (db2, sample_policy) = Inr ((db3, versioned ''v2'' {}), True)"
    using c by (simp add: promote_approved_policy_def p2) (simp add: row2_def)
  then have "approve_policy demo_load {''static-keyword''} 1 1 ''bob'' (db1, sample_policy) = Inr (Inr ((db3, versioned ''v2'' {}), True))"
    using d2 by (simp add: approve_policy_def d1(2))
  then have "?R (db1, \<lambda>_. sample_policy) (db3, (\<lambda>_. sample_policy)(0 := versioned ''v2'' {}))"
    by (rule roll_approve [where r = 0, rotated -1])
  with s1 have "?R\<^sup>*\<^sup>* (empty_gate, \<lambda>_. sample_policy) (db3, (\<lambda>_. sample_policy)(0 := versioned ''v2'' {}))"
    by (meson rtranclp.rtrancl_into_rtrancl rtranclp.rtrancl_refl)
  then show ?thesis by (metis fun_upd_same)
qed

theorem running_policy_guarded_witness:
  "\<exists>db ps. rollout_reachable demo_load {''static-keyword''} demo_claims sample_policy (db, ps) \<and> ps 0 \<noteq> sample_policy \<and>
     (\<exists>pid row. map_of (gd_proposals db) pid = Some row \<and> pp_status row = ''applied'' \<and> pp_changes_hard_gate_rules row)"
proof -
  obtain db ps where r: "rollout_reachable demo_load {''static-keyword''} demo_claims sample_policy (db, ps)" "ps 0 = versioned ''v2'' {}"
    using demo_switched by blast
  have "ps 0 \<noteq> sample_policy" by (simp add: r(2) versioned_def sample_policy_def)
  from running_policy_guarded [OF r(1) this] this r(1) show ?thesis by blast
qed

theorem approved_older_policy_is_undone_witness:
  "\<exists>db db'. approve_policy demo_load {''static-keyword''} 5 1 ''bob'' (db, sample_policy) = Inr (Inr ((db', versioned ''v2'' {}), True)) \<and>
     reload_policy_if_changed demo_load {''static-keyword''} db' (versioned ''v2'' {}) = Inr (versioned ''v3'' {}, True)"
proof -
  define db where "db = empty_gate\<lparr>gd_proposals := [(1, demo_row ''v2'' ''pending'' None), (2, demo_row ''v3'' ''applied'' (Some ''bob''))]\<rparr>"
  have new: "newest_applied db = Some (2, demo_row ''v3'' ''applied'' (Some ''bob''))"
    by (simp add: newest_applied_def db_def) (simp add: demo_row_def)
  have "\<exists>db'. approve_policy demo_load {''static-keyword''} 5 1 ''bob'' (db, sample_policy) = Inr (Inr ((db', versioned ''v2'' {}), True)) \<and>
     reload_policy_if_changed demo_load {''static-keyword''} db' (versioned ''v2'' {}) = Inr (versioned ''v3'' {}, True)"
  proof (rule approved_older_policy_is_undone [OF _ _ _ _ _ new])
    show "distinct (map fst (gd_proposals db))" by (simp add: db_def)
    show "map_of (gd_proposals db) 1 = Some (demo_row ''v2'' ''pending'' None)" by (simp add: db_def)
    show "candidate demo_load {''static-keyword''} (demo_row ''v2'' ''pending'' None) = Some (versioned ''v2'' {})"
      by (rule demo_candidate) (simp_all add: demo_row_def)
    show "candidate demo_load {''static-keyword''} (demo_row ''v3'' ''applied'' (Some ''bob'')) = Some (versioned ''v3'' {})"
      by (rule demo_candidate) (simp_all add: demo_row_def)
  qed (simp_all add: demo_row_def versioned_def)
  then show ?thesis by blast
qed

end
