(* ===== verification/Worker_Upkeep.thy ===== *)
theory Worker_Upkeep
  imports Scan_Service Inventory_Service Redis_Store
begin

text \<open>
  The upkeep of the background worker: pruning of the engine health table
  (apps/monolith/modules/orchestration/retention.py and \<open>run_engine_health_retention\<close> of
  apps/monolith/worker.py), advancing the recorded toolchain of re-scanned versions
  (\<open>advance_scanned_toolchain_digests\<close>), and the order and error behaviour of \<open>worker_tick\<close> and
  \<open>run_worker_loop\<close>. The float reader, the order in which the server visits rows, the failures of the
  database and the steps of a tick are parameters.
\<close>

section \<open>The retention window\<close>

definition DEFAULT_RETENTION_DAYS :: real where "DEFAULT_RETENTION_DAYS = 26"
definition MINIMUM_RETENTION_DAYS :: real where "MINIMUM_RETENTION_DAYS = 1"
definition RETENTION_BATCH :: nat where "RETENTION_BATCH = 1000"
definition RETENTION_MAX_BATCHES :: nat where "RETENTION_MAX_BATCHES = 20"

text \<open>\<open>days < MINIMUM_RETENTION_DAYS\<close> is false for a value that is not a number.\<close>

definition below_minimum :: "pfloat \<Rightarrow> bool" where
  "below_minimum d = (case d of Fin r \<Rightarrow> r < MINIMUM_RETENTION_DAYS | NegInf \<Rightarrow> True | _ \<Rightarrow> False)"

definition retention_days :: "(string \<Rightarrow> pfloat option) \<Rightarrow> string option \<Rightarrow> pfloat" where
  "retention_days read_float raw = (case raw of
       None \<Rightarrow> Fin DEFAULT_RETENTION_DAYS
     | Some s \<Rightarrow> (case read_float s of
           None \<Rightarrow> Fin DEFAULT_RETENTION_DAYS
         | Some days \<Rightarrow> if below_minimum days then Fin DEFAULT_RETENTION_DAYS else days))"

text \<open>Seconds since the epoch of the first instant a \<open>datetime\<close> can hold, and the greatest number of days of
  a \<open>timedelta\<close>. A \<open>timedelta\<close> of a value that is not a number is a \<open>ValueError\<close>.\<close>

definition MIN_DATETIME :: real where "MIN_DATETIME = - 62135596800"
definition MAX_TIMEDELTA_DAYS :: real where "MAX_TIMEDELTA_DAYS = 999999999"

definition retention_cutoff :: "real \<Rightarrow> pfloat \<Rightarrow> real res" where
  "retention_cutoff now days = (case days of
       Fin d \<Rightarrow> res_bind (raise_if (\<bar>d\<bar> > MAX_TIMEDELTA_DAYS) OverflowError) (\<lambda>_.
                res_bind (raise_if (now - d * 86400 < MIN_DATETIME) OverflowError) (\<lambda>_. Inr (now - d * 86400)))
     | NaN \<Rightarrow> Inl ValueError
     | _ \<Rightarrow> Inl OverflowError)"

text \<open>One bounded statement: of the rows before the cutoff, the first \<open>limit\<close> in the order the server
  visits them.\<close>

definition retention_victims :: "(health_row list \<Rightarrow> health_row list) \<Rightarrow> real \<Rightarrow> nat \<Rightarrow> health_row list \<Rightarrow> health_row list" where
  "retention_victims visit cutoff limit rows = take limit (filter (\<lambda>r. hr_recorded_at r < cutoff) (visit rows))"

definition retention_delete :: "(health_row list \<Rightarrow> health_row list) \<Rightarrow> real \<Rightarrow> nat \<Rightarrow> health_row list \<Rightarrow> health_row list \<times> nat" where
  "retention_delete visit cutoff limit rows =
     (let victims = retention_victims visit cutoff limit rows
      in (filter (\<lambda>r. r \<notin> set victims) rows, length victims))"

text \<open>\<open>fails i\<close>: the statement with this number raises and changes nothing.\<close>

fun sweep_batches ::
  "(health_row list \<Rightarrow> health_row list) \<Rightarrow> (nat \<Rightarrow> bool) \<Rightarrow> real \<Rightarrow> nat \<Rightarrow> nat \<Rightarrow> nat \<Rightarrow> health_row list \<Rightarrow> nat \<Rightarrow> health_row list \<times> nat" where
  "sweep_batches visit fails cutoff batch_size i 0 rows deleted = (rows, deleted)"
| "sweep_batches visit fails cutoff batch_size i (Suc k) rows deleted =
     (if fails i then (rows, deleted)
      else case retention_delete visit cutoff batch_size rows of (rows', batch) \<Rightarrow>
        if batch < batch_size then (rows', deleted + batch)
        else sweep_batches visit fails cutoff batch_size (Suc i) k rows' (deleted + batch))"

definition sweep_engine_health_retention ::
  "(health_row list \<Rightarrow> health_row list) \<Rightarrow> (nat \<Rightarrow> bool) \<Rightarrow> real \<Rightarrow> pfloat \<Rightarrow> nat \<Rightarrow> nat \<Rightarrow> orch_db \<Rightarrow> (orch_db \<times> nat) res" where
  "sweep_engine_health_retention visit fails now days batch_size max_batches db =
     res_bind (retention_cutoff now days) (\<lambda>cutoff.
       case sweep_batches visit fails cutoff batch_size 0 max_batches (od_health db) 0 of (rows, deleted) \<Rightarrow>
         Inr (db\<lparr>od_health := rows\<rparr>, deleted))"

definition HEALTH_RETENTION_LEASE_KEY :: string where
  "HEALTH_RETENTION_LEASE_KEY = ''skillscan:orchestration:health_retention_lease''"
definition HEALTH_RETENTION_INTERVAL_S :: real where "HEALTH_RETENTION_INTERVAL_S = 3600"

text \<open>\<open>up\<close>: the shared store answers.\<close>

definition run_engine_health_retention ::
  "(health_row list \<Rightarrow> health_row list) \<Rightarrow> (nat \<Rightarrow> bool) \<Rightarrow> bool \<Rightarrow> real \<Rightarrow> pfloat \<Rightarrow> redis \<times> orch_db \<Rightarrow> ((redis \<times> orch_db) \<times> nat) res" where
  "run_engine_health_retention visit fails up now days = (\<lambda>(r, db).
     if \<not> up then Inr ((r, db), 0)
     else case redis_set_nx now HEALTH_RETENTION_LEASE_KEY (PStr ''1'') HEALTH_RETENTION_INTERVAL_S r of (r', acquired) \<Rightarrow>
       if \<not> acquired then Inr ((r', db), 0)
       else res_bind (sweep_engine_health_retention visit fails now days RETENTION_BATCH RETENTION_MAX_BATCHES db)
              (\<lambda>(db', n). Inr ((r', db'), n)))"

section \<open>Advancing the recorded toolchain\<close>

definition TOOLCHAIN_ADVANCE_BATCH :: nat where "TOOLCHAIN_ADVANCE_BATCH = 200"

definition decided_under :: "string \<Rightarrow> nat \<Rightarrow> orch_db \<Rightarrow> (string \<times> scan_job) list" where
  "decided_under current limit odb =
     take limit (sort_key (\<lambda>(s, j). - sj_created_at j)
       (filter (\<lambda>(s, j). sj_toolchain_digest j = current \<and> sj_state j = STATE_DECIDED) (od_jobs odb)))"

definition advance_scanned_toolchain_digests ::
  "string \<Rightarrow> nat \<Rightarrow> orch_db \<Rightarrow> gate_db \<Rightarrow> inventory_db \<Rightarrow> inventory_db \<times> nat" where
  "advance_scanned_toolchain_digests current limit odb gdb idb =
     (let jobs = decided_under current limit odb;
          candidate_hashes = set (map (sj_content_hash \<circ> snd) jobs);
          stale_hashes = set (map fst (filter (\<lambda>(ch, v). ch \<in> candidate_hashes \<and> sv_toolchain_digest v \<noteq> current) (db_versions idb)));
          pending = filter (\<lambda>(s, j). sj_content_hash j \<in> stale_hashes \<and> sj_toolchain_digest j = current) jobs;
          verdict_content = (\<lambda>s. if s \<in> set (map fst pending) then map_option vd_content_hash (map_of (gd_verdicts gdb) s) else None);
          confirmed = set (map (sj_content_hash \<circ> snd) (filter (\<lambda>(s, j). verdict_content s = Some (sj_content_hash j)) pending));
          moves = (\<lambda>(ch, v). ch \<in> confirmed \<and> sv_toolchain_digest v \<noteq> current)
      in (idb\<lparr>db_versions := map (\<lambda>(ch, v). if moves (ch, v) then (ch, v\<lparr>sv_toolchain_digest := current\<rparr>) else (ch, v)) (db_versions idb)\<rparr>,
          length (filter moves (db_versions idb))))"

section \<open>One tick and the loop\<close>

text \<open>The steps of a tick over a state of any type; a step may change the state and then raise.\<close>

type_synonym 's step = "'s \<Rightarrow> 's \<times> nat res"

fun run_steps :: "(string \<times> 's step) list \<Rightarrow> (string \<times> nat) list \<Rightarrow> 's \<Rightarrow> 's \<times> (string \<times> nat) list res" where
  "run_steps [] counts s = (s, Inr counts)"
| "run_steps ((name, f) # fs) counts s = (case f s of
       (s', Inl e) \<Rightarrow> (s', Inl e)
     | (s', Inr n) \<Rightarrow> run_steps fs (dict_put name n counts) s')"

record 's tick_ops =
  to_reload :: "'s step"
  to_sweep_queued :: "'s step"
  to_engines :: "'s step"
  to_collect :: "'s step"
  to_sweep_waits :: "'s step"
  to_lifecycle :: "'s step"
  to_toolchain :: "'s step"
  to_audit_drain :: "'s step option"
  to_audit_gauge :: "'s step"
  to_relay :: "'s step option"
  to_reports :: "'s step"
  to_retention :: "'s step"

text \<open>The read of the audit backlog is the one step wrapped in an exception handler.\<close>

definition guarded :: "'s step \<Rightarrow> 's step" where
  "guarded f s = (case f s of (s', Inl e) \<Rightarrow> (s', Inr 0) | r \<Rightarrow> r)"

definition tick_steps :: "'s tick_ops \<Rightarrow> (string \<times> 's step) list" where
  "tick_steps ops =
     [(''policy_reloaded'', to_reload ops), (''swept'', to_sweep_queued ops), (''engine_jobs'', to_engines ops),
      (''decided'', to_collect ops), (''sandbox_swept'', to_sweep_waits ops), (''lifecycle'', to_lifecycle ops),
      (''toolchain_advanced'', to_toolchain ops)] @
     (case to_audit_drain ops of None \<Rightarrow> []
      | Some d \<Rightarrow> [(''audit_chained'', d), (''audit_unchained'', guarded (to_audit_gauge ops))]) @
     (case to_relay ops of None \<Rightarrow> [] | Some f \<Rightarrow> [(''outbox_dispatched'', f)]) @
     [(''reports_fired'', to_reports ops), (''health_rows_pruned'', to_retention ops)]"

definition initial_counts :: "(string \<times> nat) list" where
  "initial_counts = map (\<lambda>n. (n, 0)) [''policy_reloaded'', ''swept'', ''engine_jobs'', ''decided'', ''sandbox_swept'',
     ''lifecycle'', ''toolchain_advanced'', ''audit_chained'', ''audit_unchained'', ''outbox_dispatched'', ''reports_fired'',
     ''health_rows_pruned'']"

definition worker_tick :: "'s tick_ops \<Rightarrow> 's \<Rightarrow> 's \<times> (string \<times> nat) list res" where
  "worker_tick ops s = run_steps (tick_steps ops) initial_counts s"

text \<open>The loop over any number of ticks, with the failures it counts; an infrastructure error makes it
  recreate the consumer groups.\<close>

fun run_worker_loop :: "'s tick_ops \<Rightarrow> ('s \<Rightarrow> 's) \<Rightarrow> nat \<Rightarrow> 's \<Rightarrow> nat \<Rightarrow> 's \<times> nat" where
  "run_worker_loop ops ensure_groups 0 s failures = (s, failures)"
| "run_worker_loop ops ensure_groups (Suc n) s failures = (case worker_tick ops s of
       (s', Inr counts) \<Rightarrow> run_worker_loop ops ensure_groups n s' failures
     | (s', Inl e) \<Rightarrow>
         run_worker_loop ops ensure_groups n (if e \<in> {RedisError, OSError} then ensure_groups s' else s') (Suc failures))"

section \<open>Pruning\<close>

text \<open>What is known of the server: a statement sees every row once.\<close>

definition visits_all :: "(health_row list \<Rightarrow> health_row list) \<Rightarrow> bool" where
  "visits_all visit \<longleftrightarrow> (\<forall>rows. mset (visit rows) = mset rows)"

definition expired :: "real \<Rightarrow> health_row \<Rightarrow> bool" where
  "expired cutoff r \<longleftrightarrow> hr_recorded_at r < cutoff"

lemma retention_delete_effect:
  assumes "visits_all visit" "distinct rows" "retention_delete visit cutoff limit rows = (rows', n)"
  shows "distinct rows' \<and> set rows' \<subseteq> set rows \<and> filter (\<lambda>r. \<not> expired cutoff r) rows' = filter (\<lambda>r. \<not> expired cutoff r) rows \<and>
    n = min limit (length (filter (expired cutoff) rows)) \<and> length (filter (expired cutoff) rows) = length (filter (expired cutoff) rows') + n \<and>
    length rows = length rows' + n"
proof -
  define vs where "vs = take limit (filter (expired cutoff) (visit rows))"
  have r: "rows' = filter (\<lambda>r. r \<notin> set vs) rows" "n = length vs"
  proof -
    have "(\<lambda>r. hr_recorded_at r < cutoff) = expired cutoff" by (simp add: expired_def fun_eq_iff)
    then show "rows' = filter (\<lambda>r. r \<notin> set vs) rows" "n = length vs"
      using assms(3) by (simp_all add: retention_delete_def retention_victims_def Let_def vs_def)
  qed
  have ms: "mset (visit rows) = mset rows" using assms(1) by (simp add: visits_all_def)
  then have len: "length (filter (expired cutoff) (visit rows)) = length (filter (expired cutoff) rows)"
    by (metis mset_filter size_mset)
  have dv: "distinct (visit rows)" "set (visit rows) = set rows"
    using ms assms(2) by (metis mset_eq_imp_distinct_iff, metis mset_eq_setD)
  have vs: "distinct vs" "set vs \<subseteq> set rows" "\<forall>v \<in> set vs. expired cutoff v"
    using dv set_take_subset [of limit "filter (expired cutoff) (visit rows)"] by (auto simp: vs_def)
  have n: "n = min limit (length (filter (expired cutoff) rows))" by (simp add: r(2) vs_def len)
  have split: "length (filter P xs) = length (filter P (filter (\<lambda>x. x \<notin> set vs) xs)) + length (filter (\<lambda>x. P x \<and> x \<in> set vs) xs)"
    for P and xs :: "health_row list"
    by (induction xs) auto
  have inter: "length (filter (\<lambda>x. P x \<and> x \<in> set vs) rows) = n" if "\<forall>v \<in> set vs. P v" for P
  proof -
    have "set (filter (\<lambda>x. P x \<and> x \<in> set vs) rows) = set vs" using that vs(2) by auto
    then show ?thesis using vs(1) assms(2) by (metis distinct_card distinct_filter r(2))
  qed
  have "filter (\<lambda>r. \<not> expired cutoff r) rows' = filter (\<lambda>r. \<not> expired cutoff r) rows"
    unfolding r(1) filter_filter using vs(3) by (intro filter_cong) auto
  then show ?thesis
    using assms(2) n split [of "expired cutoff" rows] inter [OF vs(3)] split [of "\<lambda>_. True" rows] inter [of "\<lambda>_. True"]
    by (auto simp: r(1))
qed

lemma sweep_batches_effect:
  assumes "visits_all visit" "0 < b" "distinct rows" "sweep_batches visit fails cutoff b i k rows d = (rows', d')"
  shows "filter (\<lambda>r. \<not> expired cutoff r) rows' = filter (\<lambda>r. \<not> expired cutoff r) rows \<and> set rows' \<subseteq> set rows \<and>
    length rows = length rows' + (d' - d) \<and> d \<le> d' \<and> d' - d \<le> k * b \<and>
    ((\<forall>j \<ge> i. \<not> fails j) \<longrightarrow> d' - d = min (k * b) (length (filter (expired cutoff) rows)))"
  using assms(3,4)
proof (induction k arbitrary: i rows d)
  case (Suc k)
  obtain rows1 n where one: "retention_delete visit cutoff b rows = (rows1, n)" by (cases "retention_delete visit cutoff b rows")
  note eff = retention_delete_effect [OF assms(1) Suc.prems(1) one]
  show ?case
  proof (cases "fails i \<or> n < b")
    case True
    then consider (failed) "fails i" | (short) "\<not> fails i" "n < b" by blast
    then show ?thesis
    proof cases
      case failed
      then show ?thesis using Suc.prems(2) by auto
    next
      case short
      then have r: "rows' = rows1" "d' = d + n" using Suc.prems(2) one by simp_all
      have "n = min b (length (filter (expired cutoff) rows))" using eff by blast
      then have "n = length (filter (expired cutoff) rows)" using short(2) by linarith
      moreover have "n \<le> Suc k * b" using short(2) by simp
      ultimately have "d' - d = min (Suc k * b) (length (filter (expired cutoff) rows))" "d' - d \<le> Suc k * b" "d \<le> d'" "d' - d = n"
        by (simp_all add: r(2))
      then show ?thesis using eff unfolding r(1) by blast
    qed
  next
    case False
    have "n = min b (length (filter (expired cutoff) rows))" using eff by blast
    then have n: "n = b" using False by linarith
    have lens: "length (filter (expired cutoff) rows) = length (filter (expired cutoff) rows1) + n" "length rows = length rows1 + n"
      using eff by blast+
    have step: "sweep_batches visit fails cutoff b (Suc i) k rows1 (d + b) = (rows', d')"
      using Suc.prems(2) one False n by simp
    have d1: "distinct rows1" using eff by blast
    note ih = Suc.IH [OF d1 step]
    have len: "length (filter (expired cutoff) rows) = length (filter (expired cutoff) rows1) + b" using lens(1) n by simp
    have "d' - d = min (Suc k * b) (length (filter (expired cutoff) rows))" if "\<forall>j \<ge> i. \<not> fails j"
    proof -
      have "d' - (d + b) = min (k * b) (length (filter (expired cutoff) rows1))" "d + b \<le> d'" using ih that Suc_leD by blast+
      then show ?thesis by (simp add: len)
    qed
    moreover have "set rows' \<subseteq> set rows" using ih eff by blast
    moreover have "filter (\<lambda>r. \<not> expired cutoff r) rows' = filter (\<lambda>r. \<not> expired cutoff r) rows"
      using ih eff by metis
    moreover have "length rows = length rows' + (d' - d) \<and> d \<le> d' \<and> d' - d \<le> Suc k * b"
    proof -
      have "length rows1 = length rows' + (d' - (d + b))" "d + b \<le> d'" "d' - (d + b) \<le> k * b" "length rows = length rows1 + b"
        using ih lens(2) n by blast+
      then show ?thesis by simp
    qed
    ultimately show ?thesis by blast
  qed
qed simp

text \<open>Within the lease no replica starts a second pass.\<close>

lemma lease_excludes:
  assumes "run_engine_health_retention visit fails True now days (r, db) = Inr ((r', db'), n)"
    and "now \<le> now'" "now' < now + HEALTH_RETENTION_INTERVAL_S" "redis_entry now HEALTH_RETENTION_LEASE_KEY r = None"
  shows "run_engine_health_retention visit' fails' True now' days' (r', db'') = Inr ((r', db''), 0)"
proof -
  have "r' = redis_set now HEALTH_RETENTION_LEASE_KEY (PStr ''1'') HEALTH_RETENTION_INTERVAL_S r"
    using assms(1,4) by (auto simp: run_engine_health_retention_def redis_set_nx_def res_bind_eq_Inr)
  then have "redis_entry now' HEALTH_RETENTION_LEASE_KEY r' \<noteq> None" using assms(3) by simp
  then show ?thesis by (auto simp: run_engine_health_retention_def redis_set_nx_def)
qed

section \<open>Advancing\<close>

text \<open>A content counts as re-scanned when one of the newest decided jobs under the current toolchain is about
  it and its verdict is too.\<close>

definition rescanned :: "string \<Rightarrow> nat \<Rightarrow> orch_db \<Rightarrow> gate_db \<Rightarrow> string \<Rightarrow> bool" where
  "rescanned current limit odb gdb ch \<longleftrightarrow>
     (\<exists>s j row. (s, j) \<in> set (decided_under current limit odb) \<and> sj_content_hash j = ch \<and>
        map_of (gd_verdicts gdb) s = Some row \<and> vd_content_hash row = ch)"

definition advanced :: "string \<Rightarrow> nat \<Rightarrow> orch_db \<Rightarrow> gate_db \<Rightarrow> string \<Rightarrow> version_row \<Rightarrow> version_row" where
  "advanced current limit odb gdb ch v =
     (if rescanned current limit odb gdb ch then v\<lparr>sv_toolchain_digest := current\<rparr> else v)"

lemma decided_under_digest: "(s, j) \<in> set (decided_under current limit odb) \<Longrightarrow> sj_toolchain_digest j = current"
  by (auto simp: decided_under_def dest: in_set_takeD)

lemma advance_unfold:
  "advance_scanned_toolchain_digests current limit odb gdb idb =
     (idb\<lparr>db_versions := map (\<lambda>(ch, v). (ch, advanced current limit odb gdb ch v)) (db_versions idb)\<rparr>,
      length (filter (\<lambda>(ch, v). rescanned current limit odb gdb ch \<and> sv_toolchain_digest v \<noteq> current) (db_versions idb)))"
proof -
  define jobs where "jobs = decided_under current limit odb"
  define stale where "stale = set (map fst (filter (\<lambda>(ch, v). ch \<in> set (map (sj_content_hash \<circ> snd) jobs) \<and> sv_toolchain_digest v \<noteq> current) (db_versions idb)))"
  define pending where "pending = filter (\<lambda>(s, j). sj_content_hash j \<in> stale \<and> sj_toolchain_digest j = current) jobs"
  define vc where "vc = (\<lambda>s. if s \<in> set (map fst pending) then map_option vd_content_hash (map_of (gd_verdicts gdb) s) else None)"
  define confirmed where "confirmed = set (map (sj_content_hash \<circ> snd) (filter (\<lambda>(s, j). vc s = Some (sj_content_hash j)) pending))"
  have conf: "ch \<in> confirmed \<longleftrightarrow> rescanned current limit odb gdb ch"
    if row: "(ch, v) \<in> set (db_versions idb)" "sv_toolchain_digest v \<noteq> current" for ch v
  proof
    assume "ch \<in> confirmed"
    then obtain s j where sj: "(s, j) \<in> set pending" "vc s = Some (sj_content_hash j)" "sj_content_hash j = ch"
      by (auto simp: confirmed_def)
    then have "(s, j) \<in> set jobs" by (simp add: pending_def)
    then show "rescanned current limit odb gdb ch"
      using sj unfolding rescanned_def jobs_def vc_def by (auto split: if_splits)
  next
    assume "rescanned current limit odb gdb ch"
    then obtain s j r where sj: "(s, j) \<in> set jobs" "sj_content_hash j = ch" "map_of (gd_verdicts gdb) s = Some r" "vd_content_hash r = ch"
      unfolding rescanned_def jobs_def by blast
    then have "ch \<in> set (map (sj_content_hash \<circ> snd) jobs)" by (auto simp: image_iff intro!: bexI [of _ "(s, j)"])
    then have "ch \<in> stale" using row by (auto simp: stale_def image_iff intro!: bexI [of _ "(ch, v)"])
    then have p: "(s, j) \<in> set pending" using sj decided_under_digest by (simp add: pending_def jobs_def)
    then have "s \<in> set (map fst pending)" by force
    then have "vc s = Some (sj_content_hash j)" using sj by (simp add: vc_def)
    then show "ch \<in> confirmed" using p sj(2) by (auto simp: confirmed_def image_iff intro!: bexI [of _ "(s, j)"])
  qed
  have moves: "ch \<in> confirmed \<and> sv_toolchain_digest v \<noteq> current \<longleftrightarrow> rescanned current limit odb gdb ch \<and> sv_toolchain_digest v \<noteq> current"
    if "(ch, v) \<in> set (db_versions idb)" for ch v
    using conf [OF that] by blast
  have "map (\<lambda>(ch, v). if ch \<in> confirmed \<and> sv_toolchain_digest v \<noteq> current then (ch, v\<lparr>sv_toolchain_digest := current\<rparr>) else (ch, v)) (db_versions idb)
      = map (\<lambda>(ch, v). (ch, advanced current limit odb gdb ch v)) (db_versions idb)"
    by (rule map_cong) (auto simp: moves advanced_def)
  moreover have "filter (\<lambda>(ch, v). ch \<in> confirmed \<and> sv_toolchain_digest v \<noteq> current) (db_versions idb) =
      filter (\<lambda>(ch, v). rescanned current limit odb gdb ch \<and> sv_toolchain_digest v \<noteq> current) (db_versions idb)"
    by (rule filter_cong) (auto simp: conf)
  ultimately show ?thesis
    unfolding advance_scanned_toolchain_digests_def Let_def
    by (simp only: jobs_def [symmetric] stale_def [symmetric] pending_def [symmetric] confirmed_def [unfolded vc_def, symmetric] prod.case)
qed

section \<open>Properties\<close>

text \<open>Note: Retention deletes expired telemetry and nothing else. With a finite window, whatever order the server
  visits rows in and whichever statements fail, a pass ends without an error, keeps every health row inside
  the window in its place, touches no other table, deletes at most its budget, and reports the number of
  rows that went; when no statement fails that number is the smaller of the budget and the number of
  expired rows, so a backlog shrinks by the full budget in every pass until none is left.\<close>

theorem retention_prunes_exactly:
  assumes "visits_all visit" "distinct (od_health db)" "0 < b" "retention_cutoff now days = Inr c"
  shows "\<exists>rows n. sweep_engine_health_retention visit fails now days b k db = Inr (db\<lparr>od_health := rows\<rparr>, n) \<and>
    filter (\<lambda>r. \<not> expired c r) rows = filter (\<lambda>r. \<not> expired c r) (od_health db) \<and> set rows \<subseteq> set (od_health db) \<and>
    length (od_health db) = length rows + n \<and> n \<le> k * b \<and>
    ((\<forall>j. \<not> fails j) \<longrightarrow> n = min (k * b) (length (filter (expired c) (od_health db))))"
proof -
  obtain rows n where r: "sweep_batches visit fails c b 0 k (od_health db) 0 = (rows, n)"
    by (cases "sweep_batches visit fails c b 0 k (od_health db) 0")
  have "sweep_engine_health_retention visit fails now days b k db = Inr (db\<lparr>od_health := rows\<rparr>, n)"
    using assms(4) r by (simp add: sweep_engine_health_retention_def)
  then show ?thesis using sweep_batches_effect [OF assms(1,3,2) r] by auto
qed

text \<open>Note: The sweep can raise. A window that reads as a number but is not one, or one that reaches before the
  first year, passes the check of the setting, and computing the cutoff raises outside the handler, after
  the lease was taken.\<close>

theorem retention_window_can_raise:
  "run_engine_health_retention visit fails True now (retention_days (\<lambda>_. Some NaN) (Some ''nan'')) (\<lambda>_. None, db) = Inl ValueError \<and>
   run_engine_health_retention visit fails True 1800000000 (retention_days (\<lambda>_. Some (Fin 1000000)) (Some ''1000000'')) (\<lambda>_. None, db) = Inl OverflowError"
  by (simp add: run_engine_health_retention_def redis_set_nx_def redis_entry_def sweep_engine_health_retention_def
      retention_cutoff_def retention_days_def below_minimum_def MINIMUM_RETENTION_DAYS_def MAX_TIMEDELTA_DAYS_def MIN_DATETIME_def)

text \<open>Note: A version is marked as scanned by the current toolchain only when it was. The digest of a registered
  content becomes the current one exactly when a job among the newest decided under that toolchain is about
  this content and has a verdict about this content; everything else of the row and every other row stay,
  the count is the number of rows that moved, and running it again moves nothing.\<close>

theorem toolchain_advances_exactly_rescanned:
  "map_of (db_versions (fst (advance_scanned_toolchain_digests current limit odb gdb idb))) ch =
     map_option (advanced current limit odb gdb ch) (map_of (db_versions idb) ch) \<and>
   snd (advance_scanned_toolchain_digests current limit odb gdb idb) =
     length (filter (\<lambda>(ch, v). advanced current limit odb gdb ch v \<noteq> v) (db_versions idb)) \<and>
   advance_scanned_toolchain_digests current limit odb gdb (fst (advance_scanned_toolchain_digests current limit odb gdb idb)) =
     (fst (advance_scanned_toolchain_digests current limit odb gdb idb), 0)"
proof -
  have changed: "advanced current limit odb gdb ch v \<noteq> v \<longleftrightarrow> rescanned current limit odb gdb ch \<and> sv_toolchain_digest v \<noteq> current" for ch v
    by (cases v) (auto simp: advanced_def)
  have twice: "advanced current limit odb gdb ch (advanced current limit odb gdb ch v) = advanced current limit odb gdb ch v" for ch v
    by (simp add: advanced_def)
  have look: "map_of (map (\<lambda>(ch, v). (ch, advanced current limit odb gdb ch v)) (db_versions idb)) ch =
      map_option (advanced current limit odb gdb ch) (map_of (db_versions idb) ch)"
    by (rule map_of_map_value)
  show ?thesis
    unfolding advance_unfold fst_conv snd_conv
    using look by (simp add: changed twice comp_def case_prod_unfold filter_empty_conv) (simp add: advanced_def)
qed

text \<open>Note: A tick stops at the first step that raises: the steps before it ran, in their order, and of the later
  ones none does, so the failure of an early step keeps every later duty from running in that tick.\<close>

theorem tick_stops_at_first_error:
  assumes "worker_tick ops s = (s', Inl e)"
  shows "\<exists>pre name f post s1 counts. tick_steps ops = pre @ (name, f) # post \<and>
    run_steps pre initial_counts s = (s1, Inr counts) \<and> f s1 = (s', Inl e)"
proof -
  have "\<exists>pre name f post s1 counts. steps = pre @ (name, f) # post \<and> run_steps pre c s = (s1, Inr counts) \<and> f s1 = (s', Inl e)"
    if "run_steps steps c s = (s', Inl e)" for steps c
    using that
  proof (induction steps arbitrary: c s)
    case (Cons x steps)
    obtain name f where x: "x = (name, f)" by (cases x)
    obtain s1 r where f: "f s = (s1, r)" by (cases "f s")
    show ?case
    proof (cases r)
      case (Inl e')
      then show ?thesis using Cons.prems f x
        by (intro exI [of _ "[]"] exI [of _ name] exI [of _ f] exI [of _ steps] exI [of _ s] exI [of _ c]) simp
    next
      case (Inr n)
      then have "run_steps steps (dict_put name n c) s1 = (s', Inl e)" using Cons.prems f x by simp
      from Cons.IH [OF this] obtain pre name' g post s2 counts where
        "steps = pre @ (name', g) # post" "run_steps pre (dict_put name n c) s1 = (s2, Inr counts)" "g s2 = (s', Inl e)" by blast
      then show ?thesis using Inr f x
        by (intro exI [of _ "x # pre"] exI [of _ name'] exI [of _ g] exI [of _ post] exI [of _ s2] exI [of _ counts]) simp
    qed
  qed simp
  then show ?thesis using assms unfolding worker_tick_def by blast
qed

text \<open>The window is taken over the time a job was created, not decided: a job that is decided after a later
  created one falls outside a full window, and its version is never advanced.\<close>

definition decided_job :: "string \<Rightarrow> real \<Rightarrow> scan_job" where
  "decided_job ch created = \<lparr>sj_content_hash = ch, sj_toolchain_digest = ''new'', sj_cache_key = ch, sj_state = STATE_DECIDED,
     sj_submitter = ''s'', sj_created_at = created, sj_skill_name = None, sj_sandbox_wait_started_at = None, sj_trust_tier = None\<rparr>"

lemma late_decision_outside_window:
  assumes "od_jobs odb = [(''s1'', decided_job ''h1'' 1), (''s2'', decided_job ''h2'' 2)]"
  shows "\<not> rescanned ''new'' 1 odb gdb ''h1''"
  using assms by (simp add: rescanned_def decided_under_def) (simp add: decided_job_def)

section \<open>Witnesses\<close>

definition old_health :: "string \<Rightarrow> real \<Rightarrow> health_row" where
  "old_health engine t = \<lparr>hr_scan_id = ''s'', hr_engine_name = engine, hr_report_state = ''reported'', hr_engine_status = None,
     hr_analyze_duration_ms = None, hr_finding_count = None, hr_error = None, hr_recorded_at = t\<rparr>"

theorem retention_prunes_exactly_witness:
  "\<exists>rows. sweep_engine_health_retention rev (\<lambda>_. False) 2600000 (Fin 26) 1000 20
     (empty_orch\<lparr>od_health := [old_health ''a'' 1, old_health ''b'' 2500000]\<rparr>) =
     Inr (empty_orch\<lparr>od_health := rows\<rparr>, 1) \<and> length rows = 1"
proof -
  let ?db = "empty_orch\<lparr>od_health := [old_health ''a'' 1, old_health ''b'' 2500000]\<rparr>"
  have "visits_all rev" by (simp add: visits_all_def)
  moreover have "distinct (od_health ?db)" by (simp add: old_health_def)
  moreover have "retention_cutoff 2600000 (Fin 26) = Inr 353600"
    by (simp add: retention_cutoff_def MAX_TIMEDELTA_DAYS_def MIN_DATETIME_def)
  moreover have "length (filter (expired 353600) (od_health ?db)) = 1" by (simp add: expired_def old_health_def)
  ultimately show ?thesis
    using retention_prunes_exactly [of rev ?db 1000 2600000 "Fin 26" 353600 "\<lambda>_. False" 20] by auto
qed

definition failing_ops :: "nat tick_ops" where
  "failing_ops = \<lparr>to_reload = (\<lambda>s. (s + 1, Inr 0)), to_sweep_queued = (\<lambda>s. (s + 1, Inr 0)), to_engines = (\<lambda>s. (s + 1, Inl RedisError)),
     to_collect = (\<lambda>s. (s + 1, Inr 0)), to_sweep_waits = (\<lambda>s. (s + 1, Inr 0)), to_lifecycle = (\<lambda>s. (s + 1, Inr 0)),
     to_toolchain = (\<lambda>s. (s + 1, Inr 0)), to_audit_drain = None, to_audit_gauge = (\<lambda>s. (s, Inr 0)), to_relay = None,
     to_reports = (\<lambda>s. (s + 1, Inr 0)), to_retention = (\<lambda>s. (s + 1, Inr 0))\<rparr>"

theorem tick_stops_at_first_error_witness:
  "worker_tick failing_ops 0 = (3, Inl RedisError) \<and>
   (\<exists>pre name f post s1 counts. tick_steps failing_ops = pre @ (name, f) # post \<and>
    run_steps pre initial_counts 0 = (s1, Inr counts) \<and> f s1 = (3, Inl RedisError))"
proof -
  have "worker_tick failing_ops 0 = (3, Inl RedisError)"
    by (simp add: worker_tick_def tick_steps_def failing_ops_def)
  from tick_stops_at_first_error [OF this] this show ?thesis by blast
qed

end
