(* ===== verification/Admin_Access.thy ===== *)
theory Admin_Access
  imports Inventory_Service Redis_Store
begin

text \<open>
  Ways into the administration that do not go through an identity provider: the opaque sessions of
  gateway/auth/redis_session.py, break-glass access (admin/breakglass.py), local accounts
  (admin/local_auth.py, libs/common/password.py) and the management of accounts and group mappings
  (admin/accounts_service.py, admin/models.py). The digest of a token, the JSON codec, the one-time code
  check and the password check are parameters.
\<close>

section \<open>Opaque sessions\<close>

record session_codec =
  sc_sha256 :: "string \<Rightarrow> string"
  sc_dumps :: "pyval \<Rightarrow> string"
  sc_loads :: "string \<Rightarrow> pyval option"

text \<open>What the three kinds of session store: a name, a name with a role, a name with a list of roles. The codec gives
  them back.\<close>

definition session_payload :: "pyval \<Rightarrow> bool" where
  "session_payload v \<longleftrightarrow> (\<exists>s. v = PStr s) \<or> (\<exists>s role. v = PDict [(PStr ''subject'', PStr s), (PStr ''role'', PStr role)]) \<or>
     (\<exists>s roles. v = PDict [(PStr ''subject'', PStr s), (PStr ''roles'', PList (map PStr roles))])"

definition codec_ok :: "session_codec \<Rightarrow> bool" where
  "codec_ok c \<longleftrightarrow> (\<forall>v. session_payload v \<longrightarrow> sc_loads c (sc_dumps c v) = Some v)"

definition storage_key :: "session_codec \<Rightarrow> string \<Rightarrow> string \<Rightarrow> string" where
  "storage_key c prefix token = prefix @ sc_sha256 c token"

text \<open>\<open>token\<close> is the fresh random token the call mints.\<close>

definition create_session :: "session_codec \<Rightarrow> real \<Rightarrow> string \<Rightarrow> real \<Rightarrow> pyval \<Rightarrow> string \<Rightarrow> redis \<Rightarrow> redis" where
  "create_session c now key_prefix ttl_s payload token r =
     redis_set now (storage_key c key_prefix token) (PStr (sc_dumps c payload)) ttl_s r"

definition delete_session :: "session_codec \<Rightarrow> string \<Rightarrow> string \<Rightarrow> redis \<Rightarrow> redis" where
  "delete_session c key_prefix token r = redis_delete (storage_key c key_prefix token) r"

definition resolve_session :: "session_codec \<Rightarrow> real \<Rightarrow> string \<Rightarrow> string \<Rightarrow> redis \<Rightarrow> pyval option" where
  "resolve_session c now key_prefix token r = (case redis_get now (storage_key c key_prefix token) r of
     Some (PStr raw) \<Rightarrow> sc_loads c raw | _ \<Rightarrow> None)"

section \<open>Break-glass\<close>

definition ARMED_KEY :: string where "ARMED_KEY = ''skillscan:admin:breakglass:armed''"
definition USED_KEY :: string where "USED_KEY = ''skillscan:admin:breakglass:used_this_arming''"
definition USED_KEY_TTL_S :: real where "USED_KEY_TTL_S = 3600"

definition is_armed :: "real \<Rightarrow> redis \<Rightarrow> bool" where
  "is_armed now r \<longleftrightarrow> redis_get now ARMED_KEY r \<noteq> None \<and> redis_get now USED_KEY r = None"

text \<open>The guards of an activation, and its two writes, which are separate commands to the store.\<close>

definition activation_guards :: "real \<Rightarrow> string \<Rightarrow> string \<Rightarrow> bool \<Rightarrow> string set \<Rightarrow> redis \<Rightarrow> unit res" where
  "activation_guards now activator_a activator_b totp_ok known_admin_subjects r =
     res_bind (raise_if (activator_a = activator_b) BreakGlassError) (\<lambda>_.
     res_bind (raise_if (activator_b \<notin> known_admin_subjects) BreakGlassError) (\<lambda>_.
     res_bind (raise_if (\<not> totp_ok) BreakGlassError) (\<lambda>_.
     raise_if (is_armed now r) BreakGlassError)))"

definition arm :: "real \<Rightarrow> string \<Rightarrow> string \<Rightarrow> real \<Rightarrow> redis \<Rightarrow> redis" where
  "arm now activator_a activator_b ttl_s r = redis_set now ARMED_KEY (PStr (activator_a @ ''|'' @ activator_b)) ttl_s r"

definition clear_used :: "redis \<Rightarrow> redis" where
  "clear_used r = redis_delete USED_KEY r"

definition activate_breakglass :: "real \<Rightarrow> string \<Rightarrow> string \<Rightarrow> bool \<Rightarrow> string set \<Rightarrow> real \<Rightarrow> redis \<Rightarrow> (redis \<times> (string \<times> string) \<times> real) res" where
  "activate_breakglass now activator_a activator_b totp_ok known_admin_subjects ttl_s r =
     res_bind (activation_guards now activator_a activator_b totp_ok known_admin_subjects r) (\<lambda>_.
       Inr (clear_used (arm now activator_a activator_b ttl_s r), (activator_a, activator_b), now + ttl_s))"

definition deactivate_breakglass :: "redis \<Rightarrow> redis" where
  "deactivate_breakglass r = redis_delete ARMED_KEY r"

definition authenticate_breakglass :: "real \<Rightarrow> string \<Rightarrow> string \<Rightarrow> bool \<Rightarrow> redis \<Rightarrow> redis \<times> bool res" where
  "authenticate_breakglass now supplied_credential expected_credential totp_ok r =
     (if redis_get now ARMED_KEY r = None then (r, Inr False)
      else case redis_set_nx now USED_KEY (PStr ''1'') USED_KEY_TTL_S r of (r', claimed) \<Rightarrow>
        if \<not> claimed then (r', Inr False)
        else (r', res_bind (compare_digest supplied_credential expected_credential) (\<lambda>credential_ok.
          if \<not> credential_ok then Inr False else Inr totp_ok)))"

definition BREAKGLASS_SESSION_PREFIX :: string where "BREAKGLASS_SESSION_PREFIX = ''skillscan:admin:breakglass:session:''"

definition create_breakglass_session :: "session_codec \<Rightarrow> real \<Rightarrow> real \<Rightarrow> string \<Rightarrow> string \<Rightarrow> redis \<Rightarrow> redis" where
  "create_breakglass_session c now ttl_s subject token r = create_session c now BREAKGLASS_SESSION_PREFIX ttl_s (PStr subject) token r"

definition resolve_breakglass_session :: "session_codec \<Rightarrow> real \<Rightarrow> string \<Rightarrow> redis \<Rightarrow> string option" where
  "resolve_breakglass_session c now token r = (case resolve_session c now BREAKGLASS_SESSION_PREFIX token r of
     Some (PStr s) \<Rightarrow> Some s | _ \<Rightarrow> None)"

definition revoke_breakglass_session :: "session_codec \<Rightarrow> string \<Rightarrow> redis \<Rightarrow> redis" where
  "revoke_breakglass_session c token r = delete_session c BREAKGLASS_SESSION_PREFIX token r"

section \<open>Local accounts\<close>

record local_account =
  la_username :: string
  la_password_hash :: string
  la_role :: string
  la_status :: string
  la_created_by :: string
  la_created_at :: real
  la_updated_at :: real

text \<open>The live store returns the active accounts only.\<close>

definition fetch_accounts :: "(nat \<times> local_account) list \<Rightarrow> local_account list" where
  "fetch_accounts rows = filter (\<lambda>a. la_status a = ''active'') (map snd rows)"

definition FAIL_KEY_PREFIX :: string where "FAIL_KEY_PREFIX = ''skillscan:admin:local:failcount:''"
definition LOCKOUT_THRESHOLD :: int where "LOCKOUT_THRESHOLD = 5"
definition LOCKOUT_WINDOW_S :: real where "LOCKOUT_WINDOW_S = 900"

definition fail_key :: "string \<Rightarrow> string" where "fail_key username = FAIL_KEY_PREFIX @ username"

definition is_locked_out :: "real \<Rightarrow> string \<Rightarrow> redis \<Rightarrow> redis \<times> bool" where
  "is_locked_out now username r =
     (case read_in_window now (fail_key username) LOCKOUT_WINDOW_S r of (r', failures, ttl) \<Rightarrow> (r', failures \<ge> LOCKOUT_THRESHOLD))"

definition record_failure :: "real \<Rightarrow> string \<Rightarrow> redis \<Rightarrow> redis res" where
  "record_failure now username r =
     res_bind (incr_in_window now (fail_key username) LOCKOUT_WINDOW_S r) (\<lambda>(r', count, ttl). Inr r')"

definition clear_failures :: "string \<Rightarrow> redis \<Rightarrow> redis" where
  "clear_failures username r = redis_delete (fail_key username) r"

definition authenticate_local ::
  "(string \<Rightarrow> string \<Rightarrow> bool) \<Rightarrow> (nat \<times> local_account) list \<Rightarrow> real \<Rightarrow> string \<Rightarrow> string \<Rightarrow> redis \<Rightarrow> (redis \<times> local_account option) res" where
  "authenticate_local verify_password store now username password r =
     (case is_locked_out now username r of (r1, locked) \<Rightarrow>
        if locked then Inr (r1, None)
        else case List.find (\<lambda>a. la_username a = username) (fetch_accounts store) of
            None \<Rightarrow> res_bind (record_failure now username r1) (\<lambda>r2. Inr (r2, None))
          | Some account \<Rightarrow>
              if \<not> verify_password password (la_password_hash account)
              then res_bind (record_failure now username r1) (\<lambda>r2. Inr (r2, None))
              else Inr (clear_failures username r1, Some account))"

definition LOCAL_SESSION_PREFIX :: string where "LOCAL_SESSION_PREFIX = ''skillscan:admin:local:session:''"

definition create_local_session :: "session_codec \<Rightarrow> real \<Rightarrow> real \<Rightarrow> string \<Rightarrow> string \<Rightarrow> string \<Rightarrow> redis \<Rightarrow> redis" where
  "create_local_session c now ttl_s subject role token r =
     create_session c now LOCAL_SESSION_PREFIX ttl_s (PDict [(PStr ''subject'', PStr subject), (PStr ''role'', PStr role)]) token r"

definition resolve_local_session :: "session_codec \<Rightarrow> real \<Rightarrow> string \<Rightarrow> redis \<Rightarrow> (pyval \<times> pyval) option" where
  "resolve_local_session c now token r = (case resolve_session c now LOCAL_SESSION_PREFIX token r of
     Some (PDict d) \<Rightarrow> (case (map_of d (PStr ''subject''), map_of d (PStr ''role'')) of
         (Some s, Some role) \<Rightarrow> Some (s, role) | _ \<Rightarrow> None)
   | _ \<Rightarrow> None)"

definition revoke_local_session :: "session_codec \<Rightarrow> string \<Rightarrow> redis \<Rightarrow> redis" where
  "revoke_local_session c token r = delete_session c LOCAL_SESSION_PREFIX token r"

text \<open>The accounts of the bootstrap document, refused as a whole on the first fault.\<close>

definition str_field :: "(pyval \<times> pyval) list \<Rightarrow> string \<Rightarrow> string option" where
  "str_field d k = (case map_of d (PStr k) of Some (PStr s) \<Rightarrow> Some s | _ \<Rightarrow> None)"

fun load_account_entries :: "string set \<Rightarrow> string set \<Rightarrow> pyval list \<Rightarrow> (string \<times> string \<times> string) list res" where
  "load_account_entries known_roles seen [] = Inr []"
| "load_account_entries known_roles seen (entry # es) = (case entry of
     PDict d \<Rightarrow> (case (str_field d ''username'', str_field d ''password_hash'', str_field d ''role'') of
         (Some u, Some h, Some role) \<Rightarrow>
           res_bind (raise_if (role \<notin> known_roles) LocalAuthError) (\<lambda>_.
           res_bind (raise_if (u \<in> seen) LocalAuthError) (\<lambda>_.
           res_bind (load_account_entries known_roles (insert u seen) es) (\<lambda>rest. Inr ((u, h, role) # rest))))
       | _ \<Rightarrow> Inl LocalAuthError)
   | _ \<Rightarrow> Inl LocalAuthError)"

definition load_local_accounts_from_json :: "(string \<Rightarrow> pyval option) \<Rightarrow> string set \<Rightarrow> string \<Rightarrow> (string \<times> string \<times> string) list res" where
  "load_local_accounts_from_json loads known_roles raw_json = (case loads raw_json of
     Some (PList entries) \<Rightarrow> load_account_entries known_roles {} entries
   | _ \<Rightarrow> Inl LocalAuthError)"

section \<open>Managing accounts\<close>

record group_role_row =
  gr_role :: string
  gr_updated_by :: string
  gr_updated_at :: real

record admin_db =
  am_accounts :: "(nat \<times> local_account) list"
  am_mappings :: "(string \<times> group_role_row) list"
  am_intents :: "intent_row list"

definition MIN_PASSWORD_LENGTH :: nat where "MIN_PASSWORD_LENGTH = 12"
definition ACCOUNT_STATUSES :: "string set" where "ACCOUNT_STATUSES = {''active'', ''disabled''}"

definition validate_role :: "string set \<Rightarrow> string \<Rightarrow> unit res" where
  "validate_role known_roles role = raise_if (role \<notin> known_roles) AdminAccountError"

definition validate_password :: "string \<Rightarrow> unit res" where
  "validate_password password = raise_if (length password < MIN_PASSWORD_LENGTH) AdminAccountError"

definition blank :: "string \<Rightarrow> bool" where
  "blank s \<longleftrightarrow> py_strip s = []"

definition create_account ::
  "(string \<Rightarrow> string) \<Rightarrow> real \<Rightarrow> string \<Rightarrow> string \<Rightarrow> string \<Rightarrow> string \<Rightarrow> string set \<Rightarrow> admin_db \<Rightarrow> (local_account \<times> admin_db) res" where
  "create_account hash_password now username role initial_password created_by known_roles db =
     res_bind (raise_if (blank username) AdminAccountError) (\<lambda>_.
     res_bind (validate_role known_roles role) (\<lambda>_.
     res_bind (validate_password initial_password) (\<lambda>_.
     res_bind (raise_if (username \<in> la_username ` snd ` set (am_accounts db)) AdminAccountError) (\<lambda>_.
       (let row = \<lparr>la_username = username, la_password_hash = hash_password initial_password, la_role = role,
              la_status = ''active'', la_created_by = created_by, la_created_at = now, la_updated_at = now\<rparr>
        in Inr (row, db\<lparr>am_accounts := am_accounts db @ [(Suc (length (am_accounts db)), row)],
             am_intents := am_intents db @ [\<lparr>ai_operator = created_by, ai_action = ''local_account_created'',
               ai_payload = [(''username'', PStr username), (''role'', PStr role)]\<rparr>]\<rparr>))))))"

definition active_admin :: "local_account \<Rightarrow> bool" where
  "active_admin a \<longleftrightarrow> la_role a = ''admin'' \<and> la_status a = ''active''"

definition change_entry :: "string \<Rightarrow> string \<Rightarrow> string \<Rightarrow> pyval \<times> pyval" where
  "change_entry field old new = (PStr field, PDict [(PStr ''from'', PStr old), (PStr ''to'', PStr new)])"

text \<open>A transaction reads the snapshot \<open>seen\<close> and writes the row and the intent to the current tables
  \<open>db\<close>; run alone, the two are the same.\<close>

definition set_account_role_status ::
  "real \<Rightarrow> nat \<Rightarrow> string option \<Rightarrow> string option \<Rightarrow> string \<Rightarrow> string set \<Rightarrow> admin_db \<Rightarrow> admin_db \<Rightarrow> (local_account \<times> admin_db) res" where
  "set_account_role_status now account_id role status actor known_roles seen db =
     res_bind (raise_if (role = None \<and> status = None) AdminAccountError) (\<lambda>_.
     res_bind (raise_if (case status of None \<Rightarrow> False | Some st \<Rightarrow> st \<notin> ACCOUNT_STATUSES) AdminAccountError) (\<lambda>_.
     case map_of (am_accounts seen) account_id of
       None \<Rightarrow> Inl AdminAccountError
     | Some row \<Rightarrow>
         (let demoting_admin = (case role of None \<Rightarrow> False | Some r \<Rightarrow> r \<noteq> ''admin'');
              disabling = (case status of None \<Rightarrow> False | Some st \<Rightarrow> st \<noteq> ''active'');
              others = filter (\<lambda>(i, a). active_admin a \<and> i \<noteq> account_id) (am_accounts seen)
          in res_bind (raise_if (active_admin row \<and> (demoting_admin \<or> disabling) \<and> others = []) AdminAccountError) (\<lambda>_.
             (let new_role = (case role of None \<Rightarrow> la_role row | Some r \<Rightarrow> r);
                  new_status = (case status of None \<Rightarrow> la_status row | Some st \<Rightarrow> st)
              in res_bind (if new_role \<noteq> la_role row then validate_role known_roles new_role else Inr ()) (\<lambda>_.
                 if new_role = la_role row \<and> new_status = la_status row then Inr (row, db)
                 else (let row' = row\<lparr>la_role := new_role, la_status := new_status, la_updated_at := now\<rparr>;
                           changes = (if new_role \<noteq> la_role row then [change_entry ''role'' (la_role row) new_role] else []) @
                             (if new_status \<noteq> la_status row then [change_entry ''status'' (la_status row) new_status] else [])
                       in Inr (row', db\<lparr>am_accounts := dict_put account_id row' (am_accounts db),
                            am_intents := am_intents db @ [\<lparr>ai_operator = actor, ai_action = ''local_account_updated'',
                              ai_payload = [(''account_id'', PInt (int account_id)), (''username'', PStr (la_username row)),
                                (''changes'', PDict changes)]\<rparr>]\<rparr>))))))))"

definition reset_password :: "(string \<Rightarrow> string) \<Rightarrow> real \<Rightarrow> nat \<Rightarrow> string \<Rightarrow> string \<Rightarrow> admin_db \<Rightarrow> admin_db res" where
  "reset_password hash_password now account_id new_password actor db =
     res_bind (validate_password new_password) (\<lambda>_.
     case map_of (am_accounts db) account_id of
       None \<Rightarrow> Inl AdminAccountError
     | Some row \<Rightarrow> Inr (db
         \<lparr>am_accounts := dict_put account_id (row\<lparr>la_password_hash := hash_password new_password, la_updated_at := now\<rparr>) (am_accounts db),
          am_intents := am_intents db @ [\<lparr>ai_operator = actor, ai_action = ''local_account_password_reset'',
            ai_payload = [(''account_id'', PInt (int account_id)), (''username'', PStr (la_username row))]\<rparr>]\<rparr>))"

definition upsert_group_role_mapping :: "real \<Rightarrow> string \<Rightarrow> string \<Rightarrow> string \<Rightarrow> string set \<Rightarrow> admin_db \<Rightarrow> admin_db res" where
  "upsert_group_role_mapping now group_name role actor known_roles db =
     res_bind (raise_if (blank group_name) AdminAccountError) (\<lambda>_.
     res_bind (validate_role known_roles role) (\<lambda>_.
     Inr (db\<lparr>am_mappings := dict_put group_name \<lparr>gr_role = role, gr_updated_by = actor, gr_updated_at = now\<rparr> (am_mappings db),
       am_intents := am_intents db @ [\<lparr>ai_operator = actor, ai_action = ''group_role_map_updated'',
         ai_payload = [(''group_name'', PStr group_name),
           (''from_role'', case map_of (am_mappings db) group_name of None \<Rightarrow> PNone | Some r \<Rightarrow> PStr (gr_role r)), (''to_role'', PStr role)]\<rparr>]\<rparr>)))"

definition delete_group_role_mapping :: "string \<Rightarrow> string \<Rightarrow> admin_db \<Rightarrow> admin_db res" where
  "delete_group_role_mapping group_name actor db = (case map_of (am_mappings db) group_name of
     None \<Rightarrow> Inl AdminAccountError
   | Some row \<Rightarrow> Inr (db\<lparr>am_mappings := filter (\<lambda>(g, r). g \<noteq> group_name) (am_mappings db),
       am_intents := am_intents db @ [\<lparr>ai_operator = actor, ai_action = ''group_role_map_removed'',
         ai_payload = [(''group_name'', PStr group_name), (''from_role'', PStr (gr_role row))]\<rparr>]\<rparr>))"

section \<open>Sessions end by expiry or revocation\<close>

lemma session_roundtrip:
  assumes "codec_ok c" "session_payload v" "t < now + ttl_s"
  shows "resolve_session c t p token (create_session c now p ttl_s v token r) = Some v"
  using assms by (simp add: resolve_session_def create_session_def codec_ok_def)

lemma session_expires: "now + ttl_s \<le> t \<Longrightarrow> resolve_session c t p token (create_session c now p ttl_s v token r) = None"
  by (simp add: resolve_session_def create_session_def)

lemma session_revoked: "resolve_session c t p token (delete_session c p token r) = None"
  by (simp add: resolve_session_def delete_session_def)

text \<open>The role of a local session is the one stored at login, whatever happened to the account since.\<close>

lemma local_session_keeps_role:
  "codec_ok c \<Longrightarrow> t < now + ttl_s \<Longrightarrow>
     resolve_local_session c t token (create_local_session c now ttl_s subject role token r) = Some (PStr subject, PStr role)"
  by (simp add: resolve_local_session_def create_local_session_def session_roundtrip session_payload_def)

lemma breakglass_session_roundtrip:
  "codec_ok c \<Longrightarrow> t < now + ttl_s \<Longrightarrow>
     resolve_breakglass_session c t token (create_breakglass_session c now ttl_s subject token r) = Some subject"
  by (simp add: resolve_breakglass_session_def create_breakglass_session_def session_roundtrip session_payload_def)

section \<open>One login per activation\<close>

datatype bg_op = Activate string string bool "string set" real | Login string string bool | Deactivate

text \<open>The store, the activations so far and the logins so far; each operation runs as a whole.\<close>

fun bg_exec :: "real \<times> bg_op \<Rightarrow> redis \<times> nat \<times> nat \<Rightarrow> redis \<times> nat \<times> nat" where
  "bg_exec (t, Activate a b ok known ttl) (r, n, l) = (case activate_breakglass t a b ok known ttl r of
     Inl e \<Rightarrow> (r, n, l) | Inr (r', who, expires) \<Rightarrow> (r', Suc n, l))"
| "bg_exec (t, Login cred expected ok) (r, n, l) =
     (case authenticate_breakglass t cred expected ok r of (r', granted) \<Rightarrow> (r', n, if granted = Inr True then Suc l else l))"
| "bg_exec (t, Deactivate) (r, n, l) = (deactivate_breakglass r, n, l)"

lemma keys_differ [simp]: "ARMED_KEY \<noteq> USED_KEY" "USED_KEY \<noteq> ARMED_KEY"
  by (simp_all add: ARMED_KEY_def USED_KEY_def)

text \<open>An arming ends before the mark of its use does, and at most one login is still to come.\<close>

definition ends :: "entry \<Rightarrow> real \<Rightarrow> bool" where
  "ends e x \<longleftrightarrow> en_expires e = Some x"

definition bg_inv :: "real \<Rightarrow> redis \<times> nat \<times> nat \<Rightarrow> bool" where
  "bg_inv t = (\<lambda>(r, n, l). l + (if is_armed t r then 1 else 0) \<le> n \<and>
     (\<forall>e. r ARMED_KEY = Some e \<longrightarrow> (\<exists>x. ends e x \<and> x \<le> t + USED_KEY_TTL_S)) \<and>
     (\<forall>e u. r ARMED_KEY = Some e \<longrightarrow> r USED_KEY = Some u \<longrightarrow> (\<exists>x y. ends e x \<and> ends u y \<and> x \<le> y)))"

lemma is_armed_iff:
  "is_armed t r \<longleftrightarrow> (\<exists>e. r ARMED_KEY = Some e \<and> live t e) \<and> \<not> (\<exists>u. r USED_KEY = Some u \<and> live t u)"
  by (auto simp: is_armed_def redis_get_def redis_entry_def split: option.splits)

lemma live_ends: "ends e x \<Longrightarrow> live t e \<longleftrightarrow> t < x"
  by (simp add: live_def ends_def)

lemma bg_inv_later:
  assumes "bg_inv t (r, n, l)" "t \<le> t'"
  shows "bg_inv t' (r, n, l)"
proof -
  have "is_armed t r" if armed: "is_armed t' r"
  proof -
    obtain e where e: "r ARMED_KEY = Some e" "live t' e" using armed by (auto simp: is_armed_iff)
    obtain x where x: "ends e x" using assms(1) e(1) by (auto simp: bg_inv_def)
    have "r USED_KEY = None"
    proof (rule ccontr)
      assume "r USED_KEY \<noteq> None"
      then obtain u where u: "r USED_KEY = Some u" by blast
      then obtain y where "ends u y" "x \<le> y" using assms(1) e(1) x by (auto simp: bg_inv_def ends_def)
      then have "live t' u" using live_ends [OF x] live_ends [of u y] e(2) by simp
      then show False using armed u by (auto simp: is_armed_iff)
    qed
    then show ?thesis using e live_ends [OF x] assms(2) by (auto simp: is_armed_iff)
  qed
  moreover have "\<exists>x. ends e x \<and> x \<le> t' + USED_KEY_TTL_S" if "r ARMED_KEY = Some e" for e
    using assms that unfolding bg_inv_def by (smt (verit, best) case_prodD)
  ultimately show ?thesis using assms(1) by (auto simp: bg_inv_def split: if_splits)
qed

lemma bg_exec_inv:
  assumes "bg_inv t (r, n, l)" "\<And>a b ok known ttl. op = Activate a b ok known ttl \<Longrightarrow> ttl \<le> USED_KEY_TTL_S"
  shows "bg_inv t (bg_exec (t, op) (r, n, l))"
proof (cases op)
  case (Activate a b ok known ttl)
  show ?thesis
  proof (cases "activation_guards t a b ok known r")
    case (Inl e)
    then show ?thesis using assms(1) by (simp add: Activate activate_breakglass_def)
  next
    case (Inr u)
    then have "\<not> is_armed t r" by (simp add: activation_guards_def res_bind_eq_Inr)
    then have "l \<le> n" using assms(1) by (simp add: bg_inv_def)
    then show ?thesis using Inr assms(2) [OF Activate]
      by (simp add: Activate activate_breakglass_def bg_inv_def clear_used_def arm_def redis_delete_def redis_set_def ends_def)
  qed
next
  case (Login cred expected ok)
  show ?thesis
  proof (cases "is_armed t r")
    case True
    then obtain e where e: "r ARMED_KEY = Some e" "live t e" by (auto simp: is_armed_iff)
    obtain x where x: "ends e x" "x \<le> t + USED_KEY_TTL_S" using assms(1) e(1) by (auto simp: bg_inv_def)
    have "Suc l \<le> n" using assms(1) True by (simp add: bg_inv_def)
    moreover have claim: "\<exists>g. authenticate_breakglass t cred expected ok r = (redis_set t USED_KEY (PStr ''1'') USED_KEY_TTL_S r, g)"
      using True by (auto simp: authenticate_breakglass_def is_armed_def redis_set_nx_def redis_get_def)
    moreover have "\<not> is_armed t (redis_set t USED_KEY (PStr ''1'') USED_KEY_TTL_S r)"
      by (simp add: is_armed_def USED_KEY_TTL_S_def)
    ultimately show ?thesis using e x
      by (auto simp: Login bg_inv_def redis_set_def ends_def)
  next
    case False
    then have "authenticate_breakglass t cred expected ok r = (r, Inr False)"
      by (auto simp: authenticate_breakglass_def is_armed_def redis_set_nx_def redis_get_def)
    then show ?thesis using assms(1) by (simp add: Login)
  qed
next
  case Deactivate
  then show ?thesis using assms(1)
    by (auto simp: bg_inv_def deactivate_breakglass_def redis_delete_def is_armed_iff split: if_splits)
qed

lemma bg_run_inv:
  assumes "bg_inv t0 s" "sorted (map fst ops)" "\<forall>x \<in> set ops. t0 \<le> fst x"
    and "\<And>t a b ok known ttl. (t, Activate a b ok known ttl) \<in> set ops \<Longrightarrow> ttl \<le> USED_KEY_TTL_S"
  shows "\<exists>t. bg_inv t (fold bg_exec ops s)"
  using assms
proof (induction ops arbitrary: t0 s)
  case (Cons x ops)
  obtain t op where x: "x = (t, op)" by (cases x)
  obtain r n l where s: "s = (r, n, l)" by (cases s)
  have "bg_inv t (r, n, l)" using bg_inv_later Cons.prems(1,3) by (auto simp: x s)
  then have "bg_inv t (bg_exec (t, op) (r, n, l))"
  proof (rule bg_exec_inv)
    fix a b ok known ttl
    assume "op = Activate a b ok known ttl"
    then show "ttl \<le> USED_KEY_TTL_S" using Cons.prems(4) [of t a b ok known ttl] by (simp add: x)
  qed
  moreover have "sorted (map fst ops)" "\<forall>y \<in> set ops. t \<le> fst y" using Cons.prems(2) by (auto simp: x)
  ultimately have "\<exists>u. bg_inv u (fold bg_exec ops (bg_exec (t, op) (r, n, l)))"
    by (rule Cons.IH) (rule Cons.prems(4), rule list.set_intros(2))
  then show ?case by (simp add: x s)
qed auto

text \<open>C32: Break-glass access is single-use. Whatever calls follow one another in time, each run as a
  whole, from a store without an arming and with activation windows of at most an hour, no more
  break-glass logins are granted than activations were accepted.\<close>

theorem breakglass_single_use:
  assumes "r ARMED_KEY = None" "sorted (map fst ops)"
    and "\<And>t a b ok known ttl. (t, Activate a b ok known ttl) \<in> set ops \<Longrightarrow> ttl \<le> USED_KEY_TTL_S"
  shows "case fold bg_exec ops (r, 0, 0) of (r', activations, logins) \<Rightarrow> logins \<le> activations"
proof (cases ops)
  case (Cons x xs)
  have "bg_inv (fst x) (r, 0, 0)" using assms(1) by (simp add: bg_inv_def is_armed_iff)
  moreover have "\<forall>y \<in> set ops. fst x \<le> fst y" using assms(2) by (auto simp: Cons)
  ultimately obtain t where "bg_inv t (fold bg_exec ops (r, 0, 0))" using bg_run_inv assms(2,3) by blast
  then show ?thesis by (auto simp: bg_inv_def split: if_splits)
qed simp

theorem breakglass_single_use_witness:
  "let ops = [(10, Activate ''ann'' ''bob'' True {''bob''} 900), (20, Login ''k'' ''k'' True), (30, Login ''k'' ''k'' True)] in
   (case fold bg_exec ops (\<lambda>k. None, 0, 0) of (r', activations, logins) \<Rightarrow> logins \<le> activations) \<and>
   snd (fold bg_exec ops (\<lambda>k. None, 0, 0)) = (1, 1)"
proof -
  let ?ops = "[(10 :: real, Activate ''ann'' ''bob'' True {''bob''} 900), (20, Login ''k'' ''k'' True), (30, Login ''k'' ''k'' True)]"
  have "case fold bg_exec ?ops (\<lambda>k. None, 0, 0) of (r', activations, logins) \<Rightarrow> logins \<le> activations"
    by (rule breakglass_single_use) (auto simp: USED_KEY_TTL_S_def)
  moreover have "snd (fold bg_exec ?ops (\<lambda>k. None, 0, 0)) = (1, 1)"
    by (simp add: activate_breakglass_def activation_guards_def is_armed_def authenticate_breakglass_def redis_set_nx_def
        arm_def clear_used_def redis_get_def redis_entry_def redis_set_def redis_delete_def live_def USED_KEY_TTL_S_def raise_if_def compare_digest_def)
  ultimately show ?thesis by (simp only: Let_def)
qed

text \<open>Note: The two writes of an activation leave a gap: the arming is visible before the mark of an
  earlier use is deleted. A login that falls between them is granted and its mark is deleted again, so that
  a second login is granted on the same activation.\<close>

theorem breakglass_race_two_logins:
  "let r1 = arm 10 ''ann'' ''bob'' 900 (\<lambda>k. None);
       (r2, first) = authenticate_breakglass 11 ''k'' ''k'' True r1;
       (r3, second) = authenticate_breakglass 12 ''k'' ''k'' True (clear_used r2)
   in activation_guards 10 ''ann'' ''bob'' True {''bob''} (\<lambda>k. None) = Inr () \<and> first = Inr True \<and> second = Inr True"
  by (simp add: activation_guards_def is_armed_def authenticate_breakglass_def redis_set_nx_def
      arm_def clear_used_def redis_get_def redis_entry_def redis_set_def redis_delete_def live_def USED_KEY_TTL_S_def raise_if_def compare_digest_def)

section \<open>Guessing a password\<close>

text \<open>A run of failing attempts on one user name, with the number of passwords that were compared.\<close>

fun guesses :: "(string \<Rightarrow> string \<Rightarrow> bool) \<Rightarrow> (nat \<times> local_account) list \<Rightarrow> string \<Rightarrow> (real \<times> string) list \<Rightarrow> redis \<Rightarrow> nat" where
  "guesses verify store u [] r = 0"
| "guesses verify store u ((t, pw) # rest) r =
     (let compared = (if snd (is_locked_out t u r) then 0 else 1)
      in compared + (case authenticate_local verify store t u pw r of
           Inl e \<Rightarrow> 0
         | Inr (r', Some account) \<Rightarrow> 0
         | Inr (r', None) \<Rightarrow> guesses verify store u rest r'))"

lemma fail_counter_fresh:
  assumes "redis_entry t (fail_key u) r = None"
  shows "is_locked_out t u r = (r, False)"
    and "record_failure t u r = Inr (r(fail_key u \<mapsto> \<lparr>en_value = PInt 1, en_expires = Some (t + LOCKOUT_WINDOW_S)\<rparr>))"
  using assms
  by (simp_all add: is_locked_out_def read_in_window_def redis_get_def LOCKOUT_THRESHOLD_def record_failure_def incr_in_window_def
      redis_incr_def redis_ttl_def redis_expire_def redis_entry_def live_def)

lemma fail_counter_running:
  assumes "r (fail_key u) = Some \<lparr>en_value = PInt n, en_expires = Some x\<rparr>" "t < x"
  shows "is_locked_out t u r = (r, n \<ge> LOCKOUT_THRESHOLD)"
    and "record_failure t u r = Inr (r(fail_key u \<mapsto> \<lparr>en_value = PInt (n + 1), en_expires = Some x\<rparr>))"
  using assms
  by (simp_all add: is_locked_out_def read_in_window_def redis_get_def record_failure_def incr_in_window_def
      redis_incr_def redis_ttl_def redis_expire_def redis_entry_def live_def)

lemma authenticate_local_failing:
  assumes "is_locked_out t u r = (r, False)" "record_failure t u r = Inr r'"
  shows "(\<exists>a. authenticate_local verify store t u pw r = Inr (clear_failures u r, Some a)) \<or>
    authenticate_local verify store t u pw r = Inr (r', None)"
  using assms by (auto simp: authenticate_local_def split: option.splits)

lemma authenticate_local_locked:
  "is_locked_out t u r = (r', True) \<Longrightarrow> authenticate_local verify store t u pw r = Inr (r', None)"
  by (simp add: authenticate_local_def)

lemma guesses_running:
  assumes "r (fail_key u) = Some \<lparr>en_value = PInt n, en_expires = Some x\<rparr>" "\<forall>a \<in> set attempts. fst a < x"
  shows "int (guesses verify store u attempts r) \<le> max 0 (LOCKOUT_THRESHOLD - n)"
  using assms
proof (induction attempts arbitrary: r n)
  case (Cons a attempts)
  obtain t pw where a: "a = (t, pw)" by (cases a)
  have t: "t < x" using Cons.prems(2) by (simp add: a)
  show ?case
  proof (cases "n \<ge> LOCKOUT_THRESHOLD")
    case True
    then have "authenticate_local verify store t u pw r = Inr (r, None)"
      using fail_counter_running(1) [where r = r and u = u, OF Cons.prems(1) t] by (simp add: authenticate_local_locked)
    then show ?thesis using Cons.IH [of r n, OF Cons.prems(1)] Cons.prems(2) True
      by (simp add: a fail_counter_running(1) [where r = r and u = u, OF Cons.prems(1) t])
  next
    case False
    let ?r = "r(fail_key u \<mapsto> \<lparr>en_value = PInt (n + 1), en_expires = Some x\<rparr>)"
    have rest: "int (guesses verify store u attempts ?r) \<le> max 0 (LOCKOUT_THRESHOLD - (n + 1))"
      by (rule Cons.IH) (use Cons.prems(2) in auto)
    have open_now: "is_locked_out t u r = (r, False)" using False fail_counter_running(1) [where r = r and u = u, OF Cons.prems(1) t] by simp
    from authenticate_local_failing [OF open_now fail_counter_running(2) [where r = r and u = u, OF Cons.prems(1) t], of verify store pw]
    show ?thesis using rest False by (auto simp: a open_now)
  qed
qed simp

text \<open>Note: Five passwords, no more. From a store without failures counted for a user name, whatever
  is tried on it within the window that the first failure opens, at most five passwords are compared with
  the account; every later attempt is refused without looking at the password, the right one included.\<close>

theorem local_login_guesses_bounded:
  assumes "redis_entry t0 (fail_key u) r = None" "\<forall>a \<in> set attempts. fst a < t0 + LOCKOUT_WINDOW_S"
  shows "int (guesses verify store u ((t0, pw) # attempts) r) \<le> LOCKOUT_THRESHOLD"
proof -
  let ?r = "r(fail_key u \<mapsto> \<lparr>en_value = PInt 1, en_expires = Some (t0 + LOCKOUT_WINDOW_S)\<rparr>)"
  have "int (guesses verify store u attempts ?r) \<le> max 0 (LOCKOUT_THRESHOLD - 1)"
    by (rule guesses_running [where r = ?r]) (use assms(2) in auto)
  with authenticate_local_failing [OF fail_counter_fresh [OF assms(1)], of verify store pw]
  show ?thesis by (auto simp: fail_counter_fresh(1) [OF assms(1)] LOCKOUT_THRESHOLD_def)
qed

definition ann :: local_account where
  "ann = \<lparr>la_username = ''ann'', la_password_hash = ''h'', la_role = ''admin'', la_status = ''active'',
     la_created_by = ''setup'', la_created_at = 0, la_updated_at = 0\<rparr>"

theorem local_login_guesses_bounded_witness:
  "redis_entry 0 (fail_key ''ann'') (\<lambda>k. None) = None \<and>
   int (guesses (\<lambda>pw h. pw = h) [(1, ann)] ''ann'' ((0, ''a'') # [(1, ''b''), (2, ''c''), (3, ''d''), (4, ''e''), (5, ''h''), (6, ''h'')]) (\<lambda>k. None))
     \<le> LOCKOUT_THRESHOLD"
proof -
  have e: "redis_entry 0 (fail_key ''ann'') (\<lambda>k. None) = None" by (simp add: redis_entry_def)
  have t: "\<forall>a \<in> set [(1 :: real, ''b''), (2, ''c''), (3, ''d''), (4, ''e''), (5, ''h''), (6, ''h'')]. fst a < 0 + LOCKOUT_WINDOW_S"
    by (simp add: LOCKOUT_WINDOW_S_def)
  show ?thesis using e local_login_guesses_bounded [OF e t] by blast
qed

section \<open>An administrator remains\<close>

datatype account_op =
    CreateAccount string string string string
  | SetRoleStatus nat "string option" "string option" string
  | ResetPassword nat string string

text \<open>The account operations, each in a transaction of its own that nothing overlaps.\<close>

definition account_step :: "(string \<Rightarrow> string) \<Rightarrow> string set \<Rightarrow> real \<times> account_op \<Rightarrow> admin_db \<Rightarrow> admin_db" where
  "account_step hash known = (\<lambda>(now, op) db. case op of
     CreateAccount u role pw by \<Rightarrow> (case create_account hash now u role pw by known db of Inl e \<Rightarrow> db | Inr (row, db') \<Rightarrow> db')
   | SetRoleStatus i role status by \<Rightarrow> (case set_account_role_status now i role status by known db db of Inl e \<Rightarrow> db | Inr (row, db') \<Rightarrow> db')
   | ResetPassword i pw by \<Rightarrow> (case reset_password hash now i pw by db of Inl e \<Rightarrow> db | Inr db' \<Rightarrow> db'))"

definition has_admin :: "admin_db \<Rightarrow> bool" where
  "has_admin db \<longleftrightarrow> (\<exists>i a. map_of (am_accounts db) i = Some a \<and> active_admin a)"

definition serial_ids :: "admin_db \<Rightarrow> bool" where
  "serial_ids db \<longleftrightarrow> map fst (am_accounts db) = [1..<Suc (length (am_accounts db))]"

lemma update_known: "map_of d k = Some v \<Longrightarrow> map fst (dict_put k w d) = map fst d"
  by (auto simp: update_keys dest: map_of_SomeD intro: rev_image_eqI)

lemma serial_ids_update: "serial_ids db \<Longrightarrow> map_of (am_accounts db) k = Some v \<Longrightarrow> serial_ids (db\<lparr>am_accounts := dict_put k w (am_accounts db)\<rparr>)"
  using update_known [of "am_accounts db" k v w] map_eq_imp_length_eq [of fst "dict_put k w (am_accounts db)" fst "am_accounts db"]
  by (simp add: serial_ids_def)

lemma create_account_accounts:
  assumes "create_account hash now u role pw by known db = Inr (row, db')"
  shows "am_accounts db' = am_accounts db @ [(Suc (length (am_accounts db)), row)]"
  using assms by (auto simp: create_account_def res_bind_eq_Inr Let_def)

lemma set_role_status_accounts:
  assumes "set_account_role_status now i role status by known db db = Inr (row, db')"
  shows "am_accounts db' = am_accounts db \<or>
    (\<exists>old. map_of (am_accounts db) i = Some old \<and> am_accounts db' = dict_put i row (am_accounts db) \<and>
      (active_admin old \<longrightarrow> active_admin row \<or> (\<exists>(j, b) \<in> set (am_accounts db). active_admin b \<and> j \<noteq> i)))"
proof -
  let ?others = "filter (\<lambda>(j, a). active_admin a \<and> j \<noteq> i) (am_accounts db)"
  obtain old where old: "map_of (am_accounts db) i = Some old"
    using assms by (cases "map_of (am_accounts db) i") (auto simp: set_account_role_status_def res_bind_eq_Inr)
  define nr where "nr = (case role of None \<Rightarrow> la_role old | Some r \<Rightarrow> r)"
  define ns where "ns = (case status of None \<Rightarrow> la_status old | Some st \<Rightarrow> st)"
  have change: "am_accounts db' = am_accounts db \<or> am_accounts db' = dict_put i row (am_accounts db) \<and>
      la_role row = nr \<and> la_status row = ns"
    using assms unfolding set_account_role_status_def Let_def old option.case nr_def [symmetric] ns_def [symmetric]
    by (auto simp: res_bind_eq_Inr split: if_splits)
  have guard: "\<not> (active_admin old \<and> ((case role of None \<Rightarrow> False | Some r \<Rightarrow> r \<noteq> ''admin'') \<or>
      (case status of None \<Rightarrow> False | Some st \<Rightarrow> st \<noteq> ''active'')) \<and> ?others = [])"
    using assms unfolding set_account_role_status_def Let_def old option.case by (auto simp: res_bind_eq_Inr raise_if_def split: if_splits)
  have "\<exists>(j, b) \<in> set (am_accounts db). active_admin b \<and> j \<noteq> i"
    if "active_admin old" "\<not> active_admin row" "la_role row = nr" "la_status row = ns"
  proof -
    have "?others \<noteq> []" using guard that by (auto simp: active_admin_def nr_def ns_def split: option.splits)
    then show ?thesis by (auto simp: filter_empty_conv)
  qed
  then show ?thesis using change old by blast
qed

lemma reset_password_accounts:
  assumes "reset_password hash now i pw by db = Inr db'"
  shows "\<exists>old row. map_of (am_accounts db) i = Some old \<and> am_accounts db' = dict_put i row (am_accounts db) \<and>
    active_admin row = active_admin old"
  using assms by (auto simp: reset_password_def res_bind_eq_Inr active_admin_def split: option.splits)

lemma replaced_account:
  assumes "serial_ids db" "has_admin db" "map_of (am_accounts db) i = Some old" "am_accounts db' = dict_put i row (am_accounts db)"
    and "active_admin old \<Longrightarrow> active_admin row \<or> (\<exists>(j, b) \<in> set (am_accounts db). active_admin b \<and> j \<noteq> i)"
  shows "serial_ids db' \<and> has_admin db'"
proof
  show "serial_ids db'" using serial_ids_update [OF assms(1,3), of row] assms(4) by (simp add: serial_ids_def)
  have lookup: "map_of (am_accounts db') = (map_of (am_accounts db))(i \<mapsto> row)" by (simp add: assms(4) update_conv')
  have distinct: "distinct (map fst (am_accounts db))" using assms(1) by (simp add: serial_ids_def)
  obtain k a where a: "map_of (am_accounts db) k = Some a" "active_admin a" using assms(2) by (auto simp: has_admin_def)
  show "has_admin db'"
  proof (cases "k = i \<and> \<not> active_admin row")
    case True
    then have "active_admin old" using a assms(3) by simp
    then obtain j b where "(j, b) \<in> set (am_accounts db)" "active_admin b" "j \<noteq> i" using assms(5) True by blast
    then show ?thesis using distinct by (auto simp: has_admin_def lookup intro!: exI [of _ j])
  next
    case False
    then show ?thesis using a by (auto simp: has_admin_def lookup intro!: exI [of _ k])
  qed
qed

lemma account_step_keeps:
  assumes "serial_ids db" "has_admin db"
  shows "serial_ids (account_step hash known (now, op) db) \<and> has_admin (account_step hash known (now, op) db)"
proof (cases op)
  case (CreateAccount u role pw who)
  show ?thesis
  proof (cases "create_account hash now u role pw who known db")
    case (Inr p)
    obtain row db' where p: "p = (row, db')" by (cases p)
    have acc: "am_accounts db' = am_accounts db @ [(Suc (length (am_accounts db)), row)]"
      using create_account_accounts Inr unfolding p .
    have "account_step hash known (now, op) db = db'" using Inr by (simp add: CreateAccount account_step_def p)
    moreover have "serial_ids db'" using assms(1) by (simp add: serial_ids_def acc)
    moreover have "has_admin db'"
    proof -
      obtain k a where "map_of (am_accounts db) k = Some a" "active_admin a" using assms(2) unfolding has_admin_def by blast
      then have "map_of (am_accounts db') k = Some a \<and> active_admin a" by (simp only: acc map_of_append map_add_Some_iff) simp
      then show ?thesis unfolding has_admin_def by blast
    qed
    ultimately show ?thesis by (simp only: simp_thms)
  qed (use assms in \<open>simp add: CreateAccount account_step_def\<close>)
next
  case (SetRoleStatus i role status who)
  show ?thesis
  proof (cases "set_account_role_status now i role status who known db db")
    case (Inr p)
    obtain row db' where p: "p = (row, db')" by (cases p)
    have step: "account_step hash known (now, op) db = db'" using Inr by (simp add: SetRoleStatus account_step_def p)
    consider "am_accounts db' = am_accounts db"
      | old where "map_of (am_accounts db) i = Some old" "am_accounts db' = dict_put i row (am_accounts db)"
        "active_admin old \<Longrightarrow> active_admin row \<or> (\<exists>(j, b) \<in> set (am_accounts db). active_admin b \<and> j \<noteq> i)"
      using set_role_status_accounts Inr unfolding p by blast
    then show ?thesis
    proof cases
      case 1
      then show ?thesis using assms unfolding step by (simp add: serial_ids_def has_admin_def)
    next
      case 2
      then show ?thesis using replaced_account [OF assms] unfolding step by blast
    qed
  qed (use assms in \<open>simp add: SetRoleStatus account_step_def\<close>)
next
  case (ResetPassword i pw who)
  show ?thesis
  proof (cases "reset_password hash now i pw who db")
    case (Inr db')
    have step: "account_step hash known (now, op) db = db'" using Inr by (simp add: ResetPassword account_step_def)
    obtain old row where "map_of (am_accounts db) i = Some old" "am_accounts db' = dict_put i row (am_accounts db)"
      "active_admin row = active_admin old" using reset_password_accounts [OF Inr] by blast
    then show ?thesis using replaced_account [OF assms] unfolding step by blast
  qed (use assms in \<open>simp add: ResetPassword account_step_def\<close>)
qed

text \<open>Note: The console never loses its last administrator. Whatever accounts are created, changed or
  disabled and whatever passwords are reset, one transaction after the other, an active administrator
  account remains.\<close>

theorem an_active_admin_remains:
  assumes "serial_ids db" "has_admin db"
  shows "has_admin (fold (account_step hash known) ops db)"
proof -
  have "serial_ids (fold (account_step hash known) ops db) \<and> has_admin (fold (account_step hash known) ops db)"
    using assms by (induction ops arbitrary: db) (auto simp: account_step_keeps)
  then show ?thesis ..
qed

definition two_admins :: admin_db where
  "two_admins = \<lparr>am_accounts = [(1, ann), (2, ann\<lparr>la_username := ''bob''\<rparr>)], am_mappings = [], am_intents = []\<rparr>"

theorem an_active_admin_remains_witness:
  "has_admin (fold (account_step (\<lambda>pw. pw) {''admin'', ''auditor''})
     [(1, SetRoleStatus 1 None (Some ''disabled'') ''bob''), (2, SetRoleStatus 2 (Some ''auditor'') None ''bob'')] two_admins)"
  by (rule an_active_admin_remains)
    (auto simp: serial_ids_def has_admin_def two_admins_def ann_def active_admin_def upt_rec intro!: exI [of _ 1])

text \<open>Note: The guard reads the other administrators without locking them. Two transactions that
  overlap, each demoting one of the two remaining administrators, both pass it and both commit, and no
  active administrator is left.\<close>

theorem overlapping_demotions_leave_none:
  "case set_account_role_status 1 1 (Some ''auditor'') None ''bob'' {''admin'', ''auditor''} two_admins two_admins of
     Inl e \<Rightarrow> False
   | Inr (row1, db1) \<Rightarrow>
       (case set_account_role_status 1 2 (Some ''auditor'') None ''ann'' {''admin'', ''auditor''} two_admins db1 of
          Inl e \<Rightarrow> False
        | Inr (row2, db2) \<Rightarrow> has_admin two_admins \<and> \<not> has_admin db2)"
  by (simp add: set_account_role_status_def two_admins_def ann_def active_admin_def raise_if_def validate_role_def has_admin_def
      Let_def) (auto intro: exI [of _ 1])

end
