(* ===== verification/Gateway_Auth.thy ===== *)
theory Gateway_Auth
  imports Admin_Access
begin

text \<open>
  Who a request comes from (gateway/auth): roles from identity provider groups (rbac.py), introspected
  tokens and their cache (session.py), the three machine paths (m2m.py, libs/common/mtls.py), the order in
  which a request is resolved and the role checks (dependencies.py), and the double-submit token of the
  cookie sessions (middleware.py). The identity provider, the token digest, the password check, the text
  decoder and the YAML reader are parameters; base64 and the regular expressions are written out.
\<close>

section \<open>Values\<close>

fun py_truthy :: "pyval \<Rightarrow> bool" where
  "py_truthy PNone = False"
| "py_truthy (PBool b) = b"
| "py_truthy (PInt n) = (n \<noteq> 0)"
| "py_truthy (PFloat x) = (x \<noteq> Fin 0)"
| "py_truthy (PStr s) = (s \<noteq> [])"
| "py_truthy (PList xs) = (xs \<noteq> [])"
| "py_truthy (PDict d) = (d \<noteq> [])"

fun hashable :: "pyval \<Rightarrow> bool" where
  "hashable (PList xs) = False"
| "hashable (PDict d) = False"
| "hashable _ = True"

fun py_iter :: "pyval \<Rightarrow> pyval list res" where
  "py_iter (PList xs) = Inr xs"
| "py_iter (PStr s) = Inr (map (\<lambda>c. PStr [c]) s)"
| "py_iter (PDict d) = Inr (map fst d)"
| "py_iter _ = Inl TypeError"

definition py_frozenset :: "pyval \<Rightarrow> pyval set res" where
  "py_frozenset v = res_bind (py_iter v) (\<lambda>xs. if list_all hashable xs then Inr (set xs) else Inl TypeError)"

definition get_or_none :: "(pyval \<times> pyval) list \<Rightarrow> string \<Rightarrow> pyval" where
  "get_or_none d k = (case map_of d (PStr k) of None \<Rightarrow> PNone | Some v \<Rightarrow> v)"

definition lower_char :: "char \<Rightarrow> char" where
  "lower_char c = (if 65 \<le> (of_char c :: nat) \<and> (of_char c :: nat) \<le> 90 then char_of (of_char c + 32 :: nat) else c)"

section \<open>Roles\<close>

definition DEFAULT_ROLE :: string where "DEFAULT_ROLE = ''submitter''"
definition KNOWN_ROLES :: "string set" where "KNOWN_ROLES = {''submitter'', ''approver'', ''admin'', ''auditor''}"

definition role_of_group :: "(string \<times> string) list \<Rightarrow> pyval \<Rightarrow> string set" where
  "role_of_group group_role_map g = (case g of
     PStr n \<Rightarrow> (case map_of group_role_map n of None \<Rightarrow> {} | Some role \<Rightarrow> if role \<in> KNOWN_ROLES then {role} else {})
   | _ \<Rightarrow> {})"

definition resolve_roles :: "pyval set \<Rightarrow> (string \<times> string) list \<Rightarrow> string set" where
  "resolve_roles groups group_role_map = {DEFAULT_ROLE} \<union> (\<Union>g \<in> groups. role_of_group group_role_map g)"

fun str_pairs :: "(pyval \<times> pyval) list \<Rightarrow> (string \<times> string) list option" where
  "str_pairs [] = Some []"
| "str_pairs ((PStr k, PStr v) # rest) = map_option ((#) (k, v)) (str_pairs rest)"
| "str_pairs _ = None"

text \<open>\<open>contents\<close> is \<open>None\<close> when the file cannot be read; \<open>safe_load\<close> gives \<open>None\<close> on a YAML error.\<close>

definition load_group_role_map :: "(string \<Rightarrow> pyval option) \<Rightarrow> string option \<Rightarrow> (string \<times> string) list res" where
  "load_group_role_map safe_load contents = (case contents of
     None \<Rightarrow> Inl GroupRoleMapLoadError
   | Some t \<Rightarrow> (case safe_load t of
       Some (PDict raw) \<Rightarrow> (case map_of raw (PStr ''group_role_map'') of
           Some (PDict mapping) \<Rightarrow> (case str_pairs mapping of
               None \<Rightarrow> Inl GroupRoleMapLoadError
             | Some m \<Rightarrow> if list_all (\<lambda>(g, role). role \<in> KNOWN_ROLES) m then Inr m else Inl GroupRoleMapLoadError)
         | _ \<Rightarrow> Inl GroupRoleMapLoadError)
     | _ \<Rightarrow> Inl GroupRoleMapLoadError))"

section \<open>Introspected sessions\<close>

record session_context =
  sx_subject :: pyval
  sx_roles :: "pyval set"
  sx_scopes :: "string set"
  sx_tier :: trust_tier
  sx_token_exp :: pfloat
  sx_is_machine :: bool

definition has_role :: "session_context \<Rightarrow> string list \<Rightarrow> bool" where
  "has_role s roles \<longleftrightarrow> sx_roles s \<inter> PStr ` set roles \<noteq> {}"

record m2m_grant =
  mg_scopes :: "string set"
  mg_tier :: trust_tier

record auth_runtime =
  ar_sha256 :: "string \<Rightarrow> string"
  ar_cache_ttl_s :: real
  ar_introspect :: "real \<Rightarrow> string \<Rightarrow> pyval option"
  ar_group_role_map :: "(string \<times> string) list"
  ar_allowed_m2m_service_accounts :: "string set"
  ar_m2m_grants :: "(string \<times> m2m_grant) list"
  ar_codec :: session_codec
  ar_breakglass_redis :: bool
  ar_saml_redis :: bool
  ar_local_redis :: bool
  ar_m2m_basic_redis :: bool
  ar_m2m_basic_accounts :: "(string \<times> string) list"
  ar_verify_password :: "string \<Rightarrow> string \<Rightarrow> bool"
  ar_utf8 :: "string \<Rightarrow> string option"

type_synonym introspection_cache = "string \<Rightarrow> ((pyval \<times> pyval) list \<times> real) option"

record auth_state =
  au_cache :: introspection_cache
  au_redis :: redis
  au_introspection_failures :: nat

text \<open>The readings of the clock during a request: at the lookup, when the identity provider answers, when
  the answer is stored and at the later checks.\<close>

record request_clock =
  rc_get :: real
  rc_answer :: real
  rc_put :: real
  rc_check :: real

type_synonym 'a auth_action = "auth_state \<Rightarrow> auth_state \<times> 'a res"

definition auth_bind :: "'a auth_action \<Rightarrow> ('a \<Rightarrow> 'b res) \<Rightarrow> 'b auth_action" where
  "auth_bind m f st = (case m st of (st', r) \<Rightarrow> (st', res_bind r f))"

definition cache_get :: "auth_runtime \<Rightarrow> real \<Rightarrow> string \<Rightarrow> introspection_cache \<Rightarrow> introspection_cache \<times> (pyval \<times> pyval) list option" where
  "cache_get rt now token c = (case c (ar_sha256 rt token) of
     None \<Rightarrow> (c, None)
   | Some (payload, cached_at) \<Rightarrow>
       if now - cached_at > ar_cache_ttl_s rt then (c(ar_sha256 rt token := None), None) else (c, Some payload))"

definition cache_put :: "auth_runtime \<Rightarrow> real \<Rightarrow> string \<Rightarrow> (pyval \<times> pyval) list \<Rightarrow> introspection_cache \<Rightarrow> introspection_cache" where
  "cache_put rt now token payload c = c(ar_sha256 rt token \<mapsto> (payload, now))"

definition introspect_token :: "auth_runtime \<Rightarrow> request_clock \<Rightarrow> string \<Rightarrow> (pyval \<times> pyval) list auth_action" where
  "introspect_token rt ck token st = (case cache_get rt (rc_get ck) token (au_cache st) of
     (c, Some payload) \<Rightarrow> (st\<lparr>au_cache := c\<rparr>, Inr payload)
   | (c, None) \<Rightarrow> (case ar_introspect rt (rc_answer ck) token of
       Some (PDict payload) \<Rightarrow> (st\<lparr>au_cache := cache_put rt (rc_put ck) token payload c\<rparr>, Inr payload)
     | _ \<Rightarrow> (st\<lparr>au_cache := c\<rparr>, Inl IntrospectionUnavailableError)))"

definition resolve_trust_tier :: "(pyval \<times> pyval) list \<Rightarrow> trust_tier" where
  "resolve_trust_tier payload = (case get_or_none payload ''trust_tier'' of
     PStr raw \<Rightarrow> (if raw = trust_tier_value PARTNER then PARTNER else if raw = trust_tier_value PUBLIC then PUBLIC else INTERNAL)
   | _ \<Rightarrow> INTERNAL)"

text \<open>\<open>time.time() >= exp\<close> for a number: never true of a NaN.\<close>

fun exp_passed :: "real \<Rightarrow> pyval \<Rightarrow> bool" where
  "exp_passed now (PInt n) = (now \<ge> of_int n)"
| "exp_passed now (PBool b) = (now \<ge> (if b then 1 else 0))"
| "exp_passed now (PFloat (Fin x)) = (now \<ge> x)"
| "exp_passed now (PFloat NegInf) = True"
| "exp_passed now _ = False"

definition or_default :: "pyval \<Rightarrow> pyval \<Rightarrow> pyval" where
  "or_default v d = (if py_truthy v then v else d)"

text \<open>\<open>scope_str.split()\<close>, which only a string has.\<close>

definition split_scopes :: "pyval \<Rightarrow> string set res" where
  "split_scopes v = (if \<not> py_truthy v then Inr {} else case v of PStr s \<Rightarrow> Inr (set (split_words s)) | _ \<Rightarrow> Inl AttributeError)"

text \<open>What a payload is turned into once it was obtained.\<close>

definition session_of_payload :: "auth_runtime \<Rightarrow> real \<Rightarrow> (pyval \<times> pyval) list \<Rightarrow> session_context res" where
  "session_of_payload rt now payload =
     res_bind (raise_if (\<not> py_truthy (get_or_none payload ''active'')) SessionError) (\<lambda>_.
     (let exp = get_or_none payload ''exp''; subject = get_or_none payload ''sub'' in
     res_bind (raise_if (\<not> is_number exp) SessionError) (\<lambda>_.
     res_bind (raise_if (exp_passed now exp) SessionError) (\<lambda>_.
     res_bind (raise_if (\<not> py_truthy subject) SessionError) (\<lambda>_.
     res_bind (py_frozenset (or_default (get_or_none payload ''groups'') (PList []))) (\<lambda>groups.
     (let roles = resolve_roles groups (ar_group_role_map rt) in
     res_bind (split_scopes (get_or_none payload ''scope'')) (\<lambda>scopes.
     res_bind (py_float exp) (\<lambda>token_exp.
     Inr \<lparr>sx_subject = subject, sx_roles = PStr ` roles, sx_scopes = scopes, sx_tier = resolve_trust_tier payload,
       sx_token_exp = token_exp, sx_is_machine = False\<rparr>)))))))))"

definition authenticate :: "auth_runtime \<Rightarrow> request_clock \<Rightarrow> string option \<Rightarrow> session_context auth_action" where
  "authenticate rt ck token st = (case token of
     None \<Rightarrow> (st, Inl SessionError)
   | Some t \<Rightarrow> if t = [] then (st, Inl SessionError)
               else auth_bind (introspect_token rt ck t) (session_of_payload rt (rc_check ck)) st)"

section \<open>Machine callers\<close>

definition M2M_ROLES :: "string set" where "M2M_ROLES = {''submitter''}"

definition DEFAULT_M2M_GRANT :: m2m_grant where
  "DEFAULT_M2M_GRANT = \<lparr>mg_scopes = {''scan:submit''}, mg_tier = PUBLIC\<rparr>"

definition resolve_grant :: "string \<Rightarrow> (string \<times> m2m_grant) list \<Rightarrow> m2m_grant" where
  "resolve_grant service_account grants = (case map_of grants service_account of None \<Rightarrow> DEFAULT_M2M_GRANT | Some g \<Rightarrow> g)"

definition machine_session :: "auth_runtime \<Rightarrow> string \<Rightarrow> pfloat \<Rightarrow> session_context" where
  "machine_session rt service_account token_exp =
     (let grant = resolve_grant service_account (ar_m2m_grants rt)
      in \<lparr>sx_subject = PStr service_account, sx_roles = PStr ` M2M_ROLES, sx_scopes = mg_scopes grant, sx_tier = mg_tier grant,
          sx_token_exp = token_exp, sx_is_machine = True\<rparr>)"

text \<open>The allowlist: empty admits nobody, and looking a value up in it hashes the value.\<close>

definition allowlisted :: "auth_runtime \<Rightarrow> pyval \<Rightarrow> string res" where
  "allowlisted rt subject =
     (if ar_allowed_m2m_service_accounts rt = {} then Inl M2MError
      else if \<not> hashable subject then Inl TypeError
      else case subject of
          PStr s \<Rightarrow> if s \<in> ar_allowed_m2m_service_accounts rt then Inr s else Inl M2MError
        | _ \<Rightarrow> Inl M2MError)"

definition machine_of_payload :: "auth_runtime \<Rightarrow> real \<Rightarrow> (pyval \<times> pyval) list \<Rightarrow> session_context res" where
  "machine_of_payload rt now payload =
     res_bind (raise_if (\<not> py_truthy (get_or_none payload ''active'')) M2MError) (\<lambda>_.
     (let subject = or_default (get_or_none payload ''sub'') (get_or_none payload ''client_id''); exp = get_or_none payload ''exp'' in
     res_bind (raise_if (\<not> py_truthy subject) M2MError) (\<lambda>_.
     res_bind (allowlisted rt subject) (\<lambda>service_account.
     res_bind (raise_if (\<not> is_number exp) M2MError) (\<lambda>_.
     res_bind (raise_if (exp_passed now exp) M2MError) (\<lambda>_.
     res_bind (py_float exp) (\<lambda>token_exp. Inr (machine_session rt service_account token_exp))))))))"

definition authenticate_client_credentials :: "auth_runtime \<Rightarrow> request_clock \<Rightarrow> string option \<Rightarrow> session_context auth_action" where
  "authenticate_client_credentials rt ck token st = (case token of
     None \<Rightarrow> (st, Inl M2MError)
   | Some t \<Rightarrow> if t = [] then (st, Inl M2MError)
               else auth_bind (introspect_token rt ck t) (machine_of_payload rt (rc_check ck)) st)"

subsection \<open>Basic credentials\<close>

definition b64_digit :: "char \<Rightarrow> nat option" where
  "b64_digit c = (let n = of_char c in
     if 65 \<le> n \<and> n \<le> 90 then Some (n - 65) else if 97 \<le> n \<and> n \<le> 122 then Some (n - 71)
     else if 48 \<le> n \<and> n \<le> 57 then Some (n + 4) else if n = 43 then Some 62 else if n = 47 then Some 63 else None)"

text \<open>\<open>b64decode(text, validate=True)\<close>: groups of four digits, the last one padded or not.\<close>

fun b64decode :: "string \<Rightarrow> string option" where
  "b64decode [] = Some []"
| "b64decode (a # b # c # d # rest) = (case (b64_digit a, b64_digit b) of
     (Some x, Some y) \<Rightarrow> (case (b64_digit c, b64_digit d) of
         (Some z, Some w) \<Rightarrow> map_option
           ((@) [char_of (x * 4 + y div 16), char_of (y mod 16 * 16 + z div 4), char_of (z mod 4 * 64 + w)]) (b64decode rest)
       | (Some z, None) \<Rightarrow> if d = CHR ''='' \<and> rest = [] then Some [char_of (x * 4 + y div 16), char_of (y mod 16 * 16 + z div 4)] else None
       | (None, None) \<Rightarrow> if c = CHR ''='' \<and> d = CHR ''='' \<and> rest = [] then Some [char_of (x * 4 + y div 16)] else None
       | _ \<Rightarrow> None)
   | _ \<Rightarrow> None)"
| "b64decode _ = None"

definition has_scheme :: "string \<Rightarrow> string \<Rightarrow> bool" where
  "has_scheme scheme header \<longleftrightarrow> map lower_char (take (length scheme) header) = scheme"

definition parse_basic_header :: "(string \<Rightarrow> string option) \<Rightarrow> string option \<Rightarrow> (string \<times> string) option" where
  "parse_basic_header utf8 header = (case header of
     None \<Rightarrow> None
   | Some h \<Rightarrow> if \<not> has_scheme ''basic '' h then None
       else (case Option.bind (b64decode (py_strip (drop (length ''basic '') h))) utf8 of
           None \<Rightarrow> None
         | Some decoded \<Rightarrow> if CHR '':'' \<in> set decoded then Some (py_partition CHR '':'' decoded) else None))"

definition BASIC_FAIL_KEY_PREFIX :: string where "BASIC_FAIL_KEY_PREFIX = ''skillscan:m2m:basic:failcount:''"
definition BASIC_LOCKOUT_THRESHOLD :: int where "BASIC_LOCKOUT_THRESHOLD = 5"
definition BASIC_LOCKOUT_WINDOW_S :: real where "BASIC_LOCKOUT_WINDOW_S = 900"

definition authenticate_basic_service_account :: "auth_runtime \<Rightarrow> request_clock \<Rightarrow> string option \<Rightarrow> session_context auth_action" where
  "authenticate_basic_service_account rt ck header st = (case parse_basic_header (ar_utf8 rt) header of
     None \<Rightarrow> (st, Inl M2MError)
   | Some (service_account, password) \<Rightarrow>
       (let fail_key = BASIC_FAIL_KEY_PREFIX @ service_account;
            refuse = (\<lambda>r. case incr_in_window (rc_get ck) fail_key BASIC_LOCKOUT_WINDOW_S r of
                Inl e \<Rightarrow> (st\<lparr>au_redis := r\<rparr>, Inl e) | Inr (r', n, ttl) \<Rightarrow> (st\<lparr>au_redis := r'\<rparr>, Inl M2MError))
        in case read_in_window (rc_get ck) fail_key BASIC_LOCKOUT_WINDOW_S (au_redis st) of (r, failures, ttl) \<Rightarrow>
          if failures \<ge> BASIC_LOCKOUT_THRESHOLD then (st\<lparr>au_redis := r\<rparr>, Inl M2MError)
          else case map_of (ar_m2m_basic_accounts rt) service_account of
              None \<Rightarrow> refuse r
            | Some stored_hash \<Rightarrow>
                if \<not> ar_verify_password rt password stored_hash then refuse r
                else if ar_allowed_m2m_service_accounts rt = {} \<or> service_account \<notin> ar_allowed_m2m_service_accounts rt
                then (st\<lparr>au_redis := r\<rparr>, Inl M2MError)
                else (st\<lparr>au_redis := redis_delete fail_key r\<rparr>, Inr (machine_session rt service_account PosInf))))"

subsection \<open>Mesh identities\<close>

definition id_char :: "char \<Rightarrow> bool" where
  "id_char c \<longleftrightarrow> (let n = of_char c :: nat in 65 \<le> n \<and> n \<le> 90 \<or> 97 \<le> n \<and> n \<le> 122 \<or> 48 \<le> n \<and> n \<le> 57 \<or> n = 45)"

text \<open>A final \<open>$\<close> also matches before one newline at the end.\<close>

definition drop_newline :: "string \<Rightarrow> string" where
  "drop_newline s = (if s \<noteq> [] \<and> last s = CHR 0x0A then butlast s else s)"

definition name_like :: "(char \<Rightarrow> bool) \<Rightarrow> string \<Rightarrow> bool" where
  "name_like ok s \<longleftrightarrow> s \<noteq> [] \<and> list_all ok s"

definition SPIFFE_RE :: "string \<Rightarrow> bool" where
  "SPIFFE_RE s = (case py_split CHR ''/'' s of
     [scheme, gap, domain, ns, namespace, sa, account] \<Rightarrow>
       scheme = ''spiffe:'' \<and> gap = [] \<and> name_like (\<lambda>c. id_char c \<or> c = CHR ''.'') domain \<and> ns = ''ns'' \<and>
       name_like id_char namespace \<and> sa = ''sa'' \<and> name_like id_char (drop_newline account)
   | _ \<Rightarrow> False)"

definition strip_quotes :: "string \<Rightarrow> string" where
  "strip_quotes s = rev (dropWhile (\<lambda>c. c = CHR 0x22) (rev (dropWhile (\<lambda>c. c = CHR 0x22) s)))"

definition spiffe_of_part :: "string \<Rightarrow> string option" where
  "spiffe_of_part part = (let p = py_strip part in
     if take 4 p = ''URI='' \<and> SPIFFE_RE (strip_quotes (drop 4 p)) then Some (strip_quotes (drop 4 p)) else None)"

definition parse_spiffe_identity :: "string option \<Rightarrow> string option" where
  "parse_spiffe_identity header = (case header of
     None \<Rightarrow> None
   | Some h \<Rightarrow> if h = [] then None else Option.bind (List.find (\<lambda>part. spiffe_of_part part \<noteq> None) (py_split CHR '';'' h)) spiffe_of_part)"

definition service_account_from_spiffe :: "string \<Rightarrow> string option" where
  "service_account_from_spiffe spiffe_id = (case rev (py_split CHR ''/'' spiffe_id) of
     account # sa # before # rest \<Rightarrow> if sa = ''sa'' \<and> name_like id_char (drop_newline account) then Some (drop_newline account) else None
   | _ \<Rightarrow> None)"

definition authenticate_mtls :: "auth_runtime \<Rightarrow> string option \<Rightarrow> session_context res" where
  "authenticate_mtls rt header = (case parse_spiffe_identity header of
     None \<Rightarrow> Inl M2MError
   | Some spiffe_id \<Rightarrow> (case service_account_from_spiffe spiffe_id of
       None \<Rightarrow> Inl M2MError
     | Some service_account \<Rightarrow>
         if ar_allowed_m2m_service_accounts rt = {} \<or> service_account \<notin> ar_allowed_m2m_service_accounts rt then Inl M2MError
         else Inr (machine_session rt service_account PosInf)))"

section \<open>Cookies and the double-submit token\<close>

definition SAFE_METHODS :: "string set" where "SAFE_METHODS = {''GET'', ''HEAD'', ''OPTIONS''}"
definition CSRF_COOKIE_NAME :: string where "CSRF_COOKIE_NAME = ''csrf_token''"
definition CSRF_HEADER_NAME :: string where "CSRF_HEADER_NAME = ''x-csrf-token''"
definition SESSION_COOKIE_NAME :: string where "SESSION_COOKIE_NAME = ''skillscan_session''"
definition BREAKGLASS_SESSION_COOKIE_NAME :: string where "BREAKGLASS_SESSION_COOKIE_NAME = ''skillscan_breakglass_session''"
definition SAML_SESSION_COOKIE_NAME :: string where "SAML_SESSION_COOKIE_NAME = ''skillscan_saml_session''"
definition LOCAL_SESSION_COOKIE_NAME :: string where "LOCAL_SESSION_COOKIE_NAME = ''skillscan_local_session''"

definition SESSION_COOKIE_NAMES :: "string list" where
  "SESSION_COOKIE_NAMES = [SESSION_COOKIE_NAME, BREAKGLASS_SESSION_COOKIE_NAME, SAML_SESSION_COOKIE_NAME, LOCAL_SESSION_COOKIE_NAME]"

definition CSRF_COOKIE_MAX_AGE_S :: int where "CSRF_COOKIE_MAX_AGE_S = 604800"

text \<open>A request, its header names in lower case as the server presents them.\<close>

record request =
  rq_method :: string
  rq_cookies :: "(string \<times> string) list"
  rq_headers :: "(string \<times> string) list"

definition request_has_session_cookie :: "request \<Rightarrow> bool" where
  "request_has_session_cookie rq \<longleftrightarrow> list_ex (\<lambda>name. map_of (rq_cookies rq) name \<noteq> None) SESSION_COOKIE_NAMES"

definition verify_csrf :: "string option \<Rightarrow> string option \<Rightarrow> bool res" where
  "verify_csrf cookie_token header_token = (case (cookie_token, header_token) of
     (Some c, Some h) \<Rightarrow> if c = [] \<or> h = [] then Inr False else compare_digest c h | _ \<Rightarrow> Inr False)"

definition enforce_csrf :: "request \<Rightarrow> unit res" where
  "enforce_csrf rq = (if rq_method rq \<in> SAFE_METHODS then Inr ()
     else res_bind (verify_csrf (map_of (rq_cookies rq) CSRF_COOKIE_NAME) (map_of (rq_headers rq) CSRF_HEADER_NAME)) (\<lambda>ok.
       raise_if (\<not> ok) CsrfError))"

definition require_csrf :: "request \<Rightarrow> unit res" where
  "require_csrf rq = (if \<not> request_has_session_cookie rq then Inr ()
     else case enforce_csrf rq of Inl e \<Rightarrow> Inl (if e = CsrfError then CsrfValidationError else e) | Inr u \<Rightarrow> Inr u)"

section \<open>The order of the paths\<close>

definition SAML_SESSION_KEY_PREFIX :: string where "SAML_SESSION_KEY_PREFIX = ''skillscan:auth:saml:session:''"

definition create_saml_session :: "session_codec \<Rightarrow> real \<Rightarrow> real \<Rightarrow> pyval \<Rightarrow> string list \<Rightarrow> string \<Rightarrow> redis \<Rightarrow> redis" where
  "create_saml_session c now ttl_s subject roles token r =
     create_session c now SAML_SESSION_KEY_PREFIX ttl_s
       (PDict [(PStr ''subject'', subject), (PStr ''roles'', PList (map PStr roles))]) token r"

definition resolve_saml_session :: "session_codec \<Rightarrow> real \<Rightarrow> string \<Rightarrow> redis \<Rightarrow> (pyval \<times> pyval set) option" where
  "resolve_saml_session c now token r = (case resolve_session c now SAML_SESSION_KEY_PREFIX token r of
     Some (PDict d) \<Rightarrow> (case (map_of d (PStr ''subject''), map_of d (PStr ''roles'')) of
         (Some s, Some roles) \<Rightarrow> (case py_frozenset roles of Inl e \<Rightarrow> None | Inr rs \<Rightarrow> Some (s, rs))
       | _ \<Rightarrow> None)
   | _ \<Rightarrow> None)"

definition revoke_saml_session :: "session_codec \<Rightarrow> string \<Rightarrow> redis \<Rightarrow> redis" where
  "revoke_saml_session c token r = delete_session c SAML_SESSION_KEY_PREFIX token r"

definition console_session :: "real \<Rightarrow> pyval \<Rightarrow> pyval set \<Rightarrow> session_context" where
  "console_session now subject roles = \<lparr>sx_subject = subject, sx_roles = roles, sx_scopes = {}, sx_tier = INTERNAL,
     sx_token_exp = Fin (now + 1), sx_is_machine = False\<rparr>"

definition resolve_breakglass_session_context :: "auth_runtime \<Rightarrow> real \<Rightarrow> request \<Rightarrow> redis \<Rightarrow> session_context option" where
  "resolve_breakglass_session_context rt now rq r =
     (if \<not> ar_breakglass_redis rt then None
      else Option.bind (map_of (rq_cookies rq) BREAKGLASS_SESSION_COOKIE_NAME) (\<lambda>token.
        map_option (\<lambda>subject. console_session now (PStr subject) {PStr ''admin''}) (resolve_breakglass_session (ar_codec rt) now token r)))"

definition resolve_saml_session_context :: "auth_runtime \<Rightarrow> real \<Rightarrow> request \<Rightarrow> redis \<Rightarrow> session_context option" where
  "resolve_saml_session_context rt now rq r =
     (if \<not> ar_saml_redis rt then None
      else Option.bind (map_of (rq_cookies rq) SAML_SESSION_COOKIE_NAME) (\<lambda>token.
        map_option (\<lambda>(subject, roles). console_session now subject roles) (resolve_saml_session (ar_codec rt) now token r)))"

text \<open>\<open>frozenset({role})\<close> hashes the stored role.\<close>

definition resolve_local_session_context :: "auth_runtime \<Rightarrow> real \<Rightarrow> request \<Rightarrow> redis \<Rightarrow> session_context option res" where
  "resolve_local_session_context rt now rq r =
     (if \<not> ar_local_redis rt then Inr None
      else case map_of (rq_cookies rq) LOCAL_SESSION_COOKIE_NAME of
          None \<Rightarrow> Inr None
        | Some token \<Rightarrow> (case resolve_local_session (ar_codec rt) now token r of
            None \<Rightarrow> Inr None
          | Some (subject, role) \<Rightarrow> if hashable role then Inr (Some (console_session now subject {role})) else Inl TypeError))"

definition extract_scheme :: "string \<Rightarrow> request \<Rightarrow> string option" where
  "extract_scheme scheme rq = (case map_of (rq_headers rq) ''authorization'' of
     None \<Rightarrow> None | Some h \<Rightarrow> if has_scheme scheme h then Some h else None)"

definition extract_basic_header :: "request \<Rightarrow> string option" where
  "extract_basic_header rq = extract_scheme ''basic '' rq"

definition extract_bearer_token :: "request \<Rightarrow> string option" where
  "extract_bearer_token rq = map_option (\<lambda>h. py_strip (drop (length ''bearer '') h)) (extract_scheme ''bearer '' rq)"

text \<open>The handler of the credential paths: a refusal becomes a 401, an outage is also counted, and any
  other exception passes.\<close>

definition as_unauthenticated :: "auth_state \<times> session_context res \<Rightarrow> auth_state \<times> session_context res" where
  "as_unauthenticated = (\<lambda>(st, r). case r of
     Inr s \<Rightarrow> (st, Inr s)
   | Inl e \<Rightarrow> if e = IntrospectionUnavailableError
       then (st\<lparr>au_introspection_failures := Suc (au_introspection_failures st)\<rparr>, Inl AuthenticationError)
       else if e = SessionError \<or> e = M2MError then (st, Inl AuthenticationError) else (st, Inl e))"

definition get_session_context :: "auth_runtime \<Rightarrow> request_clock \<Rightarrow> request \<Rightarrow> session_context auth_action" where
  "get_session_context rt ck rq st = (case resolve_breakglass_session_context rt (rc_get ck) rq (au_redis st) of
     Some s \<Rightarrow> (st, Inr s)
   | None \<Rightarrow> (case resolve_saml_session_context rt (rc_get ck) rq (au_redis st) of
       Some s \<Rightarrow> (st, Inr s)
     | None \<Rightarrow> (case resolve_local_session_context rt (rc_get ck) rq (au_redis st) of
         Inl e \<Rightarrow> (st, Inl e)
       | Inr (Some s) \<Rightarrow> (st, Inr s)
       | Inr None \<Rightarrow> as_unauthenticated (case extract_bearer_token rq of
           Some bearer \<Rightarrow> authenticate_client_credentials rt ck (Some bearer) st
         | None \<Rightarrow> (case extract_basic_header rq of
             Some h \<Rightarrow> if ar_m2m_basic_redis rt then authenticate_basic_service_account rt ck (Some h) st
                        else authenticate rt ck (map_of (rq_cookies rq) SESSION_COOKIE_NAME) st
           | None \<Rightarrow> authenticate rt ck (map_of (rq_cookies rq) SESSION_COOKIE_NAME) st)))))"

definition require_role :: "string list \<Rightarrow> session_context \<Rightarrow> session_context res" where
  "require_role roles session =
     res_bind (raise_if (roles \<noteq> [] \<and> \<not> has_role session roles) AuthorizationError) (\<lambda>_. Inr session)"

definition require_human_role :: "string list \<Rightarrow> session_context \<Rightarrow> session_context res" where
  "require_human_role roles session = res_bind (require_role roles session) (\<lambda>s.
     res_bind (raise_if (sx_is_machine s) AuthorizationError) (\<lambda>_. Inr s))"

section \<open>Where a session comes from\<close>

lemma auth_bind_Inr: "auth_bind m f st = (st', Inr y) \<Longrightarrow> \<exists>x. m st = (st', Inr x) \<and> f x = Inr y"
  by (auto simp: auth_bind_def res_bind_eq_Inr split: prod.splits)

lemma as_unauthenticated_Inr: "as_unauthenticated p = (st', Inr s) \<Longrightarrow> p = (st', Inr s)"
  by (cases p) (auto simp: as_unauthenticated_def split: sum.splits if_splits)

lemma authenticate_Inr:
  assumes "authenticate rt ck token st = (st', Inr s)"
  obtains t payload where "token = Some t" "introspect_token rt ck t st = (st', Inr payload)"
    "session_of_payload rt (rc_check ck) payload = Inr s"
  using assms by (auto simp: authenticate_def split: option.splits if_splits dest!: auth_bind_Inr)

lemma session_of_payload_human: "session_of_payload rt now payload = Inr s \<Longrightarrow> \<not> sx_is_machine s"
  by (auto simp: session_of_payload_def res_bind_eq_Inr Let_def)

lemma machine_of_payload_session:
  "machine_of_payload rt now payload = Inr s \<Longrightarrow> \<exists>acc x. acc \<in> ar_allowed_m2m_service_accounts rt \<and> s = machine_session rt acc x"
  by (auto simp: machine_of_payload_def allowlisted_def res_bind_eq_Inr Let_def split: if_splits pyval.splits)

lemma client_credentials_session:
  "authenticate_client_credentials rt ck token st = (st', Inr s) \<Longrightarrow>
     \<exists>acc x. acc \<in> ar_allowed_m2m_service_accounts rt \<and> s = machine_session rt acc x"
  by (auto simp: authenticate_client_credentials_def split: option.splits if_splits dest!: auth_bind_Inr machine_of_payload_session)

lemma basic_session:
  "authenticate_basic_service_account rt ck header st = (st', Inr s) \<Longrightarrow>
     \<exists>acc x. acc \<in> ar_allowed_m2m_service_accounts rt \<and> s = machine_session rt acc x"
  by (auto simp: authenticate_basic_service_account_def Let_def split: option.splits if_splits prod.splits sum.splits)

lemma mtls_session:
  "authenticate_mtls rt header = Inr s \<Longrightarrow> \<exists>acc x. acc \<in> ar_allowed_m2m_service_accounts rt \<and> s = machine_session rt acc x"
  by (auto simp: authenticate_mtls_def split: option.splits if_splits)

lemma machine_session_simps [simp]:
  "sx_is_machine (machine_session rt acc x)" "sx_subject (machine_session rt acc x) = PStr acc"
  "sx_roles (machine_session rt acc x) = PStr ` M2M_ROLES"
  "sx_tier (machine_session rt acc x) = mg_tier (resolve_grant acc (ar_m2m_grants rt))"
  "sx_scopes (machine_session rt acc x) = mg_scopes (resolve_grant acc (ar_m2m_grants rt))"
  by (simp_all add: machine_session_def Let_def)

lemma console_session_simps [simp]:
  "\<not> sx_is_machine (console_session now subject roles)" "sx_roles (console_session now subject roles) = roles"
  "sx_subject (console_session now subject roles) = subject"
  by (simp_all add: console_session_def)

text \<open>The five ways a request is authenticated.\<close>

lemma get_session_context_cases:
  assumes "get_session_context rt ck rq st = (st', Inr s)"
  obtains (breakglass) token subject where "map_of (rq_cookies rq) BREAKGLASS_SESSION_COOKIE_NAME = Some token"
      "resolve_breakglass_session (ar_codec rt) (rc_get ck) token (au_redis st) = Some subject"
      "s = console_session (rc_get ck) (PStr subject) {PStr ''admin''}"
    | (saml) token subject roles where "map_of (rq_cookies rq) SAML_SESSION_COOKIE_NAME = Some token"
      "resolve_saml_session (ar_codec rt) (rc_get ck) token (au_redis st) = Some (subject, roles)"
      "s = console_session (rc_get ck) subject roles"
    | (local) token subject role where "map_of (rq_cookies rq) LOCAL_SESSION_COOKIE_NAME = Some token"
      "resolve_local_session (ar_codec rt) (rc_get ck) token (au_redis st) = Some (subject, role)"
      "s = console_session (rc_get ck) subject {role}"
    | (machine) acc x where "acc \<in> ar_allowed_m2m_service_accounts rt" "s = machine_session rt acc x"
    | (oidc) token payload where "map_of (rq_cookies rq) SESSION_COOKIE_NAME = Some token"
      "introspect_token rt ck token st = (st', Inr payload)" "session_of_payload rt (rc_check ck) payload = Inr s"
proof (cases "resolve_breakglass_session_context rt (rc_get ck) rq (au_redis st)")
  case (Some s1)
  then have "s1 = s" using assms by (simp add: get_session_context_def)
  then show thesis using Some breakglass
    by (auto simp: resolve_breakglass_session_context_def bind_eq_Some_conv split: if_splits)
next
  case bg: None
  show thesis
  proof (cases "resolve_saml_session_context rt (rc_get ck) rq (au_redis st)")
    case (Some s1)
    then have "s1 = s" using assms bg by (simp add: get_session_context_def)
    then show thesis using Some saml
      by (auto simp: resolve_saml_session_context_def bind_eq_Some_conv split: if_splits)
  next
    case sm: None
    show thesis
    proof (cases "resolve_local_session_context rt (rc_get ck) rq (au_redis st)")
      case (Inl e)
      then show thesis using assms bg sm by (simp add: get_session_context_def)
    next
      case (Inr o1)
      show thesis
      proof (cases o1)
        case (Some s1)
        then have "s1 = s" using assms bg sm Inr by (simp add: get_session_context_def)
        then show thesis using Inr local Some
          by (auto simp: resolve_local_session_context_def split: if_splits option.splits prod.splits)
      next
        case None
        have "(case extract_bearer_token rq of
           Some bearer \<Rightarrow> authenticate_client_credentials rt ck (Some bearer) st
         | None \<Rightarrow> (case extract_basic_header rq of
             Some h \<Rightarrow> if ar_m2m_basic_redis rt then authenticate_basic_service_account rt ck (Some h) st
                        else authenticate rt ck (map_of (rq_cookies rq) SESSION_COOKIE_NAME) st
           | None \<Rightarrow> authenticate rt ck (map_of (rq_cookies rq) SESSION_COOKIE_NAME) st)) = (st', Inr s)"
          by (rule as_unauthenticated_Inr) (use assms bg sm Inr None in \<open>simp add: get_session_context_def\<close>)
        then consider bearer where "authenticate_client_credentials rt ck (Some bearer) st = (st', Inr s)"
          | h where "authenticate_basic_service_account rt ck (Some h) st = (st', Inr s)"
          | "authenticate rt ck (map_of (rq_cookies rq) SESSION_COOKIE_NAME) st = (st', Inr s)"
          by (auto split: option.splits if_splits)
        then show thesis
        proof cases
          case 1
          then show thesis using client_credentials_session machine by blast
        next
          case 2
          then show thesis using basic_session machine by blast
        next
          case 3
          then show thesis by (rule authenticate_Inr) (rule oidc)
        qed
      qed
    qed
  qed
qed

text \<open>Note: A machine identity is minimal. Whatever credentials a request carries, a machine session names
  an allowlisted service account, has exactly the submitter role and the scopes and tier of its own grant, the
  strictest tier and submission only when it has none; the console refuses it, and so does every endpoint
  that asks for another role.\<close>

theorem machine_session_minimal:
  assumes "get_session_context rt ck rq st = (st', Inr s)" "sx_is_machine s"
  shows "\<exists>acc \<in> ar_allowed_m2m_service_accounts rt. sx_subject s = PStr acc \<and> sx_roles s = {PStr ''submitter''} \<and>
    (case map_of (ar_m2m_grants rt) acc of
       None \<Rightarrow> sx_tier s = PUBLIC \<and> sx_scopes s = {''scan:submit''}
     | Some g \<Rightarrow> sx_tier s = mg_tier g \<and> sx_scopes s = mg_scopes g) \<and>
    (\<forall>roles. require_human_role roles s = Inl AuthorizationError) \<and>
    (\<forall>roles. roles \<noteq> [] \<and> ''submitter'' \<notin> set roles \<longrightarrow> require_role roles s = Inl AuthorizationError)"
proof -
  obtain acc x where acc: "acc \<in> ar_allowed_m2m_service_accounts rt" "s = machine_session rt acc x"
    using assms by (cases rule: get_session_context_cases [OF assms(1)]) (auto dest: session_of_payload_human)
  have "require_human_role roles s = Inl AuthorizationError" for roles
    using assms(2) by (auto simp: require_human_role_def require_role_def raise_if_def)
  moreover have "require_role roles s = Inl AuthorizationError" if "roles \<noteq> []" "''submitter'' \<notin> set roles" for roles
    using that by (auto simp: require_role_def has_role_def acc(2) M2M_ROLES_def raise_if_def)
  ultimately show ?thesis
    using acc(1) by (intro bexI [of _ acc])
      (auto simp: acc(2) M2M_ROLES_def resolve_grant_def DEFAULT_M2M_GRANT_def split: option.splits)
qed

definition demo_payload :: "(pyval \<times> pyval) list" where
  "demo_payload = [(PStr ''active'', PBool True), (PStr ''sub'', PStr ''bot''), (PStr ''exp'', PInt 600),
     (PStr ''groups'', PList [PStr ''sec-admins''])]"

definition demo_runtime :: auth_runtime where
  "demo_runtime = \<lparr>ar_sha256 = id, ar_cache_ttl_s = 30, ar_introspect = (\<lambda>t token. if t < 100 then Some (PDict demo_payload) else None),
     ar_group_role_map = [(''sec-admins'', ''admin'')], ar_allowed_m2m_service_accounts = {''bot''}, ar_m2m_grants = [],
     ar_codec = \<lparr>sc_sha256 = id, sc_dumps = (\<lambda>v. []), sc_loads = (\<lambda>s. None)\<rparr>,
     ar_breakglass_redis = True, ar_saml_redis = True, ar_local_redis = True, ar_m2m_basic_redis = True,
     ar_m2m_basic_accounts = [(''bot'', ''pw'')], ar_verify_password = (=), ar_utf8 = Some\<rparr>"

definition demo_clock :: "real \<Rightarrow> request_clock" where
  "demo_clock t = \<lparr>rc_get = t, rc_answer = t, rc_put = t, rc_check = t\<rparr>"

definition demo_state :: auth_state where
  "demo_state = \<lparr>au_cache = (\<lambda>k. None), au_redis = (\<lambda>k. None), au_introspection_failures = 0\<rparr>"

definition bearer_request :: request where
  "bearer_request = \<lparr>rq_method = ''POST'', rq_cookies = [], rq_headers = [(''authorization'', ''Bearer tok'')]\<rparr>"

definition cookie_request :: request where
  "cookie_request = \<lparr>rq_method = ''POST'', rq_cookies = [(''skillscan_session'', ''tok''), (''csrf_token'', ''c'')],
     rq_headers = [(''x-csrf-token'', ''c'')]\<rparr>"

lemmas demo_simps = demo_runtime_def demo_payload_def demo_clock_def demo_state_def bearer_request_def cookie_request_def
  get_session_context_def resolve_breakglass_session_context_def resolve_saml_session_context_def resolve_local_session_context_def
  authenticate_client_credentials_def authenticate_def
  auth_bind_def introspect_token_def cache_get_def cache_put_def machine_of_payload_def session_of_payload_def allowlisted_def
  get_or_none_def or_default_def py_frozenset_def split_scopes_def py_float_def raise_if_def as_unauthenticated_def
  BREAKGLASS_SESSION_COOKIE_NAME_def SAML_SESSION_COOKIE_NAME_def LOCAL_SESSION_COOKIE_NAME_def SESSION_COOKIE_NAME_def

lemma bearer_token: "extract_bearer_token bearer_request = Some ''tok''" by code_simp

theorem machine_session_minimal_witness:
  "\<exists>st'. get_session_context demo_runtime (demo_clock 5) bearer_request demo_state = (st', Inr (machine_session demo_runtime ''bot'' (Fin 600))) \<and>
     sx_tier (machine_session demo_runtime ''bot'' (Fin 600)) = PUBLIC"
proof -
  have "\<exists>st'. get_session_context demo_runtime (demo_clock 5) bearer_request demo_state = (st', Inr (machine_session demo_runtime ''bot'' (Fin 600)))"
    unfolding get_session_context_def bearer_token by (simp add: demo_simps)
  then obtain st' where run: "get_session_context demo_runtime (demo_clock 5) bearer_request demo_state = (st', Inr (machine_session demo_runtime ''bot'' (Fin 600)))"
    by blast
  show ?thesis using run machine_session_minimal [OF run] by (auto simp: demo_runtime_def)
qed

section \<open>Where a role comes from\<close>

lemma session_of_payload_roles:
  assumes "session_of_payload rt now payload = Inr s"
  obtains groups where "py_frozenset (or_default (get_or_none payload ''groups'') (PList [])) = Inr groups"
    "sx_roles s = PStr ` resolve_roles groups (ar_group_role_map rt)" "py_truthy (get_or_none payload ''active'')"
  using assms by (auto simp: session_of_payload_def res_bind_eq_Inr Let_def)

lemma resolve_roles_elevated:
  assumes "role \<in> resolve_roles groups m" "role \<noteq> DEFAULT_ROLE"
  shows "\<exists>g. PStr g \<in> groups \<and> map_of m g = Some role \<and> role \<in> KNOWN_ROLES"
proof -
  obtain g where g: "g \<in> groups" "role \<in> role_of_group m g" using assms by (auto simp: resolve_roles_def)
  then obtain n where "g = PStr n" by (cases g) (auto simp: role_of_group_def)
  then show ?thesis using g by (auto simp: role_of_group_def split: option.splits if_splits)
qed

lemma str_pairs_map: "str_pairs d = Some m \<Longrightarrow> d = map (\<lambda>(k, v). (PStr k, PStr v)) m"
  by (induction d arbitrary: m rule: str_pairs.induct) auto

lemma load_group_role_map_known: "load_group_role_map safe_load contents = Inr m \<Longrightarrow> (g, role) \<in> set m \<Longrightarrow> role \<in> KNOWN_ROLES"
  by (auto simp: load_group_role_map_def list_all_iff split: option.splits pyval.splits if_splits)

text \<open>Note: A role above submitter is never claimed by the request. A session that holds one has it from
  the emergency path as admin, from the record its login stored, or from an active introspected token that
  asserts a group which the configured map gives that role; a bearer or basic credential never has it.\<close>

theorem elevated_role_is_granted:
  assumes "get_session_context rt ck rq st = (st', Inr s)" "PStr role \<in> sx_roles s" "role \<noteq> DEFAULT_ROLE"
  shows "\<not> sx_is_machine s \<and>
    ((\<exists>token subject. role = ''admin'' \<and> resolve_breakglass_session (ar_codec rt) (rc_get ck) token (au_redis st) = Some subject) \<or>
     (\<exists>token subject roles. resolve_saml_session (ar_codec rt) (rc_get ck) token (au_redis st) = Some (subject, roles) \<and> PStr role \<in> roles) \<or>
     (\<exists>token subject. resolve_local_session (ar_codec rt) (rc_get ck) token (au_redis st) = Some (subject, PStr role)) \<or>
     (\<exists>token payload groups g. introspect_token rt ck token st = (st', Inr payload) \<and> py_truthy (get_or_none payload ''active'') \<and>
        py_frozenset (or_default (get_or_none payload ''groups'') (PList [])) = Inr groups \<and>
        PStr g \<in> groups \<and> map_of (ar_group_role_map rt) g = Some role \<and> role \<in> KNOWN_ROLES))"
  using assms(1)
proof (cases rule: get_session_context_cases)
  case (breakglass token subject)
  then show ?thesis using assms(2) by auto
next
  case (saml token subject roles)
  then show ?thesis using assms(2) by auto
next
  case (local token subject r)
  then show ?thesis using assms(2) by auto
next
  case (machine acc x)
  then show ?thesis using assms(2,3) by (auto simp: M2M_ROLES_def DEFAULT_ROLE_def)
next
  case (oidc token payload)
  obtain groups where g: "py_frozenset (or_default (get_or_none payload ''groups'') (PList [])) = Inr groups"
    "sx_roles s = PStr ` resolve_roles groups (ar_group_role_map rt)" "py_truthy (get_or_none payload ''active'')"
    using oidc(3) by (rule session_of_payload_roles)
  obtain n where n: "PStr n \<in> groups" "map_of (ar_group_role_map rt) n = Some role" "role \<in> KNOWN_ROLES"
    using resolve_roles_elevated [of role groups "ar_group_role_map rt"] assms(2,3) g(2) by auto
  have "\<not> sx_is_machine s" using oidc(3) by (rule session_of_payload_human)
  then show ?thesis using oidc(2) g(1,3) n by blast
qed

definition bot_session :: session_context where
  "bot_session = \<lparr>sx_subject = PStr ''bot'', sx_roles = {PStr ''submitter'', PStr ''admin''}, sx_scopes = {}, sx_tier = INTERNAL,
     sx_token_exp = Fin 600, sx_is_machine = False\<rparr>"

lemma cookie_no_header: "extract_bearer_token cookie_request = None" "extract_basic_header cookie_request = None"
  by (simp_all add: extract_bearer_token_def extract_basic_header_def extract_scheme_def cookie_request_def)

lemma cookie_run: "\<exists>st'. get_session_context demo_runtime (demo_clock 5) cookie_request demo_state = (st', Inr bot_session)"
  unfolding get_session_context_def cookie_no_header by (simp add: demo_simps resolve_roles_def role_of_group_def DEFAULT_ROLE_def KNOWN_ROLES_def resolve_trust_tier_def
      resolve_breakglass_session_def resolve_local_session_def resolve_saml_session_def bot_session_def)

theorem elevated_role_is_granted_witness:
  "(\<exists>st'. get_session_context demo_runtime (demo_clock 5) cookie_request demo_state = (st', Inr bot_session)) \<and> \<not> sx_is_machine bot_session"
proof -
  obtain st' where run: "get_session_context demo_runtime (demo_clock 5) cookie_request demo_state = (st', Inr bot_session)"
    using cookie_run by blast
  have "PStr ''admin'' \<in> sx_roles bot_session" "''admin'' \<noteq> DEFAULT_ROLE" by (simp_all add: bot_session_def DEFAULT_ROLE_def)
  from elevated_role_is_granted [OF run this] show ?thesis using run by blast
qed

section \<open>State changes from a browser\<close>

lemma human_has_cookie:
  assumes "get_session_context rt ck rq st = (st', Inr s)" "\<not> sx_is_machine s"
  shows "request_has_session_cookie rq"
  using assms(1)
proof (cases rule: get_session_context_cases)
  case (machine acc x)
  then show ?thesis using assms(2) by simp
qed (auto simp: request_has_session_cookie_def SESSION_COOKIE_NAMES_def)

text \<open>C28: No console write without the double-submit token. A request that changes state, is let in as a
  person by any of the session types and passes the token check carries the same non-empty token in the
  cookie and in the header.\<close>

theorem console_write_needs_csrf_token:
  assumes "get_session_context rt ck rq st = (st', Inr s)" "require_human_role roles s = Inr s'"
    and "require_csrf rq = Inr ()" "rq_method rq \<notin> SAFE_METHODS"
  shows "\<exists>token. token \<noteq> [] \<and> map_of (rq_cookies rq) CSRF_COOKIE_NAME = Some token \<and>
    map_of (rq_headers rq) CSRF_HEADER_NAME = Some token"
proof -
  have "\<not> sx_is_machine s" using assms(2) by (auto simp: require_human_role_def require_role_def res_bind_eq_Inr)
  then have "request_has_session_cookie rq" using human_has_cookie assms(1) by blast
  then have "enforce_csrf rq = Inr ()" using assms(3) by (auto simp: require_csrf_def split: sum.splits)
  then show ?thesis using assms(4)
    by (auto simp: enforce_csrf_def verify_csrf_def raise_if_eq_Inr res_bind_eq_Inr split: option.splits if_splits dest: compare_digest_True)
qed

theorem console_write_needs_csrf_token_witness:
  "require_csrf cookie_request = Inr () \<and> require_human_role [''admin''] bot_session = Inr bot_session \<and>
   (\<exists>token. token \<noteq> [] \<and> map_of (rq_cookies cookie_request) CSRF_COOKIE_NAME = Some token \<and>
      map_of (rq_headers cookie_request) CSRF_HEADER_NAME = Some token)"
proof -
  obtain st' where run: "get_session_context demo_runtime (demo_clock 5) cookie_request demo_state = (st', Inr bot_session)"
    using cookie_run by blast
  have c: "require_csrf cookie_request = Inr ()"
    by (simp add: require_csrf_def request_has_session_cookie_def enforce_csrf_def verify_csrf_def cookie_request_def
        CSRF_COOKIE_NAME_def CSRF_HEADER_NAME_def SAFE_METHODS_def raise_if_def compare_digest_def)
  have h: "require_human_role [''admin''] bot_session = Inr bot_session"
    by (simp add: require_human_role_def require_role_def has_role_def bot_session_def raise_if_def)
  have m: "rq_method cookie_request \<notin> SAFE_METHODS" by (simp add: cookie_request_def SAFE_METHODS_def)
  from console_write_needs_csrf_token [OF run h c m] show ?thesis using c h by blast
qed

section \<open>Revoking a token\<close>

text \<open>The caches that requests can leave behind, in any interleaving: a lookup at some time, and the
  storing of an answer that the identity provider gave at most \<open>lag\<close> earlier.\<close>

inductive cache_reach :: "auth_runtime \<Rightarrow> real \<Rightarrow> introspection_cache \<Rightarrow> bool" for rt lag where
  empty: "cache_reach rt lag (\<lambda>k. None)"
| look: "cache_reach rt lag c \<Longrightarrow> cache_reach rt lag (fst (cache_get rt now token c))"
| store: "cache_reach rt lag c \<Longrightarrow> ar_introspect rt asked token = Some (PDict payload) \<Longrightarrow> stored \<le> asked + lag \<Longrightarrow>
    cache_reach rt lag (cache_put rt stored token payload c)"

lemma cache_get_fst: "fst (cache_get rt now token c) k = None \<or> fst (cache_get rt now token c) k = c k"
  by (auto simp: cache_get_def split: option.splits)

lemma cached_was_answered:
  assumes "cache_reach rt lag c" "c k = Some (payload, at')"
  shows "\<exists>asked token. ar_sha256 rt token = k \<and> ar_introspect rt asked token = Some (PDict payload) \<and> at' \<le> asked + lag"
  using assms
proof (induction arbitrary: payload at')
  case (look c now token)
  then have "c k = Some (payload, at')" using cache_get_fst [of rt now token c k] by auto
  then show ?case by (rule look.IH)
next
  case (store c asked token p stored)
  then show ?case by (auto simp: cache_put_def split: if_splits)
qed simp

lemma cache_get_hit:
  "cache_get rt now token c = (c', Some payload) \<Longrightarrow> \<exists>at'. c (ar_sha256 rt token) = Some (payload, at') \<and> now \<le> at' + ar_cache_ttl_s rt"
  by (auto simp: cache_get_def split: option.splits if_splits)

text \<open>Whatever a request learns about a token was said about it not long ago.\<close>

lemma introspect_recent:
  assumes "introspect_token rt ck token st = (st', Inr payload)" "cache_reach rt lag (au_cache st)"
    and "\<And>other. ar_sha256 rt other = ar_sha256 rt token \<Longrightarrow> other = token"
  shows "\<exists>asked. ar_introspect rt asked token = Some (PDict payload) \<and>
    (asked = rc_answer ck \<or> rc_get ck \<le> asked + lag + ar_cache_ttl_s rt)"
proof (cases "cache_get rt (rc_get ck) token (au_cache st)")
  case (Pair c hit)
  show ?thesis
  proof (cases hit)
    case None
    then show ?thesis using assms(1) Pair by (auto simp: introspect_token_def split: option.splits pyval.splits)
  next
    case (Some p)
    then have "p = payload" using assms(1) Pair by (simp add: introspect_token_def)
    then obtain at' where at: "au_cache st (ar_sha256 rt token) = Some (payload, at')" "rc_get ck \<le> at' + ar_cache_ttl_s rt"
      using cache_get_hit [of rt "rc_get ck" token "au_cache st" c payload] Pair Some by blast
    obtain asked other where "ar_sha256 rt other = ar_sha256 rt token" "ar_introspect rt asked other = Some (PDict payload)"
      "at' \<le> asked + lag" using cached_was_answered [OF assms(2) at(1)] by blast
    then show ?thesis using assms(3) at(2) by force
  qed
qed

text \<open>C31: Revocation takes effect. When the identity provider stops vouching for a token, then whatever
  requests share the cache and however they interleave, the token is refused, as a cookie and as a bearer
  credential, once the cache lifetime and the time an answer may be under way have passed.\<close>

theorem revoked_token_refused:
  assumes "cache_reach rt lag (au_cache st)" "\<And>other. ar_sha256 rt other = ar_sha256 rt token \<Longrightarrow> other = token"
    and "\<And>t payload. t \<ge> revoked \<Longrightarrow> ar_introspect rt t token = Some (PDict payload) \<Longrightarrow> \<not> py_truthy (get_or_none payload ''active'')"
    and "rc_get ck > revoked + lag + ar_cache_ttl_s rt" "rc_get ck \<le> rc_answer ck" "0 \<le> lag" "0 \<le> ar_cache_ttl_s rt"
  shows "(\<exists>e. snd (authenticate rt ck (Some token) st) = Inl e) \<and>
    (\<exists>e. snd (authenticate_client_credentials rt ck (Some token) st) = Inl e)"
proof -
  have inactive: "\<not> py_truthy (get_or_none payload ''active'')" if got: "introspect_token rt ck token st = (st', Inr payload)" for st' payload
  proof -
    obtain asked where a: "ar_introspect rt asked token = Some (PDict payload)"
      "asked = rc_answer ck \<or> rc_get ck \<le> asked + lag + ar_cache_ttl_s rt"
      using introspect_recent [OF got assms(1,2)] by blast
    from a(2) have "asked \<ge> revoked"
    proof
      assume "asked = rc_answer ck"
      then show ?thesis using assms(4-7) by linarith
    next
      assume "rc_get ck \<le> asked + lag + ar_cache_ttl_s rt"
      then show ?thesis using assms(4) by linarith
    qed
    then show ?thesis using assms(3) a(1) by blast
  qed
  obtain st' r where r: "introspect_token rt ck token st = (st', r)" by (cases "introspect_token rt ck token st")
  have s: "\<exists>e. session_of_payload rt (rc_check ck) payload = Inl e" and m: "\<exists>e. machine_of_payload rt (rc_check ck) payload = Inl e"
    if "r = Inr payload" for payload
    using inactive [of st' payload] r that by (simp_all add: session_of_payload_def machine_of_payload_def raise_if_def)
  have "\<exists>e. snd (authenticate rt ck (Some token) st) = Inl e"
    using s r by (cases r) (auto simp: authenticate_def auth_bind_def)
  moreover have "\<exists>e. snd (authenticate_client_credentials rt ck (Some token) st) = Inl e"
    using m r by (cases r) (auto simp: authenticate_client_credentials_def auth_bind_def)
  ultimately show ?thesis by blast
qed

theorem revoked_token_refused_witness:
  "let st = demo_state\<lparr>au_cache := cache_put demo_runtime 99 ''tok'' demo_payload (\<lambda>k. None)\<rparr>
   in (\<exists>s. snd (authenticate demo_runtime (demo_clock 129) (Some ''tok'') st) = Inr s) \<and>
      (\<exists>e. snd (authenticate demo_runtime (demo_clock 140) (Some ''tok'') st) = Inl e)"
proof -
  define st where "st = demo_state\<lparr>au_cache := cache_put demo_runtime 99 ''tok'' demo_payload (\<lambda>k. None)\<rparr>"
  have reach: "cache_reach demo_runtime 5 (au_cache st)"
    unfolding st_def by (simp, rule cache_reach.store [of _ _ _ 95], rule cache_reach.empty) (simp_all add: demo_runtime_def)
  have inj: "other = ''tok''" if "ar_sha256 demo_runtime other = ar_sha256 demo_runtime ''tok''" for other
    using that by (simp add: demo_runtime_def)
  have rev: "\<not> py_truthy (get_or_none payload ''active'')"
    if "t \<ge> 100" "ar_introspect demo_runtime t ''tok'' = Some (PDict payload)" for t payload
    using that by (simp add: demo_runtime_def)
  have "\<exists>e. snd (authenticate demo_runtime (demo_clock 140) (Some ''tok'') st) = Inl e"
    by (rule revoked_token_refused [OF reach inj rev, THEN conjunct1]) (auto simp: demo_clock_def demo_runtime_def)
  moreover have "\<exists>s. snd (authenticate demo_runtime (demo_clock 129) (Some ''tok'') st) = Inr s"
    unfolding st_def by (simp add: demo_simps resolve_roles_def Let_def)
  ultimately show ?thesis unfolding st_def by (simp only: Let_def)
qed

text \<open>Note: A malformed claim does not end in a 401. The documented contract is that any failure of a
  session becomes an authentication error; a token whose group claim is a number makes the request end in an
  uncaught type error instead.\<close>

theorem malformed_groups_escape:
  "snd (get_session_context (demo_runtime\<lparr>ar_introspect := \<lambda>t token. Some (PDict [(PStr ''active'', PBool True), (PStr ''exp'', PInt 600),
      (PStr ''sub'', PStr ''ann''), (PStr ''groups'', PInt 5)])\<rparr>) (demo_clock 5) cookie_request demo_state) = Inl TypeError"
  unfolding get_session_context_def cookie_no_header
  by (simp add: demo_simps resolve_breakglass_session_def resolve_local_session_def resolve_saml_session_def)

section \<open>Basic credentials\<close>

text \<open>What a client sends.\<close>

definition b64_char :: "nat \<Rightarrow> char" where
  "b64_char n = (if n < 26 then char_of (n + 65) else if n < 52 then char_of (n + 71) else if n < 62 then char_of (n - 4)
     else if n = 62 then CHR ''+'' else CHR ''/'')"

fun b64encode :: "string \<Rightarrow> string" where
  "b64encode [] = []"
| "b64encode [a] = [b64_char (of_char a div 4), b64_char (of_char a mod 4 * 16), CHR ''='', CHR ''='']"
| "b64encode [a, b] = [b64_char (of_char a div 4), b64_char (of_char a mod 4 * 16 + of_char b div 16),
     b64_char (of_char b mod 16 * 4), CHR ''='']"
| "b64encode (a # b # c # rest) = [b64_char (of_char a div 4), b64_char (of_char a mod 4 * 16 + of_char b div 16),
     b64_char (of_char b mod 16 * 4 + of_char c div 64), b64_char (of_char c mod 64)] @ b64encode rest"

lemma b64_digit_char: "n < 64 \<Longrightarrow> b64_digit (b64_char n) = Some n"
  by (auto simp: b64_digit_def b64_char_def Let_def)

lemma b64_digit_pad: "b64_digit CHR ''='' = None"
  by (simp add: b64_digit_def)

lemma of_char_bound: "(of_char c :: nat) < 256"
  by (rule nat_of_char_less_256)

text \<open>Three bytes as four sextets, and back.\<close>

lemma sextet_bounds:
  fixes a b c :: nat
  assumes "a < 256" "b < 256" "c < 256"
  shows "a div 4 < 64" "a mod 4 * 16 + b div 16 < 64" "b mod 16 * 4 + c div 64 < 64" "c mod 64 < 64"
    "a mod 4 * 16 < 64" "b mod 16 * 4 < 64"
  using assms by (simp_all add: less_mult_imp_div_less)

lemma regroup:
  fixes a b c :: nat
  assumes "b < 256" "c < 256"
  shows "a div 4 * 4 + (a mod 4 * 16 + b div 16) div 16 = a" "(a mod 4 * 16 + b div 16) mod 16 * 16 + (b mod 16 * 4 + c div 64) div 4 = b"
    "(b mod 16 * 4 + c div 64) mod 4 * 64 + c mod 64 = c" "a div 4 * 4 + (a mod 4 * 16) div 16 = a"
    "(a mod 4 * 16 + b div 16) mod 16 * 16 + (b mod 16 * 4) div 4 = b"
  using assms by simp_all

lemma b64decode_group:
  assumes "x < 64" "y < 64"
  shows "z < 64 \<Longrightarrow> w < 64 \<Longrightarrow> b64decode (b64_char x # b64_char y # b64_char z # b64_char w # rest) =
      map_option ((@) [char_of (x * 4 + y div 16), char_of (y mod 16 * 16 + z div 4), char_of (z mod 4 * 64 + w)]) (b64decode rest)"
    and "z < 64 \<Longrightarrow> b64decode [b64_char x, b64_char y, b64_char z, CHR ''=''] = Some [char_of (x * 4 + y div 16), char_of (y mod 16 * 16 + z div 4)]"
    and "b64decode [b64_char x, b64_char y, CHR ''='', CHR ''=''] = Some [char_of (x * 4 + y div 16)]"
  using assms by (simp_all add: b64_digit_char b64_digit_pad)

lemma b64_roundtrip: "b64decode (b64encode s) = Some s"
proof (induction s rule: b64encode.induct)
  case (2 a)
  note bounds = sextet_bounds [OF of_char_bound [of a] of_char_bound [of a] of_char_bound [of a]]
  show ?case
    unfolding b64encode.simps b64decode_group(3) [OF bounds(1,5)] regroup [OF of_char_bound of_char_bound] by simp
next
  case (3 a b)
  note bounds = sextet_bounds [OF of_char_bound [of a] of_char_bound [of b] of_char_bound [of b]]
  show ?case
    unfolding b64encode.simps b64decode_group(2) [OF bounds(1,2,6)] regroup [OF of_char_bound of_char_bound] by simp
next
  case (4 a b c rest)
  note bounds = sextet_bounds [OF of_char_bound [of a] of_char_bound [of b] of_char_bound [of c]]
  show ?case
    unfolding b64encode.simps append.simps b64decode_group(1) [OF bounds(1-4)] regroup [OF of_char_bound of_char_bound] 4 by simp
qed simp

lemma b64_not_space: "b64_digit c \<noteq> None \<or> c = CHR ''='' \<Longrightarrow> \<not> is_py_space c"
  by (auto simp: is_py_space_def b64_digit_def)

lemma b64_char_digit: "n < 64 \<Longrightarrow> b64_digit (b64_char n) \<noteq> None"
  by (simp add: b64_digit_char)

lemma b64encode_chars: "c \<in> set (b64encode s) \<Longrightarrow> b64_digit c \<noteq> None \<or> c = CHR ''=''"
proof (induction s rule: b64encode.induct)
  case (2 a)
  note bounds = sextet_bounds [OF of_char_bound [of a] of_char_bound [of a] of_char_bound [of a]]
  show ?case using 2 bounds(1,5) [THEN b64_char_digit] unfolding b64encode.simps list.set insert_iff empty_iff by blast
next
  case (3 a b)
  note bounds = sextet_bounds [OF of_char_bound [of a] of_char_bound [of b] of_char_bound [of b]]
  show ?case using 3 bounds(1,2,6) [THEN b64_char_digit] unfolding b64encode.simps list.set insert_iff empty_iff by blast
next
  case (4 a b d rest)
  note bounds = sextet_bounds [OF of_char_bound [of a] of_char_bound [of b] of_char_bound [of d]]
  show ?case using 4 bounds(1-4) [THEN b64_char_digit]
    unfolding b64encode.simps append.simps set_append list.set insert_iff Un_iff by blast
qed simp

lemma py_strip_id:
  assumes "\<forall>c \<in> set s. \<not> is_py_space c"
  shows "py_strip s = s"
proof -
  have "dropWhile is_py_space t = t" if "set t = set s" for t using assms that by (cases t) auto
  then show ?thesis by (simp add: py_strip_def)
qed

lemma parse_basic_encoded:
  assumes "map lower_char scheme = ''basic ''" "CHR '':'' \<notin> set user" "utf8 (user @ CHR '':'' # pw) = Some (user @ CHR '':'' # pw)"
  shows "parse_basic_header utf8 (Some (scheme @ b64encode (user @ CHR '':'' # pw))) = Some (user, pw)"
proof -
  have len: "length scheme = length ''basic ''" by (metis assms(1) length_map)
  have scheme: "has_scheme ''basic '' (scheme @ t)" for t using assms(1) len by (simp add: has_scheme_def)
  have rest: "drop (length ''basic '') (scheme @ t) = t" for t using len by simp
  have strip: "py_strip (b64encode t) = b64encode t" for t
    by (rule py_strip_id) (use b64encode_chars b64_not_space in blast)
  have part: "py_partition CHR '':'' (user @ CHR '':'' # pw) = (user, pw)"
    using assms(2) by (simp add: py_partition_def takeWhile_append dropWhile_append)
  show ?thesis
    unfolding parse_basic_header_def option.case rest strip b64_roundtrip using scheme assms(3) part by simp
qed

text \<open>Note: The right credentials get in. A client that encodes an account and its password the standard
  way, under any spelling of the scheme, is authenticated as that account when the password is right, the
  account is allowlisted and no failures are counted; a password may contain colons, an account may not.\<close>

theorem basic_credentials_accepted:
  assumes "map lower_char scheme = ''basic ''" "CHR '':'' \<notin> set user"
    and "ar_utf8 rt (user @ CHR '':'' # pw) = Some (user @ CHR '':'' # pw)"
    and "map_of (ar_m2m_basic_accounts rt) user = Some hash" "ar_verify_password rt pw hash"
    and "user \<in> ar_allowed_m2m_service_accounts rt" "redis_entry (rc_get ck) (BASIC_FAIL_KEY_PREFIX @ user) (au_redis st) = None"
  shows "snd (authenticate_basic_service_account rt ck (Some (scheme @ b64encode (user @ CHR '':'' # pw))) st) =
    Inr (machine_session rt user PosInf)"
proof -
  have "ar_allowed_m2m_service_accounts rt \<noteq> {}" using assms(6) by blast
  moreover have "read_in_window (rc_get ck) (BASIC_FAIL_KEY_PREFIX @ user) BASIC_LOCKOUT_WINDOW_S (au_redis st) = (au_redis st, 0, - 2)"
    using assms(7) by (simp add: read_in_window_def redis_get_def)
  ultimately show ?thesis
    using parse_basic_encoded [of scheme user "ar_utf8 rt" pw, OF assms(1-3)] assms(4-6)
    by (simp add: authenticate_basic_service_account_def BASIC_LOCKOUT_THRESHOLD_def)
qed

theorem basic_credentials_accepted_witness:
  "snd (authenticate_basic_service_account demo_runtime (demo_clock 5) (Some (''BASIC '' @ b64encode (''bot'' @ CHR '':'' # ''pw''))) demo_state) =
     Inr (machine_session demo_runtime ''bot'' PosInf)"
proof (rule basic_credentials_accepted)
  show "map lower_char ''BASIC '' = ''basic ''" by code_simp
qed (auto simp: demo_runtime_def demo_state_def redis_entry_def)

section \<open>The lifetime of the double-submit cookie\<close>

fun int_digits :: "bool \<Rightarrow> int \<Rightarrow> string \<Rightarrow> int option" where
  "int_digits after acc [] = (if after then Some acc else None)"
| "int_digits after acc (c # cs) = (let n = of_char c :: nat in
     if 48 \<le> n \<and> n \<le> 57 then int_digits True (acc * 10 + int (n - 48)) cs
     else if c = CHR ''_'' \<and> after then int_digits False acc cs else None)"

text \<open>\<open>int(text)\<close>: white space around, a sign, digits with single underscores between them.\<close>

definition py_int :: "string \<Rightarrow> int option" where
  "py_int s = (case py_strip s of
     [] \<Rightarrow> None
   | c # cs \<Rightarrow> if c = CHR ''-'' then map_option uminus (int_digits False 0 cs)
               else if c = CHR ''+'' then int_digits False 0 cs else int_digits False 0 (c # cs))"

definition session_ttl_from_env :: "string option \<Rightarrow> int \<Rightarrow> int res" where
  "session_ttl_from_env raw default_s =
     res_bind (case raw of None \<Rightarrow> Inr default_s
       | Some t \<Rightarrow> (case py_int t of None \<Rightarrow> Inl SessionTtlTooLongError | Some n \<Rightarrow> Inr n)) (\<lambda>ttl_s.
     res_bind (raise_if (ttl_s > CSRF_COOKIE_MAX_AGE_S) SessionTtlTooLongError) (\<lambda>_. Inr ttl_s))"

text \<open>The cookies of one browser: a value and the time it is dropped.\<close>

type_synonym cookie_jar = "string \<Rightarrow> (string \<times> real) option"

definition set_session_cookie :: "real \<Rightarrow> string \<Rightarrow> string \<Rightarrow> int \<Rightarrow> cookie_jar \<Rightarrow> cookie_jar" where
  "set_session_cookie now name value max_age_s jar = jar(name \<mapsto> (value, now + of_int max_age_s))"

definition set_csrf_cookie :: "real \<Rightarrow> string \<Rightarrow> cookie_jar \<Rightarrow> cookie_jar" where
  "set_csrf_cookie now token jar = jar(CSRF_COOKIE_NAME \<mapsto> (token, now + of_int CSRF_COOKIE_MAX_AGE_S))"

definition clear_all_session_cookies :: "cookie_jar \<Rightarrow> cookie_jar" where
  "clear_all_session_cookies jar = (\<lambda>name. if name \<in> set SESSION_COOKIE_NAMES \<or> name = CSRF_COOKIE_NAME then None else jar name)"

datatype browser_op = LoginAs string string string int | Logout

text \<open>Every login response sets the session cookie and the token cookie.\<close>

fun browser_step :: "real \<times> browser_op \<Rightarrow> cookie_jar \<Rightarrow> cookie_jar" where
  "browser_step (now, LoginAs name value token ttl) jar = set_csrf_cookie now token (set_session_cookie now name value ttl jar)"
| "browser_step (now, Logout) jar = clear_all_session_cookies jar"

definition sent :: "real \<Rightarrow> string \<Rightarrow> cookie_jar \<Rightarrow> bool" where
  "sent now name jar \<longleftrightarrow> (case jar name of None \<Rightarrow> False | Some (v, expires) \<Rightarrow> now < expires)"

definition csrf_covers :: "real \<Rightarrow> cookie_jar \<Rightarrow> bool" where
  "csrf_covers now jar \<longleftrightarrow> (\<forall>name \<in> set SESSION_COOKIE_NAMES. \<forall>v x. jar name = Some (v, x) \<longrightarrow>
     x \<le> now + of_int CSRF_COOKIE_MAX_AGE_S \<and> (\<exists>t y. jar CSRF_COOKIE_NAME = Some (t, y) \<and> x \<le> y))"

lemma session_names_distinct: "CSRF_COOKIE_NAME \<notin> set SESSION_COOKIE_NAMES"
  by (simp add: SESSION_COOKIE_NAMES_def CSRF_COOKIE_NAME_def SESSION_COOKIE_NAME_def BREAKGLASS_SESSION_COOKIE_NAME_def
      SAML_SESSION_COOKIE_NAME_def LOCAL_SESSION_COOKIE_NAME_def)

definition accepted_login :: "browser_op \<Rightarrow> bool" where
  "accepted_login op = (case op of LoginAs name value token ttl \<Rightarrow> name \<in> set SESSION_COOKIE_NAMES \<and>
     (\<exists>raw default_s. session_ttl_from_env raw default_s = Inr ttl) | Logout \<Rightarrow> True)"

lemma accepted_ttl: "session_ttl_from_env raw default_s = Inr ttl \<Longrightarrow> ttl \<le> CSRF_COOKIE_MAX_AGE_S"
  by (auto simp: session_ttl_from_env_def res_bind_eq_Inr raise_if_def split: if_splits)

lemma browser_step_covers:
  assumes "csrf_covers t jar" "t \<le> now" "accepted_login op"
  shows "csrf_covers now (browser_step (now, op) jar)"
proof (cases op)
  case (LoginAs name v token ttl)
  then have n: "name \<in> set SESSION_COOKIE_NAMES" "ttl \<le> CSRF_COOKIE_MAX_AGE_S"
    using assms(3) accepted_ttl by (auto simp: accepted_login_def)
  show ?thesis using assms(1,2) n session_names_distinct
    by (fastforce simp: LoginAs csrf_covers_def set_csrf_cookie_def set_session_cookie_def)
next
  case Logout
  then show ?thesis by (auto simp: csrf_covers_def clear_all_session_cookies_def)
qed

text \<open>Note: A session that can read can write. Whatever logins of whatever session types and logouts a
  browser goes through, with lifetimes that the configuration check accepts, as long as it sends any session
  cookie it also holds the token cookie that a write needs.\<close>

theorem csrf_cookie_outlives_sessions:
  assumes "sorted (map fst ops)" "\<forall>x \<in> set ops. fst x \<le> now \<and> accepted_login (snd x)"
    and "name \<in> set SESSION_COOKIE_NAMES" "sent now name (fold browser_step ops (\<lambda>k. None))"
  shows "sent now CSRF_COOKIE_NAME (fold browser_step ops (\<lambda>k. None))"
proof -
  have run: "\<exists>t. csrf_covers t (fold browser_step ops jar)"
    if "csrf_covers t0 jar" "sorted (map fst ops)" "\<forall>x \<in> set ops. t0 \<le> fst x \<and> accepted_login (snd x)" for ops t0 jar
    using that
  proof (induction ops arbitrary: t0 jar)
    case (Cons x ops)
    obtain t op where x: "x = (t, op)" by (cases x)
    have "csrf_covers t (browser_step (t, op) jar)" by (rule browser_step_covers) (use Cons.prems in \<open>auto simp: x\<close>)
    then show ?case using Cons.IH [of t "browser_step (t, op) jar"] Cons.prems(2,3) by (auto simp: x)
  qed auto
  have "\<exists>t. csrf_covers t (fold browser_step ops (\<lambda>k. None))"
  proof (cases ops)
    case (Cons x xs)
    show ?thesis by (rule run [of "fst x"]) (use assms(1,2) in \<open>auto simp: csrf_covers_def Cons\<close>)
  qed (simp add: csrf_covers_def)
  then show ?thesis using assms(3,4) unfolding csrf_covers_def sent_def
    by (auto split: option.splits prod.splits) (metis order_less_le_trans)
qed

theorem csrf_cookie_outlives_sessions_witness:
  "let ops = [(0, LoginAs LOCAL_SESSION_COOKIE_NAME ''l'' ''c1'' 28800), (10, LoginAs BREAKGLASS_SESSION_COOKIE_NAME ''b'' ''c2'' 900)];
       jar = fold browser_step ops (\<lambda>k. None)
   in sent 1000 LOCAL_SESSION_COOKIE_NAME jar \<and> \<not> sent 1000 BREAKGLASS_SESSION_COOKIE_NAME jar \<and> sent 1000 CSRF_COOKIE_NAME jar"
proof -
  define ops where "ops = [(0 :: real, LoginAs LOCAL_SESSION_COOKIE_NAME ''l'' ''c1'' 28800), (10, LoginAs BREAKGLASS_SESSION_COOKIE_NAME ''b'' ''c2'' 900)]"
  have ttl: "session_ttl_from_env None n = Inr n" if "n \<le> 604800" for n
    using that by (simp add: session_ttl_from_env_def CSRF_COOKIE_MAX_AGE_S_def raise_if_def)
  have names: "LOCAL_SESSION_COOKIE_NAME \<in> set SESSION_COOKIE_NAMES" "BREAKGLASS_SESSION_COOKIE_NAME \<in> set SESSION_COOKIE_NAMES"
    by (simp_all add: SESSION_COOKIE_NAMES_def)
  have ok: "\<forall>x \<in> set ops. fst x \<le> 1000 \<and> accepted_login (snd x)"
    using names ttl [of 28800] ttl [of 900] by (auto simp: ops_def accepted_login_def intro: exI [of _ None])
  have now: "sent 1000 LOCAL_SESSION_COOKIE_NAME (fold browser_step ops (\<lambda>k. None))"
    "\<not> sent 1000 BREAKGLASS_SESSION_COOKIE_NAME (fold browser_step ops (\<lambda>k. None))"
    by (simp_all add: ops_def sent_def set_csrf_cookie_def set_session_cookie_def LOCAL_SESSION_COOKIE_NAME_def
        BREAKGLASS_SESSION_COOKIE_NAME_def CSRF_COOKIE_NAME_def)
  have "sorted (map fst ops)" by (simp add: ops_def)
  from csrf_cookie_outlives_sessions [OF this ok names(1) now(1)] show ?thesis
    using now unfolding ops_def Let_def by blast
qed

end
