(* ===== verification/Engine_Health.thy ===== *)
theory Engine_Health
  imports Scan_Service Engine_Registry
begin

text \<open>
  The read side of the engine health table (orchestration/engine_health.py): how the engines behaved over
  the most recent scans, and on how much evidence the verdict of one scan rests. A row read back is the
  \<open>health_row\<close> of Scan_Store.
\<close>

section \<open>Behaviour over a window of scans\<close>

definition DEFAULT_WINDOW_SCANS :: int where "DEFAULT_WINDOW_SCANS = 50"
definition MAX_WINDOW_SCANS :: int where "MAX_WINDOW_SCANS = 200"
definition FAILED_ENGINE_STATUSES :: "string set" where "FAILED_ENGINE_STATUSES = {''error'', ''timeout''}"
definition DELIVERED_ENGINE_STATUSES :: "string set" where "DELIVERED_ENGINE_STATUSES = {''ok'', ''partial''}"

record health_counts =
  hk_ok :: nat
  hk_partial :: nat
  hk_error :: nat
  hk_not_reported :: nat
  hk_unreadable :: nat

definition counts_total :: "health_counts \<Rightarrow> nat" where
  "counts_total c = hk_ok c + hk_partial c + hk_error c + hk_not_reported c + hk_unreadable c"

definition counts_reported :: "health_counts \<Rightarrow> nat" where
  "counts_reported c = hk_ok c + hk_partial c + hk_error c"

definition status_in :: "string option \<Rightarrow> string set \<Rightarrow> bool" where
  "status_in st S = (case st of None \<Rightarrow> False | Some s \<Rightarrow> s \<in> S)"

text \<open>A value that no branch knows is counted nowhere.\<close>

definition count_row :: "health_row \<Rightarrow> health_counts \<Rightarrow> health_counts" where
  "count_row row c =
     (if hr_report_state row = report_state_value NOT_REPORTED then c\<lparr>hk_not_reported := Suc (hk_not_reported c)\<rparr>
      else if hr_report_state row = report_state_value UNREADABLE then c\<lparr>hk_unreadable := Suc (hk_unreadable c)\<rparr>
      else if hr_report_state row = report_state_value REPORTED then
        if status_in (hr_engine_status row) FAILED_ENGINE_STATUSES then c\<lparr>hk_error := Suc (hk_error c)\<rparr>
        else if hr_engine_status row = Some ''partial'' then c\<lparr>hk_partial := Suc (hk_partial c)\<rparr>
        else if hr_engine_status row = Some ''ok'' then c\<lparr>hk_ok := Suc (hk_ok c)\<rparr>
        else c
      else c)"

definition count_rows :: "health_row list \<Rightarrow> health_counts" where
  "count_rows rows = fold count_row rows \<lparr>hk_ok = 0, hk_partial = 0, hk_error = 0, hk_not_reported = 0, hk_unreadable = 0\<rparr>"

record health_summary =
  hs_engine_name :: string
  hs_observed_scans :: nat
  hs_counts :: health_counts
  hs_last :: health_row
  hs_measured_duration_count :: nat
  hs_max_analyze_duration_ms :: "int option"

record health_window =
  hw_requested_scans :: int
  hw_observed_scans :: nat
  hw_started_at :: "real option"
  hw_ended_at :: "real option"

record health_report =
  ht_window :: health_window
  ht_engines :: "health_summary list"

definition recency_key :: "health_row \<Rightarrow> real \<times> string" where
  "recency_key row = (hr_recorded_at row, hr_scan_id row)"

definition group_row :: "health_row \<Rightarrow> (string \<times> health_row list) list \<Rightarrow> (string \<times> health_row list) list" where
  "group_row row m = dict_put (hr_engine_name row)
     ((case map_of m (hr_engine_name row) of None \<Rightarrow> [] | Some rs \<Rightarrow> rs) @ [row]) m"

definition summary_of :: "string \<Rightarrow> health_row list \<Rightarrow> health_summary" where
  "summary_of engine_name engine_rows =
     (let durations = List.map_filter hr_analyze_duration_ms engine_rows
      in \<lparr>hs_engine_name = engine_name, hs_observed_scans = length engine_rows, hs_counts = count_rows engine_rows,
          hs_last = last engine_rows, hs_measured_duration_count = length durations,
          hs_max_analyze_duration_ms = (if durations \<noteq> [] then Some (Max (set durations)) else None)\<rparr>)"

definition summarize_engine_health :: "health_row list \<Rightarrow> int \<Rightarrow> health_report" where
  "summarize_engine_health observations requested_scans =
     (let rows = sort_key recency_key observations;
          by_engine = fold group_row rows [];
          summaries = map (\<lambda>n. summary_of n (the (map_of by_engine n))) (sort (map fst by_engine));
          scan_ids = set (map hr_scan_id rows)
      in \<lparr>ht_window = \<lparr>hw_requested_scans = requested_scans, hw_observed_scans = card scan_ids,
            hw_started_at = (if rows \<noteq> [] then Some (hr_recorded_at (hd rows)) else None),
            hw_ended_at = (if rows \<noteq> [] then Some (hr_recorded_at (last rows)) else None)\<rparr>,
          ht_engines = summaries\<rparr>)"

definition clamp_window_scans :: "int \<Rightarrow> int" where
  "clamp_window_scans requested_scans = max 1 (min requested_scans MAX_WINDOW_SCANS)"

definition last_recorded :: "health_row list \<Rightarrow> string \<Rightarrow> real" where
  "last_recorded rows scan_id = Max (set (map hr_recorded_at (filter (\<lambda>r. hr_scan_id r = scan_id) rows)))"

definition recent_scan_ids :: "health_row list \<Rightarrow> int \<Rightarrow> string list" where
  "recent_scan_ids rows limit =
     take (nat limit) (rev (sort_key (\<lambda>s. (last_recorded rows s, s)) (remdups (map hr_scan_id rows))))"

definition load_recent_engine_health :: "orch_db \<Rightarrow> int \<Rightarrow> health_report" where
  "load_recent_engine_health db requested_scans =
     (let limit = clamp_window_scans requested_scans;
          scan_ids = recent_scan_ids (od_health db) limit
      in if scan_ids = [] then summarize_engine_health [] limit
         else summarize_engine_health (filter (\<lambda>r. hr_scan_id r \<in> set scan_ids) (od_health db)) limit)"

section \<open>The evidence behind one verdict\<close>

datatype coverage_class = C_REPORTED | C_MISSING | C_NOT_APPLICABLE

definition classify_engine_coverage :: "health_row \<Rightarrow> string set \<Rightarrow> coverage_class" where
  "classify_engine_coverage row structurally_absent =
     (if hr_report_state row = report_state_value REPORTED then
        if status_in (hr_engine_status row) DELIVERED_ENGINE_STATUSES then C_REPORTED else C_MISSING
      else if hr_report_state row = report_state_value NOT_REPORTED \<and> hr_engine_name row \<in> structurally_absent
      then C_NOT_APPLICABLE else C_MISSING)"

record coverage_entry =
  ce_engine_name :: string
  ce_report_state :: string
  ce_engine_status :: "string option"
  ce_analyze_duration_ms :: "int option"
  ce_coverage :: coverage_class

record scan_engine_coverage =
  sg_expected :: nat
  sg_reported :: nat
  sg_not_applicable :: nat
  sg_entries :: "coverage_entry list"
  sg_observed :: bool

definition coverage_missing :: "scan_engine_coverage \<Rightarrow> nat" where
  "coverage_missing c = sg_expected c - sg_reported c"

definition coverage_complete :: "scan_engine_coverage \<Rightarrow> bool option" where
  "coverage_complete c = (if \<not> sg_observed c then None else Some (sg_reported c = sg_expected c))"

definition COVERAGE_BASIS_CURRENT_CONFIG :: string where "COVERAGE_BASIS_CURRENT_CONFIG = ''current_config''"

fun cover_rows :: "string set \<Rightarrow> health_row list \<Rightarrow> nat \<times> nat \<times> nat \<times> coverage_entry list" where
  "cover_rows absent [] = (0, 0, 0, [])"
| "cover_rows absent (row # rows) = (case cover_rows absent rows of (delivered, missing, not_applicable, entries) \<Rightarrow>
     let coverage = classify_engine_coverage row absent;
         entry = \<lparr>ce_engine_name = hr_engine_name row, ce_report_state = hr_report_state row,
           ce_engine_status = hr_engine_status row, ce_analyze_duration_ms = hr_analyze_duration_ms row, ce_coverage = coverage\<rparr>
     in if coverage = C_REPORTED then (Suc delivered, missing, not_applicable, entries)
        else if coverage = C_MISSING then (delivered, Suc missing, not_applicable, entry # entries)
        else (delivered, missing, Suc not_applicable, entry # entries))"

definition summarize_scan_coverage :: "health_row list \<Rightarrow> string set \<Rightarrow> scan_engine_coverage" where
  "summarize_scan_coverage observations structurally_absent =
     (let rows = sort_key hr_engine_name observations in
      case cover_rows structurally_absent rows of (delivered, missing, not_applicable, entries) \<Rightarrow>
        \<lparr>sg_expected = delivered + missing, sg_reported = delivered, sg_not_applicable = not_applicable,
         sg_entries = entries, sg_observed = (rows \<noteq> [])\<rparr>)"

definition load_scan_engine_coverage :: "orch_db \<Rightarrow> string \<Rightarrow> string set \<Rightarrow> scan_engine_coverage" where
  "load_scan_engine_coverage db scan_id structurally_absent =
     summarize_scan_coverage (filter (\<lambda>r. hr_scan_id r = scan_id) (od_health db)) structurally_absent"

section \<open>What complete evidence means\<close>

lemma cover_rows_counts:
  "cover_rows absent rows = (delivered, missing, na, entries) \<Longrightarrow>
     delivered = length (filter (\<lambda>r. classify_engine_coverage r absent = C_REPORTED) rows) \<and>
     missing = length (filter (\<lambda>r. classify_engine_coverage r absent = C_MISSING) rows) \<and>
     na = length (filter (\<lambda>r. classify_engine_coverage r absent = C_NOT_APPLICABLE) rows) \<and>
     map ce_engine_name entries = map hr_engine_name (filter (\<lambda>r. classify_engine_coverage r absent \<noteq> C_REPORTED) rows) \<and>
     length entries = missing + na"
proof (induction rows arbitrary: delivered missing na entries)
  case (Cons row rows)
  obtain a b c es where rec: "cover_rows absent rows = (a, b, c, es)" by (cases "cover_rows absent rows")
  show ?case using Cons.prems Cons.IH [OF rec] rec
    by (cases "classify_engine_coverage row absent") (auto simp: Let_def)
qed simp

lemma coverage_counts:
  defines "n c rows absent \<equiv> length (filter (\<lambda>r. classify_engine_coverage r absent = c) rows)"
  shows "sg_reported (summarize_scan_coverage rows absent) = n C_REPORTED rows absent"
    "sg_expected (summarize_scan_coverage rows absent) = n C_REPORTED rows absent + n C_MISSING rows absent"
    "sg_not_applicable (summarize_scan_coverage rows absent) = n C_NOT_APPLICABLE rows absent"
    "sg_observed (summarize_scan_coverage rows absent) \<longleftrightarrow> rows \<noteq> []"
proof -
  obtain a b c es where cov: "cover_rows absent (sort_key hr_engine_name rows) = (a, b, c, es)"
    by (cases "cover_rows absent (sort_key hr_engine_name rows)")
  have sorted: "length (filter P (sort_key hr_engine_name rows)) = length (filter P rows)" for P
    by (simp add: filter_sort)
  have abc: "a = n C_REPORTED rows absent" "b = n C_MISSING rows absent" "c = n C_NOT_APPLICABLE rows absent"
    using cover_rows_counts [OF cov] by (simp_all add: n_def sorted)
  have "sort_key hr_engine_name rows \<noteq> [] \<longleftrightarrow> rows \<noteq> []" by (metis length_0_conv length_sort)
  then show "sg_reported (summarize_scan_coverage rows absent) = n C_REPORTED rows absent"
    "sg_expected (summarize_scan_coverage rows absent) = n C_REPORTED rows absent + n C_MISSING rows absent"
    "sg_not_applicable (summarize_scan_coverage rows absent) = n C_NOT_APPLICABLE rows absent"
    "sg_observed (summarize_scan_coverage rows absent) \<longleftrightarrow> rows \<noteq> []"
    by (simp_all add: summarize_scan_coverage_def Let_def cov abc)
qed

lemma coverage_complete_iff:
  "coverage_complete (summarize_scan_coverage rows absent) = Some True \<longleftrightarrow>
     rows \<noteq> [] \<and> (\<forall>r \<in> set rows. classify_engine_coverage r absent \<noteq> C_MISSING)"
  by (auto simp: coverage_complete_def coverage_counts filter_empty_conv)

lemma classify_loaded:
  assumes "n \<noteq> []" "load_engine_result rd blobs sid n = Inr (r, h)"
  shows "classify_engine_coverage (health_row_of sid now h) absent \<noteq> C_MISSING \<longleftrightarrow>
    (\<exists>r. trusted_blob rd blobs sid n r \<and> usable r) \<or> blobs (findings_key sid n) = None \<and> n \<in> absent"
  using assms(1)
proof (cases rule: load_engine_result_cases [where rd = rd and blobs = blobs and sid = sid])
  case (trusted raw r' ms h')
  then have eq: "h' = h" using assms(2) by simp
  have "trusted_blob rd blobs sid n r'" using trusted unfolding trusted_blob_def by blast
  moreover have "r'' = r'" if "trusted_blob rd blobs sid n r''" for r''
    using that trusted unfolding trusted_blob_def by simp
  moreover have "status_in (Some (status_value (er_status r'))) DELIVERED_ENGINE_STATUSES \<longleftrightarrow> usable r'"
    by (cases "er_status r'") (simp_all add: status_in_def DELIVERED_ENGINE_STATUSES_def usable_def)
  ultimately have "(\<exists>r. trusted_blob rd blobs sid n r \<and> usable r) \<longleftrightarrow> status_in (Some (status_value (er_status r'))) DELIVERED_ENGINE_STATUSES"
    by blast
  moreover have "hr_report_state (health_row_of sid now h) = report_state_value REPORTED"
    "hr_engine_status (health_row_of sid now h) = Some (status_value (er_status r'))"
    using trusted(6,7) eq by (simp_all add: health_row_of_def)
  ultimately show ?thesis unfolding classify_engine_coverage_def using trusted(1) by simp
next
  case (placeholder r' h')
  then have eq: "h' = h" using assms(2) by simp
  have state: "report_state_value (hc_report_state h) \<noteq> report_state_value REPORTED"
    "report_state_value (hc_report_state h) = report_state_value NOT_REPORTED \<longleftrightarrow> blobs (findings_key sid n) = None"
    using placeholder(6,7) eq by (cases "hc_report_state h", simp_all)+
  have no: "\<not> trusted_blob rd blobs sid n x" for x
  proof
    assume "trusted_blob rd blobs sid n x"
    then obtain raw ms where "blobs (findings_key sid n) = Some raw"
      "parse_engine_result_with_duration (br_validate rd) raw = Inr (x, ms)" "em_name (er_engine x) = n"
      unfolding trusted_blob_def by blast
    then have "hc_report_state h = REPORTED"
      using assms(2) by (auto simp: load_engine_result_def Let_def health_record_post_init_def raise_if_def)
    then show False using placeholder(6) eq by simp
  qed
  have name: "hr_engine_name (health_row_of sid now h) = n" "hr_report_state (health_row_of sid now h) = report_state_value (hc_report_state h)"
    using placeholder(5) eq by (simp_all add: health_row_of_def)
  show ?thesis unfolding classify_engine_coverage_def name using state no by simp
qed

lemma loaded_all:
  assumes "list_all2 (\<lambda>n x. load_engine_result rd blobs sid n = Inr x) names loaded"
  shows "(\<forall>h \<in> set (map snd loaded). P h) \<longleftrightarrow> (\<forall>n \<in> set names. \<forall>r h. load_engine_result rd blobs sid n = Inr (r, h) \<longrightarrow> P h)"
  using assms by (induction rule: list_all2_induct) auto

text \<open>C30: Complete evidence means that every engine was counted. For a scan that was just scored, the
  coverage shown with its verdict says complete exactly when every engine of the scan delivered a trusted
  usable result, or delivered nothing at all and is one this deployment does not run.\<close>

theorem complete_evidence_means_counted:
  assumes "score_transaction cfg now odb blobs sid req force = Inr (Scored odb' sr jt extra)"
    and "\<forall>r \<in> set (od_health odb). hr_scan_id r \<noteq> sid" "[] \<notin> set (engine_set cfg req)"
  shows "coverage_complete (load_scan_engine_coverage odb' sid absent) = Some True \<longleftrightarrow>
    engine_set cfg req \<noteq> [] \<and> (\<forall>n \<in> set (engine_set cfg req).
      (\<exists>r. trusted_blob (dc_reader cfg) blobs sid n r \<and> usable r) \<or> blobs (findings_key sid n) = None \<and> n \<in> absent)"
proof -
  obtain job :: scan_job and hs where la: "load_and_aggregate (dc_reader cfg) blobs sid (sj_content_hash job) (engine_set cfg req) (dc_policy cfg) 0 5000 =
      Inr (sr, hs)" and health: "od_health odb' = od_health odb @ map (health_row_of sid now) hs"
    by (rule score_transaction_ScoredE [OF assms(1)]) (rule that)
  obtain loaded where l: "list_all2 (\<lambda>n x. load_engine_result (dc_reader cfg) blobs sid n = Inr x) (engine_set cfg req) loaded"
    "hs = map snd loaded" using la by (elim load_and_aggregate_InrE)
  have rows: "filter (\<lambda>r. hr_scan_id r = sid) (od_health odb') = map (health_row_of sid now) hs"
    using assms(2) by (simp add: health filter_empty_conv filter_map o_def health_row_of_def)
  have "hs = [] \<longleftrightarrow> engine_set cfg req = []" using l list_all2_lengthD [OF l(1)] by auto
  moreover have "(\<forall>h \<in> set hs. classify_engine_coverage (health_row_of sid now h) absent \<noteq> C_MISSING) \<longleftrightarrow>
    (\<forall>n \<in> set (engine_set cfg req).
      (\<exists>r. trusted_blob (dc_reader cfg) blobs sid n r \<and> usable r) \<or> blobs (findings_key sid n) = None \<and> n \<in> absent)"
    unfolding l(2) loaded_all [OF l(1)]
  proof (intro ball_cong refl)
    fix n
    assume "n \<in> set (engine_set cfg req)"
    then have n: "n \<noteq> []" using assms(3) by blast
    obtain r h where rh: "load_engine_result (dc_reader cfg) blobs sid n = Inr (r, h)"
      using load_engine_result_total [OF n] by fastforce
    show "(\<forall>r h. load_engine_result (dc_reader cfg) blobs sid n = Inr (r, h) \<longrightarrow>
        classify_engine_coverage (health_row_of sid now h) absent \<noteq> C_MISSING) \<longleftrightarrow>
      (\<exists>r. trusted_blob (dc_reader cfg) blobs sid n r \<and> usable r) \<or> blobs (findings_key sid n) = None \<and> n \<in> absent"
      using classify_loaded [OF n rh, of now absent] rh by simp
  qed
  ultimately show ?thesis
    unfolding load_scan_engine_coverage_def rows coverage_complete_iff by simp
qed

section \<open>What the window shows\<close>

lemma count_row_total:
  "counts_total (count_row row c) \<le> Suc (counts_total c)"
  by (simp add: count_row_def counts_total_def)

lemma group_rows:
  "map_of (fold group_row rows m) n =
     (case map_of m n of None \<Rightarrow> (let mine = filter (\<lambda>r. hr_engine_name r = n) rows in if mine = [] then None else Some mine)
      | Some old \<Rightarrow> Some (old @ filter (\<lambda>r. hr_engine_name r = n) rows))"
  by (induction rows arbitrary: m) (auto simp: group_row_def update_conv' split: option.splits)

definition known_row :: "health_row \<Rightarrow> bool" where
  "known_row r \<longleftrightarrow> hr_report_state r \<in> {report_state_value NOT_REPORTED, report_state_value UNREADABLE} \<or>
     hr_report_state r = report_state_value REPORTED \<and> status_in (hr_engine_status r) (FAILED_ENGINE_STATUSES \<union> DELIVERED_ENGINE_STATUSES)"

lemma count_row_known: "known_row r \<Longrightarrow> counts_total (count_row r c) = Suc (counts_total c)"
  by (auto simp: known_row_def count_row_def counts_total_def status_in_def DELIVERED_ENGINE_STATUSES_def split: option.splits)

lemma counts_exhaustive: "\<forall>r \<in> set rows. known_row r \<Longrightarrow> counts_total (count_rows rows) = length rows"
proof -
  have "counts_total (fold count_row rows c) = counts_total c + length rows" if "\<forall>r \<in> set rows. known_row r" for c
    using that by (induction rows arbitrary: c) (auto simp: count_row_known)
  then show "\<forall>r \<in> set rows. known_row r \<Longrightarrow> counts_total (count_rows rows) = length rows"
    by (simp add: count_rows_def counts_total_def)
qed

lemma sorted_last_greatest: "sorted xs \<Longrightarrow> x \<in> set xs \<Longrightarrow> x \<le> last xs"
  by (induction xs) auto

lemma last_most_recent:
  assumes "sorted (map recency_key rows)" "r \<in> set rows"
  shows "recency_key r \<le> recency_key (last rows)"
proof -
  have "rows \<noteq> []" using assms(2) by auto
  then show ?thesis using sorted_last_greatest [OF assms(1), of "recency_key r"] assms(2) by (simp add: last_map)
qed

lemma summarized_engines:
  "map hs_engine_name (ht_engines (summarize_engine_health obs n)) = sort (map fst (fold group_row (sort_key recency_key obs) []))"
  by (simp add: summarize_engine_health_def Let_def summary_of_def o_def)

text \<open>The rows of one engine, in the order of their recency.\<close>

definition engine_rows :: "health_row list \<Rightarrow> string \<Rightarrow> health_row list" where
  "engine_rows obs n = filter (\<lambda>r. hr_engine_name r = n) (sort_key recency_key obs)"

lemma summary_entry:
  assumes "s \<in> set (ht_engines (summarize_engine_health obs k))"
  shows "s = summary_of (hs_engine_name s) (engine_rows obs (hs_engine_name s)) \<and> engine_rows obs (hs_engine_name s) \<noteq> []"
proof -
  obtain n where n: "n \<in> fst ` set (fold group_row (sort_key recency_key obs) [])"
    "s = summary_of n (the (map_of (fold group_row (sort_key recency_key obs) []) n))"
    using assms by (auto simp: summarize_engine_health_def Let_def)
  have "map_of (fold group_row (sort_key recency_key obs) []) n \<noteq> None" using n(1) by (simp add: map_of_eq_None_iff)
  then have "map_of (fold group_row (sort_key recency_key obs) []) n = Some (engine_rows obs n) \<and> engine_rows obs n \<noteq> []"
    by (simp add: group_rows engine_rows_def Let_def split: if_splits)
  moreover have "hs_engine_name s = n" using n(2) by (simp add: summary_of_def Let_def)
  ultimately show ?thesis using n(2) by simp
qed

text \<open>Note: The health panel is exact. Each engine that has a row in the window is summarised once, over
  exactly its rows; the row shown as its last one is the most recent, and when every row carries a known state
  the five counts add up to the number of rows.\<close>

theorem health_summary_exact:
  assumes "s \<in> set (ht_engines (summarize_engine_health obs k))"
  shows "hs_observed_scans s = length (filter (\<lambda>r. hr_engine_name r = hs_engine_name s) obs) \<and>
    hs_last s \<in> set obs \<and> hr_engine_name (hs_last s) = hs_engine_name s \<and>
    (\<forall>r \<in> set obs. hr_engine_name r = hs_engine_name s \<longrightarrow> recency_key r \<le> recency_key (hs_last s)) \<and>
    ((\<forall>r \<in> set obs. known_row r) \<longrightarrow> counts_total (hs_counts s) = hs_observed_scans s) \<and>
    (\<forall>r \<in> set obs. \<forall>ms. hr_engine_name r = hs_engine_name s \<and> hr_analyze_duration_ms r = Some ms \<longrightarrow>
       (\<exists>m. hs_max_analyze_duration_ms s = Some m \<and> ms \<le> m))"
proof -
  let ?n = "hs_engine_name s" and ?rows = "engine_rows obs (hs_engine_name s)"
  have sm: "s = summary_of ?n ?rows" "?rows \<noteq> []" using summary_entry [OF assms] by blast+
  have fields: "hs_observed_scans s = length ?rows" "hs_last s = last ?rows" "hs_counts s = count_rows ?rows"
    "hs_max_analyze_duration_ms s = (let d = List.map_filter hr_analyze_duration_ms ?rows in if d \<noteq> [] then Some (Max (set d)) else None)"
    by (subst sm(1), simp add: summary_of_def Let_def)+
  have mem: "r \<in> set ?rows \<longleftrightarrow> r \<in> set obs \<and> hr_engine_name r = ?n" for r by (auto simp: engine_rows_def)
  have sorted: "sorted (map recency_key ?rows)" by (simp add: engine_rows_def sorted_filter)
  have last_in: "last ?rows \<in> set ?rows" using sm(2) by simp
  have "length ?rows = length (filter (\<lambda>r. hr_engine_name r = ?n) obs)" by (simp add: engine_rows_def filter_sort)
  moreover have "\<exists>m. hs_max_analyze_duration_ms s = Some m \<and> ms \<le> m" if "r \<in> set ?rows" "hr_analyze_duration_ms r = Some ms" for r ms
  proof -
    have "ms \<in> set (List.map_filter hr_analyze_duration_ms ?rows)" using that by (force simp: List.map_filter_def)
    then show ?thesis using fields(4) by (auto simp: Let_def)
  qed
  ultimately show ?thesis
    using fields mem last_in last_most_recent [OF sorted] counts_exhaustive [of ?rows] by (metis (no_types, lifting))
qed

end
