(* ===== verification/Marketplace_Views.thy ===== *)
theory Marketplace_Views
  imports Scan_Properties Engine_Health Gateway_Auth
begin

text \<open>
  What the marketplace is told about a skill (marketplace_api/views.py): the mapping of scan states, the binary
  answer with its reason, and the projection of the internal rows onto a fixed set of fields. A response
  body is a JSON object, an association list; the order in which a frozenset is iterated is the order the
  fields are listed in.
\<close>

section \<open>Status\<close>

definition STATUS_PROJECTION :: "(string \<times> string) list" where
  "STATUS_PROJECTION = [(''queued'', ''PENDING''), (''running'', ''RUNNING''), (''scored'', ''RUNNING''),
     (''decided'', ''COMPLETED''), (''failed'', ''COMPLETED'')]"

definition POLL_AFTER_MS :: "(string \<times> int) list" where
  "POLL_AFTER_MS = [(''PENDING'', 5000), (''RUNNING'', 15000), (''COMPLETED'', 0)]"

definition project_status :: "string \<Rightarrow> string res" where
  "project_status internal_state = (case map_of STATUS_PROJECTION internal_state of
     None \<Rightarrow> Inl ValueError | Some s \<Rightarrow> Inr s)"

section \<open>The binary answer\<close>

definition SAFE_VERDICT :: string where "SAFE_VERDICT = ''PASS''"
definition STATUS_COMPLETED :: string where "STATUS_COMPLETED = ''COMPLETED''"
definition UNSAFE_NOT_YET_SCANNED :: string where "UNSAFE_NOT_YET_SCANNED = ''not_yet_scanned''"
definition UNSAFE_SCAN_INCOMPLETE :: string where "UNSAFE_SCAN_INCOMPLETE = ''scan_incomplete''"
definition UNSAFE_HARD_GATE :: string where "UNSAFE_HARD_GATE = ''hard_gate''"
definition UNSAFE_PENDING_REVIEW :: string where "UNSAFE_PENDING_REVIEW = ''pending_review''"
definition UNSAFE_CONTENT_FINDINGS :: string where "UNSAFE_CONTENT_FINDINGS = ''content_findings''"

definition UNSAFE_REASONS :: "string set" where
  "UNSAFE_REASONS = {UNSAFE_NOT_YET_SCANNED, UNSAFE_SCAN_INCOMPLETE, UNSAFE_HARD_GATE, UNSAFE_PENDING_REVIEW,
     UNSAFE_CONTENT_FINDINGS}"

definition classify_safety :: "string \<Rightarrow> string option \<Rightarrow> bool \<Rightarrow> string list \<Rightarrow> bool \<times> string option" where
  "classify_safety status verdict fail_closed hard_gate_hits =
     (if status = STATUS_COMPLETED \<and> verdict = Some SAFE_VERDICT then (True, None)
      else if verdict = None then (False, Some UNSAFE_NOT_YET_SCANNED)
      else if fail_closed then (False, Some UNSAFE_SCAN_INCOMPLETE)
      else if hard_gate_hits \<noteq> [] then (False, Some UNSAFE_HARD_GATE)
      else if verdict = Some ''REVIEW'' then (False, Some UNSAFE_PENDING_REVIEW)
      else if verdict = Some SAFE_VERDICT then (False, Some UNSAFE_NOT_YET_SCANNED)
      else (False, Some UNSAFE_CONTENT_FINDINGS))"

section \<open>Fields\<close>

definition EXTERNAL_TOP_LEVEL_FIELDS :: "string set" where
  "EXTERNAL_TOP_LEVEL_FIELDS = {''skill_id'', ''content_hash'', ''status'', ''poll_after_ms'', ''is_safe'', ''unsafe_reason'',
     ''hard_gate_hits'', ''score'', ''policy_version'', ''decided_at'', ''verdict_jws'', ''judged_at_tier'',
     ''requested_tier'', ''tier_direction'', ''tier_direction_basis'', ''engines_expected'', ''engines_reported'',
     ''engines_not_applicable'', ''evidence_complete'', ''engine_coverage_basis'', ''summary'', ''findings''}"

definition EXTERNAL_FINDING_FIELDS :: "string list" where
  "EXTERNAL_FINDING_FIELDS = [''rule_id'', ''test_item_id'', ''category'', ''title'', ''severity'', ''confidence'',
     ''source_engine'', ''source_capability'', ''trifecta_signals'', ''file_path'', ''start_line'', ''evidence_redacted'']"

definition SEVERITY_BUCKET :: "(int \<times> string) list" where
  "SEVERITY_BUCKET = [(1, ''low''), (2, ''medium''), (3, ''high''), (4, ''critical'')]"

definition object_get :: "json_object \<Rightarrow> string \<Rightarrow> pyval" where
  "object_get d k = (case map_of d k of None \<Rightarrow> PNone | Some v \<Rightarrow> v)"

definition project_finding :: "json_object \<Rightarrow> json_object" where
  "project_finding raw = map (\<lambda>field. (field, object_get raw field)) EXTERNAL_FINDING_FIELDS"

text \<open>\<open>int(x)\<close> for a decoded JSON value.\<close>

fun int_of_value :: "pyval \<Rightarrow> int res" where
  "int_of_value (PInt n) = Inr n"
| "int_of_value (PBool b) = Inr (if b then 1 else 0)"
| "int_of_value (PFloat (Fin x)) = Inr (if x \<ge> 0 then \<lfloor>x\<rfloor> else \<lceil>x\<rceil>)"
| "int_of_value (PFloat NaN) = Inl ValueError"
| "int_of_value (PFloat _) = Inl OverflowError"
| "int_of_value (PStr s) = (case py_int s of None \<Rightarrow> Inl ValueError | Some n \<Rightarrow> Inr n)"
| "int_of_value _ = Inl TypeError"

text \<open>The bucket a finding is counted in, if any; a missing severity counts as 0.\<close>

definition finding_bucket :: "json_object \<Rightarrow> string option res" where
  "finding_bucket finding = res_bind (int_of_value (case map_of finding ''severity'' of None \<Rightarrow> PInt 0 | Some v \<Rightarrow> v))
     (\<lambda>n. Inr (map_of SEVERITY_BUCKET n))"

definition summarize :: "json_object list \<Rightarrow> bool \<Rightarrow> nat option \<Rightarrow> json_object res" where
  "summarize findings truncated findings_total =
     res_bind (res_map finding_bucket findings) (\<lambda>buckets.
       (let total = (case findings_total of None \<Rightarrow> length findings | Some n \<Rightarrow> n);
            counts = map (\<lambda>b. (b, PInt (int (count_list buckets (Some b))))) [''critical'', ''high'', ''medium'', ''low'']
        in Inr ((''total'', PInt (int total)) # counts @ [(''truncated'', PBool truncated)])))"

section \<open>The projection\<close>

fun direction_value :: "direction \<Rightarrow> string" where
  "direction_value Looser = ''looser''"
| "direction_value Stricter = ''stricter''"
| "direction_value Equivalent = ''equivalent''"

fun basis_value :: "basis \<Rightarrow> string" where
  "basis_value Signing_policy = ''signing_policy''"
| "basis_value Current_policy = ''current_policy''"

text \<open>The keyword arguments that default to \<open>None\<close>.\<close>

record answer_context =
  ac_judged_at_tier :: "string option"
  ac_requested_tier :: "string option"
  ac_tier_direction :: "direction option"
  ac_tier_direction_basis :: "basis option"
  ac_coverage :: "scan_engine_coverage option"

definition no_context :: answer_context where
  "no_context = \<lparr>ac_judged_at_tier = None, ac_requested_tier = None, ac_tier_direction = None,
     ac_tier_direction_basis = None, ac_coverage = None\<rparr>"

definition coverage_count :: "(scan_engine_coverage \<Rightarrow> nat) \<Rightarrow> scan_engine_coverage option \<Rightarrow> pyval" where
  "coverage_count f coverage = PInt (case coverage of None \<Rightarrow> 0 | Some c \<Rightarrow> int (f c))"

text \<open>The returned object.\<close>

definition answer_body ::
  "string \<Rightarrow> string option \<Rightarrow> string \<Rightarrow> int \<Rightarrow> bool \<times> string option \<Rightarrow> verdict_view option \<Rightarrow> scan_result_view option \<Rightarrow>
   answer_context \<Rightarrow> json_object \<Rightarrow> json_object" where
  "answer_body skill_id c_hash status poll_after_ms safety verdict_row result_row cx summary =
     [(''skill_id'', PStr skill_id), (''content_hash'', opt_val PStr c_hash), (''status'', PStr status),
      (''poll_after_ms'', PInt poll_after_ms), (''is_safe'', PBool (fst safety)), (''unsafe_reason'', opt_val PStr (snd safety)),
      (''hard_gate_hits'', PList (map PStr (case result_row of None \<Rightarrow> [] | Some r \<Rightarrow> rv_hard_gate_hits r))),
      (''score'', opt_val (PInt \<circ> vw_score) verdict_row),
      (''policy_version'', opt_val (PStr \<circ> vw_policy_version) verdict_row),
      (''decided_at'', opt_val (PStr \<circ> vw_issued_at) verdict_row),
      (''verdict_jws'', opt_val (PStr \<circ> vw_jws_signature) verdict_row),
      (''judged_at_tier'', opt_val PStr (ac_judged_at_tier cx)), (''requested_tier'', opt_val PStr (ac_requested_tier cx)),
      (''tier_direction'', opt_val (PStr \<circ> direction_value) (ac_tier_direction cx)),
      (''tier_direction_basis'', opt_val (PStr \<circ> basis_value) (ac_tier_direction_basis cx)),
      (''engines_expected'', coverage_count sg_expected (ac_coverage cx)),
      (''engines_reported'', coverage_count sg_reported (ac_coverage cx)),
      (''engines_not_applicable'', coverage_count sg_not_applicable (ac_coverage cx)),
      (''evidence_complete'', opt_val PBool (Option.bind (ac_coverage cx) coverage_complete)),
      (''engine_coverage_basis'', (case ac_coverage cx of None \<Rightarrow> PNone
         | Some c \<Rightarrow> if \<not> sg_observed c then PNone else PStr COVERAGE_BASIS_CURRENT_CONFIG)),
      (''summary'', py_obj summary),
      (''findings'', PList (map (py_obj \<circ> project_finding) (case result_row of None \<Rightarrow> [] | Some r \<Rightarrow> rv_findings r)))]"

definition safety_of :: "string \<Rightarrow> verdict_view option \<Rightarrow> scan_result_view option \<Rightarrow> bool \<times> string option" where
  "safety_of status verdict_row result_row =
     classify_safety status (map_option vw_verdict verdict_row) (case verdict_row of None \<Rightarrow> False | Some v \<Rightarrow> vw_fail_closed v)
       (case result_row of None \<Rightarrow> [] | Some r \<Rightarrow> rv_hard_gate_hits r)"

definition project_skill_verdict ::
  "string \<Rightarrow> string option \<Rightarrow> string option \<Rightarrow> verdict_view option \<Rightarrow> scan_result_view option \<Rightarrow> answer_context \<Rightarrow> json_object res" where
  "project_skill_verdict skill_id c_hash internal_state verdict_row result_row cx =
     res_bind (case internal_state of None \<Rightarrow> Inr ''PENDING'' | Some s \<Rightarrow> project_status s) (\<lambda>status.
     res_bind (case map_of POLL_AFTER_MS status of None \<Rightarrow> Inl KeyError | Some ms \<Rightarrow> Inr ms) (\<lambda>poll_after_ms.
     res_bind (summarize (case result_row of None \<Rightarrow> [] | Some r \<Rightarrow> rv_findings r)
         (case result_row of None \<Rightarrow> False | Some r \<Rightarrow> rv_findings_capped r) (Option.bind result_row rv_findings_total)) (\<lambda>summary.
     Inr (answer_body skill_id c_hash status poll_after_ms (safety_of status verdict_row result_row) verdict_row result_row cx summary))))"

section \<open>Facts\<close>

lemma classify_safe_iff: "fst (classify_safety status verdict fc hits) \<longleftrightarrow> status = STATUS_COMPLETED \<and> verdict = Some SAFE_VERDICT"
  by (simp add: classify_safety_def)

lemma project_status_scan_states: "s \<in> SCAN_STATES \<longleftrightarrow> (\<exists>e. project_status s = Inr e)"
  by (auto simp: project_status_def STATUS_PROJECTION_def SCAN_STATES_def state_defs split: option.splits if_splits)

lemma project_status_completed: "project_status s = Inr STATUS_COMPLETED \<longleftrightarrow> s \<in> {STATE_DECIDED, STATE_FAILED}"
  by (auto simp: project_status_def STATUS_PROJECTION_def STATUS_COMPLETED_def state_defs split: option.splits if_splits)

lemma project_status_polled: "project_status s = Inr e \<Longrightarrow> map_of POLL_AFTER_MS e \<noteq> None"
  by (auto simp: project_status_def STATUS_PROJECTION_def POLL_AFTER_MS_def split: option.splits if_splits)

lemma project_skill_verdict_InrE:
  assumes "project_skill_verdict skill_id ch state v r cx = Inr p"
  obtains status poll summary where "(case state of None \<Rightarrow> Inr ''PENDING'' | Some s \<Rightarrow> project_status s) = Inr status"
    "map_of POLL_AFTER_MS status = Some poll"
    "summarize (case r of None \<Rightarrow> [] | Some r \<Rightarrow> rv_findings r) (case r of None \<Rightarrow> False | Some r \<Rightarrow> rv_findings_capped r)
       (Option.bind r rv_findings_total) = Inr summary"
    "p = answer_body skill_id ch status poll (safety_of status v r) v r cx summary"
  using assms unfolding project_skill_verdict_def res_bind_eq_Inr by (elim exE conjE) (simp split: option.splits)

lemma answer_body_fields:
  assumes "b = answer_body skill_id ch status poll safety v r cx summary"
  shows "map_of b ''is_safe'' = Some (PBool (fst safety))" "map_of b ''unsafe_reason'' = Some (opt_val PStr (snd safety))"
    "map_of b ''status'' = Some (PStr status)" "map_of b ''content_hash'' = Some (opt_val PStr ch)"
    "map_of b ''poll_after_ms'' = Some (PInt poll)" "map_of b ''hard_gate_hits'' = Some (PList (map PStr (case r of None \<Rightarrow> [] | Some r \<Rightarrow> rv_hard_gate_hits r)))"
    "map_of b ''findings'' = Some (PList (map (py_obj \<circ> project_finding) (case r of None \<Rightarrow> [] | Some r \<Rightarrow> rv_findings r)))"
  unfolding assms answer_body_def by (simp_all only: map_of.simps fun_upd_def fst_conv snd_conv) simp_all

lemma answer_body_keys: "set (map fst (answer_body skill_id ch status poll safety v r cx summary)) = EXTERNAL_TOP_LEVEL_FIELDS"
  unfolding answer_body_def EXTERNAL_TOP_LEVEL_FIELDS_def by (simp only: list.map fst_conv list.set)

definition is_safe_of :: "json_object \<Rightarrow> bool" where
  "is_safe_of p \<longleftrightarrow> map_of p ''is_safe'' = Some (PBool True)"

lemma project_is_safe:
  assumes "project_skill_verdict skill_id ch state v r cx = Inr p"
  shows "is_safe_of p \<longleftrightarrow> state \<in> {Some STATE_DECIDED, Some STATE_FAILED} \<and> map_option vw_verdict v = Some SAFE_VERDICT"
  using assms
proof (rule project_skill_verdict_InrE)
  fix status poll summary
  assume st: "(case state of None \<Rightarrow> Inr ''PENDING'' | Some s \<Rightarrow> project_status s) = Inr status"
    and p: "p = answer_body skill_id ch status poll (safety_of status v r) v r cx summary"
  have "status = STATUS_COMPLETED \<longleftrightarrow> state \<in> {Some STATE_DECIDED, Some STATE_FAILED}"
  proof (cases state)
    case None
    then have "status = ''PENDING''" using st by simp
    then show ?thesis using None by (simp add: STATUS_COMPLETED_def)
  next
    case (Some s)
    then show ?thesis using st project_status_completed [of s] by auto
  qed
  then show ?thesis unfolding is_safe_of_def answer_body_fields [OF p] safety_of_def by (simp add: classify_safe_iff)
qed

end
