(* ===== verification/Detector_Permissions.thy ===== *)
theory Detector_Permissions
  imports Skill_Package Core_Engines
begin

text \<open>
  The floor detector of declared permissions (engine_runner/detectors/skill_permissions.py) and the shared
  deadline check of the floor detectors (\<open>_engine_base.py\<close>). Text is a list of code points. Parameters:
  white-space stripping, the digest, the Chinese display texts (\<open>display_texts\<close>; the two titles of one rule have
  keys of their own), and \<open>shown\<close>, the text of a path in a finding.
\<close>

section \<open>The deadline\<close>

definition run_with_deadline ::
  "engine_metadata \<Rightarrow> ('files \<Rightarrow> finding list res) \<Rightarrow> 'files \<Rightarrow> real \<Rightarrow> real option \<Rightarrow> engine_result res" where
  "run_with_deadline meta scan_fn files now deadline =
     (if (case deadline of None \<Rightarrow> False | Some dl \<Rightarrow> now > dl)
      then Inr \<lparr>er_engine = meta, er_findings = [], er_status = TIMEOUT, er_scan_mode = MODE_STATIC, er_llm_used = False,
             er_error = Some ''deadline exceeded''\<rparr>
      else res_bind (scan_fn files) (\<lambda>fs. Inr \<lparr>er_engine = meta, er_findings = fs, er_status = OK, er_scan_mode = MODE_STATIC,
             er_llm_used = False, er_error = None\<rparr>))"

section \<open>Rules\<close>

definition PERM_ENGINE_NAME :: string where "PERM_ENGINE_NAME = ''inhouse-skill-permissions''"

definition EXECUTION_TOOLS :: "ustr set" where "EXECUTION_TOOLS = ustr_of ` {''Bash'', ''Execute'', ''Shell'', ''Run''}"

definition NETWORK_TOOLS :: "ustr set" where
  "NETWORK_TOOLS = ustr_of ` {''WebFetch'', ''WebSearch'', ''Fetch'', ''HttpRequest''}"

definition PERMISSION_KEYS :: "ustr list" where
  "PERMISSION_KEYS = map ustr_of [''allowed-tools'', ''allowed_tools'', ''tools'', ''permissions'']"

definition PERM_TEST_ITEM_IDS :: "(string \<times> string) list" where
  "PERM_TEST_ITEM_IDS = [(''perm.dangerous_tool_combination'', ''PERM-05''), (''perm.unrestricted_bash'', ''PERM-05''),
     (''perm.undeclared_permissions'', ''PERM-04''), (''perm.malformed_frontmatter'', ''PERM-04'')]"

definition PERM_SEVERITIES :: "(string \<times> severity) list" where
  "PERM_SEVERITIES = [(''perm.dangerous_tool_combination'', HIGH), (''perm.unrestricted_bash'', MEDIUM),
     (''perm.undeclared_permissions'', LOW), (''perm.malformed_frontmatter'', LOW)]"

definition PERM_CONFIDENCE :: real where "PERM_CONFIDENCE = 9 / 10"

record perm_env =
  pe_strip :: "ustr \<Rightarrow> ustr"
  pe_sha256 :: "bytes \<Rightarrow> string"
  pe_texts :: display_texts
  pe_shown :: "ustr \<Rightarrow> string"
  pe_case :: case_maps
  pe_frontmatter :: frontmatter_reader

definition perm_finding :: "perm_env \<Rightarrow> string \<Rightarrow> ustr \<Rightarrow> string \<Rightarrow> ustr \<Rightarrow> finding res" where
  "perm_finding env rule_id path title evidence =
     (case (map_of PERM_TEST_ITEM_IDS rule_id, map_of PERM_SEVERITIES rule_id) of
        (Some item, Some severity) \<Rightarrow>
          res_bind (utf8_encode evidence) (\<lambda>b.
          finding_post_init \<lparr>fd_rule_id = rule_id, fd_test_item_id = item, fd_category = PERMISSION,
            fd_title = title_of (pe_texts env) title, fd_severity = severity, fd_confidence = PERM_CONFIDENCE,
            fd_source_engine = PERM_ENGINE_NAME, fd_source_capability = CAP_STATIC, fd_trifecta_signals = {},
            fd_file_path = Some (pe_shown env path), fd_start_line = None, fd_snippet_hash = Some (pe_sha256 env b),
            fd_evidence_redacted = risk_of (pe_texts env) rule_id\<rparr>)
      | _ \<Rightarrow> Inl KeyError)"

section \<open>Declared tools\<close>

fun tools_under :: "(ustr \<times> fm_value) list \<Rightarrow> ustr list \<Rightarrow> ustr list" where
  "tools_under frontmatter [] = []"
| "tools_under frontmatter (key # keys) = (case map_of frontmatter key of
     Some (FM_List vs) \<Rightarrow> List.map_filter id vs
   | Some (FM_Str v) \<Rightarrow> [v]
   | _ \<Rightarrow> tools_under frontmatter keys)"

definition declared_tools :: "(ustr \<times> fm_value) list \<Rightarrow> ustr list" where
  "declared_tools frontmatter = tools_under frontmatter PERMISSION_KEYS"

abbreviation paren :: nat where "paren \<equiv> 0x28"
abbreviation comma :: nat where "comma \<equiv> 0x2C"

definition base_tool :: "perm_env \<Rightarrow> ustr \<Rightarrow> ustr" where
  "base_tool env tool = pe_strip env (takeWhile (\<lambda>c. c \<noteq> paren) tool)"

section \<open>The scan\<close>

definition in_scripts :: "ustr \<Rightarrow> bool" where
  "in_scripts p \<longleftrightarrow> py_startswith p (ustr_of ''scripts/'') \<or> py_contains (ustr_of ''/scripts/'') p"

definition has_scripts :: "(ustr \<times> bytes) list \<Rightarrow> bool" where
  "has_scripts files \<longleftrightarrow> list_ex (\<lambda>(p, data). in_scripts p) files"

definition combined :: "perm_env \<Rightarrow> ustr list \<Rightarrow> bool" where
  "combined env tools \<longleftrightarrow> base_tool env ` set tools \<inter> EXECUTION_TOOLS \<noteq> {} \<and> base_tool env ` set tools \<inter> NETWORK_TOOLS \<noteq> {}"

definition unscoped :: "perm_env \<Rightarrow> ustr list \<Rightarrow> ustr list" where
  "unscoped env tools = sort (filter (\<lambda>e. base_tool env e \<in> EXECUTION_TOOLS \<and> paren \<notin> set e) tools)"

text \<open>The findings on a non-empty declaration.\<close>

definition tool_findings :: "perm_env \<Rightarrow> ustr \<Rightarrow> ustr list \<Rightarrow> finding list res" where
  "tool_findings env skill_md_path tools =
     res_bind (if combined env tools
       then res_bind (perm_finding env ''perm.dangerous_tool_combination'' skill_md_path ''combination''
              (py_join [comma] (sorted_list_of_set (base_tool env ` set tools)))) (\<lambda>f. Inr [f])
       else Inr []) (\<lambda>fs.
     res_bind (if unscoped env tools \<noteq> []
       then res_bind (perm_finding env ''perm.unrestricted_bash'' skill_md_path ''unrestricted''
              (py_join [comma] (unscoped env tools))) (\<lambda>f. Inr [f])
       else Inr []) (\<lambda>gs.
     Inr (fs @ gs)))"

definition perm_scan :: "perm_env \<Rightarrow> (ustr \<times> bytes) list \<Rightarrow> finding list res" where
  "perm_scan env files =
     (let skill_md_path = root_skill_md_path (pe_case env) (map fst files);
          only = (\<lambda>rule title. if \<not> has_scripts files then Inr []
            else res_bind (perm_finding env rule skill_md_path title skill_md_path) (\<lambda>f. Inr [f]))
      in case map_of files skill_md_path of
          None \<Rightarrow> only ''perm.undeclared_permissions'' ''no_root''
        | Some root_data \<Rightarrow> (case parse_frontmatter (pe_frontmatter env) root_data of
            None \<Rightarrow> only ''perm.malformed_frontmatter'' ''malformed''
          | Some frontmatter \<Rightarrow>
              (let tools = declared_tools frontmatter
               in if tools = [] then only ''perm.undeclared_permissions'' ''undeclared''
                  else tool_findings env skill_md_path tools)))"

definition perm_metadata :: "string \<Rightarrow> engine_metadata" where
  "perm_metadata digest = \<lparr>em_name = PERM_ENGINE_NAME, em_version = ''1.0.0'', em_ruleset_digest = digest,
     em_capabilities = {CAP_STATIC}, em_requires_network = False, em_requires_llm = False, em_deterministic = True\<rparr>"

definition perm_analyze :: "perm_env \<Rightarrow> string \<Rightarrow> (ustr \<times> bytes) list \<Rightarrow> real \<Rightarrow> real option \<Rightarrow> engine_result res" where
  "perm_analyze env digest files now deadline = run_with_deadline (perm_metadata digest) (perm_scan env) files now deadline"

section \<open>Facts\<close>

definition PERM_RULES :: "string set" where
  "PERM_RULES = {''perm.dangerous_tool_combination'', ''perm.unrestricted_bash'', ''perm.undeclared_permissions'',
     ''perm.malformed_frontmatter''}"

lemma perm_rule_distinct:
  "''perm.undeclared_permissions'' \<noteq> ''perm.malformed_frontmatter''" "''perm.dangerous_tool_combination'' \<noteq> ''perm.unrestricted_bash''"
  "''perm.undeclared_permissions'' \<noteq> ''perm.dangerous_tool_combination''" "''perm.undeclared_permissions'' \<noteq> ''perm.unrestricted_bash''"
  "''perm.malformed_frontmatter'' \<noteq> ''perm.dangerous_tool_combination''" "''perm.malformed_frontmatter'' \<noteq> ''perm.unrestricted_bash''"
  by simp_all

lemma perm_finding_Inr:
  "perm_finding env rule path t ev = Inr f \<Longrightarrow>
     fd_rule_id f = rule \<and> fd_file_path f = Some (pe_shown env path) \<and> rule \<in> PERM_RULES \<and> valid_finding f"
  by (auto simp: perm_finding_def res_bind_eq_Inr finding_post_init_iff PERM_TEST_ITEM_IDS_def PERM_RULES_def split: option.splits if_splits)

lemma perm_finding_total:
  assumes "rule \<in> PERM_RULES" "list_all is_scalar ev" "\<And>b. is_lower_hex (pe_sha256 env b)"
  shows "\<exists>f. perm_finding env rule path t ev = Inr f"
proof -
  obtain item severity where s: "map_of PERM_TEST_ITEM_IDS rule = Some item" "map_of PERM_SEVERITIES rule = Some severity" "severity \<noteq> NONE"
    using assms(1) by (auto simp: PERM_RULES_def PERM_TEST_ITEM_IDS_def PERM_SEVERITIES_def)
  have "rule \<noteq> []" using assms(1) by (auto simp: PERM_RULES_def)
  then show ?thesis using assms(2,3) s
    by (simp add: perm_finding_def utf8_encode_def finding_post_init_iff valid_finding_def PERM_CONFIDENCE_def)
qed

lemma perm_finding_surrogate: "\<not> list_all is_scalar ev \<Longrightarrow> rule \<in> PERM_RULES \<Longrightarrow> perm_finding env rule path t ev = Inl ValueError"
  by (auto simp: perm_finding_def utf8_encode_def PERM_RULES_def PERM_TEST_ITEM_IDS_def PERM_SEVERITIES_def)

lemma tool_findings_Inr:
  assumes "tool_findings env path tools = Inr fs"
  shows "map fd_rule_id fs = (if combined env tools then [''perm.dangerous_tool_combination''] else []) @
      (if unscoped env tools \<noteq> [] then [''perm.unrestricted_bash''] else [])"
    and "\<forall>f \<in> set fs. fd_file_path f = Some (pe_shown env path) \<and> valid_finding f"
proof -
  obtain a b where ab: "fs = a @ b"
    "(if combined env tools then res_bind (perm_finding env ''perm.dangerous_tool_combination'' path ''combination''
        (py_join [comma] (sorted_list_of_set (base_tool env ` set tools)))) (\<lambda>f. Inr [f]) else Inr []) = Inr a"
    "(if unscoped env tools \<noteq> [] then res_bind (perm_finding env ''perm.unrestricted_bash'' path ''unrestricted''
        (py_join [comma] (unscoped env tools))) (\<lambda>f. Inr [f]) else Inr []) = Inr b"
    using assms unfolding tool_findings_def res_bind_eq_Inr by blast
  have a: "map fd_rule_id a = (if combined env tools then [''perm.dangerous_tool_combination''] else []) \<and>
      (\<forall>f \<in> set a. fd_file_path f = Some (pe_shown env path) \<and> valid_finding f)"
    using ab(2) by (cases "combined env tools") (auto simp: res_bind_eq_Inr dest!: perm_finding_Inr)
  have b: "map fd_rule_id b = (if unscoped env tools \<noteq> [] then [''perm.unrestricted_bash''] else []) \<and>
      (\<forall>f \<in> set b. fd_file_path f = Some (pe_shown env path) \<and> valid_finding f)"
    using ab(3) by (cases "unscoped env tools = []") (auto simp: res_bind_eq_Inr dest!: perm_finding_Inr)
  show "map fd_rule_id fs = (if combined env tools then [''perm.dangerous_tool_combination''] else []) @
      (if unscoped env tools \<noteq> [] then [''perm.unrestricted_bash''] else [])"
    using a b by (simp only: ab(1) map_append)
  show "\<forall>f \<in> set fs. fd_file_path f = Some (pe_shown env path) \<and> valid_finding f"
    using a b by (auto simp: ab(1))
qed

text \<open>What the root manifest declares: nothing readable, or the tools.\<close>

datatype perm_decl = No_manifest | Malformed | Tools "ustr list"

definition declaration_of :: "perm_env \<Rightarrow> (ustr \<times> bytes) list \<Rightarrow> perm_decl" where
  "declaration_of env files = (case map_of files (root_skill_md_path (pe_case env) (map fst files)) of
     None \<Rightarrow> No_manifest
   | Some d \<Rightarrow> (case parse_frontmatter (pe_frontmatter env) d of None \<Rightarrow> Malformed | Some fm \<Rightarrow> Tools (declared_tools fm)))"

text \<open>The rules that fire on a declaration.\<close>

fun perm_rules_of :: "perm_env \<Rightarrow> bool \<Rightarrow> perm_decl \<Rightarrow> string list" where
  "perm_rules_of env scripts No_manifest = (if scripts then [''perm.undeclared_permissions''] else [])"
| "perm_rules_of env scripts Malformed = (if scripts then [''perm.malformed_frontmatter''] else [])"
| "perm_rules_of env scripts (Tools []) = (if scripts then [''perm.undeclared_permissions''] else [])"
| "perm_rules_of env scripts (Tools (t # ts)) =
     (if combined env (t # ts) then [''perm.dangerous_tool_combination''] else []) @
     (if unscoped env (t # ts) \<noteq> [] then [''perm.unrestricted_bash''] else [])"

lemma perm_scan_declaration:
  "perm_scan env files =
     (let path = root_skill_md_path (pe_case env) (map fst files);
          only = (\<lambda>rule title. if \<not> has_scripts files then Inr [] else res_bind (perm_finding env rule path title path) (\<lambda>f. Inr [f]))
      in case declaration_of env files of
        No_manifest \<Rightarrow> only ''perm.undeclared_permissions'' ''no_root''
      | Malformed \<Rightarrow> only ''perm.malformed_frontmatter'' ''malformed''
      | Tools tools \<Rightarrow> if tools = [] then only ''perm.undeclared_permissions'' ''undeclared'' else tool_findings env path tools)"
  by (simp add: perm_scan_def declaration_of_def Let_def split: option.split)

lemma single_finding:
  "(if \<not> s then Inr [] else res_bind (perm_finding env rule path t ev) (\<lambda>f. Inr [f])) = Inr fs \<Longrightarrow>
     map fd_rule_id fs = (if s then [rule] else []) \<and> (\<forall>f \<in> set fs. fd_file_path f = Some (pe_shown env path) \<and> valid_finding f)"
  by (cases s) (auto simp: res_bind_eq_Inr dest!: perm_finding_Inr)

text \<open>Note: The permission detector reports exactly what the root manifest calls for. Whatever the package holds,
  the rules that fire depend only on what the one root SKILL.md declares and on whether there are scripts: a
  missing, malformed or empty declaration is reported exactly when there are scripts, a declaration that
  combines an execution tool with a network tool and an execution tool without arguments are each reported,
  nothing else is, and every finding is valid and names the root manifest.\<close>

theorem permission_rules_exact:
  assumes "perm_scan env files = Inr fs"
  shows "map fd_rule_id fs = perm_rules_of env (has_scripts files) (declaration_of env files) \<and>
    (\<forall>f \<in> set fs. valid_finding f \<and> fd_file_path f = Some (pe_shown env (root_skill_md_path (pe_case env) (map fst files))))"
proof -
  note run = assms [unfolded perm_scan_declaration Let_def]
  show ?thesis
  proof (cases "declaration_of env files")
    case No_manifest
    show ?thesis using single_finding [OF run [unfolded No_manifest perm_decl.case]] by (simp add: No_manifest)
  next
    case Malformed
    show ?thesis using single_finding [OF run [unfolded Malformed perm_decl.case]] by (simp add: Malformed)
  next
    case (Tools tools)
    show ?thesis
    proof (cases tools)
      case Nil
      show ?thesis using single_finding [OF run [unfolded Tools Nil perm_decl.case simp_thms if_True]] by (simp add: Tools Nil)
    next
      case (Cons t ts)
      have "tool_findings env (root_skill_md_path (pe_case env) (map fst files)) (t # ts) = Inr fs"
        using run [unfolded Tools Cons perm_decl.case] by simp
      from tool_findings_Inr [OF this] show ?thesis by (simp add: Tools Cons)
    qed
  qed
qed

lemma py_join_contains: "x \<in> set xs \<Longrightarrow> set x \<subseteq> set (py_join sep xs)"
  by (induction sep xs rule: py_join.induct) auto

lemma join_scalar: "list_all is_scalar (py_join [comma] xs) \<longleftrightarrow> (\<forall>x \<in> set xs. list_all is_scalar x)" if "xs \<noteq> []"
proof -
  have "is_scalar comma" by (simp add: is_scalar_def)
  then show ?thesis using set_py_join [of "[comma]" xs] py_join_contains [where xs = xs and sep = "[comma]"] unfolding list_all_iff by fastforce
qed

text \<open>Note: The permission detector can raise. When the manifest combines an execution tool with a network tool and
  also declares a tool whose name is not encodable (the YAML loader decodes an escaped lone surrogate), the
  scan of this required detector ends in an exception instead of a finding.\<close>

theorem permission_scan_raises:
  assumes "declaration_of env files = Tools tools" "combined env tools" "t \<in> set tools" "\<not> list_all is_scalar (base_tool env t)"
  shows "perm_scan env files = Inl ValueError"
proof -
  have ne: "tools \<noteq> []" "sorted_list_of_set (base_tool env ` set tools) \<noteq> []" using assms(3) by auto
  have "\<not> list_all is_scalar (py_join [comma] (sorted_list_of_set (base_tool env ` set tools)))"
    using assms(3,4) by (auto simp: join_scalar [OF ne(2)])
  then have "perm_finding env ''perm.dangerous_tool_combination'' p ''combination''
      (py_join [comma] (sorted_list_of_set (base_tool env ` set tools))) = Inl ValueError" for p
    by (rule perm_finding_surrogate) (simp add: PERM_RULES_def)
  then show ?thesis using ne(1) assms(2)
    by (simp add: perm_scan_declaration assms(1) tool_findings_def Let_def)
qed

lemma tool_findings_total:
  assumes "\<And>b. is_lower_hex (pe_sha256 env b)" "\<And>s. set (pe_strip env s) \<subseteq> set s" "\<And>t. t \<in> set tools \<Longrightarrow> list_all is_scalar t"
  shows "\<exists>fs. tool_findings env path tools = Inr fs"
proof -
  have base: "list_all is_scalar (base_tool env t)" if "t \<in> set tools" for t
  proof -
    have "set (base_tool env t) \<subseteq> set t" using assms(2) set_takeWhileD unfolding base_tool_def by fastforce
    then show ?thesis using assms(3) [OF that] unfolding list_all_iff by blast
  qed
  have one: "\<exists>fs. (if P then res_bind (perm_finding env rule path t (py_join [comma] xs)) (\<lambda>f. Inr [f]) else Inr []) = Inr fs"
    if "rule \<in> PERM_RULES" "P \<Longrightarrow> xs \<noteq> []" "\<And>x. x \<in> set xs \<Longrightarrow> list_all is_scalar x" for P rule t xs
  proof (cases P)
    case True
    have "list_all is_scalar (py_join [comma] xs)" using join_scalar [OF that(2) [OF True]] that(3) by blast
    from perm_finding_total [OF that(1) this assms(1)] obtain f where "perm_finding env rule path t (py_join [comma] xs) = Inr f" by blast
    then show ?thesis using True by simp
  qed simp
  have rules: "''perm.dangerous_tool_combination'' \<in> PERM_RULES" "''perm.unrestricted_bash'' \<in> PERM_RULES"
    by (simp_all add: PERM_RULES_def)
  have bases: "combined env tools \<Longrightarrow> sorted_list_of_set (base_tool env ` set tools) \<noteq> []"
    "\<And>x. x \<in> set (sorted_list_of_set (base_tool env ` set tools)) \<Longrightarrow> list_all is_scalar x"
    using base by (auto simp: combined_def)
  have un: "\<And>x. x \<in> set (unscoped env tools) \<Longrightarrow> list_all is_scalar x" using assms(3) by (simp add: unscoped_def)
  obtain a where a: "(if combined env tools then res_bind (perm_finding env ''perm.dangerous_tool_combination'' path ''combination''
      (py_join [comma] (sorted_list_of_set (base_tool env ` set tools)))) (\<lambda>f. Inr [f]) else Inr []) = Inr a"
    using one [OF rules(1) bases] by blast
  obtain b where b: "(if unscoped env tools \<noteq> [] then res_bind (perm_finding env ''perm.unrestricted_bash'' path ''unrestricted''
      (py_join [comma] (unscoped env tools))) (\<lambda>f. Inr [f]) else Inr []) = Inr b"
    using one [OF rules(2) _ un, of "unscoped env tools \<noteq> []"] by blast
  have "tool_findings env path tools = Inr (a @ b)" unfolding tool_findings_def a b by simp
  then show ?thesis by blast
qed

text \<open>Note: With encodable text the permission detector never fails: for every package it returns findings.\<close>

theorem permission_scan_total:
  assumes "\<forall>b. is_lower_hex (pe_sha256 env b)" "\<forall>s. set (pe_strip env s) \<subseteq> set s"
    and "list_all is_scalar (root_skill_md_path (pe_case env) (map fst files))"
    and "\<forall>tools. declaration_of env files = Tools tools \<longrightarrow> (\<forall>t \<in> set tools. list_all is_scalar t)"
  shows "\<exists>fs. perm_scan env files = Inr fs"
proof -
  let ?path = "root_skill_md_path (pe_case env) (map fst files)"
  have only: "\<exists>fs. (if \<not> has_scripts files then Inr [] else res_bind (perm_finding env rule ?path t ?path) (\<lambda>f. Inr [f])) = Inr fs"
    if "rule \<in> PERM_RULES" for rule t
    using perm_finding_total [OF that assms(3), of env ?path t] assms(1) by (cases "has_scripts files") auto
  have rules: "''perm.undeclared_permissions'' \<in> PERM_RULES" "''perm.malformed_frontmatter'' \<in> PERM_RULES"
    by (simp_all add: PERM_RULES_def)
  show ?thesis
  proof (cases "declaration_of env files")
    case No_manifest
    then show ?thesis using only [OF rules(1)] by (simp add: perm_scan_declaration Let_def)
  next
    case Malformed
    then show ?thesis using only [OF rules(2)] by (simp add: perm_scan_declaration Let_def)
  next
    case (Tools tools)
    have "\<exists>fs. tool_findings env ?path tools = Inr fs"
      by (rule tool_findings_total) (use assms(1,2,4) Tools in blast)+
    then show ?thesis using only [OF rules(1)] Tools by (simp add: perm_scan_declaration Let_def)
  qed
qed

section \<open>A package\<close>

text \<open>A manifest that declares three tools, the last one with an escaped surrogate as its name when the
  switch is on.\<close>

definition perm_sample_env :: "bool \<Rightarrow> perm_env" where
  "perm_sample_env bad = \<lparr>pe_strip = id, pe_sha256 = (\<lambda>_. ''d''), pe_texts = \<lparr>title_of = id, risk_of = id\<rparr>, pe_shown = (\<lambda>_. ''p''),
     pe_case = \<lparr>cm_upper = id, cm_lower = id\<rparr>,
     pe_frontmatter = \<lparr>fm_decode = (\<lambda>d. Some (map unat d)), fm_load = (\<lambda>_. Some [(ustr_of ''tools'',
       FM_List [Some (ustr_of ''Bash''), Some (ustr_of ''WebFetch''), Some (if bad then [0xD800] else ustr_of ''Read'')])])\<rparr>\<rparr>"

definition perm_sample_files :: "(ustr \<times> bytes) list" where
  "perm_sample_files = [(SKILL_MD_NAME, map of_char (''---'' @ [CHR 0x0A] @ ''---''))]"

lemma perm_sample_root: "root_skill_md_path (pe_case (perm_sample_env bad)) (map fst perm_sample_files) = SKILL_MD_NAME"
  by code_simp

lemma perm_sample_declaration:
  "declaration_of (perm_sample_env bad) perm_sample_files =
     Tools [ustr_of ''Bash'', ustr_of ''WebFetch'', if bad then [0xD800] else ustr_of ''Read'']"
proof -
  have "parse_frontmatter (pe_frontmatter (perm_sample_env bad)) (map of_char (''---'' @ [CHR 0x0A] @ ''---'')) =
      fm_load (pe_frontmatter (perm_sample_env bad)) []"
    by (simp add: parse_frontmatter_def py_startswith_def perm_sample_env_def ustr_of_def MAX_FRONTMATTER_BYTES_def Let_def)
  moreover have "map_of perm_sample_files SKILL_MD_NAME = Some (map of_char (''---'' @ [CHR 0x0A] @ ''---''))"
    by (simp only: perm_sample_files_def map_of.simps fun_upd_same fst_conv snd_conv)
  ultimately show ?thesis
    unfolding declaration_of_def perm_sample_root
    by (simp add: perm_sample_env_def declared_tools_def PERMISSION_KEYS_def ustr_of_def List.map_filter_def)
qed

lemma perm_sample_combined: "combined (perm_sample_env bad) [ustr_of ''Bash'', ustr_of ''WebFetch'', x]"
proof -
  have "base_tool (perm_sample_env bad) (ustr_of ''Bash'') \<in> EXECUTION_TOOLS" "base_tool (perm_sample_env bad) (ustr_of ''WebFetch'') \<in> NETWORK_TOOLS"
    by (cases bad, code_simp, code_simp)+
  then show ?thesis unfolding combined_def by auto
qed

lemma perm_sample_tools:
  "declaration_of (perm_sample_env True) perm_sample_files = Tools [ustr_of ''Bash'', ustr_of ''WebFetch'', [0xD800]]"
  "declaration_of (perm_sample_env False) perm_sample_files = Tools [ustr_of ''Bash'', ustr_of ''WebFetch'', ustr_of ''Read'']"
  using perm_sample_declaration [of True] perm_sample_declaration [of False] by (simp_all only: if_True if_False)

lemma perm_sample_env_ok:
  "\<forall>b. is_lower_hex (pe_sha256 (perm_sample_env bad) b)" "\<forall>s. set (pe_strip (perm_sample_env bad) s) \<subseteq> set s"
  "list_all is_scalar SKILL_MD_NAME" "\<forall>t \<in> set [ustr_of ''Bash'', ustr_of ''WebFetch'', ustr_of ''Read'']. list_all is_scalar t"
proof -
  show "\<forall>b. is_lower_hex (pe_sha256 (perm_sample_env bad) b)" by (simp add: perm_sample_env_def is_lower_hex_def)
  show "\<forall>s. set (pe_strip (perm_sample_env bad) s) \<subseteq> set s" by (simp add: perm_sample_env_def)
  show "list_all is_scalar SKILL_MD_NAME" by (simp add: SKILL_MD_NAME_def ustr_of_def is_scalar_def)
  show "\<forall>t \<in> set [ustr_of ''Bash'', ustr_of ''WebFetch'', ustr_of ''Read'']. list_all is_scalar t"
    by (simp add: ustr_of_def is_scalar_def)
qed

theorem permission_scan_raises_witness: "perm_scan (perm_sample_env True) perm_sample_files = Inl ValueError"
proof (rule permission_scan_raises [OF perm_sample_tools(1) perm_sample_combined])
  show "[0xD800] \<in> set [ustr_of ''Bash'', ustr_of ''WebFetch'', [0xD800]]" by (simp only: list.set insert_iff simp_thms)
  show "\<not> list_all is_scalar (base_tool (perm_sample_env True) [0xD800])" by (simp add: base_tool_def perm_sample_env_def is_scalar_def)
qed

theorem permission_scan_total_witness: "\<exists>fs. perm_scan (perm_sample_env False) perm_sample_files = Inr fs"
proof (rule permission_scan_total [OF perm_sample_env_ok(1,2)])
  show "list_all is_scalar (root_skill_md_path (pe_case (perm_sample_env False)) (map fst perm_sample_files))"
    unfolding perm_sample_root by (rule perm_sample_env_ok(3))
  show "\<forall>tools. declaration_of (perm_sample_env False) perm_sample_files = Tools tools \<longrightarrow> (\<forall>t \<in> set tools. list_all is_scalar t)"
    unfolding perm_sample_tools perm_decl.inject using perm_sample_env_ok(4) by blast
qed

theorem permission_rules_exact_witness:
  "\<exists>fs. perm_scan (perm_sample_env False) perm_sample_files = Inr fs \<and>
     map fd_rule_id fs = [''perm.dangerous_tool_combination'', ''perm.unrestricted_bash'']"
proof -
  let ?tools = "[ustr_of ''Bash'', ustr_of ''WebFetch'', ustr_of ''Read'']"
  have "\<exists>fs. tool_findings (perm_sample_env False) SKILL_MD_NAME ?tools = Inr fs"
    by (rule tool_findings_total) (use perm_sample_env_ok in blast)+
  then obtain fs where "tool_findings (perm_sample_env False) SKILL_MD_NAME ?tools = Inr fs" by (elim exE)
  then have fs: "perm_scan (perm_sample_env False) perm_sample_files = Inr fs"
    unfolding perm_scan_declaration Let_def perm_sample_tools perm_sample_root perm_decl.case by (simp only: list.distinct if_False)
  have "unscoped (perm_sample_env False) ?tools \<noteq> []" by code_simp
  then have "perm_rules_of (perm_sample_env False) b (Tools ?tools) = [''perm.dangerous_tool_combination'', ''perm.unrestricted_bash'']" for b
    using perm_sample_combined [of False "ustr_of ''Read''"] by (simp only: perm_rules_of.simps if_True append.simps simp_thms)
  then have "map fd_rule_id fs = [''perm.dangerous_tool_combination'', ''perm.unrestricted_bash'']"
    using permission_rules_exact [OF fs] unfolding perm_sample_tools by (simp only:)
  then show ?thesis using fs by (intro exI [of _ fs] conjI)
qed

end
