(* ===== verification/Marketplace_Api.thy ===== *)
theory Marketplace_Api
  imports Marketplace_Views Archive_Unpack Detector_Permissions
begin

text \<open>
  The two endpoints of the marketplace (marketplace_api/router.py), their rate limit (ratelimit.py) and the
  fetch log (models.py). A handler takes the state and returns the new state with a reply: an answer, a
  refusal with its status code, a refusal with \<open>Retry-After\<close>, or an exception that reaches the framework.
  The calls into the inventory, the orchestration and the gate are the definitions of those theories. Other
  requests may run between the three transactions of a submission: they are the arguments \<open>gap1\<close> and
  \<open>gap2\<close>.
\<close>

section \<open>Rate limit\<close>

definition RATE_KEY_PREFIX :: string where "RATE_KEY_PREFIX = ''skillscan:mkt:rate:''"
definition RATE_WINDOW_S :: real where "RATE_WINDOW_S = 60"

definition check_rate_limit :: "real \<Rightarrow> string \<Rightarrow> int \<Rightarrow> redis \<Rightarrow> (redis \<times> real option) res" where
  "check_rate_limit now service_account limit_per_min r =
     res_bind (incr_in_window now (RATE_KEY_PREFIX @ service_account) RATE_WINDOW_S r) (\<lambda>(r', n, ttl).
       Inr (r', if n > limit_per_min then Some (if ttl > 0 then max 1 ttl else RATE_WINDOW_S) else None))"

section \<open>State and replies\<close>

record fetch_log_row =
  fl_skill_id :: string
  fl_scan_id :: "string option"
  fl_content_hash_shown :: "string option"
  fl_service_account :: string
  fl_fetched_at :: real
  fl_status_shown :: string
  fl_verdict_shown :: "string option"
  fl_is_safe_shown :: bool
  fl_unsafe_reason_shown :: "string option"

record 'raw market_state =
  ms_system :: "'raw system"
  ms_inventory :: inventory_db
  ms_redis :: redis
  ms_disabled :: "string set"
  ms_fetch_log :: "fetch_log_row list"
  ms_cross_scope :: nat

record 'raw market_runtime =
  mr_platform :: "'raw platform"
  mr_formats :: formats
  mr_text :: "ustr \<Rightarrow> string"
  mr_isoformat :: "real \<Rightarrow> string"
  mr_policy :: gate_policy
  mr_engine_metadatas :: "engine_metadata list"
  mr_sandbox_llm_configured :: bool
  mr_scan_deadline_s :: real
  mr_rate_limit_per_min :: int
  mr_inventory_configured :: bool
  mr_fetch_log_configured :: bool

datatype 'a reply = Answer 'a | Refused nat | Retry_After real | Crashed py_error

type_synonym ('raw, 'a) handler = "'raw market_state \<Rightarrow> 'raw market_state \<times> 'a reply"

definition reply_bind :: "('raw, 'a) handler \<Rightarrow> ('a \<Rightarrow> ('raw, 'b) handler) \<Rightarrow> ('raw, 'b) handler" where
  "reply_bind m f st = (case m st of
     (st', Answer x) \<Rightarrow> f x st'
   | (st', Refused n) \<Rightarrow> (st', Refused n)
   | (st', Retry_After s) \<Rightarrow> (st', Retry_After s)
   | (st', Crashed e) \<Rightarrow> (st', Crashed e))"

text \<open>The part of a session that the endpoints read; the subject of a session is a text.\<close>

record market_caller =
  mc_subject :: string
  mc_scopes :: "string set"
  mc_tier :: trust_tier

definition caller_of :: "session_context \<Rightarrow> market_caller option" where
  "caller_of s = (case sx_subject s of
     PStr who \<Rightarrow> Some \<lparr>mc_subject = who, mc_scopes = sx_scopes s, mc_tier = sx_tier s\<rparr> | _ \<Rightarrow> None)"

definition SUBMIT_SCOPE :: string where "SUBMIT_SCOPE = ''scan:submit''"
definition READ_SCOPE :: string where "READ_SCOPE = ''scan:read''"

definition rate_limited_session :: "'raw market_runtime \<Rightarrow> real \<Rightarrow> market_caller \<Rightarrow> ('raw, unit) handler" where
  "rate_limited_session rt now caller st =
     (case check_rate_limit now (mc_subject caller) (mr_rate_limit_per_min rt) (ms_redis st) of
        Inl e \<Rightarrow> (st, Crashed e)
      | Inr (r, Some retry_after) \<Rightarrow> (st\<lparr>ms_redis := r\<rparr>, Retry_After retry_after)
      | Inr (r, None) \<Rightarrow> (st\<lparr>ms_redis := r\<rparr>, Answer ()))"

definition require_scope :: "market_caller \<Rightarrow> string \<Rightarrow> ('raw, unit) handler" where
  "require_scope caller scope st = (st, if scope \<notin> mc_scopes caller then Refused 403 else Answer ())"

definition record_cross_scope_attempt :: "'raw market_state \<Rightarrow> 'raw market_state" where
  "record_cross_scope_attempt st = st\<lparr>ms_cross_scope := Suc (ms_cross_scope st)\<rparr>"

section \<open>The fetch log\<close>

definition text_field :: "json_object \<Rightarrow> string \<Rightarrow> string option" where
  "text_field p k = (case map_of p k of Some (PStr s) \<Rightarrow> Some s | _ \<Rightarrow> None)"

text \<open>\<open>write_ok\<close> tells whether the insert went through; a failed one is only logged.\<close>

definition record_fetch ::
  "'raw market_runtime \<Rightarrow> real \<Rightarrow> bool \<Rightarrow> string \<Rightarrow> string option \<Rightarrow> string \<Rightarrow> json_object \<Rightarrow> string option \<Rightarrow>
   'raw market_state \<Rightarrow> 'raw market_state" where
  "record_fetch rt now write_ok skill_id scan_id service_account projected verdict_shown st =
     (if \<not> mr_fetch_log_configured rt then st
      else if \<not> write_ok then st
      else st\<lparr>ms_fetch_log := ms_fetch_log st @ [\<lparr>fl_skill_id = skill_id, fl_scan_id = scan_id,
             fl_content_hash_shown = text_field projected ''content_hash'', fl_service_account = service_account,
             fl_fetched_at = now, fl_status_shown = the (text_field projected ''status''), fl_verdict_shown = verdict_shown,
             fl_is_safe_shown = is_safe_of projected,
             fl_unsafe_reason_shown = text_field projected ''unsafe_reason''\<rparr>]\<rparr>)"

section \<open>Polling\<close>

type_synonym answer = "json_object \<times> string option \<times> string option"

text \<open>\<open>next(...)\<close> over the caller's own rows that name a tier.\<close>

definition requested_tier_of :: "orch_db \<Rightarrow> string \<Rightarrow> string \<Rightarrow> string option" where
  "requested_tier_of odb scan_id who =
     (let sources = (case map_of (submitter_attribution odb [scan_id]) scan_id of None \<Rightarrow> [] | Some a \<Rightarrow> at_submitter_sources a)
      in Option.bind (List.find (\<lambda>(submitter, src, tier). submitter = who \<and> tier \<noteq> None) sources) (\<lambda>(submitter, src, tier). tier))"

definition scan_answer ::
  "'raw market_runtime \<Rightarrow> 'raw system \<Rightarrow> string \<Rightarrow> string \<Rightarrow> string set \<Rightarrow> string \<Rightarrow> scan_identity \<Rightarrow> answer res" where
  "scan_answer rt sy who skill_id structurally_absent c_hash scan =
     (let odb = sy_orch sy; scan_id = sc_scan_id scan;
          requested_tier = requested_tier_of odb scan_id who;
          verdict_row = get_verdict_view (mr_isoformat rt) (sy_gate sy) scan_id
      in case tier_divergence (mr_policy rt) requested_tier (sc_trust_tier scan) (map_option vw_policy_version verdict_row) of
        (direction, basis) \<Rightarrow>
          res_bind (project_skill_verdict skill_id (Some c_hash) (Some (sc_state scan)) verdict_row (get_scan_result_view odb scan_id)
            \<lparr>ac_judged_at_tier = sc_trust_tier scan, ac_requested_tier = requested_tier, ac_tier_direction = direction,
             ac_tier_direction_basis = basis, ac_coverage = Some (load_scan_engine_coverage odb scan_id structurally_absent)\<rparr>) (\<lambda>p.
          Inr (p, Some scan_id, map_option vw_verdict verdict_row)))"

definition content_answers ::
  "'raw market_runtime \<Rightarrow> 'raw system \<Rightarrow> string \<Rightarrow> string \<Rightarrow> string set \<Rightarrow> string \<Rightarrow> answer list res" where
  "content_answers rt sy who skill_id structurally_absent c_hash =
     (let scans = latest_scan_identities_for_content (sy_orch sy) c_hash
      in if scans = []
         then res_bind (project_skill_verdict skill_id (Some c_hash) None None None no_context) (\<lambda>p. Inr [(p, None, None)])
         else res_map (scan_answer rt sy who skill_id structurally_absent c_hash) scans)"

text \<open>\<open>min\<close> with a key: the first of the smallest.\<close>

definition first_min :: "('a \<Rightarrow> 'b :: linorder) \<Rightarrow> 'a list \<Rightarrow> 'a" where
  "first_min key xs = fold (\<lambda>y m. if key y < key m then y else m) (tl xs) (hd xs)"

definition poll_answer :: "'raw market_runtime \<Rightarrow> 'raw market_state \<Rightarrow> string \<Rightarrow> string \<Rightarrow> string list \<Rightarrow> answer res" where
  "poll_answer rt st who skill_id candidate_hashes =
     (if candidate_hashes = []
      then res_bind (project_skill_verdict skill_id None None None None no_context) (\<lambda>p. Inr (p, None, None))
      else let structurally_absent = structurally_absent_engine_names (ms_disabled st)
                 (llm_unconfigured_engine_names (mr_sandbox_llm_configured rt))
           in res_bind (res_map (content_answers rt (ms_system st) who skill_id structurally_absent) candidate_hashes) (\<lambda>answers.
              Inr (first_min (\<lambda>(p, s, v). is_safe_of p) (concat answers))))"

definition poll_skill :: "'raw market_runtime \<Rightarrow> real \<Rightarrow> bool \<Rightarrow> market_caller \<Rightarrow> string \<Rightarrow> ('raw, json_object) handler" where
  "poll_skill rt now write_ok caller raw_skill_id st =
     (let skill_id = py_strip raw_skill_id; who = mc_subject caller in
      if \<not> mr_inventory_configured rt then (st, Refused 503)
      else case get_registered_skill (ms_inventory st) skill_id of
          None \<Rightarrow> (st, Refused 404)
        | Some (recorded_owner, tier) \<Rightarrow>
            (case authorize_skill_read recorded_owner who of
               Inl e \<Rightarrow> (record_cross_scope_attempt st, Refused 404)
             | Inr u \<Rightarrow>
                 (case poll_answer rt st who skill_id (latest_skill_version_hashes (ms_inventory st) skill_id) of
                    Inl e \<Rightarrow> (st, Crashed e)
                  | Inr (projected, scan_id, verdict_shown) \<Rightarrow>
                      (record_fetch rt now write_ok skill_id scan_id who projected verdict_shown st, Answer projected))))"

definition get_marketplace_skill ::
  "'raw market_runtime \<Rightarrow> real \<Rightarrow> bool \<Rightarrow> market_caller \<Rightarrow> string \<Rightarrow> ('raw, json_object) handler" where
  "get_marketplace_skill rt now write_ok caller raw_skill_id =
     reply_bind (rate_limited_session rt now caller) (\<lambda>_.
     reply_bind (require_scope caller READ_SCOPE) (\<lambda>_.
     poll_skill rt now write_ok caller raw_skill_id))"

section \<open>Submitting\<close>

definition SKILL_ID_MAX_LENGTH :: nat where "SKILL_ID_MAX_LENGTH = 128"

record submission =
  sn_skill_id :: string
  sn_trust_tier :: "string option"
  sn_query_has_trust_tier :: bool
  sn_package :: bytes

text \<open>The refusals before any write, in their order: the tier the scan is judged at, or a status code.\<close>

definition submission_preflight :: "inventory_db \<Rightarrow> market_caller \<Rightarrow> string \<Rightarrow> string \<Rightarrow> ('raw, trust_tier) handler" where
  "submission_preflight idb caller skill_id c_hash st =
     (let content_owner = skill_id_for_content idb c_hash;
          later = (\<lambda>tier. if content_owner \<noteq> None \<and> content_owner \<noteq> Some skill_id then (st, Refused 409)
            else case validate_transition (current_state idb skill_id) ''submitted'' of
                Inl e \<Rightarrow> (st, Refused 409) | Inr u \<Rightarrow> (st, Answer tier))
      in case get_registered_skill idb skill_id of
          None \<Rightarrow> later (mc_tier caller)
        | Some (recorded_owner, recorded_tier) \<Rightarrow>
            (case authorize_skill_write recorded_owner (mc_subject caller) False of
               Inl e \<Rightarrow> (record_cross_scope_attempt st, Refused 403)
             | Inr u \<Rightarrow> later (case TrustTier_of recorded_tier of Inl e \<Rightarrow> PUBLIC | Inr t \<Rightarrow> t)))"

text \<open>The declared permissions of the root manifest.\<close>

definition declared_permissions :: "'raw market_runtime \<Rightarrow> file_entry list \<Rightarrow> pyval" where
  "declared_permissions rt files =
     (case List.find (\<lambda>(path, mode, data). path = root_skill_md_path (pf_case (mr_platform rt)) (map fst files)) files of
        None \<Rightarrow> PNone
      | Some (path, mode, data) \<Rightarrow> (case parse_frontmatter (pf_frontmatter (mr_platform rt)) data of
          None \<Rightarrow> PNone
        | Some frontmatter \<Rightarrow>
            PDict [(PStr ''tools'', PList (map (PStr \<circ> mr_text rt) (declared_tools frontmatter)))]))"

definition enabled_engines :: "'raw market_runtime \<Rightarrow> string set \<Rightarrow> engine_metadata list" where
  "enabled_engines rt disabled = map snd (filter_enabled_engines disabled (map (\<lambda>m. (em_name m, m)) (mr_engine_metadatas rt)))"

text \<open>The inventory transaction: registration and entry into scanning commit together or not at all.\<close>

definition register_submission ::
  "'raw market_runtime \<Rightarrow> real \<Rightarrow> market_caller \<Rightarrow> string \<Rightarrow> trust_tier \<Rightarrow> string \<Rightarrow> string \<Rightarrow> pyval \<Rightarrow> string \<Rightarrow>
   inventory_db \<Rightarrow> inventory_db res" where
  "register_submission rt now caller skill_id tier c_hash t_digest declared scan_id idb =
     res_bind (register_skill_version idb now skill_id ''marketplace-api'' (trust_tier_value tier) c_hash t_digest declared
       (mc_subject caller) False None) (\<lambda>idb1.
     transition_skill idb1 now skill_id ''scanning'' (''scan '' @ scan_id @ '' submitted'') (mc_subject caller) (Some c_hash) (Some scan_id))"

definition submit_package ::
  "'raw market_runtime \<Rightarrow> real \<Rightarrow> string \<Rightarrow> ('raw market_state \<Rightarrow> 'raw market_state) \<Rightarrow> ('raw market_state \<Rightarrow> 'raw market_state) \<Rightarrow>
   market_caller \<Rightarrow> string \<Rightarrow> file_entry list \<Rightarrow> ('raw, string) handler" where
  "submit_package rt now uuid gap1 gap2 caller skill_id files st =
     (case content_hash (pf_nfc (mr_platform rt)) (pf_sha256 (mr_platform rt)) files of
        Inl e \<Rightarrow> (st, Crashed e)
      | Inr c_hash \<Rightarrow> reply_bind (submission_preflight (ms_inventory st) caller skill_id c_hash) (\<lambda>tier st0.
          (let st1 = gap1 st0;
               metadatas = enabled_engines rt (ms_disabled st1)
           in case submit_scan (mr_platform rt) (ms_system st1) now uuid files (mc_subject caller) metadatas (mr_policy rt) tier
                     MARKETPLACE tier (mr_scan_deadline_s rt) of
               (sy, Inl e) \<Rightarrow> (st1\<lparr>ms_system := sy\<rparr>, Crashed e)
             | (sy, Inr scan_id) \<Rightarrow>
                 (let st2 = gap2 (st1\<lparr>ms_system := sy\<rparr>)
                  in case res_bind (cache_policy_version (pf_iter (mr_platform rt)) (pf_repr (mr_platform rt))
                              (pf_sha256_text (mr_platform rt)) (mr_policy rt))
                            (\<lambda>cpv. toolchain_digest (pf_sha256 (mr_platform rt)) metadatas cpv ''none'') of
                      Inl e \<Rightarrow> (st2, Crashed e)
                    | Inr t_digest \<Rightarrow>
                        (case register_submission rt now caller skill_id tier c_hash t_digest (declared_permissions rt files) scan_id
                                (ms_inventory st2) of
                           Inr idb \<Rightarrow> (st2\<lparr>ms_inventory := idb\<rparr>, Answer scan_id)
                         | Inl e \<Rightarrow>
                             if e = SkillOwnershipError then (record_cross_scope_attempt st2, Refused 403)
                             else if e = ContentRegisteredToAnotherSkillError then (st2, Refused 409)
                             else if e = InvalidTransitionError then (st2, Refused 409)
                             else (st2, Crashed e))))) st)"

definition submit_marketplace_scan ::
  "'raw market_runtime \<Rightarrow> real \<Rightarrow> string \<Rightarrow> ('raw market_state \<Rightarrow> 'raw market_state) \<Rightarrow> ('raw market_state \<Rightarrow> 'raw market_state) \<Rightarrow>
   market_caller \<Rightarrow> submission \<Rightarrow> ('raw, string) handler" where
  "submit_marketplace_scan rt now uuid gap1 gap2 caller sn =
     reply_bind (rate_limited_session rt now caller) (\<lambda>_ st.
     if length (sn_skill_id sn) > SKILL_ID_MAX_LENGTH then (st, Refused 422)
     else reply_bind (require_scope caller SUBMIT_SCOPE) (\<lambda>_ st.
       (let skill_id = py_strip (sn_skill_id sn) in
        if skill_id = [] then (st, Refused 400)
        else if \<not> mr_inventory_configured rt then (st, Refused 503)
        else if sn_trust_tier sn \<noteq> None \<or> sn_query_has_trust_tier sn then (st, Refused 400)
        else case unpack_package_archive (mr_formats rt) (sn_package sn) of
            Inl e \<Rightarrow> (st, if e = UnpackRejected then Refused 400 else Crashed e)
          | Inr files \<Rightarrow> submit_package rt now uuid gap1 gap2 caller skill_id files st)) st)"

section \<open>Facts\<close>

lemma reply_bind_Answer:
  assumes "reply_bind m f st = (st', Answer y)"
  obtains st1 x where "m st = (st1, Answer x)" "f x st1 = (st', Answer y)"
  using assms by (auto simp: reply_bind_def split: prod.splits reply.splits)

lemma rate_limited_session_Answer:
  assumes "rate_limited_session rt now caller st = (st', Answer u)"
  obtains r where "st' = st\<lparr>ms_redis := r\<rparr>"
  using assms by (auto simp: rate_limited_session_def split: sum.splits option.splits prod.splits)

lemma require_scope_Answer: "require_scope caller scope st = (st', Answer u) \<Longrightarrow> st' = st \<and> scope \<in> mc_scopes caller"
  by (auto simp: require_scope_def split: if_splits)

lemma first_min_props:
  assumes "xs \<noteq> []"
  shows "first_min key xs \<in> set xs \<and> (\<forall>y \<in> set xs. key (first_min key xs) \<le> key y)"
proof -
  have "fold (\<lambda>y m. if key y < key m then y else m) ys m \<in> insert m (set ys) \<and>
      (\<forall>y \<in> insert m (set ys). key (fold (\<lambda>y m. if key y < key m then y else m) ys m) \<le> key y)" for ys m
  proof (induction ys arbitrary: m)
    case (Cons y ys)
    show ?case using Cons [of "if key y < key m then y else m"] by (auto split: if_splits)
  qed simp
  from this [of "tl xs" "hd xs"] show ?thesis using assms unfolding first_min_def by (cases xs) simp_all
qed

lemma res_map_elem: "res_map f xs = Inr ys \<Longrightarrow> x \<in> set xs \<Longrightarrow> \<exists>y \<in> set ys. f x = Inr y"
  by (induction xs arbitrary: ys) (auto simp: res_bind_eq_Inr)

lemma scan_answer_InrE:
  assumes "scan_answer rt sy who skill_id absent ch scan = Inr (p, s, v)"
  obtains cx where "project_skill_verdict skill_id (Some ch) (Some (sc_state scan))
      (get_verdict_view (mr_isoformat rt) (sy_gate sy) (sc_scan_id scan)) (get_scan_result_view (sy_orch sy) (sc_scan_id scan)) cx = Inr p"
  using assms unfolding scan_answer_def Let_def by (auto simp: res_bind_eq_Inr split: prod.splits)

lemma scan_answer_safe:
  assumes "scan_answer rt sy who skill_id absent ch scan = Inr (p, s, v)"
  shows "is_safe_of p \<longleftrightarrow> sc_state scan \<in> {STATE_DECIDED, STATE_FAILED} \<and>
    (\<exists>row. map_of (gd_verdicts (sy_gate sy)) (sc_scan_id scan) = Some row \<and> vd_verdict row = ''PASS'')"
proof -
  obtain cx where "project_skill_verdict skill_id (Some ch) (Some (sc_state scan))
      (get_verdict_view (mr_isoformat rt) (sy_gate sy) (sc_scan_id scan)) (get_scan_result_view (sy_orch sy) (sc_scan_id scan)) cx = Inr p"
    using assms by (rule scan_answer_InrE)
  from project_is_safe [OF this] show ?thesis
    by (auto simp: get_verdict_view_def SAFE_VERDICT_def)
qed

text \<open>What a candidate version must look like when all its answers are safe.\<close>

lemma content_answers_safe:
  assumes "content_answers rt sy who skill_id absent ch = Inr as" "\<forall>(p, s, v) \<in> set as. is_safe_of p"
  shows "latest_scan_identities_for_content (sy_orch sy) ch \<noteq> [] \<and>
    (\<forall>scan \<in> set (latest_scan_identities_for_content (sy_orch sy) ch). sc_state scan \<in> {STATE_DECIDED, STATE_FAILED} \<and>
      (\<exists>row. map_of (gd_verdicts (sy_gate sy)) (sc_scan_id scan) = Some row \<and> vd_verdict row = ''PASS''))"
proof
  let ?scans = "latest_scan_identities_for_content (sy_orch sy) ch"
  show ne: "?scans \<noteq> []"
  proof
    assume "?scans = []"
    then obtain p where p: "project_skill_verdict skill_id (Some ch) None None None no_context = Inr p" "as = [(p, None, None)]"
      using assms(1) by (auto simp: content_answers_def res_bind_eq_Inr)
    then show False using project_is_safe [OF p(1)] assms(2) by simp
  qed
  then have map: "res_map (scan_answer rt sy who skill_id absent ch) ?scans = Inr as"
    using assms(1) by (simp add: content_answers_def)
  show "\<forall>scan \<in> set ?scans. sc_state scan \<in> {STATE_DECIDED, STATE_FAILED} \<and>
      (\<exists>row. map_of (gd_verdicts (sy_gate sy)) (sc_scan_id scan) = Some row \<and> vd_verdict row = ''PASS'')"
  proof
    fix scan assume "scan \<in> set ?scans"
    from res_map_elem [OF map this] obtain y where y: "y \<in> set as" "scan_answer rt sy who skill_id absent ch scan = Inr y" ..
    obtain p s v where psv: "y = (p, s, v)" by (cases y)
    have "is_safe_of p" using assms(2) y(1) unfolding psv by fastforce
    then show "sc_state scan \<in> {STATE_DECIDED, STATE_FAILED} \<and>
      (\<exists>row. map_of (gd_verdicts (sy_gate sy)) (sc_scan_id scan) = Some row \<and> vd_verdict row = ''PASS'')"
      using scan_answer_safe y(2) unfolding psv by blast
  qed
qed

lemma poll_skill_Answer:
  assumes "poll_skill rt now ok caller raw st = (st', Answer p)"
  obtains tier scan_id shown where "get_registered_skill (ms_inventory st) (py_strip raw) = Some (Some (mc_subject caller), tier)"
    "poll_answer rt st (mc_subject caller) (py_strip raw) (latest_skill_version_hashes (ms_inventory st) (py_strip raw)) = Inr (p, scan_id, shown)"
    "st' = record_fetch rt now ok (py_strip raw) scan_id (mc_subject caller) p shown st"
  using assms unfolding poll_skill_def Let_def
  by (auto simp: authorize_skill_read_def split: if_splits option.splits sum.splits prod.splits)

lemma get_marketplace_skill_Answer:
  assumes "get_marketplace_skill rt now ok caller raw st = (st', Answer p)"
  obtains r where "READ_SCOPE \<in> mc_scopes caller" "poll_skill rt now ok caller raw (st\<lparr>ms_redis := r\<rparr>) = (st', Answer p)"
proof -
  from assms [unfolded get_marketplace_skill_def] obtain st1 u where 1: "rate_limited_session rt now caller st = (st1, Answer u)"
    "reply_bind (require_scope caller READ_SCOPE) (\<lambda>_. poll_skill rt now ok caller raw) st1 = (st', Answer p)" by (rule reply_bind_Answer)
  obtain r where r: "st1 = st\<lparr>ms_redis := r\<rparr>" using 1(1) by (rule rate_limited_session_Answer)
  from 1(2) obtain st2 u' where "require_scope caller READ_SCOPE st1 = (st2, Answer u')" "poll_skill rt now ok caller raw st2 = (st', Answer p)"
    by (rule reply_bind_Answer)
  then show thesis using that r require_scope_Answer by blast
qed

lemma poll_answer_cases:
  assumes "poll_answer rt st who skill_id hashes = Inr a"
  obtains (none) p where "hashes = []" "project_skill_verdict skill_id None None None None no_context = Inr p" "a = (p, None, None)"
    | (some) absent answers where "hashes \<noteq> []" "res_map (content_answers rt (ms_system st) who skill_id absent) hashes = Inr answers"
      "a = first_min (\<lambda>(p, s, v). is_safe_of p) (concat answers)"
  using assms by (cases "hashes = []") (auto simp: poll_answer_def res_bind_eq_Inr Let_def)

lemma content_answers_projected:
  assumes "content_answers rt sy who skill_id absent ch = Inr as"
  shows "as \<noteq> [] \<and> (\<forall>(p, s, v) \<in> set as. \<exists>h state vw rv cx. project_skill_verdict skill_id h state vw rv cx = Inr p)"
proof (cases "latest_scan_identities_for_content (sy_orch sy) ch = []")
  case True
  then obtain x where "project_skill_verdict skill_id (Some ch) None None None no_context = Inr x" "as = [(x, None, None)]"
    using assms by (auto simp: content_answers_def res_bind_eq_Inr)
  then show ?thesis by (simp, blast)
next
  case False
  then have m: "res_map (scan_answer rt sy who skill_id absent ch) (latest_scan_identities_for_content (sy_orch sy) ch) = Inr as"
    using assms by (simp add: content_answers_def)
  have "as \<noteq> []" using res_map_elem [OF m] False by (metis empty_iff list.set(1) list.set_intros(1) neq_Nil_conv)
  moreover have "\<exists>h state vw rv cx. project_skill_verdict skill_id h state vw rv cx = Inr p" if y: "(p, s, v) \<in> set as" for p s v
  proof -
    obtain scan where "scan_answer rt sy who skill_id absent ch scan = Inr (p, s, v)" using res_map_preimage [OF m y] by blast
    then show ?thesis by (rule scan_answer_InrE) blast
  qed
  ultimately show ?thesis by blast
qed

lemma poll_answer_projected:
  assumes "poll_answer rt st who skill_id hashes = Inr (p, s, v)"
  shows "\<exists>ch state vw rv cx. project_skill_verdict skill_id ch state vw rv cx = Inr p"
  using assms
proof (cases rule: poll_answer_cases)
  case (some absent answers)
  have each: "as \<noteq> [] \<and> (\<forall>(p, s, v) \<in> set as. \<exists>h state vw rv cx. project_skill_verdict skill_id h state vw rv cx = Inr p)"
    if y: "as \<in> set answers" for as
    using res_map_preimage [OF some(2) y] content_answers_projected by blast
  have "answers \<noteq> []" using res_map_elem [OF some(2)] some(1) by (metis empty_iff list.set(1) list.set_intros(1) neq_Nil_conv)
  then have "concat answers \<noteq> []" using each by (cases answers) auto
  then have "(p, s, v) \<in> set (concat answers)" using first_min_props some(3) by metis
  then show ?thesis using each by fastforce
qed blast

lemma poll_answer_safe:
  assumes "poll_answer rt st who skill_id hashes = Inr (p, s, v)" "is_safe_of p"
  shows "hashes \<noteq> [] \<and> (\<forall>ch \<in> set hashes. latest_scan_identities_for_content (sy_orch (ms_system st)) ch \<noteq> [] \<and>
    (\<forall>scan \<in> set (latest_scan_identities_for_content (sy_orch (ms_system st)) ch). sc_state scan \<in> {STATE_DECIDED, STATE_FAILED} \<and>
      (\<exists>row. map_of (gd_verdicts (sy_gate (ms_system st))) (sc_scan_id scan) = Some row \<and> vd_verdict row = ''PASS'')))"
proof (cases "hashes = []")
  case True
  then have "project_skill_verdict skill_id None None None None no_context = Inr p"
    using assms(1) by (auto simp: poll_answer_def res_bind_eq_Inr)
  from project_is_safe [OF this] show ?thesis using assms(2) by simp
next
  case False
  then obtain absent answers where a: "res_map (content_answers rt (ms_system st) who skill_id absent) hashes = Inr answers"
    "(p, s, v) = first_min (\<lambda>(p, s, v). is_safe_of p) (concat answers)"
    using assms(1) by (auto simp: poll_answer_def res_bind_eq_Inr Let_def)
  have all: "is_safe_of q" if "(q, t, w) \<in> set (concat answers)" for q t w
  proof -
    have "concat answers \<noteq> []" using that by (intro notI) (simp only: list.set empty_iff)
    from first_min_props [OF this, of "\<lambda>(p, s, v). is_safe_of p"]
    have "(case (p, s, v) of (p, s, v) \<Rightarrow> is_safe_of p) \<le> (case (q, t, w) of (p, s, v) \<Rightarrow> is_safe_of p)"
      using that unfolding a(2) by blast
    then show ?thesis using assms(2) by simp
  qed
  have "latest_scan_identities_for_content (sy_orch (ms_system st)) ch \<noteq> [] \<and>
    (\<forall>scan \<in> set (latest_scan_identities_for_content (sy_orch (ms_system st)) ch). sc_state scan \<in> {STATE_DECIDED, STATE_FAILED} \<and>
      (\<exists>row. map_of (gd_verdicts (sy_gate (ms_system st))) (sc_scan_id scan) = Some row \<and> vd_verdict row = ''PASS''))"
    if member: "ch \<in> set hashes" for ch
  proof -
    obtain as where as: "as \<in> set answers" "content_answers rt (ms_system st) who skill_id absent ch = Inr as"
      using res_map_elem [OF a(1) member] ..
    have "\<forall>(q, t, w) \<in> set as. is_safe_of q" using all as(1) by fastforce
    from content_answers_safe [OF as(2) this] show ?thesis .
  qed
  then show ?thesis using False by blast
qed

text \<open>C4: A skill is called safe only when it passed. If a poll answers that a skill is safe then the caller
  holds the read scope and is the recorded owner, the skill has a latest version, every latest version has a
  newest scan, and every newest scan of every latest version, ties included, is decided with a PASS verdict
  and a recorded result, whatever transactions of the scan pipeline are in flight.\<close>

theorem safe_answer_means_pass:
  assumes "get_marketplace_skill rt now ok caller raw st = (st', Answer p)" "is_safe_of p" "tx_reachable (ms_system st, P)"
  shows "READ_SCOPE \<in> mc_scopes caller \<and>
    (\<exists>skill. map_of (db_skills (ms_inventory st)) (py_strip raw) = Some skill \<and> sk_owner skill = Some (mc_subject caller)) \<and>
    latest_skill_version_hashes (ms_inventory st) (py_strip raw) \<noteq> [] \<and>
    (\<forall>ch \<in> set (latest_skill_version_hashes (ms_inventory st) (py_strip raw)).
      latest_scan_identities_for_content (sy_orch (ms_system st)) ch \<noteq> [] \<and>
      (\<forall>scan \<in> set (latest_scan_identities_for_content (sy_orch (ms_system st)) ch). sc_state scan = STATE_DECIDED \<and>
        map_of (od_results (sy_orch (ms_system st))) (sc_scan_id scan) \<noteq> None \<and>
        (\<exists>row. map_of (gd_verdicts (sy_gate (ms_system st))) (sc_scan_id scan) = Some row \<and> vd_verdict row = ''PASS'')))"
proof -
  let ?sy = "ms_system st"
  obtain r where r: "READ_SCOPE \<in> mc_scopes caller" "poll_skill rt now ok caller raw (st\<lparr>ms_redis := r\<rparr>) = (st', Answer p)"
    using assms(1) by (rule get_marketplace_skill_Answer)
  obtain tier s v where q: "get_registered_skill (ms_inventory st) (py_strip raw) = Some (Some (mc_subject caller), tier)"
    "poll_answer rt (st\<lparr>ms_redis := r\<rparr>) (mc_subject caller) (py_strip raw) (latest_skill_version_hashes (ms_inventory st) (py_strip raw)) = Inr (p, s, v)"
    using r(2) by (rule poll_skill_Answer) (simp add: that)
  have ok: "jobs_ok (sy_orch ?sy)" "states_ok (sy_orch ?sy) (sy_gate ?sy)" using tx_reachable_ok [OF assms(3)] by (simp_all add: conc_ok_def)
  have decided: "sc_state scan = STATE_DECIDED \<and> map_of (od_results (sy_orch ?sy)) (sc_scan_id scan) \<noteq> None"
    if "scan \<in> set (latest_scan_identities_for_content (sy_orch ?sy) ch)" "sc_state scan \<in> {STATE_DECIDED, STATE_FAILED}"
      "map_of (gd_verdicts (sy_gate ?sy)) (sc_scan_id scan) = Some row" "vd_verdict row = ''PASS''" for scan ch row
  proof -
    have "map_of (od_jobs (sy_orch ?sy)) (sc_scan_id scan) \<noteq> None \<and> job_state (sy_orch ?sy) (sc_scan_id scan) = Some (sc_state scan)"
      using that(1) ok(1) by (auto simp: latest_scan_identities_for_content_def Let_def jobs_ok_def job_state_def)
    moreover have res: "result_of (sy_orch ?sy) (sc_scan_id scan) \<noteq> None"
      using ok(2) that(3,4) unfolding states_ok_def verdict_ok_def by blast
    moreover have "job_state (sy_orch ?sy) (sc_scan_id scan) \<in> {Some STATE_SCORED, Some STATE_DECIDED}"
      using ok(1) res unfolding jobs_ok_def by blast
    ultimately show ?thesis using that(2) by auto
  qed
  have skill: "\<exists>skill. map_of (db_skills (ms_inventory st)) (py_strip raw) = Some skill \<and> sk_owner skill = Some (mc_subject caller)"
    using q(1) by (auto simp: get_registered_skill_def)
  have same: "ms_system (st\<lparr>ms_redis := r\<rparr>) = ?sy" by simp
  show ?thesis using r(1) skill poll_answer_safe [OF q(2) assms(2), unfolded same] decided by meson
qed

lemma poll_skill_not_owned:
  assumes "\<forall>skill. map_of (db_skills (ms_inventory st)) (py_strip raw) = Some skill \<longrightarrow> sk_owner skill \<noteq> Some (mc_subject caller)"
  shows "poll_skill rt now ok caller raw st =
    (if \<not> mr_inventory_configured rt then (st, Refused 503)
     else (if map_of (db_skills (ms_inventory st)) (py_strip raw) = None then st else record_cross_scope_attempt st, Refused 404))"
  using assms
  by (cases "map_of (db_skills (ms_inventory st)) (py_strip raw)")
    (auto simp: poll_skill_def Let_def get_registered_skill_def authorize_skill_read_def split: option.splits)

text \<open>Note: Foreign and unknown skills look alike. A caller who does not own a skill gets from the poll the very reply
  it would get if the skill did not exist, whatever versions, scans and verdicts the skill has: the inventory
  cannot be enumerated. The rate limit and the fetch log are touched in the same way too.\<close>

theorem foreign_skill_indistinguishable:
  assumes "\<forall>skill. map_of (db_skills (ms_inventory st)) (py_strip raw) = Some skill \<longrightarrow> sk_owner skill \<noteq> Some (mc_subject caller)"
    and "map_of (db_skills idb) (py_strip raw) = None"
  shows "(let visible = (\<lambda>(s, reply). (reply, ms_redis s, ms_fetch_log s))
    in visible (get_marketplace_skill rt now ok caller raw st) =
       visible (get_marketplace_skill rt now ok caller raw (st\<lparr>ms_inventory := idb, ms_system := sy\<rparr>)))"
proof -
  let ?gone = "st\<lparr>ms_inventory := idb, ms_system := sy\<rparr>"
  have here: "poll_skill rt now ok caller raw (st\<lparr>ms_redis := r\<rparr>) =
      (if \<not> mr_inventory_configured rt then (st\<lparr>ms_redis := r\<rparr>, Refused 503)
       else (if map_of (db_skills (ms_inventory st)) (py_strip raw) = None then st\<lparr>ms_redis := r\<rparr>
             else record_cross_scope_attempt (st\<lparr>ms_redis := r\<rparr>), Refused 404))" for r
    using poll_skill_not_owned [of "st\<lparr>ms_redis := r\<rparr>" raw caller] assms(1) by simp
  have there: "poll_skill rt now ok caller raw (?gone\<lparr>ms_redis := r\<rparr>) =
      (?gone\<lparr>ms_redis := r\<rparr>, if \<not> mr_inventory_configured rt then Refused 503 else Refused 404)" for r
    using poll_skill_not_owned [of "?gone\<lparr>ms_redis := r\<rparr>" raw caller] assms(2) by simp
  have same: "ms_redis ?gone = ms_redis st" by simp
  show ?thesis
    unfolding get_marketplace_skill_def reply_bind_def rate_limited_session_def same require_scope_def Let_def
    by (cases "check_rate_limit now (mc_subject caller) (mr_rate_limit_per_min rt) (ms_redis st)")
      (auto simp: here there record_cross_scope_attempt_def split: option.splits prod.splits)
qed

text \<open>Note: Nothing internal leaks. Every answered poll is an object with exactly the whitelisted keys, and every
  finding in it is an object with exactly the whitelisted keys, each value taken from one stored finding; the
  digest of the matched text is never among them.\<close>

theorem only_whitelisted_fields:
  assumes "get_marketplace_skill rt now ok caller raw st = (st', Answer p)"
  shows "fst ` set p = EXTERNAL_TOP_LEVEL_FIELDS \<and>
    (\<exists>fs. map_of p ''findings'' = Some (PList (map (py_obj \<circ> project_finding) fs))) \<and>
    (\<forall>f. map fst (project_finding f) = EXTERNAL_FINDING_FIELDS \<and> ''snippet_hash'' \<notin> fst ` set (project_finding f) \<and>
      (\<forall>(k, v) \<in> set (project_finding f). v = object_get f k))"
proof -
  obtain r where "poll_skill rt now ok caller raw (st\<lparr>ms_redis := r\<rparr>) = (st', Answer p)"
    using assms by (rule get_marketplace_skill_Answer)
  then obtain skill_id hs s v where a: "poll_answer rt (st\<lparr>ms_redis := r\<rparr>) (mc_subject caller) skill_id hs = Inr (p, s, v)"
    by (rule poll_skill_Answer) (simp add: that)
  obtain ch state vw rv cx where "project_skill_verdict skill_id ch state vw rv cx = Inr p" using poll_answer_projected [OF a] by blast
  then obtain status poll summary where p: "p = answer_body skill_id ch status poll (safety_of status vw rv) vw rv cx summary"
    by (rule project_skill_verdict_InrE)
  have keys: "map fst (project_finding f) = EXTERNAL_FINDING_FIELDS" for f by (simp add: project_finding_def o_def)
  have "''snippet_hash'' \<notin> set EXTERNAL_FINDING_FIELDS" by (simp add: EXTERNAL_FINDING_FIELDS_def)
  then have "''snippet_hash'' \<notin> fst ` set (project_finding f)" for f using keys [of f] by (metis list.set_map)
  moreover have "\<forall>(k, v) \<in> set (project_finding f). v = object_get f k" for f by (auto simp: project_finding_def)
  moreover have "fst ` set p = EXTERNAL_TOP_LEVEL_FIELDS" using answer_body_keys unfolding p list.set_map .
  ultimately show ?thesis using keys answer_body_fields(7) [OF p] by blast
qed

section \<open>The rate limit\<close>

text \<open>How many of a caller's requests at the given times pass the limit.\<close>

fun admitted_requests :: "string \<Rightarrow> int \<Rightarrow> real list \<Rightarrow> redis \<Rightarrow> nat" where
  "admitted_requests who limit [] r = 0"
| "admitted_requests who limit (t # ts) r = (case check_rate_limit t who limit r of
     Inl e \<Rightarrow> admitted_requests who limit ts r
   | Inr (r', None) \<Rightarrow> Suc (admitted_requests who limit ts r')
   | Inr (r', Some s) \<Rightarrow> admitted_requests who limit ts r')"

lemma check_rate_limit_first:
  assumes "redis_entry t (RATE_KEY_PREFIX @ who) r = None"
  shows "check_rate_limit t who limit r = Inr (r(RATE_KEY_PREFIX @ who \<mapsto> \<lparr>en_value = PInt 1, en_expires = Some (t + RATE_WINDOW_S)\<rparr>),
    if 1 > limit then Some RATE_WINDOW_S else None)"
  using assms by (simp add: check_rate_limit_def incr_in_window_def redis_incr_def redis_ttl_def redis_expire_def redis_entry_def
      live_def RATE_WINDOW_S_def)

lemma check_rate_limit_next:
  assumes "r (RATE_KEY_PREFIX @ who) = Some \<lparr>en_value = PInt n, en_expires = Some e\<rparr>" "t < e"
  shows "check_rate_limit t who limit r = Inr (r(RATE_KEY_PREFIX @ who \<mapsto> \<lparr>en_value = PInt (n + 1), en_expires = Some e\<rparr>),
    if n + 1 > limit then Some (max 1 (e - t)) else None)"
  using assms by (simp add: check_rate_limit_def incr_in_window_def redis_incr_def redis_ttl_def redis_entry_def live_def)

lemma admitted_within_window:
  assumes "r (RATE_KEY_PREFIX @ who) = Some \<lparr>en_value = PInt n, en_expires = Some e\<rparr>" "\<forall>t \<in> set ts. t < e" "0 \<le> limit"
  shows "int (admitted_requests who limit ts r) = min (int (length ts)) (max 0 (limit - n))"
  using assms(1,2)
proof (induction ts arbitrary: r n)
  case (Cons t ts)
  let ?r = "r(RATE_KEY_PREFIX @ who \<mapsto> \<lparr>en_value = PInt (n + 1), en_expires = Some e\<rparr>)"
  have step: "check_rate_limit t who limit r = Inr (?r, if n + 1 > limit then Some (max 1 (e - t)) else None)"
    using Cons.prems by (intro check_rate_limit_next) simp_all
  have "int (admitted_requests who limit ts ?r) = min (int (length ts)) (max 0 (limit - (n + 1)))"
    using Cons.prems(2) by (intro Cons.IH) simp_all
  then show ?case using step by (cases "n + 1 > limit") simp_all
qed simp

text \<open>C37: The rate limit is exact and per account. Of all requests of an account that arrive in the 60 seconds
  after the first one of a window, exactly the permitted number are let through, or all of them if they are
  fewer, and no other account's counter is touched by a request.\<close>

theorem rate_limit_exact:
  assumes "redis_entry t0 (RATE_KEY_PREFIX @ who) r = None" "\<forall>t \<in> set ts. t < t0 + RATE_WINDOW_S" "1 \<le> limit"
  shows "int (admitted_requests who limit (t0 # ts) r) = min (int (length (t0 # ts))) limit \<and>
    (\<forall>t r' w. \<forall>other. other \<noteq> who \<and> check_rate_limit t who limit r = Inr (r', w) \<longrightarrow>
       r' (RATE_KEY_PREFIX @ other) = r (RATE_KEY_PREFIX @ other))"
proof
  let ?r = "r(RATE_KEY_PREFIX @ who \<mapsto> \<lparr>en_value = PInt 1, en_expires = Some (t0 + RATE_WINDOW_S)\<rparr>)"
  have "int (admitted_requests who limit ts ?r) = min (int (length ts)) (max 0 (limit - 1))"
    by (rule admitted_within_window [where e = "t0 + RATE_WINDOW_S"]) (use assms in simp_all)
  then show "int (admitted_requests who limit (t0 # ts) r) = min (int (length (t0 # ts))) limit"
    using assms(3) by (simp add: check_rate_limit_first [OF assms(1)])
  show "\<forall>t r' w. \<forall>other. other \<noteq> who \<and> check_rate_limit t who limit r = Inr (r', w) \<longrightarrow>
       r' (RATE_KEY_PREFIX @ other) = r (RATE_KEY_PREFIX @ other)"
    by (auto simp: check_rate_limit_def incr_in_window_def redis_incr_def redis_expire_def res_bind_eq_Inr Let_def
        split: option.splits if_splits pyval.splits)
qed

section \<open>Accepted submissions\<close>

text \<open>What registering a version and entering the state scanning leave behind, on either surface.\<close>

lemma register_and_scan_Inr:
  assumes "register_skill_version idb now skill_id source tier ch td declared who admin None = Inr idb1"
    and "transition_skill idb1 now skill_id ''scanning'' reason who (Some ch) (Some scan_id) = Inr idb'"
  shows "\<exists>skill. map_of (db_skills idb') skill_id = Some skill \<and> (admin \<or> sk_owner skill = Some who) \<and>
      (case map_of (db_skills idb) skill_id of None \<Rightarrow> sk_owner skill = Some who \<and> sk_trust_tier skill = tier | Some before \<Rightarrow> skill = before)"
    and "skill_id_for_content idb' ch = Some skill_id" "current_state idb' skill_id = Some ''scanning''"
    and "\<exists>e. db_events idb' \<noteq> [] \<and> last (db_events idb') = e \<and> ev_scan_id e = Some scan_id \<and> ev_content_hash e = Some ch \<and> ev_actor e = who"
proof -
  obtain idb2 e2 where 2: "record_transition idb2 e2 = Inr idb1"
    and sk: "(\<exists>r. map_of (db_skills idb) skill_id = None \<and> sk_owner r = Some who \<and> sk_trust_tier r = tier \<and>
        db_skills idb2 = db_skills idb @ [(skill_id, r)]) \<or>
      (\<exists>r. map_of (db_skills idb) skill_id = Some r \<and> authorize_skill_write (sk_owner r) who admin = Inr () \<and> db_skills idb2 = db_skills idb)"
    and sv: "(\<exists>v. map_of (db_versions idb) ch = None \<and> sv_skill_id v = skill_id \<and> db_versions idb2 = db_versions idb @ [(ch, v)]) \<or>
      (\<exists>v. map_of (db_versions idb) ch = Some v \<and> sv_skill_id v = skill_id \<and> db_versions idb2 = db_versions idb)"
    using assms(1) by (rule register_InrE) blast
  obtain e where e: "record_transition idb1 e = Inr idb'" "ev_skill_id e = skill_id" "ev_to_state e = ''scanning''"
    "ev_actor e = who" "ev_content_hash e = Some ch" "ev_scan_id e = Some scan_id"
    using assms(2) by (rule transition_skill_InrE)
  have frame: "db_skills idb' = db_skills idb2" "db_versions idb' = db_versions idb2" "db_events idb' = db_events idb1 @ [e]"
    using record_transition_Inr [OF 2] record_transition_Inr [OF e(1)] by simp_all
  show "\<exists>skill. map_of (db_skills idb') skill_id = Some skill \<and> (admin \<or> sk_owner skill = Some who) \<and>
      (case map_of (db_skills idb) skill_id of None \<Rightarrow> sk_owner skill = Some who \<and> sk_trust_tier skill = tier | Some before \<Rightarrow> skill = before)"
    using sk by (auto simp: frame map_add_def authorize_write_iff)
  show "skill_id_for_content idb' ch = Some skill_id" using sv by (auto simp: frame skill_id_for_content_def map_add_def)
  show "current_state idb' skill_id = Some ''scanning''" by (simp add: current_state_def frame e(2,3))
  show "\<exists>e. db_events idb' \<noteq> [] \<and> last (db_events idb') = e \<and> ev_scan_id e = Some scan_id \<and> ev_content_hash e = Some ch \<and> ev_actor e = who"
    using e(4-6) by (simp add: frame)
qed

lemma register_submission_Inr:
  assumes "register_submission rt now caller skill_id tier ch td declared scan_id idb = Inr idb'"
  shows "\<exists>skill. map_of (db_skills idb') skill_id = Some skill \<and> sk_owner skill = Some (mc_subject caller)"
    and "skill_id_for_content idb' ch = Some skill_id" "current_state idb' skill_id = Some ''scanning''"
    and "\<exists>e. db_events idb' \<noteq> [] \<and> last (db_events idb') = e \<and> ev_scan_id e = Some scan_id \<and> ev_content_hash e = Some ch \<and> ev_actor e = mc_subject caller"
proof -
  obtain idb1 where 1: "register_skill_version idb now skill_id ''marketplace-api'' (trust_tier_value tier) ch td declared (mc_subject caller) False None = Inr idb1"
    "transition_skill idb1 now skill_id ''scanning'' (''scan '' @ scan_id @ '' submitted'') (mc_subject caller) (Some ch) (Some scan_id) = Inr idb'"
    using assms unfolding register_submission_def res_bind_eq_Inr by blast
  show "\<exists>skill. map_of (db_skills idb') skill_id = Some skill \<and> sk_owner skill = Some (mc_subject caller)"
    using register_and_scan_Inr(1) [OF 1] by blast
  show "skill_id_for_content idb' ch = Some skill_id" by (rule register_and_scan_Inr(2) [OF 1])
  show "current_state idb' skill_id = Some ''scanning''" by (rule register_and_scan_Inr(3) [OF 1])
  show "\<exists>e. db_events idb' \<noteq> [] \<and> last (db_events idb') = e \<and> ev_scan_id e = Some scan_id \<and> ev_content_hash e = Some ch \<and> ev_actor e = mc_subject caller"
    by (rule register_and_scan_Inr(4) [OF 1])
qed

lemma preflight_Answer:
  assumes "submission_preflight idb caller skill_id ch st = (st0, Answer tier)"
  shows "st0 = st \<and> (case map_of (db_skills idb) skill_id of None \<Rightarrow> tier = mc_tier caller
    | Some skill \<Rightarrow> sk_owner skill = Some (mc_subject caller) \<and>
        (sk_trust_tier skill = trust_tier_value tier \<or> tier = PUBLIC \<and> (\<forall>t. sk_trust_tier skill \<noteq> trust_tier_value t)))"
proof (cases "map_of (db_skills idb) skill_id")
  case None
  then show ?thesis using assms
    by (simp add: submission_preflight_def get_registered_skill_def Let_def split: if_splits sum.splits)
next
  case (Some skill)
  have auth: "authorize_skill_write (sk_owner skill) (mc_subject caller) False = Inr ()"
    using assms Some by (cases "authorize_skill_write (sk_owner skill) (mc_subject caller) False")
      (simp_all add: submission_preflight_def get_registered_skill_def Let_def)
  then have "tier = (case TrustTier_of (sk_trust_tier skill) of Inl e \<Rightarrow> PUBLIC | Inr t \<Rightarrow> t) \<and> st0 = st"
    using assms Some by (simp add: submission_preflight_def get_registered_skill_def Let_def split: if_splits sum.splits)
  then show ?thesis using auth Some
    by (auto simp: authorize_write_iff TrustTier_of_value [symmetric] split: sum.splits)
qed

lemma submit_entry:
  assumes "submit_marketplace_scan rt now uuid gap1 gap2 caller sn st = (st', Answer scan_id)"
  obtains r files where "SUBMIT_SCOPE \<in> mc_scopes caller" "sn_trust_tier sn = None" "\<not> sn_query_has_trust_tier sn"
    "unpack_package_archive (mr_formats rt) (sn_package sn) = Inr files"
    "submit_package rt now uuid gap1 gap2 caller (py_strip (sn_skill_id sn)) files (st\<lparr>ms_redis := r\<rparr>) = (st', Answer scan_id)"
  using assms [unfolded submit_marketplace_scan_def]
proof (rule reply_bind_Answer)
  fix st1 u
  assume a: "rate_limited_session rt now caller st = (st1, Answer u)"
  obtain r where r: "st1 = st\<lparr>ms_redis := r\<rparr>" using a by (rule rate_limited_session_Answer)
  let ?body = "\<lambda>_ st. let skill_id = py_strip (sn_skill_id sn) in
        if skill_id = [] then (st, Refused 400)
        else if \<not> mr_inventory_configured rt then (st, Refused 503)
        else if sn_trust_tier sn \<noteq> None \<or> sn_query_has_trust_tier sn then (st, Refused 400)
        else case unpack_package_archive (mr_formats rt) (sn_package sn) of
            Inl e \<Rightarrow> (st, if e = UnpackRejected then Refused 400 else Crashed e)
          | Inr files \<Rightarrow> submit_package rt now uuid gap1 gap2 caller skill_id files st"
  assume "(if SKILL_ID_MAX_LENGTH < length (sn_skill_id sn) then (st1, Refused 422)
      else reply_bind (require_scope caller SUBMIT_SCOPE) ?body st1) = (st', Answer scan_id)"
  then have "reply_bind (require_scope caller SUBMIT_SCOPE) ?body st1 = (st', Answer scan_id)" by (simp split: if_splits)
  then obtain st2 u' where b: "require_scope caller SUBMIT_SCOPE st1 = (st2, Answer u')" "?body u' st2 = (st', Answer scan_id)"
    by (rule reply_bind_Answer)
  have st2: "st2 = st\<lparr>ms_redis := r\<rparr>" "SUBMIT_SCOPE \<in> mc_scopes caller" using require_scope_Answer [OF b(1)] r by simp_all
  show thesis using b(2) st2 that by (simp add: Let_def split: if_splits sum.splits)
qed

lemma submit_package_Answer:
  assumes "submit_package rt now uuid gap1 gap2 caller skill_id files st = (st', Answer scan_id)"
  obtains ch tier sy disabled sy' td st2 idb where "content_hash (pf_nfc (mr_platform rt)) (pf_sha256 (mr_platform rt)) files = Inr ch"
    "submission_preflight (ms_inventory st) caller skill_id ch st = (st, Answer tier)"
    "submit_scan (mr_platform rt) sy now uuid files (mc_subject caller) (enabled_engines rt disabled) (mr_policy rt) tier
       MARKETPLACE tier (mr_scan_deadline_s rt) = (sy', Inr scan_id)"
    "register_submission rt now caller skill_id tier ch td (declared_permissions rt files) scan_id (ms_inventory st2) = Inr idb"
    "st' = st2\<lparr>ms_inventory := idb\<rparr>"
proof (cases "content_hash (pf_nfc (mr_platform rt)) (pf_sha256 (mr_platform rt)) files")
  case (Inl e)
  then show thesis using assms by (simp add: submit_package_def)
next
  case (Inr ch)
  from assms [unfolded submit_package_def Inr sum.case] obtain st0 tier where
    pre: "submission_preflight (ms_inventory st) caller skill_id ch st = (st0, Answer tier)" and
    rest: "(let st1 = gap1 st0; metadatas = enabled_engines rt (ms_disabled st1)
      in case submit_scan (mr_platform rt) (ms_system st1) now uuid files (mc_subject caller) metadatas (mr_policy rt) tier
              MARKETPLACE tier (mr_scan_deadline_s rt) of
        (sy, Inl e) \<Rightarrow> (st1\<lparr>ms_system := sy\<rparr>, Crashed e)
      | (sy, Inr sid) \<Rightarrow>
          (let st2 = gap2 (st1\<lparr>ms_system := sy\<rparr>)
           in case res_bind (cache_policy_version (pf_iter (mr_platform rt)) (pf_repr (mr_platform rt))
                       (pf_sha256_text (mr_platform rt)) (mr_policy rt))
                     (\<lambda>cpv. toolchain_digest (pf_sha256 (mr_platform rt)) metadatas cpv ''none'') of
               Inl e \<Rightarrow> (st2, Crashed e)
             | Inr t_digest \<Rightarrow>
                 (case register_submission rt now caller skill_id tier ch t_digest (declared_permissions rt files) sid (ms_inventory st2) of
                    Inr idb \<Rightarrow> (st2\<lparr>ms_inventory := idb\<rparr>, Answer sid)
                  | Inl e \<Rightarrow>
                      if e = SkillOwnershipError then (record_cross_scope_attempt st2, Refused 403)
                      else if e = ContentRegisteredToAnotherSkillError then (st2, Refused 409)
                      else if e = InvalidTransitionError then (st2, Refused 409)
                      else (st2, Crashed e)))) = (st', Answer scan_id)" by (rule reply_bind_Answer)
  have st0: "st0 = st" using preflight_Answer [OF pre] by blast
  show thesis using rest that Inr pre unfolding st0 Let_def by (simp split: prod.splits sum.splits if_splits)
qed


section \<open>The fetch log\<close>

text \<open>Note: The fetch log cannot withhold an answer, and says what was answered. The reply to a poll does not depend on
  whether the log can be written; and an answered poll adds exactly one row, naming the caller, the skill, the
  version and the answer, if the log is configured and writable, and none otherwise.\<close>

theorem fetch_log_faithful:
  "snd (get_marketplace_skill rt now ok caller raw st) = snd (get_marketplace_skill rt now ok' caller raw st) \<and>
   (\<forall>st' p. get_marketplace_skill rt now ok caller raw st = (st', Answer p) \<longrightarrow>
     (if mr_fetch_log_configured rt \<and> ok
      then \<exists>row. ms_fetch_log st' = ms_fetch_log st @ [row] \<and> fl_skill_id row = py_strip raw \<and> fl_service_account row = mc_subject caller \<and>
        fl_fetched_at row = now \<and> fl_is_safe_shown row = is_safe_of p \<and> Some (fl_status_shown row) = text_field p ''status'' \<and>
        fl_content_hash_shown row = text_field p ''content_hash'' \<and> fl_unsafe_reason_shown row = text_field p ''unsafe_reason''
      else ms_fetch_log st' = ms_fetch_log st))"
proof
  have poll: "snd (poll_skill rt now ok caller raw s) = snd (poll_skill rt now ok' caller raw s)" for s
    by (simp add: poll_skill_def Let_def split: option.splits sum.splits prod.splits)
  show "snd (get_marketplace_skill rt now ok caller raw st) = snd (get_marketplace_skill rt now ok' caller raw st)"
    unfolding get_marketplace_skill_def reply_bind_def
    by (simp add: poll require_scope_def split: prod.splits reply.splits if_splits)
  show "\<forall>st' p. get_marketplace_skill rt now ok caller raw st = (st', Answer p) \<longrightarrow>
     (if mr_fetch_log_configured rt \<and> ok
      then \<exists>row. ms_fetch_log st' = ms_fetch_log st @ [row] \<and> fl_skill_id row = py_strip raw \<and> fl_service_account row = mc_subject caller \<and>
        fl_fetched_at row = now \<and> fl_is_safe_shown row = is_safe_of p \<and> Some (fl_status_shown row) = text_field p ''status'' \<and>
        fl_content_hash_shown row = text_field p ''content_hash'' \<and> fl_unsafe_reason_shown row = text_field p ''unsafe_reason''
      else ms_fetch_log st' = ms_fetch_log st)"
  proof (intro allI impI)
    fix st' p
    assume "get_marketplace_skill rt now ok caller raw st = (st', Answer p)"
    then obtain r where "poll_skill rt now ok caller raw (st\<lparr>ms_redis := r\<rparr>) = (st', Answer p)" by (rule get_marketplace_skill_Answer)
    then obtain scan_id shown hs where a: "poll_answer rt (st\<lparr>ms_redis := r\<rparr>) (mc_subject caller) (py_strip raw) hs = Inr (p, scan_id, shown)"
      "st' = record_fetch rt now ok (py_strip raw) scan_id (mc_subject caller) p shown (st\<lparr>ms_redis := r\<rparr>)"
      by (rule poll_skill_Answer) (simp add: that)
    obtain ch state vw rv cx where "project_skill_verdict (py_strip raw) ch state vw rv cx = Inr p" using poll_answer_projected [OF a(1)] by blast
    then obtain status poll summary where p: "p = answer_body (py_strip raw) ch status poll (safety_of status vw rv) vw rv cx summary"
      by (rule project_skill_verdict_InrE)
    have "text_field p ''status'' = Some status" unfolding text_field_def answer_body_fields(3) [OF p] by simp
    then show "if mr_fetch_log_configured rt \<and> ok
      then \<exists>row. ms_fetch_log st' = ms_fetch_log st @ [row] \<and> fl_skill_id row = py_strip raw \<and> fl_service_account row = mc_subject caller \<and>
        fl_fetched_at row = now \<and> fl_is_safe_shown row = is_safe_of p \<and> Some (fl_status_shown row) = text_field p ''status'' \<and>
        fl_content_hash_shown row = text_field p ''content_hash'' \<and> fl_unsafe_reason_shown row = text_field p ''unsafe_reason''
      else ms_fetch_log st' = ms_fetch_log st"
      by (simp add: a(2) record_fetch_def)
  qed
qed

text \<open>Note: The surface is not closed to people. A console token of a person whose identity provider grants it the two
  scopes resolves to a session that both endpoints accept, at the tier the token states, by default the most
  permissive one.\<close>

theorem human_session_reaches_market:
  "\<exists>payload s c. session_of_payload rt 0 payload = Inr s \<and> \<not> sx_is_machine s \<and> require_role [] s = Inr s \<and> caller_of s = Some c \<and>
     SUBMIT_SCOPE \<in> mc_scopes c \<and> READ_SCOPE \<in> mc_scopes c \<and> mc_tier c = INTERNAL"
proof -
  let ?payload = "[(PStr ''active'', PBool True), (PStr ''exp'', PInt 1), (PStr ''sub'', PStr ''alice''),
    (PStr ''scope'', PStr ''scan:submit scan:read'')]"
  have words: "split_words ''scan:submit scan:read'' = [''scan:submit'', ''scan:read'']" by code_simp
  have sp: "split_scopes (PStr ''scan:submit scan:read'') = Inr {''scan:submit'', ''scan:read''}"
    unfolding split_scopes_def words pyval.case by simp
  have get: "get_or_none ?payload ''active'' = PBool True" "get_or_none ?payload ''exp'' = PInt 1" "get_or_none ?payload ''sub'' = PStr ''alice''"
    "get_or_none ?payload ''groups'' = PNone" "get_or_none ?payload ''scope'' = PStr ''scan:submit scan:read''" "get_or_none ?payload ''trust_tier'' = PNone"
    by (simp_all add: get_or_none_def)
  have fl: "py_float (PInt 1) = Inr (Fin 1)" by (simp add: py_float_def)
  let ?s = "\<lparr>sx_subject = PStr ''alice'', sx_roles = PStr ` resolve_roles {} (ar_group_role_map rt),
      sx_scopes = {''scan:submit'', ''scan:read''}, sx_tier = INTERNAL, sx_token_exp = Fin 1, sx_is_machine = False\<rparr> :: session_context"
  have "session_of_payload rt 0 ?payload = Inr ?s"
    unfolding session_of_payload_def get sp fl Let_def
    by (simp add: resolve_trust_tier_def get or_default_def py_frozenset_def)
  moreover have "\<not> sx_is_machine ?s" "require_role [] ?s = Inr ?s" by (simp_all add: require_role_def)
  moreover have "caller_of ?s = Some \<lparr>mc_subject = ''alice'', mc_scopes = {SUBMIT_SCOPE, READ_SCOPE}, mc_tier = INTERNAL\<rparr>"
    by (simp add: caller_of_def SUBMIT_SCOPE_def READ_SCOPE_def)
  ultimately show ?thesis
    by (intro exI [of _ ?payload] exI [of _ ?s] exI [of _ "\<lparr>mc_subject = ''alice'', mc_scopes = {SUBMIT_SCOPE, READ_SCOPE}, mc_tier = INTERNAL\<rparr>"])
      simp
qed

end
