(* ===== verification/Console_Api.thy ===== *)
theory Console_Api
  imports Marketplace_Api Reconciliation "HOL-Library.Multiset"
begin

text \<open>
  The console's endpoints (gateway/router.py): submitting a package, reading one scan, listing scans, and the
  push channel of the marketplace. A caller is a session that \<open>require_human_role\<close> let through. The state and
  the replies are those of the marketplace's endpoints, which share the process and its tables; the
  counter of cross-scope attempts is one metric for both. Bodies of responses are records with a field per key.
\<close>

section \<open>Callers and runtime\<close>

definition REVIEWER_ROLES :: "string list" where "REVIEWER_ROLES = [''approver'', ''admin'', ''auditor'']"

record console_caller =
  cn_subject :: string
  cn_session :: session_context

definition console_caller_of :: "session_context \<Rightarrow> console_caller option" where
  "console_caller_of s = (case require_human_role [] s of
     Inl e \<Rightarrow> None
   | Inr h \<Rightarrow> (case sx_subject h of PStr who \<Rightarrow> Some \<lparr>cn_subject = who, cn_session = h\<rparr> | _ \<Rightarrow> None))"

text \<open>\<open>cr_shared\<close> holds the fields of the runtime that the marketplace's endpoints read too.\<close>

record 'raw console_runtime =
  cr_shared :: "'raw market_runtime"
  cr_default_trust_tier :: trust_tier
  cr_push_hmac_secret :: "string option"
  cr_push_replay_window_s :: int
  cr_push_auto_quarantine_enabled :: bool
  cr_marketplace_configured :: bool
  cr_reeval_configured :: bool
  cr_mac :: "string \<Rightarrow> int \<Rightarrow> bytes \<Rightarrow> string"
  cr_json_loads :: "bytes \<Rightarrow> pyval res"
  cr_str :: "pyval \<Rightarrow> string"
  cr_repr :: "string \<Rightarrow> string"

section \<open>Submitting\<close>

definition CONSOLE_SKILL_ID_MAX_LENGTH :: nat where "CONSOLE_SKILL_ID_MAX_LENGTH = 255"

record console_submission =
  cb_skill_id :: "string option"
  cb_trust_tier :: "string option"
  cb_package :: bytes

definition requested_tier :: "'raw console_runtime \<Rightarrow> string option \<Rightarrow> trust_tier res" where
  "requested_tier cr raw = (case raw of None \<Rightarrow> Inr (cr_default_trust_tier cr) | Some t \<Rightarrow> TrustTier_of t)"

text \<open>The refusals before any write, in their order: the tier the scan is judged at, or a status code.\<close>

definition console_preflight ::
  "inventory_db \<Rightarrow> string \<Rightarrow> bool \<Rightarrow> trust_tier \<Rightarrow> string \<Rightarrow> string \<Rightarrow> ('raw, trust_tier) handler" where
  "console_preflight idb who caller_is_admin tier skill_id c_hash st =
     (let content_owner = skill_id_for_content idb c_hash;
          prior_state = current_state idb skill_id;
          later = (\<lambda>tier. if content_owner \<noteq> None \<and> content_owner \<noteq> Some skill_id then (st, Refused 409)
            else case validate_transition prior_state ''submitted'' of
                Inl e \<Rightarrow> (st, Refused 409) | Inr u \<Rightarrow> (st, Answer tier))
      in case get_registered_skill idb skill_id of
          None \<Rightarrow> later tier
        | Some (recorded_owner, recorded_tier) \<Rightarrow>
            (case authorize_skill_write recorded_owner who caller_is_admin of
               Inl e \<Rightarrow> (record_cross_scope_attempt st, Refused 403)
             | Inr u \<Rightarrow> later (case TrustTier_of recorded_tier of Inl e \<Rightarrow> PUBLIC | Inr t \<Rightarrow> t)))"

text \<open>The column of the name holds 128 characters, and the database refuses a longer one.\<close>

definition SKILL_ID_COLUMN :: nat where "SKILL_ID_COLUMN = 128"

definition register_upload ::
  "real \<Rightarrow> string \<Rightarrow> bool \<Rightarrow> string \<Rightarrow> trust_tier \<Rightarrow> string \<Rightarrow> string \<Rightarrow> pyval \<Rightarrow> string \<Rightarrow> inventory_db \<Rightarrow> inventory_db res" where
  "register_upload now who caller_is_admin skill_id tier c_hash t_digest declared scan_id idb =
     res_bind (raise_if (length skill_id > SKILL_ID_COLUMN) SQLAlchemyError) (\<lambda>_.
     res_bind (register_skill_version idb now skill_id ''web-upload'' (trust_tier_value tier) c_hash t_digest declared who
       caller_is_admin None) (\<lambda>idb1.
     transition_skill idb1 now skill_id ''scanning'' (''scan '' @ scan_id @ '' submitted'') who (Some c_hash) (Some scan_id)))"

text \<open>The part after the scan was submitted: registration when a skill is named.\<close>

definition enter_inventory ::
  "'raw market_runtime \<Rightarrow> real \<Rightarrow> string \<Rightarrow> bool \<Rightarrow> string \<Rightarrow> trust_tier \<Rightarrow> string \<Rightarrow> engine_metadata list \<Rightarrow> file_entry list \<Rightarrow>
   string \<Rightarrow> ('raw, string) handler" where
  "enter_inventory rt now who caller_is_admin skill_id tier c_hash metadatas files scan_id st =
     (if \<not> mr_inventory_configured rt then (st, Refused 503)
      else case res_bind (cache_policy_version (pf_iter (mr_platform rt)) (pf_repr (mr_platform rt))
                   (pf_sha256_text (mr_platform rt)) (mr_policy rt))
                 (\<lambda>cpv. toolchain_digest (pf_sha256 (mr_platform rt)) metadatas cpv ''none'') of
          Inl e \<Rightarrow> (st, Crashed e)
        | Inr t_digest \<Rightarrow>
            (case register_upload now who caller_is_admin skill_id tier c_hash t_digest (declared_permissions rt files) scan_id
                    (ms_inventory st) of
               Inr idb \<Rightarrow> (st\<lparr>ms_inventory := idb\<rparr>, Answer scan_id)
             | Inl e \<Rightarrow>
                 if e = SkillOwnershipError then (record_cross_scope_attempt st, Refused 403)
                 else if e = ContentRegisteredToAnotherSkillError then (st, Refused 409)
                 else if e = InvalidTransitionError then (st, Refused 409)
                 else (st, Crashed e)))"

definition upload_package ::
  "'raw market_runtime \<Rightarrow> real \<Rightarrow> string \<Rightarrow> ('raw market_state \<Rightarrow> 'raw market_state) \<Rightarrow> ('raw market_state \<Rightarrow> 'raw market_state) \<Rightarrow>
   string \<Rightarrow> bool \<Rightarrow> trust_tier \<Rightarrow> string \<Rightarrow> file_entry list \<Rightarrow> ('raw, string) handler" where
  "upload_package rt now uuid gap1 gap2 who caller_is_admin asked skill_id files st =
     (case content_hash (pf_nfc (mr_platform rt)) (pf_sha256 (mr_platform rt)) files of
        Inl e \<Rightarrow> (st, Crashed e)
      | Inr c_hash \<Rightarrow> reply_bind
          (\<lambda>st. if skill_id = [] then (st, Answer asked)
                else if \<not> mr_inventory_configured rt then (st, Refused 503)
                else console_preflight (ms_inventory st) who caller_is_admin asked skill_id c_hash st)
          (\<lambda>tier st0.
             (let st1 = gap1 st0; metadatas = enabled_engines rt (ms_disabled st1)
              in case submit_scan (mr_platform rt) (ms_system st1) now uuid files who metadatas (mr_policy rt) tier CONSOLE tier
                        (mr_scan_deadline_s rt) of
                  (sy, Inl e) \<Rightarrow> (st1\<lparr>ms_system := sy\<rparr>, Crashed e)
                | (sy, Inr scan_id) \<Rightarrow>
                    if skill_id = [] then (st1\<lparr>ms_system := sy\<rparr>, Answer scan_id)
                    else enter_inventory rt now who caller_is_admin skill_id tier c_hash metadatas files scan_id
                           (gap2 (st1\<lparr>ms_system := sy\<rparr>)))) st)"

text \<open>An absent form field and an empty one both mean an anonymous submission.\<close>

definition create_scan ::
  "'raw console_runtime \<Rightarrow> real \<Rightarrow> string \<Rightarrow> ('raw market_state \<Rightarrow> 'raw market_state) \<Rightarrow> ('raw market_state \<Rightarrow> 'raw market_state) \<Rightarrow>
   request \<Rightarrow> console_caller \<Rightarrow> console_submission \<Rightarrow> ('raw, string) handler" where
  "create_scan cr now uuid gap1 gap2 rq caller sub st =
     (case require_csrf rq of
        Inl e \<Rightarrow> (st, if e = CsrfValidationError then Refused 403 else Crashed e)
      | Inr u \<Rightarrow>
          let skill_id = (case cb_skill_id sub of None \<Rightarrow> [] | Some s \<Rightarrow> s); rt = cr_shared cr
          in if length skill_id > CONSOLE_SKILL_ID_MAX_LENGTH then (st, Refused 422)
             else case requested_tier cr (cb_trust_tier sub) of
                 Inl e \<Rightarrow> (st, Refused 400)
               | Inr tier \<Rightarrow> (case unpack_package_archive (mr_formats rt) (cb_package sub) of
                   Inl e \<Rightarrow> (st, if e = UnpackRejected then Refused 400 else Crashed e)
                 | Inr files \<Rightarrow> upload_package rt now uuid gap1 gap2 (cn_subject caller)
                     (has_role (cn_session caller) [''admin'']) tier skill_id files st))"

section \<open>Reading one scan\<close>

definition EMPTY_ATTRIBUTION :: attribution where
  "EMPTY_ATTRIBUTION = \<lparr>at_submitters = [], at_submitter_sources = [], at_source = []\<rparr>"

fun coverage_class_value :: "coverage_class \<Rightarrow> string" where
  "coverage_class_value C_REPORTED = ''reported''"
| "coverage_class_value C_MISSING = ''missing''"
| "coverage_class_value C_NOT_APPLICABLE = ''not_applicable''"

record coverage_line =
  cl_name :: string
  cl_report_state :: string
  cl_engine_status :: "string option"
  cl_analyze_duration_ms :: "int option"
  cl_coverage :: string
  cl_attribution :: "string option"
  cl_attribution_basis :: "string option"

record coverage_body =
  co_expected :: nat
  co_reported :: nat
  co_not_applicable :: nat
  co_complete :: "bool option"
  co_basis :: "string option"
  co_engines :: "coverage_line list"

definition coverage_attribution :: "coverage_entry \<Rightarrow> string set \<Rightarrow> string set \<Rightarrow> string option \<times> string option" where
  "coverage_attribution entry disabled llm_unconfigured =
     (if ce_report_state entry \<noteq> ''not_reported'' then (None, None)
      else let attribution = not_reported_attribution (ce_engine_name entry) disabled llm_unconfigured 0
           in (attribution, not_reported_attribution_basis attribution))"

definition engine_coverage_to_dict :: "scan_engine_coverage \<Rightarrow> string set \<Rightarrow> string set \<Rightarrow> coverage_body" where
  "engine_coverage_to_dict coverage disabled llm_unconfigured =
     \<lparr>co_expected = sg_expected coverage, co_reported = sg_reported coverage, co_not_applicable = sg_not_applicable coverage,
      co_complete = coverage_complete coverage,
      co_basis = (if sg_observed coverage then Some COVERAGE_BASIS_CURRENT_CONFIG else None),
      co_engines = map (\<lambda>entry. \<lparr>cl_name = ce_engine_name entry, cl_report_state = ce_report_state entry,
          cl_engine_status = ce_engine_status entry, cl_analyze_duration_ms = ce_analyze_duration_ms entry,
          cl_coverage = coverage_class_value (ce_coverage entry),
          cl_attribution = fst (coverage_attribution entry disabled llm_unconfigured),
          cl_attribution_basis = snd (coverage_attribution entry disabled llm_unconfigured)\<rparr>) (sg_entries coverage)\<rparr>"

record scan_detail =
  sd_scan_id :: string
  sd_state :: string
  sd_submitter :: string
  sd_verdict :: "string option"
  sd_severity :: "int option"
  sd_score :: "int option"
  sd_is_safe :: "bool option"
  sd_findings :: "json_object list"
  sd_provenance :: "string list list"
  sd_required_ok :: "bool option"
  sd_engine_coverage :: coverage_body
  sd_hard_gate_hits :: "string list"
  sd_reasons :: "string list"
  sd_sarif_ref :: string
  sd_trust_tier :: "string option"
  sd_judged_at_tier :: "string option"
  sd_tier_direction :: "direction option"
  sd_tier_direction_basis :: "basis option"
  sd_attribution :: attribution

definition attribution_of :: "orch_db \<Rightarrow> string list \<Rightarrow> string \<Rightarrow> attribution" where
  "attribution_of odb scan_ids scan_id =
     (case map_of (submitter_attribution odb scan_ids) scan_id of None \<Rightarrow> EMPTY_ATTRIBUTION | Some a \<Rightarrow> a)"

definition scan_detail_of :: "'raw market_runtime \<Rightarrow> 'raw market_state \<Rightarrow> string \<Rightarrow> string \<Rightarrow> scan_job \<Rightarrow> scan_detail" where
  "scan_detail_of rt st who scan_id job =
     (let odb = sy_orch (ms_system st);
          result_row = map_of (od_results odb) scan_id;
          verdict_row = map_of (gd_verdicts (sy_gate (ms_system st))) scan_id;
          llm_unconfigured = llm_unconfigured_engine_names (mr_sandbox_llm_configured rt);
          coverage = load_scan_engine_coverage odb scan_id (structurally_absent_engine_names (ms_disabled st) llm_unconfigured);
          requested_by_caller = requested_tier_of odb scan_id who;
          divergence = tier_divergence (mr_policy rt) requested_by_caller (sj_trust_tier job) (map_option vd_policy_version verdict_row)
      in \<lparr>sd_scan_id = scan_id, sd_state = sj_state job, sd_submitter = sj_submitter job,
          sd_verdict = map_option vd_verdict verdict_row, sd_severity = map_option rr_severity result_row,
          sd_score = map_option vd_score verdict_row, sd_is_safe = map_option (\<lambda>v. vd_verdict v = ''PASS'') verdict_row,
          sd_findings = (case result_row of None \<Rightarrow> [] | Some r \<Rightarrow> rr_findings r),
          sd_provenance = (case result_row of None \<Rightarrow> [] | Some r \<Rightarrow> rr_provenance r),
          sd_required_ok = map_option rr_required_ok result_row,
          sd_engine_coverage = engine_coverage_to_dict coverage (ms_disabled st) llm_unconfigured,
          sd_hard_gate_hits = (case result_row of None \<Rightarrow> [] | Some r \<Rightarrow> rr_hard_gate_hits r),
          sd_reasons = (case verdict_row of None \<Rightarrow> [] | Some v \<Rightarrow> vd_reasons v),
          sd_sarif_ref = ''/v1/scans/'' @ scan_id @ ''/sarif'',
          sd_trust_tier = (if requested_by_caller \<noteq> None then requested_by_caller else sj_trust_tier job),
          sd_judged_at_tier = sj_trust_tier job,
          sd_tier_direction = fst divergence, sd_tier_direction_basis = snd divergence,
          sd_attribution = attribution_of odb [scan_id] scan_id\<rparr>)"

definition may_read :: "orch_db \<Rightarrow> console_caller \<Rightarrow> string \<Rightarrow> bool" where
  "may_read odb caller scan_id \<longleftrightarrow> is_scan_submitter odb scan_id (cn_subject caller) \<or> has_role (cn_session caller) REVIEWER_ROLES"

definition get_scan :: "'raw console_runtime \<Rightarrow> console_caller \<Rightarrow> string \<Rightarrow> ('raw, scan_detail) handler" where
  "get_scan cr caller scan_id st =
     (case map_of (od_jobs (sy_orch (ms_system st))) scan_id of
        None \<Rightarrow> (st, Refused 404)
      | Some job \<Rightarrow>
          if \<not> may_read (sy_orch (ms_system st)) caller scan_id then (record_cross_scope_attempt st, Refused 404)
          else (st, Answer (scan_detail_of (cr_shared cr) st (cn_subject caller) scan_id job)))"

section \<open>Listing scans\<close>

record scan_item =
  si_scan_id :: string
  si_state :: string
  si_submitter :: string
  si_content_hash :: string
  si_verdict :: "string option"
  si_score :: "int option"
  si_is_safe :: "bool option"
  si_skill_id :: "string option"
  si_skill_name :: "nat list option"
  si_attribution :: attribution

definition visible_jobs :: "orch_db \<Rightarrow> console_caller \<Rightarrow> string option \<Rightarrow> (string \<times> scan_job) list" where
  "visible_jobs odb caller state =
     filter (\<lambda>(k, j). (case state of None \<Rightarrow> True | Some s \<Rightarrow> sj_state j = s))
       (if \<not> has_role (cn_session caller) REVIEWER_ROLES
        then filter (\<lambda>(k, j). k \<in> su_scan_id ` {r \<in> set (od_submitters odb). su_submitter r = cn_subject caller}) (od_jobs odb)
        else od_jobs odb)"

definition scan_item_of :: "'raw market_runtime \<Rightarrow> 'raw market_state \<Rightarrow> string list \<Rightarrow> string \<times> scan_job \<Rightarrow> scan_item" where
  "scan_item_of rt st scan_ids = (\<lambda>(k, j).
     let verdict_row = map_of (gd_verdicts (sy_gate (ms_system st))) k
     in \<lparr>si_scan_id = k, si_state = sj_state j, si_submitter = sj_submitter j, si_content_hash = sj_content_hash j,
         si_verdict = map_option vd_verdict verdict_row, si_score = map_option vd_score verdict_row,
         si_is_safe = map_option (\<lambda>v. vd_verdict v = ''PASS'') verdict_row,
         si_skill_id = (if mr_inventory_configured rt then map_option sv_skill_id (map_of (db_versions (ms_inventory st)) (sj_content_hash j))
           else None),
         si_skill_name = sj_skill_name j,
         si_attribution = attribution_of (sy_orch (ms_system st)) scan_ids k\<rparr>)"

text \<open>\<open>ordered\<close> is the order in which the database returns the selected rows; what may be relied on is
  \<open>newest_first\<close>, which leaves the order of scans with the same time open.\<close>

definition newest_first :: "((string \<times> scan_job) list \<Rightarrow> (string \<times> scan_job) list) \<Rightarrow> bool" where
  "newest_first ordered \<longleftrightarrow> (\<forall>rows. mset (ordered rows) = mset rows \<and>
     sorted_wrt (\<lambda>(k, a) (l, b). sj_created_at a \<ge> sj_created_at b) (ordered rows))"

definition list_scans ::
  "'raw console_runtime \<Rightarrow> ((string \<times> scan_job) list \<Rightarrow> (string \<times> scan_job) list) \<Rightarrow> console_caller \<Rightarrow> string option \<Rightarrow> int \<Rightarrow> int \<Rightarrow>
   ('raw, scan_item list) handler" where
  "list_scans cr ordered caller state limit offset st =
     (let bounded_limit = max 1 (min limit 200);
          jobs = take (nat bounded_limit) (drop (nat (max 0 offset)) (ordered (visible_jobs (sy_orch (ms_system st)) caller state)))
      in (st, Answer (map (scan_item_of (cr_shared cr) st (map fst jobs)) jobs)))"

section \<open>The push channel\<close>

record 'raw console_state =
  cs_shared :: "'raw market_state"
  cs_reeval :: reeval_state
  cs_orphans :: nat

datatype push_answer = Accepted_but_not_configured | Processed reconciliation_result

text \<open>\<open>int\<close> of a text refuses more than 4300 digits.\<close>

definition header_int :: "string \<Rightarrow> int option" where
  "header_int h = (if length (filter (\<lambda>c. CHR ''0'' \<le> c \<and> c \<le> CHR ''9'') h) > 4300 then None else py_int h)"

definition subscript :: "pyval \<Rightarrow> string \<Rightarrow> pyval res" where
  "subscript parsed key = (case parsed of
     PDict kvs \<Rightarrow> (case map_of kvs (PStr key) of None \<Rightarrow> Inl KeyError | Some v \<Rightarrow> Inr v)
   | _ \<Rightarrow> Inl TypeError)"

definition push_entry :: "'raw console_runtime \<Rightarrow> bytes \<Rightarrow> published_entry res" where
  "push_entry cr body =
     res_bind (cr_json_loads cr body) (\<lambda>parsed.
     res_bind (subscript parsed ''content_hash'') (\<lambda>ch.
     res_bind (subscript parsed ''skill_id'') (\<lambda>sk.
     Inr \<lparr>pe_content_hash = cr_str cr ch, pe_skill_id = cr_str cr sk\<rparr>)))"

definition marketplace_push_webhook ::
  "'raw console_runtime \<Rightarrow> real \<Rightarrow> (string \<times> string) list \<Rightarrow> bytes \<Rightarrow> 'raw console_state \<Rightarrow> 'raw console_state \<times> push_answer reply" where
  "marketplace_push_webhook cr now headers body st =
     (case cr_push_hmac_secret cr of
        None \<Rightarrow> (st, Refused 404)
      | Some secret \<Rightarrow>
          (case (map_of headers ''x-marketplace-signature'', map_of headers ''x-marketplace-timestamp'') of
             (Some signature, Some stamp) \<Rightarrow>
               if signature = [] \<or> stamp = [] then (st, Refused 401)
               else (case header_int stamp of
                   None \<Rightarrow> (st, Refused 401)
                 | Some timestamp \<Rightarrow>
                     (case verify_push_event_signature (cr_mac cr) body signature timestamp secret (cr_push_replay_window_s cr) now of
                        Inl e \<Rightarrow> (st, if e = PushEventVerificationError then Refused 401 else Crashed e)
                      | Inr u \<Rightarrow>
                          (case push_entry cr body of
                             Inl e \<Rightarrow> (st, if e \<in> {JSONDecodeError, KeyError, TypeError} then Refused 400 else Crashed e)
                           | Inr entry \<Rightarrow>
                               if \<not> cr_marketplace_configured cr \<or> \<not> cr_reeval_configured cr
                               then (st, Answer Accepted_but_not_configured)
                               else (case apply_push_event (cr_repr cr) now (sy_gate (ms_system (cs_shared st))) entry
                                        (cr_push_auto_quarantine_enabled cr) (cs_reeval st) of
                                   (reeval, oc) \<Rightarrow>
                                     (st\<lparr>cs_reeval := reeval,
                                         cs_orphans := (if oc_result oc = ORPHAN then Suc (cs_orphans st) else cs_orphans st)\<rparr>,
                                      Answer (Processed (oc_result oc)))))))
           | _ \<Rightarrow> (st, Refused 401)))"

section \<open>Whose scans are shown\<close>

lemma visible_jobs_iff:
  "k \<in> fst ` set (visible_jobs odb caller None) \<longleftrightarrow> k \<in> fst ` set (od_jobs odb) \<and> may_read odb caller k"
  by (force simp: visible_jobs_def may_read_def is_scan_submitter_def list_ex_iff)

lemma visible_jobs_subset: "set (visible_jobs odb caller state) \<subseteq> set (visible_jobs odb caller None)"
  by (auto simp: visible_jobs_def)

lemma attribute_rows_local:
  "map_of m k = map_of m' k \<Longrightarrow>
   map_of (fold attribute_row rows m) k = map_of (fold attribute_row (filter (\<lambda>r. su_scan_id r = k) rows) m') k"
proof (induction rows arbitrary: m m')
  case (Cons r rows)
  show ?case
  proof (cases "su_scan_id r = k")
    case True
    have "map_of (attribute_row r m) k = map_of (attribute_row r m') k"
      using Cons.prems True by (simp add: attribute_row_def update_conv Let_def)
    then show ?thesis using Cons.IH True by simp
  next
    case False
    have "map_of (attribute_row r m) k = map_of m' k"
      using Cons.prems False by (simp add: attribute_row_def update_conv Let_def)
    then show ?thesis using Cons.IH False by simp
  qed
qed simp

text \<open>What is shown about a scan's submitters does not depend on the page it is shown on.\<close>

lemma attribution_of_page: "k \<in> set ids \<Longrightarrow> attribution_of odb ids k = attribution_of odb [k] k"
proof -
  let ?key = "\<lambda>r. (su_scan_id r, su_submitter r)"
  let ?fin = "\<lambda>e. e\<lparr>at_source := sorted_list_of_set {s. Some s \<in> (\<lambda>(_, src, _). src) ` set (at_submitter_sources e)}\<rparr>"
  assume k: "k \<in> set ids"
  let ?rows = "\<lambda>ids. sort_key ?key (filter (\<lambda>r. su_scan_id r \<in> set ids) (od_submitters odb))"
  have "filter (\<lambda>r. su_scan_id r = k) (?rows ids) = filter (\<lambda>r. su_scan_id r = k) (?rows [k])" if "k \<in> set ids"
    unfolding filter_sort filter_filter using that by (intro arg_cong [where f = "sort_key ?key"] filter_cong) auto
  then have own: "filter (\<lambda>r. su_scan_id r = k) (?rows ids) = filter (\<lambda>r. su_scan_id r = k) (?rows [k])" using k by blast
  have "map_of (fold attribute_row (?rows ids) []) k = map_of (fold attribute_row (filter (\<lambda>r. su_scan_id r = k) (?rows ids)) []) k"
    by (rule attribute_rows_local) (rule refl)
  also have "\<dots> = map_of (fold attribute_row (?rows [k]) []) k" unfolding own by (rule attribute_rows_local [symmetric]) (rule refl)
  finally have "map_of (fold attribute_row (?rows ids) []) k = map_of (fold attribute_row (?rows [k]) []) k" .
  then have "map_of (submitter_attribution odb ids) k = map_of (submitter_attribution odb [k]) k"
    unfolding submitter_attribution_def Let_def map_of_map by simp
  then show ?thesis by (simp add: attribution_of_def)
qed

lemma get_scan_Answer_iff:
  "(\<exists>d. snd (get_scan cr caller k st) = Answer d) \<longleftrightarrow>
     k \<in> fst ` set (od_jobs (sy_orch (ms_system st))) \<and> may_read (sy_orch (ms_system st)) caller k"
  using map_of_eq_None_iff [of "od_jobs (sy_orch (ms_system st))" k]
  by (cases "map_of (od_jobs (sy_orch (ms_system st))) k") (auto simp: get_scan_def)

lemma list_scans_items:
  "snd (list_scans cr ordered caller state limit offset st) = Answer items \<longleftrightarrow>
   (let jobs = take (nat (max 1 (min limit 200))) (drop (nat (max 0 offset)) (ordered (visible_jobs (sy_orch (ms_system st)) caller state)))
    in items = map (scan_item_of (cr_shared cr) st (map fst jobs)) jobs)"
  by (auto simp: list_scans_def Let_def)

lemma newest_first_set: "newest_first ordered \<Longrightarrow> set (ordered rows) = set rows"
  unfolding newest_first_def by (metis set_mset_mset)

lemma si_scan_id_item [simp]: "si_scan_id (scan_item_of rt st ids x) = fst x"
  by (cases x) (simp add: scan_item_of_def Let_def)

lemma every_position_on_some_page:
  assumes "x \<in> set xs" "0 < n"
  shows "\<exists>offset. x \<in> set (take n (drop offset xs))"
proof -
  obtain i where i: "i < length xs" "xs ! i = x" using assms(1) by (metis in_set_conv_nth)
  then have "take n (drop i xs) \<noteq> [] \<and> hd (take n (drop i xs)) = x" using assms(2) by (simp add: hd_drop_conv_nth)
  then show ?thesis by (metis list.set_sel(1))
qed

lemma item_agrees_with_detail:
  assumes "distinct (map fst (od_jobs (sy_orch (ms_system st))))"
    and "(k, j) \<in> set (visible_jobs (sy_orch (ms_system st)) caller state)" "k \<in> set ids"
  shows "\<exists>d. snd (get_scan cr caller k st) = Answer d \<and>
    (let item = scan_item_of (cr_shared cr) st ids (k, j)
     in sd_state d = si_state item \<and> sd_submitter d = si_submitter item \<and> sd_verdict d = si_verdict item \<and>
        sd_score d = si_score item \<and> sd_is_safe d = si_is_safe item \<and> sd_attribution d = si_attribution item)"
proof -
  have j: "(k, j) \<in> set (od_jobs (sy_orch (ms_system st)))" "(k, j) \<in> set (visible_jobs (sy_orch (ms_system st)) caller None)"
    using assms(2) visible_jobs_subset [of _ caller state] by (auto simp: visible_jobs_def split: if_splits)
  then have "may_read (sy_orch (ms_system st)) caller k" using visible_jobs_iff [of k _ caller] by force
  moreover have "map_of (od_jobs (sy_orch (ms_system st))) k = Some j" using j(1) assms(1) by simp
  ultimately have "snd (get_scan cr caller k st) = Answer (scan_detail_of (cr_shared cr) st (cn_subject caller) k j)"
    by (simp add: get_scan_def)
  then show ?thesis
    by (intro exI [of _ "scan_detail_of (cr_shared cr) st (cn_subject caller) k j"])
      (simp add: scan_detail_of_def scan_item_of_def Let_def attribution_of_page [OF assms(3)])
qed

text \<open>C21: The list and the detail page agree. In any reachable state of the scan transactions, whatever order the
  database gives to scans of the same time: a scan can be opened by a caller exactly when it stands on some
  page of the caller's list, that is when the caller submitted it, possibly after someone else, or holds a
  reviewer role; and an item of the list shows the state, verdict, score, safety and submitters that
  the detail page shows.\<close>

theorem list_matches_detail:
  assumes "newest_first ordered" "tx_reachable (ms_system st, P)"
  shows "(\<forall>k. (\<exists>d. snd (get_scan cr caller k st) = Answer d) \<longleftrightarrow>
      (\<exists>offset items item. snd (list_scans cr ordered caller None limit offset st) = Answer items \<and> item \<in> set items \<and> si_scan_id item = k)) \<and>
    (\<forall>state offset items item. snd (list_scans cr ordered caller state limit offset st) = Answer items \<and> item \<in> set items \<longrightarrow>
      (\<exists>d. snd (get_scan cr caller (si_scan_id item) st) = Answer d \<and> sd_state d = si_state item \<and> sd_submitter d = si_submitter item \<and>
        sd_verdict d = si_verdict item \<and> sd_score d = si_score item \<and> sd_is_safe d = si_is_safe item \<and> sd_attribution d = si_attribution item))"
proof -
  let ?odb = "sy_orch (ms_system st)"
  let ?n = "nat (max 1 (min limit 200))"
  have dist: "distinct (map fst (od_jobs ?odb))" using tx_reachable_ok [OF assms(2)] by (simp add: conc_ok_def jobs_ok_def)
  have pos: "0 < ?n" by simp
  have ord: "set (ordered rows) = set rows" for rows using assms(1) by (rule newest_first_set)
  have shown: "\<exists>d. snd (get_scan cr caller (si_scan_id item) st) = Answer d \<and> sd_state d = si_state item \<and> sd_submitter d = si_submitter item \<and>
        sd_verdict d = si_verdict item \<and> sd_score d = si_score item \<and> sd_is_safe d = si_is_safe item \<and> sd_attribution d = si_attribution item"
    if list: "snd (list_scans cr ordered caller state limit offset st) = Answer items" and item: "item \<in> set items" for state offset items item
  proof -
    define jobs where "jobs = take ?n (drop (nat (max 0 offset)) (ordered (visible_jobs ?odb caller state)))"
    obtain k j where kj: "(k, j) \<in> set jobs" "item = scan_item_of (cr_shared cr) st (map fst jobs) (k, j)"
      using list item unfolding list_scans_items Let_def jobs_def [symmetric] by auto
    have "(k, j) \<in> set (visible_jobs ?odb caller state)" using kj(1) unfolding jobs_def by (metis in_set_dropD in_set_takeD ord)
    moreover have "k \<in> set (map fst jobs)" using kj(1) by force
    ultimately show ?thesis using item_agrees_with_detail [OF dist] unfolding kj(2) Let_def by simp
  qed
  have "\<exists>offset items item. snd (list_scans cr ordered caller None limit offset st) = Answer items \<and> item \<in> set items \<and> si_scan_id item = k"
    if readable: "k \<in> fst ` set (od_jobs ?odb) \<and> may_read ?odb caller k" for k
  proof -
    have "k \<in> fst ` set (ordered (visible_jobs ?odb caller None))" using readable unfolding ord visible_jobs_iff .
    then obtain j where j: "(k, j) \<in> set (ordered (visible_jobs ?odb caller None))" by force
    obtain m where m: "(k, j) \<in> set (take ?n (drop m (ordered (visible_jobs ?odb caller None))))"
      using every_position_on_some_page [OF j pos] ..
    define jobs where "jobs = take ?n (drop m (ordered (visible_jobs ?odb caller None)))"
    have "snd (list_scans cr ordered caller None limit (int m) st) = Answer (map (scan_item_of (cr_shared cr) st (map fst jobs)) jobs)"
      unfolding list_scans_items Let_def by (simp add: jobs_def)
    moreover have "(k, j) \<in> set jobs" using m unfolding jobs_def .
    ultimately show ?thesis
      by (intro exI [of _ "int m"] exI [of _ "map (scan_item_of (cr_shared cr) st (map fst jobs)) jobs"]
        exI [of _ "scan_item_of (cr_shared cr) st (map fst jobs) (k, j)"]) simp
  qed
  then have listed: "(\<exists>d. snd (get_scan cr caller k st) = Answer d) \<Longrightarrow>
      \<exists>offset items item. snd (list_scans cr ordered caller None limit offset st) = Answer items \<and> item \<in> set items \<and> si_scan_id item = k" for k
    unfolding get_scan_Answer_iff .
  have opens: "\<exists>d. snd (get_scan cr caller k st) = Answer d"
    if "\<exists>offset items item. snd (list_scans cr ordered caller None limit offset st) = Answer items \<and> item \<in> set items \<and> si_scan_id item = k" for k
    using that shown by (elim exE conjE) blast
  show ?thesis
    by (intro conjI allI impI iffI) (erule listed, erule opens, erule conjE, rule shown, assumption+)
qed

text \<open>Note: A scan of someone else looks like no scan at all. A caller who may not read a scan gets the reply it would get
  if the scan did not exist, whatever the scan holds.\<close>

theorem foreign_scan_indistinguishable:
  assumes "\<not> may_read (sy_orch (ms_system st)) caller k" "map_of (od_jobs (sy_orch (ms_system st0))) k = None"
  shows "snd (get_scan cr caller k st) = snd (get_scan cr caller k st0) \<and> snd (get_scan cr caller k st) = Refused 404"
  using assms by (simp add: get_scan_def split: option.splits)

section \<open>Pages\<close>

lemma newest_first_unique:
  assumes "newest_first o1" "newest_first o2" "inj_on (sj_created_at \<circ> snd) (set rows)"
  shows "o1 rows = o2 rows"
proof -
  let ?f = "\<lambda>x :: string \<times> scan_job. - sj_created_at (snd x)"
  have inj: "inj_on ?f (set rows)" using assms(3) by (auto simp: inj_on_def)
  have "sort_key ?f rows = ordered rows" if "newest_first ordered" for ordered
  proof (rule sort_key_inj_key_eq)
    show "mset rows = mset (ordered rows)" "inj_on ?f (set rows)" using that inj by (simp_all add: newest_first_def)
    have "sorted_wrt (\<lambda>(k, a) (l, b). sj_created_at a \<ge> sj_created_at b) (ordered rows)" using that by (simp add: newest_first_def)
    then show "sorted (map ?f (ordered rows))" unfolding sorted_map by (rule sorted_wrt_mono_rel [rotated]) auto
  qed
  then show ?thesis using assms(1,2) by metis
qed

lemma concat_pages: "concat (map (\<lambda>i. take n (drop (i * n) xs)) [0..<m]) = take (m * n) xs"
proof (induction m)
  case (Suc m)
  then show ?case by (simp add: take_add [symmetric] add.commute)
qed simp

text \<open>Note: Paging loses nothing when the times differ. If no two scans a caller may read have the same time then reading
  page after page, each with whatever order the database chose for it, gives every one of them once, newest
  first.\<close>

theorem pages_tile:
  assumes "\<forall>i. newest_first (ordered i)" "newest_first whole" "1 \<le> limit" "limit \<le> 200"
    and "inj_on (sj_created_at \<circ> snd) (set (visible_jobs (sy_orch (ms_system st)) caller state))"
    and "length (visible_jobs (sy_orch (ms_system st)) caller state) \<le> m * nat limit"
    and "\<forall>i. snd (list_scans cr (ordered i) caller state limit (int i * limit) st) = Answer (page i)"
  shows "map si_scan_id (concat (map page [0..<m])) = map fst (whole (visible_jobs (sy_orch (ms_system st)) caller state))"
proof -
  let ?rows = "visible_jobs (sy_orch (ms_system st)) caller state"
  have len: "length (whole ?rows) = length ?rows" using assms(2) unfolding newest_first_def by (metis size_mset)
  have page: "map si_scan_id (page i) = map fst (take (nat limit) (drop (i * nat limit) (whole ?rows)))" for i
  proof -
    have same: "ordered i ?rows = whole ?rows" using assms(1,2,5) newest_first_unique by blast
    have n: "nat (max 1 (min limit 200)) = nat limit" "nat (max 0 (int i * limit)) = i * nat limit"
      using assms(3,4) by (simp_all add: nat_mult_distrib)
    show ?thesis using assms(7) [rule_format, of i] unfolding list_scans_items Let_def n same by (simp add: o_def)
  qed
  have "map si_scan_id (concat (map page [0..<m])) = concat (map (\<lambda>i. map si_scan_id (page i)) [0..<m])"
    by (simp add: map_concat o_def)
  also have "\<dots> = map fst (take (m * nat limit) (whole ?rows))"
    unfolding page concat_pages [symmetric] by (simp add: map_concat o_def)
  also have "take (m * nat limit) (whole ?rows) = whole ?rows" using assms(6) len by simp
  finally show ?thesis .
qed

text \<open>Note: Scans of the same time can be lost between pages. With two such scans the database may order them
  differently for the first and the second page, and then one of them is on neither.\<close>

theorem equal_times_can_hide_a_scan:
  assumes "visible_jobs (sy_orch (ms_system st)) caller state = [a, b]" "sj_created_at (snd a) = sj_created_at (snd b)"
  shows "\<exists>o1 o2 page1 page2. newest_first o1 \<and> newest_first o2 \<and>
    snd (list_scans cr o1 caller state 1 0 st) = Answer page1 \<and> snd (list_scans cr o2 caller state 1 1 st) = Answer page2 \<and>
    map si_scan_id (page1 @ page2) = [fst a, fst a]"
proof -
  let ?f = "\<lambda>x :: string \<times> scan_job. - sj_created_at (snd x)"
  have sorted: "sorted_wrt (\<lambda>(k, a) (l, b). sj_created_at a \<ge> sj_created_at b) (sort_key ?f rows)" for rows
    using sorted_sort_key [of ?f rows] unfolding sorted_map by (rule sorted_wrt_mono_rel [rotated]) auto
  have "newest_first (\<lambda>rows. sort_key ?f rows)" "newest_first (\<lambda>rows. sort_key ?f (rev rows))"
    unfolding newest_first_def using sorted by simp_all
  then show ?thesis using assms
    by (intro exI [of _ "\<lambda>rows. sort_key ?f rows"] exI [of _ "\<lambda>rows. sort_key ?f (rev rows)"]) (simp add: list_scans_def Let_def)
qed

section \<open>Accepted and refused submissions\<close>

text \<open>The marketplace applies the console's rule, for a caller who is never an administrator.\<close>

lemma surfaces_share_preflight:
  "submission_preflight idb caller skill_id ch st = console_preflight idb (mc_subject caller) False (mc_tier caller) skill_id ch st"
  by (simp add: submission_preflight_def console_preflight_def Let_def)

lemma console_preflight_Answer:
  assumes "console_preflight idb who admin asked skill_id ch st = (st0, Answer tier)"
  shows "st0 = st" "skill_id_for_content idb ch = None \<or> skill_id_for_content idb ch = Some skill_id"
    "validate_transition (current_state idb skill_id) ''submitted'' = Inr ()"
    "case map_of (db_skills idb) skill_id of None \<Rightarrow> tier = asked
     | Some skill \<Rightarrow> (admin \<or> sk_owner skill = Some who) \<and>
         (sk_trust_tier skill = trust_tier_value tier \<or> tier = PUBLIC \<and> (\<forall>t. sk_trust_tier skill \<noteq> trust_tier_value t))"
proof -
  let ?tier = "case map_of (db_skills idb) skill_id of None \<Rightarrow> asked
    | Some skill \<Rightarrow> (case TrustTier_of (sk_trust_tier skill) of Inl e \<Rightarrow> PUBLIC | Inr t \<Rightarrow> t)"
  have ok: "st0 = st \<and> (skill_id_for_content idb ch = None \<or> skill_id_for_content idb ch = Some skill_id) \<and>
      validate_transition (current_state idb skill_id) ''submitted'' = Inr () \<and> tier = ?tier \<and>
      (\<forall>skill. map_of (db_skills idb) skill_id = Some skill \<longrightarrow> authorize_skill_write (sk_owner skill) who admin = Inr ())"
    using assms by (simp add: console_preflight_def get_registered_skill_def Let_def split: option.splits sum.splits if_splits)
  then show "st0 = st" "skill_id_for_content idb ch = None \<or> skill_id_for_content idb ch = Some skill_id"
    "validate_transition (current_state idb skill_id) ''submitted'' = Inr ()" by blast+
  show "case map_of (db_skills idb) skill_id of None \<Rightarrow> tier = asked
     | Some skill \<Rightarrow> (admin \<or> sk_owner skill = Some who) \<and>
         (sk_trust_tier skill = trust_tier_value tier \<or> tier = PUBLIC \<and> (\<forall>t. sk_trust_tier skill \<noteq> trust_tier_value t))"
    using ok by (auto simp: authorize_write_iff TrustTier_of_value [symmetric] split: option.splits sum.splits)
qed

lemma console_preflight_Refused:
  "console_preflight idb who admin asked skill_id ch st = (st0, Refused n) \<Longrightarrow> st0 = st \<or> st0 = record_cross_scope_attempt st"
  by (auto simp: console_preflight_def Let_def split: option.splits sum.splits if_splits prod.splits)

text \<open>What the pre-flight let through the writing transaction accepts, if nothing came between.\<close>

lemma register_after_preflight:
  assumes "console_preflight idb who admin asked skill_id ch st = (st0, Answer tier)" "length skill_id \<le> SKILL_ID_COLUMN"
  shows "\<exists>idb'. register_upload now who admin skill_id tier ch td declared scan_id idb = Inr idb'"
proof -
  have pf: "skill_id_for_content idb ch = None \<or> skill_id_for_content idb ch = Some skill_id"
    "validate_transition (current_state idb skill_id) ''submitted'' = Inr ()"
    "\<forall>skill. map_of (db_skills idb) skill_id = Some skill \<longrightarrow> authorize_skill_write (sk_owner skill) who admin = Inr ()"
    using console_preflight_Answer [OF assms(1)] by (auto simp: authorize_write_iff split: option.splits)
  have "\<exists>idb1. register_skill_version idb now skill_id ''web-upload'' (trust_tier_value tier) ch td declared who admin None = Inr idb1"
    using pf by (auto simp: register_skill_version_def record_transition_def current_state_def skill_id_for_content_def Let_def raise_if_def
        split: option.splits)
  then obtain idb1 where 1: "register_skill_version idb now skill_id ''web-upload'' (trust_tier_value tier) ch td declared who admin None = Inr idb1" ..
  obtain idb2 e where "record_transition idb2 e = Inr idb1" "ev_skill_id e = skill_id" "ev_to_state e = ''submitted''"
    using 1 by (rule register_InrE)
  then have "current_state idb1 skill_id = Some ''submitted''" using record_transition_Inr by (fastforce simp: current_state_def)
  moreover have "validate_transition (Some ''submitted'') ''scanning'' = Inr ()"
    by (simp add: validate_transition_def ALL_STATES_def VALID_TRANSITIONS_def)
  ultimately show ?thesis unfolding register_upload_def using assms(2) by (simp add: 1 transition_skill_def record_transition_def)
qed

text \<open>C11: A refused upload leaves nothing behind. When no other request runs between its transactions, an upload
  that is refused, for whatever reason, has created no scan, no artifact, no reader of an existing scan and
  no inventory row: the state is the one before, but for the counter of cross-scope attempts.\<close>

theorem refused_upload_leaves_nothing:
  assumes "create_scan cr now uuid id id rq caller sub st = (st', Refused n)"
  shows "st' = st \<or> st' = record_cross_scope_attempt st"
proof -
  let ?who = "cn_subject caller" and ?admin = "has_role (cn_session caller) [''admin'']" and ?rt = "cr_shared cr"
  let ?sid = "case cb_skill_id sub of None \<Rightarrow> [] | Some s \<Rightarrow> s"
  have up: "st1 = st \<or> st1 = record_cross_scope_attempt st"
    if run: "upload_package ?rt now uuid id id ?who ?admin asked sid files st = (st1, Refused n)" for asked sid files st1
  proof (cases "content_hash (pf_nfc (mr_platform ?rt)) (pf_sha256 (mr_platform ?rt)) files")
    case (Inl e)
    then show ?thesis using run by (simp add: upload_package_def)
  next
    case (Inr ch)
    show ?thesis
    proof (cases "sid \<noteq> [] \<and> mr_inventory_configured ?rt")
      case False
      then show ?thesis using run Inr
        by (auto simp: upload_package_def reply_bind_def Let_def split: prod.splits sum.splits if_splits)
    next
      case True
      obtain st0 r where pf: "console_preflight (ms_inventory st) ?who ?admin asked sid ch st = (st0, r)" by fastforce
      show ?thesis
      proof (cases r)
        case (Answer tier)
        have st0: "st0 = st" using console_preflight_Answer(1) [OF pf [unfolded Answer]] .
        have "(\<exists>idb. register_upload now ?who ?admin sid tier ch td declared k (ms_inventory (st\<lparr>ms_system := sy\<rparr>)) = Inr idb) \<or>
            register_upload now ?who ?admin sid tier ch td declared k (ms_inventory (st\<lparr>ms_system := sy\<rparr>)) = Inl SQLAlchemyError" for td declared k sy
          using register_after_preflight [OF pf [unfolded Answer]]
          by (cases "length sid \<le> SKILL_ID_COLUMN") (simp_all add: register_upload_def raise_if_def)
        then have "\<forall>st2 m metadatas k sy. enter_inventory ?rt now ?who ?admin sid tier ch metadatas files k (st\<lparr>ms_system := sy\<rparr>) \<noteq> (st2, Refused m)"
          using True by (auto simp: enter_inventory_def split: sum.splits if_splits) (metis Inl_Inr_False sum.inject(1) py_error.distinct)+
        then show ?thesis using run Inr True pf st0 Answer
          by (auto simp: upload_package_def reply_bind_def Let_def split: prod.splits sum.splits if_splits)
      qed (use run Inr True pf console_preflight_Refused [of "ms_inventory st" ?who ?admin asked sid ch st] in
          \<open>auto simp: upload_package_def reply_bind_def\<close>)
    qed
  qed
  show ?thesis using assms up by (auto simp: create_scan_def Let_def split: sum.splits if_splits)
qed

lemma submitted_scan_is_readable:
  assumes "submit_scan pf sy now uuid files who ms pol tier src req dl = (sy', Inr k)"
  shows "is_scan_submitter (sy_orch sy') k who"
  using assms
  by (auto simp: submit_scan_def associate_submitter_def is_scan_submitter_def list_ex_iff Let_def
      split: sum.splits prod.splits option.splits if_splits)

text \<open>Note: A long name fails late. A name of 129 to 255 characters passes the form and the pre-flight; the scan is
  committed, and only then does the inventory refuse the name: the caller gets an internal error and the
  scan stays.\<close>

theorem long_name_strands_a_scan:
  assumes "content_hash (pf_nfc (mr_platform rt)) (pf_sha256 (mr_platform rt)) files = Inr ch" "mr_inventory_configured rt"
    and "console_preflight (ms_inventory st) who admin asked sid ch st = (st, Answer tier)" "SKILL_ID_COLUMN < length sid"
    and "submit_scan (mr_platform rt) (ms_system st) now uuid files who (enabled_engines rt (ms_disabled st)) (mr_policy rt) tier CONSOLE tier
       (mr_scan_deadline_s rt) = (sy, Inr scan_id)"
    and "res_bind (cache_policy_version (pf_iter (mr_platform rt)) (pf_repr (mr_platform rt)) (pf_sha256_text (mr_platform rt)) (mr_policy rt))
       (\<lambda>cpv. toolchain_digest (pf_sha256 (mr_platform rt)) (enabled_engines rt (ms_disabled st)) cpv ''none'') = Inr td"
  shows "upload_package rt now uuid id id who admin asked sid files st = (st\<lparr>ms_system := sy\<rparr>, Crashed SQLAlchemyError) \<and>
    is_scan_submitter (sy_orch sy) scan_id who"
proof
  have named: "sid \<noteq> []" using assms(4) by auto
  have "enter_inventory rt now who admin sid tier ch (enabled_engines rt (ms_disabled st)) files scan_id (st\<lparr>ms_system := sy\<rparr>) =
      (st\<lparr>ms_system := sy\<rparr>, Crashed SQLAlchemyError)"
    unfolding enter_inventory_def assms(6) sum.case register_upload_def using assms(2,4) by (simp add: raise_if_def)
  then show "upload_package rt now uuid id id who admin asked sid files st = (st\<lparr>ms_system := sy\<rparr>, Crashed SQLAlchemyError)"
    using assms(2,3,5) named unfolding upload_package_def assms(1) sum.case reply_bind_def by simp
  show "is_scan_submitter (sy_orch sy) scan_id who" by (rule submitted_scan_is_readable [OF assms(5)])
qed

lemma upload_package_Answer:
  assumes "upload_package rt now uuid gap1 gap2 who admin asked sid files st = (st', Answer scan_id)"
  obtains ch tier sy disabled sy' where "content_hash (pf_nfc (mr_platform rt)) (pf_sha256 (mr_platform rt)) files = Inr ch"
    "submit_scan (mr_platform rt) sy now uuid files who (enabled_engines rt disabled) (mr_policy rt) tier CONSOLE tier
       (mr_scan_deadline_s rt) = (sy', Inr scan_id)"
    "sid = [] \<Longrightarrow> tier = asked \<and> ms_inventory st' = ms_inventory (gap1 st)"
    "sid \<noteq> [] \<Longrightarrow> console_preflight (ms_inventory st) who admin asked sid ch st = (st, Answer tier)"
    "sid \<noteq> [] \<Longrightarrow> \<exists>td declared idb. register_upload now who admin sid tier ch td declared scan_id idb = Inr (ms_inventory st')"
proof (cases "content_hash (pf_nfc (mr_platform rt)) (pf_sha256 (mr_platform rt)) files")
  case (Inl e)
  then show thesis using assms by (simp add: upload_package_def)
next
  case (Inr ch)
  from assms [unfolded upload_package_def Inr sum.case] obtain st0 tier where
    pre: "(if sid = [] then (st, Answer asked) else if \<not> mr_inventory_configured rt then (st, Refused 503)
       else console_preflight (ms_inventory st) who admin asked sid ch st) = (st0, Answer tier)" and
    rest: "(let st1 = gap1 st0; metadatas = enabled_engines rt (ms_disabled st1)
      in case submit_scan (mr_platform rt) (ms_system st1) now uuid files who metadatas (mr_policy rt) tier CONSOLE tier
                (mr_scan_deadline_s rt) of
          (sy, Inl e) \<Rightarrow> (st1\<lparr>ms_system := sy\<rparr>, Crashed e)
        | (sy, Inr scan_id) \<Rightarrow>
            if sid = [] then (st1\<lparr>ms_system := sy\<rparr>, Answer scan_id)
            else enter_inventory rt now who admin sid tier ch metadatas files scan_id (gap2 (st1\<lparr>ms_system := sy\<rparr>))) = (st', Answer scan_id)"
    by (rule reply_bind_Answer)
  obtain sy where sub: "submit_scan (mr_platform rt) (ms_system (gap1 st0)) now uuid files who (enabled_engines rt (ms_disabled (gap1 st0)))
      (mr_policy rt) tier CONSOLE tier (mr_scan_deadline_s rt) = (sy, Inr scan_id)"
    using rest by (auto simp: Let_def enter_inventory_def split: prod.splits sum.splits if_splits)
  show thesis
  proof (rule that [OF Inr sub])
    show "tier = asked \<and> ms_inventory st' = ms_inventory (gap1 st)" if "sid = []" using that pre rest sub by (auto simp: Let_def)
    assume sid: "sid \<noteq> []"
    then have "console_preflight (ms_inventory st) who admin asked sid ch st = (st0, Answer tier)" using pre by (simp split: if_splits)
    then show "console_preflight (ms_inventory st) who admin asked sid ch st = (st, Answer tier)" using console_preflight_Answer(1) by metis
    show "\<exists>td declared idb. register_upload now who admin sid tier ch td declared scan_id idb = Inr (ms_inventory st')"
      using rest sub sid by (auto simp: Let_def enter_inventory_def split: sum.splits if_splits) blast
  qed
qed

text \<open>Note: What an accepted upload means. Whatever other requests do between its transactions: the double-submit token
  was checked, the package unpacked, and the scan was submitted under the caller's name, who may read it from
  then on. An anonymous upload is judged at the tier asked for and touches no inventory row. A named one is judged
  at the tier recorded for the skill, or the tier asked for if the skill is new, or the strictest one for
  a damaged record; the caller is an administrator or owns the skill, both when the upload was checked and when
  it was written; and the skill is then scanning, holds the content, and the last event names the scan.\<close>

theorem accepted_upload:
  assumes "create_scan cr now uuid gap1 gap2 rq caller sub st = (st', Answer scan_id)"
  defines "admin \<equiv> has_role (cn_session caller) [''admin'']"
    and "skill_id \<equiv> (case cb_skill_id sub of None \<Rightarrow> [] | Some s \<Rightarrow> s)"
  shows "require_csrf rq = Inr () \<and> (\<exists>asked files ch tier sy disabled sy'. requested_tier cr (cb_trust_tier sub) = Inr asked \<and>
    unpack_package_archive (mr_formats (cr_shared cr)) (cb_package sub) = Inr files \<and>
    content_hash (pf_nfc (mr_platform (cr_shared cr))) (pf_sha256 (mr_platform (cr_shared cr))) files = Inr ch \<and>
    submit_scan (mr_platform (cr_shared cr)) sy now uuid files (cn_subject caller) (enabled_engines (cr_shared cr) disabled)
      (mr_policy (cr_shared cr)) tier CONSOLE tier (mr_scan_deadline_s (cr_shared cr)) = (sy', Inr scan_id) \<and>
    may_read (sy_orch sy') caller scan_id \<and>
    (if skill_id = [] then tier = asked \<and> ms_inventory st' = ms_inventory (gap1 st)
     else (case map_of (db_skills (ms_inventory st)) skill_id of None \<Rightarrow> tier = asked
           | Some skill \<Rightarrow> (admin \<or> sk_owner skill = Some (cn_subject caller)) \<and>
               (sk_trust_tier skill = trust_tier_value tier \<or> tier = PUBLIC \<and> (\<forall>t. sk_trust_tier skill \<noteq> trust_tier_value t))) \<and>
        (\<exists>skill. map_of (db_skills (ms_inventory st')) skill_id = Some skill \<and> (admin \<or> sk_owner skill = Some (cn_subject caller))) \<and>
        skill_id_for_content (ms_inventory st') ch = Some skill_id \<and> current_state (ms_inventory st') skill_id = Some ''scanning'' \<and>
        (\<exists>e. last (db_events (ms_inventory st')) = e \<and> ev_scan_id e = Some scan_id \<and> ev_content_hash e = Some ch \<and>
          ev_actor e = cn_subject caller)))"
proof -
  obtain asked files where entry: "require_csrf rq = Inr ()" "requested_tier cr (cb_trust_tier sub) = Inr asked"
    "unpack_package_archive (mr_formats (cr_shared cr)) (cb_package sub) = Inr files"
    "upload_package (cr_shared cr) now uuid gap1 gap2 (cn_subject caller) admin asked skill_id files st = (st', Answer scan_id)"
    using assms(1) unfolding create_scan_def admin_def skill_id_def Let_def
    by (auto split: sum.splits if_splits)
  from entry(4) show ?thesis
  proof (rule upload_package_Answer)
    fix ch tier sy disabled sy'
    assume in1: "content_hash (pf_nfc (mr_platform (cr_shared cr))) (pf_sha256 (mr_platform (cr_shared cr))) files = Inr ch"
      and in2: "submit_scan (mr_platform (cr_shared cr)) sy now uuid files (cn_subject caller) (enabled_engines (cr_shared cr) disabled)
        (mr_policy (cr_shared cr)) tier CONSOLE tier (mr_scan_deadline_s (cr_shared cr)) = (sy', Inr scan_id)"
      and anonymous: "skill_id = [] \<Longrightarrow> tier = asked \<and> ms_inventory st' = ms_inventory (gap1 st)"
      and pre: "skill_id \<noteq> [] \<Longrightarrow> console_preflight (ms_inventory st) (cn_subject caller) admin asked skill_id ch st = (st, Answer tier)"
      and reg: "skill_id \<noteq> [] \<Longrightarrow> \<exists>td declared idb. register_upload now (cn_subject caller) admin skill_id tier ch td declared scan_id idb =
        Inr (ms_inventory st')"
    have named: "(\<exists>skill. map_of (db_skills (ms_inventory st')) skill_id = Some skill \<and> (admin \<or> sk_owner skill = Some (cn_subject caller))) \<and>
        skill_id_for_content (ms_inventory st') ch = Some skill_id \<and> current_state (ms_inventory st') skill_id = Some ''scanning'' \<and>
        (\<exists>e. last (db_events (ms_inventory st')) = e \<and> ev_scan_id e = Some scan_id \<and> ev_content_hash e = Some ch \<and>
          ev_actor e = cn_subject caller)" if sid: "skill_id \<noteq> []"
    proof -
      obtain idb idb1 tv td declared reason where "register_skill_version idb now skill_id ''web-upload'' tv ch td declared (cn_subject caller) admin None = Inr idb1"
        "transition_skill idb1 now skill_id ''scanning'' reason (cn_subject caller) (Some ch) (Some scan_id) = Inr (ms_inventory st')"
        using reg [OF sid] unfolding register_upload_def res_bind_eq_Inr by blast
      from register_and_scan_Inr [OF this] show ?thesis by blast
    qed
    have mine: "may_read (sy_orch sy') caller scan_id" using submitted_scan_is_readable [OF in2] by (simp add: may_read_def)
    show ?thesis
    proof (cases "skill_id = []")
      case True
      show ?thesis unfolding if_P [OF True] using entry(1-3) in1 in2 mine anonymous [OF True]
        by (intro conjI exI [of _ asked] exI [of _ files] exI [of _ ch] exI [of _ tier] exI [of _ sy] exI [of _ disabled] exI [of _ sy'])
          (assumption | elim conjE, assumption)+
    next
      case False
      show ?thesis unfolding if_not_P [OF False]
        using entry(1-3) in1 in2 mine named [OF False] console_preflight_Answer(4) [OF pre [OF False]]
        by (intro conjI exI [of _ asked] exI [of _ files] exI [of _ ch] exI [of _ tier] exI [of _ sy] exI [of _ disabled] exI [of _ sy'])
          (assumption | elim conjE, assumption)+
    qed
  qed
qed

section \<open>Pushed events\<close>

lemma apply_push_event_effect:
  assumes "apply_push_event rp now gdb entry auto rs = (rs', oc)"
  shows "rs_rows rs' = rs_rows rs @ [\<lparr>rc_content_hash = Some (pe_content_hash entry), rc_skill_id = Some (pe_skill_id entry),
      rc_result = result_value (oc_result oc), rc_source = ''push'', rc_detected_at = now\<rparr>]"
    and "\<exists>reason. rs_quarantined rs' = rs_quarantined rs @ (if auto \<and> oc_result oc \<noteq> MATCH then [(pe_skill_id entry, reason)] else [])"
    and "oc_result oc = ORPHAN \<longleftrightarrow> map_of (fold verdict_step (list_issued_verdicts gdb) []) (pe_content_hash entry) = None"
proof -
  have oc: "oc = hd (reconcile [entry] (list_issued_verdicts gdb) PUSH)" "rs' = persist_step rp now auto oc rs"
    using assms by (auto simp: apply_push_event_def Let_def persist_and_act_def reconcile_def)
  have f: "oc_content_hash oc = pe_content_hash entry" "oc_skill_id oc = pe_skill_id entry" "oc_source oc = PUSH"
    by (simp_all add: oc(1) reconcile_def Let_def)
  show "rs_rows rs' = rs_rows rs @ [\<lparr>rc_content_hash = Some (pe_content_hash entry), rc_skill_id = Some (pe_skill_id entry),
      rc_result = result_value (oc_result oc), rc_source = ''push'', rc_detected_at = now\<rparr>]"
    by (simp add: oc(2) persist_step_def Let_def f)
  show "\<exists>reason. rs_quarantined rs' = rs_quarantined rs @ (if auto \<and> oc_result oc \<noteq> MATCH then [(pe_skill_id entry, reason)] else [])"
    by (cases "oc_result oc") (simp_all add: oc(2) persist_step_def Let_def f decide_quarantine_action_def)
  show "oc_result oc = ORPHAN \<longleftrightarrow> map_of (fold verdict_step (list_issued_verdicts gdb) []) (pe_content_hash entry) = None"
    by (auto simp: oc(1) reconcile_def Let_def split: option.splits)
qed

lemma verify_push_Inr:
  "verify_push_event_signature mac body signature timestamp secret window now = Inr u \<Longrightarrow>
     mac secret timestamp body = signature \<and> \<bar>now - real_of_int timestamp\<bar> \<le> real_of_int window"
  by (auto simp: verify_push_event_signature_def res_bind_eq_Inr split: if_splits dest: compare_digest_True)


text \<open>Note: An unauthenticated sender can make the endpoint fail. A signature with a character outside ASCII, or a
  time too large for a float, raises out of the check instead of being refused with 401.\<close>

theorem push_headers_can_crash:
  assumes "cr_push_hmac_secret cr = Some secret" "map_of headers ''x-marketplace-signature'' = Some signature"
    and "map_of headers ''x-marketplace-timestamp'' = Some stamp" "header_int stamp = Some timestamp" "signature \<noteq> []" "stamp \<noteq> []"
  shows "(2 ^ 1024 \<le> timestamp \<longrightarrow> marketplace_push_webhook cr now headers body st = (st, Crashed OverflowError)) \<and>
    (\<bar>timestamp\<bar> < 2 ^ 1023 \<and> \<bar>now - real_of_int timestamp\<bar> \<le> real_of_int (cr_push_replay_window_s cr) \<and> CHR 0xE9 \<in> set signature \<longrightarrow>
      marketplace_push_webhook cr now headers body st = (st, Crashed TypeError))"
proof (intro conjI impI)
  assume big: "2 ^ 1024 \<le> timestamp"
  have "verify_push_event_signature (cr_mac cr) body signature timestamp secret (cr_push_replay_window_s cr) now = Inl OverflowError"
    unfolding verify_push_event_signature_def using big by simp
  then show "marketplace_push_webhook cr now headers body st = (st, Crashed OverflowError)"
    unfolding marketplace_push_webhook_def by (simp add: assms)
next
  assume small: "\<bar>timestamp\<bar> < 2 ^ 1023 \<and> \<bar>now - real_of_int timestamp\<bar> \<le> real_of_int (cr_push_replay_window_s cr) \<and> CHR 0xE9 \<in> set signature"
  have "\<not> of_char (CHR 0xE9) < (128 :: nat)" "CHR 0xE9 \<in> set (cr_mac cr secret timestamp body @ signature)" using small by simp_all
  then have "\<not> list_all (\<lambda>c. of_char c < (128 :: nat)) (cr_mac cr secret timestamp body @ signature)" unfolding list_all_iff by blast
  then have "compare_digest (cr_mac cr secret timestamp body) signature = Inl TypeError" by (simp add: compare_digest_def)
  then have "verify_push_event_signature (cr_mac cr) body signature timestamp secret (cr_push_replay_window_s cr) now = Inl TypeError"
    unfolding verify_push_event_signature_def using small by simp
  then show "marketplace_push_webhook cr now headers body st = (st, Crashed TypeError)"
    unfolding marketplace_push_webhook_def by (simp add: assms)
qed

end
