(* ===== verification/Inventory_Api.thy ===== *)
theory Inventory_Api
  imports Console_Api
begin

text \<open>
  The inventory's endpoints (inventory/router.py): reading skills, quarantine, restore and retirement, the
  drift baseline, and the two routes that change who owns a skill. A handler takes the inventory and returns it
  with a reply. Every write is one transaction of the inventory service; the bulk assignment is one
  transaction per skill, before each of which other requests may run (\<open>gap\<close>).
\<close>

section \<open>Access\<close>

definition INVENTORY_READERS :: "string list" where "INVENTORY_READERS = [''approver'', ''auditor'', ''admin'']"

definition UNOWNED_MAX_LIMIT :: int where "UNOWNED_MAX_LIMIT = 200"
definition MAX_BULK_ASSIGNMENTS :: nat where "MAX_BULK_ASSIGNMENTS = 200"

type_synonym ('s, 'a) route = "'s \<Rightarrow> 's \<times> 'a reply"

type_synonym 'a inventory_handler = "(inventory_db, 'a) route"

text \<open>What stands before the body of a reading and of a writing route, in this order: the token of the request, the
  role, the validation of the parameters, the configuration of the module.\<close>

definition role_route :: "string list \<Rightarrow> bool \<Rightarrow> bool \<Rightarrow> console_caller \<Rightarrow> ('s, 'a) route \<Rightarrow> ('s, 'a) route" where
  "role_route roles valid configured caller body db =
     (case require_role roles (cn_session caller) of
        Inl e \<Rightarrow> (db, Refused 403)
      | Inr s \<Rightarrow> if \<not> valid then (db, Refused 422) else if \<not> configured then (db, Refused 500) else body db)"

definition write_route :: "string list \<Rightarrow> bool \<Rightarrow> bool \<Rightarrow> request \<Rightarrow> console_caller \<Rightarrow> ('s, 'a) route \<Rightarrow> ('s, 'a) route" where
  "write_route roles valid configured rq caller body db =
     (case require_csrf rq of
        Inl e \<Rightarrow> (db, if e = CsrfValidationError then Refused 403 else Crashed e)
      | Inr u \<Rightarrow> role_route roles valid configured caller body db)"

section \<open>Recognising an owner\<close>

text \<open>\<open>accounts\<close> is what the local account store answers, \<open>None\<close> without a store; \<open>db_ok\<close> tells whether the
  inventory could be read.\<close>

definition owner_is_recognized :: "bool \<Rightarrow> string list res option \<Rightarrow> string \<Rightarrow> inventory_db \<Rightarrow> bool option" where
  "owner_is_recognized db_ok accounts ow db =
     (if \<not> db_ok then None
      else if identity_appears_in_inventory db ow then Some True
      else case accounts of
          None \<Rightarrow> Some False
        | Some (Inl e) \<Rightarrow> None
        | Some (Inr names) \<Rightarrow> Some (ow \<in> set names))"

section \<open>Reading\<close>

record inventory_item =
  ii_skill_id :: string
  ii_source :: string
  ii_trust_tier :: string
  ii_state :: "string option"
  ii_owner :: "string option"

definition list_inventory :: "bool \<Rightarrow> console_caller \<Rightarrow> inventory_item list inventory_handler" where
  "list_inventory configured caller = role_route INVENTORY_READERS True configured caller (\<lambda>db.
     (db, Answer (map (\<lambda>(k, skill). \<lparr>ii_skill_id = k, ii_source = sk_source skill, ii_trust_tier = sk_trust_tier skill,
        ii_state = current_state db k, ii_owner = sk_owner skill\<rparr>) (db_skills db))))"

definition list_unowned :: "bool \<Rightarrow> console_caller \<Rightarrow> int \<Rightarrow> int \<Rightarrow> (nat \<times> unowned_skill list) inventory_handler" where
  "list_unowned configured caller limit offset =
     role_route [''admin''] (1 \<le> limit \<and> limit \<le> UNOWNED_MAX_LIMIT \<and> 0 \<le> offset) configured caller (\<lambda>db.
       (db, Answer (count_unowned_skills db, list_unowned_skills db (nat limit) (nat offset))))"

record inventory_detail =
  id_item :: inventory_item
  id_versions :: "(string \<times> string \<times> real) list"
  id_baseline :: "(string \<times> real) option"

definition get_inventory_item :: "bool \<Rightarrow> console_caller \<Rightarrow> string \<Rightarrow> inventory_detail inventory_handler" where
  "get_inventory_item configured caller skill_id = role_route INVENTORY_READERS True configured caller (\<lambda>db.
     (case map_of (db_skills db) skill_id of
        None \<Rightarrow> (db, Refused 404)
      | Some skill \<Rightarrow> (db, Answer
          \<lparr>id_item = \<lparr>ii_skill_id = skill_id, ii_source = sk_source skill, ii_trust_tier = sk_trust_tier skill,
             ii_state = current_state db skill_id, ii_owner = sk_owner skill\<rparr>,
           id_versions = map (\<lambda>(ch, v). (ch, sv_toolchain_digest v, sv_created_at v))
             (sort_key (\<lambda>(ch, v). sv_created_at v) (filter (\<lambda>(ch, v). sv_skill_id v = skill_id) (db_versions db))),
           id_baseline = map_option (\<lambda>b. (bl_content_hash b, bl_approved_at b)) (map_of (db_baselines db) skill_id)\<rparr>)))"

section \<open>Transitions\<close>

definition transition_reply :: "string \<Rightarrow> string \<Rightarrow> inventory_db \<Rightarrow> inventory_db res \<Rightarrow> inventory_db \<times> (string \<times> string) reply" where
  "transition_reply skill_id to_state db r = (case r of
     Inr db' \<Rightarrow> (db', Answer (skill_id, to_state))
   | Inl e \<Rightarrow> (db, if e = InvalidTransitionError then Refused 409 else if e = ValueError then Refused 404 else Crashed e))"

definition do_transition :: "bool \<Rightarrow> real \<Rightarrow> request \<Rightarrow> console_caller \<Rightarrow> string \<Rightarrow> string \<Rightarrow> string \<Rightarrow> (string \<times> string) inventory_handler" where
  "do_transition configured now rq caller skill_id to_state reason = write_route [''admin''] True configured rq caller (\<lambda>db.
     transition_reply skill_id to_state db (transition_skill db now skill_id to_state reason (cn_subject caller) None None))"

definition quarantine_skill :: "bool \<Rightarrow> real \<Rightarrow> request \<Rightarrow> console_caller \<Rightarrow> string \<Rightarrow> string \<Rightarrow> (string \<times> string) inventory_handler" where
  "quarantine_skill configured now rq caller skill_id reason = do_transition configured now rq caller skill_id ''quarantined'' reason"

definition retire_skill :: "bool \<Rightarrow> real \<Rightarrow> request \<Rightarrow> console_caller \<Rightarrow> string \<Rightarrow> string \<Rightarrow> (string \<times> string) inventory_handler" where
  "retire_skill configured now rq caller skill_id reason = do_transition configured now rq caller skill_id ''retired'' reason"

definition restore_skill :: "bool \<Rightarrow> real \<Rightarrow> request \<Rightarrow> console_caller \<Rightarrow> string \<Rightarrow> string \<Rightarrow> (string \<times> string) inventory_handler" where
  "restore_skill configured now rq caller skill_id reason = write_route [''admin''] True configured rq caller (\<lambda>db.
     (case current_state db skill_id of
        None \<Rightarrow> (db, Refused 404)
      | Some state \<Rightarrow>
          if state \<noteq> ''quarantined'' then (db, Refused 409)
          else transition_reply skill_id ''published'' db
                 (transition_skill db now skill_id ''published'' reason (cn_subject caller) None None)))"

section \<open>Ownership\<close>

record owner_body =
  ob_owner :: string
  ob_reason :: string
  ob_expect_unowned :: bool

record owner_answer =
  oa_owner :: string
  oa_previous_owner :: "string option"
  oa_owner_recognized :: "bool option"

definition set_skill_owner ::
  "bool \<Rightarrow> bool \<Rightarrow> string list res option \<Rightarrow> request \<Rightarrow> console_caller \<Rightarrow> string \<Rightarrow> owner_body \<Rightarrow> owner_answer inventory_handler" where
  "set_skill_owner configured db_ok accounts rq caller skill_id body = write_route [''admin''] True configured rq caller (\<lambda>db.
     let recognized = owner_is_recognized db_ok accounts (py_strip (ob_owner body)) db
     in case assign_skill_owner db skill_id (ob_owner body) (ob_reason body) (cn_subject caller) (ob_expect_unowned body) of
          Inr (previous_owner, db') \<Rightarrow>
            (db', Answer \<lparr>oa_owner = py_strip (ob_owner body), oa_previous_owner = previous_owner, oa_owner_recognized = recognized\<rparr>)
        | Inl e \<Rightarrow> (db, if e = InvalidOwnerError then Refused 400 else if e = OwnerAssignmentConflictError then Refused 409
            else if e = ValueError then Refused 404 else Crashed e))"

record bulk_body =
  bb_owner :: string
  bb_reason :: string
  bb_skill_ids :: "string list"

record bulk_answer =
  ba_owner :: string
  ba_assigned :: "string list"
  ba_failed :: "(string \<times> py_error) list"
  ba_owner_recognized :: "bool option"

text \<open>\<open>dict.fromkeys\<close>: the first occurrences, in their order.\<close>

fun first_occurrences :: "'a list \<Rightarrow> 'a list" where
  "first_occurrences [] = []"
| "first_occurrences (x # xs) = x # filter (\<lambda>y. y \<noteq> x) (first_occurrences xs)"

text \<open>The loop: all exceptions of the assignment are kinds of \<open>ValueError\<close>.\<close>

fun assign_all ::
  "(string \<Rightarrow> inventory_db \<Rightarrow> inventory_db) \<Rightarrow> string \<Rightarrow> string \<Rightarrow> string \<Rightarrow> string list \<Rightarrow> inventory_db \<Rightarrow>
   inventory_db \<times> string list \<times> (string \<times> py_error) list" where
  "assign_all gap ow reason actor [] db = (db, [], [])"
| "assign_all gap ow reason actor (skill_id # ids) db =
     (let db1 = gap skill_id db in
      case assign_skill_owner db1 skill_id ow reason actor True of
        Inl e \<Rightarrow> (case assign_all gap ow reason actor ids db1 of (db', assigned, failed) \<Rightarrow> (db', assigned, (skill_id, e) # failed))
      | Inr (prev, db2) \<Rightarrow> (case assign_all gap ow reason actor ids db2 of (db', assigned, failed) \<Rightarrow> (db', skill_id # assigned, failed)))"

definition assign_owner_bulk ::
  "bool \<Rightarrow> bool \<Rightarrow> string list res option \<Rightarrow> (string \<Rightarrow> inventory_db \<Rightarrow> inventory_db) \<Rightarrow> request \<Rightarrow> console_caller \<Rightarrow> bulk_body \<Rightarrow>
   bulk_answer inventory_handler" where
  "assign_owner_bulk configured db_ok accounts gap rq caller body =
     write_route [''admin''] (bb_skill_ids body \<noteq> [] \<and> length (bb_skill_ids body) \<le> MAX_BULK_ASSIGNMENTS) configured rq caller (\<lambda>db.
     case normalize_owner (bb_owner body) of
         Inl e \<Rightarrow> (db, Refused 400)
       | Inr n \<Rightarrow>
           let recognized = owner_is_recognized db_ok accounts (py_strip (bb_owner body)) db
           in case assign_all gap (bb_owner body) (bb_reason body) (cn_subject caller) (first_occurrences (bb_skill_ids body)) db of
               (db', assigned, failed) \<Rightarrow>
                 (db', Answer \<lparr>ba_owner = py_strip (bb_owner body), ba_assigned = assigned, ba_failed = failed, ba_owner_recognized = recognized\<rparr>))"

section \<open>The baseline\<close>

definition set_skill_baseline :: "bool \<Rightarrow> real \<Rightarrow> request \<Rightarrow> console_caller \<Rightarrow> string \<Rightarrow> string \<Rightarrow> (string \<times> string) inventory_handler" where
  "set_skill_baseline configured now rq caller skill_id c_hash = write_route [''admin''] True configured rq caller (\<lambda>db.
     (case map_of (db_skills db) skill_id of
        None \<Rightarrow> (db, Refused 404)
      | Some skill \<Rightarrow> (set_baseline db now skill_id c_hash (cn_subject caller), Answer (skill_id, c_hash))))"

section \<open>Writing routes\<close>

text \<open>The contract of a writing route: it does nothing but transactions of the inventory service, and nothing at
  all for a request without its token or from a caller who is no administrator.\<close>

definition authorized_write :: "request \<Rightarrow> console_caller \<Rightarrow> bool" where
  "authorized_write rq caller \<longleftrightarrow> require_csrf rq = Inr () \<and> has_role (cn_session caller) [''admin'']"

locale writing_route =
  fixes run :: "request \<Rightarrow> console_caller \<Rightarrow> inventory_db \<Rightarrow> inventory_db"
  assumes authorized: "run rq caller db \<noteq> db \<Longrightarrow> authorized_write rq caller"
    and steps: "inventory_step\<^sup>*\<^sup>* db (run rq caller db)"
begin

lemma reachable: "inventory_reachable db \<Longrightarrow> inventory_reachable (run rq caller db)"
  by (rule rtranclp_trans [OF _ steps])

lemma invariant: "inventory_reachable db \<Longrightarrow> inventory_ok (run rq caller db)"
  by (rule inventory_reachable_ok) (rule reachable)

end

lemma admin_route_cases:
  "fst (write_route [''admin''] valid configured rq caller body db) = db \<or>
   authorized_write rq caller \<and> write_route [''admin''] valid configured rq caller body db = body db"
  by (auto simp: write_route_def role_route_def authorized_write_def require_role_def res_bind_def raise_if_def split: sum.splits if_splits)

text \<open>A route whose body is a transaction of the service fulfils the contract.\<close>

lemma admin_route_writes:
  assumes "\<And>caller db. inventory_step\<^sup>*\<^sup>* db (fst (body caller db))"
  shows "writing_route (\<lambda>rq caller db. fst (write_route [''admin''] valid configured rq caller (body caller) db))"
proof
  fix rq caller db
  show "inventory_step\<^sup>*\<^sup>* db (fst (write_route [''admin''] valid configured rq caller (body caller) db))"
    using admin_route_cases [of valid configured rq caller "body caller" db] assms by (elim disjE) simp_all
  assume "fst (write_route [''admin''] valid configured rq caller (body caller) db) \<noteq> db"
  then show "authorized_write rq caller" using admin_route_cases [of valid configured rq caller "body caller" db] by blast
qed

lemma transition_reply_step:
  "inventory_step\<^sup>*\<^sup>* db (fst (transition_reply skill_id to_state db (transition_skill db now skill_id to_state reason actor ch scan)))"
  by (auto simp: transition_reply_def split: sum.splits intro: step_transition)

lemma assign_step: "assign_skill_owner db sid ow reason actor unowned = Inr (prev, db') \<Longrightarrow> inventory_step\<^sup>*\<^sup>* db db'"
  by (rule r_into_rtranclp) (rule step_assign)

lemma assign_all_steps:
  assumes "\<And>sid db. inventory_step\<^sup>*\<^sup>* db (gap sid db)"
  shows "inventory_step\<^sup>*\<^sup>* db (fst (assign_all gap ow reason actor ids db))"
proof (induction ids arbitrary: db)
  case (Cons sid ids)
  show ?case
  proof (cases "assign_skill_owner (gap sid db) sid ow reason actor True")
    case (Inl e)
    have "inventory_step\<^sup>*\<^sup>* db (fst (assign_all gap ow reason actor ids (gap sid db)))" by (rule rtranclp_trans [OF assms Cons.IH])
    then show ?thesis using Inl by (auto simp: Let_def split: prod.splits)
  next
    case (Inr p)
    obtain prev db2 where p: "p = (prev, db2)" by (cases p)
    have "inventory_step\<^sup>*\<^sup>* db db2" using rtranclp_trans [OF assms assign_step [OF Inr [unfolded p]]] .
    then have "inventory_step\<^sup>*\<^sup>* db (fst (assign_all gap ow reason actor ids db2))" by (rule rtranclp_trans [OF _ Cons.IH])
    then show ?thesis using Inr p by (auto simp: Let_def split: prod.splits)
  qed
qed simp

interpretation transition_route: writing_route "\<lambda>rq caller db. fst (do_transition configured now rq caller skill_id to_state reason db)"
  for configured now skill_id to_state reason
  unfolding do_transition_def by (rule admin_route_writes) (rule transition_reply_step)

interpretation restore_route: writing_route "\<lambda>rq caller db. fst (restore_skill configured now rq caller skill_id reason db)"
  for configured now skill_id reason
  unfolding restore_skill_def
  by (rule admin_route_writes) (simp add: transition_reply_step split: option.splits)

interpretation owner_route: writing_route "\<lambda>rq caller db. fst (set_skill_owner configured db_ok accounts rq caller skill_id body db)"
  for configured db_ok accounts skill_id body
  unfolding set_skill_owner_def
  by (rule admin_route_writes) (auto simp: Let_def split: sum.splits intro: step_assign)

interpretation bulk_route: writing_route "\<lambda>rq caller db. fst (assign_owner_bulk configured db_ok accounts (\<lambda>_. id) rq caller body db)"
  for configured db_ok accounts body
  unfolding assign_owner_bulk_def
proof (rule admin_route_writes)
  fix caller db
  have "inventory_step\<^sup>*\<^sup>* db (fst (assign_all (\<lambda>_. id) (bb_owner body) (bb_reason body) (cn_subject caller) (first_occurrences (bb_skill_ids body)) db))"
    by (rule assign_all_steps) simp
  then show "inventory_step\<^sup>*\<^sup>* db (fst (case normalize_owner (bb_owner body) of
         Inl e \<Rightarrow> (db, Refused 400)
       | Inr n \<Rightarrow>
           let recognized = owner_is_recognized db_ok accounts (py_strip (bb_owner body)) db
           in case assign_all (\<lambda>_. id) (bb_owner body) (bb_reason body) (cn_subject caller) (first_occurrences (bb_skill_ids body)) db of
               (db', assigned, failed) \<Rightarrow>
                 (db', Answer \<lparr>ba_owner = py_strip (bb_owner body), ba_assigned = assigned, ba_failed = failed, ba_owner_recognized = recognized\<rparr>)))"
    by (auto simp: Let_def split: sum.splits prod.splits)
qed

interpretation baseline_route: writing_route "\<lambda>rq caller db. fst (set_skill_baseline configured now rq caller skill_id c_hash db)"
  for configured now skill_id c_hash
  unfolding set_skill_baseline_def
  by (rule admin_route_writes) (auto split: option.splits intro: step_baseline)

section \<open>Any sequence of requests\<close>

datatype inventory_request =
    Quarantine real string string
  | Restore real string string
  | Retire real string string
  | Set_owner "string list res option" string owner_body
  | Assign_bulk "string list res option" bulk_body
  | Set_baseline real string string

fun serve :: "bool \<Rightarrow> request \<times> console_caller \<times> inventory_request \<Rightarrow> inventory_db \<Rightarrow> inventory_db" where
  "serve configured (rq, caller, Quarantine now sid reason) db = fst (quarantine_skill configured now rq caller sid reason db)"
| "serve configured (rq, caller, Restore now sid reason) db = fst (restore_skill configured now rq caller sid reason db)"
| "serve configured (rq, caller, Retire now sid reason) db = fst (retire_skill configured now rq caller sid reason db)"
| "serve configured (rq, caller, Set_owner accounts sid body) db = fst (set_skill_owner configured True accounts rq caller sid body db)"
| "serve configured (rq, caller, Assign_bulk accounts body) db = fst (assign_owner_bulk configured True accounts (\<lambda>_. id) rq caller body db)"
| "serve configured (rq, caller, Set_baseline now sid ch) db = fst (set_skill_baseline configured now rq caller sid ch db)"

lemma serve_laws:
  "inventory_step\<^sup>*\<^sup>* db (serve configured x db)" "serve configured x db \<noteq> db \<Longrightarrow> authorized_write (fst x) (fst (snd x))"
  by (cases "(configured, x, db)" rule: serve.cases;
      simp add: quarantine_skill_def retire_skill_def transition_route.steps restore_route.steps owner_route.steps bulk_route.steps baseline_route.steps
        del: id_apply)
    (cases "(configured, x, db)" rule: serve.cases;
      simp add: quarantine_skill_def retire_skill_def;
      blast dest: transition_route.authorized restore_route.authorized owner_route.authorized bulk_route.authorized baseline_route.authorized)

lemma serve_all_steps: "inventory_step\<^sup>*\<^sup>* db (fold (serve configured) requests db)"
proof (induction requests arbitrary: db)
  case (Cons x xs)
  show ?case using rtranclp_trans [OF serve_laws(1) Cons.IH] by simp
qed simp

text \<open>C39: The routes of the inventory keep its laws. Whatever requests arrive, in any order and from anyone, the
  inventory stays one that the service itself can reach, so that every history stays a legal lifecycle, each
  transition has its audit record, and each event and version belongs to a registered skill; and the requests
  that lack the token or the administrator's role have no effect, wherever they stand among the others.\<close>

theorem inventory_routes_keep_laws:
  assumes "inventory_reachable db"
  shows "inventory_reachable (fold (serve configured) requests db) \<and> inventory_ok (fold (serve configured) requests db) \<and>
    fold (serve configured) requests db = fold (serve configured) (filter (\<lambda>(rq, caller, r). authorized_write rq caller) requests) db"
proof -
  have reach: "inventory_reachable (fold (serve configured) requests db)" by (rule rtranclp_trans [OF assms serve_all_steps])
  moreover have "fold (serve configured) requests db =
      fold (serve configured) (filter (\<lambda>(rq, caller, r). authorized_write rq caller) requests) db" for db
  proof (induction requests arbitrary: db)
    case (Cons x xs)
    obtain rq caller r where x: "x = (rq, caller, r)" by (cases x)
    have "serve configured x db = db" if "\<not> authorized_write rq caller" using serve_laws(2) [of configured x db] that x by auto
    then show ?case using Cons.IH by (auto simp: x)
  qed simp
  ultimately show ?thesis using inventory_reachable_ok [OF reach] by simp
qed

section \<open>Restoring\<close>

lemma quarantined_from: "legal_transition f ''quarantined'' \<Longrightarrow> f = Some ''published''"
  by (auto simp: legal_transition_def validate_transition_def VALID_TRANSITIONS_def ALL_STATES_def split: option.splits if_splits)

text \<open>Note: Restoring lifts a quarantine and does nothing else. If the restore route answers, an administrator with a
  valid token asked, the skill was quarantined, the event that put it there took it out of the published
  state, and exactly one event is added, which publishes it in the administrator's name; baselines, versions
  and owners are as before. So the route cannot publish what is being scanned or waits for a review.\<close>

theorem restore_lifts_quarantine_only:
  assumes "inventory_reachable db" "restore_skill configured now rq caller skill_id reason db = (db', Answer r)"
  shows "authorized_write rq caller \<and> current_state db skill_id = Some ''quarantined'' \<and>
    ev_from_state (last (history db skill_id)) = Some ''published'' \<and>
    db_events db' = db_events db @ [\<lparr>ev_skill_id = skill_id, ev_content_hash = None, ev_scan_id = None, ev_from_state = Some ''quarantined'',
      ev_to_state = ''published'', ev_reason = reason, ev_actor = cn_subject caller, ev_occurred_at = now\<rparr>] \<and>
    db_baselines db' = db_baselines db \<and> db_versions db' = db_versions db \<and> db_skills db' = db_skills db"
proof -
  have q: "current_state db skill_id = Some ''quarantined''" "authorized_write rq caller"
    and t: "transition_skill db now skill_id ''published'' reason (cn_subject caller) None None = Inr db'"
    using assms(2) unfolding restore_skill_def
    by (auto simp: write_route_def role_route_def transition_reply_def authorized_write_def require_role_def res_bind_def raise_if_def
        split: sum.splits option.splits if_splits)
  have h: "history db skill_id \<noteq> []" "ev_to_state (last (history db skill_id)) = ''quarantined''"
    using q(1) by (auto simp: current_state_eq lc.position_def split: if_splits)
  have "legal_transition (ev_from_state (last (history db skill_id))) (ev_to_state (last (history db skill_id)))"
    using lc.linked_nth [OF history_linked [OF assms(1)], of "length (history db skill_id) - 1" skill_id, THEN conjunct2] h(1)
    unfolding last_conv_nth [OF h(1)] by simp
  then have "ev_from_state (last (history db skill_id)) = Some ''published''" unfolding h(2) by (rule quarantined_from)
  moreover have "record_transition db \<lparr>ev_skill_id = skill_id, ev_content_hash = None, ev_scan_id = None, ev_from_state = Some ''quarantined'',
      ev_to_state = ''published'', ev_reason = reason, ev_actor = cn_subject caller, ev_occurred_at = now\<rparr> = Inr db'"
    using t by (simp add: transition_skill_def q(1))
  ultimately show ?thesis using q record_transition_Inr by fastforce
qed

section \<open>Bulk assignment\<close>

lemma first_occurrences_props: "set (first_occurrences xs) = set xs" "distinct (first_occurrences xs)"
  by (induction xs) auto

definition unowned :: "inventory_db \<Rightarrow> string \<Rightarrow> bool" where
  "unowned db sid \<longleftrightarrow> (\<exists>r. map_of (db_skills db) sid = Some r \<and> sk_owner r = None)"

lemma assign_unowned:
  assumes "normalize_owner ow = Inr n" "unowned db sid"
  shows "\<exists>db2. assign_skill_owner db sid ow reason actor True = Inr (None, db2) \<and>
    map_of (db_skills db2) = (map_of (db_skills db))(sid \<mapsto> (the (map_of (db_skills db) sid))\<lparr>sk_owner := Some n\<rparr>) \<and>
    (\<forall>s. s \<noteq> sid \<longrightarrow> unowned db2 s = unowned db s)"
  using assms by (auto simp: assign_skill_owner_def unowned_def validate_owner_assignment_def raise_if_def update_conv')

lemma assign_owned:
  assumes "normalize_owner ow = Inr n" "\<not> unowned db sid"
  shows "\<exists>e. assign_skill_owner db sid ow reason actor True = Inl e"
  using assms by (auto simp: assign_skill_owner_def unowned_def validate_owner_assignment_def raise_if_def split: option.splits)

lemma assign_all_exact:
  assumes "normalize_owner ow = Inr n" "distinct ids"
  shows "(case assign_all (\<lambda>_. id) ow reason actor ids db of (db', assigned, failed) \<Rightarrow>
    assigned = filter (unowned db) ids \<and> map fst failed = filter (\<lambda>s. \<not> unowned db s) ids \<and>
    map_of (db_skills db') = (\<lambda>s. if s \<in> set assigned then map_option (\<lambda>r. r\<lparr>sk_owner := Some n\<rparr>) (map_of (db_skills db) s)
      else map_of (db_skills db) s))"
  using assms(2)
proof (induction ids arbitrary: db)
  case (Cons sid ids)
  show ?case
  proof (cases "unowned db sid")
    case True
    then obtain db2 where a: "assign_skill_owner db sid ow reason actor True = Inr (None, db2)"
      "map_of (db_skills db2) = (map_of (db_skills db))(sid \<mapsto> (the (map_of (db_skills db) sid))\<lparr>sk_owner := Some n\<rparr>)"
      "\<forall>s. s \<noteq> sid \<longrightarrow> unowned db2 s = unowned db s" using assign_unowned [OF assms(1)] by blast
    obtain r where r: "map_of (db_skills db) sid = Some r" using True by (auto simp: unowned_def)
    have same: "filter (unowned db2) ids = filter (unowned db) ids" "filter (\<lambda>s. \<not> unowned db2 s) ids = filter (\<lambda>s. \<not> unowned db s) ids"
      using Cons.prems a(3) by (auto intro!: filter_cong)
    have "sid \<notin> set (filter (unowned db) ids)" using Cons.prems by simp
    then show ?thesis using Cons.IH [of db2] Cons.prems True
      by (auto simp: a(1,2) same r fun_eq_iff split: prod.splits)
  next
    case False
    then obtain e where "assign_skill_owner db sid ow reason actor True = Inl e" using assign_owned [OF assms(1)] by blast
    then show ?thesis using Cons.IH [of db] Cons.prems False by (auto split: prod.splits)
  qed
qed simp

text \<open>Note: The bulk route assigns and never transfers. When no other request runs in between, a well-formed bulk request
  assigns exactly the named skills that are registered and without an owner, once each and in the order of
  the request, reports all the others as failed, and changes no other row: no skill is taken from
  its owner.\<close>

theorem bulk_assignment_never_transfers:
  assumes "assign_owner_bulk configured db_ok accounts (\<lambda>_. id) rq caller body db = (db', Answer a)"
  shows "\<exists>n. normalize_owner (bb_owner body) = Inr n \<and> authorized_write rq caller \<and>
    ba_assigned a = filter (unowned db) (first_occurrences (bb_skill_ids body)) \<and>
    map fst (ba_failed a) = filter (\<lambda>s. \<not> unowned db s) (first_occurrences (bb_skill_ids body)) \<and>
    (\<forall>s. map_of (db_skills db') s = (if s \<in> set (bb_skill_ids body) \<and> unowned db s
      then map_option (\<lambda>r. r\<lparr>sk_owner := Some n\<rparr>) (map_of (db_skills db) s) else map_of (db_skills db) s)) \<and>
    (\<forall>s r ow. map_of (db_skills db) s = Some r \<and> sk_owner r = Some ow \<longrightarrow> map_of (db_skills db') s = Some r)"
proof -
  obtain n where n: "normalize_owner (bb_owner body) = Inr n" "authorized_write rq caller"
    and run: "(case assign_all (\<lambda>_. id) (bb_owner body) (bb_reason body) (cn_subject caller) (first_occurrences (bb_skill_ids body)) db of
      (db', assigned, failed) \<Rightarrow> (db', assigned, failed)) = (db', ba_assigned a, ba_failed a)"
    using assms unfolding assign_owner_bulk_def
    by (auto simp: write_route_def role_route_def authorized_write_def require_role_def res_bind_def raise_if_def Let_def
        split: sum.splits if_splits prod.splits)
  have exact: "ba_assigned a = filter (unowned db) (first_occurrences (bb_skill_ids body)) \<and>
      map fst (ba_failed a) = filter (\<lambda>s. \<not> unowned db s) (first_occurrences (bb_skill_ids body)) \<and>
      map_of (db_skills db') = (\<lambda>s. if s \<in> set (ba_assigned a) then map_option (\<lambda>r. r\<lparr>sk_owner := Some n\<rparr>) (map_of (db_skills db) s)
        else map_of (db_skills db) s)"
    using assign_all_exact [OF n(1) first_occurrences_props(2), where db = db and reason = "bb_reason body" and actor = "cn_subject caller", of "bb_skill_ids body"] run
    by (auto split: prod.splits)
  then have rows: "map_of (db_skills db') s = (if s \<in> set (bb_skill_ids body) \<and> unowned db s
      then map_option (\<lambda>r. r\<lparr>sk_owner := Some n\<rparr>) (map_of (db_skills db) s) else map_of (db_skills db) s)" for s
    by (simp add: first_occurrences_props(1))
  have "map_of (db_skills db') s = Some r" if "map_of (db_skills db) s = Some r" "sk_owner r = Some ow" for s r ow
    using rows [of s] that by (simp add: unowned_def)
  then show ?thesis using n exact rows by (intro exI [of _ n]) simp
qed

end
