(* ===== verification/Gate_Api.thy ===== *)
theory Gate_Api
  imports Inventory_Api Worker_Lifecycle
begin

text \<open>
  The endpoints of the gate and of the re-evaluation: waivers (gate/router.py), the review queue and its
  decisions (gate/reviews_router.py), stale skills, drift, rescans and reconciliation (reeval/router.py). The
  routes check token and role as those of the inventory do (\<open>role_route\<close>, \<open>write_route\<close>).
\<close>

section \<open>Waivers\<close>

definition WAIVER_ROLES :: "string list" where "WAIVER_ROLES = [''approver'', ''admin'']"
definition RULE_ID_MAX_LENGTH :: nat where "RULE_ID_MAX_LENGTH = 128"

record grant_body =
  gb_scope_type :: string
  gb_scope_value :: string
  gb_rule_id :: string
  gb_expires_at :: real
  gb_requested_by :: string
  gb_reason :: string

record waiver_item =
  wi_id :: string
  wi_row :: allowlist_row
  wi_resolved_skill_id :: "string option"

definition row_to_dict :: "(string \<times> string) list \<Rightarrow> string \<times> allowlist_row \<Rightarrow> waiver_item" where
  "row_to_dict skill_id_by_content_hash = (\<lambda>(k, row).
     \<lparr>wi_id = k, wi_row = row, wi_resolved_skill_id =
        (if aw_scope_type row = ''content_hash'' then map_of skill_id_by_content_hash (aw_scope_value row) else None)\<rparr>)"

text \<open>The rules seen in stored findings, each with whether it is a hard gate.\<close>

definition known_rule_ids :: "gate_policy \<Rightarrow> orch_db \<Rightarrow> (string \<times> bool) list" where
  "known_rule_ids policy odb =
     (let rule_of = (\<lambda>f. case map_of f ''rule_id'' of Some (PStr rid) \<Rightarrow> Some rid | _ \<Rightarrow> None);
          seen = concat (map (\<lambda>(k, r). List.map_filter rule_of (rr_findings r)) (od_results odb))
      in map (\<lambda>rid. (rid, rid \<in> gp_hard_gate_rules policy)) (sort (remdups seen)))"

definition known_skills :: "bool \<Rightarrow> inventory_db \<Rightarrow> (string \<times> string list) list \<times> (string \<times> string) list" where
  "known_skills configured idb =
     (if \<not> configured then ([], [])
      else (map (\<lambda>s. (s, map fst (filter (\<lambda>(ch, v). sv_skill_id v = s) (db_versions idb)))) (sort (map fst (db_skills idb))),
            map (\<lambda>(ch, v). (ch, sv_skill_id v)) (db_versions idb)))"

record waiver_page =
  wp_entries :: "waiver_item list"
  wp_skills :: "(string \<times> string list) list"
  wp_rule_ids :: "(string \<times> bool) list"

text \<open>The tables of the gate with the counter of granted waivers.\<close>

record waiver_state =
  ws_gate :: gate_db
  ws_grants :: nat

definition list_allowlist ::
  "real \<Rightarrow> bool \<Rightarrow> gate_policy \<Rightarrow> orch_db \<Rightarrow> inventory_db \<Rightarrow> console_caller \<Rightarrow> (waiver_state, waiver_page) route" where
  "list_allowlist now configured policy odb idb caller = role_route WAIVER_ROLES True True caller (\<lambda>st.
     case list_active_allowlist_rows (ws_gate st) now of
       Inl e \<Rightarrow> (st, Crashed e)
     | Inr rows \<Rightarrow> (case known_skills configured idb of (candidates, lookup) \<Rightarrow>
         (st, Answer \<lparr>wp_entries = map (row_to_dict lookup) rows, wp_skills = candidates, wp_rule_ids = known_rule_ids policy odb\<rparr>)))"

definition create_allowlist_entry ::
  "string \<Rightarrow> bool \<Rightarrow> gate_policy \<Rightarrow> inventory_db \<Rightarrow> request \<Rightarrow> console_caller \<Rightarrow> grant_body \<Rightarrow> (waiver_state, waiver_item) route" where
  "create_allowlist_entry uuid configured policy idb rq caller body =
     write_route WAIVER_ROLES (length (gb_rule_id body) \<le> RULE_ID_MAX_LENGTH) True rq caller (\<lambda>st.
       if gb_rule_id body \<in> gp_hard_gate_rules policy \<and> \<not> has_role (cn_session caller) [''admin''] then (st, Refused 403)
       else case grant_allowlist_entry (ws_gate st) uuid (gb_scope_type body) (gb_scope_value body) (gb_rule_id body) (gb_expires_at body)
                  (cn_subject caller) (gb_requested_by body) (gb_reason body) of
           Inl e \<Rightarrow> (st, if e = AllowlistError then Refused 400 else Crashed e)
         | Inr (row, gdb) \<Rightarrow>
             (\<lparr>ws_gate = gdb, ws_grants = Suc (ws_grants st)\<rparr>, Answer (row_to_dict (snd (known_skills configured idb)) (uuid, row))))"

definition delete_allowlist_entry :: "request \<Rightarrow> console_caller \<Rightarrow> string \<Rightarrow> (waiver_state, string) route" where
  "delete_allowlist_entry rq caller allowlist_id = write_route [''admin''] True True rq caller (\<lambda>st.
     case revoke_allowlist_entry (ws_gate st) allowlist_id (cn_subject caller) of
       Inl e \<Rightarrow> (st, if e = AllowlistError then Refused 404 else Crashed e)
     | Inr gdb \<Rightarrow> (st\<lparr>ws_gate := gdb\<rparr>, Answer allowlist_id))"

section \<open>Reviews\<close>

record review_item =
  ri_scan_id :: string
  ri_content_hash :: string
  ri_verdict :: string
  ri_reasons :: "string list"
  ri_issued_at :: real
  ri_skill_id :: "string option"
  ri_submitter :: "string option"
  ri_superseded :: bool
  ri_attribution :: attribution

text \<open>The reads of the queue are batched: one query for all skills behind the listed contents.\<close>

definition skill_ids_by_hash :: "bool \<Rightarrow> inventory_db \<Rightarrow> string list \<Rightarrow> (string \<times> string) list" where
  "skill_ids_by_hash configured idb content_hashes =
     (if configured then map (\<lambda>(ch, v). (ch, sv_skill_id v)) (filter (\<lambda>(ch, v). ch \<in> set content_hashes) (db_versions idb)) else [])"

definition queue_superseded :: "bool \<Rightarrow> inventory_db \<Rightarrow> string list \<Rightarrow> string \<Rightarrow> bool" where
  "queue_superseded configured idb content_hashes ch =
     (let skill_ids = skill_ids_by_hash configured idb content_hashes;
          positions = (if configured then latest_lifecycle_positions idb (sorted_list_of_set (snd ` set skill_ids)) else [])
      in pending_review_is_superseded (case map_of skill_ids ch of None \<Rightarrow> None | Some sid \<Rightarrow> map_of positions sid) ch)"

definition list_reviews :: "bool \<Rightarrow> console_caller \<Rightarrow> ('raw market_state, review_item list) route" where
  "list_reviews configured caller = role_route WAIVER_ROLES True True caller (\<lambda>st.
     let pending = list_pending_reviews (sy_gate (ms_system st));
         scan_ids = map fst pending;
         content_hashes = map (vd_content_hash \<circ> snd) pending;
         odb = sy_orch (ms_system st); idb = ms_inventory st
     in (st, Answer (map (\<lambda>(k, v). \<lparr>ri_scan_id = k, ri_content_hash = vd_content_hash v, ri_verdict = vd_verdict v, ri_reasons = vd_reasons v,
          ri_issued_at = vd_issued_at v, ri_skill_id = map_of (skill_ids_by_hash configured idb content_hashes) (vd_content_hash v),
          ri_submitter = map_option sj_submitter (map_of (od_jobs odb) k),
          ri_superseded = queue_superseded configured idb content_hashes (vd_content_hash v),
          ri_attribution = attribution_of odb scan_ids k\<rparr>) pending)))"

definition decide_review ::
  "(json_object \<Rightarrow> finding_dto option) \<Rightarrow> real \<Rightarrow> signer \<Rightarrow> bool \<Rightarrow> gate_policy \<Rightarrow> request \<Rightarrow> console_caller \<Rightarrow> string \<Rightarrow> string \<Rightarrow> string \<Rightarrow>
   ('raw market_state, string \<times> string) route" where
  "decide_review validate now sg configured policy rq caller scan_id decision reason = write_route WAIVER_ROLES True True rq caller (\<lambda>st.
     case submit_review_decision validate (sy_orch (ms_system st)) (sy_gate (ms_system st)) (if configured then Some (ms_inventory st) else None)
            now sg scan_id decision (cn_subject caller) reason policy of
       Inr (row, gdb) \<Rightarrow> (st\<lparr>ms_system := (ms_system st)\<lparr>sy_gate := gdb\<rparr>\<rparr>, Answer (scan_id, vd_verdict row))
     | Inl e \<Rightarrow> (st, if e = InvalidDecisionError then Refused 400 else if e = SodViolationError then Refused 403
         else if e = ReviewNotFoundError then Refused 404
         else if e = NotPendingReviewError \<or> e = SupersededReviewError then Refused 409 else Crashed e))"

section \<open>Stale skills and drift\<close>

definition REEVAL_READERS :: "string list" where "REEVAL_READERS = [''approver'', ''admin'']"
definition RECONCILIATION_READERS :: "string list" where "RECONCILIATION_READERS = [''admin'', ''auditor'']"
definition MAX_DRAIN_LIMIT :: int where "MAX_DRAIN_LIMIT = 500"
definition DRIFT_REASON_PREFIX :: string where "DRIFT_REASON_PREFIX = ''drift detected (SUP-05):''"

definition current_toolchain_digest :: "'raw market_runtime \<Rightarrow> string set \<Rightarrow> string res" where
  "current_toolchain_digest rt disabled =
     res_bind (cache_policy_version (pf_iter (mr_platform rt)) (pf_repr (mr_platform rt)) (pf_sha256_text (mr_platform rt)) (mr_policy rt)) (\<lambda>cpv.
     toolchain_digest (pf_sha256 (mr_platform rt)) (enabled_engines rt disabled) cpv ''none'')"

record drift_item =
  di_skill_id :: string
  di_baseline_content_hash :: string
  di_latest_content_hash :: "string option"
  di_drifted :: bool

text \<open>The newest version of a skill; of several with the same time, the first of the table.\<close>

definition latest_version :: "inventory_db \<Rightarrow> string \<Rightarrow> string option" where
  "latest_version idb sid =
     (case sort_key (\<lambda>(ch, v). - sv_created_at v) (filter (\<lambda>(ch, v). sv_skill_id v = sid) (db_versions idb)) of
        [] \<Rightarrow> None | (ch, v) # rest \<Rightarrow> Some ch)"

definition drift_summary :: "bool \<Rightarrow> inventory_db \<Rightarrow> drift_item list \<times> event_row list" where
  "drift_summary configured idb =
     (if \<not> configured then ([], [])
      else (map (\<lambda>(sid, b). \<lparr>di_skill_id = sid, di_baseline_content_hash = bl_content_hash b, di_latest_content_hash = latest_version idb sid,
               di_drifted = (case latest_version idb sid of None \<Rightarrow> False | Some ch \<Rightarrow> is_drift (Some (bl_content_hash b)) ch)\<rparr>) (db_baselines idb),
            take 50 (sort_key (\<lambda>e. - ev_occurred_at e) (filter (\<lambda>e. py_startswith (ev_reason e) DRIFT_REASON_PREFIX) (db_events idb)))))"

record reeval_status =
  re_current_toolchain_digest :: string
  re_skills :: "(toolchain_status \<times> bool) list"
  re_drift :: "drift_item list \<times> event_row list"

definition list_reeval_status ::
  "'raw market_runtime \<Rightarrow> bool \<Rightarrow> console_caller \<Rightarrow> ('raw market_state, reeval_status) route" where
  "list_reeval_status rt configured caller = role_route REEVAL_READERS True configured caller (\<lambda>st.
     case res_bind (current_toolchain_digest rt (ms_disabled st)) (\<lambda>digest.
            res_bind (list_published_toolchain_statuses (ms_inventory st)) (\<lambda>statuses. Inr (digest, statuses))) of
       Inl e \<Rightarrow> (st, Crashed e)
     | Inr (digest, statuses) \<Rightarrow>
         (st, Answer \<lparr>re_current_toolchain_digest = digest, re_skills = map (\<lambda>s. (s, is_stale s digest)) statuses,
            re_drift = drift_summary (mr_inventory_configured rt) (ms_inventory st)\<rparr>))"

section \<open>Rescans\<close>

record drain_answer =
  da_current_toolchain_digest :: string
  da_stale_total :: nat
  da_targets_selected :: nat
  da_versions_queued :: nat
  da_remaining :: nat

definition with_orch :: "orch_db \<Rightarrow> 'raw market_state \<Rightarrow> 'raw market_state" where
  "with_orch odb st = st\<lparr>ms_system := (ms_system st)\<lparr>sy_orch := odb\<rparr>\<rparr>"

text \<open>Selecting and queueing are one transaction.\<close>

definition drain_stale_reeval ::
  "'raw market_runtime \<Rightarrow> bool \<Rightarrow> real \<Rightarrow> (string \<Rightarrow> string) \<Rightarrow> request \<Rightarrow> console_caller \<Rightarrow> int \<Rightarrow> ('raw market_state, drain_answer) route" where
  "drain_stale_reeval rt configured now uuid rq caller limit =
     write_route [''admin''] (1 \<le> limit \<and> limit \<le> MAX_DRAIN_LIMIT) configured rq caller (\<lambda>st.
     case res_bind (current_toolchain_digest rt (ms_disabled st)) (\<lambda>digest.
            res_bind (list_published_toolchain_statuses (ms_inventory st)) (\<lambda>statuses.
            let stale = batch_rescan_targets statuses digest; selected = take (nat limit) stale
            in res_bind (trigger_rescans (pf_sha256 (mr_platform rt)) uuid digest (cn_subject caller) now selected (sy_orch (ms_system st), 0)) (\<lambda>(odb, queued).
               Inr (odb, \<lparr>da_current_toolchain_digest = digest, da_stale_total = length stale, da_targets_selected = length selected,
                 da_versions_queued = queued, da_remaining = length stale - length selected\<rparr>)))) of
       Inl e \<Rightarrow> (st, Crashed e)
     | Inr (odb, a) \<Rightarrow> (with_orch odb st, Answer a))"

definition trigger_reeval ::
  "'raw market_runtime \<Rightarrow> bool \<Rightarrow> real \<Rightarrow> (string \<Rightarrow> string) \<Rightarrow> request \<Rightarrow> console_caller \<Rightarrow> string \<Rightarrow> ('raw market_state, string \<times> nat) route" where
  "trigger_reeval rt configured now uuid rq caller skill_id = write_route [''admin''] True configured rq caller (\<lambda>st.
     case res_bind (current_toolchain_digest rt (ms_disabled st)) (\<lambda>digest.
            res_bind (list_published_toolchain_statuses (ms_inventory st)) (\<lambda>statuses. Inr (digest, statuses))) of
       Inl e \<Rightarrow> (st, Crashed e)
     | Inr (digest, statuses) \<Rightarrow>
         let targets = filter (\<lambda>s. ts_skill_id s = skill_id) statuses
         in if targets = [] then (st, Refused 404)
            else case trigger_rescans (pf_sha256 (mr_platform rt)) uuid digest (cn_subject caller) now targets (sy_orch (ms_system st), 0) of
                Inl e \<Rightarrow> (st, Crashed e)
              | Inr (odb, queued) \<Rightarrow> (with_orch odb st, Answer (skill_id, queued)))"

definition get_reconciliation_status :: "bool \<Rightarrow> console_caller \<Rightarrow> (reeval_state, reconciliation_row list) route" where
  "get_reconciliation_status configured caller = role_route RECONCILIATION_READERS True configured caller (\<lambda>st.
     (st, Answer (list_reconciliation_outcomes st 100)))"

section \<open>Granting a waiver\<close>

lemma write_route_cases:
  "(fst (write_route roles valid configured rq caller body st) = st \<and> (\<forall>a. snd (write_route roles valid configured rq caller body st) \<noteq> Answer a)) \<or>
   (require_csrf rq = Inr () \<and> (roles = [] \<or> has_role (cn_session caller) roles) \<and> valid \<and> configured \<and>
    write_route roles valid configured rq caller body st = body st)"
  by (auto simp: write_route_def role_route_def require_role_def res_bind_def raise_if_def split: sum.splits if_splits)

text \<open>Note: A waiver has a named approver who did not ask for it. If the route grants a waiver, the request carried its
  token and came from an approver or an administrator, the entry records this caller as approver and someone else
  as requester, a rule that is a hard gate was waived by an administrator, one row with a fresh identifier and
  one audit record were added and the counter moved by one; any other reply leaves tables and counter as they were.\<close>

theorem waiver_has_two_people:
  assumes "create_allowlist_entry uuid configured policy idb rq caller body st = (st', r)"
  shows "(st' = st \<and> (\<forall>w. r \<noteq> Answer w)) \<or>
    (\<exists>row w e. r = Answer w \<and> wi_row w = row \<and> require_csrf rq = Inr () \<and> has_role (cn_session caller) WAIVER_ROLES \<and>
      (gb_rule_id body \<in> gp_hard_gate_rules policy \<longrightarrow> has_role (cn_session caller) [''admin'']) \<and>
      aw_rule_id row = gb_rule_id body \<and> aw_approved_by row = cn_subject caller \<and> aw_requested_by row = gb_requested_by body \<and>
      aw_requested_by row \<noteq> aw_approved_by row \<and> uuid \<notin> fst ` set (gd_allowlist (ws_gate st)) \<and>
      gd_allowlist (ws_gate st') = gd_allowlist (ws_gate st) @ [(uuid, row)] \<and> gd_verdicts (ws_gate st') = gd_verdicts (ws_gate st) \<and>
      gd_intents (ws_gate st') = gd_intents (ws_gate st) @ [e] \<and> ai_action e = ''allowlist_granted'' \<and> ai_operator e = cn_subject caller \<and>
      ws_grants st' = Suc (ws_grants st))"
proof -
  let ?body = "\<lambda>st. if gb_rule_id body \<in> gp_hard_gate_rules policy \<and> \<not> has_role (cn_session caller) [''admin''] then (st, Refused 403)
       else case grant_allowlist_entry (ws_gate st) uuid (gb_scope_type body) (gb_scope_value body) (gb_rule_id body) (gb_expires_at body)
                  (cn_subject caller) (gb_requested_by body) (gb_reason body) of
           Inl e \<Rightarrow> (st, if e = AllowlistError then Refused 400 else Crashed e)
         | Inr (row, gdb) \<Rightarrow>
             (\<lparr>ws_gate = gdb, ws_grants = Suc (ws_grants st)\<rparr>, Answer (row_to_dict (snd (known_skills configured idb)) (uuid, row)))"
  let ?grant = "grant_allowlist_entry (ws_gate st) uuid (gb_scope_type body) (gb_scope_value body) (gb_rule_id body) (gb_expires_at body)
                  (cn_subject caller) (gb_requested_by body) (gb_reason body)"
  have "(st' = st \<and> (\<forall>w. r \<noteq> Answer w)) \<or>
      (require_csrf rq = Inr () \<and> has_role (cn_session caller) WAIVER_ROLES \<and> ?body st = (st', r))"
    using write_route_cases [of WAIVER_ROLES "length (gb_rule_id body) \<le> RULE_ID_MAX_LENGTH" True rq caller ?body st] assms
    unfolding create_allowlist_entry_def by (auto simp: WAIVER_ROLES_def)
  then show ?thesis
  proof (elim disjE conjE)
    assume a: "require_csrf rq = Inr ()" "has_role (cn_session caller) WAIVER_ROLES" "?body st = (st', r)"
    show ?thesis
    proof (cases "(gb_rule_id body \<in> gp_hard_gate_rules policy \<and> \<not> has_role (cn_session caller) [''admin'']) \<or> (\<exists>e. ?grant = Inl e)")
      case True
      then show ?thesis using a(3) by (auto split: if_splits)
    next
      case False
      then obtain row gdb where g: "?grant = Inr (row, gdb)" by (cases ?grant) auto
      have r: "st' = \<lparr>ws_gate = gdb, ws_grants = Suc (ws_grants st)\<rparr>" "r = Answer (row_to_dict (snd (known_skills configured idb)) (uuid, row))"
        using a(3) False by (auto simp: g split: if_splits)
      from g show ?thesis
      proof (rule grant_InrE)
        fix e
        assume e: "gd_allowlist gdb = gd_allowlist (ws_gate st) @ [(uuid, row)]" "gd_verdicts gdb = gd_verdicts (ws_gate st)"
          "gd_intents gdb = gd_intents (ws_gate st) @ [e]" "ai_action e = ''allowlist_granted''" "ai_operator e = cn_subject caller" "allowlist_row_ok row"
          "uuid \<notin> fst ` set (gd_allowlist (ws_gate st))" "aw_approved_by row = cn_subject caller" "aw_requested_by row = gb_requested_by body"
          "aw_rule_id row = gb_rule_id body"
        have "aw_requested_by row \<noteq> aw_approved_by row" using e(6) by (auto simp: allowlist_row_ok_def)
        then show ?thesis using a(1,2) False e unfolding r
          by (intro disjI2 exI [of _ row] exI [of _ "row_to_dict (snd (known_skills configured idb)) (uuid, row)"] exI [of _ e])
            (simp add: row_to_dict_def)
      qed
    qed
  qed blast
qed

section \<open>The review queue\<close>

text \<open>The batched reads of the queue give what the decision reads for one scan.\<close>

lemma queue_superseded_iff:
  assumes "ch \<in> set hashes"
  shows "queue_superseded configured idb hashes ch \<longleftrightarrow> review_superseded (if configured then Some idb else None) ch"
proof (cases configured)
  case True
  let ?skills = "skill_ids_by_hash True idb hashes"
  have f: "map_of (filter (\<lambda>(k, v). k \<in> A) xs) ch = (if ch \<in> A then map_of xs ch else None)" for A :: "string set" and xs :: "(string \<times> version_row) list"
    by (induction xs) auto
  have skill: "map_of ?skills ch = skill_id_for_content idb ch"
    using assms by (simp add: skill_ids_by_hash_def map_of_map f skill_id_for_content_def)
  have "(case map_of ?skills ch of None \<Rightarrow> None | Some sid \<Rightarrow> map_of (latest_lifecycle_positions idb (sorted_list_of_set (snd ` set ?skills))) sid) =
      lifecycle_position_for_content idb ch"
  proof (cases "skill_id_for_content idb ch")
    case None
    then show ?thesis by (simp add: skill lifecycle_position_for_content_def)
  next
    case (Some sid)
    then have "sid \<in> snd ` set ?skills" using skill by (metis map_of_SomeD snd_conv image_eqI)
    then have "sid \<in> set (sorted_list_of_set (snd ` set ?skills))" by simp
    then have "map_of (latest_lifecycle_positions idb (sorted_list_of_set (snd ` set ?skills))) sid = map_of (latest_lifecycle_positions idb [sid]) sid"
      by (simp add: latest_positions_agree)
    then show ?thesis using Some by (simp add: skill lifecycle_position_for_content_def)
  qed
  then show ?thesis using True by (simp add: queue_superseded_def review_superseded_def)
next
  case False
  then show ?thesis by (simp add: queue_superseded_def skill_ids_by_hash_def review_superseded_def pending_review_is_superseded_def)
qed

text \<open>C29: The queue marks exactly the reviews whose decision would be refused. An entry of the queue is marked as superseded
  if and only if the decision on it would find its skill moved on; and a decision that is accepted was on the
  queue, not marked, came with its token from an approver or administrator who did not submit the scan, and
  takes it off the queue.\<close>

theorem queue_marks_refused_decisions:
  assumes "distinct (map fst (gd_verdicts (sy_gate (ms_system st))))" "list_reviews configured caller st = (st1, Answer items)"
  shows "(\<forall>item \<in> set items. ri_superseded item \<longleftrightarrow> review_superseded (if configured then Some (ms_inventory st) else None) (ri_content_hash item)) \<and>
    (\<forall>validate now sg policy rq who k d why st' x. decide_review validate now sg configured policy rq who k d why st = (st', Answer x) \<longrightarrow>
      (\<exists>item \<in> set items. ri_scan_id item = k \<and> \<not> ri_superseded item) \<and> require_csrf rq = Inr () \<and> has_role (cn_session who) WAIVER_ROLES \<and>
      \<not> is_scan_submitter (sy_orch (ms_system st)) k (cn_subject who) \<and>
      (\<forall>row. (k, row) \<notin> set (list_pending_reviews (sy_gate (ms_system st')))))"
proof
  let ?inv = "if configured then Some (ms_inventory st) else None"
  let ?pending = "list_pending_reviews (sy_gate (ms_system st))"
  let ?hashes = "map (vd_content_hash \<circ> snd) ?pending"
  let ?marked = "queue_superseded configured (ms_inventory st) ?hashes"
  have items: "map (\<lambda>i. (ri_scan_id i, ri_content_hash i, ri_superseded i)) items = map (\<lambda>(k, v). (k, vd_content_hash v, ?marked (vd_content_hash v))) ?pending"
    using assms(2) unfolding list_reviews_def Let_def role_route_def by (auto split: sum.splits)
  have marked: "?marked ch \<longleftrightarrow> review_superseded ?inv ch" if ch: "ch \<in> set ?hashes" for ch using ch by (rule queue_superseded_iff)
  show flags: "\<forall>item \<in> set items. ri_superseded item \<longleftrightarrow> review_superseded ?inv (ri_content_hash item)"
  proof
    fix item assume "item \<in> set items"
    then have "(ri_scan_id item, ri_content_hash item, ri_superseded item) \<in> set (map (\<lambda>i. (ri_scan_id i, ri_content_hash i, ri_superseded i)) items)" by simp
    then obtain v where v: "(ri_scan_id item, v) \<in> set ?pending" "ri_content_hash item = vd_content_hash v" "ri_superseded item = ?marked (vd_content_hash v)"
      unfolding items by auto
    then have "ri_content_hash item \<in> set ?hashes" by force
    then show "ri_superseded item \<longleftrightarrow> review_superseded ?inv (ri_content_hash item)" using marked v(2,3) by metis
  qed
  show "\<forall>validate now sg policy rq who k d why st' x. decide_review validate now sg configured policy rq who k d why st = (st', Answer x) \<longrightarrow>
      (\<exists>item \<in> set items. ri_scan_id item = k \<and> \<not> ri_superseded item) \<and> require_csrf rq = Inr () \<and> has_role (cn_session who) WAIVER_ROLES \<and>
      \<not> is_scan_submitter (sy_orch (ms_system st)) k (cn_subject who) \<and>
      (\<forall>row. (k, row) \<notin> set (list_pending_reviews (sy_gate (ms_system st'))))"
  proof (intro allI impI)
    fix validate now sg policy rq who k d why st' x
    assume run: "decide_review validate now sg configured policy rq who k d why st = (st', Answer x)"
    obtain row' gdb where sub: "submit_review_decision validate (sy_orch (ms_system st)) (sy_gate (ms_system st)) ?inv now sg k d (cn_subject who) why policy =
        Inr (row', gdb)" and st': "sy_gate (ms_system st') = gdb"
      and auth: "require_csrf rq = Inr ()" "has_role (cn_session who) WAIVER_ROLES"
      using run unfolding decide_review_def
      by (auto simp: write_route_def role_route_def require_role_def res_bind_def raise_if_def WAIVER_ROLES_def split: sum.splits if_splits prod.splits)
    from sub show "(\<exists>item \<in> set items. ri_scan_id item = k \<and> \<not> ri_superseded item) \<and> require_csrf rq = Inr () \<and> has_role (cn_session who) WAIVER_ROLES \<and>
      \<not> is_scan_submitter (sy_orch (ms_system st)) k (cn_subject who) \<and>
      (\<forall>row. (k, row) \<notin> set (list_pending_reviews (sy_gate (ms_system st'))))"
    proof (rule submit_review_InrE)
      fix nv job row
      assume *: "map_of DECISION_TO_VERDICT d = Some nv" "\<not> is_scan_submitter (sy_orch (ms_system st)) k (cn_subject who)"
        "map_of (gd_verdicts (sy_gate (ms_system st))) k = Some row" "vd_verdict row = ''REVIEW''" "\<not> review_superseded ?inv (vd_content_hash row)"
        "vd_verdict row' = verdict_name nv" "gd_verdicts gdb = dict_put k row' (gd_verdicts (sy_gate (ms_system st)))"
      have p: "(k, row) \<in> set ?pending" using *(3,4) by (auto simp: list_pending_reviews_def dest: map_of_SomeD)
      then have "(k, vd_content_hash row, ?marked (vd_content_hash row)) \<in> set (map (\<lambda>i. (ri_scan_id i, ri_content_hash i, ri_superseded i)) items)"
        unfolding items by force
      moreover have "\<not> ?marked (vd_content_hash row)" using marked [of "vd_content_hash row"] p *(5) by force
      ultimately have entry: "\<exists>item \<in> set items. ri_scan_id item = k \<and> \<not> ri_superseded item" by auto
      have "vd_verdict row' \<noteq> ''REVIEW''" using decision_verdict [OF *(1)] unfolding *(6) by (cases nv) simp_all
      moreover have "distinct (map fst (gd_verdicts gdb))" using assms(1) unfolding *(7) by (simp add: distinct_update)
      then have "r = row'" if "(k, r) \<in> set (gd_verdicts gdb)" for r using that *(7) by (metis map_of_is_SomeI option.inject update_conv' fun_upd_same)
      ultimately have "(k, r) \<notin> set (list_pending_reviews gdb)" for r by (auto simp: list_pending_reviews_def)
      then show ?thesis using entry auth *(2) st' by blast
    qed
  qed
qed

section \<open>Draining\<close>

lemma drain_stale_Answer:
  assumes "drain_stale_reeval rt configured now uuid rq caller limit st = (st', Answer a)"
  obtains digest statuses odb where "require_csrf rq = Inr ()" "has_role (cn_session caller) [''admin'']" "1 \<le> limit" "limit \<le> MAX_DRAIN_LIMIT" configured
    "current_toolchain_digest rt (ms_disabled st) = Inr digest" "list_published_toolchain_statuses (ms_inventory st) = Inr statuses"
    "trigger_rescans (pf_sha256 (mr_platform rt)) uuid digest (cn_subject caller) now (take (nat limit) (batch_rescan_targets statuses digest))
      (sy_orch (ms_system st), 0) = Inr (odb, da_versions_queued a)"
    "a = \<lparr>da_current_toolchain_digest = digest, da_stale_total = length (batch_rescan_targets statuses digest),
      da_targets_selected = length (take (nat limit) (batch_rescan_targets statuses digest)), da_versions_queued = da_versions_queued a,
      da_remaining = length (batch_rescan_targets statuses digest) - length (take (nat limit) (batch_rescan_targets statuses digest))\<rparr>"
    "st' = with_orch odb st"
  using assms unfolding drain_stale_reeval_def
  by (auto simp: write_route_def role_route_def require_role_def raise_if_def res_bind_eq_Inr Let_def split: sum.splits if_splits prod.splits)


end
