(* ===== verification/Admin_Api.thy ===== *)
theory Admin_Api
  imports Gate_Api Policy_Rollout Engine_Health
begin

text \<open>
  The administration endpoints (admin/router.py): engines and their health, the gate policy, local accounts, the
  mapping of groups to roles, break-glass access and the two logins without an identity provider. Each handler takes
  the stores and the process state it uses and returns them with a reply. Identifiers of rows are natural numbers;
  a negative one names no row. The audit record of a change that lives in the shared store is a transaction of its own,
  which may fail after the change (\<open>stored\<close>).
\<close>

section \<open>State\<close>

text \<open>The names of the floor (orchestration/floor.py).\<close>

definition floor_engine_names :: "string set" where
  "floor_engine_names = {''static-keyword'', ''inhouse-crypto-weak'', ''inhouse-file-type'', ''inhouse-pii'', ''inhouse-toctou'',
     ''inhouse-prompt-injection-zh'', ''inhouse-jailbreak-inducement-zh'', ''inhouse-mcp-config'', ''inhouse-skill-permissions''}"

text \<open>The shared store, its set of disabled engines, the databases of the gate and of the accounts, and what the process
  holds in memory: the policy it runs and the mapping it resolves roles with.\<close>

record admin_state =
  as_redis :: redis
  as_disabled :: "string set"
  as_gate :: gate_db
  as_policy :: gate_policy
  as_admin :: admin_db
  as_group_role_map :: "(string \<times> string) list"

text \<open>The vault answers a credential or an exception; \<open>at_verify_totp\<close> takes time, secret and code.\<close>

record admin_runtime =
  at_engine_metadatas :: "(string \<times> string \<times> string list) list"
  at_sandbox_llm_configured :: bool
  at_safe_load :: "string \<Rightarrow> yaml_read"
  at_accounts_configured :: bool
  at_hash_password :: "string \<Rightarrow> string"
  at_verify_password :: "string \<Rightarrow> string \<Rightarrow> bool"
  at_codec :: session_codec
  at_breakglass_enabled :: bool
  at_breakglass_credentials :: "(string res \<times> string res) option"
  at_verify_totp :: "real \<Rightarrow> string \<Rightarrow> string \<Rightarrow> bool"
  at_breakglass_session_ttl_s :: real
  at_local_auth_enabled :: bool
  at_local_account_store :: bool
  at_local_session_ttl_s :: real

type_synonym 'a admin_handler = "(admin_state, 'a) route"

definition engine_names_of :: "admin_runtime \<Rightarrow> string set" where
  "engine_names_of rt = fst ` set (at_engine_metadatas rt)"

definition audited :: "bool \<Rightarrow> intent_row \<Rightarrow> 'a \<Rightarrow> 'a admin_handler" where
  "audited stored e a st =
     (if stored then (st\<lparr>as_gate := (as_gate st)\<lparr>gd_intents := gd_intents (as_gate st) @ [e]\<rparr>\<rparr>, Answer a)
      else (st, Crashed OperationalError))"

section \<open>Engines\<close>

definition list_engines :: "admin_runtime \<Rightarrow> console_caller \<Rightarrow> engine_row list admin_handler" where
  "list_engines rt caller = role_route [''admin''] True True caller (\<lambda>st.
     (st, Answer (known_engine_rows (at_engine_metadatas rt) floor_engine_names (as_disabled st))))"

record engine_health_item =
  eh_summary :: health_summary
  eh_not_reported_attribution :: "string option"
  eh_not_reported_attribution_basis :: "string option"

definition engine_health_to_dict :: "string set \<Rightarrow> string set \<Rightarrow> health_summary \<Rightarrow> engine_health_item" where
  "engine_health_to_dict disabled llm_unconfigured summary =
     (let attribution = (if hr_report_state (hs_last summary) = ''not_reported''
            then not_reported_attribution (hs_engine_name summary) disabled llm_unconfigured (counts_reported (hs_counts summary)) else None)
      in \<lparr>eh_summary = summary, eh_not_reported_attribution = attribution,
          eh_not_reported_attribution_basis = not_reported_attribution_basis attribution\<rparr>)"

record engine_health_page =
  ep_window :: health_window
  ep_engines :: "engine_health_item list"
  ep_unregistered_engines :: "string list"

definition get_engine_health :: "admin_runtime \<Rightarrow> orch_db \<Rightarrow> console_caller \<Rightarrow> int \<Rightarrow> engine_health_page admin_handler" where
  "get_engine_health rt odb caller scans = role_route [''admin''] (1 \<le> scans \<and> scans \<le> MAX_WINDOW_SCANS) True caller (\<lambda>st.
     let report = load_recent_engine_health odb scans;
         llm_unconfigured = llm_unconfigured_engine_names (at_sandbox_llm_configured rt)
     in (st, Answer \<lparr>ep_window = ht_window report,
          ep_engines = map (engine_health_to_dict (as_disabled st) llm_unconfigured) (ht_engines report),
          ep_unregistered_engines = sort (filter (\<lambda>n. n \<notin> known_engine_names (at_engine_metadatas rt)) (map hs_engine_name (ht_engines report)))\<rparr>))"

definition set_engine_enabled_endpoint ::
  "admin_runtime \<Rightarrow> bool \<Rightarrow> request \<Rightarrow> console_caller \<Rightarrow> string \<Rightarrow> bool \<Rightarrow> (string \<times> bool) admin_handler" where
  "set_engine_enabled_endpoint rt stored rq caller name enabled = write_route [''admin''] True True rq caller (\<lambda>st.
     if name \<notin> known_engine_names (at_engine_metadatas rt) then (st, Refused 404)
     else case set_engine_enabled name enabled floor_engine_names (as_disabled st) of
         Inl e \<Rightarrow> (st, if e = EngineDisableError then Refused 409 else Crashed e)
       | Inr disabled \<Rightarrow> audited stored \<lparr>ai_operator = cn_subject caller, ai_action = ''engine_enabled_changed'',
             ai_payload = [(''name'', PStr name), (''enabled'', PBool enabled)]\<rparr> (name, enabled) (st\<lparr>as_disabled := disabled\<rparr>))"

section \<open>The gate policy\<close>

record policy_page =
  po_active :: gate_policy
  po_required_engines :: "string list"
  po_hard_gate_rules :: "string list"
  po_pending :: "(nat \<times> proposal_row) list"

definition get_policy :: "console_caller \<Rightarrow> policy_page admin_handler" where
  "get_policy caller = role_route [''admin''] True True caller (\<lambda>st.
     (st, Answer \<lparr>po_active = as_policy st, po_required_engines = sorted_list_of_set (gp_required_engines (as_policy st)),
        po_hard_gate_rules = sorted_list_of_set (gp_hard_gate_rules (as_policy st)),
        po_pending = filter (\<lambda>(pid, p). pp_status p = ''pending'') (gd_proposals (as_gate st))\<rparr>))"

definition propose_policy_endpoint ::
  "admin_runtime \<Rightarrow> real \<Rightarrow> request \<Rightarrow> console_caller \<Rightarrow> string \<Rightarrow> (nat \<times> proposal_row) admin_handler" where
  "propose_policy_endpoint rt now rq caller policy_yaml = write_route [''admin''] True True rq caller (\<lambda>st.
     case propose_policy (at_safe_load rt) now (cn_subject caller) policy_yaml (as_gate st, as_policy st) of
       Inl status \<Rightarrow> (st, Refused status)
     | Inr (Inl e) \<Rightarrow> (st, Crashed e)
     | Inr (Inr (proposal, gdb)) \<Rightarrow> (st\<lparr>as_gate := gdb\<rparr>, Answer proposal))"

text \<open>The approval is committed before the promotion is tried; the answer shows the row of the approval.\<close>

definition approve_policy_endpoint ::
  "admin_runtime \<Rightarrow> real \<Rightarrow> request \<Rightarrow> console_caller \<Rightarrow> nat \<Rightarrow> (proposal_row option \<times> bool) admin_handler" where
  "approve_policy_endpoint rt now rq caller proposal_id = write_route [''admin''] True True rq caller (\<lambda>st.
     case map_of (gd_proposals (as_gate st)) proposal_id of
       None \<Rightarrow> (st, Refused 404)
     | Some proposal \<Rightarrow> (case approve_policy_proposal (as_gate st) now (proposal_id, proposal) (cn_subject caller) of
         Inl e \<Rightarrow> (st, if e = PolicyProposalError then Refused 403 else Crashed e)
       | Inr gdb \<Rightarrow> (case promote_approved_policy (at_safe_load rt) (engine_names_of rt) proposal_id (gdb, as_policy st) of
           Inl e \<Rightarrow> (st\<lparr>as_gate := gdb\<rparr>, Crashed e)
         | Inr ((gdb', policy), applied) \<Rightarrow>
             (st\<lparr>as_gate := gdb', as_policy := policy\<rparr>, Answer (map_of (gd_proposals gdb) proposal_id, applied)))))"

definition reject_policy_endpoint ::
  "real \<Rightarrow> request \<Rightarrow> console_caller \<Rightarrow> nat \<Rightarrow> string \<Rightarrow> proposal_row option admin_handler" where
  "reject_policy_endpoint now rq caller proposal_id reason = write_route [''admin''] True True rq caller (\<lambda>st.
     case reject_policy now proposal_id (cn_subject caller) reason (as_gate st) of
       Inl status \<Rightarrow> (st, Refused status)
     | Inr gdb \<Rightarrow> (st\<lparr>as_gate := gdb\<rparr>, Answer (map_of (gd_proposals gdb) proposal_id)))"

section \<open>Accounts\<close>

definition list_users :: "console_caller \<Rightarrow> (string \<times> string) list admin_handler" where
  "list_users caller = role_route [''admin''] True True caller (\<lambda>st. (st, Answer (as_group_role_map st)))"

definition list_accounts_endpoint :: "admin_runtime \<Rightarrow> console_caller \<Rightarrow> (nat \<times> local_account) list admin_handler" where
  "list_accounts_endpoint rt caller = role_route [''admin''] True (at_accounts_configured rt) caller (\<lambda>st.
     (st, Answer (am_accounts (as_admin st))))"

definition create_account_endpoint ::
  "admin_runtime \<Rightarrow> real \<Rightarrow> request \<Rightarrow> console_caller \<Rightarrow> string \<Rightarrow> string \<Rightarrow> string \<Rightarrow> local_account admin_handler" where
  "create_account_endpoint rt now rq caller username role initial_password = write_route [''admin''] True (at_accounts_configured rt) rq caller (\<lambda>st.
     case create_account (at_hash_password rt) now username role initial_password (cn_subject caller) KNOWN_ROLES (as_admin st) of
       Inl e \<Rightarrow> (st, if e = AdminAccountError \<or> e = IntegrityError then Refused 400 else Crashed e)
     | Inr (row, db) \<Rightarrow> (st\<lparr>as_admin := db\<rparr>, Answer row))"

definition update_account_endpoint ::
  "admin_runtime \<Rightarrow> real \<Rightarrow> request \<Rightarrow> console_caller \<Rightarrow> nat \<Rightarrow> string option \<Rightarrow> string option \<Rightarrow> local_account admin_handler" where
  "update_account_endpoint rt now rq caller account_id role status = write_route [''admin''] True (at_accounts_configured rt) rq caller (\<lambda>st.
     case set_account_role_status now account_id role status (cn_subject caller) KNOWN_ROLES (as_admin st) (as_admin st) of
       Inl e \<Rightarrow> (st, if e = AdminAccountError then Refused 400 else Crashed e)
     | Inr (row, db) \<Rightarrow> (st\<lparr>as_admin := db\<rparr>, Answer row))"

definition reset_account_password_endpoint ::
  "admin_runtime \<Rightarrow> real \<Rightarrow> request \<Rightarrow> console_caller \<Rightarrow> nat \<Rightarrow> string \<Rightarrow> nat admin_handler" where
  "reset_account_password_endpoint rt now rq caller account_id new_password = write_route [''admin''] True (at_accounts_configured rt) rq caller (\<lambda>st.
     case reset_password (at_hash_password rt) now account_id new_password (cn_subject caller) (as_admin st) of
       Inl e \<Rightarrow> (st, if e = AdminAccountError then Refused 400 else Crashed e)
     | Inr db \<Rightarrow> (st\<lparr>as_admin := db\<rparr>, Answer account_id))"

section \<open>Groups\<close>

text \<open>An edit of the mapping commits to the table and then changes the mapping in memory; other requests may run in
  between.\<close>

definition commit_mapping :: "real \<Rightarrow> string \<Rightarrow> string \<Rightarrow> string \<Rightarrow> admin_state \<Rightarrow> admin_state res" where
  "commit_mapping now group_name role actor st =
     res_bind (upsert_group_role_mapping now group_name role actor KNOWN_ROLES (as_admin st)) (\<lambda>db. Inr (st\<lparr>as_admin := db\<rparr>))"

definition apply_mapping :: "string \<Rightarrow> string \<Rightarrow> admin_state \<Rightarrow> admin_state" where
  "apply_mapping group_name role st = st\<lparr>as_group_role_map := dict_put group_name role (as_group_role_map st)\<rparr>"

definition commit_removal :: "string \<Rightarrow> string \<Rightarrow> admin_state \<Rightarrow> admin_state res" where
  "commit_removal group_name actor st =
     res_bind (delete_group_role_mapping group_name actor (as_admin st)) (\<lambda>db. Inr (st\<lparr>as_admin := db\<rparr>))"

definition apply_removal :: "string \<Rightarrow> admin_state \<Rightarrow> admin_state" where
  "apply_removal group_name st = st\<lparr>as_group_role_map := filter (\<lambda>(g, r). g \<noteq> group_name) (as_group_role_map st)\<rparr>"

definition upsert_group_role_map_endpoint ::
  "admin_runtime \<Rightarrow> real \<Rightarrow> request \<Rightarrow> console_caller \<Rightarrow> string \<Rightarrow> string \<Rightarrow> group_role_row option admin_handler" where
  "upsert_group_role_map_endpoint rt now rq caller group_name role = write_route [''admin''] True (at_accounts_configured rt) rq caller (\<lambda>st.
     case commit_mapping now group_name role (cn_subject caller) st of
       Inl e \<Rightarrow> (st, if e = AdminAccountError then Refused 400 else Crashed e)
     | Inr st' \<Rightarrow> (apply_mapping group_name role st', Answer (map_of (am_mappings (as_admin st')) group_name)))"

definition delete_group_role_map_endpoint ::
  "admin_runtime \<Rightarrow> request \<Rightarrow> console_caller \<Rightarrow> string \<Rightarrow> string admin_handler" where
  "delete_group_role_map_endpoint rt rq caller group_name = write_route [''admin''] True (at_accounts_configured rt) rq caller (\<lambda>st.
     case commit_removal group_name (cn_subject caller) st of
       Inl e \<Rightarrow> (st, if e = AdminAccountError then Refused 404 else Crashed e)
     | Inr st' \<Rightarrow> (apply_removal group_name st', Answer group_name))"

section \<open>Break-glass access\<close>

definition get_breakglass_status :: "admin_runtime \<Rightarrow> real \<Rightarrow> console_caller \<Rightarrow> (bool \<times> bool) admin_handler" where
  "get_breakglass_status rt now caller = role_route [''admin''] True True caller (\<lambda>st.
     (st, Answer (at_breakglass_enabled rt, at_breakglass_enabled rt \<and> is_armed now (as_redis st))))"

definition ACTIVATION_TTL_S :: real where "ACTIVATION_TTL_S = 900"

definition known_admin_subjects :: "admin_state \<Rightarrow> string set" where
  "known_admin_subjects st = {g. map_of (as_group_role_map st) g = Some ''admin''}"

definition activate_breakglass_endpoint ::
  "admin_runtime \<Rightarrow> bool \<Rightarrow> real \<Rightarrow> request \<Rightarrow> console_caller \<Rightarrow> string \<Rightarrow> string \<Rightarrow> ((string \<times> string) \<times> real) admin_handler" where
  "activate_breakglass_endpoint rt stored now rq caller second_activator totp_code = write_route [''admin''] True True rq caller (\<lambda>st.
     if \<not> at_breakglass_enabled rt then (st, Refused 404)
     else case at_breakglass_credentials rt of
         None \<Rightarrow> (st, Refused 404)
       | Some (credential, totp_secret) \<Rightarrow>
           if second_activator = cn_subject caller then (st, Refused 403)
           else case totp_secret of
               Inl e \<Rightarrow> (st, Crashed e)
             | Inr secret \<Rightarrow> (case activate_breakglass now (cn_subject caller) second_activator (at_verify_totp rt now secret totp_code)
                     (known_admin_subjects st) ACTIVATION_TTL_S (as_redis st) of
                 Inl e \<Rightarrow> (st, if e = BreakGlassError then Refused 403 else Crashed e)
               | Inr (r, who, expires_at) \<Rightarrow> audited stored \<lparr>ai_operator = cn_subject caller, ai_action = ''breakglass_activated'',
                     ai_payload = [(''activated_by'', PList [PStr (fst who), PStr (snd who)]), (''expires_at'', PFloat (Fin expires_at))]\<rparr>
                     (who, expires_at) (st\<lparr>as_redis := r\<rparr>)))"

text \<open>A login answers with the cookies it sets: name, content and lifetime.\<close>

definition login_breakglass ::
  "admin_runtime \<Rightarrow> bool \<Rightarrow> real \<Rightarrow> string \<Rightarrow> string \<Rightarrow> string \<Rightarrow> string \<Rightarrow> (string \<times> string \<times> real) list admin_handler" where
  "login_breakglass rt stored now token csrf_token credential totp_code st =
     (if \<not> at_breakglass_enabled rt then (st, Refused 404)
      else case at_breakglass_credentials rt of
          None \<Rightarrow> (st, Refused 404)
        | Some (expected, totp_secret) \<Rightarrow> (case res_bind expected (\<lambda>x. res_bind totp_secret (\<lambda>s. Inr (x, s))) of
            Inl e \<Rightarrow> (st, Crashed e)
          | Inr (expected_credential, secret) \<Rightarrow>
              (case authenticate_breakglass now credential expected_credential (at_verify_totp rt now secret totp_code) (as_redis st) of
                 (r, Inl e) \<Rightarrow> (st\<lparr>as_redis := r\<rparr>, Crashed e)
               | (r, Inr ok) \<Rightarrow>
                   if \<not> ok then (st\<lparr>as_redis := r\<rparr>, Refused 401)
                   else audited stored \<lparr>ai_operator = ''breakglass-admin'', ai_action = ''breakglass_login'', ai_payload = []\<rparr>
                     [(BREAKGLASS_SESSION_COOKIE_NAME, token, at_breakglass_session_ttl_s rt), (CSRF_COOKIE_NAME, csrf_token, of_int CSRF_COOKIE_MAX_AGE_S)]
                     (st\<lparr>as_redis := create_breakglass_session (at_codec rt) now (at_breakglass_session_ttl_s rt) ''breakglass-admin'' token r\<rparr>))))"

section \<open>Local login\<close>

definition login_local ::
  "admin_runtime \<Rightarrow> bool \<Rightarrow> real \<Rightarrow> string \<Rightarrow> string \<Rightarrow> string \<Rightarrow> string \<Rightarrow> (string \<times> string \<times> real) list admin_handler" where
  "login_local rt stored now token csrf_token username password st =
     (if \<not> at_local_auth_enabled rt \<or> \<not> at_local_account_store rt then (st, Refused 404)
      else case authenticate_local (at_verify_password rt) (am_accounts (as_admin st)) now username password (as_redis st) of
          Inl e \<Rightarrow> (st, Crashed e)
        | Inr (r, None) \<Rightarrow> (st\<lparr>as_redis := r\<rparr>, Refused 401)
        | Inr (r, Some account) \<Rightarrow>
            audited stored \<lparr>ai_operator = la_username account, ai_action = ''local_login'', ai_payload = [(''role'', PStr (la_role account))]\<rparr>
              [(LOCAL_SESSION_COOKIE_NAME, token, at_local_session_ttl_s rt), (CSRF_COOKIE_NAME, csrf_token, of_int CSRF_COOKIE_MAX_AGE_S)]
              (st\<lparr>as_redis := create_local_session (at_codec rt) now (at_local_session_ttl_s rt) (la_username account) (la_role account) token r\<rparr>))"

section \<open>Sequences of requests\<close>

text \<open>The requests that can change something, each served as a whole.\<close>

datatype admin_request =
    Toggle bool request console_caller string bool
  | Propose real request console_caller string
  | Approve real request console_caller nat
  | Reject real request console_caller nat string
  | NewAccount real request console_caller string string string
  | ChangeAccount real request console_caller nat "string option" "string option"
  | NewPassword real request console_caller nat string
  | MapGroup real request console_caller string string
  | UnmapGroup request console_caller string
  | Arm bool real request console_caller string string
  | BreakglassLogin bool real string string string string
  | LocalLogin bool real string string string string

fun serve_admin :: "admin_runtime \<Rightarrow> admin_request \<Rightarrow> admin_state \<Rightarrow> admin_state" where
  "serve_admin rt (Toggle stored rq c name enabled) st = fst (set_engine_enabled_endpoint rt stored rq c name enabled st)"
| "serve_admin rt (Propose now rq c y) st = fst (propose_policy_endpoint rt now rq c y st)"
| "serve_admin rt (Approve now rq c pid) st = fst (approve_policy_endpoint rt now rq c pid st)"
| "serve_admin rt (Reject now rq c pid why) st = fst (reject_policy_endpoint now rq c pid why st)"
| "serve_admin rt (NewAccount now rq c u role pw) st = fst (create_account_endpoint rt now rq c u role pw st)"
| "serve_admin rt (ChangeAccount now rq c i role status) st = fst (update_account_endpoint rt now rq c i role status st)"
| "serve_admin rt (NewPassword now rq c i pw) st = fst (reset_account_password_endpoint rt now rq c i pw st)"
| "serve_admin rt (MapGroup now rq c g role) st = fst (upsert_group_role_map_endpoint rt now rq c g role st)"
| "serve_admin rt (UnmapGroup rq c g) st = fst (delete_group_role_map_endpoint rt rq c g st)"
| "serve_admin rt (Arm stored now rq c second code) st = fst (activate_breakglass_endpoint rt stored now rq c second code st)"
| "serve_admin rt (BreakglassLogin stored now token csrf cred code) st = fst (login_breakglass rt stored now token csrf cred code st)"
| "serve_admin rt (LocalLogin stored now token csrf u pw) st = fst (login_local rt stored now token csrf u pw st)"

text \<open>Who a request comes from; a login has no caller yet.\<close>

fun asker :: "admin_request \<Rightarrow> (request \<times> console_caller) option" where
  "asker (Toggle stored rq c name enabled) = Some (rq, c)"
| "asker (Propose now rq c y) = Some (rq, c)"
| "asker (Approve now rq c pid) = Some (rq, c)"
| "asker (Reject now rq c pid why) = Some (rq, c)"
| "asker (NewAccount now rq c u role pw) = Some (rq, c)"
| "asker (ChangeAccount now rq c i role status) = Some (rq, c)"
| "asker (NewPassword now rq c i pw) = Some (rq, c)"
| "asker (MapGroup now rq c g role) = Some (rq, c)"
| "asker (UnmapGroup rq c g) = Some (rq, c)"
| "asker (Arm stored now rq c second code) = Some (rq, c)"
| "asker (BreakglassLogin stored now token csrf cred code) = None"
| "asker (LocalLogin stored now token csrf u pw) = None"

definition may_administer :: "request \<times> console_caller \<Rightarrow> bool" where
  "may_administer = (\<lambda>(rq, c). require_csrf rq = Inr () \<and> has_role (cn_session c) [''admin''])"

lemma write_route_refused: "\<not> may_administer (rq, c) \<Longrightarrow> fst (write_route [''admin''] valid configured rq c body st) = st"
  using write_route_cases [of "[''admin'']" valid configured rq c body st] by (auto simp: may_administer_def)

lemma refused_request: "asker q = Some who \<Longrightarrow> \<not> may_administer who \<Longrightarrow> serve_admin rt q st = st"
  by (cases q) (auto simp: write_route_refused set_engine_enabled_endpoint_def propose_policy_endpoint_def approve_policy_endpoint_def
      reject_policy_endpoint_def create_account_endpoint_def update_account_endpoint_def reset_account_password_endpoint_def
      upsert_group_role_map_endpoint_def delete_group_role_map_endpoint_def activate_breakglass_endpoint_def)

text \<open>What a law needs to survive a writing route: that the body keeps it.\<close>

lemma write_route_keeps: "P st \<Longrightarrow> P (fst (body st)) \<Longrightarrow> P (fst (write_route roles valid configured rq c body st))"
  using write_route_cases [of roles valid configured rq c body st] by auto

lemma audited_fst [simp]:
  "as_redis (fst (audited stored e a st)) = as_redis st" "as_disabled (fst (audited stored e a st)) = as_disabled st"
  "as_policy (fst (audited stored e a st)) = as_policy st" "as_admin (fst (audited stored e a st)) = as_admin st"
  "as_group_role_map (fst (audited stored e a st)) = as_group_role_map st"
  "gd_proposals (as_gate (fst (audited stored e a st))) = gd_proposals (as_gate st)"
  by (simp_all add: audited_def)

subsection \<open>Laws\<close>

definition engines_law :: "admin_runtime \<Rightarrow> admin_state \<Rightarrow> bool" where
  "engines_law rt st \<longleftrightarrow> as_disabled st \<inter> floor_engine_names = {} \<and> as_disabled st \<subseteq> known_engine_names (at_engine_metadatas rt)"

definition groups_law :: "admin_state \<Rightarrow> bool" where
  "groups_law st \<longleftrightarrow> (\<forall>g. map_of (as_group_role_map st) g = map_option gr_role (map_of (am_mappings (as_admin st)) g)) \<and>
     (\<forall>g role. map_of (as_group_role_map st) g = Some role \<longrightarrow> role \<in> KNOWN_ROLES)"

definition accounts_law :: "admin_state \<Rightarrow> bool" where
  "accounts_law st \<longleftrightarrow> serial_ids (as_admin st) \<and> has_admin (as_admin st)"

lemma engines_law_frame: "as_disabled st' = as_disabled st \<Longrightarrow> engines_law rt st \<Longrightarrow> engines_law rt st'"
  by (simp add: engines_law_def)

lemma groups_law_frame:
  "as_group_role_map st' = as_group_role_map st \<Longrightarrow> am_mappings (as_admin st') = am_mappings (as_admin st) \<Longrightarrow> groups_law st \<Longrightarrow> groups_law st'"
  by (simp add: groups_law_def)

lemma accounts_law_frame:
  assumes "am_accounts (as_admin st') = am_accounts (as_admin st)" "accounts_law st"
  shows "accounts_law st'"
  using assms unfolding accounts_law_def serial_ids_def has_admin_def by metis

subsection \<open>What each request can change\<close>

definition with_intents :: "intent_row list \<Rightarrow> admin_state \<Rightarrow> admin_state" where
  "with_intents es st = st\<lparr>as_gate := (as_gate st)\<lparr>gd_intents := es\<rparr>\<rparr>"

lemma with_intents_simps [simp]:
  "as_redis (with_intents es st) = as_redis st" "as_disabled (with_intents es st) = as_disabled st"
  "as_policy (with_intents es st) = as_policy st" "as_admin (with_intents es st) = as_admin st"
  "as_group_role_map (with_intents es st) = as_group_role_map st" "gd_proposals (as_gate (with_intents es st)) = gd_proposals (as_gate st)"
  by (simp_all add: with_intents_def)

lemma audited_with: "\<exists>es. fst (audited stored e a st) = with_intents es st"
  by (cases stored) (auto simp: audited_def with_intents_def intro: exI [of _ "gd_intents (as_gate st)"])

text \<open>An effect of a route: nothing, or what its body does when it gets through.\<close>

lemma write_route_effect:
  assumes "fst (body st) = st \<or> P (fst (body st))"
  shows "fst (write_route roles valid configured rq c body st) = st \<or> P (fst (write_route roles valid configured rq c body st))"
  using assms by (intro write_route_keeps [where P = "\<lambda>st'. st' = st \<or> P st'"]) simp_all

lemma toggle_effect:
  "fst (set_engine_enabled_endpoint rt stored rq c name enabled st) = st \<or>
   (\<exists>disabled es. name \<in> known_engine_names (at_engine_metadatas rt) \<and> set_engine_enabled name enabled floor_engine_names (as_disabled st) = Inr disabled \<and>
      fst (set_engine_enabled_endpoint rt stored rq c name enabled st) = with_intents es (st\<lparr>as_disabled := disabled\<rparr>))"
  unfolding set_engine_enabled_endpoint_def
  by (rule write_route_effect [where P = "\<lambda>st'. \<exists>disabled es. name \<in> known_engine_names (at_engine_metadatas rt) \<and>
      set_engine_enabled name enabled floor_engine_names (as_disabled st) = Inr disabled \<and> st' = with_intents es (st\<lparr>as_disabled := disabled\<rparr>)"])
    (auto split: sum.split simp: audited_with)

lemma propose_effect:
  "fst (propose_policy_endpoint rt now rq c y st) = st \<or>
   (\<exists>p gdb. propose_policy (at_safe_load rt) now (cn_subject c) y (as_gate st, as_policy st) = Inr (Inr (p, gdb)) \<and>
      fst (propose_policy_endpoint rt now rq c y st) = st\<lparr>as_gate := gdb\<rparr>)"
  unfolding propose_policy_endpoint_def
  by (rule write_route_effect [where P = "\<lambda>st'. \<exists>p gdb. propose_policy (at_safe_load rt) now (cn_subject c) y (as_gate st, as_policy st) = Inr (Inr (p, gdb)) \<and>
      st' = st\<lparr>as_gate := gdb\<rparr>"]) (auto split: sum.split)

lemma approve_effect:
  "fst (approve_policy_endpoint rt now rq c pid st) = st \<or>
   (\<exists>p gdb gdb' policy. map_of (gd_proposals (as_gate st)) pid = Some p \<and> approve_policy_proposal (as_gate st) now (pid, p) (cn_subject c) = Inr gdb \<and>
      (gdb' = gdb \<and> policy = as_policy st \<or>
       (\<exists>applied. promote_approved_policy (at_safe_load rt) (engine_names_of rt) pid (gdb, as_policy st) = Inr ((gdb', policy), applied))) \<and>
      fst (approve_policy_endpoint rt now rq c pid st) = st\<lparr>as_gate := gdb', as_policy := policy\<rparr>)"
  unfolding approve_policy_endpoint_def
  by (rule write_route_effect [where P = "\<lambda>st'. \<exists>p gdb gdb' policy. map_of (gd_proposals (as_gate st)) pid = Some p \<and>
      approve_policy_proposal (as_gate st) now (pid, p) (cn_subject c) = Inr gdb \<and>
      (gdb' = gdb \<and> policy = as_policy st \<or>
       (\<exists>applied. promote_approved_policy (at_safe_load rt) (engine_names_of rt) pid (gdb, as_policy st) = Inr ((gdb', policy), applied))) \<and>
      st' = st\<lparr>as_gate := gdb', as_policy := policy\<rparr>"]) (auto split: sum.split option.split)

lemma reject_effect:
  "fst (reject_policy_endpoint now rq c pid why st) = st \<or>
   (\<exists>gdb. reject_policy now pid (cn_subject c) why (as_gate st) = Inr gdb \<and> fst (reject_policy_endpoint now rq c pid why st) = st\<lparr>as_gate := gdb\<rparr>)"
  unfolding reject_policy_endpoint_def
  by (rule write_route_effect [where P = "\<lambda>st'. \<exists>gdb. reject_policy now pid (cn_subject c) why (as_gate st) = Inr gdb \<and> st' = st\<lparr>as_gate := gdb\<rparr>"])
    (auto split: sum.split)

text \<open>The three account routes are steps of the account service.\<close>

definition account_effect :: "admin_runtime \<Rightarrow> admin_state \<Rightarrow> admin_state \<Rightarrow> bool" where
  "account_effect rt st st' \<longleftrightarrow> (\<exists>now op. st' = st\<lparr>as_admin := account_step (at_hash_password rt) KNOWN_ROLES (now, op) (as_admin st)\<rparr> \<and>
     am_mappings (as_admin st') = am_mappings (as_admin st))"

lemma account_effectI:
  assumes "account_step (at_hash_password rt) KNOWN_ROLES (now, op) (as_admin st) = db" "am_mappings db = am_mappings (as_admin st)"
  shows "account_effect rt st (st\<lparr>as_admin := db\<rparr>)"
  unfolding account_effect_def using assms by (intro exI [of _ now] exI [of _ op]) simp

lemma new_account_effect:
  "fst (create_account_endpoint rt now rq c u role pw st) = st \<or> account_effect rt st (fst (create_account_endpoint rt now rq c u role pw st))"
proof -
  have "am_mappings db = am_mappings (as_admin st)"
    if "create_account (at_hash_password rt) now u role pw (cn_subject c) KNOWN_ROLES (as_admin st) = Inr (row, db)" for row db
    using that by (auto simp: create_account_def res_bind_eq_Inr Let_def)
  then show ?thesis unfolding create_account_endpoint_def
    by (intro write_route_effect)
      (auto split: sum.split intro!: account_effectI [where now = now and op = "CreateAccount u role pw (cn_subject c)"] simp: account_step_def)
qed

lemma change_account_effect:
  "fst (update_account_endpoint rt now rq c i role status st) = st \<or> account_effect rt st (fst (update_account_endpoint rt now rq c i role status st))"
proof -
  have "am_mappings db = am_mappings (as_admin st)"
    if "set_account_role_status now i role status (cn_subject c) KNOWN_ROLES (as_admin st) (as_admin st) = Inr (row, db)" for row db
    using that by (auto simp: set_account_role_status_def res_bind_eq_Inr Let_def split: option.splits if_splits)
  then show ?thesis unfolding update_account_endpoint_def
    by (intro write_route_effect)
      (auto split: sum.split intro!: account_effectI [where now = now and op = "SetRoleStatus i role status (cn_subject c)"] simp: account_step_def)
qed

lemma new_password_effect:
  "fst (reset_account_password_endpoint rt now rq c i pw st) = st \<or> account_effect rt st (fst (reset_account_password_endpoint rt now rq c i pw st))"
proof -
  have "am_mappings db = am_mappings (as_admin st)"
    if "reset_password (at_hash_password rt) now i pw (cn_subject c) (as_admin st) = Inr db" for db
    using that by (auto simp: reset_password_def res_bind_eq_Inr split: option.splits)
  then show ?thesis unfolding reset_account_password_endpoint_def
    by (intro write_route_effect)
      (auto split: sum.split intro!: account_effectI [where now = now and op = "ResetPassword i pw (cn_subject c)"] simp: account_step_def)
qed

lemma map_group_effect:
  "fst (upsert_group_role_map_endpoint rt now rq c g role st) = st \<or>
   (\<exists>st'. commit_mapping now g role (cn_subject c) st = Inr st' \<and> fst (upsert_group_role_map_endpoint rt now rq c g role st) = apply_mapping g role st')"
  unfolding upsert_group_role_map_endpoint_def
  by (rule write_route_effect [where P = "\<lambda>x. \<exists>st'. commit_mapping now g role (cn_subject c) st = Inr st' \<and> x = apply_mapping g role st'"])
    (auto split: sum.split)

lemma unmap_group_effect:
  "fst (delete_group_role_map_endpoint rt rq c g st) = st \<or>
   (\<exists>st'. commit_removal g (cn_subject c) st = Inr st' \<and> fst (delete_group_role_map_endpoint rt rq c g st) = apply_removal g st')"
  unfolding delete_group_role_map_endpoint_def
  by (rule write_route_effect [where P = "\<lambda>x. \<exists>st'. commit_removal g (cn_subject c) st = Inr st' \<and> x = apply_removal g st'"])
    (auto split: sum.split)

text \<open>The logins and the activation touch the shared store and the audit trail only.\<close>

definition store_effect :: "admin_state \<Rightarrow> admin_state \<Rightarrow> bool" where
  "store_effect st st' \<longleftrightarrow> (\<exists>r es. st' = with_intents es (st\<lparr>as_redis := r\<rparr>))"

lemma store_effect_audited: "store_effect st (fst (audited stored e a (st\<lparr>as_redis := r\<rparr>)))"
  using audited_with [of stored e a "st\<lparr>as_redis := r\<rparr>"] by (auto simp: store_effect_def)

lemma store_effect_redis: "store_effect st (st\<lparr>as_redis := r\<rparr>)"
  unfolding store_effect_def by (intro exI [of _ r] exI [of _ "gd_intents (as_gate st)"]) (simp add: with_intents_def)

lemma arm_effect:
  "fst (activate_breakglass_endpoint rt stored now rq c second code st) = st \<or>
   store_effect st (fst (activate_breakglass_endpoint rt stored now rq c second code st))"
  unfolding activate_breakglass_endpoint_def
  by (rule write_route_effect) (auto split: sum.split option.split simp: store_effect_audited)

lemma breakglass_login_effect: "fst (login_breakglass rt stored now token csrf cred code st) = st \<or> store_effect st (fst (login_breakglass rt stored now token csrf cred code st))"
  by (auto simp: login_breakglass_def store_effect_audited store_effect_redis split: option.split sum.split prod.split)

lemma local_login_effect: "fst (login_local rt stored now token csrf u pw st) = st \<or> store_effect st (fst (login_local rt stored now token csrf u pw st))"
  by (auto simp: login_local_def store_effect_audited store_effect_redis split: option.split sum.split prod.split)

lemmas serve_effects = toggle_effect propose_effect approve_effect reject_effect new_account_effect change_account_effect
  new_password_effect map_group_effect unmap_group_effect arm_effect breakglass_login_effect local_login_effect

lemma serve_cases:
  obtains (none) "serve_admin rt q st = st"
  | (engines) name enabled disabled es where "name \<in> known_engine_names (at_engine_metadatas rt)"
      "set_engine_enabled name enabled floor_engine_names (as_disabled st) = Inr disabled"
      "serve_admin rt q st = with_intents es (st\<lparr>as_disabled := disabled\<rparr>)"
  | (policy) gdb policy where "serve_admin rt q st = st\<lparr>as_gate := gdb, as_policy := policy\<rparr>"
  | (accounts) "account_effect rt st (serve_admin rt q st)"
  | (mapped) now g role who st' where "commit_mapping now g role who st = Inr st'" "serve_admin rt q st = apply_mapping g role st'"
  | (unmapped) g who st' where "commit_removal g who st = Inr st'" "serve_admin rt q st = apply_removal g st'"
  | (store) "store_effect st (serve_admin rt q st)"
proof (cases q)
  case (Toggle stored rq c name enabled)
  then show ?thesis using toggle_effect [of rt stored rq c name enabled st] none engines by auto
next
  case (Propose now rq c y)
  then show ?thesis using propose_effect [of rt now rq c y st] none policy [where policy = "as_policy st"] by auto
next
  case (Approve now rq c pid)
  then show ?thesis using approve_effect [of rt now rq c pid st] none policy by auto
next
  case (Reject now rq c pid why)
  then show ?thesis using reject_effect [of now rq c pid why st] none policy [where policy = "as_policy st"] by auto
next
  case (NewAccount now rq c u role pw)
  then show ?thesis using new_account_effect [of rt now rq c u role pw st] none accounts by auto
next
  case (ChangeAccount now rq c i role status)
  then show ?thesis using change_account_effect [of rt now rq c i role status st] none accounts by auto
next
  case (NewPassword now rq c i pw)
  then show ?thesis using new_password_effect [of rt now rq c i pw st] none accounts by auto
next
  case (MapGroup now rq c g role)
  then show ?thesis using map_group_effect [of rt now rq c g role st] none mapped by auto
next
  case (UnmapGroup rq c g)
  then show ?thesis using unmap_group_effect [of rt rq c g st] none unmapped by auto
next
  case (Arm stored now rq c second code)
  then show ?thesis using arm_effect [of rt stored now rq c second code st] none store by auto
next
  case (BreakglassLogin stored now token csrf cred code)
  then show ?thesis using breakglass_login_effect [of rt stored now token csrf cred code st] none store by auto
next
  case (LocalLogin stored now token csrf u pw)
  then show ?thesis using local_login_effect [of rt stored now token csrf u pw st] none store by auto
qed

lemma map_of_removed: "map_of (filter (\<lambda>(k, v). k \<noteq> g) xs) h = (if h = g then None else map_of xs h)"
  by (induction xs) auto

lemma commit_mapping_Inr:
  assumes "commit_mapping now g role who st = Inr st'"
  obtains row es where "gr_role row = role" "role \<in> KNOWN_ROLES"
    "st' = st\<lparr>as_admin := (as_admin st)\<lparr>am_mappings := dict_put g row (am_mappings (as_admin st)), am_intents := es\<rparr>\<rparr>"
proof -
  let ?row = "\<lparr>gr_role = role, gr_updated_by = who, gr_updated_at = now\<rparr>"
  obtain db where db: "upsert_group_role_mapping now g role who KNOWN_ROLES (as_admin st) = Inr db" "st' = st\<lparr>as_admin := db\<rparr>"
    using assms by (auto simp: commit_mapping_def res_bind_eq_Inr)
  have "db = (as_admin st)\<lparr>am_mappings := dict_put g ?row (am_mappings (as_admin st)), am_intents := am_intents db\<rparr>" "role \<in> KNOWN_ROLES"
    using db(1) by (auto simp: upsert_group_role_mapping_def validate_role_def res_bind_eq_Inr raise_if_def split: if_splits)
  then show ?thesis using that [of ?row "am_intents db"] db(2) by simp
qed

lemma commit_removal_Inr:
  assumes "commit_removal g who st = Inr st'"
  obtains es where "st' = st\<lparr>as_admin := (as_admin st)\<lparr>am_mappings := filter (\<lambda>(h, r). h \<noteq> g) (am_mappings (as_admin st)), am_intents := es\<rparr>\<rparr>"
  using assms unfolding commit_removal_def delete_group_role_mapping_def by (auto simp: res_bind_eq_Inr split: option.splits)

definition admin_law :: "admin_runtime \<Rightarrow> admin_state \<Rightarrow> bool" where
  "admin_law rt st \<longleftrightarrow> engines_law rt st \<and> groups_law st \<and> accounts_law st"

lemma set_engine_enabled_keeps:
  assumes "set_engine_enabled name enabled required disabled = Inr disabled'" "disabled \<inter> required = {}" "disabled \<subseteq> known" "name \<in> known"
  shows "disabled' \<inter> required = {} \<and> disabled' \<subseteq> known"
  using assms by (auto simp: set_engine_enabled_def res_bind_eq_Inr is_disableable_def raise_if_def split: if_splits)

lemma serve_keeps_law:
  assumes "admin_law rt st"
  shows "admin_law rt (serve_admin rt q st)"
proof -
  have e: "engines_law rt st" and g: "groups_law st" and a: "accounts_law st" using assms by (simp_all add: admin_law_def)
  show ?thesis
  proof (cases rule: serve_cases [of rt q st])
    case (engines name enabled disabled es)
    have "engines_law rt (serve_admin rt q st)" unfolding engines(3) engines_law_def
      using set_engine_enabled_keeps [OF engines(2) _ _ engines(1)] e by (simp add: engines_law_def)
    moreover have "groups_law (serve_admin rt q st)" unfolding engines(3) by (rule groups_law_frame [OF _ _ g]) simp_all
    moreover have "accounts_law (serve_admin rt q st)" unfolding engines(3) by (rule accounts_law_frame [OF _ a]) simp
    ultimately show ?thesis by (simp add: admin_law_def)
  next
    case (policy gdb p)
    have "engines_law rt (serve_admin rt q st)" unfolding policy by (rule engines_law_frame [OF _ e]) simp
    moreover have "groups_law (serve_admin rt q st)" unfolding policy by (rule groups_law_frame [OF _ _ g]) simp_all
    moreover have "accounts_law (serve_admin rt q st)" unfolding policy by (rule accounts_law_frame [OF _ a]) simp
    ultimately show ?thesis by (simp add: admin_law_def)
  next
    case accounts
    then obtain now op where step: "serve_admin rt q st = st\<lparr>as_admin := account_step (at_hash_password rt) KNOWN_ROLES (now, op) (as_admin st)\<rparr>"
      "am_mappings (as_admin (serve_admin rt q st)) = am_mappings (as_admin st)" unfolding account_effect_def by blast
    have "engines_law rt (serve_admin rt q st)" by (rule engines_law_frame [OF _ e]) (simp add: step(1))
    moreover have "groups_law (serve_admin rt q st)" by (rule groups_law_frame [OF _ step(2) g]) (simp add: step(1))
    moreover have "accounts_law (serve_admin rt q st)"
      using account_step_keeps [of "as_admin st" "at_hash_password rt" KNOWN_ROLES now op] a by (simp add: accounts_law_def step(1))
    ultimately show ?thesis by (simp add: admin_law_def)
  next
    case (mapped now h role who st')
    from mapped(1) obtain row es where m: "gr_role row = role" "role \<in> KNOWN_ROLES"
      "st' = st\<lparr>as_admin := (as_admin st)\<lparr>am_mappings := dict_put h row (am_mappings (as_admin st)), am_intents := es\<rparr>\<rparr>"
      by (rule commit_mapping_Inr)
    have "engines_law rt (serve_admin rt q st)" by (rule engines_law_frame [OF _ e]) (simp add: mapped(2) m(3) apply_mapping_def)
    moreover have "groups_law (serve_admin rt q st)"
      using g m(1,2) by (auto simp: groups_law_def mapped(2) m(3) apply_mapping_def update_conv split: if_splits)
    moreover have "accounts_law (serve_admin rt q st)" by (rule accounts_law_frame [OF _ a]) (simp add: mapped(2) m(3) apply_mapping_def)
    ultimately show ?thesis by (simp add: admin_law_def)
  next
    case (unmapped h who st')
    from unmapped(1) obtain es where m:
      "st' = st\<lparr>as_admin := (as_admin st)\<lparr>am_mappings := filter (\<lambda>(k, r). k \<noteq> h) (am_mappings (as_admin st)), am_intents := es\<rparr>\<rparr>"
      by (rule commit_removal_Inr)
    have "engines_law rt (serve_admin rt q st)" by (rule engines_law_frame [OF _ e]) (simp add: unmapped(2) m apply_removal_def)
    moreover have "groups_law (serve_admin rt q st)"
      using g by (auto simp: groups_law_def unmapped(2) m apply_removal_def map_of_removed split: if_splits)
    moreover have "accounts_law (serve_admin rt q st)" by (rule accounts_law_frame [OF _ a]) (simp add: unmapped(2) m apply_removal_def)
    ultimately show ?thesis by (simp add: admin_law_def)
  next
    case store
    then obtain r es where st: "serve_admin rt q st = with_intents es (st\<lparr>as_redis := r\<rparr>)" unfolding store_effect_def by blast
    have "engines_law rt (serve_admin rt q st)" by (rule engines_law_frame [OF _ e]) (simp add: st)
    moreover have "groups_law (serve_admin rt q st)" by (rule groups_law_frame [OF _ _ g]) (simp_all add: st)
    moreover have "accounts_law (serve_admin rt q st)" by (rule accounts_law_frame [OF _ a]) (simp add: st)
    ultimately show ?thesis by (simp add: admin_law_def)
  qed (use assms in simp)
qed


section \<open>Policy changes that wait forever\<close>

lemma propose_policy_appends:
  "propose_policy ld now who y (gdb, pol) = Inr (Inr ((pid, row), gdb')) \<Longrightarrow>
     gd_proposals gdb' = gd_proposals gdb @ [(pid, row)] \<and>
     (\<not> pp_changes_hard_gate_rules row \<longrightarrow> pp_status row = ''approved'' \<and> pp_approved_by row = Some (pp_proposed_by row))"
  by (auto simp: propose_policy_def propose_policy_change_def res_bind_eq_Inr Let_def split: sum.splits if_splits)

lemma approve_pending: "approve_policy_proposal gdb now (pid, p) who = Inr gdb' \<Longrightarrow> pp_status p = ''pending'' \<and> (\<exists>p'. gd_proposals gdb' = dict_put pid p' (gd_proposals gdb))"
  by (auto simp: approve_policy_proposal_def res_bind_eq_Inr raise_if_def split: if_splits)

lemma promote_touches:
  "promote_approved_policy ld av pid (gdb, pol) = Inr ((gdb', pol'), ok) \<Longrightarrow> gd_proposals gdb' = gd_proposals gdb \<or> (\<exists>p'. gd_proposals gdb' = dict_put pid p' (gd_proposals gdb))"
  by (erule promote_InrE) auto

lemma reject_pending:
  "reject_policy now pid who why gdb = Inr gdb' \<Longrightarrow> \<exists>p p'. map_of (gd_proposals gdb) pid = Some p \<and> pp_status p = ''pending'' \<and> gd_proposals gdb' = dict_put pid p' (gd_proposals gdb)"
  by (auto simp: reject_policy_def reject_policy_proposal_def res_bind_eq_Inr raise_if_def split: option.splits sum.splits if_splits)

lemma decided_proposal_stays:
  assumes "map_of (gd_proposals (as_gate st)) pid = Some row" "pp_status row \<noteq> ''pending''"
  shows "map_of (gd_proposals (as_gate (serve_admin rt q st))) pid = Some row"
proof -
  have put: "map_of (dict_put k p' (gd_proposals gdb)) pid = Some row"
    if "map_of (gd_proposals (as_gate st)) k = Some p" "pp_status p = ''pending''" "map_of (gd_proposals gdb) pid = Some row" for k p p' gdb
  proof -
    have "k \<noteq> pid" using that(1,2) assms by auto
    then show ?thesis using that(3) by (simp add: update_conv)
  qed
  have same: "gd_proposals (as_gate (serve_admin rt q st)) = gd_proposals (as_gate st) \<Longrightarrow> ?thesis" using assms(1) by simp
  have acc: "account_effect rt st st' \<Longrightarrow> gd_proposals (as_gate st') = gd_proposals (as_gate st)" for st' by (auto simp: account_effect_def)
  have sto: "store_effect st st' \<Longrightarrow> gd_proposals (as_gate st') = gd_proposals (as_gate st)" for st' by (auto simp: store_effect_def)
  show ?thesis
  proof (cases q)
    case (Toggle stored rq c name enabled)
    then show ?thesis using toggle_effect [of rt stored rq c name enabled st] by (intro same) auto
  next
    case (Propose now rq c y)
    then show ?thesis using propose_effect [of rt now rq c y st] assms(1) by (auto dest!: propose_policy_appends)
  next
    case (Approve now rq c k)
    then show ?thesis using approve_effect [of rt now rq c k st] assms(1)
      by (auto dest!: approve_pending promote_touches simp: put)
  next
    case (Reject now rq c k why)
    then show ?thesis using reject_effect [of now rq c k why st] assms(1) by (auto dest!: reject_pending simp: put)
  next
    case (NewAccount now rq c u role pw)
    then show ?thesis using new_account_effect [of rt now rq c u role pw st] acc by (intro same) auto
  next
    case (ChangeAccount now rq c i role status)
    then show ?thesis using change_account_effect [of rt now rq c i role status st] acc by (intro same) auto
  next
    case (NewPassword now rq c i pw)
    then show ?thesis using new_password_effect [of rt now rq c i pw st] acc by (intro same) auto
  next
    case (MapGroup now rq c g role)
    then show ?thesis using map_group_effect [of rt now rq c g role st]
      by (intro same) (auto elim!: commit_mapping_Inr simp: apply_mapping_def)
  next
    case (UnmapGroup rq c g)
    then show ?thesis using unmap_group_effect [of rt rq c g st]
      by (intro same) (auto elim!: commit_removal_Inr simp: apply_removal_def)
  next
    case (Arm stored now rq c second code)
    then show ?thesis using arm_effect [of rt stored now rq c second code st] sto by (intro same) auto
  next
    case (BreakglassLogin stored now token csrf cred code)
    then show ?thesis using breakglass_login_effect [of rt stored now token csrf cred code st] sto by (intro same) auto
  next
    case (LocalLogin stored now token csrf u pw)
    then show ?thesis using local_login_effect [of rt stored now token csrf u pw st] sto by (intro same) auto
  qed
qed

lemma propose_Answer:
  assumes "propose_policy_endpoint rt now rq c y st = (st1, Answer p)"
  obtains gdb where "propose_policy (at_safe_load rt) now (cn_subject c) y (as_gate st, as_policy st) = Inr (Inr (p, gdb))" "st1 = st\<lparr>as_gate := gdb\<rparr>"
proof -
  let ?body = "\<lambda>st. case propose_policy (at_safe_load rt) now (cn_subject c) y (as_gate st, as_policy st) of
       Inl status \<Rightarrow> (st, Refused status)
     | Inr (Inl e) \<Rightarrow> (st, Crashed e)
     | Inr (Inr (proposal, gdb)) \<Rightarrow> (st\<lparr>as_gate := gdb\<rparr>, Answer proposal)"
  have "?body st = (st1, Answer p)"
    using write_route_cases [of "[''admin'']" True True rq c ?body st] assms unfolding propose_policy_endpoint_def by (elim disjE) simp_all
  then show ?thesis using that by (auto split: sum.splits)
qed

lemma decided_proposal_refused:
  assumes "map_of (gd_proposals (as_gate st)) pid = Some row" "pp_status row \<noteq> ''pending''"
  shows "snd (approve_policy_endpoint rt now rq c pid st) \<noteq> Answer a"
proof -
  have no: "approve_policy_proposal (as_gate st) now (pid, row) (cn_subject c) = Inl PolicyProposalError"
    using assms(2) by (simp add: approve_policy_proposal_def raise_if_def)
  show ?thesis unfolding approve_policy_endpoint_def write_route_def role_route_def
    by (cases "require_csrf rq"; cases "require_role [''admin''] (cn_session c)") (simp_all add: assms(1) no)
qed

text \<open>Note: A policy change that leaves the hard gates alone never takes effect. The route records it as approved by its
  proposer and leaves the running policy as it is; whatever requests follow, the row stays approved, so no
  replica ever loads it, and an administrator who tries to approve it is refused.\<close>

theorem minor_policy_change_never_applies:
  assumes "propose_policy_endpoint rt now rq caller policy_yaml st = (st1, Answer (pid, row))" "\<not> pp_changes_hard_gate_rules row"
    and "pid \<notin> fst ` set (gd_proposals (as_gate st))"
  shows "as_policy st1 = as_policy st \<and> pp_status row = ''approved'' \<and> pp_approved_by row = Some (pp_proposed_by row) \<and>
    map_of (gd_proposals (as_gate (fold (serve_admin rt) qs st1))) pid = Some row \<and>
    (\<forall>now rq caller a. snd (approve_policy_endpoint rt now rq caller pid (fold (serve_admin rt) qs st1)) \<noteq> Answer a)"
proof -
  obtain gdb where p: "propose_policy (at_safe_load rt) now (cn_subject caller) policy_yaml (as_gate st, as_policy st) = Inr (Inr ((pid, row), gdb))"
    "st1 = st\<lparr>as_gate := gdb\<rparr>"
    using assms(1) by (rule propose_Answer)
  have row: "pp_status row = ''approved''" "pp_approved_by row = Some (pp_proposed_by row)" and ps: "gd_proposals gdb = gd_proposals (as_gate st) @ [(pid, row)]"
    using propose_policy_appends [OF p(1)] assms(2) by simp_all
  have "map_of (gd_proposals (as_gate st)) pid = None" using assms(3) by (simp add: map_of_eq_None_iff)
  then have start: "map_of (gd_proposals (as_gate st1)) pid = Some row" by (simp add: p(2) ps map_add_Some_iff)
  have stays: "map_of (gd_proposals (as_gate (fold (serve_admin rt) qs st1))) pid = Some row"
    using start by (induction qs arbitrary: st1) (simp_all add: decided_proposal_stays row(1))
  have "snd (approve_policy_endpoint rt t r c pid (fold (serve_admin rt) qs st1)) \<noteq> Answer a" for t r c a
    using stays by (rule decided_proposal_refused) (simp add: row(1))
  moreover have "as_policy st1 = as_policy st" by (simp add: p(2))
  ultimately show ?thesis using row stays by blast
qed

section \<open>Logins\<close>

lemma authenticate_local_Some:
  assumes "authenticate_local verify store now u pw r = Inr (r', Some account)"
  shows "account \<in> set (fetch_accounts store) \<and> la_username account = u \<and> verify pw (la_password_hash account)"
  using assms by (auto simp: authenticate_local_def res_bind_eq_Inr find_Some_iff split: prod.splits if_splits option.splits)

lemma login_local_Answer:
  assumes "login_local rt stored now token csrf u pw st = (st', Answer cookies)"
  obtains account r where "account \<in> set (fetch_accounts (am_accounts (as_admin st)))" "la_username account = u"
    "at_verify_password rt pw (la_password_hash account)"
    "cookies = [(LOCAL_SESSION_COOKIE_NAME, token, at_local_session_ttl_s rt), (CSRF_COOKIE_NAME, csrf, of_int CSRF_COOKIE_MAX_AGE_S)]"
    "as_redis st' = create_local_session (at_codec rt) now (at_local_session_ttl_s rt) u (la_role account) token r"
    "as_admin st' = as_admin st" "gd_intents (as_gate st') = gd_intents (as_gate st) @
       [\<lparr>ai_operator = u, ai_action = ''local_login'', ai_payload = [(''role'', PStr (la_role account))]\<rparr>]"
proof -
  let ?auth = "authenticate_local (at_verify_password rt) (am_accounts (as_admin st)) now u pw (as_redis st)"
  obtain r account where a: "?auth = Inr (r, Some account)"
    using assms by (auto simp: login_local_def split: if_splits sum.splits option.splits)
  have "la_username account = u" "account \<in> set (fetch_accounts (am_accounts (as_admin st)))" "at_verify_password rt pw (la_password_hash account)"
    using authenticate_local_Some [OF a] by simp_all
  moreover have "(st', Answer cookies) = audited stored \<lparr>ai_operator = u, ai_action = ''local_login'', ai_payload = [(''role'', PStr (la_role account))]\<rparr>
      [(LOCAL_SESSION_COOKIE_NAME, token, at_local_session_ttl_s rt), (CSRF_COOKIE_NAME, csrf, of_int CSRF_COOKIE_MAX_AGE_S)]
      (st\<lparr>as_redis := create_local_session (at_codec rt) now (at_local_session_ttl_s rt) u (la_role account) token r\<rparr>)"
    using assms calculation(1) by (simp add: login_local_def a split: if_splits)
  ultimately show ?thesis using that by (simp add: audited_def split: if_splits)
qed

text \<open>Requests that leave the shared store alone.\<close>

fun leaves_store :: "admin_request \<Rightarrow> bool" where
  "leaves_store (Arm stored now rq c second code) = False"
| "leaves_store (BreakglassLogin stored now token csrf cred code) = False"
| "leaves_store (LocalLogin stored now token csrf u pw) = False"
| "leaves_store q = True"

lemma leaves_store_redis:
  assumes "leaves_store q"
  shows "as_redis (serve_admin rt q st) = as_redis st"
proof -
  have acc: "account_effect rt st st' \<Longrightarrow> as_redis st' = as_redis st" for st' by (auto simp: account_effect_def)
  show ?thesis
  proof (cases q)
    case (Toggle stored rq c name enabled)
    then show ?thesis using toggle_effect [of rt stored rq c name enabled st] by auto
  next
    case (Propose now rq c y)
    then show ?thesis using propose_effect [of rt now rq c y st] by auto
  next
    case (Approve now rq c pid)
    then show ?thesis using approve_effect [of rt now rq c pid st] by auto
  next
    case (Reject now rq c pid why)
    then show ?thesis using reject_effect [of now rq c pid why st] by auto
  next
    case (NewAccount now rq c u role pw)
    then show ?thesis using new_account_effect [of rt now rq c u role pw st] acc by auto
  next
    case (ChangeAccount now rq c i role status)
    then show ?thesis using change_account_effect [of rt now rq c i role status st] acc by auto
  next
    case (NewPassword now rq c i pw)
    then show ?thesis using new_password_effect [of rt now rq c i pw st] acc by auto
  next
    case (MapGroup now rq c g role)
    then show ?thesis using map_group_effect [of rt now rq c g role st] by (auto elim!: commit_mapping_Inr simp: apply_mapping_def)
  next
    case (UnmapGroup rq c g)
    then show ?thesis using unmap_group_effect [of rt rq c g st] by (auto elim!: commit_removal_Inr simp: apply_removal_def)
  qed (use assms in simp_all)
qed

text \<open>Note: A local login gives the role of the account, and keeps it. If the route sets a session cookie, an active account of
  that name and password exists, an audit record names it, and every request with the cookie is resolved to this
  name with exactly the role the account had at the login until the session expires, whatever is done to
  accounts, groups, policies and engines in between: an account that is demoted, disabled or given
  another password keeps its open sessions.\<close>

theorem local_session_outlives_account:
  assumes "codec_ok (at_codec rt)" "login_local rt stored now token csrf u pw st = (st', Answer cookies)"
    and "ar_codec auth = at_codec rt" "ar_local_redis auth" "map_of (rq_cookies rq) LOCAL_SESSION_COOKIE_NAME = Some token"
    and "t < now + at_local_session_ttl_s rt" "list_all leaves_store qs"
  shows "\<exists>i account. (i, account) \<in> set (am_accounts (as_admin st)) \<and> la_username account = u \<and> la_status account = ''active'' \<and>
    at_verify_password rt pw (la_password_hash account) \<and> fst ` set cookies = {LOCAL_SESSION_COOKIE_NAME, CSRF_COOKIE_NAME} \<and>
    gd_intents (as_gate st') = gd_intents (as_gate st) @ [\<lparr>ai_operator = u, ai_action = ''local_login'', ai_payload = [(''role'', PStr (la_role account))]\<rparr>] \<and>
    resolve_local_session_context auth t rq (as_redis (fold (serve_admin rt) qs st')) = Inr (Some (console_session t (PStr u) {PStr (la_role account)}))"
  using assms(2)
proof (rule login_local_Answer)
  fix account r
  assume a: "account \<in> set (fetch_accounts (am_accounts (as_admin st)))" "la_username account = u" "at_verify_password rt pw (la_password_hash account)"
    "cookies = [(LOCAL_SESSION_COOKIE_NAME, token, at_local_session_ttl_s rt), (CSRF_COOKIE_NAME, csrf, of_int CSRF_COOKIE_MAX_AGE_S)]"
    "as_redis st' = create_local_session (at_codec rt) now (at_local_session_ttl_s rt) u (la_role account) token r"
    "gd_intents (as_gate st') = gd_intents (as_gate st) @ [\<lparr>ai_operator = u, ai_action = ''local_login'', ai_payload = [(''role'', PStr (la_role account))]\<rparr>]"
  obtain i where i: "(i, account) \<in> set (am_accounts (as_admin st))" "la_status account = ''active''"
    using a(1) by (auto simp: fetch_accounts_def)
  have "as_redis (fold (serve_admin rt) qs st') = as_redis st'" for st'
    using assms(7) by (induction qs arbitrary: st') (simp_all add: leaves_store_redis)
  then have "resolve_local_session_context auth t rq (as_redis (fold (serve_admin rt) qs st')) = Inr (Some (console_session t (PStr u) {PStr (la_role account)}))"
    using assms(1,3-6) by (simp add: resolve_local_session_context_def a(5) local_session_keeps_role)
  moreover have "fst ` set cookies = {LOCAL_SESSION_COOKIE_NAME, CSRF_COOKIE_NAME}" by (simp add: a(4))
  ultimately show ?thesis using i a(2,3,6) by blast
qed

section \<open>Arming the emergency access\<close>

text \<open>Note: Who can arm the break-glass access. The route arms it exactly when the request carries its token and comes from
  an administrator, the access is set up, the one-time code is right, nothing is armed, the audit record
  is stored, and the second activator named is a group mapped to the role of an administrator under another name
  than the caller's. No second person takes part.\<close>

theorem breakglass_armed_by_one_person:
  "(\<exists>w. snd (activate_breakglass_endpoint rt stored now rq c second code st) = Answer w) \<longleftrightarrow>
   may_administer (rq, c) \<and> at_breakglass_enabled rt \<and>
   (\<exists>credential secret. at_breakglass_credentials rt = Some (credential, Inr secret) \<and> at_verify_totp rt now secret code) \<and>
   second \<noteq> cn_subject c \<and> map_of (as_group_role_map st) second = Some ''admin'' \<and> \<not> is_armed now (as_redis st) \<and> stored"
proof (cases "may_administer (rq, c)")
  case True
  then have route: "write_route [''admin''] True True rq c body st = body st" for body :: "((string \<times> string) \<times> real) admin_handler"
    by (simp add: may_administer_def write_route_def role_route_def require_role_def)
  show ?thesis
  proof (cases "at_breakglass_credentials rt")
    case (Some p)
    obtain credential s where p: "p = (credential, s)" by (cases p)
    show ?thesis unfolding activate_breakglass_endpoint_def route Some p option.case prod.case
      using True by (cases s) (auto simp: activate_breakglass_def activation_guards_def res_bind_def raise_if_def known_admin_subjects_def audited_def)
  qed (simp add: activate_breakglass_endpoint_def route)
next
  case False
  then have "snd (write_route [''admin''] True True rq c body st) \<noteq> Answer w" for body :: "((string \<times> string) \<times> real) admin_handler" and w
    using write_route_cases [of "[''admin'']" True True rq c body st] by (auto simp: may_administer_def simp del: split_paired_All)
  then show ?thesis using False by (simp add: activate_breakglass_endpoint_def)
qed

section \<open>Overlapping edits of the mapping\<close>

text \<open>Note: The commit of an edit and its effect in memory are apart. When two edits of one group commit in one order and take
  effect in the other, the process resolves the group to a role that the table has taken away, until the next
  edit or restart.\<close>

theorem overlapping_edits_disagree:
  assumes "commit_mapping now g ''admin'' a st = Inr st1" "commit_removal g b st1 = Inr st2"
  shows "map_of (am_mappings (as_admin (apply_mapping g ''admin'' (apply_removal g st2)))) g = None \<and>
    map_of (as_group_role_map (apply_mapping g ''admin'' (apply_removal g st2))) g = Some ''admin''"
proof -
  from assms(2) obtain es where "st2 = st1\<lparr>as_admin := (as_admin st1)\<lparr>am_mappings := filter (\<lambda>(h, r). h \<noteq> g) (am_mappings (as_admin st1)), am_intents := es\<rparr>\<rparr>"
    by (rule commit_removal_Inr)
  then show ?thesis by (simp add: apply_mapping_def apply_removal_def map_of_removed update_conv)
qed

end
