(* ===== verification/Market_Samples.thy ===== *)
theory Market_Samples
  imports Marketplace_Api
begin

text \<open>
  Concrete runs of the marketplace endpoints and of the evidence behind a verdict: a package whose one required
  engine delivers no findings is submitted, scored and decided, and its owner polls it.
\<close>

section \<open>A clean scan\<close>

definition clean_dto :: engine_result_dto where
  "clean_dto = \<lparr>ro_engine = \<lparr>mo_name = ''static-keyword'', mo_version = ''1'', mo_ruleset_digest = ''d'', mo_capabilities = [CAP_STATIC],
     mo_requires_network = False, mo_requires_llm = False, mo_deterministic = True\<rparr>, ro_status = OK, ro_scan_mode = MODE_STATIC,
     ro_llm_used = False, ro_error = None, ro_analyze_duration_ms = Some 7, ro_findings = []\<rparr>"

definition clean_config :: "unit decide_config" where
  "clean_config = demo_config\<lparr>dc_reader := \<lparr>br_validate = (\<lambda>_. Some clean_dto), br_exc = (\<lambda>_. []), br_repr = id\<rparr>\<rparr>"

lemma clean_config_simps:
  "dc_policy clean_config = sample_policy" "dc_signer clean_config = token_signer" "dc_default_tier clean_config = INTERNAL"
  "dc_allowlist clean_config = []" "dc_additional clean_config = []" "dc_waited clean_config = []" "dc_operator clean_config = ''op''"
  "br_validate (dc_reader clean_config) = (\<lambda>_. Some clean_dto)"
  by (simp_all add: clean_config_def demo_config_def)

lemma clean_parse: "parse_engine_result_with_duration (\<lambda>_. Some clean_dto) () = Inr (sample_result [], Some 7)"
  by (simp add: parse_engine_result_with_duration_def clean_dto_def engine_metadata_post_init_def as_untrusted_def sample_result_def)

definition clean_health :: health_record where
  "clean_health = \<lparr>hc_engine_name = ''static-keyword'', hc_report_state = REPORTED, hc_engine_status = Some OK,
     hc_analyze_duration_ms = Some 7, hc_finding_count = Some 0, hc_error = None\<rparr>"

definition market_reported :: "unit system" where
  "market_reported = demo_system\<lparr>sy_blobs := (sy_blobs demo_system)(findings_key ''s1'' ''static-keyword'' \<mapsto> ())\<rparr>"

lemma market_reported_simps: "sy_orch market_reported = sy_orch demo_system" "sy_gate market_reported = sy_gate demo_system"
  by (simp_all add: market_reported_def)

lemma clean_load:
  "load_engine_result (dc_reader clean_config) (sy_blobs market_reported) ''s1'' ''static-keyword'' = Inr (sample_result [], clean_health)"
proof -
  have blob: "sy_blobs market_reported (findings_key ''s1'' ''static-keyword'') = Some ()" by (simp add: market_reported_def)
  have name: "em_name (er_engine (sample_result [])) = ''static-keyword''" by (simp add: sample_result_def)
  have rest: "er_status (sample_result []) = OK" "er_findings (sample_result []) = []" "er_error (sample_result []) = None"
    by (simp_all add: sample_result_def)
  show ?thesis unfolding load_engine_result_def Let_def blob option.case clean_config_simps clean_parse sum.case prod.case name rest
    by (simp add: health_record_post_init_def truncate_error_def clean_health_def)
qed

lemma clean_engines: "engine_set clean_config [''static-keyword''] = [''static-keyword'']"
  by (simp add: engine_set_def dict_fromkeys_def clean_config_simps)

definition clean_scan :: scan_result where
  "clean_scan = (sample_scan [])\<lparr>sr_content_hash := ''d'', sr_severity := NONE, sr_confidence_at_max := 0,
     sr_engine_provenance := [(''static-keyword'', ''1'', ''d'')]\<rparr>"

lemma clean_aggregate: "aggregate ''d'' [sample_result []] sample_policy 0 5000 = Inr clean_scan"
proof -
  have none: "all_findings [sample_result []] = []" "safe_results [sample_result []] = [sample_result []]" "usable (sample_result [])"
    by (simp_all add: all_findings_def safe_results_def sample_result_def usable_def)
  have dd: "dedup [] = Inr ([], {})" by (simp add: dedup_def)
  have ev: "evaluate_findings [] 0 h = (NONE, 0, False, [])" for h
    by (simp add: evaluate_findings_def counted_findings_def collect_signals_def ALL_TRIFECTA_SIGNALS_def py_max_def Let_def severity_order)
  show ?thesis unfolding aggregate_def Let_def none
    by (simp add: none dd ev clean_scan_def sample_defs usable_def counted_findings_def collect_signals_def ALL_TRIFECTA_SIGNALS_def py_max_def)
qed

lemma clean_passes: "vr_verdict (decide clean_scan sample_policy PUBLIC [] 1 0 None) = PASS"
  by (simp add: clean_scan_def sample_eval)

lemma clean_loads:
  "load_and_aggregate (dc_reader clean_config) (sy_blobs market_reported) ''s1'' (sj_content_hash demo_job)
     (engine_set clean_config [''static-keyword'']) (dc_policy clean_config) 0 5000 = Inr (clean_scan, [clean_health])"
proof -
  have "sj_content_hash demo_job = ''d''" by (simp add: demo_job_def)
  then show ?thesis unfolding clean_engines load_and_aggregate_def clean_config_simps by (simp add: clean_load clean_aggregate)
qed

lemma clean_decided:
  "\<exists>sy'. try_score_and_decide clean_config 1 market_reported ''s1'' [''static-keyword''] False = (sy', Inr True)"
proof -
  have es: "[] \<notin> set (engine_set clean_config [''static-keyword''])" by (simp add: clean_engines)
  have rep: "list_all (reported (sy_blobs market_reported) ''s1'') [''static-keyword'']"
    "False \<or> list_all (reported (sy_blobs market_reported) ''s1'') (dc_waited clean_config)"
    by (simp_all add: market_reported_def reported_def clean_config_simps)
  show ?thesis
    by (rule complete_scan_decided [where job = demo_job and tier = PUBLIC, OF _ _ rep clean_loads es])
      (use demo_ready demo_system_tables in \<open>simp_all add: market_reported_simps clean_config_simps demo_config_simps\<close>)
qed

text \<open>The system after the scan was decided.\<close>

lemma clean_outcome:
  obtains sy :: "unit system" and odb extra row where
    "score_transaction clean_config 1 (sy_orch market_reported) (sy_blobs market_reported) ''s1'' [''static-keyword''] False =
       Inr (Scored odb clean_scan (sj_trust_tier demo_job) extra)"
    "tx_reachable (sy, {#})" "od_jobs (sy_orch sy) = [(''s1'', demo_job\<lparr>sj_state := STATE_DECIDED\<rparr>)]"
    "od_results (sy_orch sy) = [(''s1'', result_row_of (dc_order clean_config) clean_scan)]"
    "map_of (gd_verdicts (sy_gate sy)) ''s1'' = Some row" "vd_verdict row = ''PASS''"
proof -
  obtain sy where t: "try_score_and_decide clean_config 1 market_reported ''s1'' [''static-keyword''] False = (sy, Inr True)"
    using clean_decided by (elim exE)
  from t show thesis
  proof (rule try_score_decidedE)
    fix job :: scan_job and sr hs odb extra tier g
    assume a: "map_of (od_jobs (sy_orch market_reported)) ''s1'' = Some job"
      "score_transaction clean_config 1 (sy_orch market_reported) (sy_blobs market_reported) ''s1'' [''static-keyword''] False =
         Inr (Scored odb sr (sj_trust_tier job) extra)"
      "effective_trust_tier (sj_trust_tier job) (dc_default_tier clean_config) = Inr tier"
      "load_and_aggregate (dc_reader clean_config) (sy_blobs market_reported) ''s1'' (sj_content_hash job) (engine_set clean_config [''static-keyword''])
         (dc_policy clean_config) 0 5000 = Inr (sr, hs)"
      "decide_and_record (sy_gate market_reported) 1 (dc_signer clean_config) ''s1'' sr (dc_policy clean_config) tier (dc_allowlist clean_config)
         (dc_operator clean_config) 1 extra = Inr (decide sr (dc_policy clean_config) tier (dc_allowlist clean_config) 1 0 None, g)"
      "sy = market_reported\<lparr>sy_gate := g, sy_orch := set_state ''s1'' {STATE_SCORED} STATE_DECIDED odb\<rparr>"
    have job: "job = demo_job" using a(1) demo_ready(2) by (simp add: market_reported_simps)
    have sr: "sr = clean_scan" using a(4) clean_loads unfolding job by simp
    have "effective_trust_tier (sj_trust_tier demo_job) (dc_default_tier clean_config) = Inr PUBLIC"
      using demo_ready(4) by (simp add: clean_config_simps demo_config_simps)
    then have tier: "tier = PUBLIC" using a(3) unfolding job by simp
    obtain row where row: "gd_verdicts g = gd_verdicts (sy_gate market_reported) @ [(''s1'', row)]"
      "vd_verdict row = verdict_name (vr_verdict (decide sr (dc_policy clean_config) tier (dc_allowlist clean_config) 1 0 None))"
      using a(5) by (elim decide_and_record_InrE)
    have pass: "vd_verdict row = ''PASS''" unfolding row(2) sr tier clean_config_simps clean_passes by simp
    have "gd_verdicts (sy_gate market_reported) = []" by (simp add: market_reported_simps demo_submitted empty_gate_def)
    then have verdict: "map_of (gd_verdicts (sy_gate sy)) ''s1'' = Some row" by (simp add: a(6) row(1))
    have tables: "od_jobs odb = dict_put ''s1'' (demo_job\<lparr>sj_state := STATE_SCORED\<rparr>) (od_jobs (sy_orch market_reported))"
      "od_results odb = od_results (sy_orch market_reported) @ [(''s1'', result_row_of (dc_order clean_config) clean_scan)]"
      using a(2) unfolding sr job by (auto elim!: score_transaction_ScoredE simp: job [symmetric] a(1))
    have jobs: "od_jobs (sy_orch sy) = [(''s1'', demo_job\<lparr>sj_state := STATE_DECIDED\<rparr>)]"
      by (simp add: a(6) set_state_def tables market_reported_simps demo_submitted)
    have results: "od_results (sy_orch sy) = [(''s1'', result_row_of (dc_order clean_config) clean_scan)]"
      using demo_system_tables by (simp add: a(6) tables market_reported_simps)
    have "tx_reachable (market_reported, {#})"
      using demo_system_reachable tx_blob [of demo_system "{#}" "findings_key ''s1'' ''static-keyword''" "()"]
      unfolding market_reported_def by (rule rtranclp.rtrancl_into_rtrancl)
    moreover have "tx_step\<^sup>*\<^sup>* (market_reported, {#}) (sy, {#})"
      by (rule try_score_run [OF _ t]) (simp add: clean_config_simps sample_policy_valid)
    ultimately have reach: "tx_reachable (sy, {#})" by (rule rtranclp_trans)
    show thesis by (rule that [OF a(2) [unfolded sr job] reach jobs results verdict pass])
  qed
qed

section \<open>The poll\<close>

lemma project_total:
  assumes "state = None \<or> (\<exists>s. state = Some s \<and> s \<in> SCAN_STATES)"
    and "\<exists>bs. res_map finding_bucket (case r of None \<Rightarrow> [] | Some r \<Rightarrow> rv_findings r) = Inr bs"
  shows "\<exists>p. project_skill_verdict skill_id ch state v r cx = Inr p"
proof -
  obtain status where st: "(case state of None \<Rightarrow> Inr ''PENDING'' | Some s \<Rightarrow> project_status s) = Inr status" "map_of POLL_AFTER_MS status \<noteq> None"
  proof (cases state)
    case None
    then show thesis using that [of "''PENDING''"] by (simp add: POLL_AFTER_MS_def)
  next
    case (Some s)
    then show thesis using that assms(1) project_status_scan_states [of s] project_status_polled [of s] by auto
  qed
  obtain ms where "map_of POLL_AFTER_MS status = Some ms" using st(2) by auto
  then show ?thesis using st(1) assms(2) by (auto simp: project_skill_verdict_def summarize_def Let_def)
qed

definition market_demo :: "unit market_runtime" where
  "market_demo = \<lparr>mr_platform = demo_platform, mr_formats = \<lparr>fm_tar_open = (\<lambda>_. Inl TarError), fm_zip_infolist = (\<lambda>_. Inl BadZipFile),
     fm_addfile = (\<lambda>_. Inr ()), fm_tar_bytes = (\<lambda>_. [])\<rparr>, mr_text = (\<lambda>_. ''t''), mr_isoformat = (\<lambda>_. ''now''), mr_policy = sample_policy,
     mr_engine_metadatas = [sample_engine], mr_sandbox_llm_configured = True, mr_scan_deadline_s = 300, mr_rate_limit_per_min = 60,
     mr_inventory_configured = True, mr_fetch_log_configured = True\<rparr>"

definition market_inventory :: inventory_db where
  "market_inventory = \<lparr>db_skills = [(''skill'', \<lparr>sk_source = ''marketplace-api'', sk_trust_tier = ''public'', sk_scope = None,
       sk_owner = Some ''alice'', sk_created_at = 0\<rparr>)],
     db_versions = [(''d'', \<lparr>sv_skill_id = ''skill'', sv_toolchain_digest = ''d'', sv_declared_perms = PNone, sv_created_at = 0\<rparr>)],
     db_baselines = [], db_events = [], db_intents = []\<rparr>"

definition market_start :: "unit system \<Rightarrow> unit market_state" where
  "market_start sy = \<lparr>ms_system = sy, ms_inventory = market_inventory, ms_redis = (\<lambda>_. None), ms_disabled = {}, ms_fetch_log = [], ms_cross_scope = 0\<rparr>"

definition alice :: market_caller where
  "alice = \<lparr>mc_subject = ''alice'', mc_scopes = {SUBMIT_SCOPE, READ_SCOPE}, mc_tier = PUBLIC\<rparr>"

lemma market_entry:
  "get_marketplace_skill market_demo 0 ok alice raw (market_start sy) =
     poll_skill market_demo 0 ok alice raw ((market_start sy)\<lparr>ms_redis := (\<lambda>_. None)(RATE_KEY_PREFIX @ ''alice'' \<mapsto>
       \<lparr>en_value = PInt 1, en_expires = Some (0 + RATE_WINDOW_S)\<rparr>)\<rparr>)"
proof -
  have "redis_entry 0 (RATE_KEY_PREFIX @ ''alice'') (\<lambda>_. None) = None" by (simp add: redis_entry_def)
  note first = check_rate_limit_first [OF this, of 60]
  have "mc_subject alice = ''alice''" "mr_rate_limit_per_min market_demo = 60" "ms_redis (market_start sy) = (\<lambda>_. None)"
    by (simp_all add: alice_def market_demo_def market_start_def)
  note rate = rate_limited_session_def [of market_demo 0 alice "market_start sy", unfolded this first]
  have "READ_SCOPE \<in> mc_scopes alice" by (simp add: alice_def)
  then show ?thesis unfolding get_marketplace_skill_def reply_bind_def rate by (simp add: require_scope_def)
qed

lemma market_latest: "latest_skill_version_hashes market_inventory ''skill'' = [''d'']"
  by (simp add: latest_skill_version_hashes_def market_inventory_def py_max_def Let_def)

lemma clean_identity:
  assumes "od_jobs odb = [(''s1'', demo_job\<lparr>sj_state := STATE_DECIDED\<rparr>)]"
  shows "latest_scan_identities_for_content odb ''d'' =
    [\<lparr>sc_scan_id = ''s1'', sc_state = STATE_DECIDED, sc_trust_tier = Some (trust_tier_value PUBLIC)\<rparr>]"
  unfolding latest_scan_identities_for_content_def assms Let_def by (simp add: demo_job_def py_max_def)

lemma clean_poll:
  assumes "od_jobs (sy_orch sy) = [(''s1'', demo_job\<lparr>sj_state := STATE_DECIDED\<rparr>)]"
    "od_results (sy_orch sy) = [(''s1'', result_row_of (dc_order clean_config) clean_scan)]"
    "map_of (gd_verdicts (sy_gate sy)) ''s1'' = Some row" "vd_verdict row = ''PASS''"
  shows "\<exists>st' p. get_marketplace_skill market_demo 0 ok alice ''skill'' (market_start sy) = (st', Answer p) \<and> is_safe_of p"
proof -
  let ?scan = "\<lparr>sc_scan_id = ''s1'', sc_state = STATE_DECIDED, sc_trust_tier = Some (trust_tier_value PUBLIC)\<rparr>"
  have "rv_findings (the (get_scan_result_view (sy_orch sy) ''s1'')) = []" "get_scan_result_view (sy_orch sy) ''s1'' \<noteq> None"
    by (simp_all add: get_scan_result_view_def assms(2) result_row_of_def clean_scan_def sample_scan_def)
  then obtain rv where rv: "get_scan_result_view (sy_orch sy) ''s1'' = Some rv" "rv_findings rv = []" by auto
  have total: "\<exists>p. project_skill_verdict ''skill'' (Some ''d'') (Some STATE_DECIDED) v (Some rv) cx = Inr p" for v cx
    by (rule project_total) (simp_all add: rv(2) SCAN_STATES_def)
  have "\<exists>p v. scan_answer market_demo sy ''alice'' ''skill'' {} ''d'' ?scan = Inr (p, Some ''s1'', v)"
    unfolding scan_answer_def Let_def scan_identity.simps rv(1)
  proof (split prod.split, intro allI impI)
    fix d b
    obtain p where "project_skill_verdict ''skill'' (Some ''d'') (Some STATE_DECIDED) (get_verdict_view (mr_isoformat market_demo) (sy_gate sy) ''s1'') (Some rv)
        \<lparr>ac_judged_at_tier = Some (trust_tier_value PUBLIC), ac_requested_tier = requested_tier_of (sy_orch sy) ''s1'' ''alice'', ac_tier_direction = d,
         ac_tier_direction_basis = b, ac_coverage = Some (load_scan_engine_coverage (sy_orch sy) ''s1'' {})\<rparr> = Inr p"
      using total by blast
    then show "\<exists>p v. res_bind (project_skill_verdict ''skill'' (Some ''d'') (Some STATE_DECIDED) (get_verdict_view (mr_isoformat market_demo) (sy_gate sy) ''s1'') (Some rv)
        \<lparr>ac_judged_at_tier = Some (trust_tier_value PUBLIC), ac_requested_tier = requested_tier_of (sy_orch sy) ''s1'' ''alice'', ac_tier_direction = d,
         ac_tier_direction_basis = b, ac_coverage = Some (load_scan_engine_coverage (sy_orch sy) ''s1'' {})\<rparr>)
        (\<lambda>p. Inr (p, Some ''s1'', map_option vw_verdict (get_verdict_view (mr_isoformat market_demo) (sy_gate sy) ''s1''))) = Inr (p, Some ''s1'', v)"
      by (simp only: res_bind_Inr) blast
  qed
  then obtain p v where sa: "scan_answer market_demo sy ''alice'' ''skill'' {} ''d'' ?scan = Inr (p, Some ''s1'', v)" by blast
  have safe: "is_safe_of p" using scan_answer_safe [OF sa] assms(3,4) by simp
  have ca: "content_answers market_demo sy ''alice'' ''skill'' {} ''d'' = Inr [(p, Some ''s1'', v)]"
    unfolding content_answers_def clean_identity [OF assms(1)] Let_def res_map.simps sa res_bind_Inr by simp
  have cfg: "mr_sandbox_llm_configured market_demo" "mr_inventory_configured market_demo" by (simp_all add: market_demo_def)
  let ?st = "(market_start sy)\<lparr>ms_redis := (\<lambda>_. None)(RATE_KEY_PREFIX @ ''alice'' \<mapsto> \<lparr>en_value = PInt 1, en_expires = Some (0 + RATE_WINDOW_S)\<rparr>)\<rparr>"
  have st: "ms_system ?st = sy" "ms_inventory ?st = market_inventory" "ms_disabled ?st = {}" by (simp_all add: market_start_def)
  have pa: "poll_answer market_demo ?st ''alice'' ''skill'' [''d''] = Inr (p, Some ''s1'', v)"
    unfolding poll_answer_def st by (simp add: structurally_absent_engine_names_def llm_unconfigured_engine_names_def cfg ca first_min_def)
  have strip: "py_strip ''skill'' = ''skill''" by code_simp
  have reg: "get_registered_skill market_inventory ''skill'' = Some (Some ''alice'', ''public'')"
    by (simp add: get_registered_skill_def market_inventory_def)
  have who: "mc_subject alice = ''alice''" by (simp add: alice_def)
  have "\<exists>st'. poll_skill market_demo 0 ok alice ''skill'' ?st = (st', Answer p)"
    unfolding poll_skill_def strip st reg Let_def who market_latest pa by (simp add: cfg authorize_skill_read_def)
  then show ?thesis unfolding market_entry using safe by blast
qed

theorem safe_answer_means_pass_witness:
  "\<exists>sy st' p. get_marketplace_skill market_demo 0 True alice ''skill'' (market_start sy) = (st', Answer p) \<and> is_safe_of p \<and>
     (\<forall>scan \<in> set (latest_scan_identities_for_content (sy_orch sy) ''d''). sc_state scan = STATE_DECIDED)"
proof (rule clean_outcome)
  fix sy :: "unit system" and odb extra row
  assume o: "tx_reachable (sy, {#})" "od_jobs (sy_orch sy) = [(''s1'', demo_job\<lparr>sj_state := STATE_DECIDED\<rparr>)]"
    "od_results (sy_orch sy) = [(''s1'', result_row_of (dc_order clean_config) clean_scan)]"
    "map_of (gd_verdicts (sy_gate sy)) ''s1'' = Some row" "vd_verdict row = ''PASS''"
  obtain st' p where g: "get_marketplace_skill market_demo 0 True alice ''skill'' (market_start sy) = (st', Answer p)" "is_safe_of p"
    using clean_poll [OF o(2-5)] by blast
  have inv: "ms_system (market_start sy) = sy" "ms_inventory (market_start sy) = market_inventory" "py_strip ''skill'' = ''skill''"
    by (simp_all add: market_start_def) code_simp
  have "\<forall>scan \<in> set (latest_scan_identities_for_content (sy_orch sy) ''d''). sc_state scan = STATE_DECIDED"
    using safe_answer_means_pass [OF g, of "{#}", unfolded inv, OF o(1)] unfolding market_latest by simp
  then show ?thesis using g by blast
qed

theorem only_whitelisted_fields_witness:
  "\<exists>sy st' p. get_marketplace_skill market_demo 0 True alice ''skill'' (market_start sy) = (st', Answer p) \<and> fst ` set p = EXTERNAL_TOP_LEVEL_FIELDS"
proof (rule clean_outcome)
  fix sy :: "unit system" and odb extra row
  assume o: "od_jobs (sy_orch sy) = [(''s1'', demo_job\<lparr>sj_state := STATE_DECIDED\<rparr>)]"
    "od_results (sy_orch sy) = [(''s1'', result_row_of (dc_order clean_config) clean_scan)]"
    "map_of (gd_verdicts (sy_gate sy)) ''s1'' = Some row" "vd_verdict row = ''PASS''"
  obtain st' p where g: "get_marketplace_skill market_demo 0 True alice ''skill'' (market_start sy) = (st', Answer p)"
    using clean_poll [OF o] by blast
  then show ?thesis using only_whitelisted_fields [OF g] by blast
qed

theorem foreign_skill_indistinguishable_witness:
  "fst ((\<lambda>(s, reply). (reply, ms_redis s, ms_fetch_log s)) (get_marketplace_skill market_demo 0 True (alice\<lparr>mc_subject := ''bob''\<rparr>) ''skill'' (market_start empty_system))) =
   fst ((\<lambda>(s, reply). (reply, ms_redis s, ms_fetch_log s)) (get_marketplace_skill market_demo 0 True (alice\<lparr>mc_subject := ''bob''\<rparr>) ''skill''
     ((market_start empty_system)\<lparr>ms_inventory := empty_inventory, ms_system := empty_system\<rparr>)))"
proof -
  have strip: "py_strip ''skill'' = ''skill''" by code_simp
  have "\<forall>skill. map_of (db_skills (ms_inventory (market_start empty_system))) (py_strip ''skill'') = Some skill \<longrightarrow>
      sk_owner skill \<noteq> Some (mc_subject (alice\<lparr>mc_subject := ''bob''\<rparr>))"
    unfolding strip by (simp add: market_start_def market_inventory_def)
  moreover have "map_of (db_skills empty_inventory) (py_strip ''skill'') = None" by (simp add: empty_inventory_def)
  ultimately show ?thesis using foreign_skill_indistinguishable [of "market_start empty_system" "''skill''" "alice\<lparr>mc_subject := ''bob''\<rparr>" empty_inventory
        market_demo 0 True empty_system] unfolding Let_def by (simp only: simp_thms)
qed

theorem rate_limit_exact_witness: "int (admitted_requests ''alice'' 2 [0, 1, 2, 59] (\<lambda>_. None)) = 2"
  using rate_limit_exact [of 0 "''alice''" "\<lambda>_. None" "[1, 2, 59]" 2] by (simp add: redis_entry_def RATE_WINDOW_S_def)

theorem complete_evidence_means_counted_witness:
  "\<exists>odb sr jt extra. score_transaction clean_config 1 (sy_orch market_reported) (sy_blobs market_reported) ''s1'' [''static-keyword''] False =
       Inr (Scored odb sr jt extra) \<and> coverage_complete (load_scan_engine_coverage odb ''s1'' {}) = Some True"
proof (rule clean_outcome)
  fix sy :: "unit system" and odb extra row
  assume sc: "score_transaction clean_config 1 (sy_orch market_reported) (sy_blobs market_reported) ''s1'' [''static-keyword''] False =
       Inr (Scored odb clean_scan (sj_trust_tier demo_job) extra)"
  have h: "\<forall>r \<in> set (od_health (sy_orch market_reported)). hr_scan_id r \<noteq> ''s1''"
    using demo_system_tables by (simp add: market_reported_simps)
  have es: "[] \<notin> set (engine_set clean_config [''static-keyword''])" by (simp add: clean_engines)
  have blob: "sy_blobs market_reported (findings_key ''s1'' ''static-keyword'') = Some ()" by (simp add: market_reported_def)
  have "trusted_blob (dc_reader clean_config) (sy_blobs market_reported) ''s1'' ''static-keyword'' (sample_result []) \<and> usable (sample_result [])"
    unfolding trusted_blob_def blob clean_config_simps using clean_parse by (simp add: sample_result_def usable_def)
  then have "coverage_complete (load_scan_engine_coverage odb ''s1'' {}) = Some True"
    using complete_evidence_means_counted [OF sc h es, of "{}"] unfolding clean_engines by auto
  then show ?thesis using sc by blast
qed

definition sample_health_row :: health_row where
  "sample_health_row = \<lparr>hr_scan_id = ''s1'', hr_engine_name = ''e'', hr_report_state = ''reported'', hr_engine_status = Some ''ok'',
     hr_analyze_duration_ms = Some 7, hr_finding_count = Some 0, hr_error = None, hr_recorded_at = 0\<rparr>"

theorem health_summary_exact_witness:
  "\<exists>s. s \<in> set (ht_engines (summarize_engine_health [sample_health_row] 1)) \<and> hs_observed_scans s = 1 \<and> counts_total (hs_counts s) = 1"
proof -
  have m: "summary_of ''e'' [sample_health_row] \<in> set (ht_engines (summarize_engine_health [sample_health_row] 1))"
    by (simp add: summarize_engine_health_def Let_def group_row_def sample_health_row_def)
  have n: "hs_engine_name (summary_of ''e'' [sample_health_row]) = ''e''" "hr_engine_name sample_health_row = ''e''" "known_row sample_health_row"
    by (simp_all add: summary_of_def Let_def sample_health_row_def known_row_def status_in_def DELIVERED_ENGINE_STATUSES_def)
  have "hs_observed_scans (summary_of ''e'' [sample_health_row]) = 1 \<and> counts_total (hs_counts (summary_of ''e'' [sample_health_row])) = 1"
    using health_summary_exact [OF m] n by simp
  then show ?thesis using m by blast
qed

section \<open>A submission\<close>

definition upload_formats :: formats where
  "upload_formats = \<lparr>fm_tar_open = (\<lambda>_. Inr (Inr (map regular_member sample_files))), fm_zip_infolist = (\<lambda>_. Inl BadZipFile),
     fm_addfile = (\<lambda>_. Inr ()), fm_tar_bytes = (\<lambda>_. [])\<rparr>"

lemma upload_unpacks: "unpack_package_archive upload_formats [1, 1, 1] = Inr sample_files"
proof -
  have plain: "plain_path (ustr_of ''a/b'')" "plain_path (ustr_of ''c'')"
    by (simp_all add: plain_path_def good_segment_def bad_segment_def ustr_of_def MAX_PATH_DEPTH_def)
  have "unpack_members 0 (map regular_member sample_files) = Inr (2, sample_files)"
    using unpack_regular [of sample_files 0] plain by (simp add: sample_files_def safe_entry_def limit_defs)
  moreover have "\<not> directory_conflict (map fst sample_files)" by (simp add: directory_conflict_def sample_files_def ustr_of_def)
  moreover have "distinct (map fst sample_files)" "sample_files \<noteq> []" "length (map regular_member sample_files) = 2"
    by (simp_all add: sample_files_def ustr_of_def)
  ultimately show ?thesis
    by (simp add: unpack_package_archive_def ZIP_MAGIC_PREFIXES_def py_startswith_def unpack_hardened_def upload_formats_def limit_defs Let_def)
qed

definition upload_demo :: "unit market_runtime" where
  "upload_demo = market_demo\<lparr>mr_formats := upload_formats\<rparr>"

definition upload_start :: "unit market_state" where
  "upload_start = (market_start empty_system)\<lparr>ms_inventory := empty_inventory\<rparr>"

definition upload :: submission where
  "upload = \<lparr>sn_skill_id = ''skill'', sn_trust_tier = None, sn_query_has_trust_tier = False, sn_package = [1, 1, 1]\<rparr>"

lemma upload_hash: "content_hash (pf_nfc demo_platform) (pf_sha256 demo_platform) sample_files = Inr ''d''"
  by (simp add: demo_platform_def content_hash_def sample_content)

lemma upload_digest:
  "\<exists>td. res_bind (cache_policy_version (pf_iter demo_platform) (pf_repr demo_platform) (pf_sha256_text demo_platform) sample_policy)
     (\<lambda>cpv. toolchain_digest (pf_sha256 demo_platform) [sample_engine] cpv ''none'') = Inr td"
  using demo_keys unfolding scan_keys_def by (auto simp: res_bind_eq_Inr)

lemma upload_scan:
  "\<exists>sy. submit_scan demo_platform empty_system 0 ''s1'' sample_files ''alice'' [sample_engine] sample_policy PUBLIC MARKETPLACE PUBLIC 300 = (sy, Inr ''s1'')"
  by (simp add: submit_scan_def demo_keys empty_system_def empty_orch_def Let_def associate_submitter_def)

lemma upload_registers:
  "\<exists>idb. register_submission upload_demo 0 alice ''skill'' PUBLIC ''d'' td declared ''s1'' empty_inventory = Inr idb"
proof -
  have legal: "validate_transition None ''submitted'' = Inr ()" "validate_transition (Some ''submitted'') ''scanning'' = Inr ()"
    by (simp_all add: validate_transition_def ALL_STATES_def VALID_TRANSITIONS_def)
  show ?thesis
    by (simp add: register_submission_def register_skill_version_def empty_inventory_def record_transition_def transition_skill_def
        current_state_def legal Let_def)
qed

lemma upload_accepted:
  "\<exists>st'. submit_marketplace_scan upload_demo 0 ''s1'' id id alice upload upload_start = (st', Answer ''s1'')"
proof -
  obtain td where td: "res_bind (cache_policy_version (pf_iter demo_platform) (pf_repr demo_platform) (pf_sha256_text demo_platform) sample_policy)
     (\<lambda>cpv. toolchain_digest (pf_sha256 demo_platform) [sample_engine] cpv ''none'') = Inr td" using upload_digest by (elim exE)
  obtain sy where sy: "submit_scan demo_platform empty_system 0 ''s1'' sample_files ''alice'' [sample_engine] sample_policy PUBLIC MARKETPLACE PUBLIC 300 =
    (sy, Inr ''s1'')" using upload_scan by (elim exE)
  obtain idb where idb: "register_submission upload_demo 0 alice ''skill'' PUBLIC ''d'' td (declared_permissions upload_demo sample_files) ''s1''
    empty_inventory = Inr idb" using upload_registers by blast
  have rt: "mr_platform upload_demo = demo_platform" "mr_formats upload_demo = upload_formats" "mr_policy upload_demo = sample_policy"
    "mr_inventory_configured upload_demo" "mr_scan_deadline_s upload_demo = 300" "mr_rate_limit_per_min upload_demo = 60"
    "enabled_engines upload_demo {} = [sample_engine]"
    by (simp_all add: upload_demo_def market_demo_def enabled_engines_def filter_enabled_engines_def)
  have al: "mc_subject alice = ''alice''" "mc_tier alice = PUBLIC" "SUBMIT_SCOPE \<in> mc_scopes alice" by (simp_all add: alice_def)
  have up: "sn_skill_id upload = ''skill''" "sn_trust_tier upload = None" "\<not> sn_query_has_trust_tier upload" "sn_package upload = [1, 1, 1]"
    by (simp_all add: upload_def)
  have strip: "py_strip ''skill'' = ''skill''" by code_simp
  let ?st = "upload_start\<lparr>ms_redis := (\<lambda>_. None)(RATE_KEY_PREFIX @ ''alice'' \<mapsto> \<lparr>en_value = PInt 1, en_expires = Some (0 + RATE_WINDOW_S)\<rparr>)\<rparr>"
  have st: "ms_inventory ?st = empty_inventory" "ms_system ?st = empty_system" "ms_disabled ?st = {}"
    by (simp_all add: upload_start_def market_start_def)
  have "redis_entry 0 (RATE_KEY_PREFIX @ ''alice'') (\<lambda>_. None) = None" by (simp add: redis_entry_def)
  note first = check_rate_limit_first [OF this, of 60]
  have rate: "rate_limited_session upload_demo 0 alice upload_start = (?st, Answer ())"
    unfolding rate_limited_session_def al rt by (simp add: first upload_start_def market_start_def)
  have pre: "submission_preflight empty_inventory alice ''skill'' ''d'' ?st = (?st, Answer PUBLIC)"
    by (simp add: submission_preflight_def empty_inventory_def get_registered_skill_def skill_id_for_content_def current_state_def al
        validate_transition_def ALL_STATES_def VALID_TRANSITIONS_def)
  have inv: "ms_inventory (?st\<lparr>ms_system := sy\<rparr>) = empty_inventory" by (simp add: upload_start_def)
  have pkg: "\<exists>st'. submit_package upload_demo 0 ''s1'' id id alice ''skill'' sample_files ?st = (st', Answer ''s1'')"
    unfolding submit_package_def rt upload_hash sum.case reply_bind_def st pre prod.case reply.case Let_def id_apply al sy td inv idb by blast
  have len: "\<not> SKILL_ID_MAX_LENGTH < length ''skill''" by (simp add: SKILL_ID_MAX_LENGTH_def)
  show ?thesis
    unfolding submit_marketplace_scan_def reply_bind_def rate prod.case reply.case up if_not_P [OF len] require_scope_def Let_def strip rt upload_unpacks
    using pkg al(3) up(3) rt(4) by simp
qed


theorem fetch_log_faithful_witness:
  "\<exists>sy st' p row. get_marketplace_skill market_demo 0 True alice ''skill'' (market_start sy) = (st', Answer p) \<and>
     ms_fetch_log st' = [row] \<and> fl_is_safe_shown row"
proof (rule clean_outcome)
  fix sy :: "unit system" and odb extra row
  assume o: "od_jobs (sy_orch sy) = [(''s1'', demo_job\<lparr>sj_state := STATE_DECIDED\<rparr>)]"
    "od_results (sy_orch sy) = [(''s1'', result_row_of (dc_order clean_config) clean_scan)]"
    "map_of (gd_verdicts (sy_gate sy)) ''s1'' = Some row" "vd_verdict row = ''PASS''"
  obtain st' p where g: "get_marketplace_skill market_demo 0 True alice ''skill'' (market_start sy) = (st', Answer p)" "is_safe_of p"
    using clean_poll [OF o] by blast
  have c: "mr_fetch_log_configured market_demo \<and> True" "ms_fetch_log (market_start sy) = []" by (simp_all add: market_demo_def market_start_def)
  obtain row where "ms_fetch_log st' = [row]" "fl_is_safe_shown row = is_safe_of p"
    using fetch_log_faithful [of market_demo 0 True alice "''skill''" "market_start sy" True, THEN conjunct2, rule_format, OF g(1)]
    unfolding c(2) if_P [OF c(1)] append.simps by blast
  then show ?thesis using g by blast
qed

end
