(* ===== verification/Console_Samples.thy ===== *)
theory Console_Samples
  imports Gate_Api Market_Samples
begin

text \<open>Concrete runs of the console's endpoints: an auditor reads a decided scan, a person uploads a package, a
  stranger is refused, the marketplace pushes an event, an administrator lifts a quarantine, assigns owners
  and drains stale skills, and approvers waive a rule and decide a review.\<close>

definition person :: "string \<Rightarrow> string list \<Rightarrow> console_caller" where
  "person who roles = \<lparr>cn_subject = who, cn_session = \<lparr>sx_subject = PStr who, sx_roles = PStr ` set roles, sx_scopes = {}, sx_tier = INTERNAL,
     sx_token_exp = PosInf, sx_is_machine = False\<rparr>\<rparr>"

definition console_demo :: "unit console_runtime" where
  "console_demo = \<lparr>cr_shared = upload_demo, cr_default_trust_tier = INTERNAL, cr_push_hmac_secret = Some ''k'', cr_push_replay_window_s = 300,
     cr_push_auto_quarantine_enabled = False, cr_marketplace_configured = True, cr_reeval_configured = True, cr_mac = (\<lambda>_ _ _. ''m''),
     cr_json_loads = (\<lambda>_. Inr (PDict [(PStr ''content_hash'', PStr ''d''), (PStr ''skill_id'', PStr ''skill'')])),
     cr_str = (\<lambda>v. case v of PStr s \<Rightarrow> s | _ \<Rightarrow> []), cr_repr = id\<rparr>"

definition plain_request :: request where
  "plain_request = \<lparr>rq_method = ''POST'', rq_cookies = [], rq_headers = []\<rparr>"

lemma plain_csrf: "require_csrf plain_request = Inr ()"
  by (simp add: require_csrf_def request_has_session_cookie_def plain_request_def SESSION_COOKIE_NAMES_def)

definition by_time :: "(string \<times> scan_job) list \<Rightarrow> (string \<times> scan_job) list" where
  "by_time rows = sort_key (\<lambda>x. - sj_created_at (snd x)) rows"

lemma by_time_newest_first: "newest_first by_time"
proof -
  have "sorted_wrt (\<lambda>(k, a) (l, b). sj_created_at a \<ge> sj_created_at b) (by_time rows)" for rows
    using sorted_sort_key [of "\<lambda>x. - sj_created_at (snd x)" rows] unfolding by_time_def sorted_map
    by (rule sorted_wrt_mono_rel [rotated]) auto
  then show ?thesis by (simp add: newest_first_def by_time_def)
qed

theorem list_matches_detail_witness:
  "\<exists>sy offset items item. tx_reachable (sy, {#}) \<and>
     snd (list_scans console_demo by_time (person ''carol'' [''auditor'']) None 50 offset (market_start sy)) = Answer items \<and>
     item \<in> set items \<and> si_scan_id item = ''s1''"
proof (rule clean_outcome)
  fix sy :: "unit system"
  assume o: "tx_reachable (sy, {#})" "od_jobs (sy_orch sy) = [(''s1'', demo_job\<lparr>sj_state := STATE_DECIDED\<rparr>)]"
  have sys: "ms_system (market_start sy) = sy" by (simp add: market_start_def)
  have "may_read (sy_orch sy) (person ''carol'' [''auditor'']) ''s1''" by (simp add: may_read_def has_role_def person_def REVIEWER_ROLES_def)
  then have "\<exists>d. snd (get_scan console_demo (person ''carol'' [''auditor'']) ''s1'' (market_start sy)) = Answer d"
    unfolding get_scan_Answer_iff sys o(2) by simp
  then show ?thesis using o(1) list_matches_detail [OF by_time_newest_first, of "market_start sy" "{#}" console_demo "person ''carol'' [''auditor'']" 50]
    unfolding sys by blast
qed

definition console_upload :: console_submission where
  "console_upload = \<lparr>cb_skill_id = Some ''skill'', cb_trust_tier = Some ''public'', cb_package = [1, 1, 1]\<rparr>"

lemma console_entry:
  "create_scan console_demo 0 ''s1'' gap1 gap2 plain_request caller console_upload st =
     upload_package upload_demo 0 ''s1'' gap1 gap2 (cn_subject caller) (has_role (cn_session caller) [''admin'']) PUBLIC ''skill'' sample_files st"
proof -
  have cfg: "cr_shared console_demo = upload_demo" "mr_formats upload_demo = upload_formats" by (simp_all add: console_demo_def upload_demo_def)
  have tier: "requested_tier console_demo (Some ''public'') = Inr PUBLIC"
    by (simp add: requested_tier_def TrustTier_of_def trust_tier_members_def)
  have sub: "cb_skill_id console_upload = Some ''skill''" "cb_trust_tier console_upload = Some ''public''" "cb_package console_upload = [1, 1, 1]"
    by (simp_all add: console_upload_def)
  have len: "\<not> CONSOLE_SKILL_ID_MAX_LENGTH < length ''skill''" by (simp add: CONSOLE_SKILL_ID_MAX_LENGTH_def)
  show ?thesis unfolding create_scan_def plain_csrf sum.case Let_def sub option.case if_not_P [OF len] tier cfg upload_unpacks ..
qed

theorem refused_upload_leaves_nothing_witness:
  "\<exists>st'. create_scan console_demo 0 ''s1'' id id plain_request (person ''bob'' []) console_upload (market_start empty_system) = (st', Refused 403) \<and>
     (st' = market_start empty_system \<or> st' = record_cross_scope_attempt (market_start empty_system))"
proof -
  have inv: "ms_inventory (market_start empty_system) = market_inventory" by (simp add: market_start_def)
  have cfg: "mr_platform upload_demo = demo_platform" "mr_inventory_configured upload_demo" by (simp_all add: upload_demo_def market_demo_def)
  have pf: "console_preflight market_inventory ''bob'' False PUBLIC ''skill'' ''d'' st = (record_cross_scope_attempt st, Refused 403)"
    for st :: "unit market_state"
    by (simp add: console_preflight_def get_registered_skill_def market_inventory_def authorize_skill_write_def Let_def)
  have who: "cn_subject (person ''bob'' []) = ''bob''" "\<not> has_role (cn_session (person ''bob'' [])) [''admin'']"
    by (simp_all add: person_def has_role_def)
  have r: "create_scan console_demo 0 ''s1'' id id plain_request (person ''bob'' []) console_upload (market_start empty_system) =
      (record_cross_scope_attempt (market_start empty_system), Refused 403)"
    unfolding console_entry upload_package_def cfg upload_hash sum.case reply_bind_def inv who(1) using who(2) cfg(2) by (simp add: pf inv)
  show ?thesis using refused_upload_leaves_nothing [OF r] r by blast
qed

lemma console_scan:
  "\<exists>sy. submit_scan demo_platform empty_system 0 ''s1'' sample_files ''alice'' [sample_engine] sample_policy PUBLIC CONSOLE PUBLIC 300 = (sy, Inr ''s1'')"
  by (simp add: submit_scan_def demo_keys empty_system_def empty_orch_def Let_def associate_submitter_def)

theorem accepted_upload_witness:
  "\<exists>st'. create_scan console_demo 0 ''s1'' id id plain_request (person ''alice'' []) console_upload upload_start = (st', Answer ''s1'') \<and>
     current_state (ms_inventory st') ''skill'' = Some ''scanning''"
proof -
  have cfg: "mr_platform upload_demo = demo_platform" "mr_inventory_configured upload_demo" "mr_policy upload_demo = sample_policy"
    "mr_scan_deadline_s upload_demo = 300" "enabled_engines upload_demo {} = [sample_engine]"
    by (simp_all add: upload_demo_def market_demo_def enabled_engines_def filter_enabled_engines_def)
  have st: "ms_inventory upload_start = empty_inventory" "ms_system upload_start = empty_system" "ms_disabled upload_start = {}"
    by (simp_all add: upload_start_def market_start_def)
  obtain sy where sy: "submit_scan demo_platform empty_system 0 ''s1'' sample_files ''alice'' [sample_engine] sample_policy PUBLIC CONSOLE PUBLIC 300 = (sy, Inr ''s1'')"
    using console_scan ..
  obtain td where td: "res_bind (cache_policy_version (pf_iter demo_platform) (pf_repr demo_platform) (pf_sha256_text demo_platform) sample_policy)
     (\<lambda>cpv. toolchain_digest (pf_sha256 demo_platform) [sample_engine] cpv ''none'') = Inr td" using upload_digest by (elim exE)
  have pf: "console_preflight empty_inventory ''alice'' a PUBLIC ''skill'' ''d'' upload_start = (upload_start, Answer PUBLIC)" for a
    by (simp add: console_preflight_def empty_inventory_def get_registered_skill_def skill_id_for_content_def current_state_def
        validate_transition_def ALL_STATES_def VALID_TRANSITIONS_def)
  obtain idb where idb: "register_upload 0 ''alice'' False ''skill'' PUBLIC ''d'' td (declared_permissions upload_demo sample_files) ''s1'' empty_inventory = Inr idb"
    using register_after_preflight [OF pf] by (simp add: SKILL_ID_COLUMN_def) blast
  have who: "cn_subject (person ''alice'' []) = ''alice''" "has_role (cn_session (person ''alice'' [])) [''admin''] = False"
    by (simp_all add: person_def has_role_def)
  have named: "''skill'' \<noteq> []" by simp
  have enter: "enter_inventory upload_demo 0 ''alice'' False ''skill'' PUBLIC ''d'' [sample_engine] sample_files ''s1'' (upload_start\<lparr>ms_system := sy\<rparr>) =
      (upload_start\<lparr>ms_system := sy, ms_inventory := idb\<rparr>, Answer ''s1'')"
    unfolding enter_inventory_def cfg td using idb st(1) cfg(2) by simp
  have r: "create_scan console_demo 0 ''s1'' id id plain_request (person ''alice'' []) console_upload upload_start =
      (upload_start\<lparr>ms_system := sy, ms_inventory := idb\<rparr>, Answer ''s1'')"
    unfolding console_entry upload_package_def cfg upload_hash sum.case reply_bind_def st who if_not_P [OF named] id_apply
    using cfg(2) by (simp add: pf sy st cfg enter)
  have sid: "(case cb_skill_id console_upload of None \<Rightarrow> [] | Some s \<Rightarrow> s) = ''skill''" by (simp add: console_upload_def)
  have "current_state (ms_inventory (upload_start\<lparr>ms_system := sy, ms_inventory := idb\<rparr>)) ''skill'' = Some ''scanning''"
    using accepted_upload [OF r] unfolding sid if_not_P [OF named] by (elim exE conjE)
  then show ?thesis using r by blast
qed

definition push_headers :: "(string \<times> string) list" where
  "push_headers = [(''x-marketplace-signature'', ''m''), (''x-marketplace-timestamp'', ''7'')]"

definition console_start :: "unit console_state" where
  "console_start = \<lparr>cs_shared = upload_start, cs_reeval = \<lparr>rs_rows = [], rs_alerts = [], rs_quarantined = []\<rparr>, cs_orphans = 0\<rparr>"


section \<open>The inventory\<close>

lemma quarantined_sample:
  obtains db where "inventory_reachable db" "current_state db ''s'' = Some ''quarantined''"
proof -
  have path: "legal_path ''submitted'' [''scanning'', ''published'', ''quarantined'']" by (simp add: legal_Some VALID_TRANSITIONS_def)
  obtain db where db: "inventory_reachable db" "current_state db ''s'' = Some ''submitted''"
      "map ev_to_state (history db ''s'') = [''submitted'']" by (rule sample_registered)
  obtain db' where db': "inventory_reachable db'"
      "map ev_to_state (history db' ''s'') = [''submitted'', ''scanning'', ''published'', ''quarantined'']"
    using run_states_total [OF db(1,2) path] db(3) by auto
  have "history db' ''s'' \<noteq> []" using db'(2) by auto
  moreover have "ev_to_state (last (history db' ''s'')) = ''quarantined''" using arg_cong [OF db'(2), of last] calculation by (simp add: last_map)
  ultimately have "current_state db' ''s'' = Some ''quarantined''" by (simp add: current_state_eq lc.position_def)
  then show thesis by (rule that [OF db'(1)])
qed

lemma admin_allowed: "require_role [''admin''] (cn_session (person who [''admin''])) = Inr (cn_session (person who [''admin'']))"
  by (simp add: require_role_def has_role_def person_def raise_if_def)

lemma admin_enters: "write_route [''admin''] True True plain_request (person who [''admin'']) body db = body db"
  by (simp add: write_route_def role_route_def plain_csrf admin_allowed)

theorem restore_lifts_quarantine_only_witness:
  "\<exists>db db' r. restore_skill True 1 plain_request (person ''root'' [''admin'']) ''s'' ''ok'' db = (db', Answer r) \<and>
     ev_from_state (last (history db ''s'')) = Some ''published'' \<and> db_baselines db' = db_baselines db"
proof (rule quarantined_sample)
  fix db assume db: "inventory_reachable db" "current_state db ''s'' = Some ''quarantined''"
  have legal: "validate_transition (Some ''quarantined'') ''published'' = Inr ()"
    by (simp add: validate_transition_def ALL_STATES_def VALID_TRANSITIONS_def)
  have "\<exists>db' r. restore_skill True 1 plain_request (person ''root'' [''admin'']) ''s'' ''ok'' db = (db', Answer r)"
    unfolding restore_skill_def admin_enters by (simp add: db(2) transition_skill_def record_transition_def legal transition_reply_def)
  then obtain db' r where "restore_skill True 1 plain_request (person ''root'' [''admin'']) ''s'' ''ok'' db = (db', Answer r)" by blast
  then show ?thesis using restore_lifts_quarantine_only [OF db(1)] by blast
qed

theorem inventory_routes_keep_laws_witness:
  "\<exists>db. inventory_reachable db \<and> inventory_ok (fold (serve True) [(plain_request, person ''root'' [''admin''], Restore 1 ''s'' ''ok'')] db)"
proof (rule quarantined_sample)
  fix db assume "inventory_reachable db"
  from inventory_routes_keep_laws [OF this] this show ?thesis by blast
qed

definition stranded_inventory :: inventory_db where
  "stranded_inventory = empty_inventory\<lparr>db_skills := [
     (''a'', \<lparr>sk_source = ''git'', sk_trust_tier = ''public'', sk_scope = None, sk_owner = None, sk_created_at = 0\<rparr>),
     (''b'', \<lparr>sk_source = ''git'', sk_trust_tier = ''public'', sk_scope = None, sk_owner = Some ''bob'', sk_created_at = 0\<rparr>)]\<rparr>"

definition bulk_sample :: bulk_body where
  "bulk_sample = \<lparr>bb_owner = ''eve'', bb_reason = ''r'', bb_skill_ids = [''a'', ''b'', ''a'']\<rparr>"

theorem bulk_assignment_never_transfers_witness:
  "\<exists>db' a. assign_owner_bulk True True None (\<lambda>_. id) plain_request (person ''root'' [''admin'']) bulk_sample stranded_inventory = (db', Answer a) \<and>
     ba_assigned a = [''a''] \<and> map fst (ba_failed a) = [''b'']"
proof -
  have strip: "py_strip ''eve'' = ''eve''" by code_simp
  have norm: "normalize_owner (bb_owner bulk_sample) = Inr ''eve''"
    by (simp add: normalize_owner_def bulk_sample_def strip MAX_OWNER_LENGTH_def)
  have ids: "first_occurrences (bb_skill_ids bulk_sample) = [''a'', ''b'']" by (simp add: bulk_sample_def)
  have valid: "(bb_skill_ids bulk_sample \<noteq> [] \<and> length (bb_skill_ids bulk_sample) \<le> MAX_BULK_ASSIGNMENTS) = True"
    by (simp add: bulk_sample_def MAX_BULK_ASSIGNMENTS_def)
  have "\<exists>db' a. assign_owner_bulk True True None (\<lambda>_. id) plain_request (person ''root'' [''admin'']) bulk_sample stranded_inventory = (db', Answer a)"
    unfolding assign_owner_bulk_def valid admin_enters norm sum.case Let_def by (simp split: prod.splits)
  then obtain db' a where r: "assign_owner_bulk True True None (\<lambda>_. id) plain_request (person ''root'' [''admin'']) bulk_sample stranded_inventory = (db', Answer a)"
    by blast
  have un: "unowned stranded_inventory ''a''" "\<not> unowned stranded_inventory ''b''" by (simp_all add: unowned_def stranded_inventory_def)
  have "ba_assigned a = [''a''] \<and> map fst (ba_failed a) = [''b'']"
    using bulk_assignment_never_transfers [OF r] unfolding ids by (elim exE conjE) (simp add: un)
  then show ?thesis using r by (intro exI [of _ db'] exI [of _ a]) simp
qed

section \<open>The gate\<close>

lemma approver_enters:
  assumes "valid"
  shows "write_route WAIVER_ROLES valid True plain_request (person who [''approver'']) body st = body st"
proof -
  have "has_role (cn_session (person who [''approver''])) WAIVER_ROLES" by (simp add: has_role_def person_def WAIVER_ROLES_def)
  then show ?thesis using assms by (simp add: write_route_def role_route_def require_role_def raise_if_def plain_csrf)
qed

definition waiver_body :: grant_body where
  "waiver_body = \<lparr>gb_scope_type = ''rule_global'', gb_scope_value = [], gb_rule_id = ''r1'', gb_expires_at = 100, gb_requested_by = ''alice'', gb_reason = []\<rparr>"

theorem waiver_has_two_people_witness:
  "\<exists>st' w. create_allowlist_entry ''u1'' False sample_policy empty_inventory plain_request (person ''bob'' [''approver'']) waiver_body
       \<lparr>ws_gate = empty_gate, ws_grants = 0\<rparr> = (st', Answer w) \<and> aw_approved_by (wi_row w) = ''bob'' \<and> ws_grants st' = 1"
proof -
  let ?st = "\<lparr>ws_gate = empty_gate, ws_grants = 0\<rparr>"
  obtain row gdb where g: "grant_allowlist_entry empty_gate ''u1'' ''rule_global'' [] ''r1'' 100 ''bob'' ''alice'' [] = Inr (row, gdb)"
    using demo_granted by (elim exE conjE)
  have len: "length (gb_rule_id waiver_body) \<le> RULE_ID_MAX_LENGTH" by (simp add: waiver_body_def RULE_ID_MAX_LENGTH_def)
  have hard: "gb_rule_id waiver_body \<notin> gp_hard_gate_rules sample_policy" by (simp add: waiver_body_def sample_policy_def)
  have b: "gb_scope_type waiver_body = ''rule_global''" "gb_scope_value waiver_body = []" "gb_rule_id waiver_body = ''r1''" "gb_expires_at waiver_body = 100"
    "gb_requested_by waiver_body = ''alice''" "gb_reason waiver_body = []" "cn_subject (person ''bob'' [''approver'']) = ''bob''"
    by (simp_all add: waiver_body_def person_def)
  let ?w = "row_to_dict (snd (known_skills False empty_inventory)) (''u1'', row)"
  have r: "create_allowlist_entry ''u1'' False sample_policy empty_inventory plain_request (person ''bob'' [''approver'']) waiver_body ?st =
      (\<lparr>ws_gate = gdb, ws_grants = Suc 0\<rparr>, Answer ?w)"
    unfolding create_allowlist_entry_def approver_enters [OF len] using hard by (simp add: b g)
  have "wi_row ?w = row" by (simp add: row_to_dict_def)
  then have "aw_approved_by (wi_row ?w) = ''bob''" using waiver_has_two_people [OF r] unfolding b by auto
  then show ?thesis using r by (intro exI [of _ "\<lparr>ws_gate = gdb, ws_grants = Suc 0\<rparr>"] exI [of _ ?w]) simp
qed

definition review_start :: "unit market_state" where
  "review_start = upload_start\<lparr>ms_system := empty_system\<lparr>sy_gate := demo_gate, sy_orch := reviewable_orch\<rparr>\<rparr>"

theorem queue_marks_refused_decisions_witness:
  "\<exists>items st' x. list_reviews False (person ''bob'' [''approver'']) review_start = (review_start, Answer items) \<and>
     decide_review strict_finding 1 demo_signer False sample_policy plain_request (person ''bob'' [''approver'']) ''s1'' ''approve'' ''ok'' review_start = (st', Answer x) \<and>
     (\<exists>item \<in> set items. ri_scan_id item = ''s1'' \<and> \<not> ri_superseded item)"
proof -
  have st: "sy_gate (ms_system review_start) = demo_gate" "sy_orch (ms_system review_start) = reviewable_orch"
    by (simp_all add: review_start_def)
  obtain row gdb where sub: "submit_review_decision strict_finding reviewable_orch demo_gate None 1 demo_signer ''s1'' ''approve'' ''bob'' ''ok'' sample_policy = Inr (row, gdb)"
    using demo_review by (elim exE)
  have who: "cn_subject (person ''bob'' [''approver'']) = ''bob''" by (simp add: person_def)
  have "\<exists>items. list_reviews False (person ''bob'' [''approver'']) review_start = (review_start, Answer items)"
    by (simp add: list_reviews_def role_route_def require_role_def has_role_def person_def WAIVER_ROLES_def raise_if_def Let_def)
  then obtain items where items: "list_reviews False (person ''bob'' [''approver'']) review_start = (review_start, Answer items)" by blast
  have d: "\<exists>st' x. decide_review strict_finding 1 demo_signer False sample_policy plain_request (person ''bob'' [''approver'']) ''s1'' ''approve'' ''ok'' review_start = (st', Answer x)"
    unfolding decide_review_def approver_enters [OF TrueI] st who by (simp add: sub)
  then obtain st' x where d: "decide_review strict_finding 1 demo_signer False sample_policy plain_request (person ''bob'' [''approver'']) ''s1'' ''approve'' ''ok'' review_start = (st', Answer x)"
    by blast
  have dist: "distinct (map fst (gd_verdicts (sy_gate (ms_system review_start))))" unfolding st by (simp add: demo_gate_def)
  have "\<exists>item \<in> set items. ri_scan_id item = ''s1'' \<and> \<not> ri_superseded item"
    using queue_marks_refused_decisions [OF dist items, THEN conjunct2, rule_format, OF d] by (elim conjE)
  then show ?thesis using items d by (intro exI [of _ items] exI [of _ st'] exI [of _ x]) simp
qed

definition stale_start :: "unit market_state" where
  "stale_start = upload_start\<lparr>ms_inventory := market_inventory\<lparr>db_versions := [(''d'', \<lparr>sv_skill_id = ''skill'', sv_toolchain_digest = ''old'',
     sv_declared_perms = PNone, sv_created_at = 0\<rparr>)]\<rparr>\<rparr>"

definition stale_status :: toolchain_status where
  "stale_status = \<lparr>ts_skill_id = ''skill'', ts_trust_tier = PUBLIC, ts_content_hash = ''d'', ts_recorded_toolchain_digest = ''old''\<rparr>"

lemma stale_statuses: "list_published_toolchain_statuses (ms_inventory stale_start) = Inr [stale_status]"
  by (simp add: list_published_toolchain_statuses_def joined_versions_def stale_start_def market_inventory_def stale_status_def
      TrustTier_of_def trust_tier_members_def dict_setdefault_def)

lemma demo_digest: "current_toolchain_digest upload_demo {} = Inr ''d''"
proof -
  have cfg: "mr_platform upload_demo = demo_platform" "mr_policy upload_demo = sample_policy" "enabled_engines upload_demo {} = [sample_engine]"
    by (simp_all add: upload_demo_def market_demo_def enabled_engines_def filter_enabled_engines_def)
  show ?thesis unfolding current_toolchain_digest_def cfg using demo_keys unfolding scan_keys_def by (auto simp: res_bind_eq_Inr)
qed


end
