(* ===== verification/Admin_Samples.thy ===== *)
theory Admin_Samples
  imports Admin_Api Console_Samples
begin

text \<open>Concrete runs of the administration's endpoints: a session codec that gives back what it stores, a deployment with
  two administrators, a login, a policy change and a sequence of requests.\<close>

section \<open>A session codec\<close>

text \<open>A text is written with a mark before each character and one at its end.\<close>

definition enc :: "string \<Rightarrow> string" where
  "enc s = concat (map (\<lambda>c. [CHR ''+'', c]) s) @ ''.''"

fun dec :: "string \<Rightarrow> string \<times> string" where
  "dec (a # c # rest) = (if a = CHR ''+'' then (c # fst (dec rest), snd (dec rest)) else ([], c # rest))"
| "dec _ = ([], [])"

lemma dec_enc: "dec (enc s @ rest) = (s, rest)"
proof (induction s)
  case Nil
  then show ?case by (cases rest) (simp_all add: enc_def)
qed (simp add: enc_def)

fun dec_list :: "nat \<Rightarrow> string \<Rightarrow> string list" where
  "dec_list 0 t = []"
| "dec_list (Suc n) t = (if t = [] then [] else fst (dec t) # dec_list n (snd (dec t)))"

lemma enc_nonempty [simp]: "enc s \<noteq> []" by (simp add: enc_def)

lemma dec_list_enc: "length ss \<le> n \<Longrightarrow> dec_list n (concat (map enc ss)) = ss"
proof (induction ss arbitrary: n)
  case Nil
  then show ?case by (cases n) simp_all
next
  case (Cons s ss)
  then obtain m where "n = Suc m" "length ss \<le> m" by (cases n) simp_all
  then show ?case using Cons.IH by (simp add: dec_enc)
qed

lemma length_enc: "length ss \<le> length (concat (map enc ss))"
  by (induction ss) (simp_all add: enc_def)

fun demo_dumps :: "pyval \<Rightarrow> string" where
  "demo_dumps (PStr s) = CHR ''s'' # s"
| "demo_dumps (PDict [(k, PStr s), (l, PStr role)]) = CHR ''r'' # enc s @ role"
| "demo_dumps (PDict [(k, PStr s), (l, PList roles)]) = CHR ''l'' # enc s @ concat (map (\<lambda>v. case v of PStr x \<Rightarrow> enc x | _ \<Rightarrow> []) roles)"
| "demo_dumps _ = []"

fun demo_loads :: "string \<Rightarrow> pyval option" where
  "demo_loads (k # t) =
     (if k = CHR ''s'' then Some (PStr t)
      else if k = CHR ''r'' then Some (PDict [(PStr ''subject'', PStr (fst (dec t))), (PStr ''role'', PStr (snd (dec t)))])
      else Some (PDict [(PStr ''subject'', PStr (fst (dec t))), (PStr ''roles'', PList (map PStr (dec_list (length t) (snd (dec t)))))]))"
| "demo_loads [] = None"

definition demo_codec :: session_codec where
  "demo_codec = \<lparr>sc_sha256 = id, sc_dumps = demo_dumps, sc_loads = demo_loads\<rparr>"

lemma demo_codec_ok: "codec_ok demo_codec"
proof -
  have "dec_list (length (enc s) + length (concat (map enc roles))) (concat (map enc roles)) = roles" for s roles
    by (rule dec_list_enc) (use length_enc [of roles] in simp)
  then show ?thesis by (auto simp: codec_ok_def session_payload_def demo_codec_def dec_enc comp_def)
qed

section \<open>The deployment\<close>

definition admin_demo :: admin_runtime where
  "admin_demo = \<lparr>at_engine_metadatas = [], at_sandbox_llm_configured = True, at_safe_load = demo_load, at_accounts_configured = True,
     at_hash_password = id, at_verify_password = (=), at_codec = demo_codec, at_breakglass_enabled = False, at_breakglass_credentials = None,
     at_verify_totp = (\<lambda>_ _ _. False), at_breakglass_session_ttl_s = 900, at_local_auth_enabled = True, at_local_account_store = True,
     at_local_session_ttl_s = 28800\<rparr>"

definition admin_start :: admin_state where
  "admin_start = \<lparr>as_redis = (\<lambda>k. None), as_disabled = {}, as_gate = empty_gate, as_policy = versioned ''v1'' {}, as_admin = two_admins,
     as_group_role_map = []\<rparr>"

lemma admin_start_laws: "engines_law admin_demo admin_start" "groups_law admin_start" "accounts_law admin_start"
proof -
  have "has_admin two_admins" unfolding has_admin_def by (intro exI [of _ 1] exI [of _ ann]) (simp add: two_admins_def ann_def active_admin_def)
  then show "accounts_law admin_start" by (simp add: accounts_law_def admin_start_def serial_ids_def two_admins_def upt_rec)
qed (simp_all add: engines_law_def groups_law_def admin_start_def two_admins_def)

definition bob :: console_caller where "bob = person ''bob'' [''admin'']"

lemma bob_enters: "write_route [''admin''] True True plain_request bob body st = body st"
  by (simp add: write_route_def role_route_def require_role_def raise_if_def plain_csrf has_role_def bob_def person_def)


section \<open>A policy change\<close>

theorem minor_policy_change_never_applies_witness:
  "\<exists>st1 row. propose_policy_endpoint admin_demo 0 plain_request bob ''v2'' admin_start = (st1, Answer (1, row)) \<and>
     map_of (gd_proposals (as_gate (fold (serve_admin admin_demo) [Approve 5 plain_request (person ''ann'' [''admin'']) 1] st1))) 1 = Some row \<and>
     pp_status row = ''approved''"
proof -
  have parse: "parse_gate_policy (render_policy sorted_list_of_set (versioned ''v2'' {})) = Inr (versioned ''v2'' {})"
    using demo_load_valid [of "''v2''"] by (simp add: demo_load_def load_gate_policy_def)
  have rules: "gp_hard_gate_rules (versioned v {}) = {}" for v by (simp add: versioned_def)
  define p where "p = propose_policy demo_load 0 ''bob'' ''v2'' (empty_gate, versioned ''v1'' {})"
  have "\<exists>row gdb. p = Inr (Inr ((1, row), gdb)) \<and> \<not> pp_changes_hard_gate_rules row"
    by (simp add: p_def propose_policy_def propose_policy_change_def demo_load_def parse rules Let_def empty_gate_def)
  then obtain row gdb where r: "p = Inr (Inr ((1, row), gdb))" "\<not> pp_changes_hard_gate_rules row" by blast
  have f: "at_safe_load admin_demo = demo_load" "cn_subject bob = ''bob''" "as_gate admin_start = empty_gate" "as_policy admin_start = versioned ''v1'' {}"
    by (simp_all add: admin_demo_def bob_def person_def admin_start_def)
  have e: "propose_policy_endpoint admin_demo 0 plain_request bob ''v2'' admin_start = (admin_start\<lparr>as_gate := gdb\<rparr>, Answer (1, row))"
    unfolding propose_policy_endpoint_def bob_enters f p_def [symmetric] r(1) by simp
  have "1 \<notin> fst ` set (gd_proposals (as_gate admin_start))" by (simp add: f empty_gate_def)
  from minor_policy_change_never_applies [OF e r(2) this, of "[Approve 5 plain_request (person ''ann'' [''admin'']) 1]"] e show ?thesis by blast
qed

section \<open>A login\<close>

definition local_request :: request where
  "local_request = \<lparr>rq_method = ''GET'', rq_cookies = [(''skillscan_local_session'', ''t'')], rq_headers = []\<rparr>"

theorem local_session_outlives_account_witness:
  "\<exists>st' cookies. login_local admin_demo True 0 ''t'' ''c'' ''ann'' ''h'' admin_start = (st', Answer cookies) \<and>
     (let st2 = serve_admin admin_demo (ChangeAccount 1 plain_request bob 1 None (Some ''disabled'')) st'
      in map_option la_status (map_of (am_accounts (as_admin st2)) 1) = Some ''disabled'' \<and>
         resolve_local_session_context (demo_runtime\<lparr>ar_codec := demo_codec\<rparr>) 100 local_request (as_redis st2) =
           Inr (Some (console_session 100 (PStr ''ann'') {PStr ''admin''})))"
proof -
  let ?q = "ChangeAccount 1 plain_request bob 1 None (Some ''disabled'')"
  let ?rt = "demo_runtime\<lparr>ar_codec := demo_codec\<rparr>"
  have "\<exists>r. authenticate_local (=) (am_accounts two_admins) 0 ''ann'' ''h'' (\<lambda>k. None) = Inr (r, Some ann)"
    by (simp add: authenticate_local_def is_locked_out_def read_in_window_def redis_get_def redis_entry_def fetch_accounts_def two_admins_def ann_def
        LOCKOUT_THRESHOLD_def)
  then obtain r where r: "authenticate_local (=) (am_accounts two_admins) 0 ''ann'' ''h'' (\<lambda>k. None) = Inr (r, Some ann)" by blast
  have f: "at_local_auth_enabled admin_demo" "at_local_account_store admin_demo" "at_verify_password admin_demo = (=)" "as_admin admin_start = two_admins"
    "as_redis admin_start = (\<lambda>k. None)" by (simp_all add: admin_demo_def admin_start_def)
  obtain st' cookies where l: "login_local admin_demo True 0 ''t'' ''c'' ''ann'' ''h'' admin_start = (st', Answer cookies)" "as_admin st' = two_admins"
    by (simp add: login_local_def f r audited_def)
  have ok: "codec_ok (at_codec admin_demo)" "ar_codec ?rt = at_codec admin_demo" "ar_local_redis ?rt"
    "map_of (rq_cookies local_request) LOCAL_SESSION_COOKIE_NAME = Some ''t''" "100 < 0 + at_local_session_ttl_s admin_demo" "list_all leaves_store [?q]"
    by (simp_all add: demo_codec_ok admin_demo_def demo_runtime_def local_request_def LOCAL_SESSION_COOKIE_NAME_def)
  obtain i account where a: "(i, account) \<in> set (am_accounts (as_admin admin_start))" "la_username account = ''ann''"
    "resolve_local_session_context ?rt 100 local_request (as_redis (fold (serve_admin admin_demo) [?q] st')) =
      Inr (Some (console_session 100 (PStr ''ann'') {PStr (la_role account)}))"
    using local_session_outlives_account [OF ok(1) l(1) ok(2-6)] by blast
  have "la_role account = ''admin''" using a(1) by (auto simp: f two_admins_def ann_def)
  moreover have "map_option la_status (map_of (am_accounts (as_admin (serve_admin admin_demo ?q st'))) 1) = Some ''disabled''"
  proof -
    have c: "at_accounts_configured admin_demo" by (simp add: admin_demo_def)
    have "\<exists>row db. set_account_role_status 1 1 None (Some ''disabled'') (cn_subject bob) KNOWN_ROLES two_admins two_admins = Inr (row, db) \<and>
        map_option la_status (map_of (am_accounts db) 1) = Some ''disabled''"
      by (simp add: set_account_role_status_def raise_if_def ACCOUNT_STATUSES_def two_admins_def ann_def active_admin_def Let_def)
    then obtain row db where "set_account_role_status 1 1 None (Some ''disabled'') (cn_subject bob) KNOWN_ROLES two_admins two_admins = Inr (row, db)"
      "map_option la_status (map_of (am_accounts db) 1) = Some ''disabled''" by blast
    then show ?thesis by (simp add: update_account_endpoint_def c bob_enters l(2))
  qed
  ultimately show ?thesis using l(1) a(3) by (intro exI [of _ st'] exI [of _ cookies]) (simp add: Let_def)
qed

end
