(* ===== verification/Spec2Isabelle.thy ===== *)
theory Spec2Isabelle
  imports Core_Engines Core_Policy Gate_Policy_Load Inventory_Service Scan_Properties Worker_Lifecycle Audit_Chain
    Reconciliation Engine_Dispatch Archive_Unpack Outbox_Relay Report_Schedule Policy_Rollout Worker_Upkeep Admin_Access
    Gateway_Auth Engine_Health Admin_Samples
begin

text \<open>
  A verification library for SkillScan, the scanner and admission gate for agent skill packages.

  \<^bold>\<open>The program.\<close> A skill package is uploaded (gateway, marketplace interface), unpacked by a
  hardened archive reader, identified by a content hash and registered in the inventory. A scan job is put on
  a stream; floor engines run in the monolith's worker, sandboxed engines in the engine runner, and each stores
  its findings in a blob store. A collector aggregates the stored findings, the gate turns them into a signed
  verdict PASS, REVIEW or BLOCK under a versioned policy and an allowlist, and a background worker moves the
  skill through its lifecycle, chains audit records, relays verdicts, follows policy changes, fires reports and
  prunes telemetry. A reconciliation service compares the marketplace with the verdicts in force. People
  enter through an identity provider, local accounts or an emergency path, machines through tokens, passwords
  or the mesh.

  \<^bold>\<open>The theories\<close>, each naming the files under src/ it models:

  \<^item> Skill_Prelude: results and exceptions (\<open>res\<close>, \<open>raise_if\<close>), strings, stable sorting,
    dictionaries as association lists, maximum of a list, and two locales: \<open>best_per_key\<close> (keep the best
    element per key; interpreted by deduplication and by the choice of the current verdict) and
    \<open>prefix_code\<close> (injective concatenations; interpreted by the four layers of the canonical encoding).
  \<^item> libs/skillscan_core: Core_Models (models.py), Core_Scoring and Core_Score (scoring.py), Core_Gate (gate.py),
    Core_Policy (policy semantics in models.py), Core_Canonical (canonical.py), Core_Engines (engines.py),
    Core_Samples (inputs of witnesses), Skill_Package (package and frontmatter helpers).
  \<^item> apps/monolith/modules/inventory: Inventory_Lifecycle (lifecycle.py, ownership.py; locales
    \<open>event_log\<close> and \<open>event_log_final\<close>) and Inventory_Service (service.py, models.py; their
    interpretations).
  \<^item> apps/monolith/modules/gate: Gate_Policy_Load (policy.py), Gate_Service (service.py, models.py,
    policy_workflow.py), Gate_Reviews (reviews.py and the reachable states of the gate), Policy_Rollout (promotion
    and reload of approved policies in worker.py, the policy endpoints of admin/router.py).
  \<^item> apps/monolith/modules/orchestration: Findings_Schema, Scan_Store, Scan_Service (service.py), Scan_Transactions
    (the interleaved transactions as a step relation), Scan_Properties, Engine_Dispatch (the two engine workers,
    engine_runner/worker.py), Worker_Upkeep (retention.py, toolchain advance, the tick and the loop of worker.py),
    Engine_Health (engine_health.py: evidence of each engine's contribution and the summaries built on it).
  \<^item> services/engine_runner: Archive_Unpack (normalizer.py), Engine_Registry (engine names and toggles,
    admin/engine_registry.py), Detector_Permissions (the permission detector and the evidence guard all detectors
    share: skill_permissions.py, _engine_base.py).
  \<^item> apps/monolith/modules/marketplace_api: Marketplace_Views (views.py: what the answer of a poll may show),
    Marketplace_Api (router.py, ratelimit.py, models.py: submission and poll as handlers over the inventory, the
    scan system, the shared store and the fetch log), Market_Samples (inputs of witnesses).
  \<^item> The console: Console_Api (gateway/router.py, the console caller and the runtime: upload, detail and list of
    scans, the push channel), Inventory_Api (inventory/router.py: routes as functions with role and token checks;
    locale \<open>writing_route\<close>, what any handler that runs one service operation keeps, interpreted by the five
    writing routes), Gate_Api (gate/router.py, gate/reviews_router.py, reeval/router.py: waivers, review queue and
    decisions, stale skills, drift and rescans), Admin_Api (admin/router.py: engines, policy, accounts, group mappings,
    break-glass access and the two logins; the requests as a datatype, served one after another), Console_Samples and
    Admin_Samples (inputs of witnesses).
  \<^item> Worker_Lifecycle (the lifecycle tick of worker.py and drift), Audit_Chain (audit), Reconciliation (reeval),
    Outbox_Relay (integration_relay), Report_Schedule (reporting and its schedules).
  \<^item> Redis_Store (the commands of the shared store that are used, libs/common/redis_window_counter.py),
    Admin_Access (redis_session.py, admin/breakglass.py, local_auth.py, accounts_service.py), Gateway_Auth
    (gateway/auth: rbac.py, session.py, m2m.py, dependencies.py, middleware.py, libs/common/mtls.py).

  \<^bold>\<open>State and effects.\<close> A database is a record of its tables, a table a list of rows in insertion
  order; a transaction is a function from the tables it reads to a result or an exception and new tables. The
  shared store is a map from keys to values with an expiry, and every command takes the time of the server.
  Exceptions are the constructors of \<open>py_error\<close>. Where the code commits several transactions, the
  model has one definition per transaction, and the interleavings of several processes are step relations
  (\<open>tx_step\<close>, \<open>gate_step\<close>, \<open>rollout_step\<close>, the drainers of Audit_Chain, the reachable
  caches of Gateway_Auth) with invariants by rule induction.

  \<^bold>\<open>Parameters.\<close> Code outside the repository is an argument, with what is relied on as a named
  hypothesis: SHA-256 (no collision between the values at hand), Unicode normalisation and case mapping, the YAML
  and JSON readers, the validation library, the signer, the archive libraries, the engines, the marketplace, the
  identity provider, the password and one-time code checks, clocks and random tokens. Reals stand for floating
  point numbers, except where NaN, infinities or overflow matter (\<open>pfloat\<close>).

  \<^bold>\<open>What is proved.\<close> Gate: findings at the threshold block, waivers cannot lift hard gates or
  serious findings, missing engines fail closed, model-based findings only escalate. Scans: only a recorded
  complete result passes, verdicts are final, every given-up scan is decided, the ticks refine the transaction
  system, and a published skill was scanned. Workers acknowledge only what is reported. Lifecycle histories are
  legal and follow their own scan. Archives: accepted packages are contained and bounded and read back. Audit: the
  ledger is exact under concurrent drainers and tamper evident. Policy: what runs was proposed, parsed and
  approved by two people. Access: machines stay out of the console, elevated roles are granted, writes need the
  double-submit token, revocation takes effect, break-glass is single use, an administrator remains. Marketplace:
  an answer is safe only for a PASS in force, a foreign skill and an absent one get the same answer, an accepted
  package was unpacked, hashed, submitted at the tier on record and put in state scanning, and a client has exactly
  its rate. Detectors and evidence: the permission rules fire exactly as the root manifest calls for, and
  the evidence of a scan shows as complete exactly when each engine delivered a trusted usable result or is not run by
  the deployment. Console: a refused upload leaves nothing behind, detail and list of scans show the same scans and the
  same facts, only authentic fresh pushes act, any sequence of inventory requests is a run of the inventory service,
  the review queue marks exactly the decisions that would be refused, a waiver needs two people, and a drain takes the
  most exposed stale skills. Administration: any sequence of requests keeps the floor engines on, the role mapping in
  step with its table and an active administrator; when the emergency access is armed; which policy changes
  never take effect; how long a local session keeps its role. Relay, reports and upkeep: exact delivery, cron against its denotation, one firing a minute, bounded pruning.
  Several theorems state where the code departs from its documentation.

  \<^bold>\<open>Bounds and fuel.\<close> Every function is total by structural recursion or a measure. Loops bounded
  in the code (retries of the audit drain, batches of the sweeps, drain rounds, retention batches) carry the
  bound of the code as their fuel; the worker loop is a recursion over the ticks of a run.

  \<^bold>\<open>Not modelled.\<close> The routes of the audit, reporting and intelligence modules and the framework's request
  parsing; signatures (gate/signer.py, an external
  library); the adapters that run third-party scanners and the pattern-based detectors; exports to SARIF, CSV and PDF;
  the OIDC and SAML protocol exchanges; process wiring, configuration classes, logging and metrics; database migrations
  and scripts; the web console. The manifest lists each with its reason.
\<close>

section \<open>From submission to publication\<close>

lemma tx_step_distinct_verdicts:
  assumes "tx_step c c'" "distinct (map fst (gd_verdicts (sy_gate (fst c))))"
  shows "distinct (map fst (gd_verdicts (sy_gate (fst c'))))"
  using assms
proof (induction rule: tx_step.induct)
  case (tx_submit pf sy now uuid files who ms pol tier src req dl sy' r P)
  have "sy_gate sy' = sy_gate sy" using tx_submit(1) by (cases rule: submit_scan_cases)
  then show ?case using tx_submit(2) by simp
next
  case (tx_waiver sy u st sv rid ex ap rq rs row' g actor P)
  have "gd_verdicts g = gd_verdicts (sy_gate sy)"
    using tx_waiver(1) by (auto elim: grant_InrE simp: revoke_allowlist_entry_def split: option.splits)
  then show ?case using tx_waiver(2) by simp
next
  case (tx_review V sy invt now sg s d who why pol r g P)
  then obtain row2 where "gd_verdicts g = dict_put s r (gd_verdicts (sy_gate sy))" by (elim submit_review_InrE)
  then show ?case using tx_review(2) by (simp add: distinct_update)
next
  case (tx_decide sy now cfg s sr tier extra vr g P)
  then obtain r where "gd_verdicts g = gd_verdicts (sy_gate sy) @ [(s, r)]" "s \<notin> fst ` set (gd_verdicts (sy_gate sy))"
    by (elim decide_and_record_InrE)
  then show ?case using tx_decide(2) by simp
next
  case (tx_dead_decide sy now cfg s ch reason tier vr g P)
  then obtain r where "gd_verdicts g = gd_verdicts (sy_gate sy) @ [(s, r)]" "s \<notin> fst ` set (gd_verdicts (sy_gate sy))"
    by (elim decide_and_record_InrE)
  then show ?case using tx_dead_decide(2) by simp
qed simp_all

lemma tx_reachable_distinct_verdicts:
  "tx_reachable c \<Longrightarrow> distinct (map fst (gd_verdicts (sy_gate (fst c))))"
proof (induction rule: rtranclp_induct)
  case base
  then show ?case by (simp add: empty_system_def empty_gate_def)
next
  case (step y z)
  then show ?case using tx_step_distinct_verdicts by blast
qed

text \<open>C1: Nothing is published unscanned. Take any reachable state of the scan transactions, however they
  interleaved, and let the lifecycle tick read its verdicts, over any inventory. If the tick writes that a
  skill is published, answering an event that names a scan, then this very scan was submitted, its verdict is
  PASS, and its result is recorded; and unless the verdict is marked fail-closed every engine the policy
  required had reported.\<close>

theorem published_was_scanned:
  assumes "tx_reachable (sy, P)" "sync_lifecycle_tick (sy_gate sy) now idb = (idb', n)"
    and "history idb' s = history idb s @ new" "e \<in> set new" "ev_to_state e = ''published''"
    and "last_event idb s = Some w" "truthy (ev_scan_id w)"
  shows "\<exists>k row rr. ev_scan_id e = Some k \<and> ev_scan_id w = Some k \<and> ev_content_hash e = ev_content_hash w \<and>
    map_of (gd_verdicts (sy_gate sy)) k = Some row \<and> vd_verdict row = ''PASS'' \<and>
    map_of (od_jobs (sy_orch sy)) k \<noteq> None \<and> map_of (od_results (sy_orch sy)) k = Some rr \<and>
    (vd_fail_closed row \<or> rr_required_ok rr)"
proof -
  have dist: "distinct (map fst (gd_verdicts (sy_gate sy)))" using tx_reachable_distinct_verdicts [OF assms(1)] by simp
  have "new = settled_events now (own_verdict (sy_gate sy) w) idb s"
    using sync_tick_spec(1) [OF dist assms(2), of s] assms(3,6) by simp
  then obtain x xs where x: "settled_events now (own_verdict (sy_gate sy) w) idb s = x # xs" "e = x \<or> e \<in> set xs"
    using assms(4) by (cases "settled_events now (own_verdict (sy_gate sy) w) idb s") auto
  from x(1) obtain w' v t where s: "last_event idb s = Some w'" "truthy (ev_content_hash w')"
    "own_verdict (sy_gate sy) w = Some v" "VERDICT_TARGET_STATE v = Some t"
    "x = moved (now s) s (Some (ev_to_state w')) t (''verdict '' @ v) (the (ev_content_hash w'))
       (if truthy (ev_scan_id w') then ev_scan_id w' else None)"
    "xs = (if t = ''published'' \<and> pinned_elsewhere idb s (the (ev_content_hash w'))
      then [moved (now s) s (Some ''published'') ''quarantined'' (drift_reason (check_drift idb s (the (ev_content_hash w')))
        (the (ev_content_hash w'))) (the (ev_content_hash w')) None] else [])"
    by (rule settledE)
  have w': "w' = w" using s(1) assms(6) by simp
  have e: "e = x" using x(2) s(6) assms(5) by (auto simp: moved_def split: if_splits)
  have v: "v = ''PASS''" using s(4,5) e assms(5) by (auto simp: moved_def verdict_targets)
  obtain k where k: "ev_scan_id w = Some k" using assms(7) by (cases "ev_scan_id w") (simp_all add: truthy_def)
  then obtain row where row: "map_of (gd_verdicts (sy_gate sy)) k = Some row" "vd_verdict row = ''PASS''"
    using s(3) assms(7) v by (auto simp: own_verdict_def)
  have "verdict_ok (sy_orch sy) k row"
    using tx_reachable_ok [OF assms(1)] row(1) by (simp add: conc_ok_def states_ok_def)
  then obtain rr where "map_of (od_jobs (sy_orch sy)) k \<noteq> None" "map_of (od_results (sy_orch sy)) k = Some rr"
    "vd_fail_closed row \<or> rr_required_ok rr"
    using row(2) by (auto simp: verdict_ok_def job_state_def)
  moreover have "ev_scan_id e = Some k" "ev_content_hash e = ev_content_hash w"
    using e s(2,5) w' k assms(7) by (auto simp: moved_def truthy_def)
  ultimately show ?thesis using k row by (intro exI conjI)
qed

section \<open>A run from submission to publication\<close>

text \<open>Under a policy that requires no engine the submitted package of the other witnesses is scored
  without findings and passes.\<close>

definition open_policy :: gate_policy where
  "open_policy = sample_policy\<lparr>gp_required_engines := {}\<rparr>"

definition open_config :: "unit decide_config" where
  "open_config = demo_config\<lparr>dc_policy := open_policy\<rparr>"

lemma open_policy_valid: "valid_policy open_policy"
  using sample_policy_valid by (simp add: valid_policy_def open_policy_def)

lemma open_scan:
  obtains sr where "aggregate ''d'' [] open_policy 0 5000 = Inr sr" "vr_verdict (decide sr open_policy PUBLIC [] 1 0 None) = PASS"
proof -
  obtain sr where sr: "aggregate ''d'' [] open_policy 0 5000 = Inr sr"
    using survivors_subset [of "[]"]
    by (cases "aggregate ''d'' [] open_policy 0 5000") (auto simp: aggregate_Inl dedup_eq all_findings_def safe_results_def)
  then have "sr_required_ok sr" "sr_findings sr = []" "sr_severity sr = NONE" "\<not> sr_trifecta_present sr"
      "\<not> sr_findings_capped sr" "set (sr_hard_gate_hits sr) = {}"
    using survivors_subset [of "[]"]
    by (auto elim!: aggregate_InrE simp: all_findings_def safe_results_def evaluate_findings_def
        counted_findings_def collect_signals_def ALL_TRIFECTA_SIGNALS_def open_policy_def)
  then have "vr_verdict (decide sr open_policy PUBLIC [] 1 0 None) = PASS" by (simp add: sample_eval open_policy_def)
  then show thesis using sr that by blast
qed

lemma open_config_simps [simp]:
  "dc_policy open_config = open_policy" "dc_signer open_config = token_signer" "dc_allowlist open_config = []"
  "dc_waited open_config = []" "dc_additional open_config = []" "dc_default_tier open_config = INTERNAL"
  by (simp_all add: open_config_def demo_config_def)

lemma passing_run:
  obtains sy P row where "tx_reachable (sy :: unit system, P)" "map_of (gd_verdicts (sy_gate sy)) ''s1'' = Some row"
    "vd_verdict row = ''PASS''"
proof -
  obtain sr where sr: "aggregate ''d'' [] open_policy 0 5000 = Inr sr" "vr_verdict (decide sr open_policy PUBLIC [] 1 0 None) = PASS"
    by (rule open_scan)
  have job: "map_of (od_jobs (sy_orch demo_system)) ''s1'' = Some demo_job" "sj_state demo_job \<in> UNSCORED_STATES"
    "sj_content_hash demo_job = ''d''" "sj_trust_tier demo_job = Some (trust_tier_value PUBLIC)"
    using demo_ready(2,3) by (simp_all add: demo_job_def)
  have load: "load_and_aggregate (dc_reader open_config) (sy_blobs demo_system) ''s1'' ''d'' (engine_set open_config []) open_policy 0 5000
      = Inr (sr, [])"
    by (simp add: load_and_aggregate_def engine_set_def dict_fromkeys_def sr(1))
  obtain odb where odb: "score_transaction open_config 1 (sy_orch demo_system) (sy_blobs demo_system) ''s1'' [] False =
      Inr (Scored odb sr (Some (trust_tier_value PUBLIC)) [])"
    using job demo_system_tables by (simp add: score_transaction_def load raise_if_def Let_def)
  have tier: "effective_trust_tier (Some (trust_tier_value PUBLIC)) (dc_default_tier open_config) = Inr PUBLIC"
    by (simp add: effective_trust_tier_def TrustTier_of_value)
  let ?sy1 = "demo_system\<lparr>sy_orch := odb\<rparr>"
  have 1: "tx_step (demo_system, {#}) (?sy1, add_mset (To_Decide open_config ''s1'' sr PUBLIC []) {#})"
    by (rule tx_score [OF _ odb tier]) (simp add: open_policy_valid)
  obtain vr g where g: "decide_and_record (sy_gate ?sy1) 1 (dc_signer open_config) ''s1'' sr (dc_policy open_config) PUBLIC
      (dc_allowlist open_config) (dc_operator open_config) 1 [] = Inr (vr, g)"
    using decide_and_record_total [OF token_signs, of "''s1''" 1 sr open_policy PUBLIC "[]" "dc_operator open_config" 1 "[]"]
    by (auto simp: demo_submitted empty_gate_def)
  then obtain row where row: "vr = decide sr open_policy PUBLIC [] 1 0 None" "gd_verdicts g = gd_verdicts (sy_gate ?sy1) @ [(''s1'', row)]"
    "vd_verdict row = verdict_name (vr_verdict vr)"
    by (elim decide_and_record_InrE) simp
  have "tx_reachable (?sy1\<lparr>sy_gate := g\<rparr>, add_mset (Decided ''s1'') {#})"
    using demo_system_reachable 1 tx_decide [OF g, of "{#}"] by (meson rtranclp.rtrancl_into_rtrancl)
  then show thesis
    by (rule that) (use row sr(2) in \<open>simp_all add: demo_submitted empty_gate_def\<close>)
qed

theorem published_was_scanned_witness:
  "\<exists>(sy :: unit system) d0 d1 n. demo_scanning = Inr d0 \<and> sync_lifecycle_tick (sy_gate sy) (\<lambda>_. 5) d0 = (d1, n) \<and>
     current_state d1 ''k'' = Some ''published'' \<and> map_of (od_results (sy_orch sy)) ''s1'' \<noteq> None"
proof -
  obtain sy :: "unit system" and P row where sy: "tx_reachable (sy, P)" "map_of (gd_verdicts (sy_gate sy)) ''s1'' = Some row"
    "vd_verdict row = ''PASS''" by (rule passing_run)
  obtain d0 where d0: "demo_scanning = Inr d0" "last_event d0 ''k'' = Some (waiting_event 1 ''s1'')" "db_baselines d0 = []"
    by (rule demo_d0)
  obtain d1 n where t: "sync_lifecycle_tick (sy_gate sy) (\<lambda>_. 5) d0 = (d1, n)" by fastforce
  have own: "own_verdict (sy_gate sy) (waiting_event 1 ''s1'') = Some ''PASS''"
    using sy(2,3) by (simp add: own_verdict_def waiting_event_def truthy_def)
  let ?e = "moved 5 ''k'' (Some ''scanning'') ''published'' ''verdict PASS'' ''c1'' (Some ''s1'')"
  have "distinct (map fst (gd_verdicts (sy_gate sy)))" using tx_reachable_distinct_verdicts [OF sy(1)] by simp
  from sync_tick_spec(1) [OF this t, of "''k''"] have h: "history d1 ''k'' = history d0 ''k'' @ [?e]"
    using d0(2,3) own legal_targets
    by (simp add: settled_events_def waiting_event_def WAITING_STATES_def truthy_def VERDICT_TARGET_STATE_def pinned_elsewhere_def)
  have "map_of (od_results (sy_orch sy)) ''s1'' \<noteq> None"
    using published_was_scanned [OF sy(1) t h, of ?e, OF _ _ d0(2)]
    by (auto simp: moved_def waiting_event_def truthy_def)
  moreover have "current_state d1 ''k'' = Some ''published''"
    using h by (simp add: current_state_last last_event_def moved_def)
  ultimately show ?thesis using d0(1) t by (intro exI conjI)
qed

end
